(* ===== verification/Prelude.thy ===== *)
theory Prelude
  imports Main "HOL-Library.Word"
begin

text \<open>
  Shared vocabulary of the development.

  \<^item> The result type of code that can abort: a failed \<open>CHECK\<close>, a \<open>LOG(FATAL)\<close>, an
    out-of-range access or any other undefined behaviour of C++ is a value \<open>Inl e\<close> (as is
    running out of the fuel of a loop that may not end), a normal return is \<open>Inr x\<close>; \<open>rbind\<close> sequences such code and \<open>check\<close> is the \<open>CHECK\<close> macro.
  \<^item> The casts to the fixed-width unsigned types (\<open>uint8_t\<close> \<dots> \<open>uint64_t\<close>) as remainders,
    and the wrap-around of a signed \<open>int\<close>.
  \<^item> Little-endian byte encodings of integers, with both round trips.
  \<^item> Memory as a function from addresses to bytes, with \<open>memcpy\<close>.
  \<^item> Generic facts about lists and sets that several components use.
\<close>

named_theorems res_simps \<open>rules for sequencing code that may abort\<close>
named_theorems cast_simps \<open>rules for values that fit the width they are cast to\<close>

section \<open>Results of code that may abort\<close>

datatype err = Check_Failed string | Fatal string | Undefined_Behaviour string | Out_Of_Fuel

type_synonym 'a res = "err + 'a"

definition rbind :: "'a res \<Rightarrow> ('a \<Rightarrow> 'b res) \<Rightarrow> 'b res" where
  "rbind m f = (case m of Inl e \<Rightarrow> Inl e | Inr x \<Rightarrow> f x)"

definition check :: "bool \<Rightarrow> string \<Rightarrow> unit res" where
  "check b what = (if b then Inr () else Inl (Check_Failed what))"

definition is_ok :: "'a res \<Rightarrow> bool" where
  "is_ok r = (case r of Inl _ \<Rightarrow> False | Inr _ \<Rightarrow> True)"

lemma rbind_cong [fundef_cong]:
  "m = m' \<Longrightarrow> (\<And>x. m' = Inr x \<Longrightarrow> f x = f' x) \<Longrightarrow> rbind m f = rbind m' f'"
  by (auto simp: rbind_def split: sum.split)

lemma rbind_Inl [simp, res_simps]: "rbind (Inl e) f = Inl e"
  by (simp add: rbind_def)

lemma rbind_Inr [simp, res_simps]: "rbind (Inr x) f = f x"
  by (simp add: rbind_def)

lemma check_True [simp, res_simps]: "check True w = Inr ()"
  by (simp add: check_def)

lemma check_False [simp, res_simps]: "check False w = Inl (Check_Failed w)"
  by (simp add: check_def)

lemma check_eq_Inr [simp]: "check b w = Inr u \<longleftrightarrow> b"
  by (simp add: check_def)

lemma rbind_check [res_simps]:
  "rbind (check b w) f = (if b then f () else Inl (Check_Failed w))"
  by (simp add: check_def)

lemma rbind_eq_Inr_conv:
  "rbind m f = Inr y \<longleftrightarrow> (\<exists>x. m = Inr x \<and> f x = Inr y)"
  by (cases m) auto

lemma rbind_InrE:
  assumes "rbind m f = Inr y"
  obtains x where "m = Inr x" and "f x = Inr y"
  using assms by (auto simp: rbind_eq_Inr_conv)

lemma rbind_assoc: "rbind (rbind m f) g = rbind m (\<lambda>x. rbind (f x) g)"
  by (cases m) auto

lemma is_ok_simps [simp]: "is_ok (Inr x)" "\<not> is_ok (Inl e)"
  by (simp_all add: is_ok_def)

lemma is_ok_iff: "is_ok r \<longleftrightarrow> (\<exists>x. r = Inr x)"
  by (cases r) auto

text \<open>A loop over a list whose body may abort.\<close>

fun rfold :: "('a \<Rightarrow> 's \<Rightarrow> 's res) \<Rightarrow> 'a list \<Rightarrow> 's \<Rightarrow> 's res" where
  "rfold f [] s = Inr s"
| "rfold f (x # xs) s = rbind (f x s) (rfold f xs)"

lemma rfold_append: "rfold f (xs @ ys) s = rbind (rfold f xs s) (rfold f ys)"
  by (induction xs arbitrary: s) (auto simp: rbind_def split: sum.split)

lemma rfold_invariant:
  assumes "\<And>x s s'. x \<in> set xs \<Longrightarrow> P s \<Longrightarrow> f x s = Inr s' \<Longrightarrow> P s'"
    and "P s" and "rfold f xs s = Inr s'"
  shows "P s'"
  using assms
  by (induction xs arbitrary: s) (auto elim!: rbind_InrE)

section \<open>Machine integers\<close>

definition u8 :: "nat \<Rightarrow> nat" where "u8 x = x mod 2 ^ 8"
definition u16 :: "nat \<Rightarrow> nat" where "u16 x = x mod 2 ^ 16"
definition u32 :: "nat \<Rightarrow> nat" where "u32 x = x mod 2 ^ 32"
definition u64 :: "nat \<Rightarrow> nat" where "u64 x = x mod 2 ^ 64"

text \<open>A signed 32-bit \<open>int\<close>, and the conversions between it and \<open>uint32_t\<close>.\<close>

definition i32 :: "int \<Rightarrow> int" where
  "i32 x = (x + 2 ^ 31) mod 2 ^ 32 - 2 ^ 31"

definition u32_of_int :: "int \<Rightarrow> nat" where
  "u32_of_int x = nat (x mod 2 ^ 32)"

definition u64_of_int :: "int \<Rightarrow> nat" where
  "u64_of_int x = nat (x mod 2 ^ 64)"

text \<open>Unsigned subtraction wraps around.\<close>

definition usub32 :: "nat \<Rightarrow> nat \<Rightarrow> nat" where
  "usub32 a b = nat ((int a - int b) mod 2 ^ 32)"

definition usub64 :: "nat \<Rightarrow> nat \<Rightarrow> nat" where
  "usub64 a b = nat ((int a - int b) mod 2 ^ 64)"

lemma u8_id [cast_simps]: "x < 256 \<Longrightarrow> u8 x = x"
  by (simp add: u8_def)

lemma u16_id [cast_simps]: "x < 65536 \<Longrightarrow> u16 x = x"
  by (simp add: u16_def)

lemma u32_id [cast_simps]: "x < 4294967296 \<Longrightarrow> u32 x = x"
  by (simp add: u32_def)

lemma u64_id [cast_simps]: "x < 18446744073709551616 \<Longrightarrow> u64 x = x"
  by (simp add: u64_def)

lemma u32_less [simp]: "u32 x < 4294967296"
  by (simp add: u32_def)

lemma u64_less [simp]: "u64 x < 18446744073709551616"
  by (simp add: u64_def)

lemma i32_id [cast_simps]: "- 2147483648 \<le> x \<Longrightarrow> x < 2147483648 \<Longrightarrow> i32 x = x"
  by (simp add: i32_def)

lemma usub32_id [cast_simps]:
  assumes "b \<le> a" and "a < 4294967296"
  shows "usub32 a b = a - b"
proof -
  have "(int a - int b) mod 2 ^ 32 = int (a - b)"
    using assms by (simp add: of_nat_diff)
  then show ?thesis by (simp add: usub32_def)
qed

lemma usub64_id [cast_simps]:
  assumes "b \<le> a" and "a < 18446744073709551616"
  shows "usub64 a b = a - b"
proof -
  have "(int a - int b) mod 2 ^ 64 = int (a - b)"
    using assms by (simp add: of_nat_diff)
  then show ?thesis by (simp add: usub64_def)
qed

lemma usub32_u32_add: "k < 4294967296 \<Longrightarrow> usub32 (u32 (i + k)) i = k"
proof -
  assume "k < 4294967296"
  have "(int ((i + k) mod 2 ^ 32) - int i) mod 2 ^ 32 = (int (i + k) - int i) mod 2 ^ 32"
    by (simp add: zmod_int mod_diff_left_eq)
  also have "\<dots> = int k"
    using \<open>k < 4294967296\<close> by simp
  finally show ?thesis by (simp add: usub32_def u32_def)
qed

section \<open>Bytes\<close>

type_synonym byte = "8 word"

fun le_bytes :: "nat \<Rightarrow> nat \<Rightarrow> byte list" where
  "le_bytes 0 n = []"
| "le_bytes (Suc k) n = word_of_nat (n mod 256) # le_bytes k (n div 256)"

fun le_val :: "byte list \<Rightarrow> nat" where
  "le_val [] = 0"
| "le_val (b # bs) = unat b + 256 * le_val bs"

lemma length_le_bytes [simp]: "length (le_bytes k n) = k"
  by (induction k arbitrary: n) auto

lemma unat_byte_less: "unat (b :: byte) < 256"
  using unsigned_less [of b] by simp

lemma unat_byte_of_nat: "unat (word_of_nat n :: byte) = n mod 256"
  by (simp add: unat_of_nat)

lemma le_val_le_bytes: "le_val (le_bytes k n) = n mod 256 ^ k"
proof (induction k arbitrary: n)
  case 0
  then show ?case by simp
next
  case (Suc k)
  have "le_val (le_bytes (Suc k) n) = n mod 256 + 256 * (n div 256 mod 256 ^ k)"
    by (simp add: Suc.IH unat_byte_of_nat)
  also have "\<dots> = n mod 256 ^ Suc k"
    by (simp add: mod_mult2_eq)
  finally show ?case .
qed

lemma le_val_le_bytes_id: "n < 256 ^ k \<Longrightarrow> le_val (le_bytes k n) = n"
  by (simp add: le_val_le_bytes)

lemma le_val_bound: "le_val bs < 256 ^ length bs"
proof (induction bs)
  case Nil
  then show ?case by simp
next
  case (Cons b bs)
  with unat_byte_less [of b] show ?case by simp
qed

lemma le_bytes_le_val: "length bs = k \<Longrightarrow> le_bytes k (le_val bs) = bs"
proof (induction bs arbitrary: k)
  case Nil
  then show ?case by simp
next
  case (Cons b bs)
  from unat_byte_less [of b] have "(unat b + 256 * le_val bs) mod 256 = unat b"
    and "(unat b + 256 * le_val bs) div 256 = le_val bs"
    by simp_all
  with Cons show ?case by (auto simp: mod_add_left_eq)
qed

text \<open>Fields of a byte string, and the encoding of a signed \<open>int\<close>.\<close>

definition field_at :: "byte list \<Rightarrow> nat \<Rightarrow> nat \<Rightarrow> nat" where
  "field_at bs off w = le_val (take w (drop off bs))"

lemma field_at_here: "length a = w \<Longrightarrow> field_at (a @ b) 0 w = le_val a"
  by (simp add: field_at_def)

lemma field_at_skip: "length a \<le> off \<Longrightarrow> field_at (a @ b) off w = field_at b (off - length a) w"
  by (simp add: field_at_def)

lemma field_at_whole: "length a = w \<Longrightarrow> field_at a 0 w = le_val a"
  by (simp add: field_at_def)

lemmas field_at_simps = field_at_here field_at_whole field_at_skip le_val_le_bytes

definition int_bytes :: "int \<Rightarrow> byte list" where
  "int_bytes x = le_bytes 4 (u32_of_int x)"

definition in_int :: "byte list \<Rightarrow> nat \<Rightarrow> int" where
  "in_int bs off = i32 (int (field_at bs off 4))"

definition wf_int :: "int \<Rightarrow> bool" where
  "wf_int x \<longleftrightarrow> - (2 ^ 31) \<le> x \<and> x < 2 ^ 31"

lemma i32_mod: "i32 (x mod 2 ^ 32) = i32 x"
  by (simp add: i32_def mod_add_left_eq)

lemma length_int_bytes [simp]: "length (int_bytes x) = 4"
  by (simp add: int_bytes_def)

lemma in_int_bytes: "wf_int x \<Longrightarrow> i32 (int (le_val (int_bytes x))) = x"
proof -
  assume x: "wf_int x"
  have "int (le_val (int_bytes x)) = x mod 2 ^ 32"
    by (simp add: int_bytes_def u32_of_int_def le_val_le_bytes)
  with x show ?thesis by (simp only: i32_mod) (simp add: wf_int_def cast_simps)
qed

section \<open>Memory\<close>

type_synonym mem = "nat \<Rightarrow> byte"

text \<open>\<open>memcpy(dst, src, n)\<close> on disjoint regions; \<open>store_bytes\<close> and \<open>load_bytes\<close> move a list
  of bytes into and out of memory.\<close>

definition memcpy :: "mem \<Rightarrow> nat \<Rightarrow> nat \<Rightarrow> nat \<Rightarrow> mem" where
  "memcpy m dst src n = (\<lambda>a. if dst \<le> a \<and> a < dst + n then m (src + (a - dst)) else m a)"

definition load_bytes :: "mem \<Rightarrow> nat \<Rightarrow> nat \<Rightarrow> byte list" where
  "load_bytes m a n = map (\<lambda>i. m (a + i)) [0..<n]"

definition store_bytes :: "mem \<Rightarrow> nat \<Rightarrow> byte list \<Rightarrow> mem" where
  "store_bytes m a bs = (\<lambda>x. if a \<le> x \<and> x < a + length bs then bs ! (x - a) else m x)"

lemma length_load_bytes [simp]: "length (load_bytes m a n) = n"
  by (simp add: load_bytes_def)

lemma load_bytes_nth: "i < n \<Longrightarrow> load_bytes m a n ! i = m (a + i)"
  by (simp add: load_bytes_def)

lemma load_store_bytes: "n = length bs \<Longrightarrow> load_bytes (store_bytes m a bs) a n = bs"
  by (rule nth_equalityI) (auto simp: load_bytes_nth store_bytes_def)

lemma memcpy_eq_store: "memcpy m dst src n = store_bytes m dst (load_bytes m src n)"
  by (rule ext) (auto simp: memcpy_def store_bytes_def load_bytes_nth)

lemma load_bytes_cong:
  "(\<And>i. i < n \<Longrightarrow> m (a + i) = m' (a + i)) \<Longrightarrow> load_bytes m a n = load_bytes m' a n"
  by (simp add: load_bytes_def)

section \<open>Lists and sets\<close>

lemma takeWhile_sorted_append:
  assumes "\<And>x. x \<in> set xs \<Longrightarrow> P x" and "\<And>y. y \<in> set ys \<Longrightarrow> \<not> P y"
  shows "takeWhile P (xs @ ys) = xs"
proof -
  have "takeWhile P ys = []"
    using assms(2) by (cases ys) auto
  with assms(1) show ?thesis by (simp add: takeWhile_append)
qed

lemma sorted_wrt_less_index:
  assumes "sorted_wrt R xs" and "i < j" and "j < length xs"
  shows "R (xs ! i) (xs ! j)"
  using assms by (auto simp: sorted_wrt_iff_nth_less)

end
