(* ===== verification/Memory_Io.thy ===== *)
theory Memory_Io
  imports Prelude
begin

text \<open>
  The in-memory streams of \<open>src/src/mlt/include/dmlc/memory_io.h\<close>.

  \<open>MemoryFixedSizeStream\<close> writes into a region of fixed size and aborts when a write or a read
  would leave it; \<open>MemoryStringStream\<close> writes into a string that grows. The locale
  \<open>seek_stream\<close> states what a client relies on (a write appends at the cursor, a read returns
  what is there, and both advance the cursor); both classes are interpretations of it. The
  client's loop \<open>write_all\<close>, a sequence of writes, is verified once for the interface.
\<close>

section \<open>Fixed-size stream\<close>

record fixed_stream =
  p_buffer :: "byte list"
  buffer_size :: nat
  curr_ptr :: nat

definition MemoryFixedSizeStream :: "byte list \<Rightarrow> nat \<Rightarrow> fixed_stream" where
  "MemoryFixedSizeStream region n =
     \<lparr>p_buffer = region, buffer_size = n, curr_ptr = 0\<rparr>"

definition fixed_Read :: "fixed_stream \<Rightarrow> nat \<Rightarrow> (byte list \<times> fixed_stream) res" where
  "fixed_Read s sz =
     rbind (check (u64 (curr_ptr s + sz) \<le> buffer_size s) ''curr_ptr_ + size <= buffer_size_'')
       (\<lambda>_. let nread = min (usub64 (buffer_size s) (curr_ptr s)) sz in
          if nread \<noteq> 0 \<and> length (p_buffer s) < curr_ptr s + nread
          then Inl (Undefined_Behaviour ''memcpy'')
          else Inr (take nread (drop (curr_ptr s) (p_buffer s)),
                    s\<lparr>curr_ptr := u64 (curr_ptr s + nread)\<rparr>))"

definition fixed_Write :: "fixed_stream \<Rightarrow> byte list \<Rightarrow> fixed_stream res" where
  "fixed_Write s bs =
     (let size = length bs in
      if size = 0 then Inr s
      else rbind (check (u64 (curr_ptr s + size) \<le> buffer_size s) ''curr_ptr_ + size <= buffer_size_'')
        (\<lambda>_. if length (p_buffer s) < curr_ptr s + size
             then Inl (Undefined_Behaviour ''memcpy'')
             else Inr (s\<lparr>p_buffer := take (curr_ptr s) (p_buffer s) @ bs
                                      @ drop (curr_ptr s + size) (p_buffer s),
                         curr_ptr := u64 (curr_ptr s + size)\<rparr>)))"

definition fixed_Seek :: "fixed_stream \<Rightarrow> nat \<Rightarrow> fixed_stream" where
  "fixed_Seek s pos = s\<lparr>curr_ptr := pos\<rparr>"

definition fixed_Tell :: "fixed_stream \<Rightarrow> nat" where
  "fixed_Tell s = curr_ptr s"

section \<open>String stream\<close>

record string_stream =
  str_buffer :: "byte list"
  str_ptr :: nat

definition MemoryStringStream :: "byte list \<Rightarrow> string_stream" where
  "MemoryStringStream str = \<lparr>str_buffer = str, str_ptr = 0\<rparr>"

definition string_Read :: "string_stream \<Rightarrow> nat \<Rightarrow> (byte list \<times> string_stream) res" where
  "string_Read s sz =
     rbind (check (str_ptr s \<le> length (str_buffer s)) ''curr_ptr_ <= p_buffer_->length()'')
       (\<lambda>_. let nread = min (length (str_buffer s) - str_ptr s) sz in
          Inr (take nread (drop (str_ptr s) (str_buffer s)),
               s\<lparr>str_ptr := u64 (str_ptr s + nread)\<rparr>))"

text \<open>\<open>resize\<close> pads with zero bytes, which the copy overwrites from the cursor on.\<close>

definition string_Write :: "string_stream \<Rightarrow> byte list \<Rightarrow> string_stream res" where
  "string_Write s bs =
     (let size = length bs in
      if size = 0 then Inr s
      else
        let resized = (if u64 (str_ptr s + size) > length (str_buffer s)
                       then str_buffer s @ replicate (u64 (str_ptr s + size) - length (str_buffer s)) 0
                       else str_buffer s)
        in if length resized < str_ptr s + size then Inl (Undefined_Behaviour ''memcpy'')
           else Inr (s\<lparr>str_buffer := take (str_ptr s) resized @ bs @ drop (str_ptr s + size) resized,
                       str_ptr := u64 (str_ptr s + size)\<rparr>))"

definition string_Seek :: "string_stream \<Rightarrow> nat \<Rightarrow> string_stream" where
  "string_Seek s pos = s\<lparr>str_ptr := pos\<rparr>"

definition string_Tell :: "string_stream \<Rightarrow> nat" where
  "string_Tell s = str_ptr s"

section \<open>The stream interface\<close>

text \<open>A loop of writes, as the serialisers of the block managers perform it.\<close>

fun write_all :: "('s \<Rightarrow> byte list \<Rightarrow> 's res) \<Rightarrow> byte list list \<Rightarrow> 's \<Rightarrow> 's res" where
  "write_all wr [] s = Inr s"
| "write_all wr (b # bs) s = rbind (wr s b) (write_all wr bs)"

lemma write_all_append: "write_all wr (xs @ ys) s = rbind (write_all wr xs s) (write_all wr ys)"
  by (induction xs arbitrary: s) (auto simp: rbind_def split: sum.split)

locale seek_stream =
  fixes put :: "'s \<Rightarrow> byte list \<Rightarrow> 's res"
    and fetch :: "'s \<Rightarrow> nat \<Rightarrow> (byte list \<times> 's) res"
    and seek :: "'s \<Rightarrow> nat \<Rightarrow> 's"
    and tell :: "'s \<Rightarrow> nat"
    and content :: "'s \<Rightarrow> byte list"
    and room :: "'s \<Rightarrow> nat \<Rightarrow> bool"
    and invar :: "'s \<Rightarrow> bool"
  assumes write_ok: "invar s \<Longrightarrow> room s (length bs) \<Longrightarrow>
      \<exists>s'. put s bs = Inr s' \<and> invar s' \<and> tell s' = tell s + length bs
        \<and> take (tell s') (content s') = take (tell s) (content s) @ bs
        \<and> (\<forall>n. room s (length bs + n) \<longrightarrow> room s' n)"
    and room_mono: "room s (a + b) \<Longrightarrow> room s a"
    and tell_le: "invar s \<Longrightarrow> tell s \<le> length (content s)"
    and read_ok: "invar s \<Longrightarrow> tell s + n \<le> length (content s) \<Longrightarrow>
      \<exists>s'. fetch s n = Inr (take n (drop (tell s) (content s)), s')
        \<and> invar s' \<and> tell s' = tell s + n \<and> content s' = content s"
    and seek_ok: "invar s \<Longrightarrow> p \<le> tell s \<Longrightarrow>
      invar (seek s p) \<and> tell (seek s p) = p \<and> content (seek s p) = content s"
begin

lemma write_all_ok:
  assumes "invar s" and "room s (length (concat bss))"
  shows "\<exists>s'. write_all put bss s = Inr s' \<and> invar s'
    \<and> tell s' = tell s + length (concat bss)
    \<and> take (tell s') (content s') = take (tell s) (content s) @ concat bss"
  using assms
proof (induction bss arbitrary: s)
  case Nil
  then show ?case by simp
next
  case (Cons bs bss)
  from Cons.prems(2) have "room s (length bs)"
    using room_mono by simp
  from write_ok [OF Cons.prems(1) this] obtain s1 where s1: "put s bs = Inr s1" "invar s1"
    "tell s1 = tell s + length bs"
    "take (tell s1) (content s1) = take (tell s) (content s) @ bs"
    "\<forall>n. room s (length bs + n) \<longrightarrow> room s1 n"
    by blast
  from s1(5) Cons.prems(2) have "room s1 (length (concat bss))" by simp
  from Cons.IH [OF s1(2) this] s1 show ?case by auto
qed

lemma write_seek_read:
  assumes "invar s" and "room s (length (concat bss))"
  shows "\<exists>s' s''. write_all put bss s = Inr s'
    \<and> fetch (seek s' (tell s)) (length (concat bss)) = Inr (concat bss, s'')"
proof -
  from write_all_ok [OF assms] obtain s' where s': "write_all put bss s = Inr s'" "invar s'"
    "tell s' = tell s + length (concat bss)"
    "take (tell s') (content s') = take (tell s) (content s) @ concat bss" by blast
  let ?k = "seek s' (tell s)"
  have k: "invar ?k" "tell ?k = tell s" "content ?k = content s'"
    using seek_ok [OF s'(2), of "tell s"] s'(3) by simp_all
  have len: "tell s' \<le> length (content s')" by (rule tell_le [OF s'(2)])
  have "take (length (concat bss)) (drop (tell s) (content s'))
      = drop (tell s) (take (tell s') (content s'))"
    by (simp add: s'(3) drop_take)
  also have "\<dots> = concat bss"
    using tell_le [OF assms(1)] by (simp add: s'(4))
  finally have "take (length (concat bss)) (drop (tell ?k) (content ?k)) = concat bss"
    by (simp add: k)
  moreover have "tell ?k + length (concat bss) \<le> length (content ?k)"
    using len s'(3) by (simp add: k)
  ultimately show ?thesis
    using read_ok [OF k(1)] s'(1) by metis
qed

end

section \<open>Both classes implement the interface\<close>

definition fixed_invar :: "fixed_stream \<Rightarrow> bool" where
  "fixed_invar s \<longleftrightarrow> curr_ptr s \<le> buffer_size s \<and> buffer_size s = length (p_buffer s)
     \<and> buffer_size s < 2 ^ 64"

definition fixed_room :: "fixed_stream \<Rightarrow> nat \<Rightarrow> bool" where
  "fixed_room s n \<longleftrightarrow> curr_ptr s + n \<le> buffer_size s"

definition string_invar :: "string_stream \<Rightarrow> bool" where
  "string_invar s \<longleftrightarrow> str_ptr s \<le> length (str_buffer s) \<and> length (str_buffer s) < 2 ^ 64"

definition string_room :: "string_stream \<Rightarrow> nat \<Rightarrow> bool" where
  "string_room s n \<longleftrightarrow> str_ptr s + n < 2 ^ 64"

interpretation fixed: seek_stream fixed_Write fixed_Read fixed_Seek fixed_Tell p_buffer
  fixed_room fixed_invar
proof (unfold_locales, goal_cases)
  case (1 s bs)
  then show ?case
    by (auto simp: fixed_Write_def fixed_invar_def fixed_room_def fixed_Tell_def Let_def
        res_simps cast_simps)
next
  case (2 s a b)
  then show ?case by (simp add: fixed_room_def)
next
  case (3 s)
  then show ?case by (simp add: fixed_invar_def fixed_Tell_def)
next
  case (4 s n)
  then show ?case
    by (auto simp: fixed_Read_def fixed_invar_def fixed_Tell_def Let_def res_simps cast_simps
        min_def)
next
  case (5 s p)
  then show ?case by (auto simp: fixed_Seek_def fixed_invar_def fixed_Tell_def)
qed

lemma string_Write_ok:
  assumes "string_invar s" and "string_room s (length bs)" and "bs \<noteq> []"
  shows "string_Write s bs =
    Inr (s\<lparr>str_buffer := take (str_ptr s) (str_buffer s) @ bs
                          @ drop (str_ptr s + length bs) (str_buffer s),
           str_ptr := str_ptr s + length bs\<rparr>)"
  using assms
  by (auto simp: string_Write_def string_invar_def string_room_def Let_def cast_simps)

interpretation str: seek_stream string_Write string_Read string_Seek string_Tell str_buffer
  string_room string_invar
proof (unfold_locales, goal_cases)
  case (1 s bs)
  show ?case
  proof (cases "bs = []")
    case True
    with 1 show ?thesis by (auto simp: string_Write_def)
  next
    case False
    from string_Write_ok [OF 1 this] 1 show ?thesis
      by (auto simp: string_invar_def string_room_def string_Tell_def)
  qed
next
  case (2 s a b)
  then show ?case by (simp add: string_room_def)
next
  case (3 s)
  then show ?case by (simp add: string_invar_def string_Tell_def)
next
  case (4 s n)
  then show ?case
    by (auto simp: string_Read_def string_invar_def string_Tell_def Let_def res_simps cast_simps
        min_def)
next
  case (5 s p)
  then show ?case by (auto simp: string_Seek_def string_invar_def string_Tell_def)
qed

section \<open>Properties\<close>

text \<open>What is written to a memory stream is read back: any sequence of writes that fits,
  followed by a seek to where it began and one read of the total length, returns the written bytes
  in order, on a \<open>MemoryFixedSizeStream\<close> over a region of \<open>n\<close> bytes and on a
  \<open>MemoryStringStream\<close> (which grows as needed); a write past the end of the fixed region fails
  its \<open>CHECK\<close>.\<close>

lemma memory_stream_round_trip:
  assumes "length region = n" and "length (concat bss) \<le> n" and "n < 2 ^ 64" and "length str < 2 ^ 64"
    and "n < length bs" and "length bs < 2 ^ 64"
  shows "(\<exists>s' s''. write_all fixed_Write bss (MemoryFixedSizeStream region n) = Inr s'
        \<and> fixed_Read (fixed_Seek s' 0) (length (concat bss)) = Inr (concat bss, s''))
    \<and> (\<exists>s' s''. write_all string_Write bss (MemoryStringStream str) = Inr s'
        \<and> string_Read (string_Seek s' 0) (length (concat bss)) = Inr (concat bss, s''))
    \<and> (\<exists>w. fixed_Write (MemoryFixedSizeStream region n) bs = Inl (Check_Failed w))"
proof (intro conjI)
  let ?f = "MemoryFixedSizeStream region n" and ?g = "MemoryStringStream str"
  have "fixed_invar ?f" "fixed_room ?f (length (concat bss))" "fixed_Tell ?f = 0"
    using assms(1-3)
    by (simp_all add: fixed_invar_def fixed_room_def MemoryFixedSizeStream_def fixed_Tell_def)
  then show "\<exists>s' s''. write_all fixed_Write bss ?f = Inr s'
      \<and> fixed_Read (fixed_Seek s' 0) (length (concat bss)) = Inr (concat bss, s'')"
    using fixed.write_seek_read [of ?f bss] by simp
  have "string_invar ?g" "string_room ?g (length (concat bss))" "string_Tell ?g = 0"
    using assms(2-4) by (simp_all add: string_invar_def string_room_def MemoryStringStream_def string_Tell_def)
  then show "\<exists>s' s''. write_all string_Write bss ?g = Inr s'
      \<and> string_Read (string_Seek s' 0) (length (concat bss)) = Inr (concat bss, s'')"
    using str.write_seek_read [of ?g bss] by simp
  show "\<exists>w. fixed_Write ?f bs = Inl (Check_Failed w)"
    using assms(5,6) by (auto simp: fixed_Write_def MemoryFixedSizeStream_def Let_def res_simps cast_simps)
qed

end
