(* ===== verification/Block_Mgr.thy ===== *)
theory Block_Mgr
  imports Memory_Io
begin

text \<open>
  Blocks of sequence numbers and the interface of the block managers
  (\<open>src/src/mlt/block_mgr.h\<close>).

  A \<open>Block\<close> is a half-open interval \<open>[first, last)\<close> of packet sequence numbers. A block manager
  records which of the sequence numbers below its size have been taken and serialises the free
  ones as a list of blocks, the payload of a retransmission request. The specification of that
  list is \<open>runs_of\<close>: non-empty blocks in ascending order, no two of them adjacent, that cover
  exactly the free numbers; \<open>runs_of_unique\<close> shows that it determines the list.

  The locale \<open>block_tracker\<close> is the contract of \<open>Resize\<close>, \<open>Check\<close>, \<open>Take\<close>,
  \<open>Size\<close> and \<open>FreeLength\<close> over an abstract set of taken numbers; \<open>block_serializer\<close> adds
  \<open>ByteSize\<close> and \<open>SerializeToBuffer\<close>. The client step \<open>admit\<close> (grow, test, take), with which
  a received packet is recorded, is verified once for the interface.
\<close>

section \<open>Blocks\<close>

record block =
  b_first :: nat
  b_last :: nat

definition mk_block :: "nat \<Rightarrow> nat \<Rightarrow> block" where
  "mk_block l r = \<lparr>b_first = u32 l, b_last = u32 r\<rparr>"

definition block_less :: "block \<Rightarrow> block \<Rightarrow> bool" where
  "block_less x rhs \<longleftrightarrow> b_first x < b_first rhs"

definition sizeof_Block :: nat where
  "sizeof_Block = 8"

text \<open>The object representation of a \<open>Block\<close> on a little-endian machine.\<close>

definition block_bytes :: "block \<Rightarrow> byte list" where
  "block_bytes b = le_bytes 4 (b_first b) @ le_bytes 4 (b_last b)"

definition block_of_bytes :: "byte list \<Rightarrow> block" where
  "block_of_bytes bs = \<lparr>b_first = le_val (take 4 bs), b_last = le_val (take 4 (drop 4 bs))\<rparr>"

definition u32_block :: "block \<Rightarrow> bool" where
  "u32_block b \<longleftrightarrow> b_first b < 2 ^ 32 \<and> b_last b < 2 ^ 32"

lemma length_block_bytes [simp]: "length (block_bytes b) = sizeof_Block"
  by (simp add: block_bytes_def sizeof_Block_def)

lemma block_of_block_bytes: "u32_block b \<Longrightarrow> block_of_bytes (block_bytes b) = b"
  by (simp add: block_of_bytes_def block_bytes_def u32_block_def le_val_le_bytes)

lemma length_concat_block_bytes [simp]:
  "length (concat (map block_bytes bs)) = length bs * sizeof_Block"
  by (induction bs) auto

text \<open>\<open>hdr->blocks[i]\<close> for an array of blocks in a buffer.\<close>

definition nth_block :: "byte list \<Rightarrow> nat \<Rightarrow> block" where
  "nth_block bs i = block_of_bytes (drop (i * sizeof_Block) bs)"

lemma block_of_bytes_append:
  "length xs = sizeof_Block \<Longrightarrow> block_of_bytes (xs @ ys) = block_of_bytes xs"
  by (simp add: block_of_bytes_def sizeof_Block_def)

lemma nth_block_concat:
  assumes "i < length bs" and "\<And>b. b \<in> set bs \<Longrightarrow> u32_block b"
  shows "nth_block (concat (map block_bytes bs)) i = bs ! i"
  using assms
proof (induction bs arbitrary: i)
  case Nil
  then show ?case by simp
next
  case (Cons b bs)
  show ?case
  proof (cases i)
    case 0
    with Cons.prems show ?thesis
      by (simp add: nth_block_def block_of_bytes_append block_of_block_bytes)
  next
    case (Suc j)
    have "nth_block (concat (map block_bytes (b # bs))) i = nth_block (concat (map block_bytes bs)) j"
      by (simp add: nth_block_def Suc)
    with Cons Suc show ?thesis by simp
  qed
qed

section \<open>Lists of maximal free runs\<close>

definition free_set :: "block list \<Rightarrow> nat set" where
  "free_set bs = (\<Union>b \<in> set bs. {b_first b..<b_last b})"

definition gapped :: "block list \<Rightarrow> bool" where
  "gapped bs \<longleftrightarrow> sorted_wrt (\<lambda>a b. b_last a < b_first b) bs \<and> (\<forall>b \<in> set bs. b_first b < b_last b)"

definition runs_of :: "nat set \<Rightarrow> block list \<Rightarrow> bool" where
  "runs_of S bs \<longleftrightarrow> gapped bs \<and> free_set bs = S"

definition block_seqs :: "block list \<Rightarrow> nat list" where
  "block_seqs bs = concat (map (\<lambda>b. [b_first b..<b_last b]) bs)"

lemma free_set_simps [simp]:
  "free_set [] = {}"
  "free_set (b # bs) = {b_first b..<b_last b} \<union> free_set bs"
  "free_set (xs @ ys) = free_set xs \<union> free_set ys"
  by (auto simp: free_set_def)

lemma gapped_Nil [simp]: "gapped []"
  by (simp add: gapped_def)

lemma gapped_Cons:
  "gapped (b # bs) \<longleftrightarrow> b_first b < b_last b \<and> (\<forall>c \<in> set bs. b_last b < b_first c) \<and> gapped bs"
  by (auto simp: gapped_def)

lemma gapped_append:
  "gapped (xs @ ys) \<longleftrightarrow> gapped xs \<and> gapped ys \<and> (\<forall>x \<in> set xs. \<forall>y \<in> set ys. b_last x < b_first y)"
  by (auto simp: gapped_def sorted_wrt_append)

lemma free_set_above:
  "(\<And>c. c \<in> set bs \<Longrightarrow> k < b_first c) \<Longrightarrow> x \<in> free_set bs \<Longrightarrow> k < x"
  by (fastforce simp: free_set_def)

lemma free_set_below:
  "(\<And>c. c \<in> set bs \<Longrightarrow> b_last c \<le> k) \<Longrightarrow> x \<in> free_set bs \<Longrightarrow> x < k"
  by (fastforce simp: free_set_def)

lemma finite_free_set [simp]: "finite (free_set bs)"
  by (simp add: free_set_def)

lemma gapped_head_first:
  assumes "gapped (b # bs)"
  shows "b_first b = (LEAST x. x \<in> free_set (b # bs))"
proof (rule Least_equality [symmetric])
  show "b_first b \<in> free_set (b # bs)"
    using assms by (simp add: gapped_Cons)
  fix y
  assume "y \<in> free_set (b # bs)"
  with assms show "b_first b \<le> y"
    using free_set_above [of bs "b_last b" y] by (auto simp: gapped_Cons)
qed

lemma gapped_head_last:
  assumes "gapped (b # bs)"
  shows "b_last b = (LEAST x. b_first b \<le> x \<and> x \<notin> free_set (b # bs))"
proof (rule Least_equality [symmetric])
  show "b_first b \<le> b_last b \<and> b_last b \<notin> free_set (b # bs)"
    using assms free_set_above [of bs "b_last b" "b_last b"] by (auto simp: gapped_Cons)
qed (use assms in \<open>auto simp: gapped_Cons\<close>)

lemma gapped_tail_set:
  assumes "gapped (b # bs)"
  shows "free_set bs = free_set (b # bs) - {b_first b..<b_last b}"
  using assms free_set_above [of bs "b_last b"] by (fastforce simp: gapped_Cons)

lemma gapped_empty_set: "gapped bs \<Longrightarrow> free_set bs = {} \<longleftrightarrow> bs = []"
  by (cases bs) (auto simp: gapped_Cons)

lemma gapped_unique: "gapped xs \<Longrightarrow> gapped ys \<Longrightarrow> free_set xs = free_set ys \<Longrightarrow> xs = ys"
proof (induction xs arbitrary: ys)
  case Nil
  then show ?case using gapped_empty_set [of ys] by auto
next
  case (Cons x xs)
  from Cons.prems have "ys \<noteq> []"
    using gapped_empty_set [of "x # xs"] by auto
  then obtain y ys' where ys: "ys = y # ys'" by (cases ys) auto
  have g: "gapped (x # xs)" "gapped (y # ys')" and E: "free_set (x # xs) = free_set (y # ys')"
    using Cons.prems by (simp_all only: ys)
  have f: "b_first x = b_first y"
    unfolding gapped_head_first [OF g(1)] gapped_head_first [OF g(2)] E ..
  have l: "b_last x = b_last y"
    unfolding gapped_head_last [OF g(1)] gapped_head_last [OF g(2)] E f ..
  have "free_set xs = free_set ys'"
    unfolding gapped_tail_set [OF g(1)] gapped_tail_set [OF g(2)] E f l ..
  with Cons.IH [of ys'] Cons.prems f l show ?case by (simp add: ys gapped_Cons)
qed

lemma runs_of_unique: "runs_of S xs \<Longrightarrow> runs_of S ys \<Longrightarrow> xs = ys"
  by (auto simp: runs_of_def intro: gapped_unique)

lemma runs_of_empty [simp]: "runs_of {} []"
  by (simp add: runs_of_def)

lemma runs_of_snoc:
  assumes "runs_of S bs" and "\<And>x. x \<in> S \<Longrightarrow> Suc x < f" and "f < l"
  shows "runs_of (S \<union> {f..<l}) (bs @ [\<lparr>b_first = f, b_last = l\<rparr>])"
proof -
  have "b_last c < f" if "c \<in> set bs" for c
  proof -
    from assms(1) that have "b_first c < b_last c" by (simp add: runs_of_def gapped_def)
    with that have "b_last c - 1 \<in> free_set bs" by (auto simp: free_set_def intro!: bexI [of _ c])
    with assms(1,2) \<open>b_first c < b_last c\<close> show ?thesis by (fastforce simp: runs_of_def)
  qed
  with assms show ?thesis by (simp add: runs_of_def gapped_append gapped_Cons)
qed

lemma set_block_seqs [simp]: "set (block_seqs bs) = free_set bs"
  by (auto simp: block_seqs_def free_set_def)

lemma block_seqs_Nil [simp]: "block_seqs [] = []"
  by (simp add: block_seqs_def)

lemma block_seqs_Cons: "block_seqs (b # bs) = [b_first b..<b_last b] @ block_seqs bs"
  by (simp add: block_seqs_def)

lemma sorted_block_seqs: "gapped bs \<Longrightarrow> sorted_wrt (<) (block_seqs bs)"
proof (induction bs)
  case Nil
  then show ?case by simp
next
  case (Cons b bs)
  then have "\<And>y. y \<in> free_set bs \<Longrightarrow> b_last b < y"
    by (auto simp: gapped_Cons intro: free_set_above)
  with Cons show ?case
    by (fastforce simp: block_seqs_Cons gapped_Cons sorted_wrt_append)
qed

lemma gapped_memD: "gapped bs \<Longrightarrow> b \<in> set bs \<Longrightarrow> b_first b < b_last b"
  by (simp add: gapped_def)

lemma length_block_seqs: "gapped bs \<Longrightarrow> length (block_seqs bs) = card (free_set bs)"
  by (metis distinct_card set_block_seqs sorted_block_seqs strict_sorted_iff)

lemma gapped_length: "gapped bs \<Longrightarrow> length bs \<le> card (free_set bs)"
proof -
  have "gapped bs \<Longrightarrow> length bs \<le> length (block_seqs bs)"
    by (induction bs) (auto simp: gapped_Cons block_seqs_Cons)
  then show "gapped bs \<Longrightarrow> length bs \<le> card (free_set bs)"
    by (simp add: length_block_seqs)
qed

lemma gapped_half:
  "gapped bs \<Longrightarrow> (\<And>b. b \<in> set bs \<Longrightarrow> b_last b \<le> n) \<Longrightarrow> 2 * length bs \<le> n + 1"
proof (induction bs arbitrary: n rule: rev_induct)
  case Nil
  then show ?case by simp
next
  case (snoc b bs)
  then have b: "b_first b < b_last b" "b_last b \<le> n" and g: "gapped bs"
    and lt: "\<forall>c \<in> set bs. b_last c < b_first b"
    by (auto simp: gapped_append gapped_Cons)
  show ?case
  proof (cases "bs = []")
    case True
    with b show ?thesis by simp
  next
    case False
    with lt have "0 < b_first b" by (cases bs) auto
    moreover have "2 * length bs \<le> (b_first b - 1) + 1"
      using lt by (intro snoc.IH [OF g]) fastforce
    ultimately show ?thesis using b by simp
  qed
qed

lemma runs_of_half:
  assumes "runs_of S bs" and "S \<subseteq> {..<n}"
  shows "2 * length bs \<le> n + 1"
proof (rule gapped_half)
  show "gapped bs" using assms(1) by (simp add: runs_of_def)
  fix b
  assume b: "b \<in> set bs"
  with \<open>gapped bs\<close> have "b_first b < b_last b" by (rule gapped_memD)
  with b have "b_last b - 1 \<in> free_set bs" by (auto simp: free_set_def intro!: bexI [of _ b])
  with assms \<open>b_first b < b_last b\<close> show "b_last b \<le> n" by (auto simp: runs_of_def)
qed

section \<open>Taking one number out of a list of runs\<close>

text \<open>Locating the block that holds a free number.\<close>

lemma gapped_split:
  assumes "gapped t" and "seq \<in> free_set t"
  obtains pre b post where "t = pre @ b # post" and "b_first b \<le> seq" and "seq < b_last b"
    and "\<forall>x \<in> set pre. b_last x < b_first b" and "\<forall>y \<in> set post. b_last b < b_first y"
proof -
  from assms(2) obtain b where b: "b \<in> set t" "b_first b \<le> seq" "seq < b_last b"
    by (auto simp: free_set_def)
  from b(1) obtain pre post where "t = pre @ b # post" by (meson split_list)
  with assms(1) b that show ?thesis by (auto simp: gapped_append gapped_Cons)
qed

text \<open>What \<open>Take\<close> leaves in place of the block that held the number.\<close>

definition take_pieces :: "block \<Rightarrow> nat \<Rightarrow> block list" where
  "take_pieces b seq =
     (if b_first b < seq then [b\<lparr>b_last := seq\<rparr>] else [])
     @ (if Suc seq < b_last b then [\<lparr>b_first = Suc seq, b_last = b_last b\<rparr>] else [])"

lemma free_set_take_pieces:
  "b_first b \<le> seq \<Longrightarrow> seq < b_last b \<Longrightarrow> free_set (take_pieces b seq) = {b_first b..<b_last b} - {seq}"
  by (auto simp: take_pieces_def)

lemma gapped_take_pieces:
  assumes "gapped (pre @ b # post)" and "b_first b \<le> seq" and "seq < b_last b"
  shows "gapped (pre @ take_pieces b seq @ post)"
  using assms by (auto simp: take_pieces_def gapped_append gapped_Cons)

lemma runs_of_take:
  assumes "runs_of S bs" and "seq \<in> S"
  shows "\<exists>bs'. runs_of (S - {seq}) bs'
    \<and> length bs' + of_bool (seq = 0 \<or> seq - 1 \<notin> S) + of_bool (Suc seq \<notin> S) = length bs + 1"
proof -
  from assms have g: "gapped bs" and S: "S = free_set bs" by (auto simp: runs_of_def)
  from gapped_split [OF g assms(2) [unfolded S]] obtain pre b post where
    bs: "bs = pre @ b # post" "b_first b \<le> seq" "seq < b_last b"
    and sep: "\<forall>x \<in> set pre. b_last x < b_first b" "\<forall>y \<in> set post. b_last b < b_first y" by metis
  have pre: "x < b_first b - 1" if "x \<in> free_set pre" for x
    using sep(1) that by (fastforce simp: free_set_def)
  have post: "b_last b < x" if "x \<in> free_set post" for x
    using sep(2) that by (fastforce simp: free_set_def)
  have fs: "free_set (pre @ take_pieces b seq @ post) = S - {seq}"
    using bs(2,3) pre [of seq] post [of seq] by (auto simp: S bs(1) free_set_take_pieces)
  have "runs_of (S - {seq}) (pre @ take_pieces b seq @ post)"
    using gapped_take_pieces [OF g [unfolded bs(1)] bs(2,3)] fs by (simp add: runs_of_def)
  moreover have "b_first b < seq \<longleftrightarrow> \<not> (seq = 0 \<or> seq - 1 \<notin> S)"
    using bs(2,3) pre [of "seq - 1"] post [of "seq - 1"] by (auto simp: S bs(1))
  moreover have "Suc seq < b_last b \<longleftrightarrow> Suc seq \<in> S"
    using bs(2,3) pre [of "Suc seq"] post [of "Suc seq"] by (auto simp: S bs(1))
  ultimately show ?thesis
    by (intro exI [of _ "pre @ take_pieces b seq @ post"]) (simp add: bs(1) take_pieces_def)
qed

section \<open>The block-manager interface\<close>

text \<open>How a client records a sequence number: grow the manager when needed, then take the number
  unless it is already taken. The flag says whether it was new.\<close>

definition admit ::
  "('m \<Rightarrow> nat) \<Rightarrow> ('m \<Rightarrow> nat \<Rightarrow> 'm res) \<Rightarrow> ('m \<Rightarrow> nat \<Rightarrow> bool res) \<Rightarrow> ('m \<Rightarrow> nat \<Rightarrow> 'm res)
    \<Rightarrow> 'm \<Rightarrow> nat \<Rightarrow> (bool \<times> 'm) res" where
  "admit Size Resize Check Take m seq =
     rbind (if Size m \<le> seq then Resize m (u32 (seq + 1)) else Inr m)
       (\<lambda>m1. rbind (Check m1 seq)
         (\<lambda>taken. if taken then Inr (False, m1)
                  else rbind (Take m1 seq) (\<lambda>m2. Inr (True, m2))))"

definition admit_all ::
  "('m \<Rightarrow> nat) \<Rightarrow> ('m \<Rightarrow> nat \<Rightarrow> 'm res) \<Rightarrow> ('m \<Rightarrow> nat \<Rightarrow> bool res) \<Rightarrow> ('m \<Rightarrow> nat \<Rightarrow> 'm res)
    \<Rightarrow> nat list \<Rightarrow> 'm \<Rightarrow> 'm res" where
  "admit_all Size Resize Check Take =
     rfold (\<lambda>seq m. rbind (admit Size Resize Check Take m seq) (\<lambda>r. Inr (snd r)))"

lemma fold_max_below: "(\<forall>s \<in> set seqs. s < n) \<Longrightarrow> fold (\<lambda>s n. max n (Suc s)) seqs n = n"
  by (induction seqs) auto

lemma fold_max_ge: "n \<le> fold (\<lambda>s n. max n (Suc s)) seqs n"
proof (induction seqs arbitrary: n)
  case (Cons s seqs)
  from Cons [of "max n (Suc s)"] show ?case by simp
qed simp

locale block_tracker =
  fixes Size :: "'m \<Rightarrow> nat"
    and Resize :: "'m \<Rightarrow> nat \<Rightarrow> 'm res"
    and Check :: "'m \<Rightarrow> nat \<Rightarrow> bool res"
    and Take :: "'m \<Rightarrow> nat \<Rightarrow> 'm res"
    and FreeLength :: "'m \<Rightarrow> nat"
    and invar :: "'m \<Rightarrow> bool"
    and taken :: "'m \<Rightarrow> nat set"
  assumes taken_bound: "invar m \<Longrightarrow> taken m \<subseteq> {..<Size m}"
    and Resize_ok: "invar m \<Longrightarrow> Size m < n \<Longrightarrow> n < 2 ^ 32 \<Longrightarrow>
      \<exists>m'. Resize m n = Inr m' \<and> invar m' \<and> Size m' = n \<and> taken m' = taken m"
    and Resize_refuses: "n \<le> Size m \<Longrightarrow> \<not> is_ok (Resize m n)"
    and Check_ok: "invar m \<Longrightarrow> seq < Size m \<Longrightarrow> Check m seq = Inr (seq \<in> taken m)"
    and Take_ok: "invar m \<Longrightarrow> seq < Size m \<Longrightarrow> seq \<notin> taken m \<Longrightarrow>
      \<exists>m'. Take m seq = Inr m' \<and> invar m' \<and> Size m' = Size m \<and> taken m' = insert seq (taken m)"
    and FreeLength_ok: "invar m \<Longrightarrow> FreeLength m = Size m - card (taken m)"
begin

lemma admit_ok:
  assumes "invar m" and "seq < 2 ^ 32 - 1"
  shows "\<exists>m'. admit Size Resize Check Take m seq = Inr (seq \<notin> taken m, m')
    \<and> invar m' \<and> Size m' = max (Size m) (Suc seq) \<and> taken m' = insert seq (taken m)"
proof -
  obtain m1 where m1: "(if Size m \<le> seq then Resize m (u32 (seq + 1)) else Inr m) = Inr m1"
    "invar m1" "Size m1 = max (Size m) (Suc seq)" "taken m1 = taken m"
  proof (cases "Size m \<le> seq")
    case True
    with Resize_ok [OF assms(1), of "Suc seq"] assms(2)
    obtain m1 where "Resize m (Suc seq) = Inr m1" "invar m1" "Size m1 = Suc seq" "taken m1 = taken m"
      by auto
    with True assms(2) that [of m1] show ?thesis by (simp add: cast_simps)
  next
    case False
    with assms(1) that [of m] show ?thesis by simp
  qed
  from m1(3) have "seq < Size m1" by simp
  with Check_ok [OF m1(2)] m1(4) have c: "Check m1 seq = Inr (seq \<in> taken m)" by simp
  show ?thesis
  proof (cases "seq \<in> taken m")
    case True
    with m1 c show ?thesis by (simp add: admit_def insert_absorb)
  next
    case False
    with Take_ok [OF m1(2) \<open>seq < Size m1\<close>] m1(3,4) obtain m2 where "Take m1 seq = Inr m2" "invar m2"
      "Size m2 = max (Size m) (Suc seq)" "taken m2 = insert seq (taken m)"
      by auto
    with m1(1) c False show ?thesis by (simp add: admit_def)
  qed
qed

text \<open>Recording a whole sequence of numbers, in any order and with duplicates.\<close>

lemma admit_all_ok:
  assumes "invar m" and "\<forall>s \<in> set seqs. s < 2 ^ 32 - 1"
  shows "\<exists>m'. admit_all Size Resize Check Take seqs m = Inr m'
    \<and> invar m' \<and> Size m' = fold (\<lambda>s n. max n (Suc s)) seqs (Size m) \<and> taken m' = taken m \<union> set seqs"
  using assms
proof (induction seqs arbitrary: m)
  case Nil
  then show ?case by (simp add: admit_all_def)
next
  case (Cons s seqs)
  then obtain m1 where "admit Size Resize Check Take m s = Inr (s \<notin> taken m, m1)" "invar m1"
    "Size m1 = max (Size m) (Suc s)" "taken m1 = insert s (taken m)"
    using admit_ok [of m s] by auto
  with Cons.IH [of m1] Cons.prems show ?case by (auto simp: admit_all_def)
qed

end

locale block_serializer = block_tracker +
  fixes ByteSize :: "'a \<Rightarrow> nat"
    and SerializeToBuffer :: "'a \<Rightarrow> byte list \<Rightarrow> nat \<Rightarrow> byte list res"
  assumes Serialize_ok: "invar m \<Longrightarrow> 0 < Size m \<Longrightarrow> length buf = ByteSize m \<Longrightarrow>
      \<exists>bs. SerializeToBuffer m buf (ByteSize m) = Inr (concat (map block_bytes bs))
        \<and> runs_of ({..<Size m} - taken m) bs \<and> ByteSize m = length bs * sizeof_Block"
begin

text \<open>The serialised request is empty exactly when nothing is missing.\<close>

lemma ByteSize_zero_iff:
  assumes "invar m" and "0 < Size m"
  shows "ByteSize m = 0 \<longleftrightarrow> taken m = {..<Size m}"
proof -
  obtain bs where "runs_of ({..<Size m} - taken m) bs" "ByteSize m = length bs * sizeof_Block"
    using Serialize_ok [OF assms, of "replicate (ByteSize m) 0"] by auto
  then show ?thesis
    using gapped_empty_set [of bs] taken_bound [OF assms(1)]
    by (auto simp: runs_of_def sizeof_Block_def)
qed

end

end
