(* ===== verification/Tree_Block_Mgr.thy ===== *)
theory Tree_Block_Mgr
  imports Block_Mgr
begin

text \<open>
  \<open>TreeBlockMgr\<close> (\<open>src/src/mlt/tree_block_mgr.h\<close>), the block manager of every message.

  The \<open>std::set<Block>\<close> ordered by \<open>first\<close> is the list of its elements in order; an iterator is
  an index, and the in-place updates of the \<open>mutable\<close> members \<open>first\<close> and \<open>last\<close> are list
  updates. The invariant \<open>tree_invar\<close> says that the tree holds the maximal runs of free
  sequence numbers (or, at size 0, the one empty block the constructor inserts); every operation
  keeps it, and the class implements both interfaces of \<open>Block_Mgr\<close>.
\<close>

section \<open>The ordered set of blocks\<close>

text \<open>\<open>emplace\<close> leaves the set unchanged when an equivalent element is present;
  \<open>upper_bound\<close> is the index of the first element greater than the key.\<close>

fun set_emplace :: "block \<Rightarrow> block list \<Rightarrow> block list" where
  "set_emplace b [] = [b]"
| "set_emplace b (x # xs) =
     (if block_less b x then b # x # xs
      else if block_less x b then x # set_emplace b xs
      else x # xs)"

definition set_upper_bound :: "block list \<Rightarrow> block \<Rightarrow> nat" where
  "set_upper_bound t key = length (takeWhile (\<lambda>x. \<not> block_less key x) t)"

definition set_erase :: "nat \<Rightarrow> block list \<Rightarrow> block list" where
  "set_erase i t = take i t @ drop (Suc i) t"

section \<open>Operations\<close>

record tree_mgr =
  tm_size :: nat
  tm_used :: nat
  tm_tree :: "block list"

definition TreeBlockMgr :: "nat \<Rightarrow> tree_mgr" where
  "TreeBlockMgr n = \<lparr>tm_size = u32 n, tm_used = 0, tm_tree = set_emplace (mk_block 0 n) []\<rparr>"

definition tree_Resize :: "tree_mgr \<Rightarrow> nat \<Rightarrow> tree_mgr res" where
  "tree_Resize m n =
     rbind (check (n > tm_size m) ''size > size_'')
       (\<lambda>_. if tm_tree m = []
            then Inr (m\<lparr>tm_tree := set_emplace (mk_block (tm_size m) n) (tm_tree m), tm_size := u32 n\<rparr>)
            else
              let i = length (tm_tree m) - 1; it = tm_tree m ! i in
              if b_last it < tm_size m
              then Inr (m\<lparr>tm_tree := set_emplace (mk_block (tm_size m) n) (tm_tree m), tm_size := u32 n\<rparr>)
              else Inr (m\<lparr>tm_tree := (tm_tree m)[i := it\<lparr>b_last := u32 n\<rparr>], tm_size := u32 n\<rparr>))"

definition tree_Check :: "tree_mgr \<Rightarrow> nat \<Rightarrow> bool res" where
  "tree_Check m seq =
     Inr (if tm_tree m = [] then True
          else
            let it = set_upper_bound (tm_tree m) (mk_block seq (seq + 1)) in
            if it = 0 then True
            else
              let b = tm_tree m ! (it - 1) in
              \<not> (b_first b \<le> seq \<and> seq < b_last b))"

definition tree_Take :: "tree_mgr \<Rightarrow> nat \<Rightarrow> tree_mgr res" where
  "tree_Take m seq =
     rbind (check (tm_tree m \<noteq> []) ''!tree_.empty()'') (\<lambda>_.
       let ub = set_upper_bound (tm_tree m) (mk_block seq (seq + 1)) in
       rbind (check (ub \<noteq> 0) ''it != tree_.begin()'') (\<lambda>_.
         let i = ub - 1; it = tm_tree m ! i in
         rbind (check (b_first it \<le> seq \<and> seq < b_last it) ''it->first <= seq && seq < it->last'') (\<lambda>_.
           let used = u32 (tm_used m + 1);
               t = (if b_first it = seq
                    then (tm_tree m)[i := it\<lparr>b_first := u32 (b_first it + 1)\<rparr>]
                    else if b_last it = u32 (seq + 1)
                    then (tm_tree m)[i := it\<lparr>b_last := usub32 (b_last it) 1\<rparr>]
                    else (set_emplace (mk_block (seq + 1) (b_last it)) (tm_tree m))
                           [i := it\<lparr>b_last := seq\<rparr>])
           in Inr (m\<lparr>tm_used := used,
                     tm_tree := (if b_first (t ! i) = b_last (t ! i) then set_erase i t else t)\<rparr>))))"

definition tree_FreeLength :: "tree_mgr \<Rightarrow> nat" where
  "tree_FreeLength m = usub32 (tm_size m) (tm_used m)"

definition tree_ByteSize :: "tree_mgr \<Rightarrow> nat" where
  "tree_ByteSize m = length (tm_tree m) * sizeof_Block"

text \<open>The returned bytes are the content of the buffer up to the stream's position.\<close>

definition tree_SerializeToBuffer :: "tree_mgr \<Rightarrow> byte list \<Rightarrow> nat \<Rightarrow> byte list res" where
  "tree_SerializeToBuffer m buf buf_size =
     rbind (write_all fixed_Write (map block_bytes (tm_tree m)) (MemoryFixedSizeStream buf buf_size))
       (\<lambda>strm. rbind (check (fixed_Tell strm = tree_ByteSize m) ''strm->Tell() == ByteSize()'')
         (\<lambda>_. Inr (take (fixed_Tell strm) (p_buffer strm))))"

section \<open>Invariant and abstraction\<close>

definition tree_invar :: "tree_mgr \<Rightarrow> bool" where
  "tree_invar m \<longleftrightarrow> tm_size m < 2 ^ 32 \<and>
     (if tm_size m = 0 then tm_tree m = [\<lparr>b_first = 0, b_last = 0\<rparr>] \<and> tm_used m = 0
      else gapped (tm_tree m) \<and> (\<forall>b \<in> set (tm_tree m). b_last b \<le> tm_size m)
        \<and> tm_used m + card (free_set (tm_tree m)) = tm_size m)"

definition tree_taken :: "tree_mgr \<Rightarrow> nat set" where
  "tree_taken m = {..<tm_size m} - free_set (tm_tree m)"

lemma free_set_bounded: "(\<forall>b \<in> set bs. b_last b \<le> n) \<Longrightarrow> free_set bs \<subseteq> {..<n}"
  by (fastforce simp: free_set_def)

lemma set_emplace_last:
  "(\<forall>x \<in> set t. b_first x < b_first b) \<Longrightarrow> set_emplace b t = t @ [b]"
  by (induction t) (auto simp: block_less_def)

lemma set_emplace_middle:
  "(\<forall>x \<in> set xs. b_first x < b_first b) \<Longrightarrow> (\<forall>y \<in> set ys. b_first b < b_first y) \<Longrightarrow>
     set_emplace b (xs @ ys) = xs @ b # ys"
proof (induction xs)
  case Nil
  then show ?case by (cases ys) (auto simp: block_less_def)
next
  case (Cons x xs)
  then show ?case by (auto simp: block_less_def)
qed

lemma tree_invar_bounds:
  assumes "tree_invar m"
  shows "\<forall>b \<in> set (tm_tree m). b_last b \<le> tm_size m" and "free_set (tm_tree m) \<subseteq> {..<tm_size m}"
proof -
  show "\<forall>b \<in> set (tm_tree m). b_last b \<le> tm_size m"
    using assms by (auto simp: tree_invar_def split: if_splits)
  then show "free_set (tm_tree m) \<subseteq> {..<tm_size m}" by (rule free_set_bounded)
qed

lemma upper_bound_split:
  assumes "gapped (pre @ b # post)" and "b_first b \<le> seq" and "seq < b_last b" and "seq < 2 ^ 32"
  shows "set_upper_bound (pre @ b # post) (mk_block seq r) = Suc (length pre)"
proof -
  have pre: "b_first x \<le> seq" if "x \<in> set (pre @ [b])" for x
    using that assms gapped_memD [of pre x] by (fastforce simp: gapped_append)
  have post: "seq < b_first y" if "y \<in> set post" for y
    using that assms(1,3) by (fastforce simp: gapped_append gapped_Cons)
  have "takeWhile (\<lambda>x. \<not> block_less (mk_block seq r) x) ((pre @ [b]) @ post) = pre @ [b]"
    by (rule takeWhile_sorted_append)
      (use pre post assms(4) in \<open>auto simp: block_less_def mk_block_def cast_simps not_less\<close>)
  then show ?thesis by (simp add: set_upper_bound_def)
qed

lemma tree_Check_ok:
  assumes "tree_invar m" and "seq < tm_size m"
  shows "tree_Check m seq = Inr (seq \<in> tree_taken m)"
proof (cases "seq \<in> free_set (tm_tree m)")
  case True
  from assms have g: "gapped (tm_tree m)" and "seq < 2 ^ 32" by (auto simp: tree_invar_def)
  from gapped_split [OF g True] obtain pre b post where t: "tm_tree m = pre @ b # post"
    "b_first b \<le> seq" "seq < b_last b" by metis
  then have "set_upper_bound (tm_tree m) (mk_block seq (seq + 1)) = Suc (length pre)"
    using g upper_bound_split \<open>seq < 2 ^ 32\<close> by metis
  with t True show ?thesis by (simp add: tree_Check_def tree_taken_def)
next
  case False
  let ?k = "set_upper_bound (tm_tree m) (mk_block seq (seq + 1))"
  have "?k \<le> length (tm_tree m)"
    by (simp add: set_upper_bound_def length_takeWhile_le)
  then have "?k \<noteq> 0 \<Longrightarrow> tm_tree m ! (?k - 1) \<in> set (tm_tree m)" by auto
  with False have "?k \<noteq> 0 \<Longrightarrow> \<not> (b_first (tm_tree m ! (?k - 1)) \<le> seq \<and> seq < b_last (tm_tree m ! (?k - 1)))"
    by (fastforce simp: free_set_def)
  with False assms(2) show ?thesis by (auto simp: tree_Check_def tree_taken_def Let_def)
qed

section \<open>Resize and Take keep the invariant\<close>

lemma tree_Resize_ok:
  assumes "tree_invar m" and "tm_size m < n" and "n < 2 ^ 32"
  shows "\<exists>m'. tree_Resize m n = Inr m' \<and> tree_invar m' \<and> tm_size m' = n \<and> tree_taken m' = tree_taken m"
proof -
  let ?s = "tm_size m" and ?t = "tm_tree m"
  let ?new = "\<lparr>b_first = ?s, b_last = n\<rparr>"
  consider (zero) "?s = 0" | (empty) "?s \<noteq> 0" "?t = []" |
    (gap) xs b where "?s \<noteq> 0" "?t = xs @ [b]" "b_last b < ?s" |
    (grow) xs b where "?s \<noteq> 0" "?t = xs @ [b]" "\<not> b_last b < ?s"
    by (metis rev_exhaust)
  then show ?thesis
  proof cases
    case zero
    with assms show ?thesis
      by (auto simp: tree_Resize_def tree_invar_def tree_taken_def res_simps cast_simps gapped_Cons)
  next
    case empty
    with assms show ?thesis
      by (auto simp: tree_Resize_def tree_invar_def tree_taken_def res_simps cast_simps gapped_Cons
          mk_block_def)
  next
    case gap
    have le: "\<forall>x \<in> set ?t. b_last x < ?s" and g: "gapped ?t"
      and "tm_used m + card (free_set ?t) = ?s"
      using assms(1) gap by (auto simp: tree_invar_def gapped_append gapped_Cons)
    moreover from le g have "set_emplace ?new ?t = ?t @ [?new]"
      by (intro set_emplace_last) (fastforce simp: gapped_def)
    moreover have "card (free_set ?t \<union> {?s..<n}) = card (free_set ?t) + (n - ?s)"
      using le by (subst card_Un_disjoint) (fastforce simp: free_set_def)+
    ultimately show ?thesis
      using assms gap
      by (auto simp: tree_Resize_def tree_invar_def tree_taken_def res_simps cast_simps
          mk_block_def gapped_append gapped_Cons Un_assoc)
  next
    case grow
    have b: "b_last b = ?s" "b_first b < ?s" and g: "gapped ?t"
      and le: "\<forall>x \<in> set xs. b_last x < b_first b" and u: "tm_used m + card (free_set ?t) = ?s"
      using assms(1) grow by (auto simp: tree_invar_def gapped_append gapped_Cons)
    have eq: "free_set (xs @ [b\<lparr>b_last := n\<rparr>]) = free_set ?t \<union> {?s..<n}"
      using b assms(2) grow(2) by auto
    have "card (free_set ?t \<union> {?s..<n}) = card (free_set ?t) + (n - ?s)"
      using tree_invar_bounds(2) [OF assms(1)] by (subst card_Un_disjoint) auto
    with eq have c: "card (free_set (xs @ [b\<lparr>b_last := n\<rparr>])) = card (free_set ?t) + (n - ?s)"
      by simp
    have res: "tree_Resize m n = Inr (m\<lparr>tm_tree := xs @ [b\<lparr>b_last := n\<rparr>], tm_size := n\<rparr>)"
      using assms grow by (simp add: tree_Resize_def cast_simps Let_def)
    have "gapped (xs @ [b\<lparr>b_last := n\<rparr>])"
      using g b(2) le assms(2) unfolding grow(2) by (auto simp: gapped_append gapped_Cons)
    moreover have "\<forall>c \<in> set (xs @ [b\<lparr>b_last := n\<rparr>]). b_last c \<le> n"
      using tree_invar_bounds(1) [OF assms(1)] assms(2) unfolding grow(2) by auto
    moreover have "tm_used m + card (free_set (xs @ [b\<lparr>b_last := n\<rparr>])) = n"
      using u c assms(2) by linarith
    ultimately have "tree_invar (m\<lparr>tm_tree := xs @ [b\<lparr>b_last := n\<rparr>], tm_size := n\<rparr>)"
      using assms(2,3) by (simp add: tree_invar_def del: free_set_simps)
    moreover have "tree_taken (m\<lparr>tm_tree := xs @ [b\<lparr>b_last := n\<rparr>], tm_size := n\<rparr>) = tree_taken m"
      using assms(2) by (auto simp: tree_taken_def eq simp del: free_set_simps)
    ultimately show ?thesis using res by simp
  qed
qed

lemma tree_Take_pieces:
  assumes "tm_tree m = pre @ b # post" and "gapped (tm_tree m)" and "b_first b \<le> seq"
    and "seq < b_last b" and "b_last b < 2 ^ 32"
  shows "tree_Take m seq =
    Inr (m\<lparr>tm_used := u32 (tm_used m + 1), tm_tree := pre @ take_pieces b seq @ post\<rparr>)"
proof -
  have ub: "set_upper_bound (tm_tree m) (mk_block seq (seq + 1)) = Suc (length pre)"
    using assms upper_bound_split [of pre b post seq] by simp
  have em: "set_emplace (mk_block (seq + 1) (b_last b)) (tm_tree m)
      = pre @ b # mk_block (seq + 1) (b_last b) # post" if "Suc seq < b_last b"
  proof -
    have "b_first (mk_block (seq + 1) (b_last b)) = Suc seq"
      using that assms(5) by (simp add: mk_block_def cast_simps)
    moreover have "\<forall>x \<in> set (pre @ [b]). b_first x < Suc seq"
      using assms(1-3) gapped_memD [of pre] by (fastforce simp: gapped_append)
    moreover have "\<forall>y \<in> set post. Suc seq < b_first y"
      using assms(1,2) that by (fastforce simp: gapped_append gapped_Cons)
    ultimately show ?thesis
      using set_emplace_middle [of "pre @ [b]" "mk_block (seq + 1) (b_last b)" post] assms(1) by simp
  qed
  have nth: "tm_tree m ! length pre = b" using assms(1) by simp
  consider (first) "b_first b = seq" | (last) "b_first b \<noteq> seq" "b_last b = Suc seq"
    | (mid) "b_first b \<noteq> seq" "b_last b \<noteq> Suc seq" by blast
  then show ?thesis
  proof cases
    case first
    with assms ub nth show ?thesis
      by (cases "Suc seq = b_last b")
        (auto simp: tree_Take_def take_pieces_def res_simps cast_simps set_erase_def Let_def
          list_update_append)
  next
    case last
    with assms ub nth show ?thesis
      by (auto simp: tree_Take_def take_pieces_def res_simps cast_simps set_erase_def Let_def
          list_update_append)
  next
    case mid
    with assms ub nth em show ?thesis
      by (auto simp: tree_Take_def take_pieces_def res_simps cast_simps set_erase_def Let_def
          list_update_append mk_block_def)
  qed
qed

lemma tree_Take_ok:
  assumes "tree_invar m" and "seq < tm_size m" and "seq \<notin> tree_taken m"
  shows "\<exists>m'. tree_Take m seq = Inr m' \<and> tree_invar m' \<and> tm_size m' = tm_size m
    \<and> tree_taken m' = insert seq (tree_taken m)"
proof -
  let ?t = "tm_tree m"
  from assms have inv: "gapped ?t" "\<forall>b \<in> set ?t. b_last b \<le> tm_size m" "tm_size m < 2 ^ 32"
    "tm_used m + card (free_set ?t) = tm_size m"
    by (auto simp: tree_invar_def)
  from assms(2,3) have free: "seq \<in> free_set ?t" by (simp add: tree_taken_def)
  from gapped_split [OF inv(1) this] obtain pre b post where
    t: "?t = pre @ b # post" "b_first b \<le> seq" "seq < b_last b" by metis
  from t(1) inv(2) have bl: "b_last b \<le> tm_size m" by simp
  have take: "tree_Take m seq =
      Inr (m\<lparr>tm_used := u32 (tm_used m + 1), tm_tree := pre @ take_pieces b seq @ post\<rparr>)"
    using tree_Take_pieces [OF t(1) inv(1) t(2,3)] bl inv(3) by simp
  have split: "\<forall>x \<in> set pre. b_last x < b_first b" "\<forall>y \<in> set post. b_last b < b_first y"
    using inv(1) by (auto simp: t(1) gapped_append gapped_Cons)
  then have "seq \<notin> free_set pre" "seq \<notin> free_set post"
    using t(2,3) by (fastforce simp: free_set_def)+
  then have fs: "free_set (pre @ take_pieces b seq @ post) = free_set ?t - {seq}"
    using t by (auto simp: free_set_take_pieces)
  have card: "card (free_set ?t - {seq}) = card (free_set ?t) - 1" "0 < card (free_set ?t)"
    using free by (auto simp: card_gt_0_iff)
  have lasts: "\<forall>c \<in> set (take_pieces b seq). b_last c \<le> tm_size m"
    using t(2,3) bl by (auto simp: take_pieces_def)
  have "gapped (pre @ take_pieces b seq @ post)"
    using gapped_take_pieces inv(1) t by metis
  then have "tree_invar (m\<lparr>tm_used := u32 (tm_used m + 1), tm_tree := pre @ take_pieces b seq @ post\<rparr>)"
    using inv lasts card assms(2) unfolding tree_invar_def
    by (auto simp: fs t(1) cast_simps simp del: free_set_simps)
  moreover have "tree_taken (m\<lparr>tm_used := u32 (tm_used m + 1), tm_tree := pre @ take_pieces b seq @ post\<rparr>)
      = insert seq (tree_taken m)"
    using assms(2) by (auto simp: tree_taken_def fs simp del: free_set_simps)
  ultimately show ?thesis using take by simp
qed

lemma tree_FreeLength_ok:
  assumes "tree_invar m"
  shows "tree_FreeLength m = tm_size m - card (tree_taken m)"
proof -
  from tree_invar_bounds(2) [OF assms] have "card (tree_taken m) = tm_size m - card (free_set (tm_tree m))"
    by (simp add: tree_taken_def card_Diff_subset)
  then show ?thesis
    using assms by (cases "tm_size m = 0") (auto simp: tree_FreeLength_def tree_invar_def cast_simps)
qed

lemma tree_Serialize_ok:
  assumes "tree_invar m" and "length buf = tree_ByteSize m" and "0 < tm_size m"
  shows "tree_SerializeToBuffer m buf (tree_ByteSize m) = Inr (concat (map block_bytes (tm_tree m)))
    \<and> runs_of ({..<tm_size m} - tree_taken m) (tm_tree m)"
proof -
  let ?strm = "MemoryFixedSizeStream buf (tree_ByteSize m)"
  have len: "length (concat (map block_bytes (tm_tree m))) = tree_ByteSize m"
    by (simp add: tree_ByteSize_def)
  have g: "gapped (tm_tree m)" using assms by (simp add: tree_invar_def)
  have "card (free_set (tm_tree m)) \<le> tm_size m"
    using tree_invar_bounds(2) [OF assms(1)] card_mono [of "{..<tm_size m}"] by fastforce
  with gapped_length [OF g] assms(1) have small: "tree_ByteSize m < 2 ^ 64"
    by (simp add: tree_ByteSize_def sizeof_Block_def tree_invar_def)
  have s: "fixed_invar ?strm" "fixed_room ?strm (length (concat (map block_bytes (tm_tree m))))"
    "fixed_Tell ?strm = 0"
    using assms(2) small len
    by (simp_all add: fixed_invar_def fixed_room_def MemoryFixedSizeStream_def fixed_Tell_def)
  from fixed.write_all_ok [OF s(1,2)] s(3) len obtain s' where
    "write_all fixed_Write (map block_bytes (tm_tree m)) ?strm = Inr s'"
    "fixed_Tell s' = tree_ByteSize m"
    "take (fixed_Tell s') (p_buffer s') = concat (map block_bytes (tm_tree m))"
    by auto
  moreover have "{..<tm_size m} - tree_taken m = free_set (tm_tree m)"
    using tree_invar_bounds(2) [OF assms(1)] by (auto simp: tree_taken_def)
  ultimately show ?thesis
    using g by (simp add: tree_SerializeToBuffer_def runs_of_def)
qed

section \<open>The tree implements both interfaces\<close>

lemma TreeBlockMgr_invar:
  "n < 2 ^ 32 \<Longrightarrow> tree_invar (TreeBlockMgr n) \<and> tm_size (TreeBlockMgr n) = n \<and> tree_taken (TreeBlockMgr n) = {}"
  by (auto simp: TreeBlockMgr_def tree_invar_def tree_taken_def mk_block_def cast_simps gapped_Cons)

interpretation tree: block_serializer tm_size tree_Resize tree_Check tree_Take tree_FreeLength
  tree_invar tree_taken tree_ByteSize tree_SerializeToBuffer
proof (unfold_locales, goal_cases)
  case (1 m)
  then show ?case by (auto simp: tree_taken_def)
next
  case (2 m n)
  then show ?case by (rule tree_Resize_ok)
next
  case (3 n m)
  then show ?case by (simp add: tree_Resize_def res_simps)
next
  case (4 m seq)
  then show ?case by (rule tree_Check_ok)
next
  case (5 m seq)
  then show ?case by (rule tree_Take_ok)
next
  case (6 m)
  then show ?case by (rule tree_FreeLength_ok)
next
  case (7 m buf)
  then show ?case using tree_Serialize_ok [of m buf] by (auto simp: tree_ByteSize_def)
qed

section \<open>Properties\<close>

abbreviation tree_admit_all :: "nat list \<Rightarrow> tree_mgr \<Rightarrow> tree_mgr res" where
  "tree_admit_all \<equiv> admit_all tm_size tree_Resize tree_Check tree_Take"

text \<open>C11: Whatever packets arrive, in whatever order and however often, recording them in a fresh
  \<open>TreeBlockMgr\<close> never aborts, and the retransmission request it then serialises into a buffer of
  \<open>ByteSize()\<close> bytes lists exactly the missing sequence numbers, as the unique ascending list of
  maximal blocks; \<open>FreeLength()\<close> is their number.\<close>

theorem tree_missing_runs:
  assumes "0 < n" and "n < 2 ^ 32" and "\<forall>s \<in> set seqs. s < 2 ^ 32 - 1"
  shows "\<exists>m bs. tree_admit_all seqs (TreeBlockMgr n) = Inr m
    \<and> tm_size m = fold (\<lambda>s k. max k (Suc s)) seqs n
    \<and> tree_SerializeToBuffer m (replicate (tree_ByteSize m) 0) (tree_ByteSize m)
        = Inr (concat (map block_bytes bs))
    \<and> runs_of ({..<tm_size m} - set seqs) bs
    \<and> tree_FreeLength m = card ({..<tm_size m} - set seqs)"
proof -
  from TreeBlockMgr_invar [OF assms(2)] have init: "tree_invar (TreeBlockMgr n)"
    "tm_size (TreeBlockMgr n) = n" "tree_taken (TreeBlockMgr n) = {}" by auto
  from tree.admit_all_ok [OF init(1) assms(3)] obtain m where m:
    "tree_admit_all seqs (TreeBlockMgr n) = Inr m" "tree_invar m"
    "tm_size m = fold (\<lambda>s k. max k (Suc s)) seqs n" "tree_taken m = set seqs"
    by (auto simp: init)
  have pos: "0 < tm_size m" using fold_max_ge [of n seqs] assms(1) m(3) by simp
  have "card ({..<tm_size m} - set seqs) = tm_size m - card (set seqs)"
    using tree.taken_bound [OF m(2)] m(4) by (simp add: card_Diff_subset)
  with tree.FreeLength_ok [OF m(2)] m(4) have "tree_FreeLength m = card ({..<tm_size m} - set seqs)"
    by simp
  with m tree_Serialize_ok [OF m(2) _ pos, of "replicate (tree_ByteSize m) 0"] show ?thesis
    by (intro exI [of _ m] exI [of _ "tm_tree m"]) simp
qed

theorem tree_missing_runs_witness:
  "\<exists>m bs. tree_admit_all [2, 5, 2] (TreeBlockMgr 4) = Inr m
    \<and> tm_size m = 6
    \<and> tree_SerializeToBuffer m (replicate (tree_ByteSize m) 0) (tree_ByteSize m)
        = Inr (concat (map block_bytes bs))
    \<and> runs_of ({..<tm_size m} - set [2, 5, 2]) bs
    \<and> tree_FreeLength m = card ({..<tm_size m} - set [2, 5, 2])"
  using tree_missing_runs [of 4 "[2, 5, 2]"] by (simp add: max_def)

text \<open>C27: The operations of \<open>TreeBlockMgr\<close> keep its invariant, agree with the set of taken
  sequence numbers, and abort exactly outside their contract: \<open>Take\<close> on a number that is already
  taken and \<open>Resize\<close> to a size that is not larger fail their \<open>CHECK\<close>s.\<close>

theorem tree_operations:
  assumes "tree_invar m" and "seq < tm_size m" and "n < 2 ^ 32"
  shows "tree_Check m seq = Inr (seq \<in> tree_taken m)
    \<and> (seq \<in> tree_taken m \<longrightarrow> (\<exists>w. tree_Take m seq = Inl (Check_Failed w)))
    \<and> (seq \<notin> tree_taken m \<longrightarrow> (\<exists>m'. tree_Take m seq = Inr m' \<and> tree_invar m'
          \<and> tm_size m' = tm_size m \<and> tree_taken m' = insert seq (tree_taken m)))
    \<and> (n \<le> tm_size m \<longrightarrow> (\<exists>w. tree_Resize m n = Inl (Check_Failed w)))
    \<and> (tm_size m < n \<longrightarrow> (\<exists>m'. tree_Resize m n = Inr m' \<and> tree_invar m'
          \<and> tm_size m' = n \<and> tree_taken m' = tree_taken m))"
proof (intro conjI impI)
  show chk: "tree_Check m seq = Inr (seq \<in> tree_taken m)" using assms by (simp add: tree.Check_ok)
  show "\<exists>w. tree_Take m seq = Inl (Check_Failed w)" if "seq \<in> tree_taken m"
    using chk that by (auto simp: tree_Check_def tree_Take_def Let_def res_simps split: if_splits)
  show "\<exists>m'. tree_Take m seq = Inr m' \<and> tree_invar m' \<and> tm_size m' = tm_size m
      \<and> tree_taken m' = insert seq (tree_taken m)" if "seq \<notin> tree_taken m"
    using assms that by (simp add: tree.Take_ok)
  show "\<exists>w. tree_Resize m n = Inl (Check_Failed w)" if "n \<le> tm_size m"
    using that by (simp add: tree_Resize_def res_simps)
  show "\<exists>m'. tree_Resize m n = Inr m' \<and> tree_invar m' \<and> tm_size m' = n \<and> tree_taken m' = tree_taken m"
    if "tm_size m < n"
    using assms that by (simp add: tree.Resize_ok)
qed

theorem tree_operations_witness:
  "tree_Check (TreeBlockMgr 4) 2 = Inr False \<and> is_ok (tree_Take (TreeBlockMgr 4) 2)
    \<and> is_ok (tree_Resize (TreeBlockMgr 4) 9)"
  using tree_operations [of "TreeBlockMgr 4" 2 9] TreeBlockMgr_invar [of 4] by auto

end
