(* ===== verification/Bitmap_Block_Mgr.thy ===== *)
theory Bitmap_Block_Mgr
  imports Tree_Block_Mgr
begin

text \<open>
  \<open>Bitmap<long>\<close> and \<open>BitmapBlockMgr\<close> (\<open>src/src/mlt/bitmap_block_mgr.h\<close>).

  The bitmap is a vector of 64-bit words, one bit per sequence number; the manager keeps the
  number of taken bits and the number \<open>segments_\<close> of free runs, from which \<open>ByteSize\<close> is
  computed, and serialises the free runs by scanning the words with count-trailing-zeros.
  \<open>__builtin_ctzl(0)\<close> and shifts by 64 or more are undefined behaviour.

  The class implements \<open>block_tracker\<close>. Serialisation yields the same list as the specification
  when \<open>segments_\<close> is right and no word has its top bit set; \<open>Take\<close> keeps \<open>segments_\<close> right,
  \<open>Resize\<close> does not (it tests the last bit after the size has changed).
\<close>

unbundle bit_operations_syntax

section \<open>Bitmap\<close>

record bitmap =
  bm_size :: nat
  bm_vec :: "64 word list"

definition type_size :: nat where
  "type_size = 64"

definition RoundUp :: "nat \<Rightarrow> nat \<Rightarrow> nat" where
  "RoundUp x d = u64 (x + d - 1) div d"

definition vec_resize :: "nat \<Rightarrow> 64 word list \<Rightarrow> 64 word list" where
  "vec_resize n v = take n v @ replicate (n - length v) 0"

definition Bitmap :: "nat \<Rightarrow> bitmap" where
  "Bitmap n = \<lparr>bm_size = n, bm_vec = replicate (RoundUp n type_size) 0\<rparr>"

definition bitmap_Resize :: "bitmap \<Rightarrow> nat \<Rightarrow> bitmap" where
  "bitmap_Resize b n = b\<lparr>bm_size := n, bm_vec := vec_resize (RoundUp n type_size) (bm_vec b)\<rparr>"

definition UnderlayValue :: "bitmap \<Rightarrow> nat \<Rightarrow> 64 word res" where
  "UnderlayValue b pos =
     (if pos < length (bm_vec b) then Inr (bm_vec b ! pos) else Inl (Undefined_Behaviour ''vec_[]''))"

definition bitmap_Test :: "bitmap \<Rightarrow> nat \<Rightarrow> 64 word res" where
  "bitmap_Test b pos =
     (let offset = pos AND (type_size - 1) in
      rbind (UnderlayValue b (pos div type_size))
        (\<lambda>val. Inr (signed_drop_bit offset val AND 1)))"

definition bitmap_Set :: "bitmap \<Rightarrow> nat \<Rightarrow> 64 word \<Rightarrow> bitmap res" where
  "bitmap_Set b pos v =
     (let offset = pos AND (type_size - 1); i = pos div type_size in
      rbind (UnderlayValue b i)
        (\<lambda>val. if v \<noteq> 0 then Inr (b\<lparr>bm_vec := (bm_vec b)[i := val OR push_bit offset 1]\<rparr>)
               else Inr (b\<lparr>bm_vec := (bm_vec b)[i := val AND NOT (push_bit offset 1)]\<rparr>)))"

definition bitmap_Reset :: "bitmap \<Rightarrow> nat \<Rightarrow> bitmap res" where
  "bitmap_Reset b pos =
     (let offset = pos AND (type_size - 1); i = pos div type_size in
      rbind (UnderlayValue b i)
        (\<lambda>val. Inr (b\<lparr>bm_vec := (bm_vec b)[i := val AND NOT (push_bit offset 1)]\<rparr>)))"

definition bitmap_Flip :: "bitmap \<Rightarrow> nat \<Rightarrow> bitmap res" where
  "bitmap_Flip b pos = rbind (bitmap_Test b pos) (\<lambda>v. bitmap_Set b pos (v XOR 1))"

section \<open>BitmapBlockMgr\<close>

record bitmap_mgr =
  bb_size :: nat
  bb_used :: nat
  bb_segments :: nat
  bb_bitmap :: bitmap

definition BitmapBlockMgr :: "nat \<Rightarrow> bitmap_mgr" where
  "BitmapBlockMgr n = \<lparr>bb_size = u32 n, bb_used = 0, bb_segments = 1, bb_bitmap = Bitmap n\<rparr>"

definition bb_Resize :: "bitmap_mgr \<Rightarrow> nat \<Rightarrow> bitmap_mgr res" where
  "bb_Resize m n =
     rbind (check (n > bb_size m) ''size > size_'') (\<lambda>_.
       let bm = bitmap_Resize (bb_bitmap m) n; sz = u32 n in
       rbind (bitmap_Test bm (usub32 sz 1)) (\<lambda>v.
         Inr (m\<lparr>bb_bitmap := bm, bb_size := sz,
                bb_segments := (if v \<noteq> 0 then u32 (bb_segments m + 1) else bb_segments m)\<rparr>)))"

definition bb_Check :: "bitmap_mgr \<Rightarrow> nat \<Rightarrow> bool res" where
  "bb_Check m seq =
     rbind (check (seq < bb_size m) ''0 <= seq && seq < size_'') (\<lambda>_.
       rbind (bitmap_Test (bb_bitmap m) seq) (\<lambda>v. Inr (v \<noteq> 0)))"

text \<open>\<open>a || bitmap_.Test(p)\<close>, where the second operand is only evaluated when needed.\<close>

definition or_test :: "bool \<Rightarrow> bitmap \<Rightarrow> nat \<Rightarrow> bool res" where
  "or_test a bm p = (if a then Inr True else rbind (bitmap_Test bm p) (\<lambda>v. Inr (v \<noteq> 0)))"

definition bb_Take :: "bitmap_mgr \<Rightarrow> nat \<Rightarrow> bitmap_mgr res" where
  "bb_Take m seq =
     rbind (check (seq < bb_size m) ''0 <= seq && seq < size_'') (\<lambda>_.
     rbind (bitmap_Test (bb_bitmap m) seq) (\<lambda>v.
       if v \<noteq> 0 then Inr m
       else
         rbind (or_test (seq = 0) (bb_bitmap m) (usub32 seq 1)) (\<lambda>left.
         rbind (or_test (u32 (seq + 1) = bb_size m) (bb_bitmap m) (u32 (seq + 1))) (\<lambda>right.
         rbind (bitmap_Set (bb_bitmap m) seq 1) (\<lambda>bm.
           let used = u32 (bb_used m + 1);
               s0 = u32 (bb_segments m + 1);
               s1 = (if left then usub32 s0 1 else s0);
               s2 = (if right then usub32 s1 1 else s1)
           in Inr (m\<lparr>bb_used := used, bb_segments := s2, bb_bitmap := bm\<rparr>))))))"

definition bb_FreeLength :: "bitmap_mgr \<Rightarrow> nat" where
  "bb_FreeLength m = usub32 (bb_size m) (bb_used m)"

definition bb_ByteSize :: "bitmap_mgr \<Rightarrow> nat" where
  "bb_ByteSize m = u64 (bb_segments m * sizeof_Block)"

text \<open>\<open>LastBitNotZero\<close> is \<open>__builtin_ctzl\<close>, the number of trailing zero bits of a non-zero word.\<close>

definition LastBitNotZero :: "64 word \<Rightarrow> nat" where
  "LastBitNotZero w = length (takeWhile (\<lambda>k. \<not> bit w k) [0..<64])"

lemma LastBitNotZero_le: "LastBitNotZero w \<le> 64"
  using length_takeWhile_le [of _ "[0..<64]"] by (fastforce simp: LastBitNotZero_def)

lemma LastBitNotZero_zero [simp]: "LastBitNotZero 0 = 64"
  by (simp add: LastBitNotZero_def takeWhile_eq_all_conv [THEN iffD2])

lemma LastBitNotZero_low: "k < LastBitNotZero w \<Longrightarrow> \<not> bit w k"
proof -
  assume k: "k < LastBitNotZero w"
  then have "k < 64" using LastBitNotZero_le [of w] by simp
  from k have "takeWhile (\<lambda>k. \<not> bit w k) [0..<64] ! k = [0..<64] ! k"
    unfolding LastBitNotZero_def by (rule takeWhile_nth)
  moreover have "\<not> bit w (takeWhile (\<lambda>k. \<not> bit w k) [0..<64] ! k)"
    using k unfolding LastBitNotZero_def by (metis (mono_tags, lifting) nth_mem set_takeWhileD)
  ultimately show ?thesis using \<open>k < 64\<close> by simp
qed

lemma LastBitNotZero_bit:
  assumes "w \<noteq> 0"
  shows "LastBitNotZero w < 64" and "bit w (LastBitNotZero w)"
proof -
  have "\<exists>k < 64. bit w k"
    using assms bit_imp_le_length [of w] by (auto simp: bit_eq_iff)
  then obtain k where k: "k < 64" "bit w k" by blast
  then show less: "LastBitNotZero w < 64"
    using LastBitNotZero_low [of k w] by (meson leI le_less_trans)
  then have "length (takeWhile (\<lambda>k. \<not> bit w k) [0..<64]) < length [0..<64::nat]"
    by (simp add: LastBitNotZero_def)
  from nth_length_takeWhile [OF this] less show "bit w (LastBitNotZero w)"
    by (simp add: LastBitNotZero_def)
qed

lemma LastBitNotZero_least: "bit w k \<Longrightarrow> LastBitNotZero w \<le> k"
  using LastBitNotZero_low [of k w] by (meson not_le)

lemma bit_nonzero: "bit (w :: 64 word) k \<Longrightarrow> w \<noteq> 0"
  by auto

lemma bit_ones_above: "bit (push_bit n (NOT 0) :: 64 word) k \<longleftrightarrow> n \<le> k \<and> k < 64"
  by (auto simp: bit_push_bit_iff bit_not_iff bit_mask_iff)

lemma bit_gap_word:
  "bit (NOT (seg OR NOT (push_bit tz (NOT 0))) :: 64 word) k \<longleftrightarrow> k < 64 \<and> tz \<le> k \<and> \<not> bit seg k"
  by (auto simp: bit_not_iff bit_and_iff bit_mask_iff)

text \<open>The inner loop of \<open>SerializeToBuffer\<close> on one word: \<open>i\<close> is the number of its lowest bit,
  \<open>first\<close> the start of the current free run.\<close>

function ser_word :: "nat \<Rightarrow> 64 word \<Rightarrow> nat \<Rightarrow> fixed_stream \<Rightarrow> (nat \<times> fixed_stream) res" where
  "ser_word i seg first strm =
     (if seg \<noteq> 0 \<and> first < u32 (i + type_size) then
        let trailing_zeros = LastBitNotZero seg; last = u32 (i + trailing_zeros) in
        rbind (if first < last then fixed_Write strm (block_bytes (mk_block first last)) else Inr strm)
          (\<lambda>strm1.
            let mask1 = push_bit trailing_zeros (NOT 0); gaps = NOT (seg OR NOT mask1) in
            if gaps = 0 then Inl (Undefined_Behaviour ''__builtin_ctzl(0)'')
            else
              let first1 = u32 (i + LastBitNotZero gaps) in
              if usub32 first1 i \<ge> 64 then Inl (Undefined_Behaviour ''shift'')
              else ser_word i (seg AND push_bit (usub32 first1 i) (NOT 0)) first1 strm1)
      else Inr (first, strm))"
  by pat_completeness auto

lemma LastBitNotZero_gap:
  assumes "seg \<noteq> 0" and "NOT (seg OR NOT (push_bit (LastBitNotZero seg) (NOT 0))) \<noteq> (0 :: 64 word)"
  defines "z \<equiv> LastBitNotZero (NOT (seg OR NOT (push_bit (LastBitNotZero seg) (NOT 0))))"
  shows "z < 64" and "LastBitNotZero seg < z" and "\<not> bit seg z"
    and "\<And>k. LastBitNotZero seg \<le> k \<Longrightarrow> k < z \<Longrightarrow> bit seg k"
proof -
  let ?g = "NOT (seg OR NOT (push_bit (LastBitNotZero seg) (NOT 0))) :: 64 word"
  show "z < 64" unfolding z_def using LastBitNotZero_bit(1) [OF assms(2)] .
  have "bit ?g z" unfolding z_def using LastBitNotZero_bit(2) [OF assms(2)] .
  then have z: "LastBitNotZero seg \<le> z" "\<not> bit seg z" unfolding bit_gap_word by auto
  with LastBitNotZero_bit(2) [OF assms(1)] show "LastBitNotZero seg < z" "\<not> bit seg z"
    by (auto simp: le_less)
  show "bit seg k" if "LastBitNotZero seg \<le> k" "k < z" for k
  proof -
    from that(2) have "\<not> bit ?g k" unfolding z_def by (rule LastBitNotZero_low)
    with that \<open>z < 64\<close> show ?thesis unfolding bit_gap_word by auto
  qed
qed

lemma LastBitNotZero_masked:
  assumes "seg \<noteq> 0" and "LastBitNotZero seg < z"
  shows "LastBitNotZero seg < LastBitNotZero (seg AND push_bit z (NOT 0))"
proof (cases "seg AND push_bit z (NOT 0) = 0")
  case True
  then show ?thesis using LastBitNotZero_bit(1) [OF assms(1)] by simp
next
  case False
  from LastBitNotZero_bit(2) [OF False] have "z \<le> LastBitNotZero (seg AND push_bit z (NOT 0))"
    unfolding bit_and_iff bit_ones_above by simp
  with assms(2) show ?thesis by simp
qed

termination ser_word
proof (relation "measure (\<lambda>(i, seg, first, strm). 64 - LastBitNotZero seg)", goal_cases)
  case 1
  then show ?case by simp
next
  case (2 i seg first strm tz last strm1 mask1 gaps first1)
  then have seg: "seg \<noteq> 0" and gaps: "NOT (seg OR NOT (push_bit (LastBitNotZero seg) (NOT 0))) \<noteq> 0"
    by auto
  note g = LastBitNotZero_gap [OF seg gaps]
  have "usub32 first1 i = LastBitNotZero gaps"
    using g(1) 2 by (simp add: usub32_u32_add)
  with g(2) 2 have "LastBitNotZero seg < usub32 first1 i" by simp
  from LastBitNotZero_masked [OF seg this] LastBitNotZero_bit(1) [OF seg] show ?case by simp
qed

declare ser_word.simps [simp del]

text \<open>The outer loop over the words. \<open>i += step_size\<close> is 32-bit arithmetic, so for sizes within
  64 of \<open>2 ^ 32\<close> the loop would not end; it is given as much fuel as the bitmap has words.\<close>

fun ser_loop :: "nat \<Rightarrow> bitmap_mgr \<Rightarrow> nat \<Rightarrow> nat \<Rightarrow> fixed_stream \<Rightarrow> (nat \<times> fixed_stream) res" where
  "ser_loop fuel m i first strm =
     (if i < bb_size m then
        (case fuel of
           0 \<Rightarrow> Inl Out_Of_Fuel
         | Suc fuel' \<Rightarrow>
             rbind (UnderlayValue (bb_bitmap m) (i div type_size)) (\<lambda>seg.
               rbind (ser_word i seg first strm) (\<lambda>(first', strm').
                 ser_loop fuel' m (u32 (i + type_size)) first' strm')))
      else Inr (first, strm))"

definition bb_SerializeToBuffer :: "bitmap_mgr \<Rightarrow> byte list \<Rightarrow> nat \<Rightarrow> byte list res" where
  "bb_SerializeToBuffer m buf buf_size =
     rbind (ser_loop (length (bm_vec (bb_bitmap m))) m 0 0 (MemoryFixedSizeStream buf buf_size))
       (\<lambda>(first, strm).
         rbind (if first < bb_size m then fixed_Write strm (block_bytes (mk_block first (bb_size m)))
                else Inr strm)
           (\<lambda>strm1. rbind (check (fixed_Tell strm1 = bb_ByteSize m) ''strm->Tell() == ByteSize()'')
             (\<lambda>_. Inr (take (fixed_Tell strm1) (p_buffer strm1)))))"

section \<open>The bitmap as a set of positions\<close>

definition bm_bit :: "bitmap \<Rightarrow> nat \<Rightarrow> bool" where
  "bm_bit b p \<longleftrightarrow> bit (bm_vec b ! (p div 64)) (p mod 64)"

definition bb_taken :: "bitmap_mgr \<Rightarrow> nat set" where
  "bb_taken m = {p. p < bb_size m \<and> bm_bit (bb_bitmap m) p}"

definition bb_invar :: "bitmap_mgr \<Rightarrow> bool" where
  "bb_invar m \<longleftrightarrow> bb_size m < 2 ^ 32 \<and> length (bm_vec (bb_bitmap m)) = (bb_size m + 63) div 64
     \<and> (\<forall>p < 64 * length (bm_vec (bb_bitmap m)). bm_bit (bb_bitmap m) p \<longrightarrow> p < bb_size m)
     \<and> bb_used m = card (bb_taken m)"

lemma and_63: "(p :: nat) AND 63 = p mod 64"
  using take_bit_eq_mask [of 6 p] by (simp add: take_bit_eq_mod mask_eq_exp_minus_1)

lemma word_bit0: "k < 64 \<Longrightarrow> signed_drop_bit k (w :: 64 word) AND 1 = of_bool (bit w k)"
proof (rule bit_word_eqI)
  fix n
  assume "k < 64"
  then show "bit (signed_drop_bit k w AND 1) n = bit (of_bool (bit w k) :: 64 word) n"
    by (cases "n = 0") (auto simp: bit_and_iff bit_1_iff bit_signed_drop_bit_iff)
qed

lemma RoundUp_64: "n < 2 ^ 32 \<Longrightarrow> RoundUp n type_size = (n + 63) div 64"
  by (simp add: RoundUp_def type_size_def cast_simps)

lemma bitmap_Test_eq:
  "p div 64 < length (bm_vec b) \<Longrightarrow> bitmap_Test b p = Inr (of_bool (bm_bit b p))"
  by (simp add: bitmap_Test_def UnderlayValue_def type_size_def and_63 word_bit0 bm_bit_def)

lemma bitmap_Test_oob:
  "length (bm_vec b) \<le> p div 64 \<Longrightarrow> \<not> is_ok (bitmap_Test b p)"
  by (simp add: bitmap_Test_def UnderlayValue_def type_size_def)

lemma bitmap_Set_eq:
  assumes "p div 64 < length (bm_vec b)"
  shows "\<exists>b'. bitmap_Set b p 1 = Inr b' \<and> bm_size b' = bm_size b
    \<and> length (bm_vec b') = length (bm_vec b)
    \<and> (\<forall>q. q div 64 < length (bm_vec b) \<longrightarrow> bm_bit b' q = (q = p \<or> bm_bit b q))"
proof -
  let ?i = "p div 64"
  let ?b = "b\<lparr>bm_vec := (bm_vec b)[?i := bm_vec b ! ?i OR push_bit (p mod 64) 1]\<rparr>"
  have "bit (push_bit (p mod 64) 1 :: 64 word) k \<longleftrightarrow> k = p mod 64" for k
    by (auto simp: bit_exp_iff)
  then have "bm_bit ?b q \<longleftrightarrow> (q div 64 = ?i \<and> q mod 64 = p mod 64) \<or> bm_bit b q"
    if "q div 64 < length (bm_vec b)" for q
    using that by (cases "q div 64 = ?i") (simp_all add: bm_bit_def bit_or_iff disj_commute)
  then have "bm_bit ?b q \<longleftrightarrow> q = p \<or> bm_bit b q" if "q div 64 < length (bm_vec b)" for q
    using that by (metis div_mult_mod_eq)
  moreover have "bitmap_Set b p 1 = Inr ?b"
    using assms by (simp add: bitmap_Set_def UnderlayValue_def type_size_def and_63 Let_def)
  ultimately show ?thesis by simp
qed

lemma bm_bit_Resize:
  assumes "length (bm_vec b) \<le> RoundUp n type_size" and "p div 64 < RoundUp n type_size"
  shows "bm_bit (bitmap_Resize b n) p \<longleftrightarrow> p div 64 < length (bm_vec b) \<and> bm_bit b p"
  using assms by (auto simp: bm_bit_def bitmap_Resize_def vec_resize_def nth_append)

lemma bb_range: "bb_invar m \<Longrightarrow> p < bb_size m \<Longrightarrow> p div 64 < length (bm_vec (bb_bitmap m))"
  by (simp add: bb_invar_def less_Suc_eq_le [symmetric])

lemma finite_bb_taken [simp]: "finite (bb_taken m)"
  by (simp add: bb_taken_def)

lemma bb_Check_ok:
  assumes "bb_invar m" and "seq < bb_size m"
  shows "bb_Check m seq = Inr (seq \<in> bb_taken m)"
  using assms bb_range [OF assms] by (auto simp: bb_Check_def bitmap_Test_eq bb_taken_def)

lemma bb_Resize_ok:
  assumes "bb_invar m" and "bb_size m < n" and "n < 2 ^ 32"
  shows "\<exists>m'. bb_Resize m n = Inr m' \<and> bb_invar m' \<and> bb_size m' = n \<and> bb_taken m' = bb_taken m
    \<and> bb_segments m' = bb_segments m"
proof -
  let ?b = "bb_bitmap m" and ?b' = "bitmap_Resize (bb_bitmap m) n"
  let ?m' = "m\<lparr>bb_bitmap := ?b', bb_size := n\<rparr>"
  have len: "length (bm_vec ?b) = (bb_size m + 63) div 64" "length (bm_vec ?b') = (n + 63) div 64"
    "length (bm_vec ?b) \<le> length (bm_vec ?b')"
    using assms by (auto simp: bb_invar_def bitmap_Resize_def vec_resize_def RoundUp_64 div_le_mono)
  have bits: "bm_bit ?b' p \<longleftrightarrow> p < bb_size m \<and> bm_bit ?b p" if "p div 64 < length (bm_vec ?b')" for p
  proof -
    have "bm_bit ?b' p \<longleftrightarrow> p div 64 < length (bm_vec ?b) \<and> bm_bit ?b p"
      using bm_bit_Resize [of ?b n p] len that assms(3) by (simp add: RoundUp_64)
    moreover have "p div 64 < length (bm_vec ?b) \<Longrightarrow> bm_bit ?b p \<Longrightarrow> p < bb_size m"
      using assms(1) by (auto simp: bb_invar_def less_mult_imp_div_less
          div_less_iff_less_mult mult.commute)
    ultimately show ?thesis using bb_range [OF assms(1), of p] by blast
  qed
  have "(n - 1) div 64 < length (bm_vec ?b')" using assms(2) len(2) by linarith
  with bits [of "n - 1"] assms(2,3) have "bb_Resize m n = Inr ?m'"
    by (auto simp: bb_Resize_def cast_simps bitmap_Test_eq)
  moreover have tk: "bb_taken ?m' = bb_taken m"
    using assms(2) len(2) by (auto simp: bb_taken_def bits)
  moreover have "bb_invar ?m'"
    using assms len bits tk by (auto simp: bb_invar_def)
  ultimately show ?thesis by auto
qed

section \<open>Take, and the count of segments\<close>

definition segments_ok :: "bitmap_mgr \<Rightarrow> bool" where
  "segments_ok m \<longleftrightarrow> (\<exists>bs. runs_of ({..<bb_size m} - bb_taken m) bs \<and> bb_segments m = length bs)"

text \<open>Whether the neighbours of a number end a run: the boundary of the range, or taken.\<close>

definition closed_left :: "bitmap_mgr \<Rightarrow> nat \<Rightarrow> bool" where
  "closed_left m seq \<longleftrightarrow> seq = 0 \<or> seq - 1 \<in> bb_taken m"

definition closed_right :: "bitmap_mgr \<Rightarrow> nat \<Rightarrow> bool" where
  "closed_right m seq \<longleftrightarrow> Suc seq = bb_size m \<or> Suc seq \<in> bb_taken m"

lemma or_test_taken:
  assumes "bb_invar m" and "\<not> a \<Longrightarrow> p < bb_size m"
  shows "or_test a (bb_bitmap m) p = Inr (a \<or> p \<in> bb_taken m)"
  using assms bb_range [OF assms(1), of p]
  by (auto simp: or_test_def bitmap_Test_eq bb_taken_def)

lemma bb_Take_eq:
  assumes "bb_invar m" and "seq < bb_size m" and "seq \<notin> bb_taken m"
  shows "\<exists>m'. bb_Take m seq = Inr m' \<and> bb_invar m' \<and> bb_size m' = bb_size m
    \<and> bb_taken m' = insert seq (bb_taken m)
    \<and> bb_segments m' =
        (let s0 = u32 (bb_segments m + 1); s1 = (if closed_left m seq then usub32 s0 1 else s0)
         in if closed_right m seq then usub32 s1 1 else s1)"
proof -
  let ?bm = "bb_bitmap m"
  have r: "seq div 64 < length (bm_vec ?bm)" using bb_range assms by blast
  from bitmap_Set_eq [OF r] obtain bm where bm: "bitmap_Set ?bm seq 1 = Inr bm"
    "length (bm_vec bm) = length (bm_vec ?bm)"
    "\<forall>q. q div 64 < length (bm_vec ?bm) \<longrightarrow> bm_bit bm q = (q = seq \<or> bm_bit ?bm q)" by blast
  let ?s0 = "u32 (bb_segments m + 1)"
  let ?s1 = "if closed_left m seq then usub32 ?s0 1 else ?s0"
  let ?s2 = "if closed_right m seq then usub32 ?s1 1 else ?s1"
  let ?m' = "m\<lparr>bb_used := u32 (bb_used m + 1), bb_segments := ?s2, bb_bitmap := bm\<rparr>"
  have small: "bb_size m < 4294967296" using assms(1) by (simp add: bb_invar_def)
  have left: "or_test (seq = 0) ?bm (usub32 seq 1) = Inr (closed_left m seq)"
    using or_test_taken [OF assms(1), of "seq = 0" "usub32 seq 1"] assms(2) small
    by (cases "seq = 0") (auto simp: closed_left_def cast_simps)
  have right: "or_test (u32 (seq + 1) = bb_size m) ?bm (u32 (seq + 1)) = Inr (closed_right m seq)"
    using or_test_taken [OF assms(1), of "u32 (seq + 1) = bb_size m" "u32 (seq + 1)"] assms(2) small
    by (auto simp: closed_right_def cast_simps)
  have "bitmap_Test ?bm seq = Inr 0"
    using assms(2,3) r by (simp add: bitmap_Test_eq bb_taken_def)
  with left right bm(1) assms(2) have take: "bb_Take m seq = Inr ?m'"
    by (simp add: bb_Take_def Let_def)
  have tk: "bb_taken ?m' = insert seq (bb_taken m)"
    using bm(3) bb_range [OF assms(1)] assms(2) by (auto simp: bb_taken_def)
  have "bb_taken m \<subseteq> {..<bb_size m} - {seq}"
    using assms(3) by (auto simp: bb_taken_def)
  from card_mono [OF _ this] assms(2) have "card (bb_taken m) < bb_size m" by simp
  then have used: "u32 (bb_used m + 1) = card (insert seq (bb_taken m))"
    using assms(1,3) by (simp add: bb_invar_def cast_simps)
  have "bb_invar ?m'"
    unfolding bb_invar_def
  proof (intro conjI allI impI)
    fix p
    assume "p < 64 * length (bm_vec (bb_bitmap ?m'))" and "bm_bit (bb_bitmap ?m') p"
    then have "p div 64 < length (bm_vec ?bm)" "bm_bit bm p" "p < 64 * length (bm_vec ?bm)"
      using bm(2) by (auto simp: less_mult_imp_div_less mult.commute)
    then show "p < bb_size ?m'"
      using bm(3) assms(1,2) by (auto simp: bb_invar_def)
  qed (use assms(1) bm(2) used tk in \<open>simp_all add: bb_invar_def\<close>)
  with take tk show ?thesis by (simp add: Let_def)
qed

lemma segments_Take:
  assumes "bb_invar m" and "seq < bb_size m" and "seq \<notin> bb_taken m" and "segments_ok m"
    and "bb_Take m seq = Inr m'"
  shows "segments_ok m'"
proof -
  let ?S = "{..<bb_size m} - bb_taken m"
  from assms(4) obtain bs where bs: "runs_of ?S bs" "bb_segments m = length bs"
    by (auto simp: segments_ok_def)
  have "seq \<in> ?S" using assms(2,3) by simp
  from runs_of_take [OF bs(1) this] obtain bs' where bs': "runs_of (?S - {seq}) bs'"
    "length bs' + of_bool (seq = 0 \<or> seq - 1 \<notin> ?S) + of_bool (Suc seq \<notin> ?S) = length bs + 1" by blast
  have cl: "(seq = 0 \<or> seq - 1 \<notin> ?S) = closed_left m seq"
    using assms(2) by (auto simp: closed_left_def)
  have cr: "(Suc seq \<notin> ?S) = closed_right m seq"
    using assms(2) by (auto simp: closed_right_def bb_taken_def)
  have small: "length bs + 1 < 4294967296"
    using runs_of_half [OF bs(1), of "bb_size m"] assms(1) by (auto simp: bb_invar_def)
  from bb_Take_eq [OF assms(1-3)] assms(5) have m': "bb_size m' = bb_size m"
    "bb_taken m' = insert seq (bb_taken m)"
    "bb_segments m' = (let s0 = u32 (bb_segments m + 1); s1 = (if closed_left m seq then usub32 s0 1 else s0)
         in if closed_right m seq then usub32 s1 1 else s1)" by auto
  have "bb_segments m' = length bs'"
    using bs'(2) bs(2) small unfolding cl cr m'(3)
    by (cases "closed_left m seq"; cases "closed_right m seq") (auto simp: Let_def cast_simps)
  moreover have "?S - {seq} = {..<bb_size m'} - bb_taken m'" using m' by auto
  ultimately show ?thesis using bs'(1) by (auto simp: segments_ok_def)
qed

section \<open>Serialisation\<close>

text \<open>State of the scan between two steps: \<open>first\<close> starts a free run that is still open at
  \<open>bound\<close>, and everything below \<open>first\<close> has been accounted for.\<close>

definition scan_ok :: "nat set \<Rightarrow> nat \<Rightarrow> nat \<Rightarrow> bool" where
  "scan_ok T bound first \<longleftrightarrow>
     (first = 0 \<or> first - 1 \<in> T) \<and> (\<forall>x. first \<le> x \<longrightarrow> x < bound \<longrightarrow> x \<notin> T)"

definition extends_runs :: "nat set \<Rightarrow> nat \<Rightarrow> nat \<Rightarrow> block list \<Rightarrow> bool" where
  "extends_runs T a b bs \<longleftrightarrow> (\<forall>cs. runs_of ({..<a} - T) cs \<longrightarrow> runs_of ({..<b} - T) (cs @ bs))"

lemma extends_runs_refl [simp]: "extends_runs T a a []"
  by (simp add: extends_runs_def)

lemma extends_runs_trans:
  "extends_runs T a b xs \<Longrightarrow> extends_runs T b c ys \<Longrightarrow> extends_runs T a c (xs @ ys)"
  by (auto simp: extends_runs_def)

lemma extends_runs_step:
  assumes "scan_ok T l f" and "f \<le> l" and "l \<le> z" and "\<And>x. l \<le> x \<Longrightarrow> x < z \<Longrightarrow> x \<in> T"
  shows "extends_runs T f z (if f < l then [\<lparr>b_first = f, b_last = l\<rparr>] else [])"
proof -
  have "{..<z} - T = ({..<f} - T) \<union> {f..<l}"
    using assms by (auto simp: scan_ok_def)
  moreover have "Suc x < f" if "x \<in> {..<f} - T" for x
    using that assms(1) by (cases "Suc x = f") (auto simp: scan_ok_def)
  ultimately show ?thesis
    using runs_of_snoc [of "{..<f} - T" _ f l] assms(2)
    by (auto simp: extends_runs_def)
qed

text \<open>\<open>seg\<close> holds the bits of word \<open>i\<close> at and above \<open>first\<close>.\<close>

definition seg_ok :: "nat set \<Rightarrow> nat \<Rightarrow> nat \<Rightarrow> 64 word \<Rightarrow> bool" where
  "seg_ok T i first seg \<longleftrightarrow> (\<forall>k < 64. bit seg k \<longleftrightarrow> i + k \<in> T \<and> first \<le> i + k)"

lemma seg_ok_zero: "seg_ok T i f 0 \<Longrightarrow> scan_ok T i f \<Longrightarrow> scan_ok T (i + 64) f"
proof -
  assume a: "seg_ok T i f 0" "scan_ok T i f"
  have "x \<notin> T" if "f \<le> x" "x < i + 64" for x
  proof (cases "x < i")
    case True
    with a(2) that show ?thesis by (simp add: scan_ok_def)
  next
    case False
    with that a(1) have "x - i < 64" "i + (x - i) = x" by auto
    with a(1) that(1) show ?thesis by (fastforce simp: seg_ok_def)
  qed
  with a(2) show ?thesis by (simp add: scan_ok_def)
qed

text \<open>One round of the inner loop, from a non-zero segment whose next gap exists.\<close>

lemma word_round:
  assumes "seg \<noteq> 0" and "NOT (seg OR NOT (push_bit (LastBitNotZero seg) (NOT 0))) \<noteq> (0 :: 64 word)"
    and seg: "seg_ok T i f seg" and scan: "scan_ok T i f" and "f \<le> i + 63"
  defines "l \<equiv> i + LastBitNotZero seg"
    and "z \<equiv> LastBitNotZero (NOT (seg OR NOT (push_bit (LastBitNotZero seg) (NOT 0))))"
  shows "extends_runs T f (i + z) (if f < l then [\<lparr>b_first = f, b_last = l\<rparr>] else [])"
    and "scan_ok T i (i + z)" and "seg_ok T i (i + z) (seg AND push_bit z (NOT 0))" and "f \<le> l"
proof -
  note g = LastBitNotZero_gap [OF assms(1,2), folded z_def]
  note b = LastBitNotZero_bit [OF assms(1)]
  have lT: "l \<in> T" "f \<le> l"
    using seg b by (auto simp: seg_ok_def l_def)
  then show "f \<le> l" by simp
  have "x \<notin> T" if "f \<le> x" "x < l" for x
  proof (cases "x < i")
    case True
    with scan that show ?thesis by (simp add: scan_ok_def)
  next
    case False
    with that b(1) have "x - i < LastBitNotZero seg" "x - i < 64" by (auto simp: l_def)
    from LastBitNotZero_low [OF this(1)] this(2) False that(1) seg show ?thesis
      by (auto simp: seg_ok_def)
  qed
  with scan have scan_l: "scan_ok T l f" by (simp add: scan_ok_def)
  have ones: "x \<in> T" if "l \<le> x" "x < i + z" for x
  proof -
    from that have k: "LastBitNotZero seg \<le> x - i" "x - i < z" "i + (x - i) = x"
      by (auto simp: l_def)
    from g(4) [OF k(1,2)] seg g(1) k show ?thesis by (auto simp: seg_ok_def)
  qed
  show "extends_runs T f (i + z) (if f < l then [\<lparr>b_first = f, b_last = l\<rparr>] else [])"
    using extends_runs_step [OF scan_l lT(2) _ ones] g(2) by (simp add: l_def)
  have "i + z - 1 \<in> T" using ones [of "i + z - 1"] g(2) by (simp add: l_def)
  then show "scan_ok T i (i + z)" by (simp add: scan_ok_def)
  show "seg_ok T i (i + z) (seg AND push_bit z (NOT 0))"
    using seg lT(2) g(2) unfolding seg_ok_def bit_and_iff bit_ones_above by (auto simp: l_def)
qed

lemma ser_word_unfold:
  assumes "seg \<noteq> 0" and "f \<le> i + 63" and "i + 64 < 2 ^ 32"
  defines "l \<equiv> i + LastBitNotZero seg"
    and "gaps \<equiv> NOT (seg OR NOT (push_bit (LastBitNotZero seg) (NOT 0)))"
  shows "ser_word i seg f strm =
    rbind (write_all fixed_Write (map block_bytes (if f < l then [\<lparr>b_first = f, b_last = l\<rparr>] else [])) strm)
      (\<lambda>strm1. if gaps = 0 then Inl (Undefined_Behaviour ''__builtin_ctzl(0)'')
               else ser_word i (seg AND push_bit (LastBitNotZero gaps) (NOT 0)) (i + LastBitNotZero gaps) strm1)"
proof -
  have l: "l < 4294967296" using assms(3) LastBitNotZero_bit(1) [OF assms(1)] by (simp add: l_def)
  have z: "gaps \<noteq> 0 \<Longrightarrow> LastBitNotZero gaps < 64" by (rule LastBitNotZero_bit(1))
  have k: "gaps \<noteq> 0 \<Longrightarrow> i + LastBitNotZero gaps < 4294967296" using z assms(3) by simp
  have sub: "gaps \<noteq> 0 \<Longrightarrow> usub32 (i + LastBitNotZero gaps) i = LastBitNotZero gaps"
    using k by (simp add: cast_simps)
  show ?thesis
    using assms(1-3) l z k sub
    unfolding ser_word.simps [of i seg f strm] Let_def l_def [symmetric] gaps_def [symmetric]
    by (auto simp: type_size_def cast_simps mk_block_def rbind_def l_def [symmetric] split: sum.split)
qed

lemma ser_word_ok:
  assumes "seg_ok T i f seg" and "scan_ok T i f" and "f \<le> i + 63" and "i + 64 < 2 ^ 32"
    and "i + 63 \<notin> T"
  shows "\<exists>bs f'. (\<forall>strm. ser_word i seg f strm =
        rbind (write_all fixed_Write (map block_bytes bs) strm) (\<lambda>s. Inr (f', s)))
    \<and> f' \<le> i + 63 \<and> scan_ok T (i + 64) f' \<and> extends_runs T f f' bs"
  using assms(1-3)
proof (induction "64 - LastBitNotZero seg" arbitrary: seg f rule: less_induct)
  case less
  show ?case
  proof (cases "seg = 0")
    case True
    with less.prems assms(4) show ?thesis
      by (intro exI [of _ "[]"] exI [of _ f]) (simp add: ser_word.simps seg_ok_zero)
  next
    case False
    let ?gaps = "NOT (seg OR NOT (push_bit (LastBitNotZero seg) (NOT 0))) :: 64 word"
    let ?l = "i + LastBitNotZero seg" and ?z = "LastBitNotZero ?gaps"
    let ?b = "if f < ?l then [\<lparr>b_first = f, b_last = ?l\<rparr>] else []"
    have "\<not> bit seg 63" using less.prems(1) assms(5) by (simp add: seg_ok_def)
    moreover have "LastBitNotZero seg \<le> 63" using LastBitNotZero_bit(1) [OF False] by simp
    ultimately have "bit ?gaps 63" unfolding bit_gap_word by simp
    then have gaps: "?gaps \<noteq> 0" by (rule bit_nonzero)
    note round = word_round [OF False gaps less.prems]
    note gap = LastBitNotZero_gap [OF False gaps]
    have dec: "64 - LastBitNotZero (seg AND push_bit ?z (NOT 0)) < 64 - LastBitNotZero seg"
      using LastBitNotZero_masked [OF False gap(2)] LastBitNotZero_bit(1) [OF False] by linarith
    have "i + ?z \<le> i + 63" using gap(1) by simp
    from less.hyps [OF dec round(3,2) this] obtain bs f' where ih:
      "\<forall>strm. ser_word i (seg AND push_bit ?z (NOT 0)) (i + ?z) strm =
        rbind (write_all fixed_Write (map block_bytes bs) strm) (\<lambda>s. Inr (f', s))"
      "f' \<le> i + 63" "scan_ok T (i + 64) f'" "extends_runs T (i + ?z) f' bs" by blast
    have "ser_word i seg f strm = rbind (write_all fixed_Write (map block_bytes (?b @ bs)) strm) (\<lambda>s. Inr (f', s))"
      for strm
      unfolding ser_word_unfold [OF False less.prems(3) assms(4)] if_not_P [OF gaps] ih(1) [rule_format]
      by (simp add: rbind_def split: sum.split)
    with ih extends_runs_trans [OF round(1) ih(4)] show ?thesis by blast
  qed
qed

lemma ser_word_undefined:
  assumes "seg_ok T i f seg" and "f \<le> i + 63" and "i + 64 < 2 ^ 32" and "i + 63 \<in> T"
  shows "\<not> is_ok (ser_word i seg f strm)"
  using assms(1,2)
proof (induction "64 - LastBitNotZero seg" arbitrary: seg f strm rule: less_induct)
  case less
  have top: "bit seg 63" using less.prems assms(4) by (simp add: seg_ok_def)
  then have "seg \<noteq> 0" by (rule bit_nonzero)
  let ?gaps = "NOT (seg OR NOT (push_bit (LastBitNotZero seg) (NOT 0))) :: 64 word"
  let ?z = "LastBitNotZero ?gaps"
  show ?case
  proof (cases "?gaps = 0")
    case True
    then show ?thesis
      unfolding ser_word_unfold [OF \<open>seg \<noteq> 0\<close> less.prems(2) assms(3)]
      by (simp add: is_ok_iff rbind_eq_Inr_conv)
  next
    case False
    note gap = LastBitNotZero_gap [OF \<open>seg \<noteq> 0\<close> False]
    have "f \<le> i + LastBitNotZero seg"
      using less.prems(1) LastBitNotZero_bit [OF \<open>seg \<noteq> 0\<close>] by (simp add: seg_ok_def)
    with less.prems(1) gap(2) have "seg_ok T i (i + ?z) (seg AND push_bit ?z (NOT 0))"
      unfolding seg_ok_def bit_and_iff bit_ones_above by auto
    moreover have "64 - LastBitNotZero (seg AND push_bit ?z (NOT 0)) < 64 - LastBitNotZero seg"
      using LastBitNotZero_masked [OF \<open>seg \<noteq> 0\<close> gap(2)] LastBitNotZero_bit(1) [OF \<open>seg \<noteq> 0\<close>] by linarith
    ultimately have "\<not> is_ok (ser_word i (seg AND push_bit ?z (NOT 0)) (i + ?z) strm1)" for strm1
      using less.hyps gap(1) by simp
    then show ?thesis
      unfolding ser_word_unfold [OF \<open>seg \<noteq> 0\<close> less.prems(2) assms(3)] if_not_P [OF False]
      by (simp add: is_ok_iff rbind_eq_Inr_conv)
  qed
qed

text \<open>The word the outer loop reads at \<open>i\<close> holds the taken numbers from \<open>i\<close> on.\<close>

lemma underlay_seg:
  assumes "bb_invar m" and "i = 64 * j" and "i < bb_size m" and "f \<le> i"
  shows "\<exists>seg. UnderlayValue (bb_bitmap m) (i div type_size) = Inr seg \<and> seg_ok (bb_taken m) i f seg"
proof -
  have j: "j < length (bm_vec (bb_bitmap m))"
    using bb_range [OF assms(1,3)] assms(2) by simp
  have "bm_bit (bb_bitmap m) (i + k) \<longleftrightarrow> i + k \<in> bb_taken m" if "k < 64" for k
    using assms(1) j that by (auto simp: bb_taken_def bb_invar_def assms(2))
  then have "seg_ok (bb_taken m) i f (bm_vec (bb_bitmap m) ! j)"
    using assms(4) by (auto simp: seg_ok_def bm_bit_def assms(2))
  with j show ?thesis by (simp add: UnderlayValue_def type_size_def assms(2))
qed

declare ser_loop.simps [simp del]

lemma ser_loop_ok:
  assumes "bb_invar m" and "bb_size m + 64 < 2 ^ 32" and "\<forall>p \<in> bb_taken m. p mod 64 \<noteq> 63"
    and "length (bm_vec (bb_bitmap m)) \<le> fuel + j" and "scan_ok (bb_taken m) (64 * j) f" and "f \<le> 64 * j"
  shows "\<exists>bs f'. ser_loop fuel m (64 * j) f strm =
        rbind (write_all fixed_Write (map block_bytes bs) strm) (\<lambda>s. Inr (f', s))
    \<and> scan_ok (bb_taken m) (bb_size m) f' \<and> extends_runs (bb_taken m) f f' bs"
  using assms(4-6)
proof (induction fuel arbitrary: j f strm)
  case 0
  have "length (bm_vec (bb_bitmap m)) = (bb_size m + 63) div 64"
    using assms(1) by (simp add: bb_invar_def)
  with 0 have "\<not> 64 * j < bb_size m" by simp
  with 0 show ?case
    by (intro exI [of _ "[]"] exI [of _ f]) (auto simp: ser_loop.simps scan_ok_def)
next
  case (Suc fuel)
  show ?case
  proof (cases "64 * j < bb_size m")
    case False
    with Suc.prems show ?thesis
      by (intro exI [of _ "[]"] exI [of _ f]) (auto simp: ser_loop.simps scan_ok_def)
  next
    case True
    from underlay_seg [OF assms(1) refl True Suc.prems(3)] obtain seg where
      seg: "UnderlayValue (bb_bitmap m) (64 * j div type_size) = Inr seg" "seg_ok (bb_taken m) (64 * j) f seg"
      by blast
    have top: "64 * j + 63 \<notin> bb_taken m" using assms(3) by fastforce
    have small: "64 * j + 64 < 2 ^ 32" using True assms(2) by simp
    from ser_word_ok [OF seg(2) Suc.prems(2) _ small top] Suc.prems(3) obtain bs1 f1 where w:
      "\<forall>strm. ser_word (64 * j) seg f strm =
        rbind (write_all fixed_Write (map block_bytes bs1) strm) (\<lambda>s. Inr (f1, s))"
      "f1 \<le> 64 * j + 63" "scan_ok (bb_taken m) (64 * j + 64) f1" "extends_runs (bb_taken m) f f1 bs1"
      by auto
    have nxt: "u32 (64 * j + type_size) = 64 * Suc j" using small by (simp add: type_size_def cast_simps)
    have "scan_ok (bb_taken m) (64 * Suc j) f1" "f1 \<le> 64 * Suc j"
      "length (bm_vec (bb_bitmap m)) \<le> fuel + Suc j"
      using w(2,3) Suc.prems(1) by (simp_all add: add.commute)
    note IH = Suc.IH [OF this(3,1,2)]
    show ?thesis
    proof (cases "write_all fixed_Write (map block_bytes bs1) strm")
      case (Inl e)
      obtain bs2 f2 where "scan_ok (bb_taken m) (bb_size m) f2" "extends_runs (bb_taken m) f1 f2 bs2"
        using IH by blast
      with Inl True seg(1) w(1,4) show ?thesis
        by (intro exI [of _ "bs1 @ bs2"] exI [of _ f2])
          (auto simp: ser_loop.simps [of "Suc fuel"] write_all_append intro: extends_runs_trans)
    next
      case (Inr s1)
      obtain bs2 f2 where "ser_loop fuel m (64 * Suc j) f1 s1 =
          rbind (write_all fixed_Write (map block_bytes bs2) s1) (\<lambda>s. Inr (f2, s))"
        "scan_ok (bb_taken m) (bb_size m) f2" "extends_runs (bb_taken m) f1 f2 bs2"
        using IH [of s1] by blast
      with Inr True seg(1) w(1,4) nxt show ?thesis
        by (intro exI [of _ "bs1 @ bs2"] exI [of _ f2])
          (auto simp: ser_loop.simps [of "Suc fuel"] write_all_append intro: extends_runs_trans)
    qed
  qed
qed

lemma ser_loop_undefined:
  assumes "bb_invar m" and "bb_size m + 64 < 2 ^ 32" and "p \<in> bb_taken m" and "p mod 64 = 63"
    and "64 * j \<le> p" and "scan_ok (bb_taken m) (64 * j) f" and "f \<le> 64 * j"
  shows "\<not> is_ok (ser_loop fuel m (64 * j) f strm)"
  using assms(5-7)
proof (induction fuel arbitrary: j f strm)
  case 0
  with assms(3) show ?case by (auto simp: ser_loop.simps [of 0] bb_taken_def)
next
  case (Suc fuel)
  have lt: "64 * j < bb_size m" using Suc.prems(1) assms(3) by (auto simp: bb_taken_def)
  from underlay_seg [OF assms(1) refl lt Suc.prems(3)] obtain seg where
    seg: "UnderlayValue (bb_bitmap m) (64 * j div type_size) = Inr seg" "seg_ok (bb_taken m) (64 * j) f seg"
    by blast
  have small: "64 * j + 64 < 2 ^ 32" using lt assms(2) by simp
  show ?case
  proof (cases "64 * j + 63 \<in> bb_taken m")
    case True
    from ser_word_undefined [OF seg(2) _ small True] Suc.prems(3)
    have "\<not> is_ok (ser_word (64 * j) seg f strm)" by simp
    with lt seg(1) show ?thesis
      by (auto simp: ser_loop.simps [of "Suc fuel"] is_ok_iff rbind_eq_Inr_conv)
  next
    case False
    from ser_word_ok [OF seg(2) Suc.prems(2) _ small False] Suc.prems(3) obtain bs1 f1 where w:
      "\<forall>strm. ser_word (64 * j) seg f strm =
        rbind (write_all fixed_Write (map block_bytes bs1) strm) (\<lambda>s. Inr (f1, s))"
      "f1 \<le> 64 * j + 63" "scan_ok (bb_taken m) (64 * j + 64) f1" by auto
    have "p \<noteq> 64 * j + 63" using False assms(3) by blast
    moreover obtain q where "p = 64 * q + 63" using assms(4) by (metis mult_div_mod_eq)
    ultimately have "64 * Suc j \<le> p" using Suc.prems(1) by simp
    moreover have "scan_ok (bb_taken m) (64 * Suc j) f1" "f1 \<le> 64 * Suc j"
      using w(2,3) by (simp_all add: add.commute)
    ultimately have "\<not> is_ok (ser_loop fuel m (64 * Suc j) f1 s)" for s
      by (rule Suc.IH)
    moreover have "u32 (64 * j + type_size) = 64 * Suc j"
      using small by (simp add: type_size_def cast_simps)
    ultimately show ?thesis
      using lt seg(1) w(1)
      by (auto simp: ser_loop.simps [of "Suc fuel"] is_ok_iff rbind_eq_Inr_conv)
  qed
qed

lemma bb_Serialize_ok:
  assumes "bb_invar m" and "segments_ok m" and "bb_size m + 64 < 2 ^ 32"
    and "\<forall>p \<in> bb_taken m. p mod 64 \<noteq> 63" and "length buf = bb_ByteSize m"
  shows "\<exists>bs. bb_SerializeToBuffer m buf (bb_ByteSize m) = Inr (concat (map block_bytes bs))
    \<and> runs_of ({..<bb_size m} - bb_taken m) bs"
proof -
  let ?T = "bb_taken m" and ?strm = "MemoryFixedSizeStream buf (bb_ByteSize m)"
  have "scan_ok ?T (64 * 0) 0" by (simp add: scan_ok_def)
  from ser_loop_ok [OF assms(1,3,4) _ this] obtain bs0 f where loop:
    "ser_loop (length (bm_vec (bb_bitmap m))) m 0 0 ?strm =
       rbind (write_all fixed_Write (map block_bytes bs0) ?strm) (\<lambda>s. Inr (f, s))"
    "scan_ok ?T (bb_size m) f" "extends_runs ?T 0 f bs0" by fastforce
  have "f \<le> bb_size m" using loop(2) by (auto simp: scan_ok_def bb_taken_def)
  let ?tail = "if f < bb_size m then [\<lparr>b_first = f, b_last = bb_size m\<rparr>] else []"
  have "extends_runs ?T f (bb_size m) ?tail"
    using extends_runs_step [OF loop(2) \<open>f \<le> bb_size m\<close> order_refl] by simp
  from extends_runs_trans [OF loop(3) this] have runs: "runs_of ({..<bb_size m} - ?T) (bs0 @ ?tail)"
    unfolding extends_runs_def by (metis Diff_empty append_Nil empty_Diff lessThan_0 runs_of_empty)
  from assms(2) obtain bs1 where "runs_of ({..<bb_size m} - ?T) bs1" "bb_segments m = length bs1"
    by (auto simp: segments_ok_def)
  with runs_of_unique [OF runs] have segs: "bb_segments m = length (bs0 @ ?tail)" by simp
  have "2 * length (bs0 @ ?tail) \<le> bb_size m + 1" by (rule runs_of_half [OF runs]) auto
  with assms(3) segs have len: "bb_ByteSize m = length (concat (map block_bytes (bs0 @ ?tail)))"
    and small: "bb_ByteSize m < 2 ^ 64"
    by (simp_all add: bb_ByteSize_def sizeof_Block_def cast_simps)
  have s: "fixed_invar ?strm" "fixed_room ?strm (length (concat (map block_bytes (bs0 @ ?tail))))"
    "fixed_Tell ?strm = 0"
    using assms(5) small len
    by (simp_all add: fixed_invar_def fixed_room_def MemoryFixedSizeStream_def fixed_Tell_def)
  from fixed.write_all_ok [OF s(1,2)] s(3) obtain s' where s':
    "write_all fixed_Write (map block_bytes (bs0 @ ?tail)) ?strm = Inr s'"
    "fixed_Tell s' = bb_ByteSize m"
    "take (fixed_Tell s') (p_buffer s') = concat (map block_bytes (bs0 @ ?tail))"
    unfolding len by auto
  have tail: "(if f < bb_size m then fixed_Write strm (block_bytes (mk_block f (bb_size m))) else Inr strm)
      = write_all fixed_Write (map block_bytes ?tail) strm" for strm
    using assms(3) by (auto simp: mk_block_def cast_simps rbind_def split: sum.split)
  have "bb_SerializeToBuffer m buf (bb_ByteSize m)
      = rbind (write_all fixed_Write (map block_bytes (bs0 @ ?tail)) ?strm)
          (\<lambda>strm1. rbind (check (fixed_Tell strm1 = bb_ByteSize m) ''strm->Tell() == ByteSize()'')
             (\<lambda>_. Inr (take (fixed_Tell strm1) (p_buffer strm1))))"
    unfolding bb_SerializeToBuffer_def loop(1) rbind_assoc rbind_Inr prod.case tail
      map_append write_all_append ..
  then have "bb_SerializeToBuffer m buf (bb_ByteSize m) = Inr (concat (map block_bytes (bs0 @ ?tail)))"
    unfolding s'(1) using s'(2,3) by simp
  with runs show ?thesis by blast
qed

lemma bb_Serialize_undefined:
  assumes "bb_invar m" and "bb_size m + 64 < 2 ^ 32" and "p \<in> bb_taken m" and "p mod 64 = 63"
  shows "\<not> is_ok (bb_SerializeToBuffer m buf n)"
proof -
  have "scan_ok (bb_taken m) (64 * 0) 0" by (simp add: scan_ok_def)
  from ser_loop_undefined [OF assms _ this] show ?thesis
    by (auto simp: bb_SerializeToBuffer_def is_ok_iff rbind_eq_Inr_conv)
qed

section \<open>The bitmap implements the tracker interface\<close>

lemma bb_FreeLength_ok: "bb_invar m \<Longrightarrow> bb_FreeLength m = bb_size m - card (bb_taken m)"
proof -
  assume "bb_invar m"
  moreover have "card (bb_taken m) \<le> bb_size m"
    using card_mono [of "{..<bb_size m}" "bb_taken m"] by (auto simp: bb_taken_def)
  ultimately show ?thesis by (simp add: bb_FreeLength_def bb_invar_def cast_simps)
qed

interpretation bitmap: block_tracker bb_size bb_Resize bb_Check bb_Take bb_FreeLength
  bb_invar bb_taken
proof (unfold_locales, goal_cases)
  case (1 m)
  then show ?case by (auto simp: bb_taken_def)
next
  case (2 m n)
  then show ?case using bb_Resize_ok by blast
next
  case (3 n m)
  then show ?case by (simp add: bb_Resize_def res_simps)
next
  case (4 m seq)
  then show ?case by (rule bb_Check_ok)
next
  case (5 m seq)
  then show ?case using bb_Take_eq by blast
next
  case (6 m)
  then show ?case by (rule bb_FreeLength_ok)
qed

lemma BitmapBlockMgr_invar:
  assumes "n < 2 ^ 32"
  shows "bb_invar (BitmapBlockMgr n)" and "bb_size (BitmapBlockMgr n) = n"
    and "bb_taken (BitmapBlockMgr n) = {}" and "0 < n \<Longrightarrow> segments_ok (BitmapBlockMgr n)"
proof -
  have bits: "\<not> bm_bit (Bitmap n) p" if "p div 64 < (n + 63) div 64" for p
    using that assms by (simp add: Bitmap_def bm_bit_def RoundUp_64)
  show sz: "bb_size (BitmapBlockMgr n) = n"
    using assms by (simp add: BitmapBlockMgr_def cast_simps)
  have "p div 64 < (n + 63) div 64" if "p < n" for p using that by linarith
  then show tk: "bb_taken (BitmapBlockMgr n) = {}"
    using bits assms by (auto simp: bb_taken_def BitmapBlockMgr_def cast_simps)
  show "bb_invar (BitmapBlockMgr n)"
    using assms sz tk bits
    by (auto simp: bb_invar_def BitmapBlockMgr_def Bitmap_def RoundUp_64 less_mult_imp_div_less
        mult.commute)
  show "segments_ok (BitmapBlockMgr n)" if "0 < n"
    unfolding segments_ok_def sz tk
    using that by (intro exI [of _ "[\<lparr>b_first = 0, b_last = n\<rparr>]"])
      (auto simp: runs_of_def gapped_Cons BitmapBlockMgr_def)
qed

section \<open>Properties\<close>

abbreviation bb_admit_all :: "nat list \<Rightarrow> bitmap_mgr \<Rightarrow> bitmap_mgr res" where
  "bb_admit_all \<equiv> admit_all bb_size bb_Resize bb_Check bb_Take"

text \<open>Within the size of the manager, recording also keeps the count of segments.\<close>

lemma bb_admit_segments:
  assumes "bb_invar m" and "segments_ok m" and "seq < bb_size m"
  shows "\<exists>m'. admit bb_size bb_Resize bb_Check bb_Take m seq = Inr (seq \<notin> bb_taken m, m')
    \<and> bb_invar m' \<and> segments_ok m' \<and> bb_size m' = bb_size m \<and> bb_taken m' = insert seq (bb_taken m)"
proof (cases "seq \<in> bb_taken m")
  case True
  with assms bitmap.Check_ok [OF assms(1,3)] show ?thesis by (auto simp: admit_def)
next
  case False
  from bitmap.Take_ok [OF assms(1,3) False] obtain m' where m': "bb_Take m seq = Inr m'" "bb_invar m'"
    "bb_size m' = bb_size m" "bb_taken m' = insert seq (bb_taken m)" by blast
  from segments_Take [OF assms(1,3) False assms(2) m'(1)] m' False bitmap.Check_ok [OF assms(1,3)] assms(3)
  show ?thesis by (simp add: admit_def)
qed

lemma bb_admit_all_segments:
  assumes "bb_invar m" and "segments_ok m" and "\<forall>s \<in> set seqs. s < bb_size m"
  shows "\<exists>m'. bb_admit_all seqs m = Inr m' \<and> bb_invar m' \<and> segments_ok m'
    \<and> bb_size m' = bb_size m \<and> bb_taken m' = bb_taken m \<union> set seqs"
  using assms
proof (induction seqs arbitrary: m)
  case (Cons s seqs)
  then obtain m1 where "admit bb_size bb_Resize bb_Check bb_Take m s = Inr (s \<notin> bb_taken m, m1)"
    "bb_invar m1" "segments_ok m1" "bb_size m1 = bb_size m" "bb_taken m1 = insert s (bb_taken m)"
    using bb_admit_segments [of m s] by auto
  with Cons.IH [of m1] Cons.prems show ?case by (auto simp: admit_all_def)
qed (simp add: admit_all_def)

text \<open>C22: On messages of known size the two block managers agree: after the same packets have
  been recorded, \<open>BitmapBlockMgr::SerializeToBuffer\<close> returns normally exactly when no recorded
  number is the last one of its 64-bit word (otherwise it evaluates \<open>__builtin_ctzl(0)\<close>), and
  then it yields byte for byte the request of \<open>TreeBlockMgr\<close>.\<close>

theorem bitmap_tree_agree:
  assumes "0 < n" and "n + 64 < 2 ^ 32" and "\<forall>s \<in> set seqs. s < n"
  shows "\<exists>b t. bb_admit_all seqs (BitmapBlockMgr n) = Inr b \<and> tree_admit_all seqs (TreeBlockMgr n) = Inr t
    \<and> bb_FreeLength b = tree_FreeLength t
    \<and> (is_ok (bb_SerializeToBuffer b (replicate (bb_ByteSize b) 0) (bb_ByteSize b))
        \<longleftrightarrow> (\<forall>s \<in> set seqs. s mod 64 \<noteq> 63))
    \<and> ((\<forall>s \<in> set seqs. s mod 64 \<noteq> 63) \<longrightarrow>
         bb_SerializeToBuffer b (replicate (bb_ByteSize b) 0) (bb_ByteSize b)
           = tree_SerializeToBuffer t (replicate (tree_ByteSize t) 0) (tree_ByteSize t))"
proof -
  have n: "n < 2 ^ 32" using assms(2) by simp
  note bi = BitmapBlockMgr_invar [OF n] and ti = TreeBlockMgr_invar [OF n]
  from bb_admit_all_segments [OF bi(1) bi(4) [OF assms(1)], of seqs] assms(3) bi obtain b where b:
    "bb_admit_all seqs (BitmapBlockMgr n) = Inr b" "bb_invar b" "segments_ok b" "bb_size b = n"
    "bb_taken b = set seqs" by auto
  have "\<forall>s \<in> set seqs. s < 2 ^ 32 - 1" using assms(2,3) by fastforce
  from tree.admit_all_ok [OF _ this, of "TreeBlockMgr n"] ti fold_max_below [OF assms(3)]
  obtain t where t: "tree_admit_all seqs (TreeBlockMgr n) = Inr t" "tree_invar t" "tm_size t = n"
    "tree_taken t = set seqs" by auto
  have ser_t: "tree_SerializeToBuffer t (replicate (tree_ByteSize t) 0) (tree_ByteSize t)
      = Inr (concat (map block_bytes (tm_tree t)))" "runs_of ({..<n} - set seqs) (tm_tree t)"
    using tree_Serialize_ok [OF t(2), of "replicate (tree_ByteSize t) 0"] t(3,4) assms(1) by auto
  have eq: "bb_SerializeToBuffer b (replicate (bb_ByteSize b) 0) (bb_ByteSize b)
      = tree_SerializeToBuffer t (replicate (tree_ByteSize t) 0) (tree_ByteSize t)"
    if "\<forall>s \<in> set seqs. s mod 64 \<noteq> 63"
  proof -
    from bb_Serialize_ok [OF b(2,3), of "replicate (bb_ByteSize b) 0"] that b(4,5) assms(2)
    obtain bs where "bb_SerializeToBuffer b (replicate (bb_ByteSize b) 0) (bb_ByteSize b)
        = Inr (concat (map block_bytes bs))" "runs_of ({..<n} - set seqs) bs" by auto
    with ser_t runs_of_unique show ?thesis by metis
  qed
  moreover have "\<forall>s \<in> set seqs. s mod 64 \<noteq> 63"
    if "is_ok (bb_SerializeToBuffer b (replicate (bb_ByteSize b) 0) (bb_ByteSize b))"
    using bb_Serialize_undefined [OF b(2)] that b(4,5) assms(2) by blast
  moreover have "bb_FreeLength b = tree_FreeLength t"
    using bb_FreeLength_ok [OF b(2)] tree.FreeLength_ok [OF t(2)] b(4,5) t(3,4) by simp
  ultimately show ?thesis
    using b(1) t(1) ser_t(1) by (intro exI [of _ b] exI [of _ t]) auto
qed

theorem bitmap_tree_agree_witness:
  "\<exists>b t. bb_admit_all [1, 63] (BitmapBlockMgr 70) = Inr b \<and> tree_admit_all [1, 63] (TreeBlockMgr 70) = Inr t
    \<and> bb_FreeLength b = tree_FreeLength t
    \<and> \<not> is_ok (bb_SerializeToBuffer b (replicate (bb_ByteSize b) 0) (bb_ByteSize b))"
  using bitmap_tree_agree [of 70 "[1, 63]"] by auto

text \<open>\<open>BitmapBlockMgr::Resize\<close> loses a free run: when the last number of the old range has been
  taken, the range it appends is a new run, but \<open>segments_\<close> is not incremented, because the test
  reads the last bit of the new range. \<open>ByteSize()\<close> is then one block too small.\<close>

lemma bb_Resize_drops_segment:
  assumes "bb_invar m" and "segments_ok m" and "bb_size m - 1 \<in> bb_taken m" and "bb_size m < n"
    and "n < 2 ^ 32"
  shows "\<exists>m' bs. bb_Resize m n = Inr m' \<and> runs_of ({..<bb_size m'} - bb_taken m') bs
    \<and> length bs = bb_segments m' + 1 \<and> bb_ByteSize m' + sizeof_Block = length bs * sizeof_Block"
proof -
  from bb_Resize_ok [OF assms(1,4,5)] obtain m' where m': "bb_Resize m n = Inr m'" "bb_size m' = n"
    "bb_taken m' = bb_taken m" "bb_segments m' = bb_segments m" by blast
  from assms(2) obtain bs where bs: "runs_of ({..<bb_size m} - bb_taken m) bs" "bb_segments m = length bs"
    by (auto simp: segments_ok_def)
  have gap: "Suc x < bb_size m" if "x \<in> {..<bb_size m} - bb_taken m" for x
    using that assms(3) by (metis DiffE One_nat_def diff_Suc_1 lessThan_iff Suc_lessI)
  have "{..<n} - bb_taken m = ({..<bb_size m} - bb_taken m) \<union> {bb_size m..<n}"
    using assms(4) by (auto simp: bb_taken_def)
  with runs_of_snoc [OF bs(1) gap assms(4)]
  have "runs_of ({..<n} - bb_taken m) (bs @ [\<lparr>b_first = bb_size m, b_last = n\<rparr>])" by simp
  moreover have "bb_ByteSize m' = length bs * sizeof_Block"
    using runs_of_half [OF bs(1), of "bb_size m"] assms(1) m'(4) bs(2)
    by (auto simp: bb_ByteSize_def sizeof_Block_def bb_invar_def cast_simps)
  ultimately show ?thesis
    using m' bs(2) by (intro exI [of _ m'] exI [of _ "bs @ [\<lparr>b_first = bb_size m, b_last = n\<rparr>]"]) simp
qed

lemma bb_Take_one:
  obtains m where "bb_Take (BitmapBlockMgr 1) 0 = Inr m" "bb_invar m" "segments_ok m" "bb_size m = 1"
    "bb_taken m = {0}"
proof -
  have one: "(1 :: nat) < 2 ^ 32" by simp
  note bi = BitmapBlockMgr_invar [OF one]
  from bb_Take_eq [OF bi(1), of 0] bi obtain m where m: "bb_Take (BitmapBlockMgr 1) 0 = Inr m"
    "bb_invar m" "bb_size m = 1" "bb_taken m = {0}" by auto
  with segments_Take [OF bi(1) _ _ bi(4) m(1)] bi(2,3) that show ?thesis by simp
qed

lemma bb_Resize_drops_segment_example:
  "\<exists>m m' bs. bb_Take (BitmapBlockMgr 1) 0 = Inr m \<and> bb_Resize m 5 = Inr m'
    \<and> runs_of ({..<bb_size m'} - bb_taken m') bs \<and> length bs = bb_segments m' + 1"
proof -
  obtain m where "bb_Take (BitmapBlockMgr 1) 0 = Inr m" "bb_invar m" "segments_ok m" "bb_size m = 1"
    "bb_taken m = {0}" by (rule bb_Take_one)
  with bb_Resize_drops_segment [of m 5] show ?thesis by auto
qed

end
