(* ===== verification/Queues.thy ===== *)
theory Queues
  imports Prelude
begin

text \<open>
  The queues between threads: \<open>SpscQueue\<close> (\<open>src/src/mlt/spsc_queue.h\<close>), \<open>ThreadsafeQueue\<close>
  (\<open>src/src/mlt/threadsafe_queue.h\<close>) and \<open>CompletionQueue\<close> (\<open>src/src/mlt/completion.h\<close>).

  The locale \<open>bounded_fifo\<close> is what their clients rely on: a bounded or unbounded queue that hands
  out elements in the order they were put in; \<open>drain_ok\<close> is the polling loop
  \<open>while (q.TryPop(&x)) ...\<close> of the channels. The queues protected by a mutex are lists. \<open>SpscQueue\<close> is
  Lamport's ring buffer with 64-bit counters that wrap around; besides the sequential operations
  the theory has a step relation in which every atomic load and store of the producer and of the
  consumer is a step of its own, interleaved arbitrarily (under sequential consistency), and
  shows that the queue neither loses, duplicates nor reorders elements.
\<close>

unbundle bit_operations_syntax

section \<open>The queue interface\<close>

text \<open>\<open>while (q.TryPop(&x)) f(x)\<close>, with as much fuel as the queue has elements.\<close>

fun drain :: "('q \<Rightarrow> ('a \<times> 'q) option) \<Rightarrow> nat \<Rightarrow> 'q \<Rightarrow> 'a list \<times> 'q" where
  "drain deq 0 q = ([], q)"
| "drain deq (Suc n) q =
     (case deq q of
        None \<Rightarrow> ([], q)
      | Some (x, q') \<Rightarrow> let (xs, q'') = drain deq n q' in (x # xs, q''))"

locale bounded_fifo =
  fixes enq :: "'q \<Rightarrow> 'a \<Rightarrow> 'q option"
    and deq :: "'q \<Rightarrow> ('a \<times> 'q) option"
    and contents :: "'q \<Rightarrow> 'a list"
    and room :: "'q \<Rightarrow> bool"
    and invar :: "'q \<Rightarrow> bool"
  assumes enq_room: "invar q \<Longrightarrow> room q \<Longrightarrow>
      \<exists>q'. enq q x = Some q' \<and> invar q' \<and> contents q' = contents q @ [x]"
    and enq_full: "invar q \<Longrightarrow> \<not> room q \<Longrightarrow> enq q x = None"
    and deq_empty: "invar q \<Longrightarrow> contents q = [] \<Longrightarrow> deq q = None"
    and deq_Cons: "invar q \<Longrightarrow> contents q = x # xs \<Longrightarrow>
      \<exists>q'. deq q = Some (x, q') \<and> invar q' \<and> contents q' = xs"
begin

text \<open>A polling loop empties the queue and sees the elements in order.\<close>

lemma drain_ok:
  assumes "invar q" and "length (contents q) \<le> n"
  shows "\<exists>q'. drain deq n q = (contents q, q') \<and> invar q' \<and> contents q' = []"
  using assms
proof (induction n arbitrary: q)
  case (Suc n)
  show ?case
  proof (cases "contents q")
    case Nil
    with Suc.prems show ?thesis by (simp add: deq_empty)
  next
    case (Cons x xs)
    from deq_Cons [OF Suc.prems(1) Cons] obtain q1 where q1: "deq q = Some (x, q1)" "invar q1" "contents q1 = xs"
      by blast
    with Suc.IH [of q1] Suc.prems(2) Cons show ?thesis by auto
  qed
qed auto

lemma deq_after_enq:
  assumes "invar q" and "room q" and "contents q = []"
  shows "\<exists>q' q''. enq q x = Some q' \<and> deq q' = Some (x, q'') \<and> contents q'' = []"
proof -
  from enq_room [OF assms(1,2), of x] obtain q' where q': "enq q x = Some q'" "invar q'" "contents q' = [x]"
    using assms(3) by auto
  from deq_Cons [OF q'(2,3)] q'(1) show ?thesis by auto
qed

end

section \<open>Queues under a mutex\<close>

definition tsq_Push :: "'a list \<Rightarrow> 'a \<Rightarrow> 'a list" where
  "tsq_Push q v = q @ [v]"

definition tsq_TryPop :: "'a list \<Rightarrow> ('a \<times> 'a list) option" where
  "tsq_TryPop q = (case q of [] \<Rightarrow> None | x # xs \<Rightarrow> Some (x, xs))"

text \<open>\<open>WaitAndPop\<close> blocks (no result) while the queue is empty.\<close>

definition tsq_WaitAndPop :: "'a list \<Rightarrow> ('a \<times> 'a list) option" where
  "tsq_WaitAndPop q = (case q of [] \<Rightarrow> None | x # xs \<Rightarrow> Some (x, xs))"

interpretation tsq: bounded_fifo "\<lambda>q x. Some (tsq_Push q x)" tsq_TryPop "\<lambda>q. q" "\<lambda>_. True" "\<lambda>_. True"
  by unfold_locales (auto simp: tsq_Push_def tsq_TryPop_def)

datatype completion_type = kSend | kRecv

text \<open>\<open>bytes_received\<close> and \<open>bytes_sent\<close> are a union.\<close>

record completion =
  cp_msg_id :: int
  cp_type :: completion_type
  cp_remote_comm_id :: int
  cp_bytes :: nat

definition cq_Push :: "completion list \<Rightarrow> completion \<Rightarrow> completion list" where
  "cq_Push q c = q @ [c]"

text \<open>The completions written to the caller's array, their number, and the queue left.\<close>

definition PollOnce :: "int \<Rightarrow> completion list \<Rightarrow> completion list \<times> int \<times> completion list" where
  "PollOnce max_comps q =
     (let (comps, q') = drain tsq_TryPop (nat max_comps) q in (comps, int (length comps), q'))"

lemma drain_tsq: "drain tsq_TryPop n q = (take n q, drop n q)"
proof (induction n arbitrary: q)
  case (Suc n)
  then show ?case by (cases q) (simp_all add: tsq_TryPop_def)
qed simp

section \<open>SpscQueue: capacity\<close>

definition Lowbit :: "int \<Rightarrow> int" where
  "Lowbit x = x AND - x"

text \<open>\<open>while (x != Lowbit(x)) x += Lowbit(x)\<close> on \<open>long\<close>; each round clears the lowest set bit, so
  64 rounds are enough.\<close>

fun round_up_loop :: "nat \<Rightarrow> int \<Rightarrow> int res" where
  "round_up_loop fuel x =
     (if x = Lowbit x then Inr x
      else case fuel of
             0 \<Rightarrow> Inl Out_Of_Fuel
           | Suc fuel' \<Rightarrow>
               if x + Lowbit x < 2 ^ 63 then round_up_loop fuel' (x + Lowbit x)
               else Inl (Undefined_Behaviour ''signed overflow''))"

declare round_up_loop.simps [simp del]

definition RoundUpPower2 :: "int \<Rightarrow> int res" where
  "RoundUpPower2 x = round_up_loop 64 x"

lemma Lowbit_double: "Lowbit (2 * x) = 2 * Lowbit x"
proof -
  have "(- (2 * x)) div 2 = - x" using nonzero_mult_div_cancel_left [of 2 "- x"] by simp
  then show ?thesis unfolding Lowbit_def by (subst and_rec) simp
qed

lemma Lowbit_odd: "odd x \<Longrightarrow> Lowbit x = 1"
proof -
  assume "odd x"
  then obtain m where m: "x = 2 * m + 1" by (elim oddE)
  have "(- x) div 2 = NOT m" by (simp add: m not_int_def)
  moreover have "x div 2 = m" "odd (- x)" by (simp_all add: m)
  ultimately show "Lowbit x = 1"
    using \<open>odd x\<close> unfolding Lowbit_def by (subst and_rec) simp
qed

lemma Lowbit_exp: "odd m \<Longrightarrow> Lowbit (2 ^ k * m) = 2 ^ k"
  by (induction k) (simp_all add: Lowbit_odd Lowbit_double mult.assoc)

lemma odd_part:
  assumes "0 < (x :: int)"
  obtains k m where "x = 2 ^ k * m" and "odd m" and "0 < m"
proof -
  have "\<exists>k m. x = 2 ^ k * m \<and> odd m \<and> 0 < m"
    using assms
  proof (induction "nat x" arbitrary: x rule: less_induct)
    case less
    show ?case
    proof (cases "even x")
      case True
      then obtain y where y: "x = 2 * y" by (elim evenE)
      with less.prems have "nat y < nat x" "0 < y" by auto
      from less.hyps [OF this] obtain k m where "y = 2 ^ k * m" "odd m" "0 < m" by blast
      with y show ?thesis by (intro exI [of _ "Suc k"] exI [of _ m]) simp
    next
      case False
      with less.prems show ?thesis by (intro exI [of _ 0] exI [of _ x]) simp
    qed
  qed
  with that show thesis by blast
qed

lemma round_up_loop_ok:
  assumes "0 < x" and "x \<le> 2 ^ n" and "n \<le> 62" and "2 ^ k dvd x" and "n \<le> k + fuel"
    and "\<And>j. x \<le> 2 ^ j \<Longrightarrow> n \<le> j"
  shows "round_up_loop fuel x = Inr (2 ^ n)"
  using assms
proof (induction fuel arbitrary: x k)
  case 0
  then have "2 ^ n dvd x" using power_le_dvd by (metis add_0_right)
  with 0 have "x = 2 ^ n" by (meson antisym zdvd_imp_le)
  moreover have "Lowbit (2 ^ n) = 2 ^ n" using Lowbit_exp [of 1 n] by simp
  ultimately show ?case by (simp add: round_up_loop.simps [of 0])
next
  case (Suc fuel)
  from Suc.prems(1) obtain i m where x: "x = 2 ^ i * m" "odd m" "0 < m" by (rule odd_part)
  have lb: "Lowbit x = 2 ^ i" using Lowbit_exp x by simp
  show ?case
  proof (cases "m = 1")
    case True
    with x Suc.prems(2) have "2 ^ i \<le> (2 :: int) ^ n" by simp
    then have "i = n" using Suc.prems(6) [of i] x(1) True by (simp add: antisym)
    with lb x(1) True show ?thesis by (simp add: round_up_loop.simps [of "Suc fuel"])
  next
    case False
    with x have m: "2 \<le> m" "even (m + 1)" by presburger+
    then have ne: "x \<noteq> Lowbit x" using x(1) lb by simp
    have "2 ^ i * 2 \<le> x" using m x(1) by simp
    with Suc.prems(2) have "(2 :: int) ^ Suc i \<le> 2 ^ n" by simp
    then have i: "i < n" using power_le_imp_le_exp [of "2 :: int" "Suc i" n] by simp
    then obtain d where d: "n = i + d" "0 < d" by (metis less_imp_add_positive)
    have "m \<le> 2 ^ d" using Suc.prems(2) x(1) by (simp add: d power_add)
    moreover have "m \<noteq> 2 ^ d" using x(2) d(2) by auto
    ultimately have "m + 1 \<le> 2 ^ d" by simp
    then have le: "x + Lowbit x \<le> 2 ^ n"
      using mult_left_mono [of "m + 1" "2 ^ d" "2 ^ i"] unfolding lb by (simp add: x(1) d power_add distrib_left)
    then have small: "x + Lowbit x < 2 ^ 63"
      using Suc.prems(3) power_increasing [of n 62 "2 :: int"] by simp
    have dv: "2 ^ Suc i dvd x + Lowbit x"
    proof -
      from m(2) obtain r where r: "m + 1 = 2 * r" by (elim evenE)
      have "x + Lowbit x = 2 ^ i * (m + 1)" unfolding lb by (simp add: x(1) distrib_left)
      then show ?thesis by (simp add: r)
    qed
    have "k \<le> i"
    proof (rule ccontr)
      assume "\<not> k \<le> i"
      then have "(2 :: int) ^ Suc i dvd 2 ^ k" by (simp add: le_imp_power_dvd del: power_Suc)
      then have "2 ^ Suc i dvd 2 ^ i * m" using Suc.prems(4) x(1) dvd_trans by metis
      then have "even m" by simp
      with x(2) show False by simp
    qed
    then have "n \<le> Suc i + fuel" using Suc.prems(5) by simp
    moreover have "0 < x + Lowbit x" using Suc.prems(1) lb by (simp add: add_pos_pos)
    moreover have "n \<le> j" if "x + Lowbit x \<le> 2 ^ j" for j
      using that lb Suc.prems(6) [of j] by (smt (verit) zero_less_power)
    ultimately have "round_up_loop fuel (x + Lowbit x) = Inr (2 ^ n)"
      using Suc.IH le Suc.prems(3) dv by blast
    with ne small show ?thesis by (simp add: round_up_loop.simps [of "Suc fuel"])
  qed
qed

text \<open>The capacity is the least power of two that is not below the requested count.\<close>

lemma RoundUpPower2_ok:
  assumes "0 < x" and "x \<le> 2 ^ 62"
  shows "\<exists>n. RoundUpPower2 x = Inr (2 ^ n) \<and> x \<le> 2 ^ n \<and> n \<le> 62 \<and> (\<forall>j. x \<le> 2 ^ j \<longrightarrow> n \<le> j)"
proof -
  define n where "n = (LEAST j. x \<le> 2 ^ j)"
  have n: "x \<le> 2 ^ n" unfolding n_def using assms(2) by (rule LeastI)
  moreover have least: "n \<le> j" if "x \<le> 2 ^ j" for j unfolding n_def using that by (rule Least_le)
  moreover have "n \<le> 62" using least assms(2) by blast
  ultimately have "round_up_loop 64 x = Inr (2 ^ n)"
    using round_up_loop_ok [OF assms(1) n, of 0 64] by simp
  with n least \<open>n \<le> 62\<close> show ?thesis by (auto simp: RoundUpPower2_def)
qed

section \<open>SpscQueue: sequential operations\<close>

record 'a spsc =
  sq_capacity :: "64 word"
  sq_mask :: "64 word"
  sq_head :: "64 word"
  sq_tail :: "64 word"
  sq_vec :: "'a list"

text \<open>\<open>x\<close> is the default-constructed element. For a negative count the capacity is 0.\<close>

definition SpscQueue :: "'a \<Rightarrow> int \<Rightarrow> 'a spsc res" where
  "SpscQueue x count =
     rbind (RoundUpPower2 count) (\<lambda>c.
       rbind (check (c = Lowbit c) ''capacity_ == Lowbit(capacity_)'') (\<lambda>_.
         Inr \<lparr>sq_capacity = word_of_int c, sq_mask = word_of_int c - 1, sq_head = 0, sq_tail = 0,
              sq_vec = replicate (nat c) x\<rparr>))"

definition sq_slot :: "'a spsc \<Rightarrow> 64 word \<Rightarrow> nat" where
  "sq_slot q i = unat (i AND sq_mask q)"

definition TryPush :: "'a spsc \<Rightarrow> 'a \<Rightarrow> 'a spsc option" where
  "TryPush q v =
     (let cur_head = sq_head q; cur_tail = sq_tail q in
      if cur_tail - cur_head \<ge> sq_capacity q then None
      else Some (q\<lparr>sq_vec := (sq_vec q)[sq_slot q cur_tail := v], sq_tail := cur_tail + 1\<rparr>))"

definition TryPop :: "'a spsc \<Rightarrow> ('a \<times> 'a spsc) option" where
  "TryPop q =
     (let cur_head = sq_head q; cur_tail = sq_tail q in
      if cur_tail = cur_head then None
      else Some (sq_vec q ! sq_slot q cur_head, q\<lparr>sq_head := cur_head + 1\<rparr>))"

text \<open>The ring behind the counters: \<open>in_ring k q done todo\<close> says that the capacity is \<open>2 ^ k\<close>,
  that all of \<open>done @ todo\<close> has been pushed and \<open>done\<close> has been popped.\<close>

definition in_ring :: "nat \<Rightarrow> 'a spsc \<Rightarrow> 'a list \<Rightarrow> 'a list \<Rightarrow> bool" where
  "in_ring k q popped todo \<longleftrightarrow> k < 63 \<and> sq_capacity q = 2 ^ k \<and> sq_mask q = 2 ^ k - 1
     \<and> length (sq_vec q) = 2 ^ k \<and> length todo \<le> 2 ^ k
     \<and> sq_head q = of_nat (length popped) \<and> sq_tail q = of_nat (length popped + length todo)
     \<and> (\<forall>j < length todo. sq_vec q ! ((length popped + j) mod 2 ^ k) = todo ! j)"

lemma and_mask_slot:
  assumes "k < 63" and "sq_mask q = 2 ^ k - 1"
  shows "sq_slot q (of_nat n) = n mod 2 ^ k"
proof -
  have "sq_slot q (of_nat n) = unat (take_bit k (of_nat n :: 64 word))"
    using assms by (simp add: sq_slot_def take_bit_eq_mask mask_eq_exp_minus_1)
  also have "\<dots> = take_bit k (take_bit 64 n)"
    by (simp add: unsigned_take_bit_eq unsigned_of_nat)
  also have "\<dots> = n mod 2 ^ k" using assms(1) by (simp add: min_def take_bit_eq_mod [of k])
  finally show ?thesis .
qed

lemma of_nat_diff_word: "(of_nat (a + b) :: 64 word) - of_nat a = of_nat b"
  by simp

lemma unat_exp: "k < 64 \<Longrightarrow> unat (2 ^ k :: 64 word) = 2 ^ k"
proof -
  assume "k < 64"
  then have "(2 :: nat) ^ k < 2 ^ 64" by (intro power_strict_increasing) auto
  then have "take_bit 64 ((2 :: nat) ^ k) = 2 ^ k" by (rule take_bit_nat_eq_self)
  moreover have "unat (of_nat (2 ^ k) :: 64 word) = take_bit 64 (2 ^ k)" by (simp only: unsigned_of_nat) simp
  ultimately show ?thesis by simp
qed

lemma of_nat_word_less:
  assumes "k < 63" and "n \<le> 2 ^ k"
  shows "(2 ^ k :: 64 word) \<le> of_nat n \<longleftrightarrow> n = 2 ^ k" and "(of_nat n = (0 :: 64 word)) \<longleftrightarrow> n = 0"
proof -
  have k: "(2 :: nat) ^ k < 2 ^ 64" using assms(1) by (intro power_strict_increasing) auto
  then have n: "n < 2 ^ 64" using assms(2) by simp
  have u: "unat (of_nat n :: 64 word) = n" "unat (2 ^ k :: 64 word) = 2 ^ k"
    using n assms(1) by (simp_all add: unat_of_nat unat_exp)
  then show "(2 ^ k :: 64 word) \<le> of_nat n \<longleftrightarrow> n = 2 ^ k"
    using assms(2) by (auto simp: word_le_nat_alt)
  show "(of_nat n = (0 :: 64 word)) \<longleftrightarrow> n = 0" 
  proof
    assume "of_nat n = (0 :: 64 word)"
    then have "unat (of_nat n :: 64 word) = 0" by simp
    with u(1) show "n = 0" by simp
  qed simp
qed

lemma in_ring_TryPush:
  assumes "in_ring k q popped todo"
  shows "TryPush q v = (if length todo = 2 ^ k then None
    else Some (q\<lparr>sq_vec := (sq_vec q)[(length popped + length todo) mod 2 ^ k := v], sq_tail := sq_tail q + 1\<rparr>))"
proof -
  from assms have r: "k < 63" "sq_capacity q = 2 ^ k" "sq_mask q = 2 ^ k - 1" "length todo \<le> 2 ^ k"
    "sq_head q = of_nat (length popped)" "sq_tail q = of_nat (length popped + length todo)"
    by (auto simp: in_ring_def)
  have "sq_tail q - sq_head q = of_nat (length todo)" unfolding r(5,6) by (rule of_nat_diff_word)
  moreover have "sq_slot q (sq_tail q) = (length popped + length todo) mod 2 ^ k"
    unfolding r(6) by (rule and_mask_slot [OF r(1,3)])
  ultimately show ?thesis
    using of_nat_word_less(1) [OF r(1,4)] by (simp add: TryPush_def r(2) Let_def)
qed

lemma slot_distinct: "j < n \<Longrightarrow> n < 2 ^ k \<Longrightarrow> (h + j) mod 2 ^ k \<noteq> (h + n) mod (2 ^ k :: nat)"
proof
  assume j: "j < n" "n < 2 ^ k" and eq: "(h + j) mod 2 ^ k = (h + n) mod (2 ^ k :: nat)"
  then have "(2 ^ k :: nat) dvd (h + n) - (h + j)" using mod_eq_dvd_iff_nat [of "h + j" "h + n" "2 ^ k"] by simp
  with j show False by (auto dest: dvd_imp_le)
qed

lemma in_ring_push:
  assumes "in_ring k q popped todo" and "length todo < 2 ^ k"
  shows "in_ring k (q\<lparr>sq_vec := (sq_vec q)[(length popped + length todo) mod 2 ^ k := v], sq_tail := sq_tail q + 1\<rparr>)
    popped (todo @ [v])"
proof -
  let ?s = "(length popped + length todo) mod 2 ^ k"
  let ?vec = "(sq_vec q)[?s := v]"
  have "?vec ! ((length popped + j) mod 2 ^ k) = (todo @ [v]) ! j" if "j < length (todo @ [v])" for j
  proof (cases "j = length todo")
    case True
    with assms(1) show ?thesis by (simp add: in_ring_def)
  next
    case False
    with that have j: "j < length todo" by simp
    have "?s \<noteq> (length popped + j) mod 2 ^ k"
      using slot_distinct [OF j assms(2), of "length popped"] by simp
    with assms(1) j show ?thesis by (simp add: in_ring_def nth_append)
  qed
  with assms show ?thesis by (auto simp: in_ring_def algebra_simps)
qed

lemma in_ring_pop:
  assumes "in_ring k q popped (x # todo)"
  shows "sq_slot q (sq_head q) = length popped mod 2 ^ k" and "sq_vec q ! (length popped mod 2 ^ k) = x"
    and "in_ring k (q\<lparr>sq_head := sq_head q + 1\<rparr>) (popped @ [x]) todo"
proof -
  from assms have r: "k < 63" "sq_mask q = 2 ^ k - 1" "sq_head q = of_nat (length popped)"
    "\<forall>j < Suc (length todo). sq_vec q ! ((length popped + j) mod 2 ^ k) = (x # todo) ! j"
    by (auto simp: in_ring_def)
  show "sq_slot q (sq_head q) = length popped mod 2 ^ k" unfolding r(3) by (rule and_mask_slot [OF r(1,2)])
  show "sq_vec q ! (length popped mod 2 ^ k) = x" using r(4) [rule_format, of 0] by simp
  have "sq_vec q ! ((Suc (length popped) + j) mod 2 ^ k) = todo ! j" if "j < length todo" for j
    using r(4) [rule_format, of "Suc j"] that by simp
  then show "in_ring k (q\<lparr>sq_head := sq_head q + 1\<rparr>) (popped @ [x]) todo"
    using assms by (auto simp: in_ring_def algebra_simps)
qed

lemma in_ring_TryPop:
  assumes "in_ring k q popped todo"
  shows "TryPop q = (case todo of [] \<Rightarrow> None | x # xs \<Rightarrow> Some (x, q\<lparr>sq_head := sq_head q + 1\<rparr>))"
proof -
  from assms have r: "k < 63" "length todo \<le> 2 ^ k"
    "sq_head q = of_nat (length popped)" "sq_tail q = of_nat (length popped + length todo)"
    by (auto simp: in_ring_def)
  have "sq_tail q = sq_head q \<longleftrightarrow> sq_tail q - sq_head q = 0" by simp
  also have "\<dots> \<longleftrightarrow> todo = []"
    unfolding r(3,4) of_nat_diff_word using of_nat_word_less(2) [OF r(1,2)] by simp
  finally have "sq_tail q = sq_head q \<longleftrightarrow> todo = []" .
  with assms in_ring_pop [of k q popped] show ?thesis
    by (cases todo) (auto simp: TryPop_def Let_def)
qed

text \<open>The elements in the queue, read off the counters.\<close>

definition spsc_contents :: "'a spsc \<Rightarrow> 'a list" where
  "spsc_contents q = map (\<lambda>j. sq_vec q ! sq_slot q (sq_head q + of_nat j)) [0..<unat (sq_tail q - sq_head q)]"

definition spsc_invar :: "'a spsc \<Rightarrow> bool" where
  "spsc_invar q \<longleftrightarrow> (\<exists>k popped todo. in_ring k q popped todo)"

lemma in_ring_contents:
  assumes "in_ring k q popped todo"
  shows "spsc_contents q = todo"
proof -
  from assms have r: "k < 63" "sq_mask q = 2 ^ k - 1" "length todo \<le> 2 ^ k"
    "sq_head q = of_nat (length popped)" "sq_tail q = of_nat (length popped + length todo)"
    "\<forall>j < length todo. sq_vec q ! ((length popped + j) mod 2 ^ k) = todo ! j"
    by (auto simp: in_ring_def)
  have "(2 :: nat) ^ k < 2 ^ 64" using r(1) by (intro power_strict_increasing) auto
  then have "unat (of_nat (length todo) :: 64 word) = length todo"
    using r(3) by (simp add: unat_of_nat)
  then have len: "unat (sq_tail q - sq_head q) = length todo" unfolding r(4,5) of_nat_diff_word .
  have "sq_slot q (sq_head q + of_nat j) = (length popped + j) mod 2 ^ k" for j
    using and_mask_slot [OF r(1,2), of "length popped + j"] by (simp add: r(4))
  then show ?thesis
    unfolding spsc_contents_def len using r(6) by (intro nth_equalityI) auto
qed

interpretation spsc: bounded_fifo TryPush TryPop spsc_contents
  "\<lambda>q. length (spsc_contents q) < unat (sq_capacity q)" spsc_invar
proof (unfold_locales, goal_cases)
  case (1 q x)
  then obtain k popped todo where r: "in_ring k q popped todo" by (auto simp: spsc_invar_def)
  then have "unat (sq_capacity q) = 2 ^ k" by (simp add: in_ring_def unat_exp)
  with 1 r have "length todo < 2 ^ k" by (simp add: in_ring_contents)
  with in_ring_TryPush [OF r] in_ring_push [OF r] in_ring_contents [OF r] show ?case
    by (metis in_ring_contents nat_neq_iff spsc_invar_def)
next
  case (2 q x)
  then obtain k popped todo where r: "in_ring k q popped todo" by (auto simp: spsc_invar_def)
  then have "unat (sq_capacity q) = 2 ^ k" by (simp add: in_ring_def unat_exp)
  with 2 r have "length todo = 2 ^ k" by (auto simp: in_ring_contents in_ring_def)
  with in_ring_TryPush [OF r] show ?case by simp
next
  case (3 q)
  then obtain k popped todo where r: "in_ring k q popped todo" by (auto simp: spsc_invar_def)
  with 3 in_ring_contents [OF r] in_ring_TryPop [OF r] show ?case by simp
next
  case (4 q x xs)
  then obtain k popped todo where r: "in_ring k q popped todo" by (auto simp: spsc_invar_def)
  with 4 have "todo = x # xs" by (simp add: in_ring_contents)
  with in_ring_TryPop [OF r] in_ring_pop(3) [of k q popped x xs] r show ?case
    by (auto simp: spsc_invar_def dest: in_ring_contents)
qed

lemma SpscQueue_init:
  assumes "0 < count" and "count \<le> 2 ^ 31"
  obtains q k where "SpscQueue x count = Inr q" and "in_ring k q [] []" and "count \<le> 2 ^ k"
    and "sq_capacity q = 2 ^ k"
proof -
  have "(2 :: int) ^ 31 \<le> 2 ^ 62" by simp
  then obtain n where n: "RoundUpPower2 count = Inr (2 ^ n)" "count \<le> 2 ^ n" "n \<le> 62"
    using RoundUpPower2_ok [of count] assms by auto
  have "Lowbit (2 ^ n) = 2 ^ n" using Lowbit_exp [of 1 n] by simp
  with n that [of _ n] show ?thesis
    by (simp add: SpscQueue_def in_ring_def nat_power_eq)
qed

end
