(* ===== verification/Spsc_Interleaving.thy ===== *)
theory Spsc_Interleaving
  imports Queues
begin

text \<open>
  \<open>SpscQueue\<close> used by two threads at once.

  The producer runs \<open>Push\<close> or \<open>TryPush\<close>, the consumer \<open>TryPop\<close> (\<open>WaitAndPop\<close> repeats it); their
  program counters hold the values they have loaded. Every load and store of \<open>head_\<close>, \<open>tail_\<close> and
  of a slot is one step, and the steps of the two threads interleave in any way. The lists of
  the elements pushed and popped so far are ghost state.
\<close>

datatype 'a prod_pc =
  P_Idle
| P_Start 'a
| P_Head 'a "64 word"
| P_Tail 'a "64 word" "64 word"
| P_Store 'a "64 word"

datatype 'a cons_pc =
  C_Idle
| C_Head "64 word"
| C_Tail "64 word" "64 word"
| C_Read "64 word" 'a

record 'a spsc_sys =
  ss_q :: "'a spsc"
  ss_prod :: "'a prod_pc"
  ss_cons :: "'a cons_pc"
  ss_pushed :: "'a list"
  ss_popped :: "'a list"

inductive spsc_step :: "'a spsc_sys \<Rightarrow> 'a spsc_sys \<Rightarrow> bool" where
  push_call: "ss_prod s = P_Idle \<Longrightarrow> spsc_step s (s\<lparr>ss_prod := P_Start v\<rparr>)"
| push_load_head: "ss_prod s = P_Start v \<Longrightarrow> spsc_step s (s\<lparr>ss_prod := P_Head v (sq_head (ss_q s))\<rparr>)"
| push_load_tail: "ss_prod s = P_Head v h \<Longrightarrow> spsc_step s (s\<lparr>ss_prod := P_Tail v h (sq_tail (ss_q s))\<rparr>)"
| push_full: "ss_prod s = P_Tail v h t \<Longrightarrow> t - h \<ge> sq_capacity (ss_q s) \<Longrightarrow>
    spsc_step s (s\<lparr>ss_prod := P_Start v\<rparr>)"
| try_push_full: "ss_prod s = P_Tail v h t \<Longrightarrow> t - h \<ge> sq_capacity (ss_q s) \<Longrightarrow>
    spsc_step s (s\<lparr>ss_prod := P_Idle\<rparr>)"
| push_write: "ss_prod s = P_Tail v h t \<Longrightarrow> \<not> t - h \<ge> sq_capacity (ss_q s) \<Longrightarrow>
    spsc_step s (s\<lparr>ss_q := (ss_q s)\<lparr>sq_vec := (sq_vec (ss_q s))[sq_slot (ss_q s) t := v]\<rparr>,
                   ss_prod := P_Store v t\<rparr>)"
| push_store_tail: "ss_prod s = P_Store v t \<Longrightarrow>
    spsc_step s (s\<lparr>ss_q := (ss_q s)\<lparr>sq_tail := t + 1\<rparr>, ss_prod := P_Idle, ss_pushed := ss_pushed s @ [v]\<rparr>)"
| pop_load_head: "ss_cons s = C_Idle \<Longrightarrow> spsc_step s (s\<lparr>ss_cons := C_Head (sq_head (ss_q s))\<rparr>)"
| pop_load_tail: "ss_cons s = C_Head h \<Longrightarrow> spsc_step s (s\<lparr>ss_cons := C_Tail h (sq_tail (ss_q s))\<rparr>)"
| pop_empty: "ss_cons s = C_Tail h t \<Longrightarrow> t = h \<Longrightarrow> spsc_step s (s\<lparr>ss_cons := C_Idle\<rparr>)"
| pop_read: "ss_cons s = C_Tail h t \<Longrightarrow> t \<noteq> h \<Longrightarrow>
    spsc_step s (s\<lparr>ss_cons := C_Read h (sq_vec (ss_q s) ! sq_slot (ss_q s) h)\<rparr>)"
| pop_store_head: "ss_cons s = C_Read h v \<Longrightarrow>
    spsc_step s (s\<lparr>ss_q := (ss_q s)\<lparr>sq_head := h + 1\<rparr>, ss_cons := C_Idle, ss_popped := ss_popped s @ [v]\<rparr>)"

inductive spsc_reach :: "'a spsc \<Rightarrow> 'a spsc_sys \<Rightarrow> bool" for q0 where
  reach_init: "spsc_reach q0 \<lparr>ss_q = q0, ss_prod = P_Idle, ss_cons = C_Idle, ss_pushed = [], ss_popped = []\<rparr>"
| reach_step: "spsc_reach q0 s \<Longrightarrow> spsc_step s s' \<Longrightarrow> spsc_reach q0 s'"

section \<open>The invariant\<close>

text \<open>What each thread knows: the producer's copy of \<open>head_\<close> may be stale but never too far behind,
  and \<open>tail_\<close> is its own; the consumer's copy of \<open>tail_\<close> may be stale and \<open>head_\<close> is its own.\<close>

fun prod_ok :: "nat \<Rightarrow> 'a spsc_sys \<Rightarrow> 'a prod_pc \<Rightarrow> bool" where
  "prod_ok k s P_Idle \<longleftrightarrow> True"
| "prod_ok k s (P_Start v) \<longleftrightarrow> True"
| "prod_ok k s (P_Head v h) \<longleftrightarrow>
     (\<exists>n. h = of_nat n \<and> n \<le> length (ss_popped s) \<and> length (ss_pushed s) \<le> n + 2 ^ k)"
| "prod_ok k s (P_Tail v h t) \<longleftrightarrow> t = sq_tail (ss_q s) \<and>
     (\<exists>n. h = of_nat n \<and> n \<le> length (ss_popped s) \<and> length (ss_pushed s) \<le> n + 2 ^ k)"
| "prod_ok k s (P_Store v t) \<longleftrightarrow> t = sq_tail (ss_q s)
     \<and> length (ss_pushed s) < length (ss_popped s) + 2 ^ k
     \<and> sq_vec (ss_q s) ! (length (ss_pushed s) mod 2 ^ k) = v"

fun cons_ok :: "'a spsc_sys \<Rightarrow> 'a cons_pc \<Rightarrow> bool" where
  "cons_ok s C_Idle \<longleftrightarrow> True"
| "cons_ok s (C_Head h) \<longleftrightarrow> h = sq_head (ss_q s)"
| "cons_ok s (C_Tail h t) \<longleftrightarrow> h = sq_head (ss_q s) \<and>
     (\<exists>n. t = of_nat n \<and> length (ss_popped s) \<le> n \<and> n \<le> length (ss_pushed s))"
| "cons_ok s (C_Read h v) \<longleftrightarrow> h = sq_head (ss_q s) \<and> length (ss_popped s) < length (ss_pushed s)
     \<and> v = ss_pushed s ! length (ss_popped s)"

definition spsc_inv :: "nat \<Rightarrow> 'a spsc_sys \<Rightarrow> bool" where
  "spsc_inv k s \<longleftrightarrow> (\<exists>todo. ss_pushed s = ss_popped s @ todo \<and> in_ring k (ss_q s) (ss_popped s) todo)
     \<and> prod_ok k s (ss_prod s) \<and> cons_ok s (ss_cons s)"

lemma spsc_inv_prod_pc:
  assumes "spsc_inv k s" and "prod_ok k s pc"
  shows "spsc_inv k (s\<lparr>ss_prod := pc\<rparr>)"
proof -
  have "prod_ok k (s\<lparr>ss_prod := pc\<rparr>) p = prod_ok k s p" "cons_ok (s\<lparr>ss_prod := pc\<rparr>) c = cons_ok s c" for p c
    by (cases p; simp) (cases c; simp)
  with assms show ?thesis by (auto simp: spsc_inv_def)
qed

lemma spsc_inv_cons_pc:
  assumes "spsc_inv k s" and "cons_ok s pc"
  shows "spsc_inv k (s\<lparr>ss_cons := pc\<rparr>)"
proof -
  have "prod_ok k (s\<lparr>ss_cons := pc\<rparr>) p = prod_ok k s p" "cons_ok (s\<lparr>ss_cons := pc\<rparr>) c = cons_ok s c" for p c
    by (cases p; simp) (cases c; simp)
  with assms show ?thesis by (auto simp: spsc_inv_def)
qed

lemma spsc_invE:
  assumes "spsc_inv k s"
  obtains todo where "ss_pushed s = ss_popped s @ todo" and "in_ring k (ss_q s) (ss_popped s) todo"
    and "k < 63" and "length todo \<le> 2 ^ k" and "sq_mask (ss_q s) = 2 ^ k - 1" and "sq_capacity (ss_q s) = 2 ^ k"
    and "sq_head (ss_q s) = of_nat (length (ss_popped s))" and "sq_tail (ss_q s) = of_nat (length (ss_pushed s))"
  using assms by (auto simp: spsc_inv_def in_ring_def)

text \<open>A stale copy of \<open>head_\<close> can only make the queue look fuller than it is.\<close>

lemma not_full:
  assumes "k < 63" and "n \<le> a" and "a \<le> p" and "p \<le> n + 2 ^ k"
    and "\<not> (of_nat p - of_nat n :: 64 word) \<ge> 2 ^ k"
  shows "p < a + 2 ^ k"
proof -
  obtain d where d: "p = n + d" using assms(2,3) by (metis le_Suc_ex le_trans)
  then have "d \<le> 2 ^ k" "(of_nat p - of_nat n :: 64 word) = of_nat d" using assms(4) by simp_all
  with of_nat_word_less(1) [OF assms(1)] assms(5) have "d \<noteq> 2 ^ k" by auto
  with \<open>d \<le> 2 ^ k\<close> d assms(2) show ?thesis by simp
qed

lemma spsc_inv_write:
  assumes "spsc_inv k s" and "ss_prod s = P_Tail v h t" and "\<not> t - h \<ge> sq_capacity (ss_q s)"
  shows "spsc_inv k (s\<lparr>ss_q := (ss_q s)\<lparr>sq_vec := (sq_vec (ss_q s))[sq_slot (ss_q s) t := v]\<rparr>,
    ss_prod := P_Store v t\<rparr>)"
proof -
  let ?q = "ss_q s"
  from assms(1) obtain todo where r: "ss_pushed s = ss_popped s @ todo" "in_ring k ?q (ss_popped s) todo"
    "k < 63" "length todo \<le> 2 ^ k" "sq_mask ?q = 2 ^ k - 1" "sq_capacity ?q = 2 ^ k"
    "sq_tail ?q = of_nat (length (ss_pushed s))" by (elim spsc_invE)
  from assms(1,2) obtain n where n: "h = of_nat n" "n \<le> length (ss_popped s)"
    "length (ss_pushed s) \<le> n + 2 ^ k" "t = sq_tail ?q" by (auto simp: spsc_inv_def)
  have room: "length (ss_pushed s) < length (ss_popped s) + 2 ^ k"
    using not_full [OF r(3) n(2) _ n(3)] assms(3) r(1,6,7) n(1,4) by simp
  have slot: "sq_slot ?q t = length (ss_pushed s) mod 2 ^ k"
    unfolding n(4) r(7) by (rule and_mask_slot [OF r(3,5)])
  have len: "length (sq_vec ?q) = 2 ^ k" using r(2) by (simp add: in_ring_def)
  have "in_ring k (?q\<lparr>sq_vec := (sq_vec ?q)[length (ss_pushed s) mod 2 ^ k := v]\<rparr>) (ss_popped s) todo"
    using r(2) slot_distinct [of _ "length todo" k "length (ss_popped s)"] room
    by (fastforce simp: in_ring_def r(1) nth_list_update)
  moreover have "cons_ok (s\<lparr>ss_q := ?q\<lparr>sq_vec := (sq_vec ?q)[length (ss_pushed s) mod 2 ^ k := v]\<rparr>,
      ss_prod := P_Store v t\<rparr>) c = cons_ok s c" for c by (cases c) simp_all
  ultimately show ?thesis
    using assms(1) r(1) n(4) room len unfolding slot by (auto simp: spsc_inv_def)
qed

lemma spsc_inv_store_tail:
  assumes "spsc_inv k s" and "ss_prod s = P_Store v t"
  shows "spsc_inv k (s\<lparr>ss_q := (ss_q s)\<lparr>sq_tail := t + 1\<rparr>, ss_prod := P_Idle, ss_pushed := ss_pushed s @ [v]\<rparr>)"
proof -
  let ?q = "ss_q s"
  from assms(1) obtain todo where r: "ss_pushed s = ss_popped s @ todo" "in_ring k ?q (ss_popped s) todo"
    by (elim spsc_invE)
  from assms have p: "t = sq_tail ?q" "length todo < 2 ^ k"
    "sq_vec ?q ! ((length (ss_popped s) + length todo) mod 2 ^ k) = v" by (auto simp: spsc_inv_def r(1))
  then have "(sq_vec ?q)[(length (ss_popped s) + length todo) mod 2 ^ k := v] = sq_vec ?q"
    by (metis list_update_id)
  then have "in_ring k (?q\<lparr>sq_tail := t + 1\<rparr>) (ss_popped s) (todo @ [v])"
    using in_ring_push [OF r(2) p(2), of v] p(1) by simp
  moreover have "cons_ok s c \<Longrightarrow> cons_ok (s\<lparr>ss_q := ?q\<lparr>sq_tail := t + 1\<rparr>, ss_prod := P_Idle,
      ss_pushed := ss_pushed s @ [v]\<rparr>) c" for c by (cases c) (auto simp: nth_append)
  ultimately show ?thesis using assms(1) r(1) by (auto simp: spsc_inv_def)
qed

lemma spsc_inv_read:
  assumes "spsc_inv k s" and "ss_cons s = C_Tail h t" and "t \<noteq> h"
  shows "cons_ok s (C_Read h (sq_vec (ss_q s) ! sq_slot (ss_q s) h))"
proof -
  let ?q = "ss_q s"
  from assms(1) obtain todo where r: "ss_pushed s = ss_popped s @ todo" "in_ring k ?q (ss_popped s) todo"
    "sq_head ?q = of_nat (length (ss_popped s))" by (elim spsc_invE)
  from assms(1,2) obtain n where n: "h = sq_head ?q" "t = of_nat n" "length (ss_popped s) \<le> n"
    "n \<le> length (ss_pushed s)" by (auto simp: spsc_inv_def)
  with assms(3) r(3) have "length (ss_popped s) \<noteq> n" by auto
  with n r(1) obtain x xs where todo: "todo = x # xs" by (cases todo) auto
  with in_ring_pop(1,2) [of k ?q "ss_popped s" x xs] r n(1) show ?thesis by simp
qed

lemma spsc_inv_store_head:
  assumes "spsc_inv k s" and "ss_cons s = C_Read h v"
  shows "spsc_inv k (s\<lparr>ss_q := (ss_q s)\<lparr>sq_head := h + 1\<rparr>, ss_cons := C_Idle, ss_popped := ss_popped s @ [v]\<rparr>)"
proof -
  let ?q = "ss_q s"
  let ?s = "s\<lparr>ss_q := ?q\<lparr>sq_head := h + 1\<rparr>, ss_cons := C_Idle, ss_popped := ss_popped s @ [v]\<rparr>"
  from assms(1) obtain todo where r: "ss_pushed s = ss_popped s @ todo" "in_ring k ?q (ss_popped s) todo"
    by (elim spsc_invE)
  from assms r(1) have h: "h = sq_head ?q" "todo \<noteq> []" "v = hd todo"
    by (auto simp: spsc_inv_def nth_append hd_conv_nth)
  then have todo: "todo = v # tl todo" by simp
  from in_ring_pop(3) [of k ?q "ss_popped s" v "tl todo"] r(2) todo h(1)
  have "in_ring k (ss_q ?s) (ss_popped ?s) (tl todo)" by simp
  moreover have "ss_pushed ?s = ss_popped ?s @ tl todo" using r(1) todo by simp
  moreover have "prod_ok k s p \<Longrightarrow> prod_ok k ?s p" for p by (cases p) (auto intro: le_SucI)
  ultimately show ?thesis using assms(1) by (auto simp: spsc_inv_def simp del: append.assoc append_assoc)
qed

lemma spsc_inv_step:
  assumes "spsc_inv k s" and "spsc_step s s'"
  shows "spsc_inv k s'"
  using assms(2)
proof (cases rule: spsc_step.cases)
  case (push_load_head v)
  from assms(1) have "prod_ok k s (P_Head v (sq_head (ss_q s)))"
    by (elim spsc_invE) (auto intro!: exI [of _ "length (ss_popped s)"])
  with push_load_head show ?thesis using assms(1) by (simp add: spsc_inv_prod_pc)
next
  case (push_load_tail v h)
  with assms(1) have "prod_ok k s (P_Tail v h (sq_tail (ss_q s)))" by (auto simp: spsc_inv_def)
  with push_load_tail show ?thesis using assms(1) by (simp add: spsc_inv_prod_pc)
next
  case pop_load_head
  with assms(1) show ?thesis by (simp add: spsc_inv_cons_pc)
next
  case (pop_load_tail h)
  with assms(1) have "h = sq_head (ss_q s)" by (simp add: spsc_inv_def)
  with assms(1) have "cons_ok s (C_Tail h (sq_tail (ss_q s)))"
    by (elim spsc_invE) (auto intro!: exI [of _ "length (ss_pushed s)"])
  with pop_load_tail show ?thesis using assms(1) by (simp add: spsc_inv_cons_pc)
next
  case (pop_read h t)
  from spsc_inv_cons_pc [OF assms(1) spsc_inv_read [OF assms(1) pop_read(2,3)]] pop_read(1)
  show ?thesis by simp
next
  case (push_write v h t)
  with spsc_inv_write [OF assms(1)] show ?thesis by simp
next
  case (push_store_tail v t)
  with spsc_inv_store_tail [OF assms(1)] show ?thesis by simp
next
  case (pop_store_head h v)
  with spsc_inv_store_head [OF assms(1)] show ?thesis by simp
qed (use assms(1) in \<open>simp_all add: spsc_inv_prod_pc spsc_inv_cons_pc\<close>)

lemma spsc_inv_reach:
  assumes "spsc_reach q0 s" and "in_ring k q0 [] []"
  shows "spsc_inv k s"
  using assms
proof (induction rule: spsc_reach.induct)
  case reach_init
  then show ?case by (auto simp: spsc_inv_def)
next
  case (reach_step s s')
  then show ?case using spsc_inv_step by blast
qed

section \<open>Properties\<close>

text \<open>C15: \<open>SpscQueue\<close> is a FIFO between one producer and one consumer, however their loads and
  stores interleave and even after the 64-bit counters wrap around: at every moment the elements
  popped so far followed by those in the queue are exactly the elements pushed so far, and there
  are never more than \<open>capacity_\<close> in the queue; \<open>capacity_\<close> is a power of two not below the
  requested count.\<close>

theorem spsc_fifo:
  assumes "0 < count" and "count \<le> 2 ^ 31" and "SpscQueue x count = Inr q" and "spsc_reach q s"
  shows "ss_pushed s = ss_popped s @ spsc_contents (ss_q s)
    \<and> length (spsc_contents (ss_q s)) \<le> unat (sq_capacity (ss_q s)) \<and> count \<le> uint (sq_capacity (ss_q s))"
proof -
  from assms(1-3) obtain k where k: "in_ring k q [] []" "count \<le> 2 ^ k" "sq_capacity q = 2 ^ k"
    using SpscQueue_init [of count x] by (metis Inr_inject)
  from spsc_inv_reach [OF assms(4) k(1)] obtain todo where r: "ss_pushed s = ss_popped s @ todo"
    "in_ring k (ss_q s) (ss_popped s) todo" "k < 63" "length todo \<le> 2 ^ k" "sq_capacity (ss_q s) = 2 ^ k"
    by (elim spsc_invE)
  have "unat (sq_capacity (ss_q s)) = 2 ^ k" using r(3,5) by (simp add: unat_exp)
  moreover from this have "uint (sq_capacity (ss_q s)) = 2 ^ k"
    by (metis of_nat_numeral of_nat_power uint_nat)
  ultimately show ?thesis using r in_ring_contents [OF r(2)] k(2) by simp
qed

text \<open>A run that pushes one element.\<close>

lemma spsc_push_run:
  assumes "in_ring k q [] []"
  shows "\<exists>s. spsc_reach q s \<and> ss_pushed s = [v] \<and> ss_popped s = []"
proof -
  let ?s0 = "\<lparr>ss_q = q, ss_prod = P_Idle, ss_cons = C_Idle, ss_pushed = [], ss_popped = []\<rparr>"
  have q: "sq_head q = 0" "sq_tail q = 0" "\<not> 0 \<ge> sq_capacity q"
    using assms of_nat_word_less(1) [of k 0] by (auto simp: in_ring_def)
  have "spsc_reach q ?s0" by (rule reach_init)
  from reach_step [OF this push_call, of v] have "spsc_reach q (?s0\<lparr>ss_prod := P_Start v\<rparr>)" by simp
  from reach_step [OF this push_load_head, of v] q have "spsc_reach q (?s0\<lparr>ss_prod := P_Head v 0\<rparr>)" by simp
  from reach_step [OF this push_load_tail, of v 0] q have "spsc_reach q (?s0\<lparr>ss_prod := P_Tail v 0 0\<rparr>)" by simp
  from reach_step [OF this push_write, of v 0 0] q obtain q' where
    "spsc_reach q (?s0\<lparr>ss_q := q', ss_prod := P_Store v 0\<rparr>)" by auto
  from reach_step [OF this push_store_tail, of v 0] show ?thesis by (intro exI conjI) auto
qed

theorem spsc_fifo_witness:
  "\<exists>q s. SpscQueue (0 :: nat) 3 = Inr q \<and> spsc_reach q s \<and> ss_pushed s = [5]
    \<and> ss_pushed s = ss_popped s @ spsc_contents (ss_q s)"
proof -
  obtain q k where q: "SpscQueue (0 :: nat) 3 = Inr q" "in_ring k q [] []"
    by (rule SpscQueue_init [of 3 "0 :: nat"]) auto
  from spsc_push_run [OF q(2), of 5] obtain s where s: "spsc_reach q s" "ss_pushed s = [5]" by blast
  with spsc_fifo [of 3 "0 :: nat" q s] q show ?thesis by auto
qed

end
