(* ===== verification/Mlt_Global.thy ===== *)
theory Mlt_Global
  imports Prelude Complex_Main
begin

text \<open>
  Process-wide configuration: \<open>MLTGlobal\<close> (\<open>src/src/mlt/mlt_global.h\<close>, \<open>mlt_global.cc\<close>) and the
  environment access of \<open>src/src/mlt/include/prism/utils.h\<close>.

  The getters read an environment variable on first use and cache the value, with 0 as the mark of
  an uncached field; each is a function from the configuration to the value and the updated
  configuration. The environment is a parameter. Addresses of peers (\<open>SockAddr\<close>) are an abstract
  type, \<open>None\<close> standing for a default-constructed one.
\<close>

section \<open>Environment\<close>

type_synonym env = "string \<Rightarrow> string option"

text \<open>\<open>atoi\<close>: leading white space, an optional sign, decimal digits; the value is clamped to
  \<open>long\<close> and converted to \<open>int\<close>.\<close>

definition is_space :: "char \<Rightarrow> bool" where
  "is_space c \<longleftrightarrow> c = CHR '' '' \<or> (9 \<le> (of_char c :: nat) \<and> (of_char c :: nat) \<le> 13)"

definition is_digit :: "char \<Rightarrow> bool" where
  "is_digit c \<longleftrightarrow> 48 \<le> (of_char c :: nat) \<and> (of_char c :: nat) \<le> 57"

fun digits_val :: "nat \<Rightarrow> string \<Rightarrow> nat" where
  "digits_val acc [] = acc"
| "digits_val acc (c # cs) = (if is_digit c then digits_val (10 * acc + (of_char c - 48)) cs else acc)"

definition clamp_long :: "int \<Rightarrow> int" where
  "clamp_long x = max (- (2 ^ 63)) (min (2 ^ 63 - 1) x)"

definition atoi :: "string \<Rightarrow> int" where
  "atoi s =
     (let t = dropWhile is_space s in
      i32 (clamp_long
        (case t of
           [] \<Rightarrow> 0
         | c # cs \<Rightarrow> if c = CHR ''-'' then - int (digits_val 0 cs)
                    else if c = CHR ''+'' then int (digits_val 0 cs)
                    else int (digits_val 0 t))))"

definition GetEnvOrDefault_int :: "env \<Rightarrow> string \<Rightarrow> int \<Rightarrow> int" where
  "GetEnvOrDefault_int env name default_value =
     (case env name of None \<Rightarrow> default_value | Some value \<Rightarrow> atoi value)"

section \<open>Configuration\<close>

record 'addr mlt_global =
  id_addr :: "'addr option list"
  model_name :: string
  mtu :: int
  num_queues :: int
  num_layers :: int
  bdp :: int
  init_send_window :: int
  init_send_rate :: rat
  rate_monitor_interval_us :: nat
  conn_backlog_size :: nat

text \<open>The static instance is zero-initialised.\<close>

definition mlt_global_inst :: "'addr mlt_global" where
  "mlt_global_inst = \<lparr>id_addr = [], model_name = [], mtu = 0, num_queues = 0, num_layers = 0, bdp = 0,
     init_send_window = 0, init_send_rate = 0, rate_monitor_interval_us = 0, conn_backlog_size = 0\<rparr>"

definition MLTGlobal_Init :: "'addr mlt_global \<Rightarrow> 'addr mlt_global" where
  "MLTGlobal_Init g = g\<lparr>model_name := ''resnet50'', num_layers := 228\<rparr>"

definition AddCommIdAddr :: "'addr mlt_global \<Rightarrow> int \<Rightarrow> 'addr \<Rightarrow> 'addr mlt_global res" where
  "AddCommIdAddr g comm_id a =
     (let ids = (if comm_id \<ge> int (length (id_addr g))
                 then id_addr g @ replicate (nat (comm_id + 1) - length (id_addr g)) None
                 else id_addr g)
      in if comm_id < 0 then Inl (Undefined_Behaviour ''id_addr[]'')
         else Inr (g\<lparr>id_addr := ids[nat comm_id := Some a]\<rparr>))"

definition AddrFromCommId :: "'addr mlt_global \<Rightarrow> int \<Rightarrow> 'addr option res" where
  "AddrFromCommId g comm_id =
     (if 0 \<le> comm_id \<and> nat comm_id < length (id_addr g) then Inr (id_addr g ! nat comm_id)
      else Inl (Fatal ''std::out_of_range''))"

definition Mtu :: "env \<Rightarrow> 'addr mlt_global \<Rightarrow> int \<times> 'addr mlt_global" where
  "Mtu env g =
     (let g' = (if mtu g = 0 then g\<lparr>mtu := GetEnvOrDefault_int env ''MLT_MTU'' 1500\<rparr> else g)
      in (mtu g', g'))"

definition MaxSegment :: "env \<Rightarrow> 'addr mlt_global \<Rightarrow> int \<times> 'addr mlt_global" where
  "MaxSegment env g = (let (m, g') = Mtu env g in (m - 28, g'))"

definition NumQueues :: "env \<Rightarrow> 'addr mlt_global \<Rightarrow> int \<times> 'addr mlt_global" where
  "NumQueues env g =
     (let g' = (if num_queues g = 0 then g\<lparr>num_queues := GetEnvOrDefault_int env ''MLT_NUM_QUEUES'' 8\<rparr> else g)
      in (num_queues g', g'))"

definition Bdp :: "env \<Rightarrow> 'addr mlt_global \<Rightarrow> int \<times> 'addr mlt_global" where
  "Bdp env g =
     (let g' = (if bdp g = 0 then g\<lparr>bdp := GetEnvOrDefault_int env ''MLT_BDP'' (400 * 1024)\<rparr> else g)
      in (bdp g', g'))"

text \<open>\<open>Bdp() * 1e4\<close> is a \<open>double\<close> (exact at this size); its conversion to \<open>int\<close> is undefined
  when the value does not fit.\<close>

definition InitialSendingWindow :: "env \<Rightarrow> 'addr mlt_global \<Rightarrow> (int \<times> 'addr mlt_global) res" where
  "InitialSendingWindow env g =
     (if init_send_window g = 0 then
        let w = GetEnvOrDefault_int env ''MLT_INIT_WINDOW'' 0 in
        if w = 0 then
          let (b, g') = Bdp env g in
          if - (2 ^ 31) \<le> b * 10000 \<and> b * 10000 < 2 ^ 31
          then Inr (b * 10000, g'\<lparr>init_send_window := b * 10000\<rparr>)
          else Inl (Undefined_Behaviour ''double to int'')
        else Inr (w, g\<lparr>init_send_window := w\<rparr>)
      else Inr (init_send_window g, g))"

text \<open>The value of \<open>MLT_INIT_RATE\<close>, a \<open>double\<close> read with \<open>atof\<close> (0 when unset), is an argument.\<close>

definition InitialSendingRate :: "rat \<Rightarrow> env \<Rightarrow> 'addr mlt_global \<Rightarrow> rat \<times> 'addr mlt_global" where
  "InitialSendingRate env_rate env g =
     (if init_send_rate g = 0 then
        (if env_rate = 0
         then let (b, g') = Bdp env g in (of_int b, g'\<lparr>init_send_rate := of_int b\<rparr>)
         else (env_rate, g\<lparr>init_send_rate := env_rate\<rparr>))
      else (init_send_rate g, g))"

definition RateMonitorIntervalUs :: "env \<Rightarrow> 'addr mlt_global \<Rightarrow> nat \<times> 'addr mlt_global" where
  "RateMonitorIntervalUs env g =
     (let g' = (if rate_monitor_interval_us g = 0
                then g\<lparr>rate_monitor_interval_us :=
                         u64_of_int (GetEnvOrDefault_int env ''MLT_RATE_MONITOR_INTERVAL_US'' 100)\<rparr>
                else g)
      in (rate_monitor_interval_us g', g'))"

definition ConnectionBacklogSize :: "env \<Rightarrow> 'addr mlt_global \<Rightarrow> nat \<times> 'addr mlt_global" where
  "ConnectionBacklogSize env g =
     (let g' = (if conn_backlog_size g = 0
                then g\<lparr>conn_backlog_size :=
                         u64_of_int (GetEnvOrDefault_int env ''MLT_CONN_BACKLOG_SIZE'' 1048576)\<rparr>
                else g)
      in (conn_backlog_size g', g'))"

section \<open>Lemmas\<close>

text \<open>A second read returns the cached value and changes nothing.\<close>

lemma Mtu_cached: "Mtu env g = (v, g') \<Longrightarrow> Mtu env g' = (v, g')"
  by (auto simp: Mtu_def Let_def split: if_splits)

lemma MaxSegment_cached: "MaxSegment env g = (v, g') \<Longrightarrow> MaxSegment env g' = (v, g')"
  using Mtu_cached by (force simp: MaxSegment_def split: prod.splits)

lemma MaxSegment_default: "env ''MLT_MTU'' = None \<Longrightarrow> fst (MaxSegment env mlt_global_inst) = 1472"
  by (simp add: MaxSegment_def Mtu_def mlt_global_inst_def GetEnvOrDefault_int_def)

lemma AddrFromCommId_same:
  "AddCommIdAddr g comm_id a = Inr g' \<Longrightarrow> AddrFromCommId g' comm_id = Inr (Some a)"
  by (auto simp: AddCommIdAddr_def AddrFromCommId_def Let_def split: if_splits)

lemma AddrFromCommId_other:
  assumes "AddCommIdAddr g comm_id a = Inr g'" and "c \<noteq> comm_id" and "AddrFromCommId g c = Inr x"
  shows "AddrFromCommId g' c = Inr x"
  using assms by (auto simp: AddCommIdAddr_def AddrFromCommId_def Let_def nth_append split: if_splits)

end
