(* ===== verification/Grad_Packet.thy ===== *)
theory Grad_Packet
  imports Prelude
begin

text \<open>
  The gradient packet (\<open>src/src/mlt/grad_packet.h\<close>) and its byte representation.

  \<open>GradMessage\<close> is a packed struct of 28 bytes: a wire header of \<open>kGradPacketHeader\<close> = 20 bytes,
  and the pointer \<open>grad_ptr\<close>, which is only meaningful inside a process. On the wire the header is
  followed by the gradients, so in a receive buffer \<open>grad_ptr\<close> and the first 8 bytes of the
  gradients occupy the same memory.
\<close>

record grad_packet =
  gp_msg_id :: nat
  gp_offset :: nat
  gp_seq :: nat
  gp_len :: nat
  gp_dst_comm_id :: nat
  gp_src_comm_id :: nat
  gp_tos :: nat
  gp_is_last :: nat
  gp_grad_ptr :: nat

definition kGradPacketHeader :: nat where
  "kGradPacketHeader = 20"

definition sizeof_GradPacket :: nat where
  "sizeof_GradPacket = 28"

text \<open>The fields fit their types.\<close>

definition wf_packet :: "grad_packet \<Rightarrow> bool" where
  "wf_packet p \<longleftrightarrow> gp_msg_id p < 2 ^ 32 \<and> gp_offset p < 2 ^ 32 \<and> gp_seq p < 2 ^ 32 \<and> gp_len p < 2 ^ 16
     \<and> gp_dst_comm_id p < 2 ^ 16 \<and> gp_src_comm_id p < 2 ^ 16 \<and> gp_tos p < 2 ^ 8 \<and> gp_is_last p < 2 ^ 8
     \<and> gp_grad_ptr p < 2 ^ 64"

definition header_bytes :: "grad_packet \<Rightarrow> byte list" where
  "header_bytes p =
     le_bytes 4 (gp_msg_id p) @ le_bytes 4 (gp_offset p) @ le_bytes 4 (gp_seq p) @ le_bytes 2 (gp_len p)
     @ le_bytes 2 (gp_dst_comm_id p) @ le_bytes 2 (gp_src_comm_id p) @ le_bytes 1 (gp_tos p)
     @ le_bytes 1 (gp_is_last p)"

definition packet_bytes :: "grad_packet \<Rightarrow> byte list" where
  "packet_bytes p = header_bytes p @ le_bytes 8 (gp_grad_ptr p)"

definition packet_of_bytes :: "byte list \<Rightarrow> grad_packet" where
  "packet_of_bytes bs =
     \<lparr>gp_msg_id = field_at bs 0 4, gp_offset = field_at bs 4 4, gp_seq = field_at bs 8 4,
      gp_len = field_at bs 12 2, gp_dst_comm_id = field_at bs 14 2, gp_src_comm_id = field_at bs 16 2,
      gp_tos = field_at bs 18 1, gp_is_last = field_at bs 19 1, gp_grad_ptr = field_at bs 20 8\<rparr>"

text \<open>A \<open>GradPacket*\<close> into memory.\<close>

definition load_packet :: "mem \<Rightarrow> nat \<Rightarrow> grad_packet" where
  "load_packet m a = packet_of_bytes (load_bytes m a sizeof_GradPacket)"

definition GetGradientPtr :: "grad_packet \<Rightarrow> nat" where
  "GetGradientPtr p = gp_grad_ptr p"

text \<open>\<open>pkt.len - kGradPacketHeader\<close> is an \<open>int\<close>, converted to \<open>size_t\<close> by \<open>% sizeof(T)\<close>; the
  quotient is converted to \<open>int\<close>.\<close>

definition GetNumGradients :: "nat \<Rightarrow> grad_packet \<Rightarrow> int res" where
  "GetNumGradients sizeof_T p =
     (let n = u64_of_int (int (gp_len p) - int kGradPacketHeader) in
      rbind (check (n mod sizeof_T = 0) ''(pkt.len - kGradPacketHeader) % sizeof(T) == 0'')
        (\<lambda>_. Inr (i32 (int (n div sizeof_T)))))"

section \<open>Round trip\<close>

lemma length_header_bytes [simp]: "length (header_bytes p) = kGradPacketHeader"
  by (simp add: header_bytes_def kGradPacketHeader_def)

lemma length_packet_bytes [simp]: "length (packet_bytes p) = sizeof_GradPacket"
  by (simp add: packet_bytes_def sizeof_GradPacket_def kGradPacketHeader_def)

text \<open>The header fields read back from a buffer that starts with a packet's header; \<open>grad_ptr\<close> is
  whatever the next 8 bytes are.\<close>

lemma packet_of_header:
  assumes "wf_packet p"
  shows "packet_of_bytes (header_bytes p @ rest) = p\<lparr>gp_grad_ptr := le_val (take 8 rest)\<rparr>"
  using assms
  by (cases p)
    (simp add: packet_of_bytes_def header_bytes_def field_at_simps wf_packet_def unat_byte_of_nat,
      simp add: field_at_def unat_byte_of_nat)

lemma packet_of_packet_bytes:
  assumes "wf_packet p"
  shows "packet_of_bytes (packet_bytes p @ rest) = p"
  using packet_of_header [OF assms, of "le_bytes 8 (gp_grad_ptr p) @ rest"] assms
  by (simp add: packet_bytes_def le_val_le_bytes wf_packet_def)

lemma load_bytes_add: "load_bytes m a (k + n) = load_bytes m a k @ load_bytes m (a + k) n"
  by (rule nth_equalityI) (auto simp: load_bytes_nth nth_append)

lemma load_packet_header:
  assumes "wf_packet p" and "load_bytes m a kGradPacketHeader = header_bytes p"
  shows "load_packet m a = p\<lparr>gp_grad_ptr := le_val (load_bytes m (a + kGradPacketHeader) 8)\<rparr>"
proof -
  have "load_bytes m a sizeof_GradPacket = header_bytes p @ load_bytes m (a + kGradPacketHeader) 8"
    using load_bytes_add [of m a kGradPacketHeader 8] assms(2)
    by (simp add: sizeof_GradPacket_def kGradPacketHeader_def)
  then show ?thesis
    using packet_of_header [OF assms(1)] by (simp add: load_packet_def)
qed

end
