(* ===== verification/Udp_Endpoint.thy ===== *)
theory Udp_Endpoint
  imports Mlt_Global Grad_Packet
begin

text \<open>
  \<open>UdpEndpoint\<close> (\<open>src/src/mlt/udp_endpoint.h\<close>, \<open>udp_endpoint.cc\<close>): one UDP socket per type-of-service
  value, with the queue of packets to send.

  The socket is a parameter, the list of the outcomes of the successive \<open>SendMsg\<close> calls; a call
  past its end would block. A datagram is the 20-byte header followed by the gradients, read from
  memory when it is sent.
\<close>

record udp_endpoint =
  ue_tos :: int
  ue_tx_queue :: "grad_packet list"

definition UdpEndpoint :: "int \<Rightarrow> udp_endpoint" where
  "UdpEndpoint tos = \<lparr>ue_tos = tos, ue_tx_queue = []\<rparr>"

datatype send_outcome = Sent nat | Would_Block | Send_Error

definition datagram :: "mem \<Rightarrow> grad_packet \<Rightarrow> byte list" where
  "datagram m pkt = header_bytes pkt @ load_bytes m (gp_grad_ptr pkt) (u64_of_int (int (gp_len pkt) - int kGradPacketHeader))"

text \<open>The loop of \<open>OnSendReady\<close>: the bytes counted, the datagrams handed to the socket with their
  destinations, and the queue left. A packet is popped before it is sent.\<close>

fun send_loop :: "'addr mlt_global \<Rightarrow> mem \<Rightarrow> send_outcome list \<Rightarrow> grad_packet list
    \<Rightarrow> (nat \<times> ('addr option \<times> byte list) list \<times> grad_packet list) res" where
  "send_loop g m os [] = Inr (0, [], [])"
| "send_loop g m os (pkt # q) =
     rbind (AddrFromCommId g (int (gp_dst_comm_id pkt))) (\<lambda>addr.
       case os of
         [] \<Rightarrow> Inr (0, [], q)
       | Would_Block # os' \<Rightarrow> Inr (0, [], q)
       | Send_Error # os' \<Rightarrow> Inl (Check_Failed ''sock_.LastErrorWouldBlock()'')
       | Sent nbytes # os' \<Rightarrow>
           rbind (check (nbytes = gp_len pkt) ''nbytes == pkt.len'') (\<lambda>_.
             rbind (send_loop g m os' q) (\<lambda>(total, out, q').
               Inr (total + nbytes, (addr, datagram m pkt) # out, q'))))"

definition ue_OnSendReady :: "'addr mlt_global \<Rightarrow> mem \<Rightarrow> send_outcome list \<Rightarrow> udp_endpoint
    \<Rightarrow> (nat \<times> ('addr option \<times> byte list) list \<times> udp_endpoint) res" where
  "ue_OnSendReady g m os e =
     rbind (send_loop g m os (ue_tx_queue e)) (\<lambda>(total, out, q). Inr (total, out, e\<lparr>ue_tx_queue := q\<rparr>))"

text \<open>When the socket accepts the first \<open>k\<close> packets whole and then would block, these are sent in
  queue order and the next one is lost.\<close>

lemma send_loop_prefix:
  assumes "k \<le> length q" and "\<forall>p \<in> set q. \<exists>a. AddrFromCommId g (int (gp_dst_comm_id p)) = Inr a"
    and "os = map (Sent \<circ> gp_len) (take k q) @ Would_Block # os'"
  shows "\<exists>addrs. send_loop g m os q =
    Inr (sum_list (map gp_len (take k q)), zip addrs (map (datagram m) (take k q)), drop (Suc k) q)
    \<and> length addrs = k"
  using assms
proof (induction q arbitrary: k os)
  case (Cons p q)
  then obtain a where a: "AddrFromCommId g (int (gp_dst_comm_id p)) = Inr a" by auto
  show ?case
  proof (cases k)
    case 0
    with Cons.prems a show ?thesis by simp
  next
    case (Suc j)
    with Cons.prems(3) obtain os1 where os: "os = Sent (gp_len p) # os1"
      "os1 = map (Sent \<circ> gp_len) (take j q) @ Would_Block # os'" by simp
    from Cons.IH [of j os1] Cons.prems Suc os(2) obtain addrs where
      "send_loop g m os1 q = Inr (sum_list (map gp_len (take j q)), zip addrs (map (datagram m) (take j q)),
         drop (Suc j) q)" "length addrs = j" by auto
    with Suc os(1) a show ?thesis by (intro exI [of _ "a # addrs"]) simp
  qed
qed simp

end
