(* ===== verification/Buffer.thy ===== *)
theory Buffer
  imports Prelude
begin

text \<open>
  \<open>Buffer\<close> (\<open>src/src/mlt/buffer.h\<close>): a region with a valid length and a count of the bytes already
  handled, moved through the control channel.

  \<open>bf_data\<close> is the content of the region at \<open>ptr_\<close>; fresh memory from \<open>malloc\<close> is taken to be
  zero bytes. Ownership of the region does not affect its content and is only recorded.
\<close>

record buffer =
  bf_data :: "byte list"
  bf_size :: nat
  bf_msg_length :: nat
  bf_bytes_handled :: nat
  bf_is_owner :: bool

definition Buffer_default :: buffer where
  "Buffer_default = \<lparr>bf_data = [], bf_size = 0, bf_msg_length = 0, bf_bytes_handled = 0, bf_is_owner = False\<rparr>"

definition Buffer_alloc :: "nat \<Rightarrow> buffer" where
  "Buffer_alloc n =
     \<lparr>bf_data = replicate n 0, bf_size = n, bf_msg_length = 0, bf_bytes_handled = 0, bf_is_owner = True\<rparr>"

definition Buffer_view :: "byte list \<Rightarrow> nat \<Rightarrow> nat \<Rightarrow> buffer" where
  "Buffer_view region n msg_length =
     \<lparr>bf_data = region, bf_size = n, bf_msg_length = u32 msg_length, bf_bytes_handled = 0,
      bf_is_owner = False\<rparr>"

definition Buffer_copy :: "buffer \<Rightarrow> buffer" where
  "Buffer_copy b = Buffer_view (bf_data b) (bf_size b) (bf_msg_length b)"

definition GetRemainBuffer :: "buffer \<Rightarrow> byte list" where
  "GetRemainBuffer b = drop (bf_bytes_handled b) (bf_data b)"

definition GetRemainSize :: "buffer \<Rightarrow> nat" where
  "GetRemainSize b = usub32 (bf_msg_length b) (bf_bytes_handled b)"

definition IsClear :: "buffer \<Rightarrow> bool" where
  "IsClear b \<longleftrightarrow> bf_msg_length b = bf_bytes_handled b"

definition MarkHandled :: "buffer \<Rightarrow> nat \<Rightarrow> buffer" where
  "MarkHandled b nbytes = b\<lparr>bf_bytes_handled := u32 (bf_bytes_handled b + nbytes)\<rparr>"

definition set_msg_length :: "buffer \<Rightarrow> nat \<Rightarrow> buffer" where
  "set_msg_length b n = b\<lparr>bf_msg_length := u32 n\<rparr>"

text \<open>Writing bytes into the region at an offset; out of range it is undefined behaviour.\<close>

definition put_bytes :: "buffer \<Rightarrow> nat \<Rightarrow> byte list \<Rightarrow> buffer res" where
  "put_bytes b off bs =
     (if off + length bs \<le> length (bf_data b)
      then Inr (b\<lparr>bf_data := take off (bf_data b) @ bs @ drop (off + length bs) (bf_data b)\<rparr>)
      else Inl (Undefined_Behaviour ''memcpy''))"

definition CopyFrom :: "buffer \<Rightarrow> buffer \<Rightarrow> buffer res" where
  "CopyFrom b other =
     rbind (check (bf_size b \<ge> bf_msg_length other) ''size_ >= other->msg_length_'')
       (\<lambda>_. if length (bf_data other) < bf_msg_length other then Inl (Undefined_Behaviour ''memcpy'')
            else rbind (put_bytes b 0 (take (bf_msg_length other) (bf_data other)))
                   (\<lambda>b'. Inr (b'\<lparr>bf_msg_length := bf_msg_length other\<rparr>)))"

text \<open>The invariant of a buffer in transit.\<close>

definition wf_buffer :: "buffer \<Rightarrow> bool" where
  "wf_buffer b \<longleftrightarrow> length (bf_data b) = bf_size b \<and> bf_bytes_handled b \<le> bf_msg_length b
     \<and> bf_msg_length b \<le> bf_size b \<and> bf_msg_length b < 2 ^ 32"

text \<open>The bytes still to be handled.\<close>

definition pending :: "buffer \<Rightarrow> byte list" where
  "pending b = take (GetRemainSize b) (GetRemainBuffer b)"

lemma wf_alloc: "n < 2 ^ 32 \<Longrightarrow> wf_buffer (set_msg_length (Buffer_alloc n) n)"
  by (simp add: wf_buffer_def set_msg_length_def Buffer_alloc_def cast_simps)

lemma GetRemainSize_eq: "wf_buffer b \<Longrightarrow> GetRemainSize b = bf_msg_length b - bf_bytes_handled b"
  by (simp add: wf_buffer_def GetRemainSize_def cast_simps)

lemma length_pending: "wf_buffer b \<Longrightarrow> length (pending b) = GetRemainSize b"
  by (auto simp: pending_def GetRemainSize_eq GetRemainBuffer_def wf_buffer_def min_def)

lemma IsClear_iff: "wf_buffer b \<Longrightarrow> IsClear b \<longleftrightarrow> GetRemainSize b = 0"
  by (auto simp: IsClear_def GetRemainSize_eq wf_buffer_def)

lemma IsClear_pending: "wf_buffer b \<Longrightarrow> IsClear b \<longleftrightarrow> pending b = []"
  using length_pending [of b] by (auto simp: IsClear_iff)

lemma MarkHandled_ok:
  assumes "wf_buffer b" and "k \<le> GetRemainSize b"
  shows "wf_buffer (MarkHandled b k)" and "pending (MarkHandled b k) = drop k (pending b)"
    and "bf_data (MarkHandled b k) = bf_data b" and "bf_msg_length (MarkHandled b k) = bf_msg_length b"
    and "bf_bytes_handled (MarkHandled b k) = bf_bytes_handled b + k"
proof -
  have k: "bf_bytes_handled b + k \<le> bf_msg_length b" "bf_bytes_handled b + k < 4294967296"
    using assms by (auto simp: GetRemainSize_eq wf_buffer_def)
  then show w: "wf_buffer (MarkHandled b k)"
    using assms(1) by (auto simp: wf_buffer_def MarkHandled_def cast_simps)
  show "bf_data (MarkHandled b k) = bf_data b" "bf_msg_length (MarkHandled b k) = bf_msg_length b"
    by (simp_all add: MarkHandled_def)
  show h: "bf_bytes_handled (MarkHandled b k) = bf_bytes_handled b + k"
    using k by (simp add: MarkHandled_def cast_simps)
  show "pending (MarkHandled b k) = drop k (pending b)"
    unfolding pending_def GetRemainSize_eq [OF assms(1)] GetRemainSize_eq [OF w]
    using k by (simp add: GetRemainBuffer_def MarkHandled_def drop_take add.commute cast_simps)
qed

lemma put_bytes_ok:
  assumes "off + length bs \<le> length (bf_data b)"
  obtains b' where "put_bytes b off bs = Inr b'" and "length (bf_data b') = length (bf_data b)"
    and "bf_size b' = bf_size b" and "bf_msg_length b' = bf_msg_length b"
    and "bf_bytes_handled b' = bf_bytes_handled b"
    and "bf_data b' = take off (bf_data b) @ bs @ drop (off + length bs) (bf_data b)"
  using assms by (simp add: put_bytes_def)

end
