(* ===== verification/Lt_Message.thy ===== *)
theory Lt_Message
  imports Tree_Block_Mgr Grad_Packet Buffer
begin

text \<open>
  Loss-tolerant messages and control signals (\<open>src/src/mlt/ltmessage.h\<close>).

  \<open>LtMessageExt\<close> is the bookkeeping of one message on either side: on the receiver, which packets
  have arrived (\<open>block_mgr\<close>) and how many bytes (\<open>bytes_received\<close>, in a union with the sender's
  \<open>bytes_sent\<close>, hence the single field \<open>lx_bytes\<close>). \<open>CopyGradients\<close> is the receive path: it moves
  the gradients of a new packet to their offset in the message and ignores duplicates.

  The signals are structs with a type tag; their byte layouts are \<open>signal_bytes\<close>, and
  \<open>decode_signal\<close> is the dispatch on \<open>GetTypeFromBuffer\<close> with the reads through \<open>GetInHeader\<close>.
  A \<open>float\<close> in a signal is its 32-bit pattern.
\<close>

section \<open>Flow identifiers\<close>

definition EncodeFlow :: "int \<Rightarrow> int \<Rightarrow> nat" where
  "EncodeFlow dest msg_id = u64 (u64 (u64_of_int dest * 2 ^ 32) + u64_of_int msg_id)"

definition DecodeFlow :: "nat \<Rightarrow> int \<times> int" where
  "DecodeFlow flow_id = (i32 (int (flow_id div 2 ^ 32)), i32 (int (flow_id mod 2 ^ 32)))"

lemma EncodeFlow_int: "int (EncodeFlow dest msg_id) = (dest * 2 ^ 32 + msg_id) mod 2 ^ 64"
proof -
  have "int (EncodeFlow dest msg_id)
      = ((dest mod 2 ^ 64 * 2 ^ 32) mod 2 ^ 64 + msg_id mod 2 ^ 64) mod 2 ^ 64"
    by (simp add: EncodeFlow_def u64_def u64_of_int_def zmod_int)
  then show ?thesis by (simp add: mod_simps)
qed

lemma DecodeFlow_EncodeFlow:
  assumes "- (2 ^ 31) \<le> dest" and "dest < 2 ^ 31" and "- (2 ^ 31) \<le> msg_id" and "msg_id < 2 ^ 31"
  shows "DecodeFlow (EncodeFlow dest msg_id) = (if 0 \<le> msg_id then (dest, msg_id) else (i32 (dest - 1), msg_id))"
proof -
  let ?x = "dest * 2 ^ 32 + msg_id"
  have lo: "int (EncodeFlow dest msg_id mod 2 ^ 32) = ?x mod 2 ^ 32"
    unfolding zmod_int EncodeFlow_int by (simp add: mod_mod_cancel)
  have "?x mod 2 ^ 64 div 2 ^ 32 = ?x div 2 ^ 32 mod 2 ^ 32"
    using zmod_zmult2_eq [of "2 ^ 32" ?x "2 ^ 32"] by simp
  then have hi: "int (EncodeFlow dest msg_id div 2 ^ 32) = ?x div 2 ^ 32 mod 2 ^ 32"
    unfolding zdiv_int EncodeFlow_int by simp
  have "i32 (?x mod 2 ^ 32) = i32 msg_id"
    unfolding i32_mod by (simp add: i32_def add.assoc)
  with assms have "i32 (?x mod 2 ^ 32) = msg_id" by (simp add: cast_simps)
  moreover have "?x div 2 ^ 32 = (if 0 \<le> msg_id then dest else dest - 1)"
    using assms by (auto simp: div_pos_pos_trivial div_pos_neg_trivial)
  ultimately show ?thesis
    using assms unfolding DecodeFlow_def lo hi i32_mod by (auto simp: cast_simps)
qed

section \<open>Messages\<close>

record lt_message =
  lm_msg_id :: nat
  lm_buf :: nat
  lm_size :: nat

record lt_message_ext =
  lx_msg_id :: nat
  lx_buf :: nat
  lx_size :: nat
  lx_bytes :: nat
  lx_bound :: nat
  lx_stopped :: bool
  lx_block_mgr :: tree_mgr

definition LtMessageExt :: "lt_message \<Rightarrow> lt_message_ext" where
  "LtMessageExt ltmsg =
     \<lparr>lx_msg_id = lm_msg_id ltmsg, lx_buf = lm_buf ltmsg, lx_size = lm_size ltmsg, lx_bytes = 0,
      lx_bound = lm_size ltmsg, lx_stopped = False, lx_block_mgr = TreeBlockMgr 0\<rparr>"

definition CopyGradients :: "mem \<Rightarrow> lt_message_ext \<Rightarrow> grad_packet \<Rightarrow> (nat \<times> mem \<times> lt_message_ext) res" where
  "CopyGradients m x pkt =
     (let seq = gp_seq pkt; bm0 = lx_block_mgr x in
      rbind (if seq \<ge> tm_size bm0 then tree_Resize bm0 (u32 (seq + 1)) else Inr bm0) (\<lambda>bm1.
      rbind (tree_Check bm1 seq) (\<lambda>taken.
        if taken then Inr (0, m, x\<lparr>lx_block_mgr := bm1\<rparr>)
        else
          rbind (tree_Take bm1 seq) (\<lambda>bm2.
            let grad_bytes = u32_of_int (int (gp_len pkt) - int kGradPacketHeader) in
            rbind (check (u32 (gp_offset pkt + grad_bytes) \<le> lx_size x) ''pkt->offset + grad_bytes <= size'')
              (\<lambda>_. Inr (grad_bytes,
                        memcpy m (lx_buf x + gp_offset pkt) (GetGradientPtr pkt) grad_bytes,
                        x\<lparr>lx_block_mgr := bm2, lx_bytes := u64 (lx_bytes x + grad_bytes)\<rparr>))))))"

definition FinishReceiving :: "lt_message_ext \<Rightarrow> bool" where
  "FinishReceiving x \<longleftrightarrow> lx_bytes x \<ge> lx_bound x"

lemma CopyGradients_admit:
  "CopyGradients m x pkt =
     rbind (admit tm_size tree_Resize tree_Check tree_Take (lx_block_mgr x) (gp_seq pkt)) (\<lambda>(fresh, bm).
       if \<not> fresh then Inr (0, m, x\<lparr>lx_block_mgr := bm\<rparr>)
       else let grad_bytes = u32_of_int (int (gp_len pkt) - int kGradPacketHeader) in
            rbind (check (u32 (gp_offset pkt + grad_bytes) \<le> lx_size x) ''pkt->offset + grad_bytes <= size'')
              (\<lambda>_. Inr (grad_bytes,
                        memcpy m (lx_buf x + gp_offset pkt) (GetGradientPtr pkt) grad_bytes,
                        x\<lparr>lx_block_mgr := bm, lx_bytes := u64 (lx_bytes x + grad_bytes)\<rparr>)))"
  unfolding CopyGradients_def admit_def Let_def rbind_assoc
  by (intro rbind_cong refl) (simp add: rbind_assoc split: if_splits)

lemma u32_of_int_diff: "b \<le> a \<Longrightarrow> a < 4294967296 \<Longrightarrow> u32_of_int (int a - int b) = a - b"
  by (simp add: u32_of_int_def of_nat_diff [symmetric] del: of_nat_diff)

lemma CopyGradients_ok:
  assumes "tree_invar (lx_block_mgr x)" and "gp_seq pkt < 2 ^ 32 - 1" and "kGradPacketHeader \<le> gp_len pkt"
    and "gp_len pkt < 2 ^ 16" and "gp_offset pkt + (gp_len pkt - kGradPacketHeader) \<le> lx_size x"
    and "gp_offset pkt + (gp_len pkt - kGradPacketHeader) < 2 ^ 32"
    and "lx_bytes x + (gp_len pkt - kGradPacketHeader) < 2 ^ 64"
  shows "\<exists>bm. tree_invar bm \<and> tm_size bm = max (tm_size (lx_block_mgr x)) (Suc (gp_seq pkt))
    \<and> tree_taken bm = insert (gp_seq pkt) (tree_taken (lx_block_mgr x))
    \<and> CopyGradients m x pkt =
        (if gp_seq pkt \<in> tree_taken (lx_block_mgr x) then Inr (0, m, x\<lparr>lx_block_mgr := bm\<rparr>)
         else Inr (gp_len pkt - kGradPacketHeader,
                   memcpy m (lx_buf x + gp_offset pkt) (gp_grad_ptr pkt) (gp_len pkt - kGradPacketHeader),
                   x\<lparr>lx_block_mgr := bm, lx_bytes := lx_bytes x + (gp_len pkt - kGradPacketHeader)\<rparr>))"
proof -
  have gb: "u32_of_int (int (gp_len pkt) - int kGradPacketHeader) = gp_len pkt - kGradPacketHeader"
    using assms(3,4) by (simp add: u32_of_int_diff)
  from tree.admit_ok [OF assms(1,2)] obtain bm where bm:
    "admit tm_size tree_Resize tree_Check tree_Take (lx_block_mgr x) (gp_seq pkt)
       = Inr (gp_seq pkt \<notin> tree_taken (lx_block_mgr x), bm)"
    "tree_invar bm" "tm_size bm = max (tm_size (lx_block_mgr x)) (Suc (gp_seq pkt))"
    "tree_taken bm = insert (gp_seq pkt) (tree_taken (lx_block_mgr x))" by blast
  then show ?thesis
    using assms(5-7)
    by (intro exI [of _ bm]) (simp add: CopyGradients_admit gb GetGradientPtr_def cast_simps Let_def)
qed

section \<open>Signals\<close>

datatype signal_type =
  kUserData | kFlowStart | kRateAdjustment | kFlowFinish | kRetransmitRequest | kStopRequest | kStopConfirm

definition signal_types :: "signal_type list" where
  "signal_types = [kUserData, kFlowStart, kRateAdjustment, kFlowFinish, kRetransmitRequest, kStopRequest,
     kStopConfirm]"

fun signal_code :: "signal_type \<Rightarrow> nat" where
  "signal_code kUserData = 0"
| "signal_code kFlowStart = 1"
| "signal_code kRateAdjustment = 2"
| "signal_code kFlowFinish = 3"
| "signal_code kRetransmitRequest = 4"
| "signal_code kStopRequest = 5"
| "signal_code kStopConfirm = 6"

datatype signal =
  UserData "byte list"
| FlowStart int nat nat
| RateAdjustment nat
| FlowFinish int
| RetransmitRequest int int nat "byte list"
| StopRequest int int nat
| StopConfirm int

fun signal_bytes :: "signal \<Rightarrow> byte list" where
  "signal_bytes (UserData payload) = le_bytes 4 (signal_code kUserData) @ payload"
| "signal_bytes (FlowStart msg_id flow_size max_seq_num) =
     le_bytes 4 (signal_code kFlowStart) @ int_bytes msg_id @ le_bytes 4 flow_size @ le_bytes 4 max_seq_num"
| "signal_bytes (RateAdjustment sending_rate) =
     le_bytes 4 (signal_code kRateAdjustment) @ le_bytes 4 sending_rate"
| "signal_bytes (FlowFinish msg_id) = le_bytes 4 (signal_code kFlowFinish) @ int_bytes msg_id"
| "signal_bytes (RetransmitRequest msg_id comm_id num_blocks blocks) =
     le_bytes 4 (signal_code kRetransmitRequest) @ int_bytes msg_id @ int_bytes comm_id
     @ le_bytes 4 num_blocks @ blocks"
| "signal_bytes (StopRequest msg_id comm_id sending_rate) =
     le_bytes 4 (signal_code kStopRequest) @ int_bytes msg_id @ int_bytes comm_id @ le_bytes 4 sending_rate"
| "signal_bytes (StopConfirm msg_id) = le_bytes 4 (signal_code kStopConfirm) @ int_bytes msg_id"

text \<open>A signal to be sent lies behind a slot for its length.\<close>

definition GetOutBufferSize :: "nat \<Rightarrow> nat" where
  "GetOutBufferSize sizeof_T = sizeof_T + 4"

definition out_buffer :: "signal \<Rightarrow> buffer" where
  "out_buffer sig =
     (let b = Buffer_alloc (GetOutBufferSize (length (signal_bytes sig))) in
      set_msg_length (b\<lparr>bf_data := replicate 4 0 @ signal_bytes sig\<rparr>) (bf_size b))"

definition need :: "nat \<Rightarrow> byte list \<Rightarrow> signal \<Rightarrow> signal res" where
  "need n bs sig = (if n \<le> length bs then Inr sig else Inl (Undefined_Behaviour ''read past the buffer''))"

definition decode_signal :: "byte list \<Rightarrow> signal res" where
  "decode_signal bs =
     (if length bs < 4 then Inl (Undefined_Behaviour ''read past the buffer'')
      else let t = field_at bs 0 4 in
        if t = signal_code kUserData then Inr (UserData (drop 4 bs))
        else if t = signal_code kFlowStart
        then need 16 bs (FlowStart (in_int bs 4) (field_at bs 8 4) (field_at bs 12 4))
        else if t = signal_code kRateAdjustment then need 8 bs (RateAdjustment (field_at bs 4 4))
        else if t = signal_code kFlowFinish then need 8 bs (FlowFinish (in_int bs 4))
        else if t = signal_code kRetransmitRequest
        then need 16 bs (RetransmitRequest (in_int bs 4) (in_int bs 8) (field_at bs 12 4) (drop 16 bs))
        else if t = signal_code kStopRequest
        then need 16 bs (StopRequest (in_int bs 4) (in_int bs 8) (field_at bs 12 4))
        else if t = signal_code kStopConfirm then need 8 bs (StopConfirm (in_int bs 4))
        else Inl (Fatal ''unkown type''))"

fun wf_signal :: "signal \<Rightarrow> bool" where
  "wf_signal (UserData _) = True"
| "wf_signal (FlowStart i a b) = (wf_int i \<and> a < 2 ^ 32 \<and> b < 2 ^ 32)"
| "wf_signal (RateAdjustment r) = (r < 2 ^ 32)"
| "wf_signal (FlowFinish i) = wf_int i"
| "wf_signal (RetransmitRequest i c n _) = (wf_int i \<and> wf_int c \<and> n < 2 ^ 32)"
| "wf_signal (StopRequest i c r) = (wf_int i \<and> wf_int c \<and> r < 2 ^ 32)"
| "wf_signal (StopConfirm i) = wf_int i"

lemma decode_signal_bytes:
  assumes "wf_signal sig"
  shows "decode_signal (signal_bytes sig) = Inr sig"
  using assms
  by (cases sig)
    (simp_all add: decode_signal_def field_at_simps in_int_def in_int_bytes need_def Let_def)

end
