(* ===== verification/Packetizer.thy ===== *)
theory Packetizer
  imports Udp_Endpoint Lt_Message
begin

text \<open>
  \<open>Packetizer\<close> (\<open>src/src/mlt/packetizer.h\<close>, \<open>packetizer.cc\<close>), the routing table of
  \<open>PriorityChannel\<close> that it writes to (\<open>priority_channel.h\<close>, \<open>AddEndpoint\<close>), the default packet
  priority function (\<open>prio_func.h\<close>) and the endpoints \<open>MLTCommunicator::Start\<close> opens.

  The argument \<open>mss\<close> is the value of \<open>MLTGlobal::MaxSegment()\<close>; all arithmetic is that of the
  source (\<open>size_t\<close> with conversions to the packet's field widths). A packet priority function is an
  argument, a function of the packet and of the random numbers it draws in that call, which may
  fail its own \<open>CHECK\<close>; \<open>default_prio\<close> is the one the program has.

  \<open>PartitionOne\<close> cuts the next packet off a message, \<open>PartitionOneBySeq\<close> recomputes a packet from
  its sequence number, \<open>PartitionAndRoute\<close> cuts the whole message. The lemmas show that the
  three produce the same packets up to the type of service, \<open>GetMaxSeqNum\<close> + 1 of them, and that
  their payloads are the message; and for which messages the default priority function succeeds.
\<close>

section \<open>Routing table\<close>

record prio_routes =
  pr_mapping :: "int list"
  pr_endpoints :: "udp_endpoint list"

definition kMaxPrio :: nat where
  "kMaxPrio = 256"

definition prio_routes_init :: prio_routes where
  "prio_routes_init = \<lparr>pr_mapping = replicate kMaxPrio (- 1), pr_endpoints = []\<rparr>"

definition AddEndpoint :: "prio_routes \<Rightarrow> udp_endpoint \<Rightarrow> prio_routes res" where
  "AddEndpoint r e =
     (let tos = ue_tos e in
      rbind (check (tos \<ge> 0 \<and> tos < int kMaxPrio) ''tos >= 0 && tos < kMaxPrio'') (\<lambda>_.
      rbind (check (pr_mapping r ! nat tos = - 1) ''prio_mapping_[tos] == -1'') (\<lambda>_.
        Inr (r\<lparr>pr_mapping := (pr_mapping r)[nat tos := int (length (pr_endpoints r))],
               pr_endpoints := pr_endpoints r @ [e]\<rparr>))))"

definition HasPrio :: "prio_routes \<Rightarrow> int \<Rightarrow> bool" where
  "HasPrio r tos \<longleftrightarrow> 0 \<le> tos \<and> tos < int kMaxPrio \<and> pr_mapping r ! nat tos \<noteq> - 1"

text \<open>The endpoints opened by \<open>MLTCommunicator::Start\<close>: for each priority one with and one without
  the ECN bit.\<close>

definition start_tos :: "int \<Rightarrow> int list" where
  "start_tos num_priorities = concat (map (\<lambda>i. [i * 8 * 4 + 1, i * 8 * 4]) [0..num_priorities - 1])"

definition start_routes :: "int \<Rightarrow> prio_routes res" where
  "start_routes num_priorities = rfold (\<lambda>tos r. AddEndpoint r (UdpEndpoint tos)) (start_tos num_priorities) prio_routes_init"

text \<open>\<open>RandomGenerator::Uniform(a, b)\<close> for integers: a number between \<open>a\<close> and \<open>b\<close> determined by the
  output \<open>raw\<close> of the engine, every one of them being possible.\<close>

definition Uniform :: "nat \<Rightarrow> nat \<Rightarrow> nat \<Rightarrow> nat" where
  "Uniform a b raw = a + raw mod (b - a + 1)"

text \<open>The outputs of the random engine one call of a priority function consumes. A priority function
  is called anew for every packet, also for one that is sent again, so each call has a draw of its
  own.\<close>

type_synonym draw = "nat \<times> nat"
type_synonym prio_func = "draw \<Rightarrow> grad_packet \<Rightarrow> int res"

text \<open>\<open>DefaultPktPrioFunc\<close>, the only priority function of the program.\<close>

definition default_prio :: prio_func where
  "default_prio d pkt =
     rbind (GetNumGradients 4 pkt) (\<lambda>_. Inr (int (or (Uniform 0 7 (fst d) * 8 * 4) (Uniform 0 1 (snd d)))))"

text \<open>\<open>prio_endpoints_[prio_mapping_[pkt.tos]]->tx_queue().push(pkt)\<close>, then the notification; the
  control queue is that of the reliable channel.\<close>

type_synonym ctrl_queue = "(int \<times> buffer) list"

definition RoutePacket :: "prio_routes \<Rightarrow> ctrl_queue \<Rightarrow> grad_packet \<Rightarrow> bool \<Rightarrow> (prio_routes \<times> ctrl_queue) res" where
  "RoutePacket r rc pkt is_finished =
     (let i = pr_mapping r ! gp_tos pkt in
      if i < 0 \<or> length (pr_endpoints r) \<le> nat i then Inl (Undefined_Behaviour ''prio_endpoints_[]'')
      else
        let e = pr_endpoints r ! nat i;
            r' = r\<lparr>pr_endpoints := (pr_endpoints r)[nat i := e\<lparr>ue_tx_queue := ue_tx_queue e @ [pkt]\<rparr>]\<rparr>
        in Inr (r', if is_finished
                    then rc @ [(int (gp_dst_comm_id pkt), out_buffer (FlowFinish (i32 (int (gp_msg_id pkt)))))]
                    else rc))"

section \<open>Cutting a message into packets\<close>

definition seg_bound :: "int \<Rightarrow> nat" where
  "seg_bound mss = u64_of_int (mss - int kGradPacketHeader)"

definition GetMaxSeqNum :: "int \<Rightarrow> nat \<Rightarrow> nat res" where
  "GetMaxSeqNum mss sz =
     (let bound = seg_bound mss in
      if bound = 0 then Inl (Undefined_Behaviour ''division by zero'')
      else Inr (u32 (usub64 (usub64 (u64 (sz + bound)) 1 div bound) 1)))"

definition chunk :: "nat \<Rightarrow> nat \<Rightarrow> nat \<Rightarrow> nat" where
  "chunk sz offset bound = (if usub64 sz offset > bound then bound else usub64 sz offset)"

definition u16_of_int :: "int \<Rightarrow> nat" where
  "u16_of_int x = nat (x mod 2 ^ 16)"

definition u8_of_int :: "int \<Rightarrow> nat" where
  "u8_of_int x = nat (x mod 2 ^ 8)"

text \<open>The assignments to every field but \<open>tos\<close>, which the three functions share.\<close>

definition fill_packet :: "int \<Rightarrow> int \<Rightarrow> grad_packet \<Rightarrow> int \<Rightarrow> nat \<Rightarrow> nat \<Rightarrow> nat \<Rightarrow> nat \<Rightarrow> nat \<Rightarrow> grad_packet" where
  "fill_packet comm_id mss pkt dest msg_id buf sz offset seq =
     (let len = u16 (u64 (chunk sz offset (seg_bound mss) + kGradPacketHeader)) in
      pkt\<lparr>gp_msg_id := msg_id, gp_offset := u32 offset, gp_len := len, gp_seq := seq,
          gp_dst_comm_id := u16_of_int dest, gp_src_comm_id := u16_of_int comm_id,
          gp_is_last := (if usub64 (u64 (offset + len)) kGradPacketHeader = sz then 1 else 0),
          gp_grad_ptr := u64 (buf + offset)\<rparr>)"

text \<open>\<open>accumulated += pkt.len - kGradPacketHeader\<close>\<close>

definition advance :: "nat \<Rightarrow> grad_packet \<Rightarrow> nat" where
  "advance accumulated pkt = u64 (accumulated + u64_of_int (int (gp_len pkt) - int kGradPacketHeader))"

text \<open>\<open>PartitionAndRoute\<close>; \<open>draw seq\<close> is the value of \<open>rand()\<close> for the packet. Each round advances
  by at least one byte when \<open>MaxSegment() > kGradPacketHeader\<close>, so \<open>size\<close> rounds are enough.\<close>

fun partition_loop :: "nat \<Rightarrow> int \<Rightarrow> int \<Rightarrow> (nat \<Rightarrow> nat) \<Rightarrow> int \<Rightarrow> lt_message \<Rightarrow> nat \<Rightarrow> nat
    \<Rightarrow> prio_routes \<times> ctrl_queue \<Rightarrow> (prio_routes \<times> ctrl_queue) res" where
  "partition_loop fuel comm_id mss draw dest msg accumulated seq st =
     (if accumulated < lm_size msg then
        (case fuel of
           0 \<Rightarrow> Inl Out_Of_Fuel
         | Suc fuel' \<Rightarrow>
             let pkt0 = \<lparr>gp_msg_id = 0, gp_offset = 0, gp_seq = 0, gp_len = 0, gp_dst_comm_id = 0,
                         gp_src_comm_id = 0, gp_tos = 0, gp_is_last = 0, gp_grad_ptr = 0\<rparr>;
                 pkt = (fill_packet comm_id mss pkt0 dest (lm_msg_id msg) (lm_buf msg) (lm_size msg)
                          accumulated seq)\<lparr>gp_tos := draw seq mod 256\<rparr>
             in rbind (RoutePacket (fst st) (snd st) pkt (gp_is_last pkt = 1))
                  (partition_loop fuel' comm_id mss draw dest msg (advance accumulated pkt) (u32 (seq + 1))))
      else Inr st)"

definition PartitionAndRoute :: "int \<Rightarrow> int \<Rightarrow> (nat \<Rightarrow> nat) \<Rightarrow> int \<Rightarrow> lt_message
    \<Rightarrow> prio_routes \<times> ctrl_queue \<Rightarrow> (prio_routes \<times> ctrl_queue) res" where
  "PartitionAndRoute comm_id mss draw dest msg st =
     partition_loop (lm_size msg) comm_id mss draw dest msg 0 0 st"

definition GetBytes :: "int \<Rightarrow> lt_message_ext \<Rightarrow> nat" where
  "GetBytes mss x = u64 (chunk (lx_size x) (lx_bytes x) (seg_bound mss) + kGradPacketHeader)"

definition PartitionOne :: "int \<Rightarrow> int \<Rightarrow> prio_func \<Rightarrow> draw \<Rightarrow> grad_packet \<Rightarrow> int \<Rightarrow> lt_message_ext
    \<Rightarrow> (grad_packet \<times> lt_message_ext) res" where
  "PartitionOne comm_id mss prio_func d grad_pkt dest x =
     (let bound = seg_bound mss; accumulated = lx_bytes x in
      if bound = 0 then Inl (Undefined_Behaviour ''division by zero'')
      else
        let pkt = fill_packet comm_id mss grad_pkt dest (lx_msg_id x) (lx_buf x) (lx_size x) accumulated
                    (u32 (accumulated div bound))
        in rbind (prio_func d pkt) (\<lambda>t.
             let pkt1 = pkt\<lparr>gp_tos := u8_of_int t\<rparr>
             in Inr (pkt1, x\<lparr>lx_bytes := advance accumulated pkt1\<rparr>)))"

definition PartitionOneBySeq :: "int \<Rightarrow> int \<Rightarrow> prio_func \<Rightarrow> draw \<Rightarrow> grad_packet \<Rightarrow> int \<Rightarrow> lt_message_ext
    \<Rightarrow> int \<Rightarrow> grad_packet res" where
  "PartitionOneBySeq comm_id mss prio_func d grad_pkt dest x seq =
     (let offset = u64 (seg_bound mss * u64_of_int seq);
          pkt = fill_packet comm_id mss grad_pkt dest (lx_msg_id x) (lx_buf x) (lx_size x) offset (u32_of_int seq)
      in rbind (prio_func d pkt) (\<lambda>t. Inr (pkt\<lparr>gp_tos := u8_of_int t\<rparr>)))"

section \<open>Chunks\<close>

text \<open>The conditions under which no field is truncated: a positive segment that fits the 16-bit
  length, and a message whose offsets fit 32 bits.\<close>

definition fits :: "int \<Rightarrow> nat \<Rightarrow> bool" where
  "fits mss sz \<longleftrightarrow> int kGradPacketHeader < mss \<and> mss < 2 ^ 16 \<and> sz < 2 ^ 32"

definition num_chunks :: "nat \<Rightarrow> nat \<Rightarrow> nat" where
  "num_chunks bound sz = (sz + bound - 1) div bound"

lemma seg_bound_fits:
  assumes "fits mss sz"
  shows "0 < seg_bound mss" and "seg_bound mss + kGradPacketHeader < 65536"
    and "int (seg_bound mss) = mss - int kGradPacketHeader"
proof -
  have "(mss - int kGradPacketHeader) mod 2 ^ 64 = mss - int kGradPacketHeader"
    using assms by (simp add: fits_def kGradPacketHeader_def)
  then show *: "int (seg_bound mss) = mss - int kGradPacketHeader"
    using assms by (simp add: seg_bound_def u64_of_int_def fits_def)
  then show "0 < seg_bound mss" "seg_bound mss + kGradPacketHeader < 65536"
    using assms by (auto simp: fits_def kGradPacketHeader_def)
qed

lemma num_chunks_iff:
  assumes "0 < b"
  shows "i < num_chunks b sz \<longleftrightarrow> i * b < sz"
proof -
  have "i < num_chunks b sz \<longleftrightarrow> Suc i \<le> (sz + b - 1) div b" by (simp add: num_chunks_def Suc_le_eq)
  also have "\<dots> \<longleftrightarrow> Suc i * b \<le> sz + b - 1" using assms by (simp add: less_eq_div_iff_mult_less_eq)
  also have "\<dots> \<longleftrightarrow> i * b < sz" using assms by auto
  finally show ?thesis .
qed

lemma num_chunks_pos: "0 < b \<Longrightarrow> 0 < sz \<Longrightarrow> 0 < num_chunks b sz"
  using num_chunks_iff [of b 0 sz] by simp

lemma chunk_eq: "offset \<le> sz \<Longrightarrow> sz < 2 ^ 64 \<Longrightarrow> chunk sz offset b = min b (sz - offset)"
  by (auto simp: chunk_def cast_simps min_def)

lemma GetMaxSeqNum_eq:
  assumes "fits mss sz" and "0 < sz"
  shows "GetMaxSeqNum mss sz = Inr (num_chunks (seg_bound mss) sz - 1)"
proof -
  note b = seg_bound_fits [OF assms(1)]
  have sz: "sz + seg_bound mss < 18446744073709551616" "sz < 4294967296"
    using assms(1) b(2) by (auto simp: fits_def)
  have n: "0 < num_chunks (seg_bound mss) sz" using num_chunks_pos b(1) assms(2) by simp
  have "num_chunks (seg_bound mss) sz \<le> sz"
    using num_chunks_iff [OF b(1), of sz sz] b(1) by (cases "seg_bound mss") (auto simp: not_less)
  then have "num_chunks (seg_bound mss) sz < 4294967296" using sz(2) by simp
  moreover have "num_chunks (seg_bound mss) sz = usub64 (u64 (sz + seg_bound mss)) 1 div seg_bound mss"
    using sz assms(2) b(1) by (simp add: num_chunks_def cast_simps)
  ultimately show ?thesis
    using n b(1) by (simp add: GetMaxSeqNum_def Let_def cast_simps)
qed

text \<open>The packet with number \<open>i\<close>, every field computed without truncation.\<close>

lemma fill_packet_nth:
  assumes "fits mss sz" and "i < num_chunks (seg_bound mss) sz" and "buf + sz < 2 ^ 64"
  defines "b \<equiv> seg_bound mss"
  shows "fill_packet comm_id mss pkt dest msg_id buf sz (i * b) i =
    pkt\<lparr>gp_msg_id := msg_id, gp_offset := i * b, gp_len := min b (sz - i * b) + kGradPacketHeader,
        gp_seq := i, gp_dst_comm_id := u16_of_int dest, gp_src_comm_id := u16_of_int comm_id,
        gp_is_last := (if Suc i = num_chunks b sz then 1 else 0), gp_grad_ptr := buf + i * b\<rparr>"
proof -
  note bd = seg_bound_fits [OF assms(1), folded b_def]
  have off: "i * b < sz" using assms(2) num_chunks_iff [OF bd(1)] by (simp add: b_def)
  have sz: "sz < 4294967296" using assms(1) by (simp add: fits_def)
  have c: "chunk sz (i * b) b = min b (sz - i * b)" using off sz by (simp add: chunk_eq)
  have len: "u16 (u64 (min b (sz - i * b) + kGradPacketHeader)) = min b (sz - i * b) + kGradPacketHeader"
    using bd(2) by (simp add: cast_simps min_def kGradPacketHeader_def)
  have "u64 (i * b + (min b (sz - i * b) + kGradPacketHeader))
      = i * b + (min b (sz - i * b) + kGradPacketHeader)"
    using off sz by (simp add: cast_simps min_def kGradPacketHeader_def)
  then have last: "usub64 (u64 (i * b + (min b (sz - i * b) + kGradPacketHeader))) kGradPacketHeader
      = min (Suc i * b) sz"
    using off sz by (auto simp: cast_simps min_def kGradPacketHeader_def)
  have "min (Suc i * b) sz = sz \<longleftrightarrow> \<not> Suc i < num_chunks b sz"
    using num_chunks_iff [OF bd(1), of "Suc i" sz] by auto
  also have "\<dots> \<longleftrightarrow> Suc i = num_chunks b sz" using assms(2) by (auto simp: b_def)
  finally show ?thesis
    using off sz assms(3) unfolding fill_packet_def b_def [symmetric] c len last Let_def
    by (simp add: cast_simps)
qed

lemma advance_chunk:
  assumes "gp_len pkt = n + kGradPacketHeader" and "acc + n < 2 ^ 64"
  shows "advance acc pkt = acc + n"
  using assms by (simp add: advance_def u64_of_int_def cast_simps)

lemma div_chunk: "0 < b \<Longrightarrow> i * b div b = (i :: nat)"
  by simp

lemma num_chunks_small:
  assumes "fits mss sz" and "i < num_chunks (seg_bound mss) sz"
  shows "i < 2 ^ 32" and "i * seg_bound mss < sz" and "i < sz"
proof -
  note bd = seg_bound_fits [OF assms(1)]
  show off: "i * seg_bound mss < sz" using assms(2) num_chunks_iff [OF bd(1)] by simp
  have "i * 1 \<le> i * seg_bound mss" using bd(1) by (intro mult_le_mono) simp_all
  with off show "i < sz" by linarith
  then show "i < 2 ^ 32" using assms(1) by (simp add: fits_def)
qed

text \<open>\<open>PartitionOne\<close> at a packet boundary produces the packet \<open>PartitionOneBySeq\<close> recomputes, and
  moves to the next boundary.\<close>

lemma PartitionOne_nth:
  assumes "fits mss (lx_size x)" and "i < num_chunks (seg_bound mss) (lx_size x)"
    and "lx_buf x + lx_size x < 2 ^ 64" and "lx_bytes x = i * seg_bound mss" and "i < 2 ^ 31"
  shows "PartitionOne comm_id mss prio d pkt dest x =
    rbind (PartitionOneBySeq comm_id mss prio d pkt dest x (int i))
      (\<lambda>p. Inr (p, x\<lparr>lx_bytes := min (Suc i * seg_bound mss) (lx_size x)\<rparr>))"
proof -
  let ?b = "seg_bound mss"
  note bd = seg_bound_fits [OF assms(1)] and sm = num_chunks_small [OF assms(1,2)]
  have sz: "lx_size x < 4294967296" using assms(1) by (simp add: fits_def)
  have seq: "u32 (i * ?b div ?b) = i" "u32_of_int (int i) = i" "u64_of_int (int i) = i"
    using bd(1) sm(1) by (simp_all add: cast_simps u32_of_int_def u64_of_int_def)
  have off: "u64 (?b * i) = i * ?b" using sm(2) sz by (simp add: cast_simps mult.commute)
  note fp = fill_packet_nth [OF assms(1-3)]
  have adv: "advance (i * ?b) (p\<lparr>gp_tos := t\<rparr>) = min (Suc i * ?b) (lx_size x)"
    if "gp_len p = min ?b (lx_size x - i * ?b) + kGradPacketHeader" for p t
    using advance_chunk [of "p\<lparr>gp_tos := t\<rparr>" "min ?b (lx_size x - i * ?b)" "i * ?b"] that sm(2) sz
    by (simp add: min_def) (auto split: if_splits)
  show ?thesis
    unfolding PartitionOne_def PartitionOneBySeq_def Let_def assms(4) seq off fp
    using bd(1) by (simp add: rbind_assoc adv)
qed

text \<open>Repeating \<open>PartitionOne\<close>, as the sending loop does over time, with a draw for each packet.\<close>

fun cut_packets :: "int \<Rightarrow> int \<Rightarrow> prio_func \<Rightarrow> grad_packet \<Rightarrow> int \<Rightarrow> draw list \<Rightarrow> lt_message_ext
    \<Rightarrow> (grad_packet list \<times> lt_message_ext) res" where
  "cut_packets comm_id mss prio pkt dest [] x = Inr ([], x)"
| "cut_packets comm_id mss prio pkt dest (d # ds) x =
     rbind (PartitionOne comm_id mss prio d pkt dest x) (\<lambda>(p, x1).
       rbind (cut_packets comm_id mss prio pkt dest ds x1) (\<lambda>(ps, x2). Inr (p # ps, x2)))"

text \<open>The packet the message should have at number \<open>i\<close>: before its priority is asked for, and with
  the type of service of the draw \<open>d\<close>.\<close>

definition plain_packet :: "int \<Rightarrow> int \<Rightarrow> grad_packet \<Rightarrow> int \<Rightarrow> lt_message_ext \<Rightarrow> nat \<Rightarrow> grad_packet" where
  "plain_packet comm_id mss pkt dest x i =
     (let b = seg_bound mss in
      pkt\<lparr>gp_msg_id := lx_msg_id x, gp_offset := i * b,
          gp_len := min b (lx_size x - i * b) + kGradPacketHeader, gp_seq := i,
          gp_dst_comm_id := u16_of_int dest, gp_src_comm_id := u16_of_int comm_id,
          gp_is_last := (if Suc i = num_chunks b (lx_size x) then 1 else 0),
          gp_grad_ptr := lx_buf x + i * b\<rparr>)"

definition nth_packet :: "int \<Rightarrow> int \<Rightarrow> prio_func \<Rightarrow> grad_packet \<Rightarrow> int \<Rightarrow> lt_message_ext \<Rightarrow> draw \<Rightarrow> nat
    \<Rightarrow> grad_packet" where
  "nth_packet comm_id mss prio pkt dest x d i =
     (let p = plain_packet comm_id mss pkt dest x i
      in p\<lparr>gp_tos := (case prio d p of Inr t \<Rightarrow> u8_of_int t | Inl _ \<Rightarrow> 0)\<rparr>)"

text \<open>The priority function accepts the packets of the message \<open>x\<close>, whatever it draws.\<close>

definition prio_ok :: "int \<Rightarrow> int \<Rightarrow> prio_func \<Rightarrow> grad_packet \<Rightarrow> int \<Rightarrow> lt_message_ext \<Rightarrow> bool" where
  "prio_ok comm_id mss prio pkt dest x \<longleftrightarrow>
     (\<forall>i < num_chunks (seg_bound mss) (lx_size x). \<forall>d. is_ok (prio d (plain_packet comm_id mss pkt dest x i)))"

lemma nth_packet_fields [simp]:
  "gp_seq (nth_packet comm_id mss prio pkt dest x d i) = i"
  "gp_len (nth_packet comm_id mss prio pkt dest x d i) =
     min (seg_bound mss) (lx_size x - i * seg_bound mss) + kGradPacketHeader"
  "gp_is_last (nth_packet comm_id mss prio pkt dest x d i) =
     (if Suc i = num_chunks (seg_bound mss) (lx_size x) then 1 else 0)"
  "gp_grad_ptr (nth_packet comm_id mss prio pkt dest x d i) = lx_buf x + i * seg_bound mss"
  by (simp_all add: nth_packet_def plain_packet_def Let_def)

lemma nth_packet_redraw:
  "nth_packet comm_id mss prio pkt dest x d i =
    (nth_packet comm_id mss prio pkt dest x d' i)\<lparr>gp_tos := gp_tos (nth_packet comm_id mss prio pkt dest x d i)\<rparr>"
  by (simp add: nth_packet_def Let_def)

lemma plain_packet_bytes [simp]:
  "plain_packet comm_id mss pkt dest (x\<lparr>lx_bytes := n\<rparr>) i = plain_packet comm_id mss pkt dest x i"
  by (simp add: plain_packet_def)

lemma nth_packet_bytes [simp]:
  "nth_packet comm_id mss prio pkt dest (x\<lparr>lx_bytes := n\<rparr>) d i = nth_packet comm_id mss prio pkt dest x d i"
  by (simp add: nth_packet_def)

lemma prio_ok_bytes [simp]:
  "prio_ok comm_id mss prio pkt dest (x\<lparr>lx_bytes := n\<rparr>) \<longleftrightarrow> prio_ok comm_id mss prio pkt dest x"
  by (simp add: prio_ok_def)

lemma PartitionOneBySeq_nth:
  assumes "fits mss (lx_size x)" and "i < num_chunks (seg_bound mss) (lx_size x)"
    and "lx_buf x + lx_size x < 2 ^ 64" and "prio_ok comm_id mss prio pkt dest x"
  shows "PartitionOneBySeq comm_id mss prio d pkt dest x (int i) = Inr (nth_packet comm_id mss prio pkt dest x d i)"
proof -
  let ?b = "seg_bound mss"
  note sm = num_chunks_small [OF assms(1,2)]
  have sz: "lx_size x < 4294967296" using assms(1) by (simp add: fits_def)
  have seq: "u32_of_int (int i) = i" "u64_of_int (int i) = i"
    using sm(1) by (simp_all add: u32_of_int_def u64_of_int_def)
  have off: "u64 (?b * i) = i * ?b" using sm(2) sz by (simp add: cast_simps mult.commute)
  have fp: "fill_packet comm_id mss pkt dest (lx_msg_id x) (lx_buf x) (lx_size x) (i * ?b) i =
      plain_packet comm_id mss pkt dest x i"
    unfolding fill_packet_nth [OF assms(1-3)] by (simp add: plain_packet_def Let_def)
  from assms(2,4) have "is_ok (prio d (plain_packet comm_id mss pkt dest x i))" unfolding prio_ok_def by blast
  then show ?thesis
    unfolding PartitionOneBySeq_def Let_def seq off fp nth_packet_def
    by (auto simp: is_ok_def rbind_def split: sum.splits)
qed

lemma cut_ok:
  assumes "fits mss (lx_size x)" and "lx_buf x + lx_size x < 2 ^ 64" and "prio_ok comm_id mss prio pkt dest x"
    and "i + length ds \<le> num_chunks (seg_bound mss) (lx_size x)"
    and "lx_bytes x = min (i * seg_bound mss) (lx_size x)" and "lx_size x < 2 ^ 31"
  shows "cut_packets comm_id mss prio pkt dest ds x =
    Inr (map2 (nth_packet comm_id mss prio pkt dest x) ds [i..<i + length ds],
         x\<lparr>lx_bytes := min ((i + length ds) * seg_bound mss) (lx_size x)\<rparr>)"
  using assms
proof (induction ds arbitrary: i x)
  case (Cons d ds)
  let ?b = "seg_bound mss"
  have i: "i < num_chunks ?b (lx_size x)" using Cons.prems(4) by simp
  note sm = num_chunks_small [OF Cons.prems(1) i]
  have lx: "lx_bytes x = i * ?b" using Cons.prems(5) sm(2) by simp
  have "i < 2 ^ 31" using sm(3) Cons.prems(6) by simp
  from PartitionOne_nth [OF Cons.prems(1) i Cons.prems(2) lx this]
    PartitionOneBySeq_nth [OF Cons.prems(1) i Cons.prems(2,3)]
  have one: "PartitionOne comm_id mss prio d pkt dest x =
      Inr (nth_packet comm_id mss prio pkt dest x d i, x\<lparr>lx_bytes := min (Suc i * ?b) (lx_size x)\<rparr>)"
    by simp
  show ?case
    using Cons.IH [of "x\<lparr>lx_bytes := min (Suc i * ?b) (lx_size x)\<rparr>" "Suc i"] Cons.prems one
    by (simp add: upt_conv_Cons del: upt_Suc)
qed simp

text \<open>The payloads of the first \<open>k\<close> packets are the first bytes of the message.\<close>

lemma chunks_concat:
  "concat (map (\<lambda>i. load_bytes m (buf + i * b) (min b (sz - i * b))) [0..<k]) = load_bytes m buf (min (k * b) sz)"
proof (induction k)
  case 0
  then show ?case by (simp add: load_bytes_def)
next
  case (Suc k)
  show ?case
  proof (cases "k * b \<le> sz")
    case True
    have "min (Suc k * b) sz = k * b + min b (sz - k * b)" using True by (auto simp: min_def)
    with Suc True show ?thesis by (simp add: load_bytes_add)
  next
    case False
    then have "min (Suc k * b) sz = sz" "min (k * b) sz = sz" "sz - k * b = 0" by auto
    with Suc show ?thesis by (simp add: load_bytes_def)
  qed
qed

definition payload :: "mem \<Rightarrow> grad_packet \<Rightarrow> byte list" where
  "payload m p = drop kGradPacketHeader (datagram m p)"

lemma payload_nth_packet:
  assumes "fits mss (lx_size x)"
  shows "payload m (nth_packet comm_id mss prio pkt dest x d i)
    = load_bytes m (lx_buf x + i * seg_bound mss) (min (seg_bound mss) (lx_size x - i * seg_bound mss))"
proof -
  have "min (seg_bound mss) (lx_size x - i * seg_bound mss) < 18446744073709551616"
    using seg_bound_fits(2) [OF assms] by (simp add: min_def)
  then show ?thesis
    by (simp add: payload_def datagram_def u64_of_int_def)
qed

section \<open>The default priority function\<close>

lemma Uniform_bounds: "a \<le> b \<Longrightarrow> a \<le> Uniform a b raw \<and> Uniform a b raw \<le> b"
proof -
  assume "a \<le> b"
  moreover have "raw mod (b - a + 1) < b - a + 1" by (rule mod_less_divisor) simp
  ultimately show ?thesis unfolding Uniform_def by linarith
qed

text \<open>It accepts a packet exactly when the payload is a number of 32-bit floats, whatever it draws.\<close>

lemma default_prio_is_ok:
  assumes "gp_len p = n + kGradPacketHeader" and "n < 2 ^ 64"
  shows "is_ok (default_prio d p) \<longleftrightarrow> 4 dvd n"
  using assms by (auto simp: default_prio_def GetNumGradients_def u64_of_int_def is_ok_def check_def rbind_def Let_def
      dvd_eq_mod_eq_0)

text \<open>So it accepts all packets of a message exactly when the size of the message is a multiple of four
  and, if the message has several packets, the segment leaves a multiple of four bytes for the
  payload.\<close>

lemma chunks_dvd_iff:
  assumes "0 < b" and "0 < sz"
  shows "(\<forall>i < num_chunks b sz. k dvd min b (sz - i * b)) \<longleftrightarrow> k dvd sz \<and> (b < sz \<longrightarrow> k dvd b)" (is "?l \<longleftrightarrow> ?r")
proof
  assume l: ?l
  have b: "k dvd b" if "b < sz"
    using l [rule_format, of 0] num_chunks_pos [OF assms] that by (simp add: min_def)
  define n where "n = num_chunks b sz - 1"
  have n: "n < num_chunks b sz" "\<not> Suc n < num_chunks b sz"
    using num_chunks_pos [OF assms] by (simp_all add: n_def)
  then have nb: "n * b < sz" "sz \<le> Suc n * b" using num_chunks_iff [OF assms(1)] by (auto simp: not_less)
  have "min b (sz - n * b) = sz - n * b" using nb by (intro min_absorb2) simp
  then have "k dvd sz - n * b" using l [rule_format, OF n(1)] by simp
  moreover have "k dvd n * b" using b nb by (cases "b < sz") (auto, cases n, auto)
  ultimately have "k dvd (sz - n * b) + n * b" by (rule dvd_add)
  with nb b show ?r by simp
next
  assume r: ?r
  show ?l
  proof (intro allI impI)
    fix i assume "i < num_chunks b sz"
    then have "i * b < sz" using num_chunks_iff [OF assms(1)] by simp
    with r show "k dvd min b (sz - i * b)"
      by (cases "b < sz"; cases i) (auto simp: min_def intro: dvd_diff_nat)
  qed
qed

lemma default_prio_ok:
  assumes "fits mss (lx_size x)" and "0 < lx_size x"
  shows "prio_ok comm_id mss default_prio pkt dest x \<longleftrightarrow>
    4 dvd lx_size x \<and> (seg_bound mss < lx_size x \<longrightarrow> 4 dvd seg_bound mss)"
proof -
  let ?b = "seg_bound mss"
  note bd = seg_bound_fits [OF assms(1)]
  have "is_ok (default_prio d (plain_packet comm_id mss pkt dest x i)) \<longleftrightarrow> 4 dvd min ?b (lx_size x - i * ?b)" for d i
    using bd(2) by (intro default_prio_is_ok) (auto simp: plain_packet_def Let_def)
  then show ?thesis unfolding prio_ok_def using chunks_dvd_iff [OF bd(1) assms(2), of 4] by simp
qed

section \<open>Properties\<close>

text \<open>C10: Packetisation is complete and exact. Take a non-empty message whose size and segment size
  fit the packet's fields and whose packets the priority function accepts (for the default one: the
  size, and the payload of a full segment, are multiples of four). Then \<open>GetMaxSeqNum\<close> + 1 calls of
  \<open>PartitionOne\<close>, whatever priorities they draw, use up the message; the packets are numbered
  0, 1, 2, \<dots>, only the last one is marked as last, and the concatenation of their payloads is the
  content of the message. \<open>PartitionOneBySeq\<close> recomputes every packet from its number for a
  retransmission: the same packet if it draws the same random numbers, and for any other draw the
  same packet but for its type of service.\<close>

theorem partition_complete:
  assumes "fits mss (lx_size x)" and "lx_buf x + lx_size x < 2 ^ 64" and "prio_ok comm_id mss prio pkt dest x"
    and "0 < lx_size x" and "lx_size x < 2 ^ 31" and "lx_bytes x = 0"
  shows "\<exists>last. GetMaxSeqNum mss (lx_size x) = Inr last \<and>
    (\<forall>ds. length ds = last + 1 \<longrightarrow> (\<exists>pkts x'. cut_packets comm_id mss prio pkt dest ds x = Inr (pkts, x')
      \<and> lx_bytes x' = lx_size x
      \<and> map gp_seq pkts = [0..<last + 1]
      \<and> (\<forall>i \<le> last. gp_is_last (pkts ! i) = (if i = last then 1 else 0)
           \<and> PartitionOneBySeq comm_id mss prio (ds ! i) pkt dest x (int i) = Inr (pkts ! i)
           \<and> (\<forall>d. \<exists>t. PartitionOneBySeq comm_id mss prio d pkt dest x (int i) = Inr ((pkts ! i)\<lparr>gp_tos := t\<rparr>)))
      \<and> concat (map (payload m) pkts) = load_bytes m (lx_buf x) (lx_size x)))"
proof -
  let ?b = "seg_bound mss" and ?p = "nth_packet comm_id mss prio pkt dest x"
  let ?n = "num_chunks (seg_bound mss) (lx_size x)"
  note bd = seg_bound_fits [OF assms(1)]
  have n: "0 < ?n" using num_chunks_pos bd(1) assms(4) by simp
  have whole: "min (?n * ?b) (lx_size x) = lx_size x"
    using num_chunks_iff [OF bd(1), of ?n "lx_size x"] by simp
  have "\<exists>pkts x'. cut_packets comm_id mss prio pkt dest ds x = Inr (pkts, x')
      \<and> lx_bytes x' = lx_size x
      \<and> map gp_seq pkts = [0..<?n - 1 + 1]
      \<and> (\<forall>i \<le> ?n - 1. gp_is_last (pkts ! i) = (if i = ?n - 1 then 1 else 0)
           \<and> PartitionOneBySeq comm_id mss prio (ds ! i) pkt dest x (int i) = Inr (pkts ! i)
           \<and> (\<forall>d. \<exists>t. PartitionOneBySeq comm_id mss prio d pkt dest x (int i) = Inr ((pkts ! i)\<lparr>gp_tos := t\<rparr>)))
      \<and> concat (map (payload m) pkts) = load_bytes m (lx_buf x) (lx_size x)"
    if len: "length ds = ?n - 1 + 1" for ds
  proof -
    define pkts where "pkts = map2 ?p ds [0..<?n]"
    have ds: "length ds = ?n" using len n by simp
    have cut: "cut_packets comm_id mss prio pkt dest ds x = Inr (pkts, x\<lparr>lx_bytes := lx_size x\<rparr>)"
      using cut_ok [OF assms(1-3), of 0 ds] assms(5,6) whole ds by (simp add: pkts_def)
    have nth: "pkts ! i = ?p (ds ! i) i" if "i < ?n" for i using that ds by (simp add: pkts_def)
    have seq: "map gp_seq pkts = [0..<?n - 1 + 1]"
      by (rule nth_equalityI) (use n ds in \<open>simp_all add: pkts_def\<close>)
    have "map (payload m) pkts = map (\<lambda>i. load_bytes m (lx_buf x + i * ?b) (min ?b (lx_size x - i * ?b))) [0..<?n]"
      by (rule nth_equalityI) (use ds in \<open>simp_all add: pkts_def payload_nth_packet [OF assms(1)]\<close>)
    then have pay: "concat (map (payload m) pkts) = load_bytes m (lx_buf x) (lx_size x)"
      using chunks_concat [of m "lx_buf x" ?b "lx_size x" ?n] whole by simp
    have "gp_is_last (pkts ! i) = (if i = ?n - 1 then 1 else 0)
        \<and> PartitionOneBySeq comm_id mss prio (ds ! i) pkt dest x (int i) = Inr (pkts ! i)
        \<and> (\<forall>d. \<exists>t. PartitionOneBySeq comm_id mss prio d pkt dest x (int i) = Inr ((pkts ! i)\<lparr>gp_tos := t\<rparr>))"
      if "i \<le> ?n - 1" for i
    proof -
      from that n have i: "i < ?n" by simp
      note by_seq = PartitionOneBySeq_nth [OF assms(1) i assms(2,3)]
      have "\<exists>t. PartitionOneBySeq comm_id mss prio d pkt dest x (int i) = Inr ((pkts ! i)\<lparr>gp_tos := t\<rparr>)" for d
        unfolding by_seq nth [OF i] using nth_packet_redraw by blast
      then show ?thesis using nth [OF i] by_seq n by auto
    qed
    with cut seq pay show ?thesis
      by (intro exI [of _ pkts] exI [of _ "x\<lparr>lx_bytes := lx_size x\<rparr>"]) simp
  qed
  then show ?thesis using GetMaxSeqNum_eq [OF assms(1,4)] by (intro exI [of _ "?n - 1"]) simp
qed

definition demo_packet :: grad_packet where
  "demo_packet = \<lparr>gp_msg_id = 0, gp_offset = 0, gp_seq = 0, gp_len = 0, gp_dst_comm_id = 0,
     gp_src_comm_id = 0, gp_tos = 0, gp_is_last = 0, gp_grad_ptr = 0\<rparr>"

definition demo_message :: lt_message where
  "demo_message = \<lparr>lm_msg_id = 7, lm_buf = 4096, lm_size = 3000\<rparr>"

lemma demo_prio_ok:
  assumes "lx_size x = 3000"
  shows "prio_ok comm_id 1472 default_prio pkt dest x"
proof -
  have "fits 1472 (lx_size x)" "seg_bound 1472 = 1452"
    using assms by (simp_all add: fits_def kGradPacketHeader_def seg_bound_def u64_of_int_def)
  with default_prio_ok [of 1472 x] assms show ?thesis by simp
qed

text \<open>With the default priority function and different draws for the three packets.\<close>

theorem partition_complete_witness:
  "\<exists>last pkts x'. GetMaxSeqNum 1472 3000 = Inr last
    \<and> cut_packets 1 1472 default_prio demo_packet 2 [(3, 1), (0, 0), (9, 5)] (LtMessageExt demo_message) = Inr (pkts, x')
    \<and> lx_bytes x' = 3000 \<and> map gp_seq pkts = [0, 1, 2]
    \<and> concat (map (payload (\<lambda>_. 0)) pkts) = load_bytes (\<lambda>_. 0) 4096 3000"
proof -
  let ?x = "LtMessageExt demo_message"
  have x: "lx_size ?x = 3000" "lx_buf ?x = 4096" "lx_bytes ?x = 0" "fits 1472 3000"
    by (simp_all add: LtMessageExt_def demo_message_def fits_def kGradPacketHeader_def)
  have two: "GetMaxSeqNum 1472 3000 = Inr 2"
    by (simp add: GetMaxSeqNum_def seg_bound_def u64_of_int_def kGradPacketHeader_def cast_simps)
  from partition_complete [of 1472 ?x 1 default_prio demo_packet 2 "\<lambda>_. 0"]
    demo_prio_ok [of ?x 1 demo_packet 2] x two
  have "\<forall>ds. length ds = 3 \<longrightarrow> (\<exists>pkts x'. cut_packets 1 1472 default_prio demo_packet 2 ds ?x = Inr (pkts, x')
      \<and> lx_bytes x' = 3000 \<and> map gp_seq pkts = [0..<3]
      \<and> concat (map (payload (\<lambda>_. 0)) pkts) = load_bytes (\<lambda>_. 0) 4096 3000)" by fastforce
  from this [rule_format, of "[(3, 1), (0, 0), (9, 5)]"] two show ?thesis by (auto simp: upt_rec)
qed

section \<open>Routing\<close>

definition routes_wf :: "prio_routes \<Rightarrow> bool" where
  "routes_wf r \<longleftrightarrow> length (pr_mapping r) = kMaxPrio
     \<and> (\<forall>i \<in> set (pr_mapping r). - 1 \<le> i \<and> i < int (length (pr_endpoints r)))"

lemma routes_wf_init: "routes_wf prio_routes_init" "\<not> HasPrio prio_routes_init tos"
  by (auto simp: routes_wf_def prio_routes_init_def HasPrio_def kMaxPrio_def)

lemma RoutePacket_HasPrio:
  assumes "routes_wf r" and "gp_tos pkt < kMaxPrio"
  shows "is_ok (RoutePacket r rc pkt fin) \<longleftrightarrow> HasPrio r (int (gp_tos pkt))"
proof -
  from assms have "pr_mapping r ! gp_tos pkt \<in> set (pr_mapping r)" by (simp add: routes_wf_def)
  with assms have "- 1 \<le> pr_mapping r ! gp_tos pkt" "pr_mapping r ! gp_tos pkt < int (length (pr_endpoints r))"
    by (auto simp: routes_wf_def)
  with assms(2) show ?thesis by (auto simp: RoutePacket_def HasPrio_def Let_def)
qed

lemma AddEndpoint_ok:
  assumes "routes_wf r" and "0 \<le> tos" and "tos < int kMaxPrio" and "\<not> HasPrio r tos"
  shows "\<exists>r'. AddEndpoint r (UdpEndpoint tos) = Inr r' \<and> routes_wf r'
    \<and> (\<forall>t. HasPrio r' t \<longleftrightarrow> t = tos \<or> HasPrio r t)"
proof -
  let ?r = "r\<lparr>pr_mapping := (pr_mapping r)[nat tos := int (length (pr_endpoints r))],
              pr_endpoints := pr_endpoints r @ [UdpEndpoint tos]\<rparr>"
  have "AddEndpoint r (UdpEndpoint tos) = Inr ?r"
    using assms(2-4) by (simp add: AddEndpoint_def UdpEndpoint_def HasPrio_def)
  moreover have "routes_wf ?r"
    using assms(1) set_update_subset_insert [of "pr_mapping r" "nat tos"]
    by (fastforce simp: routes_wf_def)
  moreover have "HasPrio ?r t \<longleftrightarrow> t = tos \<or> HasPrio r t" for t
    using assms(1-3) by (auto simp: HasPrio_def routes_wf_def nth_list_update nat_eq_iff2)
  ultimately show ?thesis by blast
qed

lemma AddEndpoint_all:
  assumes "routes_wf r" and "distinct ts" and "\<forall>t \<in> set ts. 0 \<le> t \<and> t < int kMaxPrio \<and> \<not> HasPrio r t"
  shows "\<exists>r'. rfold (\<lambda>tos r. AddEndpoint r (UdpEndpoint tos)) ts r = Inr r' \<and> routes_wf r'
    \<and> (\<forall>t. HasPrio r' t \<longleftrightarrow> t \<in> set ts \<or> HasPrio r t)"
  using assms
proof (induction ts arbitrary: r)
  case (Cons tos ts)
  then obtain r1 where "AddEndpoint r (UdpEndpoint tos) = Inr r1" "routes_wf r1"
    "\<forall>t. HasPrio r1 t \<longleftrightarrow> t = tos \<or> HasPrio r t" using AddEndpoint_ok [of r tos] by auto
  moreover from this have "\<forall>t \<in> set ts. 0 \<le> t \<and> t < int kMaxPrio \<and> \<not> HasPrio r1 t" "distinct ts"
    using Cons.prems(2,3) by auto
  ultimately show ?case using Cons.IH [of r1] by auto
qed simp

lemma set_start_tos: "t \<in> set (start_tos n) \<longleftrightarrow> (\<exists>i. 0 \<le> i \<and> i < n \<and> (t = 32 * i \<or> t = 32 * i + 1))"
  by (auto simp: start_tos_def)

lemma start_tos_Suc: "0 \<le> n \<Longrightarrow> start_tos (n + 1) = start_tos n @ [n * 32 + 1, n * 32]"
  by (simp add: start_tos_def upto_rec2)

lemma distinct_start_tos: "distinct (start_tos (int n))"
proof (induction n)
  case (Suc n)
  have "int n * 32 + 1 \<notin> set (start_tos (int n))" "int n * 32 \<notin> set (start_tos (int n))"
    unfolding set_start_tos by presburger+
  with Suc start_tos_Suc [of "int n"] show ?case by (simp add: add.commute)
qed (simp add: start_tos_def)

lemma start_routes_ok:
  assumes "0 \<le> n" and "n \<le> 8"
  obtains r where "start_routes n = Inr r" and "routes_wf r"
    and "\<And>t. HasPrio r t \<longleftrightarrow> (\<exists>i. 0 \<le> i \<and> i < n \<and> (t = 32 * i \<or> t = 32 * i + 1))"
proof -
  have "distinct (start_tos n)" using distinct_start_tos [of "nat n"] assms(1) by simp
  moreover have "\<forall>t \<in> set (start_tos n). 0 \<le> t \<and> t < int kMaxPrio \<and> \<not> HasPrio prio_routes_init t"
    using assms routes_wf_init(2) by (auto simp: set_start_tos kMaxPrio_def)
  ultimately show ?thesis
    using AddEndpoint_all [OF routes_wf_init(1), of "start_tos n"] routes_wf_init(2) that
    by (auto simp: start_routes_def set_start_tos)
qed

lemma or_low_bit: "v \<le> 1 \<Longrightarrow> or (u * 8 * 4) v = 32 * u + (v :: nat)"
proof -
  assume "v \<le> 1"
  then have "v = 0 \<or> v = 1" by auto
  then show ?thesis by (auto simp: or_Suc_0_eq mult.commute)
qed

text \<open>The type of service the default function returns, and which packets can be routed. With
  \<open>n \<le> 8\<close> priorities, \<open>MLTCommunicator::Start\<close> opens its endpoints without failing a \<open>CHECK\<close>; a
  packet then reaches an endpoint exactly when the number drawn from 0 to 7 is below \<open>n\<close>, and is an
  access to \<open>prio_endpoints_[-1]\<close> otherwise. With the default of eight priorities every packet is
  routed, whatever is drawn.\<close>

lemma default_prio_tos:
  assumes "default_prio d pkt = Inr t"
  shows "u8_of_int t = 32 * Uniform 0 7 (fst d) + Uniform 0 1 (snd d)"
proof -
  have u: "Uniform 0 7 (fst d) \<le> 7" "Uniform 0 1 (snd d) \<le> 1"
    using Uniform_bounds [of 0 7 "fst d"] Uniform_bounds [of 0 1 "snd d"] by simp_all
  have "t = int (32 * Uniform 0 7 (fst d) + Uniform 0 1 (snd d))"
    using assms or_low_bit [OF u(2), of "Uniform 0 7 (fst d)"] by (simp add: default_prio_def rbind_eq_Inr_conv)
  with u show ?thesis by (simp add: u8_of_int_def)
qed

lemma start_routes_default:
  assumes "\<And>t. HasPrio r t \<longleftrightarrow> (\<exists>i. 0 \<le> i \<and> i < n \<and> (t = 32 * i \<or> t = 32 * i + 1))" and "v \<le> 1"
  shows "HasPrio r (int (32 * u + v)) \<longleftrightarrow> int u < n"
proof
  assume "HasPrio r (int (32 * u + v))"
  then obtain i where i: "0 \<le> i" "i < n" "int (32 * u + v) = 32 * i \<or> int (32 * u + v) = 32 * i + 1"
    by (auto simp: assms(1))
  have "(32 * int u + int v) div 32 = int u" using assms(2) by simp
  with i(3) have "int u = i" by auto
  with i(2) show "int u < n" by simp
next
  assume "int u < n"
  with assms(2) show "HasPrio r (int (32 * u + v))"
    unfolding assms(1) by (intro exI [of _ "int u"]) auto
qed

lemma default_routing:
  assumes "0 \<le> n" and "n \<le> 8" and "default_prio d pkt = Inr t"
  shows "\<exists>r. start_routes n = Inr r
    \<and> (is_ok (RoutePacket r rc (pkt\<lparr>gp_tos := u8_of_int t\<rparr>) fin) \<longleftrightarrow> int (Uniform 0 7 (fst d)) < n)"
proof -
  from start_routes_ok [OF assms(1,2)] obtain r where r: "start_routes n = Inr r" "routes_wf r"
    "\<And>t. HasPrio r t \<longleftrightarrow> (\<exists>i. 0 \<le> i \<and> i < n \<and> (t = 32 * i \<or> t = 32 * i + 1))" by blast
  have u: "Uniform 0 7 (fst d) \<le> 7" "Uniform 0 1 (snd d) \<le> 1"
    using Uniform_bounds [of 0 7 "fst d"] Uniform_bounds [of 0 1 "snd d"] by simp_all
  note t = default_prio_tos [OF assms(3)]
  have "HasPrio r (int (u8_of_int t)) \<longleftrightarrow> int (Uniform 0 7 (fst d)) < n"
    unfolding t by (rule start_routes_default [OF r(3) u(2)])
  then show ?thesis
    using RoutePacket_HasPrio [OF r(2), of "pkt\<lparr>gp_tos := u8_of_int t\<rparr>" rc fin] r(1) t u
    by (auto simp: kMaxPrio_def)
qed

lemma default_prio_routed:
  assumes "\<And>t. HasPrio r t \<longleftrightarrow> (\<exists>i. 0 \<le> i \<and> i < 8 \<and> (t = 32 * i \<or> t = 32 * i + 1))"
  shows "HasPrio r (int (gp_tos (nth_packet comm_id mss default_prio pkt dest x d i)))"
proof (cases "default_prio d (plain_packet comm_id mss pkt dest x i)")
  case (Inl e)
  then show ?thesis using start_routes_default [OF assms, of 0 0] by (simp add: nth_packet_def Let_def)
next
  case (Inr t)
  have "Uniform 0 7 (fst d) \<le> 7" "Uniform 0 1 (snd d) \<le> 1"
    using Uniform_bounds [of 0 7 "fst d"] Uniform_bounds [of 0 1 "snd d"] by simp_all
  then show ?thesis
    using start_routes_default [OF assms, of "Uniform 0 1 (snd d)" "Uniform 0 7 (fst d)"] Inr default_prio_tos [OF Inr]
    by (simp add: nth_packet_def Let_def)
qed

end
