(* ===== verification/Meter.thy ===== *)
theory Meter
  imports Queues Complex_Main
begin

text \<open>
  Throughput meters (\<open>src/src/mlt/meter.h\<close>).

  Clock readings are arguments, in nanoseconds; a \<open>double\<close> is a rational number, infinity or a
  NaN, so that the quotient by a zero duration is what the code sees (rounding is not modelled).
  \<open>Meter\<close> only prints; the printed lines are a result of \<open>meter_Add\<close>. \<open>RateMeter\<close> decides
  whether a packet may be sent.
\<close>

section \<open>Floating-point quotients\<close>

datatype dbl = Fin rat | Inf | NaN

definition dbl_div :: "rat \<Rightarrow> rat \<Rightarrow> dbl" where
  "dbl_div a b = (if b \<noteq> 0 then Fin (a / b) else if a > 0 then Inf else NaN)"

definition dbl_gt :: "dbl \<Rightarrow> rat \<Rightarrow> bool" where
  "dbl_gt d r = (case d of Fin x \<Rightarrow> x > r | Inf \<Rightarrow> True | NaN \<Rightarrow> False)"

section \<open>Meter\<close>

record meter =
  mt_sample :: int
  mt_cnt :: int
  mt_bytes :: nat
  mt_msgs :: nat
  mt_tp :: nat
  mt_interval :: nat

definition Meter :: "nat \<Rightarrow> int \<Rightarrow> nat \<Rightarrow> meter res" where
  "Meter interval_ms sample now =
     rbind (RoundUpPower2 (sample + 1)) (\<lambda>p.
       let s = p - 1 in
       rbind (check (s + 1 = Lowbit (s + 1)) ''sample + 1 == Lowbit(sample + 1)'') (\<lambda>_.
         Inr \<lparr>mt_sample = s, mt_cnt = 0, mt_bytes = 0, mt_msgs = 0, mt_tp = now,
              mt_interval = interval_ms * 1000000\<rparr>))"

text \<open>The result is the report printed, if any: bytes per second and messages per second.\<close>

definition meter_Add :: "meter \<Rightarrow> nat \<Rightarrow> nat \<Rightarrow> ((dbl \<times> dbl) option \<times> meter) res" where
  "meter_Add m add now =
     (if mt_cnt m + 1 \<ge> 2 ^ 31 then Inl (Undefined_Behaviour ''signed overflow'')
      else
        let m1 = m\<lparr>mt_bytes := u64 (mt_bytes m + add), mt_msgs := u64 (mt_msgs m + 1), mt_cnt := mt_cnt m + 1\<rparr> in
        if and (mt_cnt m1) (mt_sample m1) = mt_sample m1 \<and> now - mt_tp m1 \<ge> mt_interval m1
        then Inr (Some (dbl_div (10 ^ 9 * of_nat (mt_bytes m1)) (of_nat (now - mt_tp m1)),
                        dbl_div (10 ^ 9 * of_nat (mt_msgs m1)) (of_nat (now - mt_tp m1))),
                  m1\<lparr>mt_bytes := 0, mt_msgs := 0, mt_tp := now\<rparr>)
        else Inr (None, m1))"

section \<open>RateMeter\<close>

record rate_meter =
  rm_sample :: int
  rm_scnt :: int
  rm_bytes :: nat
  rm_msgs :: nat
  rm_tp :: nat
  rm_interval :: nat

definition RateMeter :: "nat \<Rightarrow> int \<Rightarrow> nat \<Rightarrow> rate_meter" where
  "RateMeter interval_us sample now =
     \<lparr>rm_sample = sample, rm_scnt = 0, rm_bytes = 0, rm_msgs = 0, rm_tp = now, rm_interval = interval_us * 1000\<rparr>"

definition rm_Update :: "rate_meter \<Rightarrow> nat \<Rightarrow> rate_meter" where
  "rm_Update m add = m\<lparr>rm_bytes := u64 (rm_bytes m + add), rm_msgs := u64 (rm_msgs m + 1), rm_scnt := rm_scnt m + 1\<rparr>"

definition rm_Elapsed :: "rate_meter \<Rightarrow> nat \<Rightarrow> bool \<times> rate_meter" where
  "rm_Elapsed m now =
     (if rm_scnt m + 1 \<ge> rm_sample m then (now - rm_tp m \<ge> rm_interval m, m\<lparr>rm_scnt := 0\<rparr>)
      else (False, m\<lparr>rm_scnt := rm_scnt m + 1\<rparr>))"

definition TryBytesPerSecond :: "rate_meter \<Rightarrow> nat \<Rightarrow> nat \<Rightarrow> dbl" where
  "TryBytesPerSecond m extra now = dbl_div (10 ^ 9 * of_nat (u64 (rm_bytes m + extra))) (of_nat (now - rm_tp m))"

definition GetBytesPerSecond :: "rate_meter \<Rightarrow> nat \<Rightarrow> dbl" where
  "GetBytesPerSecond m now = dbl_div (10 ^ 9 * of_nat (rm_bytes m)) (of_nat (now - rm_tp m))"

definition GetMessagePerSecond :: "rate_meter \<Rightarrow> nat \<Rightarrow> dbl" where
  "GetMessagePerSecond m now = dbl_div (10 ^ 9 * of_nat (rm_msgs m)) (of_nat (now - rm_tp m))"

definition rm_Clear :: "rate_meter \<Rightarrow> nat \<Rightarrow> rate_meter" where
  "rm_Clear m now = m\<lparr>rm_bytes := 0, rm_msgs := 0, rm_tp := now\<rparr>"

section \<open>The throttle\<close>

text \<open>The sequence of meter operations around a packet that is let through: the rate is tested, the
  packet is sent, the meter is cleared when its interval has elapsed, and the packet is counted.\<close>

definition account :: "rate_meter \<Rightarrow> nat \<Rightarrow> nat \<Rightarrow> nat \<Rightarrow> rate_meter" where
  "account m nbytes t_elapsed t_clear =
     (let (e, m1) = rm_Elapsed m t_elapsed; m2 = (if e then rm_Clear m1 t_clear else m1)
      in rm_Update m2 nbytes)"

text \<open>When a packet passes the test, the bytes counted in the current interval, the packet
  included, stay within \<open>rate\<close> times the time elapsed.\<close>

lemma throttle_passed:
  assumes "\<not> dbl_gt (TryBytesPerSecond m extra now) rate" and "0 < extra" and "rm_bytes m + extra < 2 ^ 64"
  shows "rm_tp m < now" and "10 ^ 9 * of_nat (rm_bytes m + extra) \<le> rate * of_nat (now - rm_tp m)"
proof -
  have u: "u64 (rm_bytes m + extra) = rm_bytes m + extra" using assms(3) by (simp add: cast_simps)
  have pos: "(0 :: rat) < 10 ^ 9 * of_nat (rm_bytes m + extra)" using assms(2) by simp
  show lt: "rm_tp m < now"
  proof (rule ccontr)
    assume "\<not> rm_tp m < now"
    then have "TryBytesPerSecond m extra now = Inf" using pos by (simp add: TryBytesPerSecond_def dbl_div_def u)
    with assms(1) show False by (simp add: dbl_gt_def)
  qed
  then have d: "(0 :: rat) < of_nat (now - rm_tp m)" by simp
  have "10 ^ 9 * of_nat (rm_bytes m + extra) / of_nat (now - rm_tp m) \<le> rate"
    using assms(1) d by (simp add: TryBytesPerSecond_def dbl_div_def dbl_gt_def u not_less)
  with d show "10 ^ 9 * of_nat (rm_bytes m + extra) \<le> rate * of_nat (now - rm_tp m)"
    by (simp only: pos_divide_le_eq)
qed

lemma account_cases:
  assumes "account m nbytes t1 t2 = m'"
  shows "(rm_tp m' = rm_tp m \<and> rm_bytes m' = u64 (rm_bytes m + nbytes))
    \<or> (rm_tp m' = t2 \<and> rm_bytes m' = u64 nbytes \<and> rm_interval m \<le> t1 - rm_tp m)"
  using assms by (auto simp: account_def rm_Elapsed_def rm_Clear_def rm_Update_def Let_def split: if_splits)

end
