(* ===== verification/Ordered_Map.thy ===== *)
theory Ordered_Map
  imports Main
begin

text \<open>
  \<open>std::map\<close> with \<open>int\<close> keys, as the list of its entries in key order. \<open>begin()\<close> is the head of the
  list. The locale \<open>ordered_map\<close> states what the channels rely on, and is interpreted for the list.
\<close>

type_synonym 'v omap = "(int \<times> 'v) list"

fun om_insert :: "int \<Rightarrow> 'v \<Rightarrow> 'v omap \<Rightarrow> 'v omap" where
  "om_insert k v [] = [(k, v)]"
| "om_insert k v ((k', v') # m) =
     (if k < k' then (k, v) # (k', v') # m
      else if k = k' then (k, v) # m
      else (k', v') # om_insert k v m)"

definition om_erase :: "int \<Rightarrow> 'v omap \<Rightarrow> 'v omap" where
  "om_erase k m = filter (\<lambda>e. fst e \<noteq> k) m"

definition om_find :: "int \<Rightarrow> 'v omap \<Rightarrow> 'v option" where
  "om_find k m = map_of m k"

definition om_begin :: "'v omap \<Rightarrow> (int \<times> 'v) option" where
  "om_begin m = (case m of [] \<Rightarrow> None | e # _ \<Rightarrow> Some e)"

definition om_invar :: "'v omap \<Rightarrow> bool" where
  "om_invar m \<longleftrightarrow> sorted_wrt (<) (map fst m)"

locale ordered_map =
  fixes empty :: "'m"
    and insert :: "int \<Rightarrow> 'v \<Rightarrow> 'm \<Rightarrow> 'm"
    and erase :: "int \<Rightarrow> 'm \<Rightarrow> 'm"
    and find :: "int \<Rightarrow> 'm \<Rightarrow> 'v option"
    and first :: "'m \<Rightarrow> (int \<times> 'v) option"
    and invar :: "'m \<Rightarrow> bool"
  assumes invar_empty: "invar empty"
    and find_empty: "find k empty = None"
    and invar_insert: "invar m \<Longrightarrow> invar (insert k v m)"
    and find_insert: "invar m \<Longrightarrow> find k' (insert k v m) = (if k' = k then Some v else find k' m)"
    and invar_erase: "invar m \<Longrightarrow> invar (erase k m)"
    and find_erase: "find k' (erase k m) = (if k' = k then None else find k' m)"
    and first_None: "first m = None \<longleftrightarrow> (\<forall>k. find k m = None)"
    and first_Some: "invar m \<Longrightarrow> first m = Some (k, v) \<Longrightarrow>
      find k m = Some v \<and> (\<forall>k'. find k' m \<noteq> None \<longrightarrow> k \<le> k')"
begin

text \<open>Moving an entry to another map (\<open>extract\<close> and \<open>insert\<close> of a node handle).\<close>

lemma move_entry:
  assumes "invar m" and "invar n" and "find k m = Some v"
  shows "find k (erase k m) = None \<and> find k (insert k v n) = Some v
    \<and> (\<forall>k'. k' \<noteq> k \<longrightarrow> find k' (erase k m) = find k' m \<and> find k' (insert k v n) = find k' n)"
  using assms by (simp add: find_erase find_insert)

end

lemma om_insert_keys: "set (map fst (om_insert k v m)) = insert k (set (map fst m))"
  by (induction m rule: om_insert.induct) auto

lemma om_invar_Cons: "om_invar (e # m) \<longleftrightarrow> (\<forall>k \<in> set (map fst m). fst e < k) \<and> om_invar m"
  by (simp add: om_invar_def)

lemma om_invar_insert: "om_invar m \<Longrightarrow> om_invar (om_insert k v m)"
proof (induction m)
  case Nil
  then show ?case by (simp add: om_invar_def)
next
  case (Cons e m)
  obtain k' v' where e: "e = (k', v')" by fastforce
  from Cons om_insert_keys [of k v m] show ?case by (auto simp: e om_invar_Cons simp del: set_map)
qed

lemma om_find_insert: "om_invar m \<Longrightarrow> om_find k' (om_insert k v m) = (if k' = k then Some v else om_find k' m)"
  by (induction k v m rule: om_insert.induct) (auto simp: om_find_def om_invar_def)

lemma om_find_erase: "om_find k' (om_erase k m) = (if k' = k then None else om_find k' m)"
  by (induction m) (auto simp: om_find_def om_erase_def)

interpretation om: ordered_map "[]" om_insert om_erase om_find om_begin om_invar
proof (unfold_locales, goal_cases)
  case (5 m k)
  then show ?case by (simp add: om_invar_def om_erase_def sorted_wrt_map sorted_wrt_filter)
next
  case (7 m)
  then show ?case by (cases m) (auto simp: om_begin_def om_find_def split: if_splits)
next
  case (8 m k v)
  then show ?case
    by (cases m) (auto simp: om_begin_def om_find_def om_invar_def dest!: map_of_SomeD intro: less_imp_le)
next
  case 1
  show ?case by (simp add: om_invar_def)
next
  case (2 k)
  show ?case by (simp add: om_find_def)
qed (simp_all add: om_invar_insert om_find_insert om_find_erase)

end
