(* ===== verification/Conn_State.thy ===== *)
theory Conn_State
  imports Packetizer Queues Meter Ordered_Map
begin

text \<open>
  Per-connection state (\<open>src/src/mlt/conn_meta.h\<close>, \<open>conn_meta.cc\<close>) and the state of one
  communicator process that its three channels share (\<open>mlt_communicator.h\<close>,
  \<open>priority_channel.h\<close>, \<open>receiving_channel.h\<close>, \<open>reliable_channel.h\<close>).

  \<open>ConnMeta\<close> objects live on a heap \<open>w_conns\<close> and are referred to by address, because the channels
  keep pointers to them and one channel frees them: reading a freed object is undefined
  behaviour. \<open>std::map\<close> members are ordered maps, \<open>std::unordered_map\<close> members are maps. The
  queues between the channels are lists, as justified by the interface \<open>bounded_fifo\<close>.
\<close>

section \<open>ConnMeta\<close>

type_synonym send_request = "lt_message_ext \<times> prio_func"

text \<open>\<open>RetransmitState\<close>: the current block and sequence number of a request.\<close>

record retransmit_state =
  rs_block_num :: nat
  rs_seq_num :: nat

record conn_meta =
  cm_dest_comm_id :: int
  cm_send_window :: nat
  cm_sending_rate :: rat
  cm_sending_msgs :: "send_request omap"
  cm_retransmitting_msgs :: "send_request omap"
  cm_retransmit_reqs :: "(buffer \<times> retransmit_state) omap"
  cm_tx_meter :: rate_meter
  cm_rx_meter :: rate_meter
  cm_recv_msgs :: "int \<rightharpoonup> lt_message_ext"
  cm_backlog_buffer_size :: nat
  cm_backlog_free_list :: "nat list"
  cm_backlog_used_map :: "int \<rightharpoonup> nat list"

text \<open>The loop \<open>while (ptr < ptr + backlog_buffer_size)\<close> of \<open>InitBacklog\<close>; \<open>seg\<close> is
  \<open>MaxSegment()\<close>.\<close>

fun backlog_loop :: "nat \<Rightarrow> nat \<Rightarrow> nat \<Rightarrow> nat \<Rightarrow> nat list \<Rightarrow> nat list res" where
  "backlog_loop fuel ptr n seg free_list =
     (if ptr < ptr + n then
        (case fuel of
           0 \<Rightarrow> Inl Out_Of_Fuel
         | Suc fuel' \<Rightarrow> backlog_loop fuel' (ptr + seg) n seg (free_list @ [ptr]))
      else Inr free_list)"

declare backlog_loop.simps [simp del]

text \<open>\<open>disable\<close> is the value of \<open>MLT_DISABLE_FLOW_BACKLOG\<close> (1 by default), \<open>backlog\<close> the address of
  the allocated buffer.\<close>

definition InitBacklog :: "nat \<Rightarrow> int \<Rightarrow> nat \<Rightarrow> nat \<Rightarrow> nat \<Rightarrow> conn_meta \<Rightarrow> conn_meta res" where
  "InitBacklog fuel disable backlog n seg c =
     (let c1 = c\<lparr>cm_backlog_buffer_size := n\<rparr> in
      if disable \<noteq> 0 then Inr c1
      else rbind (backlog_loop fuel backlog n seg []) (\<lambda>fl. Inr (c1\<lparr>cm_backlog_free_list := fl\<rparr>)))"

text \<open>The constructor up to \<open>InitBacklog\<close>; window, rate and interval are the values of the
  configuration getters, \<open>now\<close> the clock.\<close>

definition ConnMeta :: "int \<Rightarrow> nat \<Rightarrow> rat \<Rightarrow> nat \<Rightarrow> nat \<Rightarrow> conn_meta" where
  "ConnMeta dest window rate interval_us now =
     \<lparr>cm_dest_comm_id = dest, cm_send_window = window, cm_sending_rate = rate, cm_sending_msgs = [],
      cm_retransmitting_msgs = [], cm_retransmit_reqs = [], cm_tx_meter = RateMeter interval_us 0 now,
      cm_rx_meter = RateMeter interval_us 0 now, cm_recv_msgs = Map.empty, cm_backlog_buffer_size = 0,
      cm_backlog_free_list = [], cm_backlog_used_map = Map.empty\<rparr>"

lemma backlog_loop_diverges: "0 < n \<Longrightarrow> backlog_loop fuel ptr n seg fl = Inl Out_Of_Fuel"
  by (induction fuel arbitrary: ptr fl) (simp_all add: backlog_loop.simps)

section \<open>Notifications\<close>

datatype p_notification =
  ADD_CONNECTION nat
| REMOVE_CONNECTION nat
| STOP_FLOW nat
| REQUEST_RETRANSMIT buffer

datatype r_notification =
  FINISH_FLOW int nat nat
| CONFIRM_STOP int nat

section \<open>The communicator\<close>

record world =
  w_comm_id :: int
  w_mss :: int
  w_init_rate :: rat
  w_mem :: mem
  w_conns :: "nat \<rightharpoonup> conn_meta"
  w_id_conn :: "int \<rightharpoonup> nat option"
  w_cq :: "completion list"
  w_routes :: prio_routes
  w_conn_metas :: "nat list"
  w_conn_meta_map :: "int \<rightharpoonup> nat"
  w_pnotif :: "p_notification list"
  w_sr_queue :: "(int \<times> lt_message_ext \<times> prio_func) list"
  w_pmeter :: meter
  w_rc_tx :: ctrl_queue
  w_rr_queue :: "(nat \<times> lt_message \<times> rat) list"
  w_rnotif :: "r_notification list"
  w_meta_queue :: "(int \<times> buffer) list"

definition deref :: "world \<Rightarrow> nat \<Rightarrow> conn_meta res" where
  "deref w p = (case w_conns w p of None \<Rightarrow> Inl (Undefined_Behaviour ''dangling ConnMeta*'') | Some c \<Rightarrow> Inr c)"

definition set_conn :: "nat \<Rightarrow> conn_meta \<Rightarrow> world \<Rightarrow> world" where
  "set_conn p c w = w\<lparr>w_conns := (w_conns w)(p \<mapsto> c)\<rparr>"

text \<open>\<open>ReliableChannel::Enqueue\<close>\<close>

definition rc_Enqueue :: "int \<Rightarrow> buffer \<Rightarrow> world \<Rightarrow> world" where
  "rc_Enqueue dest b w = w\<lparr>w_rc_tx := w_rc_tx w @ [(dest, b)]\<rparr>"

lemma deref_Inr [simp]: "deref w p = Inr c \<longleftrightarrow> w_conns w p = Some c"
  by (simp add: deref_def split: option.split)

lemma set_conn_simps [simp]:
  "w_conns (set_conn p c w) = (w_conns w)(p \<mapsto> c)" "w_comm_id (set_conn p c w) = w_comm_id w"
  "w_mss (set_conn p c w) = w_mss w" "w_init_rate (set_conn p c w) = w_init_rate w"
  "w_mem (set_conn p c w) = w_mem w" "w_id_conn (set_conn p c w) = w_id_conn w"
  "w_cq (set_conn p c w) = w_cq w" "w_routes (set_conn p c w) = w_routes w"
  "w_conn_metas (set_conn p c w) = w_conn_metas w" "w_conn_meta_map (set_conn p c w) = w_conn_meta_map w"
  "w_pnotif (set_conn p c w) = w_pnotif w" "w_sr_queue (set_conn p c w) = w_sr_queue w"
  "w_pmeter (set_conn p c w) = w_pmeter w" "w_rc_tx (set_conn p c w) = w_rc_tx w"
  "w_rr_queue (set_conn p c w) = w_rr_queue w" "w_rnotif (set_conn p c w) = w_rnotif w"
  "w_meta_queue (set_conn p c w) = w_meta_queue w"
  by (simp_all add: set_conn_def)

lemma rc_Enqueue_simps [simp]:
  "w_conns (rc_Enqueue d b w) = w_conns w" "w_rc_tx (rc_Enqueue d b w) = w_rc_tx w @ [(d, b)]"
  "w_cq (rc_Enqueue d b w) = w_cq w" "w_routes (rc_Enqueue d b w) = w_routes w"
  "w_mem (rc_Enqueue d b w) = w_mem w" "w_conn_metas (rc_Enqueue d b w) = w_conn_metas w"
  "w_conn_meta_map (rc_Enqueue d b w) = w_conn_meta_map w" "w_comm_id (rc_Enqueue d b w) = w_comm_id w"
  "w_id_conn (rc_Enqueue d b w) = w_id_conn w" "w_mss (rc_Enqueue d b w) = w_mss w"
  by (simp_all add: rc_Enqueue_def)

text \<open>With the flow backlog enabled, constructing a connection never returns: the condition
  \<open>ptr < ptr + backlog_buffer_size\<close> of the loop in \<open>InitBacklog\<close> does not depend on \<open>ptr\<close>, so no
  number of rounds ends it; with the backlog disabled (the default) the constructor returns with
  an empty free list.\<close>

lemma InitBacklog_diverges:
  "0 < n \<Longrightarrow> InitBacklog fuel 0 backlog n seg c = Inl Out_Of_Fuel
    \<and> InitBacklog fuel 1 backlog n seg (ConnMeta dest window rate us now)
      = Inr ((ConnMeta dest window rate us now)\<lparr>cm_backlog_buffer_size := n\<rparr>)"
  by (simp add: InitBacklog_def backlog_loop_diverges)

end
