(* ===== verification/Receiving_Channel.thy ===== *)
theory Receiving_Channel
  imports Conn_State
begin

text \<open>
  \<open>ReceivingChannel\<close> (\<open>src/src/mlt/receiving_channel.h\<close>, \<open>receiving_channel.cc\<close>), the receiving
  side: datagrams, receive requests of the application, and notifications about finished flows.

  A datagram lies in memory at the address of the receive buffer. \<open>to_float\<close>, the conversion of
  the measured rate to the 32-bit \<open>float\<close> of the signal, is a parameter.
\<close>

record rticks =
  rt_elapsed :: nat
  rt_rate :: nat
  rt_clear :: nat

section \<open>Operations\<close>

definition rch_Enqueue :: "nat \<Rightarrow> lt_message \<Rightarrow> rat \<Rightarrow> world \<Rightarrow> world" where
  "rch_Enqueue p msg loss_ratio w = w\<lparr>w_rr_queue := w_rr_queue w @ [(p, msg, loss_ratio)]\<rparr>"

definition rch_Notify :: "r_notification \<Rightarrow> world \<Rightarrow> world" where
  "rch_Notify n w = w\<lparr>w_rnotif := w_rnotif w @ [n]\<rparr>"

definition RequestRateAdjustment :: "(dbl \<Rightarrow> nat) \<Rightarrow> int \<Rightarrow> dbl \<Rightarrow> world \<Rightarrow> world" where
  "RequestRateAdjustment to_float dest rx_speed w =
     rc_Enqueue dest (out_buffer (RateAdjustment (to_float rx_speed))) w"

text \<open>\<open>rx_meter.Update(size)\<close> and, when the interval has elapsed, the rate request and
  \<open>Clear()\<close>.\<close>

definition monitor :: "(dbl \<Rightarrow> nat) \<Rightarrow> rticks \<Rightarrow> int \<Rightarrow> nat \<Rightarrow> nat \<Rightarrow> conn_meta \<Rightarrow> world \<Rightarrow> conn_meta \<times> world" where
  "monitor to_float tk dest p n c w =
     (let (e, m1) = rm_Elapsed (rm_Update (cm_rx_meter c) n) (rt_elapsed tk) in
      if e then (c\<lparr>cm_rx_meter := rm_Clear m1 (rt_clear tk)\<rparr>,
                 RequestRateAdjustment to_float dest (GetBytesPerSecond m1 (rt_rate tk)) w)
      else (c\<lparr>cm_rx_meter := m1\<rparr>, w))"

text \<open>A packet without a receive request goes to the backlog, when there is room.\<close>

definition to_backlog :: "int \<Rightarrow> nat \<Rightarrow> nat \<Rightarrow> nat \<Rightarrow> conn_meta \<Rightarrow> world \<Rightarrow> world" where
  "to_backlog msg_id buf n p c w =
     (let vec = (case cm_backlog_used_map c msg_id of None \<Rightarrow> [] | Some v \<Rightarrow> v) in
      if cm_backlog_free_list c \<noteq> [] then
        let slot = last (cm_backlog_free_list c) in
        (set_conn p (c\<lparr>cm_backlog_used_map := (cm_backlog_used_map c)(msg_id \<mapsto> vec @ [slot]),
                       cm_backlog_free_list := butlast (cm_backlog_free_list c)\<rparr>) w)
          \<lparr>w_mem := memcpy (w_mem w) slot buf n\<rparr>
      else set_conn p (c\<lparr>cm_backlog_used_map := (cm_backlog_used_map c)(msg_id \<mapsto> vec)\<rparr>) w)"

definition HandleReceive :: "(dbl \<Rightarrow> nat) \<Rightarrow> rticks \<Rightarrow> nat \<Rightarrow> nat \<Rightarrow> world \<Rightarrow> world res" where
  "HandleReceive to_float tk buf n w =
     (let m0 = store_bytes (w_mem w) (buf + kGradPacketHeader) (le_bytes 8 (buf + kGradPacketHeader));
          w0 = w\<lparr>w_mem := m0\<rparr>;
          pkt = load_packet m0 buf
      in
      rbind (check (gp_dst_comm_id pkt = u16_of_int (w_comm_id w0)) ''pkt->dst_comm_id == comm_->comm_id()'') (\<lambda>_.
        let dest = int (gp_src_comm_id pkt); msg_id = i32 (int (gp_msg_id pkt)) in
        case w_id_conn w0 dest of
          None \<Rightarrow> Inr w0
        | Some None \<Rightarrow> Inr w0
        | Some (Some p) \<Rightarrow>
            rbind (deref w0 p) (\<lambda>c0.
              let (c, w1) = monitor to_float tk dest p n c0 w0 in
              case cm_recv_msgs c msg_id of
                None \<Rightarrow> Inr (to_backlog msg_id buf n p c w1)
              | Some x \<Rightarrow>
                  rbind (CopyGradients (w_mem w1) x pkt) (\<lambda>(copied, m1, x1).
                    let w2 = w1\<lparr>w_mem := m1\<rparr> in
                    if copied > 0 \<and> FinishReceiving x1 \<and> \<not> lx_stopped x1
                    then Inr (rc_Enqueue dest (out_buffer (StopRequest msg_id (w_comm_id w2) 0))
                               (set_conn p (c\<lparr>cm_recv_msgs := (cm_recv_msgs c)(msg_id \<mapsto> x1\<lparr>lx_stopped := True\<rparr>)\<rparr>) w2))
                    else Inr (set_conn p (c\<lparr>cm_recv_msgs := (cm_recv_msgs c)(msg_id \<mapsto> x1)\<rparr>) w2)))))"

definition AlignUp :: "nat \<Rightarrow> nat \<Rightarrow> nat" where
  "AlignUp alignment val = u64 (usub64 (u64 (val + alignment)) 1 div alignment * alignment)"

text \<open>\<open>static_cast<size_t>(ltmsg.size * (1 - loss_ratio))\<close>\<close>

definition loss_bound :: "nat \<Rightarrow> rat \<Rightarrow> nat res" where
  "loss_bound n loss_ratio =
     (let v = of_nat n * (1 - loss_ratio) in
      if v \<le> - 1 \<or> 2 ^ 64 \<le> v then Inl (Undefined_Behaviour ''double to size_t'')
      else Inr (AlignUp 4 (nat \<lfloor>v\<rfloor>)))"

definition copy_backlog :: "nat list \<Rightarrow> mem \<times> lt_message_ext \<Rightarrow> (mem \<times> lt_message_ext) res" where
  "copy_backlog vec st =
     rfold (\<lambda>a (m, x). rbind (CopyGradients m x (load_packet m a)) (\<lambda>(_, m1, x1). Inr (m1, x1))) vec st"

definition accept_receive :: "nat \<times> lt_message \<times> rat \<Rightarrow> world \<Rightarrow> world res" where
  "accept_receive rr w =
     (let (p, ltmsg, loss_ratio) = rr; key = i32 (int (lm_msg_id ltmsg)) in
      rbind (deref w p) (\<lambda>c.
      rbind (check (cm_recv_msgs c key = None) ''0 == conn_meta->recv_msgs.count(key)'') (\<lambda>_.
        let vec = (case cm_backlog_used_map c key of None \<Rightarrow> [] | Some v \<Rightarrow> v);
            used = (if vec = [] then cm_backlog_used_map c else (cm_backlog_used_map c)(key \<mapsto> []))
        in
        rbind (copy_backlog vec (w_mem w, LtMessageExt ltmsg)) (\<lambda>(m1, x1).
        rbind (loss_bound (lm_size ltmsg) loss_ratio) (\<lambda>bound.
          Inr ((set_conn p (c\<lparr>cm_recv_msgs := (cm_recv_msgs c)(key \<mapsto> x1\<lparr>lx_bound := bound\<rparr>),
                              cm_backlog_used_map := used,
                              cm_backlog_free_list := cm_backlog_free_list c @ vec\<rparr>) w)\<lparr>w_mem := m1\<rparr>))))))"

definition PollReceiveRequest :: "world \<Rightarrow> world res" where
  "PollReceiveRequest w = rfold accept_receive (w_rr_queue w) (w\<lparr>w_rr_queue := []\<rparr>)"

text \<open>\<open>RdEndpoint::WriteLength\<close>\<close>

definition WriteLength :: "buffer \<Rightarrow> buffer res" where
  "WriteLength b =
     rbind (check (bf_size b \<ge> 4) ''value >= 0'') (\<lambda>_. put_bytes b 0 (le_bytes 4 (u32 (bf_size b - 4))))"

definition FinishFlow :: "int \<Rightarrow> nat \<Rightarrow> nat \<Rightarrow> world \<Rightarrow> world res" where
  "FinishFlow msg_id max_seq_num p w =
     rbind (deref w p) (\<lambda>c.
       let src_comm_id = cm_dest_comm_id c in
       case cm_recv_msgs c msg_id of
         None \<Rightarrow>
           rbind (WriteLength (out_buffer (RetransmitRequest msg_id (w_comm_id w) 1
                    (block_bytes (mk_block 0 (u32 (max_seq_num + 1)))))))
             (\<lambda>b. Inr (rc_Enqueue src_comm_id b w))
       | Some x \<Rightarrow>
           if FinishReceiving x then Inr w
           else
             rbind (if tm_size (lx_block_mgr x) \<le> max_seq_num
                    then tree_Resize (lx_block_mgr x) (u32 (max_seq_num + 1)) else Inr (lx_block_mgr x)) (\<lambda>bm.
               let w1 = set_conn p (c\<lparr>cm_recv_msgs := (cm_recv_msgs c)(msg_id \<mapsto> x\<lparr>lx_block_mgr := bm\<rparr>)\<rparr>) w;
                   payload_size = tree_ByteSize bm
               in if payload_size = 0 then Inr w1
                  else rbind (tree_SerializeToBuffer bm (replicate payload_size 0) payload_size) (\<lambda>blocks.
                       rbind (WriteLength (out_buffer (RetransmitRequest msg_id (w_comm_id w)
                                (u32 (payload_size div sizeof_Block)) blocks)))
                         (\<lambda>b. Inr (rc_Enqueue src_comm_id b w1)))))"

definition ConfirmStop :: "int \<Rightarrow> nat \<Rightarrow> world \<Rightarrow> world res" where
  "ConfirmStop msg_id p w =
     rbind (deref w p) (\<lambda>c.
       case cm_recv_msgs c msg_id of
         None \<Rightarrow> Inl (Check_Failed ''it != recv_msgs_map.end()'')
       | Some x \<Rightarrow>
           Inr (set_conn p (c\<lparr>cm_recv_msgs := (cm_recv_msgs c)(msg_id := None)\<rparr>)
                 (w\<lparr>w_cq := cq_Push (w_cq w) \<lparr>cp_msg_id = msg_id, cp_type = kRecv,
                            cp_remote_comm_id = cm_dest_comm_id c, cp_bytes = lx_bytes x\<rparr>\<rparr>)))"

definition rch_handle :: "r_notification \<Rightarrow> world \<Rightarrow> world res" where
  "rch_handle n w =
     (case n of
        FINISH_FLOW msg_id max_seq_num p \<Rightarrow> FinishFlow msg_id max_seq_num p w
      | CONFIRM_STOP msg_id p \<Rightarrow> ConfirmStop msg_id p w)"

definition rch_PollNotification :: "world \<Rightarrow> world res" where
  "rch_PollNotification w = rfold rch_handle (w_rnotif w) (w\<lparr>w_rnotif := []\<rparr>)"

text \<open>One turn of the loop of \<open>Run\<close>: \<open>recv\<close> is the outcome of \<open>RecvFrom\<close>, a datagram that is now in
  the buffer at address \<open>buf\<close>, or that nothing was there (\<open>None\<close>).\<close>

definition rch_Run_turn :: "(dbl \<Rightarrow> nat) \<Rightarrow> rticks \<Rightarrow> nat \<Rightarrow> byte list option \<Rightarrow> world \<Rightarrow> world res" where
  "rch_Run_turn to_float tk buf recv w =
     rbind (case recv of
              None \<Rightarrow> Inr w
            | Some d \<Rightarrow> HandleReceive to_float tk buf (length d) (w\<lparr>w_mem := store_bytes (w_mem w) buf d\<rparr>))
       (\<lambda>w1. rbind (PollReceiveRequest w1) rch_PollNotification)"

end
