(* ===== verification/Reassembly.thy ===== *)
theory Reassembly
  imports Receiving_Channel
begin

text \<open>
  What the receiver makes of the datagrams of a message, whatever order they arrive in and however
  often (\<open>ReceivingChannel::HandleReceive\<close> with \<open>LtMessageExt::CopyGradients\<close>).

  The parameters of a transfer are in the record \<open>transfer\<close>: the content of the message, the payload
  bound of a packet, the address \<open>tr_rb\<close> of the receive buffer and \<open>tr_buf\<close> of the message. The
  invariant \<open>recv_state\<close> describes the state after the packets with numbers in \<open>R\<close> have arrived.
\<close>

record transfer =
  tr_data :: "byte list"
  tr_bound :: nat
  tr_rb :: nat
  tr_buf :: nat
  tr_me :: int
  tr_src :: nat
  tr_msg_id :: nat
  tr_conn :: nat
  tr_stop_at :: nat

abbreviation tr_key :: "transfer \<Rightarrow> int" where
  "tr_key t \<equiv> i32 (int (tr_msg_id t))"

definition chunk_len :: "transfer \<Rightarrow> nat \<Rightarrow> nat" where
  "chunk_len t i = min (tr_bound t) (length (tr_data t) - i * tr_bound t)"

definition chunk_ids :: "transfer \<Rightarrow> nat set" where
  "chunk_ids t = {i. i * tr_bound t < length (tr_data t)}"

text \<open>Sizes fit the packet fields, and the receive buffer does not overlap the message.\<close>

definition transfer_ok :: "transfer \<Rightarrow> bool" where
  "transfer_ok t \<longleftrightarrow> 0 < tr_bound t \<and> tr_bound t + kGradPacketHeader < 2 ^ 16 \<and> length (tr_data t) < 2 ^ 32 - 1
     \<and> tr_src t < 2 ^ 16 \<and> tr_msg_id t < 2 ^ 32 \<and> tr_rb t + kGradPacketHeader < 2 ^ 64
     \<and> (tr_rb t + 2 ^ 16 \<le> tr_buf t \<or> tr_buf t + length (tr_data t) \<le> tr_rb t)"

definition chunk_packet :: "transfer \<Rightarrow> nat \<Rightarrow> grad_packet \<Rightarrow> bool" where
  "chunk_packet t i p \<longleftrightarrow> wf_packet p \<and> gp_dst_comm_id p = u16_of_int (tr_me t) \<and> gp_src_comm_id p = tr_src t
     \<and> gp_msg_id p = tr_msg_id t \<and> gp_seq p = i \<and> gp_offset p = i * tr_bound t
     \<and> gp_len p = chunk_len t i + kGradPacketHeader"

definition chunk_datagram :: "transfer \<Rightarrow> nat \<Rightarrow> byte list \<Rightarrow> bool" where
  "chunk_datagram t i d \<longleftrightarrow> (\<exists>p. chunk_packet t i p
     \<and> d = header_bytes p @ take (chunk_len t i) (drop (i * tr_bound t) (tr_data t)))"

text \<open>The byte that ends up at offset \<open>k\<close> of chunk \<open>i\<close>: the first eight are the bytes of the pointer
  that \<open>HandleReceive\<close> stores into the packet.\<close>

definition delivered :: "transfer \<Rightarrow> nat \<Rightarrow> nat \<Rightarrow> byte" where
  "delivered t i k =
     (if k < 8 then le_bytes 8 (tr_rb t + kGradPacketHeader) ! k else tr_data t ! (i * tr_bound t + k))"

definition is_stop :: "transfer \<Rightarrow> int \<times> buffer \<Rightarrow> bool" where
  "is_stop t e \<longleftrightarrow> e = (int (tr_src t), out_buffer (StopRequest (tr_key t) (tr_me t) 0))"

definition got :: "transfer \<Rightarrow> nat set \<Rightarrow> nat" where
  "got t R = (\<Sum>i \<in> R. chunk_len t i)"

definition recv_msg_ok :: "transfer \<Rightarrow> nat set \<Rightarrow> lt_message_ext \<Rightarrow> bool" where
  "recv_msg_ok t R x \<longleftrightarrow> lx_buf x = tr_buf t \<and> lx_size x = length (tr_data t) \<and> lx_bound x = tr_stop_at t
     \<and> tree_invar (lx_block_mgr x) \<and> tree_taken (lx_block_mgr x) = R \<and> lx_bytes x = got t R
     \<and> tm_size (lx_block_mgr x) \<le> num_chunks (tr_bound t) (length (tr_data t))
     \<and> lx_stopped x = (R \<noteq> {} \<and> tr_stop_at t \<le> got t R)"

definition recv_mem_ok :: "transfer \<Rightarrow> nat set \<Rightarrow> mem \<Rightarrow> bool" where
  "recv_mem_ok t R m \<longleftrightarrow> (\<forall>i \<in> R. \<forall>k < chunk_len t i. m (tr_buf t + i * tr_bound t + k) = delivered t i k)"

definition recv_state :: "transfer \<Rightarrow> nat \<Rightarrow> nat set \<Rightarrow> world \<Rightarrow> bool" where
  "recv_state t n0 R w \<longleftrightarrow> R \<subseteq> chunk_ids t \<and> w_comm_id w = tr_me t
     \<and> w_id_conn w (int (tr_src t)) = Some (Some (tr_conn t))
     \<and> (\<exists>c x. w_conns w (tr_conn t) = Some c \<and> cm_recv_msgs c (tr_key t) = Some x \<and> recv_msg_ok t R x)
     \<and> recv_mem_ok t R (w_mem w)
     \<and> length (filter (is_stop t) (w_rc_tx w)) = n0 + of_bool (R \<noteq> {} \<and> tr_stop_at t \<le> got t R)"

section \<open>Sums of chunks\<close>

lemma sum_chunks: "(\<Sum>i < n. chunk_len t i) = min (n * tr_bound t) (length (tr_data t))"
proof (induction n)
  case (Suc n)
  then show ?case
    by (cases "n * tr_bound t \<le> length (tr_data t)") (auto simp: chunk_len_def min_def)
qed simp

lemma chunk_ids_eq: "0 < tr_bound t \<Longrightarrow> chunk_ids t = {..<num_chunks (tr_bound t) (length (tr_data t))}"
  by (auto simp: chunk_ids_def num_chunks_iff)

lemma got_le:
  assumes "0 < tr_bound t" and "R \<subseteq> chunk_ids t"
  shows "got t R \<le> length (tr_data t)" and "finite R"
proof -
  let ?n = "num_chunks (tr_bound t) (length (tr_data t))"
  show "finite R" using assms chunk_ids_eq finite_subset by fastforce
  have "got t R \<le> got t {..<?n}"
    unfolding got_def using assms chunk_ids_eq by (intro sum_mono2) auto
  also have "\<dots> \<le> length (tr_data t)" unfolding got_def sum_chunks by simp
  finally show "got t R \<le> length (tr_data t)" .
qed

lemma got_all:
  assumes "0 < tr_bound t"
  shows "got t (chunk_ids t) = length (tr_data t)"
proof -
  have "\<not> num_chunks (tr_bound t) (length (tr_data t)) * tr_bound t < length (tr_data t)"
    using num_chunks_iff [OF assms, of _ "length (tr_data t)"] by blast
  then show ?thesis unfolding got_def chunk_ids_eq [OF assms] sum_chunks by simp
qed

lemma chunk_len_pos: "transfer_ok t \<Longrightarrow> i \<in> chunk_ids t \<Longrightarrow> 0 < chunk_len t i"
  by (auto simp: chunk_len_def chunk_ids_def transfer_ok_def)

lemma chunk_fits:
  assumes "transfer_ok t" and "i \<in> chunk_ids t"
  shows "i * tr_bound t + chunk_len t i \<le> length (tr_data t)" and "chunk_len t i \<le> tr_bound t"
    and "i < 2 ^ 32 - 1"
proof -
  show "i * tr_bound t + chunk_len t i \<le> length (tr_data t)" "chunk_len t i \<le> tr_bound t"
    using assms(2) by (auto simp: chunk_len_def chunk_ids_def)
  have "i * 1 \<le> i * tr_bound t" using assms(1) by (intro mult_le_mono) (auto simp: transfer_ok_def)
  moreover have "i * tr_bound t < length (tr_data t)" "length (tr_data t) < 2 ^ 32 - 1"
    using assms by (simp_all add: chunk_ids_def transfer_ok_def)
  ultimately show "i < 2 ^ 32 - 1" by linarith
qed

lemma chunks_disjoint:
  assumes "i \<noteq> j" and "k < chunk_len t i" and "l < chunk_len t j"
  shows "i * tr_bound t + k \<noteq> j * tr_bound t + l"
proof -
  have kl: "k < tr_bound t" "l < tr_bound t" using assms(2,3) by (auto simp: chunk_len_def)
  have "(i * tr_bound t + k) div tr_bound t = i" "(j * tr_bound t + l) div tr_bound t = j"
    using kl by simp_all
  with assms(1) show ?thesis by metis
qed

lemma wf_i32: "wf_int (i32 x)"
proof -
  have "0 \<le> (x + 2 ^ 31) mod 2 ^ 32" "(x + 2 ^ 31) mod 2 ^ 32 < 2 ^ 32" by simp_all
  then show ?thesis by (simp add: wf_int_def i32_def)
qed

section \<open>One datagram\<close>

lemma store_other: "\<not> (a \<le> x \<and> x < a + length bs) \<Longrightarrow> store_bytes m a bs x = m x"
  by (auto simp: store_bytes_def)

lemma store_hit: "k < length bs \<Longrightarrow> store_bytes m a bs (a + k) = bs ! k"
  by (simp add: store_bytes_def)

text \<open>The memory after \<open>HandleReceive\<close> has set \<open>grad_ptr\<close>.\<close>

definition stored :: "transfer \<Rightarrow> byte list \<Rightarrow> mem \<Rightarrow> mem" where
  "stored t d m = store_bytes (store_bytes m (tr_rb t) d) (tr_rb t + kGradPacketHeader)
     (le_bytes 8 (tr_rb t + kGradPacketHeader))"

lemma stored_packet:
  assumes "transfer_ok t" and "wf_packet p" and "d = header_bytes p @ body"
  shows "load_packet (stored t d m) (tr_rb t) = p\<lparr>gp_grad_ptr := tr_rb t + kGradPacketHeader\<rparr>"
proof -
  have "load_bytes (stored t d m) (tr_rb t) kGradPacketHeader = header_bytes p"
    by (rule nth_equalityI)
      (auto simp: load_bytes_nth stored_def store_bytes_def assms(3) nth_append)
  moreover have "load_bytes (stored t d m) (tr_rb t + kGradPacketHeader) 8 = le_bytes 8 (tr_rb t + kGradPacketHeader)"
    unfolding stored_def by (rule load_store_bytes) simp
  ultimately show ?thesis
    using load_packet_header [OF assms(2)] assms(1) by (simp add: le_val_le_bytes transfer_ok_def)
qed

lemma stored_body:
  assumes "d = header_bytes p @ body" and "k < length body"
  shows "stored t d m (tr_rb t + kGradPacketHeader + k)
    = (if k < 8 then le_bytes 8 (tr_rb t + kGradPacketHeader) ! k else body ! k)"
proof (cases "k < 8")
  case True
  then show ?thesis by (simp add: stored_def store_hit)
next
  case False
  then have "stored t d m (tr_rb t + kGradPacketHeader + k) = store_bytes m (tr_rb t) d (tr_rb t + (kGradPacketHeader + k))"
    unfolding stored_def by (subst store_other) (auto simp: add.assoc)
  also have "\<dots> = d ! (kGradPacketHeader + k)" using assms by (intro store_hit) simp
  finally show ?thesis using False assms by (simp add: nth_append)
qed

lemma stored_message:
  assumes "transfer_ok t" and "length d < 2 ^ 16" and "a < length (tr_data t)"
  shows "stored t d m (tr_buf t + a) = m (tr_buf t + a)"
  using assms unfolding stored_def
  by (subst store_other, force simp: transfer_ok_def kGradPacketHeader_def)
    (rule store_other, auto simp: transfer_ok_def)

lemma monitor_frame:
  assumes "monitor to_float tk dest p n c w = (c', w')"
  shows "cm_recv_msgs c' = cm_recv_msgs c" and "w_mem w' = w_mem w" and "w_conns w' = w_conns w"
    and "w_id_conn w' = w_id_conn w" and "w_comm_id w' = w_comm_id w"
    and "filter (is_stop t) (w_rc_tx w') = filter (is_stop t) (w_rc_tx w)"
proof -
  have "\<not> is_stop t (dest, out_buffer (RateAdjustment r))" for r
    by (simp add: is_stop_def out_buffer_def Buffer_alloc_def set_msg_length_def GetOutBufferSize_def Let_def)
  then show "cm_recv_msgs c' = cm_recv_msgs c" "w_mem w' = w_mem w" "w_conns w' = w_conns w"
    "w_id_conn w' = w_id_conn w" "w_comm_id w' = w_comm_id w"
    "filter (is_stop t) (w_rc_tx w') = filter (is_stop t) (w_rc_tx w)"
    using assms
    by (auto simp: monitor_def RequestRateAdjustment_def Let_def split: prod.splits if_splits)
qed

lemma chunk_datagram_parts:
  assumes "transfer_ok t" and "i \<in> chunk_ids t" and "chunk_datagram t i d"
  obtains p body where "chunk_packet t i p" and "d = header_bytes p @ body"
    and "body = take (chunk_len t i) (drop (i * tr_bound t) (tr_data t))" and "length body = chunk_len t i"
    and "length d < 2 ^ 16"
proof -
  from assms(3) obtain p where p: "chunk_packet t i p"
    "d = header_bytes p @ take (chunk_len t i) (drop (i * tr_bound t) (tr_data t))"
    by (auto simp: chunk_datagram_def)
  have len: "length (take (chunk_len t i) (drop (i * tr_bound t) (tr_data t))) = chunk_len t i"
    by (simp add: chunk_len_def min_def)
  moreover from this have "length d < 2 ^ 16"
    using chunk_fits(2) [OF assms(1,2)] assms(1) p(2) by (simp add: transfer_ok_def)
  ultimately show thesis using that p by blast
qed

text \<open>The memory of the message after the gradients have been copied.\<close>

lemma copied_mem:
  assumes "transfer_ok t" and "i \<in> chunk_ids t" and "R \<subseteq> chunk_ids t" and "i \<notin> R" and "recv_mem_ok t R m"
    and "d = header_bytes p @ body" and "body = take (chunk_len t i) (drop (i * tr_bound t) (tr_data t))"
    and "length body = chunk_len t i" and "length d < 2 ^ 16"
  shows "recv_mem_ok t (insert i R)
    (memcpy (stored t d m) (tr_buf t + i * tr_bound t) (tr_rb t + kGradPacketHeader) (chunk_len t i))"
  unfolding recv_mem_ok_def
proof (intro ballI allI impI)
  fix j k
  assume j: "j \<in> insert i R" and k: "k < chunk_len t j"
  let ?m = "memcpy (stored t d m) (tr_buf t + i * tr_bound t) (tr_rb t + kGradPacketHeader) (chunk_len t i)"
  show "?m (tr_buf t + j * tr_bound t + k) = delivered t j k"
  proof (cases "j = i")
    case True
    with k have "?m (tr_buf t + j * tr_bound t + k) = stored t d m (tr_rb t + kGradPacketHeader + k)"
      by (simp add: memcpy_def)
    moreover have "body ! k = tr_data t ! (i * tr_bound t + k)"
      using k True assms(8) chunk_fits(1) [OF assms(1,2)] unfolding assms(7) by simp
    ultimately show ?thesis
      using stored_body [OF assms(6)] k True assms(8) by (simp add: delivered_def)
  next
    case False
    with j have jR: "j \<in> R" by simp
    then have jc: "j * tr_bound t + chunk_len t j \<le> length (tr_data t)"
      using chunk_fits(1) [OF assms(1)] assms(3) by blast
    have "\<not> (tr_buf t + i * tr_bound t \<le> tr_buf t + j * tr_bound t + k
        \<and> tr_buf t + j * tr_bound t + k < tr_buf t + i * tr_bound t + chunk_len t i)"
    proof
      assume "tr_buf t + i * tr_bound t \<le> tr_buf t + j * tr_bound t + k
        \<and> tr_buf t + j * tr_bound t + k < tr_buf t + i * tr_bound t + chunk_len t i"
      then have le: "i * tr_bound t \<le> j * tr_bound t + k" and lt: "j * tr_bound t + k < i * tr_bound t + chunk_len t i"
        by simp_all
      then have "j * tr_bound t + k - i * tr_bound t < chunk_len t i" by linarith
      from chunks_disjoint [OF False k this] le show False by simp
    qed
    then have "?m (tr_buf t + j * tr_bound t + k) = stored t d m (tr_buf t + (j * tr_bound t + k))"
      by (auto simp: memcpy_def add.assoc)
    also have "\<dots> = m (tr_buf t + (j * tr_bound t + k))"
      using jc k by (intro stored_message [OF assms(1,9)]) simp
    also have "\<dots> = delivered t j k" using assms(5) jR k by (simp add: recv_mem_ok_def add.assoc)
    finally show ?thesis .
  qed
qed

lemma stored_mem_ok:
  assumes "transfer_ok t" and "R \<subseteq> chunk_ids t" and "recv_mem_ok t R m" and "length d < 2 ^ 16"
  shows "recv_mem_ok t R (stored t d m)"
  unfolding recv_mem_ok_def
proof (intro ballI allI impI)
  fix j k
  assume "j \<in> R" and "k < chunk_len t j"
  moreover from this have "j * tr_bound t + k < length (tr_data t)"
    using chunk_fits(1) [OF assms(1)] assms(2) by fastforce
  ultimately show "stored t d m (tr_buf t + j * tr_bound t + k) = delivered t j k"
    using stored_message [OF assms(1,4), of "j * tr_bound t + k"] assms(3)
    by (simp add: recv_mem_ok_def add.assoc)
qed

text \<open>A datagram of the message takes the state for \<open>R\<close> to the state for \<open>R\<close> and its number.\<close>

lemma recv_step:
  assumes "transfer_ok t" and "recv_state t n0 R w" and "i \<in> chunk_ids t" and "chunk_datagram t i d"
  shows "\<exists>w'. HandleReceive to_float tk (tr_rb t) (length d) (w\<lparr>w_mem := store_bytes (w_mem w) (tr_rb t) d\<rparr>) = Inr w'
    \<and> recv_state t n0 (insert i R) w'"
proof -
  from chunk_datagram_parts [OF assms(1,3,4)] obtain p body where p: "chunk_packet t i p"
    "d = header_bytes p @ body" "body = take (chunk_len t i) (drop (i * tr_bound t) (tr_data t))"
    "length body = chunk_len t i" "length d < 2 ^ 16" by metis
  from assms(2) obtain c x where st: "R \<subseteq> chunk_ids t" "w_comm_id w = tr_me t"
    "w_id_conn w (int (tr_src t)) = Some (Some (tr_conn t))" "w_conns w (tr_conn t) = Some c"
    "cm_recv_msgs c (tr_key t) = Some x" "recv_msg_ok t R x" "recv_mem_ok t R (w_mem w)"
    "length (filter (is_stop t) (w_rc_tx w)) = n0 + of_bool (R \<noteq> {} \<and> tr_stop_at t \<le> got t R)"
    by (auto simp: recv_state_def)
  let ?m = "stored t d (w_mem w)" and ?w0 = "w\<lparr>w_mem := stored t d (w_mem w)\<rparr>"
  let ?p = "p\<lparr>gp_grad_ptr := tr_rb t + kGradPacketHeader\<rparr>"
  have wf: "wf_packet p" using p(1) by (simp add: chunk_packet_def)
  note pkt = stored_packet [OF assms(1) wf p(2), of "w_mem w"]
  obtain c1 w1 where mon: "monitor to_float tk (int (tr_src t)) (tr_conn t) (length d) c ?w0 = (c1, w1)"
    by fastforce
  note fr = monitor_frame [OF mon]
  from p(1) have pf: "gp_seq ?p = i" "gp_offset ?p = i * tr_bound t" "gp_len ?p = chunk_len t i + kGradPacketHeader"
    "gp_dst_comm_id ?p = u16_of_int (tr_me t)" "gp_src_comm_id ?p = tr_src t" "gp_msg_id ?p = tr_msg_id t"
    by (simp_all add: chunk_packet_def)
  from st(6) have xo: "lx_buf x = tr_buf t" "lx_size x = length (tr_data t)" "lx_bound x = tr_stop_at t"
    "tree_invar (lx_block_mgr x)" "tree_taken (lx_block_mgr x) = R" "lx_bytes x = got t R"
    "lx_stopped x = (R \<noteq> {} \<and> tr_stop_at t \<le> got t R)"
    "tm_size (lx_block_mgr x) \<le> num_chunks (tr_bound t) (length (tr_data t))" by (auto simp: recv_msg_ok_def)
  note cf = chunk_fits [OF assms(1,3)] and pos = chunk_len_pos [OF assms(1,3)]
  have bpos: "0 < tr_bound t" using assms(1) by (simp add: transfer_ok_def)
  note gl = got_le [OF bpos st(1)]
  have ilt: "i < num_chunks (tr_bound t) (length (tr_data t))" using assms(3) by (simp add: chunk_ids_eq [OF bpos])
  have small: "length (tr_data t) < 4294967295" "chunk_len t i + kGradPacketHeader < 65536"
    using assms(1) cf(2) by (auto simp: transfer_ok_def)
  have side: "gp_seq ?p < 2 ^ 32 - 1" "kGradPacketHeader \<le> gp_len ?p" "gp_len ?p < 2 ^ 16"
    "gp_offset ?p + (gp_len ?p - kGradPacketHeader) \<le> lx_size x"
    "gp_offset ?p + (gp_len ?p - kGradPacketHeader) < 2 ^ 32"
    "lx_bytes x + (gp_len ?p - kGradPacketHeader) < 2 ^ 64"
    unfolding pf xo using cf gl(1) small by auto
  from CopyGradients_ok [OF xo(4) side, of "w_mem w1"] obtain bm where bm: "tree_invar bm"
    "tree_taken bm = insert i R"
    "CopyGradients (w_mem w1) x ?p = (if i \<in> R then Inr (0, w_mem w1, x\<lparr>lx_block_mgr := bm\<rparr>)
       else Inr (chunk_len t i, memcpy (w_mem w1) (tr_buf t + i * tr_bound t) (tr_rb t + kGradPacketHeader) (chunk_len t i),
                 x\<lparr>lx_block_mgr := bm, lx_bytes := got t R + chunk_len t i\<rparr>))"
    "tm_size bm = max (tm_size (lx_block_mgr x)) (Suc i)"
    unfolding pf xo by auto
  have bsz: "tm_size bm \<le> num_chunks (tr_bound t) (length (tr_data t))" using bm(4) xo(8) ilt by simp
  have m0: "store_bytes (w_mem (w\<lparr>w_mem := store_bytes (w_mem w) (tr_rb t) d\<rparr>)) (tr_rb t + kGradPacketHeader)
      (le_bytes 8 (tr_rb t + kGradPacketHeader)) = ?m" by (simp add: stored_def)
  have handle: "HandleReceive to_float tk (tr_rb t) (length d) (w\<lparr>w_mem := store_bytes (w_mem w) (tr_rb t) d\<rparr>) =
      rbind (CopyGradients (w_mem w1) x ?p) (\<lambda>(copied, m1, x1).
        let w2 = w1\<lparr>w_mem := m1\<rparr> in
        if copied > 0 \<and> FinishReceiving x1 \<and> \<not> lx_stopped x1
        then Inr (rc_Enqueue (int (tr_src t)) (out_buffer (StopRequest (tr_key t) (w_comm_id w2) 0))
                   (set_conn (tr_conn t) (c1\<lparr>cm_recv_msgs := (cm_recv_msgs c1)(tr_key t \<mapsto> x1\<lparr>lx_stopped := True\<rparr>)\<rparr>) w2))
        else Inr (set_conn (tr_conn t) (c1\<lparr>cm_recv_msgs := (cm_recv_msgs c1)(tr_key t \<mapsto> x1)\<rparr>) w2))"
    unfolding HandleReceive_def Let_def m0 pkt pf(4-6) using st(2-5) mon fr(1) by (simp add: deref_def)
  show ?thesis
  proof (cases "i \<in> R")
    case True
    then have ins: "insert i R = R" by blast
    show ?thesis
      unfolding handle bm(3) ins using True st(1-3,8) fr xo(1-7) bm(1,2) bsz stored_mem_ok [OF assms(1) st(1,7) p(5)]
      by (simp add: recv_state_def recv_msg_ok_def ins)
  next
    case False
    have gi: "got t (insert i R) = got t R + chunk_len t i"
      using False gl(2) by (simp add: got_def)
    note cm = copied_mem [OF assms(1,3) st(1) False st(7) p(2-5)]
    have ids: "insert i R \<subseteq> chunk_ids t" using assms(3) st(1) by simp
    show ?thesis
      unfolding handle bm(3) using False st(2,3,8) fr xo(1-7) bm(1,2) bsz cm ids gi pos
      by (auto simp: recv_state_def recv_msg_ok_def FinishReceiving_def is_stop_def Let_def)
  qed
qed

text \<open>Any sequence of datagrams of the message; \<open>tks i\<close> are the clock readings while the \<open>i\<close>-th one is handled.\<close>

definition receive_all :: "(dbl \<Rightarrow> nat) \<Rightarrow> (nat \<Rightarrow> rticks) \<Rightarrow> nat \<Rightarrow> byte list list \<Rightarrow> world \<Rightarrow> world res" where
  "receive_all to_float tks rb ds w =
     rfold (\<lambda>(i, d) w. HandleReceive to_float (tks i) rb (length d) (w\<lparr>w_mem := store_bytes (w_mem w) rb d\<rparr>))
       (List.enumerate 0 ds) w"

lemma receive_all_ok:
  assumes "transfer_ok t" and "recv_state t n0 R w" and "list_all2 (chunk_datagram t) is ds"
    and "set is \<subseteq> chunk_ids t"
  shows "\<exists>w'. receive_all to_float tks (tr_rb t) ds w = Inr w' \<and> recv_state t n0 (R \<union> set is) w'"
proof -
  let ?step = "\<lambda>(i, d) w. HandleReceive to_float (tks i) (tr_rb t) (length d) (w\<lparr>w_mem := store_bytes (w_mem w) (tr_rb t) d\<rparr>)"
  have "\<exists>w'. rfold ?step (List.enumerate k ds) w = Inr w' \<and> recv_state t n0 (R \<union> set is) w'" for k
    using assms(3,2,4)
  proof (induction "is" ds arbitrary: k R w rule: list_all2_induct)
    case Nil
    then show ?case by simp
  next
    case (Cons i "is" d ds)
    from recv_step [OF assms(1) Cons.prems(1) _ Cons.hyps(1), of to_float "tks k"] Cons.prems(2)
    obtain w1 where "?step (k, d) w = Inr w1" "recv_state t n0 (insert i R) w1" by auto
    with Cons.IH [of "insert i R" w1 "Suc k"] Cons.prems(2) show ?case by auto
  qed
  then show ?thesis by (simp add: receive_all_def)
qed

section \<open>Properties\<close>

text \<open>The receiver after a receive request for the message, before any datagram.\<close>

definition awaiting :: "transfer \<Rightarrow> world \<Rightarrow> bool" where
  "awaiting t w \<longleftrightarrow> w_comm_id w = tr_me t \<and> w_id_conn w (int (tr_src t)) = Some (Some (tr_conn t))
     \<and> (\<exists>c. w_conns w (tr_conn t) = Some c \<and> cm_recv_msgs c (tr_key t) =
          Some ((LtMessageExt \<lparr>lm_msg_id = tr_msg_id t, lm_buf = tr_buf t, lm_size = length (tr_data t)\<rparr>)
                  \<lparr>lx_bound := tr_stop_at t\<rparr>))
     \<and> filter (is_stop t) (w_rc_tx w) = []"

lemma awaiting_state: "awaiting t w \<Longrightarrow> recv_state t 0 {} w"
  using TreeBlockMgr_invar [of 0]
  by (auto simp: awaiting_def recv_state_def recv_msg_ok_def recv_mem_ok_def got_def LtMessageExt_def)

text \<open>C1: Reassembly. Whatever datagrams of a message arrive, in any order and with duplicates, the
  receiver never aborts; it counts each packet once, so that the bytes received are the sum of the
  distinct payloads (all of the message when every packet came); every received payload is at its
  place in the message, except for its first eight bytes; and a single stop request is sent, as
  soon as the bytes received reach the bound.\<close>

theorem reassembly:
  assumes "transfer_ok t" and "awaiting t w" and "list_all2 (chunk_datagram t) is ds" and "set is \<subseteq> chunk_ids t"
  shows "\<exists>w' c x. receive_all to_float tks (tr_rb t) ds w = Inr w'
    \<and> w_conns w' (tr_conn t) = Some c \<and> cm_recv_msgs c (tr_key t) = Some x
    \<and> lx_bytes x = (\<Sum>i \<in> set is. chunk_len t i)
    \<and> (set is = chunk_ids t \<longrightarrow> lx_bytes x = length (tr_data t))
    \<and> (\<forall>i \<in> set is. \<forall>k. 8 \<le> k \<and> k < chunk_len t i \<longrightarrow>
         w_mem w' (tr_buf t + i * tr_bound t + k) = tr_data t ! (i * tr_bound t + k))
    \<and> length (filter (is_stop t) (w_rc_tx w')) = of_bool (is \<noteq> [] \<and> tr_stop_at t \<le> lx_bytes x)"
proof -
  from receive_all_ok [OF assms(1) awaiting_state [OF assms(2)] assms(3,4)] obtain w' where w':
    "receive_all to_float tks (tr_rb t) ds w = Inr w'" "recv_state t 0 (set is) w'" by auto
  have "got t (chunk_ids t) = length (tr_data t)" using assms(1) by (simp add: got_all transfer_ok_def)
  moreover from w'(2) obtain c x where "w_conns w' (tr_conn t) = Some c" "cm_recv_msgs c (tr_key t) = Some x"
    "recv_msg_ok t (set is) x" by (auto simp: recv_state_def)
  ultimately show ?thesis
    using w' by (intro exI [of _ w'] exI [of _ c] exI [of _ x])
      (auto simp: recv_state_def recv_msg_ok_def recv_mem_ok_def got_def delivered_def)
qed

text \<open>C37: The gradients are corrupted on the way: \<open>HandleReceive\<close> stores the address of the
  gradients into the \<open>grad_ptr\<close> field of the packet, which in the receive buffer is where the
  gradients themselves begin. After every packet has arrived, the first eight bytes of each packet's
  payload in the message are the bytes of that address; the message received equals the message
  sent only if it consists of that address at each of these places.\<close>

theorem payload_head_overwritten:
  assumes "transfer_ok t" and "awaiting t w" and "list_all2 (chunk_datagram t) is ds" and "set is = chunk_ids t"
    and "i \<in> chunk_ids t" and "8 \<le> chunk_len t i"
  shows "\<exists>w'. receive_all to_float tks (tr_rb t) ds w = Inr w'
    \<and> load_bytes (w_mem w') (tr_buf t + i * tr_bound t) 8 = le_bytes 8 (tr_rb t + kGradPacketHeader)
    \<and> (load_bytes (w_mem w') (tr_buf t) (length (tr_data t)) = tr_data t \<longrightarrow>
         take 8 (drop (i * tr_bound t) (tr_data t)) = le_bytes 8 (tr_rb t + kGradPacketHeader))"
proof -
  from receive_all_ok [OF assms(1) awaiting_state [OF assms(2)] assms(3), of to_float tks] assms(4) obtain w'
    where w': "receive_all to_float tks (tr_rb t) ds w = Inr w'" "recv_state t 0 (chunk_ids t) w'" by auto
  have m: "w_mem w' (tr_buf t + i * tr_bound t + k) = le_bytes 8 (tr_rb t + kGradPacketHeader) ! k" if "k < 8" for k
    using w'(2) assms(5,6) that by (simp add: recv_state_def recv_mem_ok_def delivered_def)
  then have head: "load_bytes (w_mem w') (tr_buf t + i * tr_bound t) 8 = le_bytes 8 (tr_rb t + kGradPacketHeader)"
    by (intro nth_equalityI) (auto simp: load_bytes_nth)
  note cf = chunk_fits(1) [OF assms(1,5)]
  have "take 8 (drop (i * tr_bound t) (tr_data t)) = load_bytes (w_mem w') (tr_buf t + i * tr_bound t) 8"
    if eq: "load_bytes (w_mem w') (tr_buf t) (length (tr_data t)) = tr_data t"
  proof (rule nth_equalityI, goal_cases)
    case (2 k)
    have "tr_data t ! (i * tr_bound t + k) = w_mem w' (tr_buf t + (i * tr_bound t + k))"
      using load_bytes_nth [of "i * tr_bound t + k" "length (tr_data t)" "w_mem w'" "tr_buf t"] eq cf assms(6) 2
      by simp
    moreover have "i * tr_bound t \<le> length (tr_data t)" using cf by simp
    ultimately show ?case using 2 by (simp add: load_bytes_nth add.assoc)
  qed (use cf assms(6) in simp)
  with w'(1) head show ?thesis by auto
qed

text \<open>C12: The retransmission request is exact. When a flow finishes before enough bytes have
  arrived, \<open>FinishFlow\<close> queues one request to the sender, and its blocks are the unique ascending
  list of maximal runs of the sequence numbers up to the last that have not arrived.\<close>

theorem finish_flow_requests_missing:
  assumes "transfer_ok t" and "recv_state t n0 R w" and "got t R < tr_stop_at t"
    and "max_seq + 1 = num_chunks (tr_bound t) (length (tr_data t))" and "R \<noteq> chunk_ids t"
    and "w_conns w (tr_conn t) = Some c" and "wf_int (tr_me t)"
  shows "\<exists>w' b bs. FinishFlow (tr_key t) max_seq (tr_conn t) w = Inr w'
    \<and> runs_of ({..max_seq} - R) bs
    \<and> w_rc_tx w' = w_rc_tx w @ [(cm_dest_comm_id c, b)]
    \<and> decode_signal (drop 4 (bf_data b)) =
        Inr (RetransmitRequest (tr_key t) (tr_me t) (length bs) (concat (map block_bytes bs)))
    \<and> le_val (take 4 (bf_data b)) = u32 (16 + length bs * sizeof_Block)"
proof -
  let ?n = "num_chunks (tr_bound t) (length (tr_data t))"
  have bpos: "0 < tr_bound t" using assms(1) by (simp add: transfer_ok_def)
  from assms(2,6) obtain x where st: "R \<subseteq> {..<?n}" "w_comm_id w = tr_me t" "cm_recv_msgs c (tr_key t) = Some x"
    "recv_msg_ok t R x" by (auto simp: recv_state_def chunk_ids_eq [OF bpos])
  from st(4) assms(3) have xo: "tree_invar (lx_block_mgr x)" "tree_taken (lx_block_mgr x) = R"
    "\<not> FinishReceiving x" "tm_size (lx_block_mgr x) \<le> ?n" by (auto simp: recv_msg_ok_def FinishReceiving_def)
  have n: "max_seq < 2 ^ 32 - 1"
    using chunk_fits(3) [OF assms(1), of max_seq] assms(4) by (auto simp: chunk_ids_eq [OF bpos])
  obtain bm where bm: "(if tm_size (lx_block_mgr x) \<le> max_seq
      then tree_Resize (lx_block_mgr x) (u32 (max_seq + 1)) else Inr (lx_block_mgr x)) = Inr bm"
    "tree_invar bm" "tree_taken bm = R" "tm_size bm = Suc max_seq"
  proof (cases "tm_size (lx_block_mgr x) \<le> max_seq")
    case True
    with tree.Resize_ok [OF xo(1), of "Suc max_seq"] n obtain bm where "tree_Resize (lx_block_mgr x) (Suc max_seq) = Inr bm"
      "tree_invar bm" "tm_size bm = Suc max_seq" "tree_taken bm = R" by (auto simp: xo(2))
    with True n that [of bm] show ?thesis by (simp add: cast_simps)
  next
    case False
    with that [of "lx_block_mgr x"] xo assms(4) show ?thesis by simp
  qed
  let ?bs = "tm_tree bm" and ?N = "tree_ByteSize bm"
  from tree_Serialize_ok [OF bm(2), of "replicate ?N 0"] bm(3,4)
  have ser: "tree_SerializeToBuffer bm (replicate ?N 0) ?N = Inr (concat (map block_bytes ?bs))"
    and runs: "runs_of ({..<Suc max_seq} - R) ?bs" by auto
  have "R \<noteq> {..<Suc max_seq}" using assms(4,5) by (simp add: chunk_ids_eq [OF bpos])
  with tree.ByteSize_zero_iff [OF bm(2)] bm(3,4) have N: "?N \<noteq> 0" by simp
  have len: "?N = length ?bs * sizeof_Block" by (simp add: tree_ByteSize_def)
  have "2 * length ?bs \<le> Suc max_seq + 1" by (rule runs_of_half [OF runs]) auto
  with n have small: "length ?bs < 4294967296" "16 + length ?bs * sizeof_Block < 4294967296 * 8"
    by (auto simp: sizeof_Block_def)
  have num: "u32 (?N div sizeof_Block) = length ?bs"
    using small by (simp add: len sizeof_Block_def cast_simps)
  let ?sig = "RetransmitRequest (tr_key t) (tr_me t) (length ?bs) (concat (map block_bytes ?bs))"
  let ?out = "out_buffer ?sig"
  have out: "bf_data ?out = replicate 4 0 @ signal_bytes ?sig" "bf_size ?out = 20 + length ?bs * sizeof_Block"
    by (simp_all add: out_buffer_def set_msg_length_def Buffer_alloc_def GetOutBufferSize_def Let_def)
  let ?b = "?out\<lparr>bf_data := le_bytes 4 (u32 (16 + length ?bs * sizeof_Block)) @ signal_bytes ?sig\<rparr>"
  have wl: "WriteLength ?out = Inr ?b"
    by (simp add: WriteLength_def put_bytes_def out del: signal_bytes.simps)
  have dec: "decode_signal (signal_bytes ?sig) = Inr ?sig"
    using small assms(7) by (intro decode_signal_bytes) (simp add: wf_i32)
  let ?w1 = "set_conn (tr_conn t) (c\<lparr>cm_recv_msgs := (cm_recv_msgs c)(tr_key t \<mapsto> x\<lparr>lx_block_mgr := bm\<rparr>)\<rparr>) w"
  have "FinishFlow (tr_key t) max_seq (tr_conn t) w = Inr (rc_Enqueue (cm_dest_comm_id c) ?b ?w1)"
    using assms(6) st(2,3) xo(3) bm(1) N ser num wl
    by (simp add: FinishFlow_def deref_def Let_def del: signal_bytes.simps)
  moreover have "le_val (take 4 (bf_data ?b)) = u32 (16 + length ?bs * sizeof_Block)"
    by (simp add: le_val_le_bytes u32_def del: signal_bytes.simps)
  ultimately show ?thesis
    using runs dec by (intro exI [of _ "rc_Enqueue (cm_dest_comm_id c) ?b ?w1"] exI [of _ ?b] exI [of _ ?bs])
      (simp add: lessThan_Suc_atMost del: signal_bytes.simps)
qed

text \<open>C40: A message whose size is not a multiple of four never completes without loss: with loss ratio
  0 the bound is rounded up past the size, so even after every packet has arrived no stop request
  has been sent, and the flow finish triggers no retransmission either.\<close>

theorem unaligned_never_finishes:
  assumes "transfer_ok t" and "awaiting t w" and "list_all2 (chunk_datagram t) is ds" and "set is = chunk_ids t"
    and "length (tr_data t) mod 4 \<noteq> 0" and "loss_bound (length (tr_data t)) 0 = Inr (tr_stop_at t)"
    and "max_seq + 1 = num_chunks (tr_bound t) (length (tr_data t))"
  shows "\<exists>w' w''. receive_all to_float tks (tr_rb t) ds w = Inr w' \<and> filter (is_stop t) (w_rc_tx w') = []
    \<and> FinishFlow (tr_key t) max_seq (tr_conn t) w' = Inr w'' \<and> w_rc_tx w'' = w_rc_tx w'"
proof -
  let ?S = "length (tr_data t)"
  have bpos: "0 < tr_bound t" and small: "?S < 4294967295" using assms(1) by (auto simp: transfer_ok_def)
  have "tr_stop_at t = (?S + 3) div 4 * 4"
    using assms(6) small by (simp add: loss_bound_def AlignUp_def Let_def cast_simps add.commute)
  moreover have "?S < (?S + 3) div 4 * 4" using assms(5) by presburger
  ultimately have stop: "?S < tr_stop_at t" by simp
  have gall: "got t (chunk_ids t) = ?S" using got_all [OF bpos] .
  from receive_all_ok [OF assms(1) awaiting_state [OF assms(2)] assms(3), of to_float tks] assms(4) obtain w'
    where w': "receive_all to_float tks (tr_rb t) ds w = Inr w'" "recv_state t 0 (chunk_ids t) w'" by auto
  from w'(2) obtain c x where cx: "w_conns w' (tr_conn t) = Some c" "cm_recv_msgs c (tr_key t) = Some x"
    "recv_msg_ok t (chunk_ids t) x" by (auto simp: recv_state_def)
  have ids: "chunk_ids t = {..max_seq}" unfolding chunk_ids_eq [OF bpos] assms(7) [symmetric] by auto
  from cx(3) [unfolded recv_msg_ok_def gall] stop have x: "tree_invar (lx_block_mgr x)" "tree_taken (lx_block_mgr x) = {..max_seq}"
    "tm_size (lx_block_mgr x) \<le> Suc max_seq" "\<not> FinishReceiving x"
    unfolding ids assms(7) [symmetric] by (simp_all add: FinishReceiving_def)
  have "max_seq < tm_size (lx_block_mgr x)" using tree.taken_bound [OF x(1)] x(2) by auto
  with x have "tm_size (lx_block_mgr x) = Suc max_seq" by simp
  with tree.ByteSize_zero_iff [OF x(1)] x(2) have "tree_ByteSize (lx_block_mgr x) = 0"
    by (simp add: lessThan_Suc_atMost)
  with cx x \<open>tm_size (lx_block_mgr x) = Suc max_seq\<close>
  have "\<exists>w''. FinishFlow (tr_key t) max_seq (tr_conn t) w' = Inr w'' \<and> w_rc_tx w'' = w_rc_tx w'"
    by (simp add: FinishFlow_def deref_def Let_def)
  moreover have "filter (is_stop t) (w_rc_tx w') = []"
    using w'(2) stop gall by (simp add: recv_state_def)
  ultimately show ?thesis using w'(1) by blast
qed

text \<open>The receive completes exactly once: confirming the stop posts one completion that carries
  the bytes received and forgets the message, and a second confirmation for it fails its
  \<open>CHECK\<close>.\<close>

lemma confirm_stop_once:
  assumes "recv_state t n0 R w" and "w_conns w (tr_conn t) = Some c"
  shows "\<exists>w'. ConfirmStop (tr_key t) (tr_conn t) w = Inr w'
    \<and> w_cq w' = w_cq w @ [\<lparr>cp_msg_id = tr_key t, cp_type = kRecv, cp_remote_comm_id = cm_dest_comm_id c,
                          cp_bytes = got t R\<rparr>]
    \<and> (\<exists>e. ConfirmStop (tr_key t) (tr_conn t) w' = Inl (Check_Failed e))"
  using assms by (auto simp: recv_state_def recv_msg_ok_def ConfirmStop_def deref_def cq_Push_def)

section \<open>A concrete transfer\<close>

text \<open>Thirteen bytes in packets of at most eight.\<close>

definition demo_transfer :: "nat \<Rightarrow> transfer" where
  "demo_transfer stop = \<lparr>tr_data = replicate 13 1, tr_bound = 8, tr_rb = 0, tr_buf = 65536, tr_me = 1, tr_src = 2,
     tr_msg_id = 7, tr_conn = 0, tr_stop_at = stop\<rparr>"

definition demo_chunk :: "nat \<Rightarrow> grad_packet" where
  "demo_chunk i = \<lparr>gp_msg_id = 7, gp_offset = i * 8, gp_seq = i, gp_len = min 8 (13 - i * 8) + 20, gp_dst_comm_id = 1,
     gp_src_comm_id = 2, gp_tos = 0, gp_is_last = 0, gp_grad_ptr = 0\<rparr>"

definition demo_datagram :: "nat \<Rightarrow> byte list" where
  "demo_datagram i = header_bytes (demo_chunk i) @ take (min 8 (13 - i * 8)) (drop (i * 8) (replicate 13 1))"

definition recv_world :: "nat \<Rightarrow> world" where
  "recv_world stop = \<lparr>w_comm_id = 1, w_mss = 28, w_init_rate = 1, w_mem = (\<lambda>_. 0),
     w_conns = [0 \<mapsto> (ConnMeta 2 0 1 100 0)\<lparr>cm_recv_msgs := [7 \<mapsto>
        (LtMessageExt \<lparr>lm_msg_id = 7, lm_buf = 65536, lm_size = 13\<rparr>)\<lparr>lx_bound := stop\<rparr>]\<rparr>],
     w_id_conn = [2 \<mapsto> Some 0], w_cq = [], w_routes = prio_routes_init, w_conn_metas = [], w_conn_meta_map = Map.empty,
     w_pnotif = [], w_sr_queue = [], w_pmeter = \<lparr>mt_sample = 0, mt_cnt = 0, mt_bytes = 0, mt_msgs = 0, mt_tp = 0,
     mt_interval = 0\<rparr>, w_rc_tx = [], w_rr_queue = [], w_rnotif = [], w_meta_queue = []\<rparr>"

definition demo_rticks :: "nat \<Rightarrow> rticks" where
  "demo_rticks n = \<lparr>rt_elapsed = 0, rt_rate = 0, rt_clear = 0\<rparr>"

lemma demo_transfer_ok: "transfer_ok (demo_transfer stop)"
  by (simp add: transfer_ok_def demo_transfer_def kGradPacketHeader_def)

lemma demo_awaiting: "awaiting (demo_transfer stop) (recv_world stop)"
  by (simp add: awaiting_def demo_transfer_def recv_world_def cast_simps)

lemma demo_chunk_ids: "chunk_ids (demo_transfer stop) = {0, 1}"
  by (auto simp: chunk_ids_def demo_transfer_def)

lemma demo_num_chunks: "num_chunks (tr_bound (demo_transfer stop)) (length (tr_data (demo_transfer stop))) = 2"
  by (simp add: demo_transfer_def num_chunks_def)

lemma demo_chunk_datagram: "i < 2 \<Longrightarrow> chunk_datagram (demo_transfer stop) i (demo_datagram i)"
  unfolding chunk_datagram_def
  by (rule exI [of _ "demo_chunk i"])
    (auto simp: chunk_packet_def demo_datagram_def demo_transfer_def chunk_len_def wf_packet_def demo_chunk_def
      u16_of_int_def kGradPacketHeader_def less_2_cases_iff)

lemma demo_datagrams: "list_all2 (chunk_datagram (demo_transfer stop)) [1, 0, 1] (map demo_datagram [1, 0, 1])"
  using demo_chunk_datagram [of 0] demo_chunk_datagram [of 1] by simp

lemma demo_state: "recv_state (demo_transfer stop) 0 {} (recv_world stop)"
  by (rule awaiting_state [OF demo_awaiting])

theorem reassembly_witness:
  "\<exists>w' c x. receive_all (\<lambda>_. 0) demo_rticks 0 (map demo_datagram [1, 0, 1]) (recv_world 8) = Inr w'
    \<and> w_conns w' 0 = Some c \<and> cm_recv_msgs c 7 = Some x \<and> lx_bytes x = 13"
  using reassembly [OF demo_transfer_ok demo_awaiting demo_datagrams, of 8 "\<lambda>_. 0" demo_rticks] demo_chunk_ids [of 8]
  by (auto simp: demo_transfer_def cast_simps)

theorem payload_head_overwritten_witness:
  "\<exists>w'. receive_all (\<lambda>_. 0) demo_rticks 0 (map demo_datagram [1, 0, 1]) (recv_world 8) = Inr w'
    \<and> load_bytes (w_mem w') 65536 8 = le_bytes 8 20"
  using payload_head_overwritten [OF demo_transfer_ok demo_awaiting demo_datagrams, of 8 0 "\<lambda>_. 0" demo_rticks]
    demo_chunk_ids [of 8]
  by (auto simp: demo_transfer_def chunk_len_def kGradPacketHeader_def)

theorem finish_flow_requests_missing_witness:
  "\<exists>w' b bs. FinishFlow 7 1 0 (recv_world 8) = Inr w' \<and> runs_of ({..1} - {}) bs
    \<and> w_rc_tx w' = [(2, b)]"
proof -
  obtain c where c: "w_conns (recv_world 8) (tr_conn (demo_transfer 8)) = Some c" "cm_dest_comm_id c = 2"
    by (simp add: demo_transfer_def recv_world_def ConnMeta_def)
  have t: "got (demo_transfer 8) {} < tr_stop_at (demo_transfer 8)" "wf_int (tr_me (demo_transfer 8))"
    "1 + 1 = num_chunks (tr_bound (demo_transfer 8)) (length (tr_data (demo_transfer 8)))"
    "{} \<noteq> chunk_ids (demo_transfer 8)"
    unfolding demo_num_chunks demo_chunk_ids by (simp_all add: got_def demo_transfer_def wf_int_def)
  have "w_rc_tx (recv_world 8) = []" "tr_key (demo_transfer 8) = 7" "tr_conn (demo_transfer 8) = 0"
    by (simp_all add: recv_world_def demo_transfer_def cast_simps)
  with finish_flow_requests_missing [OF demo_transfer_ok demo_state t(1,3,4) c(1) t(2)] c(2) show ?thesis by auto
qed

theorem unaligned_never_finishes_witness:
  "\<exists>w' w''. receive_all (\<lambda>_. 0) demo_rticks 0 (map demo_datagram [1, 0, 1]) (recv_world 16) = Inr w'
    \<and> FinishFlow 7 1 0 w' = Inr w'' \<and> w_rc_tx w'' = w_rc_tx w'"
proof -
  have "loss_bound (length (tr_data (demo_transfer 16))) 0 = Inr (tr_stop_at (demo_transfer 16))"
    by (simp add: loss_bound_def AlignUp_def Let_def demo_transfer_def cast_simps)
  moreover have "length (tr_data (demo_transfer 16)) mod 4 \<noteq> 0" "tr_key (demo_transfer 16) = 7"
    "tr_conn (demo_transfer 16) = 0" "tr_rb (demo_transfer 16) = 0"
    by (simp_all add: demo_transfer_def cast_simps)
  ultimately show ?thesis
    using unaligned_never_finishes [OF demo_transfer_ok demo_awaiting demo_datagrams, of 16 1 "\<lambda>_. 0" demo_rticks]
      demo_chunk_ids [of 16] demo_num_chunks [of 16]
    by auto
qed

end
