(* ===== verification/Priority_Channel.thy ===== *)
theory Priority_Channel
  imports Conn_State
begin

text \<open>
  \<open>PriorityChannel\<close> (\<open>src/src/mlt/priority_channel.h\<close>, \<open>priority_channel.cc\<close>), the sending side:
  one packet per connection and round from the first message being sent, one from the first
  retransmission request, and the notifications of the other threads.

  The readings of the clock for a connection in one round are a record \<open>ticks\<close>; \<open>clk p\<close> gives them
  for the connection at address \<open>p\<close>. The record also has the random numbers that the priority
  function draws for the packet. The packet being filled starts as \<open>pkt0\<close>, an uninitialised object
  whose fields are all overwritten.
\<close>

record ticks =
  tk_try :: nat
  tk_elapsed :: nat
  tk_clear :: nat
  tk_meter :: nat
  tk_draw :: draw

definition pkt0 :: grad_packet where
  "pkt0 = \<lparr>gp_msg_id = 0, gp_offset = 0, gp_seq = 0, gp_len = 0, gp_dst_comm_id = 0, gp_src_comm_id = 0,
     gp_tos = 0, gp_is_last = 0, gp_grad_ptr = 0\<rparr>"

section \<open>Operations\<close>

definition FindConnMetaById :: "int \<Rightarrow> world \<Rightarrow> (nat \<times> world) res" where
  "FindConnMetaById comm_id w =
     (let w' = (if w_conn_meta_map w comm_id = None
                then w\<lparr>w_conn_meta_map := (w_conn_meta_map w)(comm_id \<mapsto> 0)\<rparr> else w);
          i = the (w_conn_meta_map w' comm_id)
      in if i < length (w_conn_metas w') then Inr (w_conn_metas w' ! i, w')
         else Inl (Undefined_Behaviour ''conn_metas_[]''))"

definition pc_Enqueue :: "int \<Rightarrow> lt_message \<Rightarrow> prio_func \<Rightarrow> world \<Rightarrow> world" where
  "pc_Enqueue dest msg prio_func w = w\<lparr>w_sr_queue := w_sr_queue w @ [(dest, LtMessageExt msg, prio_func)]\<rparr>"

definition pc_Notify :: "p_notification \<Rightarrow> world \<Rightarrow> world" where
  "pc_Notify n w = w\<lparr>w_pnotif := w_pnotif w @ [n]\<rparr>"

text \<open>Popping the send requests.\<close>

definition accept_request :: "int \<times> lt_message_ext \<times> prio_func \<Rightarrow> world \<Rightarrow> world res" where
  "accept_request sr w =
     (let (dest, x, prio_func) = sr; msg_id = i32 (int (lx_msg_id x)) in
      rbind (FindConnMetaById dest w) (\<lambda>(p, w1).
      rbind (deref w1 p) (\<lambda>c.
      rbind (check (om_find msg_id (cm_sending_msgs c) = None) ''conn_meta->sending_msgs.count(msg_id) == 0'')
        (\<lambda>_. Inr (set_conn p (c\<lparr>cm_sending_msgs := om_insert msg_id (x, prio_func) (cm_sending_msgs c)\<rparr>) w1)))))"

definition PopRequests :: "world \<Rightarrow> world res" where
  "PopRequests w = rfold accept_request (w_sr_queue w) (w\<lparr>w_sr_queue := []\<rparr>)"

text \<open>\<open>std::map::insert\<close> of a node does not replace an existing entry.\<close>

definition om_insert_new :: "int \<Rightarrow> 'v \<Rightarrow> 'v omap \<Rightarrow> 'v omap" where
  "om_insert_new k v m = (if om_find k m = None then om_insert k v m else m)"

text \<open>The connection after a packet of message \<open>x\<close> has been cut: \<open>x1\<close> is the message with its new
  \<open>bytes_sent\<close>.\<close>

definition after_send :: "conn_meta \<Rightarrow> int \<Rightarrow> lt_message_ext \<Rightarrow> prio_func \<Rightarrow> rate_meter \<Rightarrow> conn_meta" where
  "after_send c key x1 prio_func tx =
     (let c1 = c\<lparr>cm_tx_meter := tx, cm_sending_msgs := om_insert key (x1, prio_func) (cm_sending_msgs c)\<rparr>;
          msg_id = i32 (int (lx_msg_id x1))
      in if lx_bytes x1 \<ge> lx_size x1
         then (case om_find msg_id (cm_sending_msgs c1) of
                 None \<Rightarrow> c1
               | Some sr \<Rightarrow> c1\<lparr>cm_sending_msgs := om_erase msg_id (cm_sending_msgs c1),
                              cm_retransmitting_msgs := om_insert_new msg_id sr (cm_retransmitting_msgs c1)\<rparr>)
         else c1)"

definition poll_sending_one :: "(nat \<Rightarrow> ticks) \<Rightarrow> nat \<Rightarrow> nat \<times> world \<Rightarrow> (nat \<times> world) res" where
  "poll_sending_one clk p st =
     (let (bytes, w) = st; tk = clk p in
      rbind (deref w p) (\<lambda>c.
        case om_begin (cm_sending_msgs c) of
          None \<Rightarrow> Inr (bytes, w)
        | Some (key, (x, prio_func)) \<Rightarrow>
            let nbytes = GetBytes (w_mss w) x in
            if dbl_gt (TryBytesPerSecond (cm_tx_meter c) nbytes (tk_try tk)) (cm_sending_rate c)
            then Inr (bytes, w)
            else
              rbind (PartitionOne (w_comm_id w) (w_mss w) prio_func (tk_draw tk) pkt0 (cm_dest_comm_id c) x) (\<lambda>(pkt, x1).
              rbind (RoutePacket (w_routes w) (w_rc_tx w) pkt (gp_is_last pkt \<noteq> 0)) (\<lambda>(r, rc).
              rbind (meter_Add (w_pmeter w) (gp_len pkt) (tk_meter tk)) (\<lambda>(_, mt).
                let tx = account (cm_tx_meter c) nbytes (tk_elapsed tk) (tk_clear tk)
                in Inr (u64 (bytes + gp_len pkt),
                        set_conn p (after_send c key x1 prio_func tx)
                          (w\<lparr>w_routes := r, w_rc_tx := rc, w_pmeter := mt\<rparr>)))))))"

definition PollSendingMessages :: "(nat \<Rightarrow> ticks) \<Rightarrow> world \<Rightarrow> (nat \<times> world) res" where
  "PollSendingMessages clk w = rfold (poll_sending_one clk) (w_conn_metas w) (0, w)"

text \<open>The header of a retransmission request in a received buffer.\<close>

record rr_header =
  rr_type :: nat
  rr_msg_id :: int
  rr_comm_id :: int
  rr_num_blocks :: nat

definition rr_header_of :: "buffer \<Rightarrow> rr_header res" where
  "rr_header_of b =
     (if length (bf_data b) < 16 then Inl (Undefined_Behaviour ''read past the buffer'')
      else Inr \<lparr>rr_type = field_at (bf_data b) 0 4, rr_msg_id = in_int (bf_data b) 4,
                rr_comm_id = in_int (bf_data b) 8, rr_num_blocks = field_at (bf_data b) 12 4\<rparr>)"

definition rr_block :: "buffer \<Rightarrow> nat \<Rightarrow> block res" where
  "rr_block b i =
     (if length (bf_data b) < 16 + Suc i * sizeof_Block then Inl (Undefined_Behaviour ''hdr->blocks[]'')
      else Inr (nth_block (drop 16 (bf_data b)) i))"

text \<open>Advancing the position in a request after a packet.\<close>

definition next_state :: "buffer \<Rightarrow> nat \<Rightarrow> block \<Rightarrow> retransmit_state \<Rightarrow> retransmit_state res" where
  "next_state b num_blocks blk st =
     (let seq = u32 (rs_seq_num st + 1) in
      if seq = b_last blk then
        let bn = u32 (rs_block_num st + 1) in
        if bn < num_blocks
        then rbind (rr_block b bn) (\<lambda>nb. Inr \<lparr>rs_block_num = bn, rs_seq_num = b_first nb\<rparr>)
        else Inr \<lparr>rs_block_num = bn, rs_seq_num = seq\<rparr>
      else Inr (st\<lparr>rs_seq_num := seq\<rparr>))"

definition poll_retransmit_one :: "(nat \<Rightarrow> ticks) \<Rightarrow> nat \<Rightarrow> nat \<times> world \<Rightarrow> (nat \<times> world) res" where
  "poll_retransmit_one clk p ac =
     (let (bytes, w) = ac; tk = clk p in
      rbind (deref w p) (\<lambda>c.
        case om_begin (cm_retransmit_reqs c) of
          None \<Rightarrow> Inr (bytes, w)
        | Some (key, (b, st)) \<Rightarrow>
            rbind (rr_header_of b) (\<lambda>hdr.
            rbind (check (cm_dest_comm_id c = rr_comm_id hdr) ''dest == hdr->comm_id'') (\<lambda>_.
              case om_find (rr_msg_id hdr) (cm_retransmitting_msgs c) of
                None \<Rightarrow> Inl (Check_Failed ''it != conn_meta->retransmitting_msgs.end()'')
              | Some (x, prio_func) \<Rightarrow>
                  let nbytes = GetBytes (w_mss w) x in
                  if dbl_gt (TryBytesPerSecond (cm_tx_meter c) nbytes (tk_try tk)) (cm_sending_rate c)
                  then Inr (bytes, w)
                  else
                    rbind (check (rs_block_num st < rr_num_blocks hdr) ''state->block_num < hdr->num_blocks'') (\<lambda>_.
                    rbind (rr_block b (rs_block_num st)) (\<lambda>blk.
                    rbind (check (b_first blk \<le> rs_seq_num st \<and> rs_seq_num st < b_last blk)
                             ''block.first <= state->seq_num && state->seq_num < block.last'') (\<lambda>_.
                    rbind (PartitionOneBySeq (w_comm_id w) (w_mss w) prio_func (tk_draw tk) pkt0 (rr_comm_id hdr) x
                             (i32 (int (rs_seq_num st)))) (\<lambda>pkt.
                    rbind (RoutePacket (w_routes w) (w_rc_tx w) pkt
                             (u32 (rs_block_num st + 1) = rr_num_blocks hdr
                              \<and> u32 (rs_seq_num st + 1) = b_last blk)) (\<lambda>(r, rc).
                    rbind (meter_Add (w_pmeter w) (gp_len pkt) (tk_meter tk)) (\<lambda>(_, mt).
                    rbind (next_state b (rr_num_blocks hdr) blk st) (\<lambda>st1.
                      let tx = account (cm_tx_meter c) nbytes (tk_elapsed tk) (tk_clear tk);
                          reqs = (if rs_block_num st1 = rr_num_blocks hdr
                                  then om_erase (i32 (int (lx_msg_id x))) (om_insert key (b, st1) (cm_retransmit_reqs c))
                                  else om_insert key (b, st1) (cm_retransmit_reqs c))
                      in Inr (u64 (bytes + gp_len pkt),
                              set_conn p (c\<lparr>cm_tx_meter := tx, cm_retransmit_reqs := reqs\<rparr>)
                                (w\<lparr>w_routes := r, w_rc_tx := rc, w_pmeter := mt\<rparr>)))))))))))))"

definition PollRetransmitRequest :: "(nat \<Rightarrow> ticks) \<Rightarrow> world \<Rightarrow> (nat \<times> world) res" where
  "PollRetransmitRequest clk w = rfold (poll_retransmit_one clk) (w_conn_metas w) (0, w)"

definition StopFlow :: "nat \<Rightarrow> world \<Rightarrow> world res" where
  "StopFlow flow_id w =
     (let (comm_id, msg_id) = DecodeFlow flow_id in
      rbind (FindConnMetaById comm_id w) (\<lambda>(p, w1).
      rbind (deref w1 p) (\<lambda>c.
        let c1 = (if om_find msg_id (cm_sending_msgs c) = None
                  then c\<lparr>cm_retransmit_reqs := om_erase msg_id (cm_retransmit_reqs c),
                         cm_retransmitting_msgs := om_erase msg_id (cm_retransmitting_msgs c)\<rparr>
                  else c\<lparr>cm_sending_msgs := om_erase msg_id (cm_sending_msgs c)\<rparr>);
            w2 = rc_Enqueue comm_id (out_buffer (StopConfirm msg_id)) (set_conn p c1 w1)
        in Inr (w2\<lparr>w_cq := cq_Push (w_cq w2)
                    \<lparr>cp_msg_id = msg_id, cp_type = kSend, cp_remote_comm_id = comm_id, cp_bytes = 0\<rparr>\<rparr>))))"

definition remove_first :: "nat \<Rightarrow> nat list \<Rightarrow> nat list" where
  "remove_first p ps = remove1 p ps"

definition handle_notification :: "p_notification \<Rightarrow> world \<Rightarrow> world res" where
  "handle_notification n w =
     (case n of
        ADD_CONNECTION p \<Rightarrow>
          rbind (deref w p) (\<lambda>c.
            Inr (w\<lparr>w_conn_meta_map := (w_conn_meta_map w)(cm_dest_comm_id c \<mapsto> length (w_conn_metas w)),
                   w_conn_metas := w_conn_metas w @ [p]\<rparr>))
      | REMOVE_CONNECTION p \<Rightarrow>
          rbind (deref w p) (\<lambda>c.
            let comm_id = cm_dest_comm_id c in
            if p \<notin> set (w_conn_metas w) then Inl (Undefined_Behaviour ''erase(end())'')
            else
              let w1 = w\<lparr>w_conn_meta_map := (w_conn_meta_map w)(comm_id := None),
                         w_conn_metas := remove_first p (w_conn_metas w)\<rparr>
              in Inr (case w_id_conn w comm_id of
                        Some (Some q) \<Rightarrow> w1\<lparr>w_conns := (w_conns w1)(q := None),
                                            w_id_conn := (w_id_conn w1)(comm_id \<mapsto> None)\<rparr>
                      | _ \<Rightarrow> w1\<lparr>w_id_conn := (w_id_conn w1)(comm_id \<mapsto> None)\<rparr>))
      | STOP_FLOW flow_id \<Rightarrow> StopFlow flow_id w
      | REQUEST_RETRANSMIT b \<Rightarrow>
          rbind (rr_header_of b) (\<lambda>hdr.
          rbind (check (rr_type hdr = signal_code kRetransmitRequest) ''hdr->type == SignalType::kRetransmitRequest'') (\<lambda>_.
          rbind (check (rr_num_blocks hdr > 0) ''hdr->num_blocks > 0'') (\<lambda>_.
          rbind (FindConnMetaById (rr_comm_id hdr) w) (\<lambda>(p, w1).
          rbind (rr_block b 0) (\<lambda>blk.
          rbind (deref w1 p) (\<lambda>c.
            Inr (set_conn p (c\<lparr>cm_retransmit_reqs :=
                   om_insert (rr_msg_id hdr) (b, \<lparr>rs_block_num = 0, rs_seq_num = b_first blk\<rparr>)
                     (cm_retransmit_reqs c)\<rparr>) w1))))))))"

definition pc_PollNotification :: "world \<Rightarrow> world res" where
  "pc_PollNotification w = rfold handle_notification (w_pnotif w) (w\<lparr>w_pnotif := []\<rparr>)"

text \<open>One turn of the loop of \<open>Run\<close> after the I/O events: requests, 100 rounds of polling,
  notifications.\<close>

fun poll_rounds :: "nat \<Rightarrow> (nat \<Rightarrow> nat \<Rightarrow> ticks) \<Rightarrow> nat \<times> world \<Rightarrow> (nat \<times> world) res" where
  "poll_rounds 0 clk st = Inr st"
| "poll_rounds (Suc k) clk st =
     rbind (PollSendingMessages (clk (2 * k + 1)) (snd st)) (\<lambda>(n1, w1).
     rbind (PollRetransmitRequest (clk (2 * k)) w1) (\<lambda>(n2, w2).
       poll_rounds k clk (u64 (fst st + n1 + n2), w2)))"

definition pc_Run_turn :: "(nat \<Rightarrow> nat \<Rightarrow> ticks) \<Rightarrow> world \<Rightarrow> world res" where
  "pc_Run_turn clk w =
     rbind (PopRequests w) (\<lambda>w1.
     rbind (poll_rounds 100 clk (0, w1)) (\<lambda>(_, w2). pc_PollNotification w2))"

section \<open>Sending\<close>

definition throttled :: "ticks \<Rightarrow> int \<Rightarrow> conn_meta \<Rightarrow> lt_message_ext \<Rightarrow> bool" where
  "throttled tk mss c x \<longleftrightarrow>
     dbl_gt (TryBytesPerSecond (cm_tx_meter c) (GetBytes mss x) (tk_try tk)) (cm_sending_rate c)"

text \<open>A message in transmission: it fits, its priority function accepts its packets, and the packets
  have an endpoint whatever priority is drawn.\<close>

definition sendable :: "world \<Rightarrow> conn_meta \<Rightarrow> lt_message_ext \<Rightarrow> prio_func \<Rightarrow> bool" where
  "sendable w c x prio_func \<longleftrightarrow> fits (w_mss w) (lx_size x) \<and> lx_buf x + lx_size x < 2 ^ 64 \<and> lx_size x < 2 ^ 31
     \<and> prio_ok (w_comm_id w) (w_mss w) prio_func pkt0 (cm_dest_comm_id c) x \<and> routes_wf (w_routes w)
     \<and> (\<forall>i < num_chunks (seg_bound (w_mss w)) (lx_size x). \<forall>d.
          HasPrio (w_routes w) (int (gp_tos (nth_packet (w_comm_id w) (w_mss w) prio_func pkt0 (cm_dest_comm_id c) x d i))))"

abbreviation packet_of :: "world \<Rightarrow> conn_meta \<Rightarrow> lt_message_ext \<Rightarrow> prio_func \<Rightarrow> draw \<Rightarrow> nat \<Rightarrow> grad_packet" where
  "packet_of w c x prio_func \<equiv> nth_packet (w_comm_id w) (w_mss w) prio_func pkt0 (cm_dest_comm_id c) x"

text \<open>With the eight priorities \<open>MLTCommunicator::Start\<close> opens by default, the messages the default
  priority function can send are those of a multiple of four bytes (and a segment that leaves a
  multiple of four bytes for the payload when there is more than one packet).\<close>

lemma sendable_default:
  assumes "fits (w_mss w) (lx_size x)" and "lx_buf x + lx_size x < 2 ^ 64" and "lx_size x < 2 ^ 31" and "0 < lx_size x"
    and "start_routes 8 = Inr r" and "w_routes w = r\<lparr>pr_endpoints := es\<rparr>"
    and "length es = length (pr_endpoints r)"
  shows "sendable w c x default_prio \<longleftrightarrow>
    4 dvd lx_size x \<and> (seg_bound (w_mss w) < lx_size x \<longrightarrow> 4 dvd seg_bound (w_mss w))"
proof -
  from start_routes_ok [of 8] obtain r' where r': "start_routes 8 = Inr r'" "routes_wf r'"
    "\<And>t. HasPrio r' t \<longleftrightarrow> (\<exists>i. 0 \<le> i \<and> i < 8 \<and> (t = 32 * i \<or> t = 32 * i + 1))" by auto
  then have "routes_wf (w_routes w)" "\<And>t. HasPrio (w_routes w) t \<longleftrightarrow> (\<exists>i. 0 \<le> i \<and> i < 8 \<and> (t = 32 * i \<or> t = 32 * i + 1))"
    using assms(5-7) by (simp_all add: routes_wf_def HasPrio_def)
  with default_prio_routed [of "w_routes w"] assms(1-3) default_prio_ok [OF assms(1,4)]
  show ?thesis unfolding sendable_def by blast
qed

lemma HasPrio_bound: "HasPrio r (int t) \<Longrightarrow> t < kMaxPrio"
  by (simp add: HasPrio_def)

lemma meter_Add_ok: "mt_cnt m + 1 < 2 ^ 31 \<Longrightarrow> is_ok (meter_Add m n now)"
  by (simp add: meter_Add_def Let_def)

lemma sendable_route:
  assumes "sendable w c x prio_func" and "i < num_chunks (seg_bound (w_mss w)) (lx_size x)"
  obtains r rc where "RoutePacket (w_routes w) (w_rc_tx w) (packet_of w c x prio_func d i) fin = Inr (r, rc)"
proof -
  from assms have "HasPrio (w_routes w) (int (gp_tos (packet_of w c x prio_func d i)))" "routes_wf (w_routes w)"
    unfolding sendable_def by blast+
  with RoutePacket_HasPrio [of "w_routes w" "packet_of w c x prio_func d i" "w_rc_tx w" fin] HasPrio_bound
  have "is_ok (RoutePacket (w_routes w) (w_rc_tx w) (packet_of w c x prio_func d i) fin)" by blast
  with that show thesis by (auto simp: is_ok_iff)
qed

lemma poll_sending_one_step:
  assumes "w_conns w p = Some c" and "om_begin (cm_sending_msgs c) = Some (key, (x, prio_func))"
    and "sendable w c x prio_func" and "i < num_chunks (seg_bound (w_mss w)) (lx_size x)"
    and "lx_bytes x = i * seg_bound (w_mss w)" and "\<not> throttled (clk p) (w_mss w) c x"
    and "mt_cnt (w_pmeter w) + 1 < 2 ^ 31"
  shows "\<exists>r rc mt tx. RoutePacket (w_routes w) (w_rc_tx w) (packet_of w c x prio_func (tk_draw (clk p)) i)
        (Suc i = num_chunks (seg_bound (w_mss w)) (lx_size x)) = Inr (r, rc)
    \<and> poll_sending_one clk p (bytes, w) =
        Inr (u64 (bytes + gp_len (packet_of w c x prio_func (tk_draw (clk p)) i)),
             set_conn p (after_send c key (x\<lparr>lx_bytes := min (Suc i * seg_bound (w_mss w)) (lx_size x)\<rparr>) prio_func tx)
               (w\<lparr>w_routes := r, w_rc_tx := rc, w_pmeter := mt\<rparr>))"
proof -
  let ?b = "seg_bound (w_mss w)" and ?pkt = "packet_of w c x prio_func (tk_draw (clk p)) i"
  let ?fin = "Suc i = num_chunks ?b (lx_size x)"
  from assms(3) have s: "fits (w_mss w) (lx_size x)" "lx_buf x + lx_size x < 2 ^ 64" "prio_ok (w_comm_id w) (w_mss w) prio_func pkt0 (cm_dest_comm_id c) x"
        "lx_size x < 2 ^ 31" by (auto simp: sendable_def)
  have "i < 2 ^ 31" using num_chunks_small(3) [OF s(1) assms(4)] s(4) by simp
  from PartitionOne_nth [OF s(1) assms(4) s(2) assms(5) this]
    PartitionOneBySeq_nth [OF s(1) assms(4) s(2,3)]
  have one: "PartitionOne (w_comm_id w) (w_mss w) prio_func (tk_draw (clk p)) pkt0 (cm_dest_comm_id c) x =
      Inr (?pkt, x\<lparr>lx_bytes := min (Suc i * ?b) (lx_size x)\<rparr>)" by simp
  have last: "(0 < gp_is_last ?pkt) = ?fin" by simp
  from sendable_route [OF assms(3,4)] obtain r rc where
    route: "RoutePacket (w_routes w) (w_rc_tx w) ?pkt ?fin = Inr (r, rc)" by blast
  from meter_Add_ok [OF assms(7), of "gp_len ?pkt" "tk_meter (clk p)"] obtain o1 mt where
    "meter_Add (w_pmeter w) (gp_len ?pkt) (tk_meter (clk p)) = Inr (o1, mt)" by (auto simp: is_ok_iff)
  with assms(1,2,6) one route show ?thesis
    by (intro exI [of _ r] exI [of _ rc] exI [of _ mt]
        exI [of _ "account (cm_tx_meter c) (GetBytes (w_mss w) x) (tk_elapsed (clk p)) (tk_clear (clk p))"])
      (simp add: poll_sending_one_def deref_def throttled_def Let_def last del: nth_packet_fields)
qed

lemma after_send_maps:
  assumes "om_invar (cm_sending_msgs c)" and "om_invar (cm_retransmitting_msgs c)" and "key = i32 (int (lx_msg_id x1))"
  shows "om_find key (cm_sending_msgs (after_send c key x1 prio_func tx)) =
      (if lx_size x1 \<le> lx_bytes x1 then None else Some (x1, prio_func))"
    and "om_find key (cm_retransmitting_msgs c) = None \<Longrightarrow>
      om_find key (cm_retransmitting_msgs (after_send c key x1 prio_func tx)) =
        (if lx_size x1 \<le> lx_bytes x1 then Some (x1, prio_func) else None)"
    and "k \<noteq> key \<Longrightarrow> om_find k (cm_sending_msgs (after_send c key x1 prio_func tx)) = om_find k (cm_sending_msgs c)"
    and "k \<noteq> key \<Longrightarrow>
      om_find k (cm_retransmitting_msgs (after_send c key x1 prio_func tx)) = om_find k (cm_retransmitting_msgs c)"
  using assms by (auto simp: after_send_def Let_def om.find_insert om.find_erase om_insert_new_def)

section \<open>Retransmission\<close>

text \<open>The sequence numbers a request still asks for, and when a position in it is valid.\<close>

definition remaining :: "block list \<Rightarrow> retransmit_state \<Rightarrow> nat list" where
  "remaining blocks st =
     (if rs_block_num st < length blocks
      then [rs_seq_num st..<b_last (blocks ! rs_block_num st)] @ block_seqs (drop (Suc (rs_block_num st)) blocks)
      else [])"

definition cursor_ok :: "block list \<Rightarrow> retransmit_state \<Rightarrow> bool" where
  "cursor_ok blocks st \<longleftrightarrow> rs_block_num st < length blocks
     \<and> b_first (blocks ! rs_block_num st) \<le> rs_seq_num st \<and> rs_seq_num st < b_last (blocks ! rs_block_num st)"

definition request_for :: "int \<Rightarrow> int \<Rightarrow> block list \<Rightarrow> buffer \<Rightarrow> bool" where
  "request_for msg_id comm_id blocks b \<longleftrightarrow> wf_int msg_id \<and> wf_int comm_id \<and> length blocks < 2 ^ 32
     \<and> (\<forall>blk \<in> set blocks. u32_block blk \<and> b_first blk < b_last blk)
     \<and> bf_data b = signal_bytes (RetransmitRequest msg_id comm_id (length blocks) (concat (map block_bytes blocks)))"

lemma request_header:
  assumes "request_for msg_id comm_id blocks b"
  shows "rr_header_of b = Inr \<lparr>rr_type = signal_code kRetransmitRequest, rr_msg_id = msg_id,
    rr_comm_id = comm_id, rr_num_blocks = length blocks\<rparr>"
  using assms
  by (simp add: request_for_def rr_header_of_def field_at_simps in_int_def in_int_bytes)

lemma request_block:
  assumes "request_for msg_id comm_id blocks b" and "i < length blocks"
  shows "rr_block b i = Inr (blocks ! i)"
proof -
  from assms(1) have b: "bf_data b = signal_bytes (RetransmitRequest msg_id comm_id (length blocks) (concat (map block_bytes blocks)))"
    and u: "\<And>blk. blk \<in> set blocks \<Longrightarrow> u32_block blk" by (auto simp: request_for_def)
  have "drop 16 (bf_data b) = concat (map block_bytes blocks)" by (simp add: b)
  moreover have "length (bf_data b) = 16 + length blocks * sizeof_Block" by (simp add: b)
  moreover have "Suc i * sizeof_Block \<le> length blocks * sizeof_Block" using assms(2) by (intro mult_le_mono1) simp
  ultimately show ?thesis
    using nth_block_concat [OF assms(2) u] by (simp add: rr_block_def)
qed

text \<open>One step moves to the next owed number.\<close>

lemma next_state_ok:
  assumes "request_for msg_id comm_id blocks b" and "cursor_ok blocks st"
  obtains st1 where "next_state b (length blocks) (blocks ! rs_block_num st) st = Inr st1"
    and "remaining blocks st = rs_seq_num st # remaining blocks st1"
    and "(rs_block_num st1 = length blocks) = (remaining blocks st1 = [])"
    and "remaining blocks st1 \<noteq> [] \<Longrightarrow> cursor_ok blocks st1"
    and "(u32 (rs_block_num st + 1) = length blocks \<and> u32 (rs_seq_num st + 1) = b_last (blocks ! rs_block_num st))
      = (remaining blocks st1 = [])"
proof -
  let ?i = "rs_block_num st" and ?n = "rs_seq_num st"
  let ?blk = "blocks ! ?i"
  from assms(2) have c: "?i < length blocks" "b_first ?blk \<le> ?n" "?n < b_last ?blk"
    by (auto simp: cursor_ok_def)
  from assms(1) have w: "length blocks < 2 ^ 32" "\<And>j. j < length blocks \<Longrightarrow> b_first (blocks ! j) < b_last (blocks ! j)"
    "b_last ?blk < 2 ^ 32" using c(1) by (auto simp: request_for_def u32_block_def)
  have u: "u32 (?i + 1) = Suc ?i" "u32 (?n + 1) = Suc ?n" using c w by (auto simp: cast_simps)
  have rem: "remaining blocks st = [?n..<b_last ?blk] @ block_seqs (drop (Suc ?i) blocks)"
    using c(1) by (simp add: remaining_def)
  consider (inside) "Suc ?n < b_last ?blk" | (switch) "Suc ?n = b_last ?blk" "Suc ?i < length blocks"
    | (last) "Suc ?n = b_last ?blk" "Suc ?i = length blocks" using c by fastforce
  then show thesis
  proof cases
    case inside
    have "remaining blocks (st\<lparr>rs_seq_num := Suc ?n\<rparr>) = [Suc ?n..<b_last ?blk] @ block_seqs (drop (Suc ?i) blocks)"
      using c(1) by (simp add: remaining_def)
    with inside c u rem that [of "st\<lparr>rs_seq_num := Suc ?n\<rparr>"] show ?thesis
      by (simp add: next_state_def cursor_ok_def upt_conv_Cons)
  next
    case switch
    let ?st = "\<lparr>rs_block_num = Suc ?i, rs_seq_num = b_first (blocks ! Suc ?i)\<rparr>"
    from switch(2) have "remaining blocks ?st = block_seqs (drop (Suc ?i) blocks)"
      by (simp add: remaining_def block_seqs_Cons flip: Cons_nth_drop_Suc)
    moreover have "block_seqs (drop (Suc ?i) blocks) \<noteq> []"
      using w(2) [OF switch(2)] switch(2) by (simp add: block_seqs_Cons flip: Cons_nth_drop_Suc)
    ultimately show ?thesis
      using switch c u rem w(2) [OF switch(2)] request_block [OF assms(1) switch(2)] that [of ?st]
      by (simp add: next_state_def cursor_ok_def upt_conv_Cons)
  next
    case last
    let ?st = "\<lparr>rs_block_num = length blocks, rs_seq_num = Suc ?n\<rparr>"
    have "remaining blocks ?st = []" by (simp add: remaining_def)
    with last c u rem that [of ?st] show ?thesis by (simp add: next_state_def upt_conv_Cons)
  qed
qed

lemma poll_retransmit_one_step:
  assumes "w_conns w p = Some c" and "om_begin (cm_retransmit_reqs c) = Some (key, (b, st))"
    and "request_for key (cm_dest_comm_id c) blocks b" and "cursor_ok blocks st"
    and "om_find key (cm_retransmitting_msgs c) = Some (x, prio_func)" and "key = i32 (int (lx_msg_id x))"
    and "sendable w c x prio_func" and "rs_seq_num st < num_chunks (seg_bound (w_mss w)) (lx_size x)"
    and "\<not> throttled (clk p) (w_mss w) c x" and "mt_cnt (w_pmeter w) + 1 < 2 ^ 31"
  shows "\<exists>st1 r rc mt tx. remaining blocks st = rs_seq_num st # remaining blocks st1
    \<and> (remaining blocks st1 \<noteq> [] \<longrightarrow> cursor_ok blocks st1)
    \<and> RoutePacket (w_routes w) (w_rc_tx w) (packet_of w c x prio_func (tk_draw (clk p)) (rs_seq_num st))
        (remaining blocks st1 = []) = Inr (r, rc)
    \<and> poll_retransmit_one clk p (bytes, w) =
        Inr (u64 (bytes + gp_len (packet_of w c x prio_func (tk_draw (clk p)) (rs_seq_num st))),
             set_conn p (c\<lparr>cm_tx_meter := tx, cm_retransmit_reqs :=
                 (let reqs = om_insert key (b, st1) (cm_retransmit_reqs c)
                  in if remaining blocks st1 = [] then om_erase key reqs else reqs)\<rparr>)
               (w\<lparr>w_routes := r, w_rc_tx := rc, w_pmeter := mt\<rparr>))"
proof -
  let ?n = "rs_seq_num st" and ?blk = "blocks ! rs_block_num st"
  let ?pkt = "packet_of w c x prio_func (tk_draw (clk p)) ?n"
  from next_state_ok [OF assms(3,4)] obtain st1 where
    ns: "next_state b (length blocks) ?blk st = Inr st1"
    and rem: "remaining blocks st = ?n # remaining blocks st1"
    and fin: "(rs_block_num st1 = length blocks) = (remaining blocks st1 = [])"
    and ok: "remaining blocks st1 \<noteq> [] \<Longrightarrow> cursor_ok blocks st1"
    and last: "(u32 (rs_block_num st + 1) = length blocks \<and> u32 (?n + 1) = b_last ?blk) = (remaining blocks st1 = [])"
    by metis
  from assms(7) have s: "fits (w_mss w) (lx_size x)" "lx_buf x + lx_size x < 2 ^ 64" "prio_ok (w_comm_id w) (w_mss w) prio_func pkt0 (cm_dest_comm_id c) x"
        "lx_size x < 2 ^ 31" by (auto simp: sendable_def)
  have "?n < 2 ^ 31" using num_chunks_small(3) [OF s(1) assms(8)] s(4) by simp
  then have seq: "i32 (int ?n) = int ?n" by (simp add: cast_simps)
  note one = PartitionOneBySeq_nth [OF s(1) assms(8) s(2,3)]
  from sendable_route [OF assms(7,8)] obtain r rc where
    route: "RoutePacket (w_routes w) (w_rc_tx w) ?pkt (remaining blocks st1 = []) = Inr (r, rc)" by blast
  from meter_Add_ok [OF assms(10), of "gp_len ?pkt" "tk_meter (clk p)"] obtain o1 mt where
    mt: "meter_Add (w_pmeter w) (gp_len ?pkt) (tk_meter (clk p)) = Inr (o1, mt)" by (auto simp: is_ok_iff)
  from assms(4) have c: "rs_block_num st < length blocks" "b_first ?blk \<le> ?n" "?n < b_last ?blk"
    by (auto simp: cursor_ok_def)
  have "poll_retransmit_one clk p (bytes, w) =
        Inr (u64 (bytes + gp_len ?pkt),
             set_conn p (c\<lparr>cm_tx_meter := account (cm_tx_meter c) (GetBytes (w_mss w) x)
                   (tk_elapsed (clk p)) (tk_clear (clk p)), cm_retransmit_reqs :=
                 (let reqs = om_insert key (b, st1) (cm_retransmit_reqs c)
                  in if remaining blocks st1 = [] then om_erase key reqs else reqs)\<rparr>)
               (w\<lparr>w_routes := r, w_rc_tx := rc, w_pmeter := mt\<rparr>))"
    using assms(1,2,5,9) c request_header [OF assms(3)] request_block [OF assms(3) c(1)]
    by (simp add: poll_retransmit_one_def deref_def throttled_def Let_def seq one last [simplified] route mt ns fin
        assms(6) [symmetric] res_simps del: nth_packet_fields)
  with rem ok route show ?thesis by metis
qed

section \<open>Pacing\<close>

text \<open>A run of the sending thread as the sequence of its visits to the connections, in the order in
  which \<open>PollSendingMessages\<close> and \<open>PollRetransmitRequest\<close> make them, with the clock readings of
  each.\<close>

datatype poll = Poll_Send nat ticks | Poll_Retransmit nat ticks

fun run_poll :: "poll \<Rightarrow> nat \<times> world \<Rightarrow> (nat \<times> world) res" where
  "run_poll (Poll_Send q tk) st = poll_sending_one (\<lambda>_. tk) q st"
| "run_poll (Poll_Retransmit q tk) st = poll_retransmit_one (\<lambda>_. tk) q st"

definition run_polls :: "poll list \<Rightarrow> nat \<times> world \<Rightarrow> (nat \<times> world) res" where
  "run_polls pls st = rfold run_poll pls st"

fun poll_ticks :: "poll \<Rightarrow> ticks" where
  "poll_ticks (Poll_Send q tk) = tk"
| "poll_ticks (Poll_Retransmit q tk) = tk"

text \<open>The clock is monotone: the readings follow each other, from \<open>t\<close> to \<open>T\<close>.\<close>

fun clocks_ok :: "nat \<Rightarrow> poll list \<Rightarrow> nat \<Rightarrow> bool" where
  "clocks_ok t [] T \<longleftrightarrow> t \<le> T"
| "clocks_ok t (pl # pls) T \<longleftrightarrow> t \<le> tk_try (poll_ticks pl) \<and> tk_try (poll_ticks pl) \<le> tk_elapsed (poll_ticks pl)
     \<and> tk_elapsed (poll_ticks pl) \<le> tk_clear (poll_ticks pl) \<and> clocks_ok (tk_clear (poll_ticks pl)) pls T"

text \<open>The visits to \<open>p\<close> that may send a packet again, and the bytes waiting at the endpoints for the
  communicator with the 16-bit id \<open>d\<close>.\<close>

fun retransmit_polls :: "nat \<Rightarrow> poll list \<Rightarrow> nat" where
  "retransmit_polls p [] = 0"
| "retransmit_polls p (Poll_Send q tk # pls) = retransmit_polls p pls"
| "retransmit_polls p (Poll_Retransmit q tk # pls) = (if q = p then 1 else 0) + retransmit_polls p pls"

definition queued_for :: "nat \<Rightarrow> prio_routes \<Rightarrow> nat" where
  "queued_for d r = sum_list (map (\<lambda>e. sum_list (map gp_len (filter (\<lambda>pkt. gp_dst_comm_id pkt = d) (ue_tx_queue e))))
     (pr_endpoints r))"

text \<open>No other connection has the destination of \<open>p\<close>.\<close>

definition own_dest :: "world \<Rightarrow> nat \<Rightarrow> conn_meta \<Rightarrow> bool" where
  "own_dest w p c \<longleftrightarrow> (\<forall>q c'. q \<noteq> p \<longrightarrow> w_conns w q = Some c' \<longrightarrow>
     u16_of_int (cm_dest_comm_id c') \<noteq> u16_of_int (cm_dest_comm_id c))"

lemma RoutePacket_queued:
  assumes "RoutePacket r rc pkt fin = Inr (r', rc')"
  shows "queued_for d r' = queued_for d r + (if d = gp_dst_comm_id pkt then gp_len pkt else 0)"
proof -
  let ?f = "\<lambda>e. sum_list (map gp_len (filter (\<lambda>pkt. gp_dst_comm_id pkt = d) (ue_tx_queue e)))"
  define i where "i = nat (pr_mapping r ! gp_tos pkt)"
  define e where "e = pr_endpoints r ! i"
  from assms have i: "i < length (pr_endpoints r)"
    and r': "pr_endpoints r' = (pr_endpoints r)[i := e\<lparr>ue_tx_queue := ue_tx_queue e @ [pkt]\<rparr>]"
    by (auto simp: RoutePacket_def i_def e_def Let_def split: if_splits)
  have "?f e \<le> sum_list (map ?f (pr_endpoints r))"
    using elem_le_sum_list [of i "map ?f (pr_endpoints r)"] i by (simp add: e_def)
  with i show ?thesis
    by (auto simp: queued_for_def r' map_update sum_list_update e_def)
qed

lemma chunk_le: "chunk sz offset b \<le> b"
  by (simp add: chunk_def)

lemma seg_bound_small:
  assumes "int kGradPacketHeader < mss" and "mss < 2 ^ 16"
  shows "seg_bound mss + kGradPacketHeader < 65536"
  using seg_bound_fits(2) [of mss 0] assms by (simp add: fits_def)

lemma GetBytes_bounds:
  assumes "int kGradPacketHeader < mss" and "mss < 2 ^ 16"
  shows "GetBytes mss x = chunk (lx_size x) (lx_bytes x) (seg_bound mss) + kGradPacketHeader"
    and "GetBytes mss x \<le> seg_bound mss + kGradPacketHeader"
  using seg_bound_small [OF assms] chunk_le [of "lx_size x" "lx_bytes x" "seg_bound mss"]
  by (simp_all add: GetBytes_def cast_simps)

lemma PartitionOne_fields:
  assumes "PartitionOne comm_id mss prio d pkt dest x = Inr (pkt', x1)"
    and "int kGradPacketHeader < mss" and "mss < 2 ^ 16"
  shows "gp_dst_comm_id pkt' = u16_of_int dest" and "gp_len pkt' = GetBytes mss x"
  using assms(1) seg_bound_small [OF assms(2,3)] chunk_le [of "lx_size x" "lx_bytes x" "seg_bound mss"]
  by (auto simp: PartitionOne_def fill_packet_def GetBytes_def Let_def cast_simps rbind_eq_Inr_conv split: if_splits)

lemma PartitionOneBySeq_fields:
  assumes "PartitionOneBySeq comm_id mss prio d pkt dest x seq = Inr pkt'"
    and "int kGradPacketHeader < mss" and "mss < 2 ^ 16"
  shows "gp_dst_comm_id pkt' = u16_of_int dest" and "gp_len pkt' \<le> seg_bound mss + kGradPacketHeader"
proof -
  have "u16 (u64 (chunk sz off (seg_bound mss) + kGradPacketHeader)) \<le> seg_bound mss + kGradPacketHeader" for sz off
    using seg_bound_small [OF assms(2,3)] chunk_le [of sz off "seg_bound mss"] by (simp add: cast_simps)
  with assms(1) show "gp_dst_comm_id pkt' = u16_of_int dest" "gp_len pkt' \<le> seg_bound mss + kGradPacketHeader"
    by (auto simp: PartitionOneBySeq_def fill_packet_def Let_def rbind_eq_Inr_conv)
qed

text \<open>What a visit to a connection does to its meter and to the queues: nothing, or it lets a packet
  of \<open>l\<close> bytes pass that it counts as \<open>n\<close> bytes, at most \<open>slack\<close> too few.\<close>

definition paced :: "nat \<Rightarrow> ticks \<Rightarrow> nat \<Rightarrow> world \<Rightarrow> conn_meta \<Rightarrow> world \<Rightarrow> bool" where
  "paced slack tk q w c w' \<longleftrightarrow> w' = w \<or>
     (\<exists>n l c'. kGradPacketHeader \<le> n \<and> n \<le> seg_bound (w_mss w) + kGradPacketHeader \<and> l \<le> n + slack
        \<and> \<not> dbl_gt (TryBytesPerSecond (cm_tx_meter c) n (tk_try tk)) (cm_sending_rate c)
        \<and> w_conns w' = (w_conns w)(q \<mapsto> c')
        \<and> cm_tx_meter c' = account (cm_tx_meter c) n (tk_elapsed tk) (tk_clear tk)
        \<and> cm_sending_rate c' = cm_sending_rate c \<and> cm_dest_comm_id c' = cm_dest_comm_id c \<and> w_mss w' = w_mss w
        \<and> (\<forall>d. queued_for d (w_routes w') = queued_for d (w_routes w)
              + (if d = u16_of_int (cm_dest_comm_id c) then l else 0)))"

lemma after_send_fields [simp]:
  "cm_tx_meter (after_send c key x1 prio_func tx) = tx"
  "cm_sending_rate (after_send c key x1 prio_func tx) = cm_sending_rate c"
  "cm_dest_comm_id (after_send c key x1 prio_func tx) = cm_dest_comm_id c"
  by (auto simp: after_send_def Let_def split: option.splits)

lemma poll_sending_one_paced:
  assumes "poll_sending_one clk q (bytes, w) = Inr (bytes', w')" and "w_conns w q = Some c"
    and "int kGradPacketHeader < w_mss w" and "w_mss w < 2 ^ 16"
  shows "paced 0 (clk q) q w c w'"
proof (cases "w' = w")
  case False
  from assms(1,2) False obtain key x prio_func pkt x1 r rc mt o1 where
    e: "\<not> dbl_gt (TryBytesPerSecond (cm_tx_meter c) (GetBytes (w_mss w) x) (tk_try (clk q))) (cm_sending_rate c)"
    "PartitionOne (w_comm_id w) (w_mss w) prio_func (tk_draw (clk q)) pkt0 (cm_dest_comm_id c) x = Inr (pkt, x1)"
    "RoutePacket (w_routes w) (w_rc_tx w) pkt (gp_is_last pkt \<noteq> 0) = Inr (r, rc)"
    "w' = set_conn q (after_send c key x1 prio_func (account (cm_tx_meter c) (GetBytes (w_mss w) x)
        (tk_elapsed (clk q)) (tk_clear (clk q)))) (w\<lparr>w_routes := r, w_rc_tx := rc, w_pmeter := mt\<rparr>)"
    by (auto simp: poll_sending_one_def deref_def Let_def rbind_eq_Inr_conv split: option.splits if_splits prod.splits)
  note f = PartitionOne_fields [OF e(2) assms(3,4)] and g = GetBytes_bounds [OF assms(3,4), of x]
  have h: "kGradPacketHeader \<le> GetBytes (w_mss w) x" unfolding g(1) by simp
  show ?thesis
    unfolding paced_def
    by (rule disjI2, rule exI [of _ "GetBytes (w_mss w) x"], rule exI [of _ "GetBytes (w_mss w) x"],
        rule exI [of _ "after_send c key x1 prio_func (account (cm_tx_meter c) (GetBytes (w_mss w) x)
          (tk_elapsed (clk q)) (tk_clear (clk q)))"])
      (use e(1,4) g(2) h RoutePacket_queued [OF e(3)] f in \<open>simp add: set_conn_def\<close>)
qed (simp add: paced_def)

lemma if_eq_Inr_conv:
  "(if g then Inr a else f) = Inr b \<longleftrightarrow> g \<and> a = b \<or> \<not> g \<and> f = Inr b"
  by simp

lemma poll_retransmit_one_paced:
  assumes "poll_retransmit_one clk q (bytes, w) = Inr (bytes', w')" and "w_conns w q = Some c"
    and "int kGradPacketHeader < w_mss w" and "w_mss w < 2 ^ 16"
  shows "paced (seg_bound (w_mss w)) (clk q) q w c w'"
proof (cases "w' = w")
  case False
  from assms(1,2) False obtain x prio_func seq pkt fin r rc mt reqs where
    e: "\<not> dbl_gt (TryBytesPerSecond (cm_tx_meter c) (GetBytes (w_mss w) x) (tk_try (clk q))) (cm_sending_rate c)"
    "PartitionOneBySeq (w_comm_id w) (w_mss w) prio_func (tk_draw (clk q)) pkt0 (cm_dest_comm_id c) x seq = Inr pkt"
    "RoutePacket (w_routes w) (w_rc_tx w) pkt fin = Inr (r, rc)"
    "w' = set_conn q (c\<lparr>cm_tx_meter := account (cm_tx_meter c) (GetBytes (w_mss w) x)
        (tk_elapsed (clk q)) (tk_clear (clk q)), cm_retransmit_reqs := reqs\<rparr>)
        (w\<lparr>w_routes := r, w_rc_tx := rc, w_pmeter := mt\<rparr>)"
    by (auto simp: poll_retransmit_one_def deref_def Let_def rbind_eq_Inr_conv if_eq_Inr_conv
        split: option.splits prod.splits)
  note f = PartitionOneBySeq_fields [OF e(2) assms(3,4)] and g = GetBytes_bounds [OF assms(3,4), of x]
  have h: "kGradPacketHeader \<le> GetBytes (w_mss w) x" unfolding g(1) by simp
  then have l: "gp_len pkt \<le> GetBytes (w_mss w) x + seg_bound (w_mss w)" using f(2) by simp
  show ?thesis
    unfolding paced_def
    by (rule disjI2, rule exI [of _ "GetBytes (w_mss w) x"], rule exI [of _ "gp_len pkt"],
        rule exI [of _ "c\<lparr>cm_tx_meter := account (cm_tx_meter c) (GetBytes (w_mss w) x)
          (tk_elapsed (clk q)) (tk_clear (clk q)), cm_retransmit_reqs := reqs\<rparr>"])
      (use e(1,4) g(2) h l RoutePacket_queued [OF e(3)] f(1) in \<open>simp add: set_conn_def\<close>)
qed (simp add: paced_def)

lemma run_poll_paced:
  assumes "run_poll pl (bytes, w) = Inr (bytes', w')" and "int kGradPacketHeader < w_mss w" and "w_mss w < 2 ^ 16"
  obtains q cq slack where "w_conns w q = Some cq" and "paced slack (poll_ticks pl) q w cq w'"
    and "(if q = p then slack else 0) = retransmit_polls p [pl] * seg_bound (w_mss w)"
proof (cases pl)
  case (Poll_Send q tk)
  with assms(1) obtain cq where "w_conns w q = Some cq"
    by (auto simp: poll_sending_one_def deref_def split: option.splits)
  with poll_sending_one_paced [of "\<lambda>_. tk"] Poll_Send assms that [of q cq 0] show thesis by auto
next
  case (Poll_Retransmit q tk)
  with assms(1) obtain cq where "w_conns w q = Some cq"
    by (auto simp: poll_retransmit_one_def deref_def split: option.splits)
  with poll_retransmit_one_paced [of "\<lambda>_. tk"] Poll_Retransmit assms that [of q cq "seg_bound (w_mss w)"]
  show thesis by auto
qed

lemma retransmit_polls_Cons:
  "retransmit_polls p (pl # pls) = retransmit_polls p [pl] + retransmit_polls p pls"
  by (cases pl) simp_all

lemma clocks_ok_end: "clocks_ok t pls T \<Longrightarrow> t \<le> T"
  by (induction pls arbitrary: t) (auto, meson le_trans)

text \<open>The budget across one packet of \<open>n\<close> counted bytes: clearing the meter closes an interval in
  which the packet was paid for, and starts the next one with the packet counted again.\<close>

lemma account_budget:
  fixes R :: rat
  assumes "10 ^ 9 * of_nat (rm_bytes m + n) \<le> R * of_nat (t - rm_tp m)" and "0 \<le> R"
    and "rm_tp m \<le> t" and "t \<le> t1" and "t1 \<le> t2" and "t2 \<le> T" and "rm_bytes m + n < 2 ^ 64"
    and "m' = account m n t1 t2"
    and "M = 0 \<or> 10 ^ 9 * of_nat (M + rm_bytes m') \<le> R * of_nat (T - rm_tp m')"
  shows "10 ^ 9 * of_nat (M + n + rm_bytes m) \<le> R * of_nat (T - rm_tp m)"
proof (cases "M = 0")
  case True
  have "R * of_nat (t - rm_tp m) \<le> R * of_nat (T - rm_tp m)"
    using assms(2,4-6) by (intro mult_left_mono) auto
  with True assms(1) show ?thesis by (simp add: add.commute)
next
  case False
  from account_cases [OF assms(8) [symmetric]] consider
    (same) "rm_tp m' = rm_tp m" "rm_bytes m' = u64 (rm_bytes m + n)"
    | (clear) "rm_tp m' = t2" "rm_bytes m' = u64 n" by blast
  then show ?thesis
  proof cases
    case same
    then have "M + rm_bytes m' = M + n + rm_bytes m" using assms(7) by (simp add: cast_simps)
    with False assms(9) same(1) show ?thesis by metis
  next
    case clear
    have "rm_bytes m' = n" using clear(2) assms(7) by (simp add: cast_simps)
    with assms(9) False clear(1) have "10 ^ 9 * of_nat (M + n) \<le> R * of_nat (T - t2)" by metis
    with assms(1) have "10 ^ 9 * of_nat (M + n) + 10 ^ 9 * of_nat (rm_bytes m + n)
        \<le> R * of_nat (T - t2) + R * of_nat (t - rm_tp m)" by (rule add_mono [rotated])
    also have "\<dots> = R * of_nat ((T - t2) + (t - rm_tp m))" by (simp add: algebra_simps)
    also have "\<dots> \<le> R * of_nat (T - rm_tp m)"
      using assms(2-6) by (intro mult_left_mono) auto
    finally have "10 ^ 9 * of_nat (M + n) + 10 ^ 9 * of_nat (rm_bytes m + n) \<le> R * of_nat (T - rm_tp m)" .
    moreover have "(10 :: rat) ^ 9 * of_nat (M + n + rm_bytes m) \<le> 10 ^ 9 * of_nat (M + n) + 10 ^ 9 * of_nat (rm_bytes m + n)"
      by simp
    ultimately show ?thesis by linarith
  qed
qed

text \<open>The bytes that pass in a run, as they are counted: with those counted before, they stay
  within the rate for the time since the meter was last cleared.\<close>

lemma run_polls_budget:
  assumes "run_polls pls (bytes, w) = Inr (bytes', w')" and "w_conns w p = Some c" and "own_dest w p c"
    and "int kGradPacketHeader < w_mss w" and "w_mss w < 2 ^ 16" and "0 \<le> cm_sending_rate c"
    and "rm_tp (cm_tx_meter c) \<le> t" and "clocks_ok t pls T" and "rm_bytes (cm_tx_meter c) < 2 ^ 63"
    and "cm_sending_rate c * of_nat (T - rm_tp (cm_tx_meter c)) < 10 ^ 9 * 2 ^ 63"
  shows "\<exists>M. queued_for (u16_of_int (cm_dest_comm_id c)) (w_routes w')
      \<le> queued_for (u16_of_int (cm_dest_comm_id c)) (w_routes w) + M + retransmit_polls p pls * seg_bound (w_mss w)
    \<and> (M = 0 \<or> 10 ^ 9 * of_nat (M + rm_bytes (cm_tx_meter c))
                 \<le> cm_sending_rate c * of_nat (T - rm_tp (cm_tx_meter c)))"
  using assms
proof (induction pls arbitrary: bytes w c t)
  case Nil
  then show ?case by (simp add: run_polls_def) (intro exI [of _ 0], simp)
next
  case (Cons pl pls)
  let ?d = "u16_of_int (cm_dest_comm_id c)" and ?m = "cm_tx_meter c" and ?R = "cm_sending_rate c" and ?tk = "poll_ticks pl"
  from Cons.prems(1) obtain b1 w1 where one: "run_poll pl (bytes, w) = Inr (b1, w1)"
    and rest: "run_polls pls (b1, w1) = Inr (bytes', w')" by (auto simp: run_polls_def rbind_eq_Inr_conv)
  from Cons.prems(8) have clk: "t \<le> tk_try ?tk" "tk_try ?tk \<le> tk_elapsed ?tk" "tk_elapsed ?tk \<le> tk_clear ?tk"
    "clocks_ok (tk_clear ?tk) pls T" by simp_all
  note end_clk = clocks_ok_end [OF clk(4)]
  from run_poll_paced [OF one Cons.prems(4,5), of p] obtain q cq slack where
    q: "w_conns w q = Some cq" "paced slack ?tk q w cq w1"
    "(if q = p then slack else 0) = retransmit_polls p [pl] * seg_bound (w_mss w)" by blast
  have slack: "retransmit_polls p (pl # pls) * seg_bound (w_mss w) =
      (if q = p then slack else 0) + retransmit_polls p pls * seg_bound (w_mss w)"
    unfolding q(3) retransmit_polls_Cons [of p pl pls] by (simp add: algebra_simps)
  show ?case
  proof (cases "w1 = w")
    case True
    from Cons.prems(7) clk have "rm_tp ?m \<le> tk_clear ?tk" by simp
    with Cons.IH [OF rest [unfolded True] Cons.prems(2-6) _ clk(4) Cons.prems(9,10)] obtain M where
      M: "queued_for ?d (w_routes w') \<le> queued_for ?d (w_routes w) + M + retransmit_polls p pls * seg_bound (w_mss w)"
      "M = 0 \<or> 10 ^ 9 * of_nat (M + rm_bytes ?m) \<le> ?R * of_nat (T - rm_tp ?m)" by blast
    show ?thesis by (intro exI [of _ M] conjI M(2)) (use M(1) slack in linarith)
  next
    case False
    with q(2) obtain n l c' where nl: "kGradPacketHeader \<le> n" "n \<le> seg_bound (w_mss w) + kGradPacketHeader"
      "l \<le> n + slack"
      and pass: "\<not> dbl_gt (TryBytesPerSecond (cm_tx_meter cq) n (tk_try ?tk)) (cm_sending_rate cq)"
      and w1: "w_conns w1 = (w_conns w)(q \<mapsto> c')" "w_mss w1 = w_mss w"
      and c': "cm_tx_meter c' = account (cm_tx_meter cq) n (tk_elapsed ?tk) (tk_clear ?tk)"
        "cm_sending_rate c' = cm_sending_rate cq" "cm_dest_comm_id c' = cm_dest_comm_id cq"
      and qd: "\<And>d. queued_for d (w_routes w1) = queued_for d (w_routes w)
        + (if d = u16_of_int (cm_dest_comm_id cq) then l else 0)"
      unfolding paced_def by blast
    show ?thesis
    proof (cases "q = p")
      case other: False
      from Cons.prems(3) other q(1) have "u16_of_int (cm_dest_comm_id cq) \<noteq> ?d" by (auto simp: own_dest_def)
      then have "queued_for ?d (w_routes w1) = queued_for ?d (w_routes w)" using qd [of ?d] by auto
      moreover have "own_dest w1 p c" using Cons.prems(3) q(1) c'(3) by (auto simp: own_dest_def w1)
      moreover have "w_conns w1 p = Some c" using Cons.prems(2) other by (simp add: w1)
      moreover from Cons.prems(7) clk have "rm_tp ?m \<le> tk_clear ?tk" by simp
      ultimately obtain M where
        "queued_for ?d (w_routes w') \<le> queued_for ?d (w_routes w) + M + retransmit_polls p pls * seg_bound (w_mss w)"
        "M = 0 \<or> 10 ^ 9 * of_nat (M + rm_bytes ?m) \<le> ?R * of_nat (T - rm_tp ?m)"
        using Cons.IH [OF rest, of c "tk_clear ?tk"] Cons.prems(4-6,9,10) clk(4) by (auto simp: w1(2))
      with slack other show ?thesis by auto
    next
      case p: True
      with q(1) Cons.prems(2) have cq: "cq = c" by simp
      have small: "n < 65536" using seg_bound_small [OF Cons.prems(4,5)] nl(2) by simp
      then have wrap: "rm_bytes ?m + n < 2 ^ 64" using Cons.prems(9) by simp
      have "0 < n" using nl(1) by (simp add: kGradPacketHeader_def)
      from throttle_passed(2) [OF pass [unfolded cq] this wrap]
      have paid: "10 ^ 9 * of_nat (rm_bytes ?m + n) \<le> ?R * of_nat (tk_try ?tk - rm_tp ?m)" .
      have mono: "?R * of_nat (x - rm_tp ?m) \<le> ?R * of_nat (T - rm_tp ?m)" if "x \<le> T" for x
        using that Cons.prems(6) by (intro mult_left_mono) auto
      have "10 ^ 9 * of_nat (rm_bytes ?m + n) < (10 ^ 9 * 2 ^ 63 :: rat)"
        using paid mono [of "tk_try ?tk"] clk end_clk Cons.prems(10) by linarith
      then have "of_nat (rm_bytes ?m + n) < (of_nat (2 ^ 63) :: rat)" by simp
      then have sum: "rm_bytes ?m + n < 2 ^ 63" unfolding of_nat_less_iff .
      note acc = account_cases [OF c'(1) [unfolded cq, symmetric]]
      have m': "rm_bytes (cm_tx_meter c') < 2 ^ 63" "rm_tp (cm_tx_meter c') \<le> tk_clear ?tk"
        "rm_tp ?m \<le> rm_tp (cm_tx_meter c')"
        using acc sum small Cons.prems(7) clk by (auto simp: cast_simps)
      have "?R * of_nat (T - rm_tp (cm_tx_meter c')) \<le> ?R * of_nat (T - rm_tp ?m)"
        using m'(3) Cons.prems(6) by (intro mult_left_mono) auto
      with Cons.prems(10) have bound: "?R * of_nat (T - rm_tp (cm_tx_meter c')) < 10 ^ 9 * 2 ^ 63" by linarith
      have own: "own_dest w1 p c'" using Cons.prems(3) p by (auto simp: own_dest_def w1 c'(3) cq)
      have "w_conns w1 p = Some c'" by (simp add: w1 p)
      from Cons.IH [OF rest this own _ _ _ m'(2) clk(4) m'(1)] Cons.prems(4-6) bound
      obtain M where M: "queued_for ?d (w_routes w') \<le> queued_for ?d (w_routes w1) + M
          + retransmit_polls p pls * seg_bound (w_mss w)"
        "M = 0 \<or> 10 ^ 9 * of_nat (M + rm_bytes (cm_tx_meter c')) \<le> ?R * of_nat (T - rm_tp (cm_tx_meter c'))"
        by (auto simp: w1(2) c' cq)
      have "rm_tp ?m \<le> tk_try ?tk" using Cons.prems(7) clk(1) by simp
      from account_budget [OF paid Cons.prems(6) this clk(2,3) end_clk wrap c'(1) [unfolded cq] M(2)]
      have "10 ^ 9 * of_nat (M + n + rm_bytes ?m) \<le> ?R * of_nat (T - rm_tp ?m)" .
      moreover have "queued_for ?d (w_routes w') \<le> queued_for ?d (w_routes w) + (M + n)
          + retransmit_polls p (pl # pls) * seg_bound (w_mss w)"
        using M(1) qd [of ?d] nl(3) p slack by (simp add: cq)
      ultimately show ?thesis by blast
    qed
  qed
qed

text \<open>A message that is sent again has been sent completely, and \<open>GetBytes\<close> of it is the length of a
  header: whatever the size of the packet, the throttle passes it as soon as there is room for 20
  bytes, and only 20 bytes are counted.\<close>

lemma retransmit_counted_as_header:
  assumes "lx_bytes x = lx_size x" and "lx_size x < 2 ^ 64" and "int kGradPacketHeader < mss" and "mss < 2 ^ 16"
  shows "GetBytes mss x = kGradPacketHeader"
  using GetBytes_bounds(1) [OF assms(3,4), of x] assms(1,2) by (simp add: chunk_eq)

section \<open>The index of connections\<close>

definition indices_ok :: "world \<Rightarrow> bool" where
  "indices_ok w \<longleftrightarrow> distinct (w_conn_metas w)
     \<and> (\<forall>i < length (w_conn_metas w). \<exists>c. w_conns w (w_conn_metas w ! i) = Some c
          \<and> w_conn_meta_map w (cm_dest_comm_id c) = Some i)"

lemma indices_ok_map:
  assumes "indices_ok w" and "i < length (w_conn_metas w)" and "w_conns w (w_conn_metas w ! i) = Some c"
  shows "w_conn_meta_map w (cm_dest_comm_id c) = Some i"
proof -
  from assms(1,2) obtain d where "w_conns w (w_conn_metas w ! i) = Some d"
    "w_conn_meta_map w (cm_dest_comm_id d) = Some i" unfolding indices_ok_def by blast
  with assms(3) show ?thesis by simp
qed

lemma FindConnMetaById_ok:
  assumes "indices_ok w" and "i < length (w_conn_metas w)" and "w_conns w (w_conn_metas w ! i) = Some c"
  shows "FindConnMetaById (cm_dest_comm_id c) w = Inr (w_conn_metas w ! i, w)"
  using indices_ok_map [OF assms] assms(2) by (simp add: FindConnMetaById_def Let_def)

lemma indices_ok_dest:
  assumes "indices_ok w" and "i < length (w_conn_metas w)" and "j < length (w_conn_metas w)"
    and "w_conns w (w_conn_metas w ! i) = Some c" and "w_conns w (w_conn_metas w ! j) = Some d"
    and "cm_dest_comm_id c = cm_dest_comm_id d"
  shows "i = j"
  using indices_ok_map [OF assms(1,2,4)] indices_ok_map [OF assms(1,3,5)] assms(6) by simp

lemma indices_ok_add:
  assumes "indices_ok w" and "w_conns w p = Some c" and "p \<notin> set (w_conn_metas w)"
    and "w_conn_meta_map w (cm_dest_comm_id c) = None"
  shows "\<exists>w'. handle_notification (ADD_CONNECTION p) w = Inr w' \<and> indices_ok w'"
  using assms
  by (force simp: handle_notification_def deref_def indices_ok_def nth_append less_Suc_eq)

lemma remove1_nth_after:
  assumes "distinct xs" and "i < j" and "j < length xs"
  shows "remove1 (xs ! i) xs = take i xs @ drop (Suc i) xs"
  using assms
proof (induction xs arbitrary: i j)
  case (Cons x xs)
  then show ?case by (cases i; cases j) (auto simp: nth_eq_iff_index_eq)
qed simp

section \<open>Properties\<close>

text \<open>C14: One round of \<open>PollSendingMessages\<close> on a connection that is not throttled sends exactly the
  next packet of its first message: the packet with the next sequence number is routed, the flow
  finish is queued with the last packet and only then, and the message either has its count
  advanced to the next packet boundary or, after the last packet, moves from the messages being
  sent to those that may be retransmitted.\<close>

theorem send_next_packet:
  assumes "w_conns w p = Some c" and "om_begin (cm_sending_msgs c) = Some (key, (x, prio_func))"
    and "key = i32 (int (lx_msg_id x))" and "om_invar (cm_sending_msgs c)" and "om_invar (cm_retransmitting_msgs c)"
    and "om_find key (cm_retransmitting_msgs c) = None"
    and "sendable w c x prio_func" and "i < num_chunks (seg_bound (w_mss w)) (lx_size x)"
    and "lx_bytes x = i * seg_bound (w_mss w)" and "\<not> throttled (clk p) (w_mss w) c x"
    and "mt_cnt (w_pmeter w) + 1 < 2 ^ 31"
  shows "\<exists>bytes' w' c' x'. poll_sending_one clk p (bytes, w) = Inr (bytes', w') \<and> w_conns w' p = Some c'
    \<and> RoutePacket (w_routes w) (w_rc_tx w) (packet_of w c x prio_func (tk_draw (clk p)) i)
        (Suc i = num_chunks (seg_bound (w_mss w)) (lx_size x)) = Inr (w_routes w', w_rc_tx w')
    \<and> x' = x\<lparr>lx_bytes := min (Suc i * seg_bound (w_mss w)) (lx_size x)\<rparr>
    \<and> (if Suc i = num_chunks (seg_bound (w_mss w)) (lx_size x)
       then om_find key (cm_sending_msgs c') = None \<and> om_find key (cm_retransmitting_msgs c') = Some (x', prio_func)
       else om_find key (cm_sending_msgs c') = Some (x', prio_func) \<and> om_find key (cm_retransmitting_msgs c') = None)"
proof -
  let ?b = "seg_bound (w_mss w)"
  let ?x = "x\<lparr>lx_bytes := min (Suc i * ?b) (lx_size x)\<rparr>"
  have b: "0 < ?b" using seg_bound_fits(1) assms(7) by (auto simp: sendable_def)
  have fin: "lx_size ?x \<le> lx_bytes ?x \<longleftrightarrow> Suc i = num_chunks ?b (lx_size x)"
    using num_chunks_iff [OF b, of "Suc i" "lx_size x"] assms(8) by auto
  from poll_sending_one_step [where clk = clk and bytes = bytes, OF assms(1,2,7-11)] obtain r rc mt tx where step:
    "RoutePacket (w_routes w) (w_rc_tx w) (packet_of w c x prio_func (tk_draw (clk p)) i)
        (Suc i = num_chunks ?b (lx_size x)) = Inr (r, rc)"
    "poll_sending_one clk p (bytes, w) = Inr (u64 (bytes + gp_len (packet_of w c x prio_func (tk_draw (clk p)) i)),
       set_conn p (after_send c key ?x prio_func tx) (w\<lparr>w_routes := r, w_rc_tx := rc, w_pmeter := mt\<rparr>))"
    by blast
  let ?c = "after_send c key ?x prio_func tx"
  let ?w = "set_conn p ?c (w\<lparr>w_routes := r, w_rc_tx := rc, w_pmeter := mt\<rparr>)"
  have key: "key = i32 (int (lx_msg_id ?x))" using assms(3) by simp
  note maps = after_send_maps(1,2) [OF assms(4,5) key, of prio_func tx, unfolded fin]
  have "if Suc i = num_chunks ?b (lx_size x)
    then om_find key (cm_sending_msgs ?c) = None \<and> om_find key (cm_retransmitting_msgs ?c) = Some (?x, prio_func)
    else om_find key (cm_sending_msgs ?c) = Some (?x, prio_func) \<and> om_find key (cm_retransmitting_msgs ?c) = None"
    unfolding maps(1) maps(2) [OF assms(6)] by simp
  moreover have "w_conns ?w p = Some ?c" "w_routes ?w = r" "w_rc_tx ?w = rc" by simp_all
  ultimately show ?thesis using step by metis
qed

text \<open>C13: Retransmission follows the request exactly. For a request that names blocks of sequence
  numbers, one round of \<open>PollRetransmitRequest\<close> on a connection that is not throttled sends the
  next owed packet (the one \<open>PollSendingMessages\<close> sent under that number, but for the type of
  service, which is drawn again), advances the position so that
  the rest is still owed in order, and after the last one sends the flow finish and drops the
  request. No \<open>CHECK\<close> on the position fails.\<close>

theorem retransmit_next_packet:
  assumes "w_conns w p = Some c" and "om_begin (cm_retransmit_reqs c) = Some (key, (b, st))"
    and "request_for key (cm_dest_comm_id c) blocks b" and "cursor_ok blocks st"
    and "om_find key (cm_retransmitting_msgs c) = Some (x, prio_func)" and "key = i32 (int (lx_msg_id x))"
    and "sendable w c x prio_func" and "rs_seq_num st < num_chunks (seg_bound (w_mss w)) (lx_size x)"
    and "\<not> throttled (clk p) (w_mss w) c x" and "mt_cnt (w_pmeter w) + 1 < 2 ^ 31"
    and "om_invar (cm_retransmit_reqs c)"
  shows "\<exists>owed bytes' w' c'. remaining blocks st = rs_seq_num st # owed
    \<and> poll_retransmit_one clk p (bytes, w) = Inr (bytes', w') \<and> w_conns w' p = Some c'
    \<and> RoutePacket (w_routes w) (w_rc_tx w) (packet_of w c x prio_func (tk_draw (clk p)) (rs_seq_num st)) (owed = [])
        = Inr (w_routes w', w_rc_tx w')
    \<and> (if owed = [] then om_find key (cm_retransmit_reqs c') = None
       else \<exists>st1. om_find key (cm_retransmit_reqs c') = Some (b, st1) \<and> cursor_ok blocks st1
              \<and> remaining blocks st1 = owed)"
proof -
  from poll_retransmit_one_step [where clk = clk and bytes = bytes, OF assms(1-10)] obtain st1 r rc mt tx where
    rem: "remaining blocks st = rs_seq_num st # remaining blocks st1"
    and ok: "remaining blocks st1 \<noteq> [] \<longrightarrow> cursor_ok blocks st1"
    and route: "RoutePacket (w_routes w) (w_rc_tx w) (packet_of w c x prio_func (tk_draw (clk p)) (rs_seq_num st))
        (remaining blocks st1 = []) = Inr (r, rc)"
    and poll: "poll_retransmit_one clk p (bytes, w) =
        Inr (u64 (bytes + gp_len (packet_of w c x prio_func (tk_draw (clk p)) (rs_seq_num st))),
             set_conn p (c\<lparr>cm_tx_meter := tx, cm_retransmit_reqs :=
                 (let reqs = om_insert key (b, st1) (cm_retransmit_reqs c)
                  in if remaining blocks st1 = [] then om_erase key reqs else reqs)\<rparr>)
               (w\<lparr>w_routes := r, w_rc_tx := rc, w_pmeter := mt\<rparr>))" by blast
  show ?thesis
    using rem ok route poll assms(11)
    by (intro exI [of _ "remaining blocks st1"]) (auto simp: Let_def om.find_insert om.find_erase)
qed

text \<open>C23: Pacing over an interval. In any run of the sending thread over its connections with a
  monotone clock, in which no byte counter wraps, the bytes queued for the destination of a
  connection exceed neither its sending rate times the time from the start of its current metering
  interval to the end of the run, nor, when packets are sent again, that budget by more than one
  payload per visit that may send a packet again. The allowance is what the code leaves uncounted:
  a packet that is sent again is metered as its header alone.\<close>

theorem sending_rate_respected:
  assumes "run_polls pls (bytes, w) = Inr (bytes', w')" and "w_conns w p = Some c" and "own_dest w p c"
    and "int kGradPacketHeader < w_mss w" and "w_mss w < 2 ^ 16" and "0 \<le> cm_sending_rate c"
    and "clocks_ok (rm_tp (cm_tx_meter c)) pls T" and "rm_bytes (cm_tx_meter c) < 2 ^ 63"
    and "cm_sending_rate c * of_nat (T - rm_tp (cm_tx_meter c)) < 10 ^ 9 * 2 ^ 63"
  shows "10 ^ 9 * of_nat (queued_for (u16_of_int (cm_dest_comm_id c)) (w_routes w'))
    \<le> 10 ^ 9 * of_nat (queued_for (u16_of_int (cm_dest_comm_id c)) (w_routes w))
      + cm_sending_rate c * of_nat (T - rm_tp (cm_tx_meter c))
      + 10 ^ 9 * of_nat (retransmit_polls p pls * seg_bound (w_mss w))"
proof -
  let ?q = "\<lambda>r. queued_for (u16_of_int (cm_dest_comm_id c)) r" and ?s = "retransmit_polls p pls * seg_bound (w_mss w)"
  from run_polls_budget [OF assms(1-6) _ assms(7-9)] obtain M where
    M: "?q (w_routes w') \<le> ?q (w_routes w) + M + ?s"
    "M = 0 \<or> 10 ^ 9 * of_nat (M + rm_bytes (cm_tx_meter c)) \<le> cm_sending_rate c * of_nat (T - rm_tp (cm_tx_meter c))"
    by blast
  have "0 \<le> cm_sending_rate c * of_nat (T - rm_tp (cm_tx_meter c))" using assms(6) by simp
  moreover have "(10 :: rat) ^ 9 * of_nat M \<le> 10 ^ 9 * of_nat (M + rm_bytes (cm_tx_meter c))"
    by (intro mult_left_mono) simp_all
  ultimately have "10 ^ 9 * of_nat M \<le> cm_sending_rate c * of_nat (T - rm_tp (cm_tx_meter c))"
    using M(2) by (elim disjE) (simp, linarith)
  moreover have "(10 :: rat) ^ 9 * of_nat (?q (w_routes w')) \<le> 10 ^ 9 * of_nat (?q (w_routes w) + M + ?s)"
    using M(1) by (intro mult_left_mono) (simp_all only: of_nat_le_iff, simp)
  ultimately show ?thesis unfolding of_nat_add distrib_left by linarith
qed

text \<open>Stopping a flow removes the message from the connection it belongs to (from the messages
  being sent, or else its retransmission request and the retained copy), confirms the stop to
  the peer and completes the send, once each.\<close>

lemma stop_flow_complete:
  assumes "indices_ok w" and "i < length (w_conn_metas w)" and "p = w_conn_metas w ! i" and "w_conns w p = Some c"
    and "wf_int (cm_dest_comm_id c)" and "0 \<le> msg_id" and "msg_id < 2 ^ 31"
  shows "\<exists>w' c'. StopFlow (EncodeFlow (cm_dest_comm_id c) msg_id) w = Inr w' \<and> w_conns w' p = Some c'
    \<and> om_find msg_id (cm_sending_msgs c') = None
    \<and> (om_find msg_id (cm_sending_msgs c) = None \<longrightarrow>
         om_find msg_id (cm_retransmit_reqs c') = None \<and> om_find msg_id (cm_retransmitting_msgs c') = None)
    \<and> (\<forall>q. q \<noteq> p \<longrightarrow> w_conns w' q = w_conns w q)
    \<and> w_rc_tx w' = w_rc_tx w @ [(cm_dest_comm_id c, out_buffer (StopConfirm msg_id))]
    \<and> w_cq w' = w_cq w @ [\<lparr>cp_msg_id = msg_id, cp_type = kSend, cp_remote_comm_id = cm_dest_comm_id c, cp_bytes = 0\<rparr>]"
proof -
  have dec: "DecodeFlow (EncodeFlow (cm_dest_comm_id c) msg_id) = (cm_dest_comm_id c, msg_id)"
    using DecodeFlow_EncodeFlow [of "cm_dest_comm_id c" msg_id] assms(5-7) by (simp add: wf_int_def)
  have find: "FindConnMetaById (cm_dest_comm_id c) w = Inr (p, w)"
    using FindConnMetaById_ok [OF assms(1,2)] assms(3,4) by simp
  show ?thesis
    using assms(4) by (simp add: StopFlow_def dec find deref_def Let_def om.find_erase cq_Push_def)
qed

text \<open>C38: Removing a connection corrupts the index of the others: \<open>conn_metas_\<close> is compacted but
  \<open>conn_meta_map_\<close> is not, so every connection behind the removed one is afterwards looked up one
  position too far: the lookup returns the next connection, or reads past the end of the vector
  for the last one.\<close>

theorem remove_connection_misroutes:
  assumes "indices_ok w" and "i < j" and "j < length (w_conn_metas w)"
    and "w_conns w (w_conn_metas w ! j) = Some c"
    and "handle_notification (REMOVE_CONNECTION (w_conn_metas w ! i)) w = Inr w'"
  shows "FindConnMetaById (cm_dest_comm_id c) w' =
    (if Suc j < length (w_conn_metas w) then Inr (w_conn_metas w ! Suc j, w')
     else Inl (Undefined_Behaviour ''conn_metas_[]''))"
proof -
  let ?ms = "w_conn_metas w"
  have i: "i < length ?ms" using assms(2,3) by simp
  from assms(1) i obtain d where d: "w_conns w (?ms ! i) = Some d" by (auto simp: indices_ok_def)
  have ne: "cm_dest_comm_id c \<noteq> cm_dest_comm_id d"
    using indices_ok_dest [OF assms(1) assms(3) i assms(4) d] assms(2) by auto
  note map = indices_ok_map [OF assms(1,3,4)]
  have ms: "w_conn_metas w' = take i ?ms @ drop (Suc i) ?ms"
    using assms(5) d remove1_nth_after [OF _ assms(2,3)] assms(1)
    by (auto simp: handle_notification_def deref_def remove_first_def indices_ok_def Let_def
        split: if_splits option.splits)
  have map': "w_conn_meta_map w' (cm_dest_comm_id c) = Some j"
    using assms(5) d ne map
    by (auto simp: handle_notification_def deref_def Let_def split: if_splits option.splits)
  have "w_conn_metas w' ! j = ?ms ! Suc j" if "Suc j < length ?ms"
    using that i assms(2) by (simp add: ms nth_append)
  with map' show ?thesis using i assms(2,3) by (auto simp: FindConnMetaById_def ms Let_def)
qed

section \<open>Concrete runs\<close>

text \<open>A communicator with id 1, one connection to communicator 2 and one message of 3000 bytes.\<close>

definition demo_conn :: conn_meta where
  "demo_conn = (ConnMeta 2 0 (10 ^ 9) 100 0)\<lparr>cm_sending_msgs := [(7, (LtMessageExt demo_message, default_prio))]\<rparr>"

definition demo_meter :: meter where
  "demo_meter = \<lparr>mt_sample = 255, mt_cnt = 0, mt_bytes = 0, mt_msgs = 0, mt_tp = 0, mt_interval = 10 ^ 9\<rparr>"

definition demo_world :: "prio_routes \<Rightarrow> conn_meta \<Rightarrow> world" where
  "demo_world r c = \<lparr>w_comm_id = 1, w_mss = 1472, w_init_rate = 10 ^ 9, w_mem = (\<lambda>_. 0), w_conns = [0 \<mapsto> c, 1 \<mapsto> c\<lparr>cm_dest_comm_id := 3\<rparr>],
     w_id_conn = [2 \<mapsto> Some 0, 3 \<mapsto> Some 1], w_cq = [], w_routes = r, w_conn_metas = [0, 1],
     w_conn_meta_map = [2 \<mapsto> 0, 3 \<mapsto> 1], w_pnotif = [], w_sr_queue = [], w_pmeter = demo_meter, w_rc_tx = [],
     w_rr_queue = [], w_rnotif = [], w_meta_queue = []\<rparr>"

definition demo_ticks :: "nat \<Rightarrow> ticks" where
  "demo_ticks p = \<lparr>tk_try = 10 ^ 9, tk_elapsed = 10 ^ 9, tk_clear = 10 ^ 9, tk_meter = 10 ^ 9, tk_draw = (p + 5, 1)\<rparr>"

definition demo_blocks :: "block list" where
  "demo_blocks = [\<lparr>b_first = 0, b_last = 1\<rparr>, \<lparr>b_first = 2, b_last = 3\<rparr>]"

definition demo_request :: buffer where
  "demo_request = \<lparr>bf_data = signal_bytes (RetransmitRequest 7 2 2 (concat (map block_bytes demo_blocks))),
     bf_size = 32, bf_msg_length = 32, bf_bytes_handled = 32, bf_is_owner = True\<rparr>"

definition demo_conn_rt :: conn_meta where
  "demo_conn_rt = (ConnMeta 2 0 (10 ^ 9) 100 0)\<lparr>
     cm_retransmitting_msgs := [(7, ((LtMessageExt demo_message)\<lparr>lx_bytes := 3000\<rparr>, default_prio))],
     cm_retransmit_reqs := [(7, (demo_request, \<lparr>rs_block_num = 0, rs_seq_num = 0\<rparr>))]\<rparr>"

lemmas demo_defs = demo_conn_def demo_world_def demo_meter_def demo_ticks_def demo_message_def LtMessageExt_def
  ConnMeta_def RateMeter_def demo_conn_rt_def demo_request_def demo_blocks_def

lemma demo_bound: "seg_bound 1472 = 1452"
  by (simp add: seg_bound_def u64_of_int_def kGradPacketHeader_def)

lemma demo_chunks: "num_chunks 1452 3000 = 3"
  by (simp add: num_chunks_def)

lemma demo_sendable:
  assumes "start_routes 8 = Inr r" and "lx_size x = 3000" and "lx_buf x = 4096"
  shows "sendable (demo_world r c) c' x default_prio"
proof -
  have "fits (w_mss (demo_world r c)) (lx_size x)" "w_routes (demo_world r c) = r\<lparr>pr_endpoints := pr_endpoints r\<rparr>"
    "seg_bound (w_mss (demo_world r c)) = 1452"
    using assms(2) by (simp_all add: demo_world_def fits_def kGradPacketHeader_def demo_bound)
  with sendable_default [of "demo_world r c" x r "pr_endpoints r" c'] assms show ?thesis by simp
qed

lemma demo_routes:
  obtains r where "start_routes 8 = Inr r"
proof (rule start_routes_ok [of 8])
  fix r assume "start_routes 8 = Inr r"
  then show thesis by (rule that)
qed simp_all

theorem send_next_packet_witness:
  "\<exists>r bytes' w'. start_routes 8 = Inr r \<and> poll_sending_one demo_ticks 0 (0, demo_world r demo_conn) = Inr (bytes', w')
    \<and> RoutePacket r [] (packet_of (demo_world r demo_conn) demo_conn (LtMessageExt demo_message) default_prio (5, 1) 0) False
        = Inr (w_routes w', w_rc_tx w')"
proof -
  obtain r where r: "start_routes 8 = Inr r" by (rule demo_routes)
  have nt: "\<not> throttled (demo_ticks 0) 1472 demo_conn (LtMessageExt demo_message)"
    by (simp add: throttled_def TryBytesPerSecond_def GetBytes_def chunk_def demo_bound demo_defs dbl_div_def
        dbl_gt_def kGradPacketHeader_def cast_simps)
  let ?x = "LtMessageExt demo_message"
  have facts: "w_conns (demo_world r demo_conn) 0 = Some demo_conn"
    "om_begin (cm_sending_msgs demo_conn) = Some (7, (?x, default_prio))" "7 = i32 (int (lx_msg_id ?x))"
    "om_invar (cm_sending_msgs demo_conn)" "om_invar (cm_retransmitting_msgs demo_conn)"
    "om_find 7 (cm_retransmitting_msgs demo_conn) = None"
    "0 < num_chunks (seg_bound (w_mss (demo_world r demo_conn))) (lx_size ?x)"
    "lx_bytes ?x = 0 * seg_bound (w_mss (demo_world r demo_conn))"
    "\<not> throttled (demo_ticks 0) (w_mss (demo_world r demo_conn)) demo_conn ?x"
    "mt_cnt (w_pmeter (demo_world r demo_conn)) + 1 < 2 ^ 31"
    using nt by (simp_all add: demo_world_def demo_conn_def ConnMeta_def om_begin_def om_find_def LtMessageExt_def
        demo_message_def cast_simps om_invar_def demo_meter_def demo_bound demo_chunks)
  have sd: "sendable (demo_world r demo_conn) demo_conn ?x default_prio"
    by (rule demo_sendable [OF r]) (simp_all add: LtMessageExt_def demo_message_def)
  have "num_chunks (seg_bound (w_mss (demo_world r demo_conn))) (lx_size ?x) = 3"
    "w_routes (demo_world r demo_conn) = r" "w_rc_tx (demo_world r demo_conn) = []"
    "tk_draw (demo_ticks 0) = (5, 1)"
    by (simp_all add: demo_ticks_def demo_world_def LtMessageExt_def demo_message_def demo_bound demo_chunks)
  with send_next_packet [where clk = demo_ticks and bytes = 0, OF facts(1-6) sd facts(7-10)] r
  show ?thesis by fastforce
qed

theorem retransmit_next_packet_witness:
  "\<exists>r bytes' w'. start_routes 8 = Inr r
    \<and> poll_retransmit_one demo_ticks 0 (0, demo_world r demo_conn_rt) = Inr (bytes', w')
    \<and> remaining demo_blocks \<lparr>rs_block_num = 0, rs_seq_num = 0\<rparr> = [0, 2]"
proof -
  obtain r where r: "start_routes 8 = Inr r" by (rule demo_routes)
  let ?x = "(LtMessageExt demo_message)\<lparr>lx_bytes := 3000\<rparr>"
  have nt: "\<not> throttled (demo_ticks 0) 1472 demo_conn_rt ?x"
    by (simp add: throttled_def TryBytesPerSecond_def GetBytes_def chunk_def demo_bound demo_defs dbl_div_def
        dbl_gt_def kGradPacketHeader_def cast_simps)
  have two: "length demo_blocks = 2" by (simp add: demo_blocks_def)
  have "\<forall>blk \<in> set demo_blocks. u32_block blk \<and> b_first blk < b_last blk"
    by (simp add: demo_blocks_def u32_block_def)
  then have req: "request_for 7 2 demo_blocks demo_request"
    unfolding request_for_def two by (simp add: demo_request_def wf_int_def)
  have cur: "cursor_ok demo_blocks \<lparr>rs_block_num = 0, rs_seq_num = 0\<rparr>"
    by (simp add: cursor_ok_def demo_blocks_def)
  have rem: "remaining demo_blocks \<lparr>rs_block_num = 0, rs_seq_num = 0\<rparr> = [0, 2]"
    by (simp add: remaining_def demo_blocks_def block_seqs_Cons upt_rec)
  have "w_conns (demo_world r demo_conn_rt) 0 = Some demo_conn_rt"
    "om_begin (cm_retransmit_reqs demo_conn_rt) = Some (7, (demo_request, \<lparr>rs_block_num = 0, rs_seq_num = 0\<rparr>))"
    "om_find 7 (cm_retransmitting_msgs demo_conn_rt) = Some (?x, default_prio)" "7 = i32 (int (lx_msg_id ?x))"
    "cm_dest_comm_id demo_conn_rt = 2" "om_invar (cm_retransmit_reqs demo_conn_rt)"
    "w_mss (demo_world r demo_conn_rt) = 1472" "mt_cnt (w_pmeter (demo_world r demo_conn_rt)) + 1 < 2 ^ 31"
    "lx_size ?x = 3000" "lx_buf ?x = 4096"
    by (simp_all add: demo_world_def demo_conn_rt_def ConnMeta_def om_begin_def om_find_def LtMessageExt_def
        demo_message_def cast_simps om_invar_def demo_meter_def)
  with retransmit_next_packet [where w = "demo_world r demo_conn_rt" and c = demo_conn_rt and p = 0 and key = 7
      and x = ?x and prio_func = default_prio and b = demo_request and blocks = demo_blocks and clk = demo_ticks
      and bytes = 0 and st = "\<lparr>rs_block_num = 0, rs_seq_num = 0\<rparr>"]
    demo_sendable [OF r, of ?x demo_conn_rt demo_conn_rt] nt req cur rem r
  show ?thesis by (auto simp: demo_bound demo_chunks)
qed

text \<open>At 1 byte per nanosecond and 1500 nanoseconds after the meter started, a packet of 1472 bytes
  passes.\<close>

definition demo_tick_at :: "nat \<Rightarrow> ticks" where
  "demo_tick_at t = \<lparr>tk_try = t, tk_elapsed = t, tk_clear = t, tk_meter = t, tk_draw = (t, t)\<rparr>"

lemma demo_passes: "\<not> throttled (demo_tick_at 1500) 1472 demo_conn (LtMessageExt demo_message)"
  by (simp add: throttled_def TryBytesPerSecond_def GetBytes_def chunk_def demo_bound demo_defs dbl_div_def
      dbl_gt_def kGradPacketHeader_def cast_simps demo_tick_at_def)

theorem sending_rate_respected_witness:
  "\<exists>r bytes' w'. start_routes 8 = Inr r
    \<and> run_polls [Poll_Send 0 (demo_tick_at 1500), Poll_Retransmit 1 (demo_tick_at 1600)] (0, demo_world r demo_conn) = Inr (bytes', w')
    \<and> (10 :: rat) ^ 9 * of_nat (queued_for 2 (w_routes w')) \<le> 10 ^ 9 * of_nat (queued_for 2 r) + 10 ^ 9 * 1600"
proof -
  obtain r where r: "start_routes 8 = Inr r" by (rule demo_routes)
  let ?x = "LtMessageExt demo_message" and ?w = "demo_world r demo_conn" and ?clk = "\<lambda>_ :: nat. demo_tick_at 1500"
  let ?pls = "[Poll_Send 0 (demo_tick_at 1500), Poll_Retransmit 1 (demo_tick_at 1600)]"
  have w: "w_conns ?w 0 = Some demo_conn" "om_begin (cm_sending_msgs demo_conn) = Some (7, (?x, default_prio))"
    "w_mss ?w = 1472" "mt_cnt (w_pmeter ?w) + 1 < 2 ^ 31" "lx_size ?x = 3000" "lx_buf ?x = 4096"
    "lx_bytes ?x = 0 * seg_bound (w_mss ?w)" "w_routes ?w = r" "cm_dest_comm_id demo_conn = 2"
    by (simp_all add: demo_world_def demo_conn_def ConnMeta_def om_begin_def LtMessageExt_def demo_message_def demo_meter_def)
  have "0 < num_chunks (seg_bound (w_mss ?w)) (lx_size ?x)" by (simp add: w(3,5) demo_bound demo_chunks)
  from poll_sending_one_step [where clk = ?clk and bytes = 0, OF w(1,2) demo_sendable [OF r w(5,6)] this w(7)]
    w(3,4) demo_passes obtain b1 c1 r1 rc1 mt1 where
    one: "poll_sending_one ?clk 0 (0, ?w) =
      Inr (b1, set_conn 0 c1 (?w\<lparr>w_routes := r1, w_rc_tx := rc1, w_pmeter := mt1\<rparr>))" by force
  have "poll_retransmit_one (\<lambda>_. demo_tick_at 1600) 1 (b1, set_conn 0 c1 (?w\<lparr>w_routes := r1, w_rc_tx := rc1, w_pmeter := mt1\<rparr>))
      = Inr (b1, set_conn 0 c1 (?w\<lparr>w_routes := r1, w_rc_tx := rc1, w_pmeter := mt1\<rparr>))"
    by (simp add: poll_retransmit_one_def deref_def set_conn_def demo_world_def demo_conn_def ConnMeta_def om_begin_def)
  with one obtain b2 w2 where run: "run_polls ?pls (0, ?w) = Inr (b2, w2)" by (simp add: run_polls_def)
  have meter: "rm_tp (cm_tx_meter demo_conn) = 0" "rm_bytes (cm_tx_meter demo_conn) = 0" "cm_sending_rate demo_conn = 10 ^ 9"
    by (simp_all add: demo_conn_def ConnMeta_def RateMeter_def)
  have own: "own_dest ?w 0 demo_conn"
    by (simp add: own_dest_def demo_world_def demo_conn_def ConnMeta_def u16_of_int_def)
  have clk: "clocks_ok 0 ?pls 1600" by (simp add: demo_tick_at_def)
  from sending_rate_respected [OF run w(1) own, of 1600] clk run r show ?thesis
    by (auto simp: meter w kGradPacketHeader_def u16_of_int_def)
qed

lemma demo_indices: "indices_ok (demo_world r (c\<lparr>cm_dest_comm_id := 2\<rparr>))"
  by (auto simp: indices_ok_def demo_world_def less_Suc_eq)

theorem remove_connection_misroutes_witness:
  "\<exists>w'. handle_notification (REMOVE_CONNECTION 0) (demo_world prio_routes_init demo_conn) = Inr w'
    \<and> FindConnMetaById 3 w' = Inl (Undefined_Behaviour ''conn_metas_[]'')"
proof -
  let ?w = "demo_world prio_routes_init demo_conn"
  have eq: "demo_conn\<lparr>cm_dest_comm_id := 2\<rparr> = demo_conn" by (simp add: demo_conn_def ConnMeta_def)
  have w: "w_conn_metas ?w = [0, 1]" "w_conns ?w 1 = Some (demo_conn\<lparr>cm_dest_comm_id := 3\<rparr>)"
    "w_conns ?w 0 = Some demo_conn"
    by (simp_all add: demo_world_def)
  then obtain w' where w': "handle_notification (REMOVE_CONNECTION 0) ?w = Inr w'"
    by (auto simp: handle_notification_def deref_def Let_def)
  with remove_connection_misroutes [OF demo_indices [of prio_routes_init demo_conn, unfolded eq], of 0 1
      "demo_conn\<lparr>cm_dest_comm_id := 3\<rparr>" w'] w
  show ?thesis by auto
qed

end
