(* ===== verification/Rd_Endpoint.thy ===== *)
theory Rd_Endpoint
  imports Receiving_Channel Priority_Channel
begin

text \<open>
  \<open>RdEndpoint\<close> (\<open>src/src/mlt/rd_endpoint.h\<close>, \<open>rd_endpoint.cc\<close>): the control connection to a peer.

  A control message is sent as its length (four bytes) followed by the message. The TCP socket is
  a record of the bytes that have arrived and not been read, whether the peer has shut down, and
  the bytes accepted for sending; \<open>Recv\<close> returns what has arrived, up to the size asked for. The
  outcomes of \<open>Send\<close> are a list, as for the UDP sockets. \<open>of_float\<close> reads the 32-bit \<open>float\<close> of a
  rate signal.
\<close>

section \<open>Sockets\<close>

record tcp_sock =
  ts_in :: "byte list"
  ts_eof :: bool
  ts_sent :: "byte list"

datatype recv_outcome = Recv_Block | Recv_Zero | Recv_Data "byte list"

definition tcp_Recv :: "nat \<Rightarrow> tcp_sock \<Rightarrow> recv_outcome \<times> tcp_sock" where
  "tcp_Recv n s =
     (if n = 0 then (Recv_Zero, s)
      else if ts_in s = [] then (if ts_eof s then Recv_Zero else Recv_Block, s)
      else (Recv_Data (take n (ts_in s)), s\<lparr>ts_in := drop n (ts_in s)\<rparr>))"

section \<open>Sending\<close>

text \<open>The loop of \<open>OnSendReady\<close>: the queue left and the bytes sent.\<close>

function rd_send_loop :: "send_outcome list \<Rightarrow> buffer list \<Rightarrow> byte list \<Rightarrow> (buffer list \<times> byte list) res" where
  "rd_send_loop os [] sent = Inr ([], sent)"
| "rd_send_loop os (b # q) sent =
     (if IsClear b then rd_send_loop os q sent
      else case os of
             [] \<Rightarrow> Inr (b # q, sent)
           | Would_Block # os' \<Rightarrow> Inr (b # q, sent)
           | Send_Error # os' \<Rightarrow> Inl (Check_Failed ''sock_.LastErrorWouldBlock()'')
           | Sent k # os' \<Rightarrow>
               let b1 = MarkHandled b k; sent1 = sent @ take k (GetRemainBuffer b) in
               if IsClear b1 then rd_send_loop os' q sent1 else rd_send_loop os' (b1 # q) sent1)"
  by pat_completeness auto

termination rd_send_loop
  by (relation "measure (\<lambda>(os, q, sent). length os + length q)") auto

record rd_endpoint =
  re_conn :: nat
  re_comm_id :: int
  re_dead :: bool
  re_closed :: bool
  re_sock :: tcp_sock
  re_tx_queue :: "buffer list"
  re_rx_buffers :: "buffer list"
  re_msg_max_seq :: "int \<rightharpoonup> nat"

definition RdEndpoint :: "nat \<Rightarrow> int \<Rightarrow> rd_endpoint" where
  "RdEndpoint p dest = \<lparr>re_conn = p, re_comm_id = dest, re_dead = False, re_closed = False,
     re_sock = \<lparr>ts_in = [], ts_eof = False, ts_sent = []\<rparr>, re_tx_queue = [], re_rx_buffers = [],
     re_msg_max_seq = Map.empty\<rparr>"

text \<open>\<open>Disconnect\<close> closes the socket, which must be open, and marks the endpoint; \<open>OnError\<close> only marks
  it.\<close>

definition Disconnect :: "rd_endpoint \<Rightarrow> rd_endpoint res" where
  "Disconnect e =
     rbind (check (\<not> re_closed e) ''sockfd != INVALID_SOCKET'') (\<lambda>_. Inr (e\<lparr>re_closed := True, re_dead := True\<rparr>))"

definition OnError :: "rd_endpoint \<Rightarrow> rd_endpoint" where
  "OnError e = e\<lparr>re_dead := True\<rparr>"

definition rd_OnSendReady :: "send_outcome list \<Rightarrow> rd_endpoint \<Rightarrow> rd_endpoint res" where
  "rd_OnSendReady os e =
     rbind (rd_send_loop os (re_tx_queue e) []) (\<lambda>(q, sent).
       Inr (e\<lparr>re_tx_queue := q, re_sock := (re_sock e)\<lparr>ts_sent := ts_sent (re_sock e) @ sent\<rparr>\<rparr>))"

section \<open>Receiving\<close>

datatype rx_result = Rx_Wait | Rx_Message buffer | Rx_Disconnect

text \<open>Popping \<open>rx_buffers_\<close> from the back until an unfinished buffer is found.\<close>

fun pop_unfinished :: "buffer list \<Rightarrow> buffer option \<times> buffer list" where
  "pop_unfinished [] = (None, [])"
| "pop_unfinished (b # bs) = (if IsClear b then pop_unfinished bs else (Some b, bs))"

definition rx_find :: "buffer list \<Rightarrow> buffer option \<times> buffer list" where
  "rx_find rx = (let (b, bs) = pop_unfinished (rev rx) in (b, rev bs))"

text \<open>Reading into the current buffer.\<close>

definition rx_fill :: "buffer \<Rightarrow> buffer list \<Rightarrow> tcp_sock \<Rightarrow> (rx_result \<times> buffer list \<times> tcp_sock) res" where
  "rx_fill b rx s =
     (case tcp_Recv (GetRemainSize b) s of
        (Recv_Block, s1) \<Rightarrow> Inr (Rx_Wait, rx @ [b], s1)
      | (Recv_Zero, s1) \<Rightarrow> Inr (Rx_Disconnect, rx, s1)
      | (Recv_Data d, s1) \<Rightarrow>
          rbind (put_bytes b (bf_bytes_handled b) d) (\<lambda>b1.
            let b2 = MarkHandled b1 (length d) in
            if IsClear b2 then Inr (Rx_Message b2, rx, s1) else Inr (Rx_Wait, rx @ [b2], s1)))"

definition rx_step :: "buffer list \<Rightarrow> tcp_sock \<Rightarrow> (rx_result \<times> buffer list \<times> tcp_sock) res" where
  "rx_step rx s =
     (case rx_find rx of
        (Some b, rx1) \<Rightarrow> rx_fill b rx1 s
      | (None, rx1) \<Rightarrow>
          (case tcp_Recv 4 s of
             (Recv_Block, s1) \<Rightarrow> Inr (Rx_Wait, rx1, s1)
           | (Recv_Zero, s1) \<Rightarrow> Inr (Rx_Disconnect, rx1, s1)
           | (Recv_Data d, s1) \<Rightarrow>
               rbind (check (length d = 4) ''sizeof(length) == ret'') (\<lambda>_.
                 rx_fill (set_msg_length (Buffer_alloc (le_val d)) (le_val d)) rx1 s1)))"

definition HandleReceivedData :: "(nat \<Rightarrow> rat) \<Rightarrow> buffer \<Rightarrow> rd_endpoint \<Rightarrow> world \<Rightarrow> (rd_endpoint \<times> world) res" where
  "HandleReceivedData of_float b e w =
     rbind (decode_signal (bf_data b)) (\<lambda>sig.
       case sig of
         UserData _ \<Rightarrow> Inr (e, w\<lparr>w_meta_queue := w_meta_queue w @ [(re_comm_id e, b)]\<rparr>)
       | FlowStart msg_id flow_size max_seq_num \<Rightarrow>
           Inr (e\<lparr>re_msg_max_seq := (re_msg_max_seq e)(msg_id \<mapsto> max_seq_num)\<rparr>, w)
       | FlowFinish msg_id \<Rightarrow>
           (case re_msg_max_seq e msg_id of
              None \<Rightarrow> Inl (Check_Failed ''msg_max_seq.count(msg_id)'')
            | Some mx \<Rightarrow> Inr (e, rch_Notify (FINISH_FLOW msg_id mx (re_conn e)) w))
       | RateAdjustment r \<Rightarrow>
           rbind (deref w (re_conn e)) (\<lambda>c.
             let rate = cm_sending_rate c; throttle = max (of_float r) (w_init_rate w) in
             Inr (e, set_conn (re_conn e)
                      (c\<lparr>cm_sending_rate := (if rate > throttle then throttle else rate * 2)\<rparr>) w))
       | RetransmitRequest _ _ _ _ \<Rightarrow> Inr (e, pc_Notify (REQUEST_RETRANSMIT b) w)
       | StopRequest msg_id comm_id _ \<Rightarrow>
           rbind (check (comm_id = re_comm_id e) ''hdr->comm_id == comm_id()'') (\<lambda>_.
             Inr (e, pc_Notify (STOP_FLOW (EncodeFlow (re_comm_id e) msg_id)) w))
       | StopConfirm msg_id \<Rightarrow>
           Inr (e\<lparr>re_msg_max_seq := (re_msg_max_seq e)(msg_id := None)\<rparr>,
                rch_Notify (CONFIRM_STOP msg_id (re_conn e)) w))"

definition OnRecvReady :: "(nat \<Rightarrow> rat) \<Rightarrow> rd_endpoint \<Rightarrow> world \<Rightarrow> (rd_endpoint \<times> world) res" where
  "OnRecvReady of_float e w =
     rbind (rx_step (re_rx_buffers e) (re_sock e)) (\<lambda>(res, rx, s).
       let e1 = e\<lparr>re_rx_buffers := rx, re_sock := s\<rparr> in
       case res of
         Rx_Wait \<Rightarrow> Inr (e1, w)
       | Rx_Disconnect \<Rightarrow> rbind (Disconnect e1) (\<lambda>e2. Inr (e2, w))
       | Rx_Message b \<Rightarrow> HandleReceivedData of_float b e1 w)"

section \<open>Sending keeps the stream\<close>

definition stream_of :: "buffer list \<Rightarrow> byte list" where
  "stream_of q = concat (map pending q)"

text \<open>\<open>Send\<close> never accepts more than it was given.\<close>

fun sends_ok :: "send_outcome list \<Rightarrow> buffer list \<Rightarrow> bool" where
  "sends_ok os [] = True"
| "sends_ok os (b # q) =
     (if IsClear b then sends_ok os q
      else case os of
             Sent k # os' \<Rightarrow> k \<le> GetRemainSize b \<and>
               (if IsClear (MarkHandled b k) then sends_ok os' q else sends_ok os' (MarkHandled b k # q))
           | _ \<Rightarrow> True)"

lemma rd_send_loop_stream:
  assumes "rd_send_loop os q sent = Inr (q', sent')" and "sends_ok os q" and "list_all wf_buffer q"
  shows "\<exists>new. sent' = sent @ new \<and> stream_of q = new @ stream_of q' \<and> list_all wf_buffer q'"
  using assms
proof (induction os q sent rule: rd_send_loop.induct)
  case (1 os sent)
  then show ?case by simp
next
  case (2 os b q sent)
  show ?case
  proof (cases "IsClear b")
    case True
    with 2 show ?thesis by (simp add: stream_of_def IsClear_pending)
  next
    case opn: False
    show ?thesis
    proof (cases "\<exists>k os'. os = Sent k # os'")
      case True
      then obtain k os' where os: "os = Sent k # os'" by blast
      let ?b = "MarkHandled b k" and ?new = "take k (GetRemainBuffer b)"
      have b: "wf_buffer b" "k \<le> GetRemainSize b" using 2(5,6) opn os by auto
      have cut: "pending b = ?new @ pending ?b"
        using MarkHandled_ok(2) [OF b] b append_take_drop_id [of k "pending b"]
        by (simp add: pending_def min_def)
      show ?thesis
      proof (cases "IsClear ?b")
        case True
        then have "pending ?b = []" using IsClear_pending [OF MarkHandled_ok(1) [OF b]] by simp
        with 2(2) [OF opn os refl refl refl True] 2(4-6) opn os True cut show ?thesis
          by (fastforce simp: stream_of_def Let_def)
      next
        case False
        with 2(3) [OF opn os refl refl refl False] 2(4-6) opn os cut MarkHandled_ok(1) [OF b] show ?thesis
          by (fastforce simp: stream_of_def Let_def)
      qed
    next
      case False
      with 2(4,6) opn show ?thesis by (auto split: list.splits send_outcome.splits)
    qed
  qed
qed

section \<open>Frames\<close>

definition frame :: "byte list \<Rightarrow> byte list" where
  "frame m = le_bytes 4 (length m) @ m"

definition frame_ok :: "byte list \<Rightarrow> bool" where
  "frame_ok m \<longleftrightarrow> m \<noteq> [] \<and> length m < 2 ^ 32"

lemma WriteLength_eq:
  "length (signal_bytes sig) < 2 ^ 32 - 4
    \<Longrightarrow> WriteLength (out_buffer sig) = Inr ((out_buffer sig)\<lparr>bf_data := frame (signal_bytes sig)\<rparr>)"
  by (simp add: WriteLength_def out_buffer_def put_bytes_def GetOutBufferSize_def Let_def Buffer_alloc_def
      set_msg_length_def frame_def cast_simps)

lemma WriteLength_out_buffer:
  assumes "length (signal_bytes sig) < 2 ^ 32 - 4"
  shows "\<exists>b. WriteLength (out_buffer sig) = Inr b \<and> wf_buffer b \<and> pending b = frame (signal_bytes sig)"
  unfolding WriteLength_eq [OF assms] using assms
  by (simp add: out_buffer_def GetOutBufferSize_def Let_def Buffer_alloc_def
      set_msg_length_def wf_buffer_def pending_def GetRemainSize_def GetRemainBuffer_def frame_def cast_simps)

text \<open>Setting the length twice, as for retransmission requests, changes nothing.\<close>

lemma WriteLength_twice:
  assumes "WriteLength b = Inr b1"
  shows "WriteLength b1 = Inr b1"
  using assms by (auto simp: WriteLength_def put_bytes_def res_simps split: if_splits)

section \<open>Receiving rebuilds the messages\<close>

text \<open>\<open>rx_sync ms rx inp fut\<close>: the messages \<open>ms\<close> are still to be delivered, of which \<open>inp\<close> has
  arrived and \<open>fut\<close> has not; \<open>rx\<close> is empty at a message boundary, and otherwise holds the part of
  the first message read so far.\<close>

fun rx_sync :: "byte list list \<Rightarrow> buffer list \<Rightarrow> byte list \<Rightarrow> byte list \<Rightarrow> bool" where
  "rx_sync ms [] inp fut \<longleftrightarrow> inp @ fut = concat (map frame ms)"
| "rx_sync (m # ms) [b] inp fut \<longleftrightarrow>
     wf_buffer b \<and> bf_size b = length m \<and> bf_msg_length b = length m \<and> bf_bytes_handled b < length m
     \<and> take (bf_bytes_handled b) (bf_data b) = take (bf_bytes_handled b) m
     \<and> inp @ fut = drop (bf_bytes_handled b) m @ concat (map frame ms)"
| "rx_sync ms rx inp fut \<longleftrightarrow> False"

definition split_length :: "buffer list \<Rightarrow> tcp_sock \<Rightarrow> bool" where
  "split_length rx s \<longleftrightarrow> rx = [] \<and> 0 < length (ts_in s) \<and> length (ts_in s) < 4"

definition rx_post :: "byte list list \<Rightarrow> byte list \<Rightarrow> tcp_sock \<Rightarrow> rx_result \<Rightarrow> buffer list \<Rightarrow> tcp_sock \<Rightarrow> bool" where
  "rx_post ms fut s r rx' s' \<longleftrightarrow>
     ts_eof s' = ts_eof s \<and> length (ts_in s') \<le> length (ts_in s) \<and> (ts_in s \<noteq> [] \<longrightarrow> length (ts_in s') < length (ts_in s))
     \<and> (case r of
          Rx_Wait \<Rightarrow> rx_sync ms rx' (ts_in s') fut
        | Rx_Message b \<Rightarrow> ms \<noteq> [] \<and> bf_data b = hd ms \<and> rx_sync (tl ms) rx' (ts_in s') fut
        | Rx_Disconnect \<Rightarrow> False)"

lemma rx_fill_ok:
  assumes sync: "rx_sync (m # ms) [b] (ts_in s) fut" and eof: "\<not> ts_eof s"
  shows "\<exists>r rx' s'. rx_fill b [] s = Inr (r, rx', s') \<and> rx_post (m # ms) fut s r rx' s'"
proof (cases "ts_in s = []")
  case True
  have "GetRemainSize b \<noteq> 0" using sync by (auto simp: GetRemainSize_eq)
  with True sync eof show ?thesis by (simp add: rx_fill_def tcp_Recv_def rx_post_def)
next
  case False
  let ?h = "bf_bytes_handled b" and ?n = "GetRemainSize b"
  let ?d = "take ?n (ts_in s)"
  have b: "wf_buffer b" "bf_size b = length m" "bf_msg_length b = length m" "?h < length m"
    "take ?h (bf_data b) = take ?h m" "ts_in s @ fut = drop ?h m @ concat (map frame ms)"
    using sync by simp_all
  have n: "?n = length m - ?h" and len: "length (bf_data b) = length m" and lt: "length m < 4294967296"
    using b by (auto simp: GetRemainSize_eq wf_buffer_def)
  have k: "length ?d = min (length (ts_in s)) (length m - ?h)" and pos: "0 < length ?d"
    using False b(4) n by auto
  have pre: "?d = take (length ?d) (drop ?h m)"
  proof -
    have "?d = take (length ?d) (ts_in s @ fut)" by (simp add: min_def)
    also have "\<dots> = take (length ?d) (drop ?h m)" unfolding b(6) using k by simp
    finally show ?thesis .
  qed
  obtain b1 where b1: "put_bytes b ?h ?d = Inr b1" "length (bf_data b1) = length (bf_data b)"
    "bf_size b1 = bf_size b" "bf_msg_length b1 = bf_msg_length b" "bf_bytes_handled b1 = ?h"
    "bf_data b1 = take ?h (bf_data b) @ ?d @ drop (?h + length ?d) (bf_data b)"
    using put_bytes_ok [of ?h ?d b] k len b(4) by (metis add_diff_inverse_nat min.cobounded2 nat_add_left_cancel_le not_less_iff_gr_or_eq)
  have wf1: "wf_buffer b1" using b b1 len by (auto simp: wf_buffer_def)
  define b2 where "b2 = MarkHandled b1 (length ?d)"
  have le: "length ?d \<le> GetRemainSize b1" using k n b1 wf1 b by (simp add: GetRemainSize_eq)
  have b2: "wf_buffer b2" "bf_data b2 = bf_data b1" "bf_msg_length b2 = length m"
    "bf_bytes_handled b2 = ?h + length ?d" "bf_size b2 = length m"
    using MarkHandled_ok [OF wf1 le] b1 b unfolding b2_def by (auto simp: MarkHandled_def)
  have got: "take (?h + length ?d) (bf_data b2) = take (?h + length ?d) m"
    using b1(6) b2(2) pre b(5) len b(4) by (simp add: take_add)
  have rest: "drop ?n (ts_in s) @ fut = drop (?h + length ?d) m @ concat (map frame ms)"
  proof -
    have "drop (length ?d) (ts_in s @ fut) = drop (length ?d) (drop ?h m @ concat (map frame ms))"
      using b(6) by simp
    then show ?thesis using k n by (auto simp: min_def add.commute split: if_splits)
  qed
  have short: "length (drop ?n (ts_in s)) < length (ts_in s)" using pos by simp
  have run: "rx_fill b [] s = Inr (if IsClear b2 then (Rx_Message b2, [], s\<lparr>ts_in := drop ?n (ts_in s)\<rparr>)
      else (Rx_Wait, [b2], s\<lparr>ts_in := drop ?n (ts_in s)\<rparr>))"
    using False n b(4) b1(1) by (simp add: rx_fill_def tcp_Recv_def b2_def Let_def)
  show ?thesis
  proof (cases "IsClear b2")
    case True
    then have "?h + length ?d = length m" using b2 by (simp add: IsClear_def)
    with got rest b2 b1(2) len True run short show ?thesis by (simp add: rx_post_def)
  next
    case False
    then have "?h + length ?d < length m" using b2 b(4) k by (auto simp: IsClear_def)
    with got rest b2 False run short show ?thesis by (simp add: rx_post_def)
  qed
qed

lemma concat_frames_head:
  assumes "inp @ fut = concat (map frame ms)" and "4 \<le> length inp" and "list_all frame_ok ms"
  obtains m ms' where "ms = m # ms'" and "le_val (take 4 inp) = length m" and "frame_ok m"
    and "drop 4 inp @ fut = m @ concat (map frame ms')"
proof -
  from assms(1,2) obtain m ms' where ms: "ms = m # ms'" by (cases ms) auto
  have eq: "inp @ fut = le_bytes 4 (length m) @ m @ concat (map frame ms')"
    using assms(1) ms by (simp add: frame_def)
  have "take 4 inp = take 4 (inp @ fut)" using assms(2) by simp
  then have "take 4 inp = le_bytes 4 (length m)" unfolding eq by simp
  moreover have "drop 4 inp @ fut = drop 4 (inp @ fut)" using assms(2) by simp
  then have "drop 4 inp @ fut = m @ concat (map frame ms')" unfolding eq by simp
  moreover have "frame_ok m" using assms(3) ms by simp
  ultimately show ?thesis
    using that [OF ms] by (simp add: frame_ok_def le_val_le_bytes)
qed

lemma rx_step_ok:
  assumes sync: "rx_sync ms rx (ts_in s) fut" and eof: "\<not> ts_eof s" and ms: "list_all frame_ok ms"
  shows "if split_length rx s then rx_step rx s = Inl (Check_Failed ''sizeof(length) == ret'')
    else (\<exists>r rx' s'. rx_step rx s = Inr (r, rx', s') \<and> rx_post ms fut s r rx' s')"
proof (cases rx)
  case Nil
  consider "ts_in s = []" | "split_length rx s" | "4 \<le> length (ts_in s)"
    using Nil by (fastforce simp: split_length_def)
  then show ?thesis
  proof cases
    case 1
    with Nil sync eof show ?thesis
      by (simp add: rx_step_def rx_find_def tcp_Recv_def split_length_def rx_post_def)
  next
    case 2
    with Nil show ?thesis by (auto simp: rx_step_def rx_find_def tcp_Recv_def split_length_def)
  next
    case 3
    then have ns: "\<not> split_length rx s" by (simp add: split_length_def)
    from sync Nil have "ts_in s @ fut = concat (map frame ms)" by simp
    from concat_frames_head [OF this 3 ms] obtain m ms' where h: "ms = m # ms'"
      "le_val (take 4 (ts_in s)) = length m" "frame_ok m"
      "drop 4 (ts_in s) @ fut = m @ concat (map frame ms')" .
    let ?b = "set_msg_length (Buffer_alloc (length m)) (length m)" and ?s = "s\<lparr>ts_in := drop 4 (ts_in s)\<rparr>"
    have "rx_sync (m # ms') [?b] (ts_in ?s) fut"
      using h(3,4) wf_alloc [of "length m"]
      by (simp add: frame_ok_def set_msg_length_def Buffer_alloc_def cast_simps)
    from rx_fill_ok [OF this] eof obtain r rx' s' where
      r: "rx_fill ?b [] ?s = Inr (r, rx', s')" "rx_post (m # ms') fut ?s r rx' s'" by auto
    have "take 4 (ts_in s) \<noteq> []" "length (take 4 (ts_in s)) = 4" using 3 by auto
    with Nil h(2) r(1) have "rx_step rx s = Inr (r, rx', s')"
      by (auto simp: rx_step_def rx_find_def tcp_Recv_def)
    moreover have "rx_post ms fut s r rx' s'"
      using r(2) h(1) 3 by (cases "drop 4 (ts_in s) = []") (auto simp: rx_post_def intro: less_le_trans)
    ultimately show ?thesis using ns by auto
  qed
next
  case (Cons b rest)
  with sync obtain m ms' where ms': "ms = m # ms'" "rx = [b]" by (cases ms; cases rest) auto
  with sync have "\<not> IsClear b" by (auto simp: IsClear_def)
  with ms' rx_fill_ok [of m ms' b s fut] sync eof show ?thesis
    by (simp add: rx_step_def rx_find_def split_length_def)
qed

text \<open>A sequence of wake-ups: before each call of \<open>OnRecvReady\<close> some more bytes, possibly none, have
  arrived. The result is the messages completed, in order.\<close>

fun rx_run :: "byte list list \<Rightarrow> buffer list \<Rightarrow> tcp_sock \<Rightarrow> (byte list list \<times> buffer list \<times> tcp_sock) res" where
  "rx_run [] rx s = Inr ([], rx, s)"
| "rx_run (a # arrivals) rx s =
     rbind (rx_step rx (s\<lparr>ts_in := ts_in s @ a\<rparr>)) (\<lambda>(r, rx1, s1).
     rbind (rx_run arrivals rx1 s1) (\<lambda>(ms, rx2, s2).
       Inr (case r of Rx_Message b \<Rightarrow> bf_data b # ms | _ \<Rightarrow> ms, rx2, s2)))"

lemma rx_sync_arrive: "rx_sync ms rx inp (a @ fut) \<longleftrightarrow> rx_sync ms rx (inp @ a) fut"
  by (cases "(ms, rx, inp, fut)" rule: rx_sync.cases) auto

lemma frame_not_Nil [simp]: "frame m \<noteq> []"
  using length_le_bytes [of 4 "length m"] by (auto simp: frame_def simp del: length_le_bytes)

lemma rx_sync_drained: "rx_sync ms rx [] [] \<Longrightarrow> ms = []"
  by (cases "(ms, rx, [] :: byte list, [] :: byte list)" rule: rx_sync.cases) (cases ms; auto)+

lemma rx_run_ok:
  assumes "rx_sync ms rx (ts_in s) (concat arrivals @ fut)" and "\<not> ts_eof s" and "list_all frame_ok ms"
  shows "rx_run arrivals rx s = Inl (Check_Failed ''sizeof(length) == ret'')
    \<or> (\<exists>n rx' s'. rx_run arrivals rx s = Inr (take n ms, rx', s') \<and> rx_sync (drop n ms) rx' (ts_in s') fut)"
  using assms
proof (induction arrivals arbitrary: ms rx s)
  case Nil
  then show ?case by (auto intro!: exI [of _ "0 :: nat"])
next
  case (Cons a arrivals)
  let ?s = "s\<lparr>ts_in := ts_in s @ a\<rparr>"
  have "rx_sync ms rx (ts_in ?s) (concat arrivals @ fut)" using Cons.prems(1) by (simp add: rx_sync_arrive)
  note step = rx_step_ok [OF this _ Cons.prems(3)]
  show ?case
  proof (cases "split_length rx ?s")
    case True
    with step Cons.prems(2) show ?thesis by simp
  next
    case False
    with step Cons.prems(2) obtain r rx1 s1 where
      r: "rx_step rx ?s = Inr (r, rx1, s1)" "rx_post ms (concat arrivals @ fut) ?s r rx1 s1" by auto
    define ms1 where "ms1 = (case r of Rx_Message b \<Rightarrow> tl ms | _ \<Rightarrow> ms)"
    have s1: "rx_sync ms1 rx1 (ts_in s1) (concat arrivals @ fut)" "\<not> ts_eof s1" "list_all frame_ok ms1"
      using r(2) Cons.prems(2,3) by (auto simp: rx_post_def ms1_def split: rx_result.splits elim: list.set_sel(2) simp: list_all_iff dest: list.set_sel(2))
    from Cons.IH [OF s1] show ?thesis
    proof (elim disjE exE conjE)
      fix n rx' s'
      assume run: "rx_run arrivals rx1 s1 = Inr (take n ms1, rx', s')" "rx_sync (drop n ms1) rx' (ts_in s') fut"
      show ?thesis
      proof (cases r)
        case (Rx_Message b)
        then obtain ms' where ms': "ms = bf_data b # ms'" "ms1 = ms'"
          using r(2) by (cases ms) (auto simp: rx_post_def ms1_def)
        with run r(1) Rx_Message show ?thesis by (intro disjI2 exI [of _ "Suc n"]) simp
      next
        case Rx_Wait
        with run r(1) show ?thesis by (intro disjI2 exI [of _ n]) (simp add: ms1_def)
      next
        case Rx_Disconnect
        with r(2) show ?thesis by (simp add: rx_post_def)
      qed
    qed (use r(1) in simp)
  qed
qed

lemma rx_step_frame:
  assumes "ts_in s = frame m @ rest" and "frame_ok m"
  shows "\<exists>b. rx_step [] s = Inr (Rx_Message b, [], s\<lparr>ts_in := rest\<rparr>) \<and> bf_data b = m"
  using assms
  by (simp add: rx_step_def rx_find_def tcp_Recv_def frame_def frame_ok_def rx_fill_def Let_def
      le_val_le_bytes set_msg_length_def Buffer_alloc_def GetRemainSize_def cast_simps put_bytes_def
      MarkHandled_def IsClear_def)

lemma rx_run_frames:
  assumes "list_all frame_ok ms" and "ts_in s = []"
  shows "rx_run (map frame ms) [] s = Inr (ms, [], s)"
  using assms
proof (induction ms)
  case (Cons m ms)
  from rx_step_frame [of "s\<lparr>ts_in := frame m\<rparr>" m "[]"] Cons.prems obtain b where
    "rx_step [] (s\<lparr>ts_in := frame m\<rparr>) = Inr (Rx_Message b, [], s\<lparr>ts_in := []\<rparr>)" "bf_data b = m" by auto
  moreover have "s\<lparr>ts_in := []\<rparr> = s" using Cons.prems(2) by simp
  ultimately show ?case using Cons by simp
qed simp

definition tcp_new :: tcp_sock where
  "tcp_new = \<lparr>ts_in = [], ts_eof = False, ts_sent = []\<rparr>"

lemma stream_of_signals:
  assumes "map (WriteLength \<circ> out_buffer) sigs = map Inr q"
    and "\<forall>sig \<in> set sigs. length (signal_bytes sig) < 2 ^ 32 - 4"
  shows "stream_of q = concat (map (frame \<circ> signal_bytes) sigs) \<and> list_all wf_buffer q"
  using assms
proof (induction sigs arbitrary: q)
  case (Cons sig sigs)
  then obtain b q' where q: "q = b # q'" "WriteLength (out_buffer sig) = Inr b" by (cases q) auto
  with WriteLength_out_buffer [of sig] Cons show ?case by (auto simp: stream_of_def)
qed (simp add: stream_of_def)

lemma signal_bytes_not_Nil: "signal_bytes sig \<noteq> []"
  using length_le_bytes [of 4] by (cases sig) (metis append_is_Nil_conv list.size(3) signal_bytes.simps zero_neq_numeral)+

text \<open>C5: A control connection delivers signals unchanged and in order. Whatever the sender's socket
  accepts (\<open>OnSendReady\<close> may send a message in pieces), and however the bytes arrive, the messages
  the receiver completes are the byte strings of the first signals queued, each of which decodes to
  that signal; when everything has been sent, has arrived and has been read, they are all of them.
  The only way to fail is the \<open>CHECK_EQ\<close> on a length field of which only a part has arrived.\<close>

theorem control_stream:
  assumes "map (WriteLength \<circ> out_buffer) sigs = map Inr q" and "list_all wf_signal sigs"
    and "\<forall>sig \<in> set sigs. length (signal_bytes sig) < 2 ^ 32 - 4"
    and "rd_send_loop os q [] = Inr (q', sent)" and "sends_ok os q" and "sent = concat arrivals @ late"
  shows "rx_run arrivals [] tcp_new = Inl (Check_Failed ''sizeof(length) == ret'')
    \<or> (\<exists>n rx s msgs. rx_run arrivals [] tcp_new = Inr (msgs, rx, s)
        \<and> map decode_signal msgs = map Inr (take n sigs)
        \<and> (late = [] \<and> stream_of q' = [] \<and> ts_in s = [] \<longrightarrow> length sigs \<le> n))"
proof -
  let ?ms = "map signal_bytes sigs"
  have q: "stream_of q = concat (map frame ?ms)" "list_all wf_buffer q"
    using stream_of_signals [OF assms(1,3)] by simp_all
  from rd_send_loop_stream [OF assms(4,5) q(2)] have "stream_of q = sent @ stream_of q'" by auto
  then have sync: "rx_sync ?ms [] (ts_in tcp_new) (concat arrivals @ late @ stream_of q')"
    using q(1) assms(6) by (simp add: tcp_new_def)
  have "list_all frame_ok ?ms"
    using assms(3) by (auto simp: list_all_iff frame_ok_def signal_bytes_not_Nil dest: bspec)
  from rx_run_ok [OF sync _ this] have "rx_run arrivals [] tcp_new = Inl (Check_Failed ''sizeof(length) == ret'')
    \<or> (\<exists>n rx' s'. rx_run arrivals [] tcp_new = Inr (take n ?ms, rx', s')
        \<and> rx_sync (drop n ?ms) rx' (ts_in s') (late @ stream_of q'))" by (simp add: tcp_new_def)
  then show ?thesis
  proof (elim disjE exE conjE)
    fix n rx s
    assume run: "rx_run arrivals [] tcp_new = Inr (take n ?ms, rx, s)"
      and post: "rx_sync (drop n ?ms) rx (ts_in s) (late @ stream_of q')"
    have "map decode_signal (take n ?ms) = map Inr (take n sigs)"
      using assms(2) by (auto simp: list_all_iff take_map decode_signal_bytes dest: in_set_takeD)
    moreover have "length sigs \<le> n" if "late = [] \<and> stream_of q' = [] \<and> ts_in s = []"
      using that post rx_sync_drained [of "drop n ?ms" rx] by simp
    ultimately show ?thesis using run by (intro disjI2) blast
  qed simp
qed

text \<open>A length field of which one to three bytes have arrived when the endpoint wakes up makes
  \<open>OnRecvReady\<close> fail its \<open>CHECK_EQ\<close>, which ends the process; when every wake-up finds one whole
  frame, all messages are delivered.\<close>

lemma split_length_fails:
  assumes "list_all frame_ok ms" and "frame_ok m" and "0 < k" and "k < 4"
  shows "rx_run (map frame ms @ [take k (frame m)]) [] tcp_new = Inl (Check_Failed ''sizeof(length) == ret'')
    \<and> rx_run (map frame ms) [] tcp_new = Inr (ms, [], tcp_new)"
proof -
  have run: "rx_run (map frame ms) [] tcp_new = Inr (ms, [], tcp_new)"
    using assms(1) by (simp add: rx_run_frames tcp_new_def)
  let ?s = "tcp_new\<lparr>ts_in := take k (frame m)\<rparr>"
  have "rx_sync [m] [] (ts_in ?s) (drop k (frame m))" by simp
  moreover have "split_length [] ?s" using assms(3,4) by (auto simp: split_length_def frame_def)
  ultimately have "rx_step [] ?s = Inl (Check_Failed ''sizeof(length) == ret'')"
    using rx_step_ok [of "[m]" "[]" ?s "drop k (frame m)"] assms(2) by (simp add: tcp_new_def)
  then have last: "rx_run [take k (frame m)] [] tcp_new = Inl (Check_Failed ''sizeof(length) == ret'')"
    by (simp add: tcp_new_def)
  have app: "rx_run (as @ bs) rx s = rbind (rx_run as rx s) (\<lambda>(ms1, rx1, s1).
      rbind (rx_run bs rx1 s1) (\<lambda>(ms2, rx2, s2). Inr (ms1 @ ms2, rx2, s2)))" for as bs rx s
    by (induction as arbitrary: rx s)
      (auto simp: rbind_def split: sum.split prod.split rx_result.split)
  show ?thesis using run last by (simp add: app)
qed

text \<open>A rate adjustment moves the sending rate of a connection to a value between the initial
  rate and twice the throttle, and never below the initial rate.\<close>

lemma rate_adjustment_bounds:
  assumes "w_conns w (re_conn e) = Some c" and "w_init_rate w \<le> cm_sending_rate c" and "0 < w_init_rate w"
    and "bf_data b = signal_bytes (RateAdjustment r)" and "r < 2 ^ 32"
  shows "\<exists>c' w'. HandleReceivedData of_float b e w = Inr (e, w') \<and> w_conns w' (re_conn e) = Some c'
    \<and> w_init_rate w \<le> cm_sending_rate c' \<and> cm_sending_rate c' \<le> 2 * max (of_float r) (w_init_rate w)
    \<and> (cm_sending_rate c' < cm_sending_rate c \<longleftrightarrow> max (of_float r) (w_init_rate w) < cm_sending_rate c)"
proof -
  have d: "decode_signal (bf_data b) = Inr (RateAdjustment r)"
    unfolding assms(4) using assms(5) by (intro decode_signal_bytes) simp
  with assms(1-3) show ?thesis
    by (auto simp: HandleReceivedData_def Let_def max_def deref_def)
qed

section \<open>Witnesses\<close>

definition demo_signals :: "signal list" where
  "demo_signals = [FlowStart 7 100 3, FlowFinish 7]"

lemma demo_signals_ok:
  "list_all wf_signal demo_signals" "\<forall>sig \<in> set demo_signals. length (signal_bytes sig) < 2 ^ 32 - 4"
  by (simp_all add: demo_signals_def wf_int_def)

definition demo_queue :: "buffer list" where
  "demo_queue = map (\<lambda>sig. (out_buffer sig)\<lparr>bf_data := frame (signal_bytes sig)\<rparr>) demo_signals"

lemma demo_queue_ok:
  "map (WriteLength \<circ> out_buffer) demo_signals = map Inr demo_queue"
  by (simp add: demo_queue_def demo_signals_def WriteLength_eq)

lemma demo_queue_send:
  "rd_send_loop [Sent 4, Sent 16, Sent 12] demo_queue [] = Inr ([], concat (map (frame \<circ> signal_bytes) demo_signals))"
  "sends_ok [Sent 4, Sent 16, Sent 12] demo_queue"
  by (simp_all add: demo_queue_def demo_signals_def out_buffer_def Let_def GetOutBufferSize_def
      Buffer_alloc_def set_msg_length_def IsClear_def MarkHandled_def GetRemainBuffer_def GetRemainSize_def
      cast_simps frame_def)

theorem control_stream_witness:
  "\<exists>n rx s msgs. rx_run (map frame (map signal_bytes demo_signals)) [] tcp_new = Inr (msgs, rx, s)
    \<and> map decode_signal msgs = map Inr (take n demo_signals)"
proof -
  let ?ms = "map signal_bytes demo_signals"
  have ok: "rx_run (map frame ?ms) [] tcp_new = Inr (?ms, [], tcp_new)"
    by (rule rx_run_frames) (use demo_signals_ok(2) in \<open>auto simp: list_all_iff frame_ok_def signal_bytes_not_Nil tcp_new_def\<close>)
  have "concat (map (frame \<circ> signal_bytes) demo_signals) = concat (map frame ?ms) @ []" by simp
  from control_stream [OF demo_queue_ok demo_signals_ok demo_queue_send this] ok show ?thesis
    by auto
qed

end
