(* ===== verification/Communicator.thy ===== *)
theory Communicator
  imports Rd_Endpoint
begin

text \<open>
  \<open>ReliableChannel\<close> (\<open>src/src/mlt/reliable_channel.h\<close>, \<open>reliable_channel.cc\<close>) and the application
  interface \<open>MLTCommunicator\<close> (\<open>mlt_communicator.h\<close>, \<open>mlt_communicator.cc\<close>).

  An endpoint is known by the communicator id of its peer: it is registered once, under that id,
  and events refer to it. A new \<open>ConnMeta\<close> gets an address the heap does not use, an argument.
  \<open>conn_cfg\<close> collects the configuration values its constructor reads. Waiting for a connection is
  modelled by a call that has not returned (\<open>None\<close>).
\<close>

section \<open>The reliable channel\<close>

datatype rl_notification = ADD_ENDPOINT rd_endpoint | REMOVE_ENDPOINT int

record rchannel =
  rl_endpoints :: "int \<rightharpoonup> rd_endpoint option"
  rl_notif :: "rl_notification list"

record conn_cfg =
  cc_window :: nat
  cc_rate :: rat
  cc_interval_us :: nat
  cc_disable_backlog :: int
  cc_backlog_size :: nat
  cc_seg :: nat

definition make_conn :: "nat \<Rightarrow> conn_cfg \<Rightarrow> nat \<Rightarrow> nat \<Rightarrow> int \<Rightarrow> conn_meta res" where
  "make_conn fuel cfg backlog now dest =
     InitBacklog fuel (cc_disable_backlog cfg) backlog (cc_backlog_size cfg) (cc_seg cfg)
       (ConnMeta dest (cc_window cfg) (cc_rate cfg) (cc_interval_us cfg) now)"

definition RemoveEndpoint :: "int \<Rightarrow> rchannel \<Rightarrow> rchannel res" where
  "RemoveEndpoint dest r =
     (case rl_endpoints r dest of
        Some (Some e) \<Rightarrow>
          if re_dead e then Inr r
          else rbind (Disconnect e) (\<lambda>e1. Inr (r\<lparr>rl_endpoints := (rl_endpoints r)(dest \<mapsto> Some e1)\<rparr>))
      | _ \<Rightarrow> Inr r)"

definition rl_AddEndpoint :: "rd_endpoint \<Rightarrow> rchannel \<Rightarrow> rchannel res" where
  "rl_AddEndpoint e r =
     rbind (check (rl_endpoints r (re_comm_id e) = None) ''0 == ctrl_endpoints_.count(remote_comm_id)'') (\<lambda>_.
       Inr (r\<lparr>rl_endpoints := (rl_endpoints r)(re_comm_id e \<mapsto> Some e)\<rparr>))"

definition rl_Notify :: "rl_notification \<Rightarrow> rchannel \<Rightarrow> rchannel" where
  "rl_Notify n r = r\<lparr>rl_notif := rl_notif r @ [n]\<rparr>"

text \<open>Assigning a new object to \<open>id_conn_[dest]\<close> frees the old one.\<close>

definition put_conn :: "int \<Rightarrow> nat \<Rightarrow> conn_meta \<Rightarrow> world \<Rightarrow> world" where
  "put_conn dest p c w =
     (let w1 = (case w_id_conn w dest of Some (Some q) \<Rightarrow> w\<lparr>w_conns := (w_conns w)(q := None)\<rparr> | _ \<Rightarrow> w)
      in w1\<lparr>w_conns := (w_conns w1)(p \<mapsto> c), w_id_conn := (w_id_conn w1)(dest \<mapsto> Some p)\<rparr>)"

text \<open>\<open>first\<close> is what the blocking read of the peer's id returns.\<close>

definition HandleNewConnection :: "(int \<Rightarrow> conn_meta res) \<Rightarrow> nat \<Rightarrow> byte list \<Rightarrow> rchannel \<times> world \<Rightarrow> (rchannel \<times> world) res" where
  "HandleNewConnection mk p first st =
     (let (r, w) = st in
      rbind (check (length first = 4) ''sizeof(dest) == new_sock.Recv(&dest, sizeof(dest))'') (\<lambda>_.
        let dest = i32 (int (le_val first)) in
        rbind (mk dest) (\<lambda>c.
        let w1 = put_conn dest p c w in
        rbind (rl_AddEndpoint (RdEndpoint p dest) r) (\<lambda>r1.
          Inr (r1, pc_Notify (ADD_CONNECTION p) w1)))))"

text \<open>An event of the epoll loop: a connection to accept, or readiness of an endpoint with the bytes
  that have arrived, whether the peer has shut down, and the outcomes of the sends.\<close>

record ep_ready =
  ev_in :: bool
  ev_out :: bool
  ev_err :: bool
  ev_arrived :: "byte list"
  ev_eof :: bool
  ev_sends :: "send_outcome list"

datatype ep_event = Ev_Listen nat "byte list" | Ev_Data int ep_ready

text \<open>Sending on a closed socket fails with an error other than \<open>EWOULDBLOCK\<close>.\<close>

definition sends_on :: "rd_endpoint \<Rightarrow> send_outcome list \<Rightarrow> send_outcome list" where
  "sends_on e os = (if re_closed e then [Send_Error] else os)"

definition handle_data_event :: "(nat \<Rightarrow> rat) \<Rightarrow> int \<Rightarrow> ep_ready \<Rightarrow> rchannel \<times> world \<Rightarrow> (rchannel \<times> world) res" where
  "handle_data_event of_float i ev st =
     (let (r, w) = st in
      case rl_endpoints r i of
        Some (Some e0) \<Rightarrow>
          let e = e0\<lparr>re_sock := (re_sock e0)\<lparr>ts_in := ts_in (re_sock e0) @ ev_arrived ev,
                                            ts_eof := (ts_eof (re_sock e0) \<or> ev_eof ev)\<rparr>\<rparr> in
          rbind (if ev_in ev then OnRecvReady of_float e w else Inr (e, w)) (\<lambda>(e1, w1).
          rbind (if ev_out ev then rd_OnSendReady (sends_on e1 (ev_sends ev)) e1 else Inr e1) (\<lambda>e2.
            if ev_err ev then Inr (r\<lparr>rl_endpoints := (rl_endpoints r)(i \<mapsto> None)\<rparr>, w1)
            else Inr (r\<lparr>rl_endpoints := (rl_endpoints r)(i \<mapsto> Some e2)\<rparr>, w1)))
      | _ \<Rightarrow> Inl (Undefined_Behaviour ''event of no endpoint''))"

definition handle_event :: "(nat \<Rightarrow> rat) \<Rightarrow> (int \<Rightarrow> conn_meta res) \<Rightarrow> ep_event \<Rightarrow> rchannel \<times> world \<Rightarrow> (rchannel \<times> world) res" where
  "handle_event of_float mk ev st =
     (case ev of
        Ev_Listen p first \<Rightarrow> HandleNewConnection mk p first st
      | Ev_Data i rd \<Rightarrow> handle_data_event of_float i rd st)"

definition rl_handle :: "rl_notification \<Rightarrow> rchannel \<Rightarrow> rchannel res" where
  "rl_handle n r = (case n of ADD_ENDPOINT e \<Rightarrow> rl_AddEndpoint e r | REMOVE_ENDPOINT dest \<Rightarrow> RemoveEndpoint dest r)"

text \<open>A control message goes to the queue of its endpoint, or is dropped when there is none.\<close>

definition route_ctrl :: "int \<times> buffer \<Rightarrow> rchannel \<Rightarrow> rchannel res" where
  "route_ctrl msg r =
     (let (dest, b) = msg in
      case rl_endpoints r dest of
        Some (Some e) \<Rightarrow>
          rbind (WriteLength b) (\<lambda>b1.
            Inr (r\<lparr>rl_endpoints := (rl_endpoints r)(dest \<mapsto> Some (e\<lparr>re_tx_queue := re_tx_queue e @ [b1]\<rparr>))\<rparr>))
      | _ \<Rightarrow> Inr r)"

text \<open>One turn of the loop of \<open>Run\<close>.\<close>

definition rl_Run_turn :: "(nat \<Rightarrow> rat) \<Rightarrow> (int \<Rightarrow> conn_meta res) \<Rightarrow> ep_event list \<Rightarrow> rchannel \<times> world \<Rightarrow> (rchannel \<times> world) res" where
  "rl_Run_turn of_float mk evs st =
     rbind (rfold (handle_event of_float mk) evs st) (\<lambda>(r1, w1).
     rbind (rfold rl_handle (rl_notif r1) (r1\<lparr>rl_notif := []\<rparr>)) (\<lambda>r2.
     rbind (rfold route_ctrl (w_rc_tx w1) r2) (\<lambda>r3. Inr (r3, w1\<lparr>w_rc_tx := []\<rparr>))))"

section \<open>The communicator\<close>

text \<open>\<open>Start\<close>: the number of priorities, capped by the number of queues, and the ports.\<close>

record started =
  st_routes :: prio_routes
  st_udp_port :: int
  st_rc_port :: int

definition Start :: "env \<Rightarrow> int \<Rightarrow> int \<Rightarrow> started res" where
  "Start env nq listen_port =
     (let n = min (GetEnvOrDefault_int env ''MLT_NUM_PRIO'' 8) nq;
          udp = (if listen_port \<noteq> 0 then listen_port else GetEnvOrDefault_int env ''MLT_UDP_PORT'' 5555);
          rc = (if listen_port \<noteq> 0 then listen_port else GetEnvOrDefault_int env ''MLT_RC_PORT'' 5555)
      in rbind (start_routes n) (\<lambda>rts. Inr \<lparr>st_routes = rts, st_udp_port = udp, st_rc_port = rc\<rparr>))"

text \<open>\<open>sent\<close> is the number of bytes of its own id the connected socket accepts.\<close>

definition AddConnection :: "(int \<Rightarrow> conn_meta res) \<Rightarrow> nat \<Rightarrow> nat \<Rightarrow> int \<Rightarrow> 'addr
    \<Rightarrow> 'addr mlt_global \<times> rchannel \<times> world \<Rightarrow> ('addr mlt_global \<times> rchannel \<times> world) option res" where
  "AddConnection mk p sent dest addr st =
     (let (g, r, w) = st in
      rbind (AddCommIdAddr g dest addr) (\<lambda>g1.
        if w_comm_id w \<ge> dest then
          Inr (if w_id_conn w dest = None then None else Some (g1, r, w))
        else
          rbind (case w_id_conn w dest of
                   None \<Rightarrow> rbind (mk dest) (\<lambda>c. Inr (Some p, put_conn dest p c w))
                 | Some q \<Rightarrow> Inr (q, w)) (\<lambda>(conn, w1).
            case conn of
              None \<Rightarrow> Inl (Undefined_Behaviour ''null ConnMeta*'')
            | Some q \<Rightarrow>
                rbind (check (sent = 4) ''sizeof(comm_id_) == endpoint->sock().Send(...)'') (\<lambda>_.
                  Inr (Some (g1, rl_Notify (ADD_ENDPOINT (RdEndpoint q dest)) r, pc_Notify (ADD_CONNECTION q) w1))))))"

definition RemoveConnection :: "int \<Rightarrow> rchannel \<times> world \<Rightarrow> (rchannel \<times> world) res" where
  "RemoveConnection dest st =
     (let (r, w) = st in
      case w_id_conn w dest of
        Some (Some p) \<Rightarrow> Inr (rl_Notify (REMOVE_ENDPOINT dest) r, pc_Notify (REMOVE_CONNECTION p) w)
      | _ \<Rightarrow> Inl (Undefined_Behaviour ''null ConnMeta*''))"

definition SendMetaAsync :: "int \<Rightarrow> buffer \<Rightarrow> world \<Rightarrow> world res" where
  "SendMetaAsync dest b w =
     (if length (bf_data b) < bf_msg_length b then Inl (Undefined_Behaviour ''memcpy'')
      else Inr (rc_Enqueue dest (out_buffer (UserData (take (bf_msg_length b) (bf_data b)))) w))"

text \<open>\<open>None\<close> while the queue is empty and the call waits.\<close>

definition RecvMeta :: "buffer \<Rightarrow> world \<Rightarrow> (int \<times> buffer \<times> world) option res" where
  "RecvMeta b w =
     (case tsq_WaitAndPop (w_meta_queue w) of
        None \<Rightarrow> Inr None
      | Some ((src, nb), rest) \<Rightarrow>
          let b1 = set_msg_length b (usub32 (bf_msg_length nb) 4) in
          if length (bf_data nb) < 4 + bf_msg_length b1 then Inl (Undefined_Behaviour ''memcpy'')
          else rbind (put_bytes b1 0 (take (bf_msg_length b1) (drop 4 (bf_data nb)))) (\<lambda>b2.
                 Inr (Some (src, b2, w\<lparr>w_meta_queue := rest\<rparr>))))"

definition PostSend :: "int \<Rightarrow> lt_message \<Rightarrow> prio_func \<Rightarrow> world \<Rightarrow> world res" where
  "PostSend dest msg f w =
     rbind (GetMaxSeqNum (w_mss w) (lm_size msg)) (\<lambda>max_seq_num.
       Inr (pc_Enqueue dest msg f
             (rc_Enqueue dest (out_buffer (FlowStart (i32 (int (lm_msg_id msg))) (u32 (lm_size msg)) max_seq_num)) w)))"

definition PostRecv :: "int \<Rightarrow> lt_message \<Rightarrow> rat \<Rightarrow> world \<Rightarrow> world res" where
  "PostRecv dest msg loss_ratio w =
     (case w_id_conn w dest of
        Some (Some p) \<Rightarrow> Inr (rch_Enqueue p msg loss_ratio w)
      | _ \<Rightarrow> Inl (Check_Failed ''id_conn_[dest]''))"

section \<open>Metadata messages\<close>

lemma route_ctrl_signal:
  assumes "rl_endpoints r dest = Some (Some e)" and "length (signal_bytes sig) < 2 ^ 32 - 4"
  shows "\<exists>b. route_ctrl (dest, out_buffer sig) r
      = Inr (r\<lparr>rl_endpoints := (rl_endpoints r)(dest \<mapsto> Some (e\<lparr>re_tx_queue := re_tx_queue e @ [b]\<rparr>))\<rparr>)
    \<and> wf_buffer b \<and> pending b = frame (signal_bytes sig)"
  using WriteLength_out_buffer [OF assms(2)] assms(1) by (auto simp: route_ctrl_def)

lemma send_one:
  assumes "wf_buffer b" and "pending b \<noteq> []"
  shows "rd_send_loop [Sent (length (pending b))] [b] [] = Inr ([], pending b)"
proof -
  let ?k = "length (pending b)"
  have k: "?k \<le> GetRemainSize b" by (simp add: pending_def)
  have "pending (MarkHandled b ?k) = []" using MarkHandled_ok(2) [OF assms(1) k] by simp
  then have "IsClear (MarkHandled b ?k)" using IsClear_pending [OF MarkHandled_ok(1) [OF assms(1) k]] by simp
  moreover have "\<not> IsClear b" using IsClear_pending [OF assms(1)] assms(2) by simp
  moreover have "take ?k (GetRemainBuffer b) = pending b"
    using assms(1) length_pending [of b] by (simp add: pending_def)
  ultimately show ?thesis by (simp add: Let_def)
qed

lemma data_event_message:
  assumes "rl_endpoints r i = Some (Some e)" and "re_rx_buffers e = []" and "ts_in (re_sock e) = []"
    and "frame_ok m" and "ev_in ev" and "\<not> ev_out ev" and "\<not> ev_err ev" and "ev_arrived ev = frame m"
  shows "\<exists>b s. bf_data b = m \<and> bf_msg_length b = length m \<and> handle_data_event of_float i ev (r, w) =
     rbind (HandleReceivedData of_float b (e\<lparr>re_rx_buffers := [], re_sock := s\<rparr>) w) (\<lambda>(e1, w1).
       Inr (r\<lparr>rl_endpoints := (rl_endpoints r)(i \<mapsto> Some e1)\<rparr>, w1))"
proof -
  let ?s = "(re_sock e)\<lparr>ts_in := frame m, ts_eof := ts_eof (re_sock e) \<or> ev_eof ev\<rparr>"
  obtain b where b: "rx_step [] ?s = Inr (Rx_Message b, [], ?s\<lparr>ts_in := []\<rparr>)" "bf_data b = m"
      "bf_msg_length b = length m"
    using assms(4)
    by (simp add: rx_step_def rx_find_def tcp_Recv_def frame_def frame_ok_def rx_fill_def Let_def
        le_val_le_bytes set_msg_length_def Buffer_alloc_def GetRemainSize_def cast_simps put_bytes_def
        MarkHandled_def IsClear_def)
  then show ?thesis
    using assms by (intro exI [of _ b] exI [of _ "?s\<lparr>ts_in := []\<rparr>"])
      (simp add: handle_data_event_def OnRecvReady_def Let_def split_def)
qed

text \<open>C19: Metadata round trip between two communicators. The buffer given to \<open>SendMetaAsync\<close> is
  queued at the endpoint of its destination by the next turn of the reliable channel, \<open>OnSendReady\<close>
  puts its frame on the stream, and when that frame arrives at the peer, \<open>RecvMeta\<close> there returns
  the sender's id and exactly the valid bytes of the buffer.\<close>

theorem meta_round_trip:
  assumes "bf_msg_length buf \<le> length (bf_data buf)" and "bf_msg_length buf < 2 ^ 32 - 8"
    and "w_rc_tx wA = []" and "rl_notif rA = []" and "rl_endpoints rA dest = Some (Some eA)"
    and "re_tx_queue eA = []" and "rl_endpoints rB src = Some (Some eB)" and "re_comm_id eB = src"
    and "re_rx_buffers eB = []" and "ts_in (re_sock eB) = []" and "w_meta_queue wB = []"
    and "bf_msg_length buf \<le> length (bf_data room)" and "ev_in ev" and "\<not> ev_out ev" and "\<not> ev_err ev"
  shows "\<exists>wA1 rA1 eA1 eA2 bytes n. SendMetaAsync dest buf wA = Inr wA1
    \<and> rl_Run_turn of_float mk [] (rA, wA1) = Inr (rA1, wA) \<and> rl_endpoints rA1 dest = Some (Some eA1)
    \<and> rd_OnSendReady [Sent n] eA1 = Inr eA2 \<and> re_tx_queue eA2 = []
    \<and> ts_sent (re_sock eA2) = ts_sent (re_sock eA) @ bytes
    \<and> (\<exists>rB1 wB1 room1. handle_data_event of_float src (ev\<lparr>ev_arrived := bytes\<rparr>) (rB, wB) = Inr (rB1, wB1)
        \<and> RecvMeta room wB1 = Inr (Some (src, room1, wB))
        \<and> take (bf_msg_length room1) (bf_data room1) = take (bf_msg_length buf) (bf_data buf)
        \<and> bf_msg_length room1 = bf_msg_length buf)"
proof -
  let ?pl = "take (bf_msg_length buf) (bf_data buf)"
  let ?sig = "UserData ?pl"
  have len: "length ?pl = bf_msg_length buf" using assms(1) by simp
  then have slen: "length (signal_bytes ?sig) < 2 ^ 32 - 4" using assms(2) by simp
  from route_ctrl_signal [OF assms(5) slen] obtain b where
    b: "route_ctrl (dest, out_buffer ?sig) rA
      = Inr (rA\<lparr>rl_endpoints := (rl_endpoints rA)(dest \<mapsto> Some (eA\<lparr>re_tx_queue := [b]\<rparr>))\<rparr>)"
    "wf_buffer b" "pending b = frame (signal_bytes ?sig)"
    using assms(6) by auto
  let ?bytes = "frame (signal_bytes ?sig)"
  have send: "rd_send_loop [Sent (length ?bytes)] [b] [] = Inr ([], ?bytes)"
    using send_one [OF b(2)] b(3) by simp
  have fok: "frame_ok (signal_bytes ?sig)" using slen by (simp add: frame_ok_def signal_bytes_not_Nil del: signal_bytes.simps)
  from data_event_message [OF assms(7,9,10) fok, of "ev\<lparr>ev_arrived := ?bytes\<rparr>" of_float wB] assms(13-15)
  obtain nb s where nb: "bf_data nb = signal_bytes ?sig" "bf_msg_length nb = length (signal_bytes ?sig)"
    "handle_data_event of_float src (ev\<lparr>ev_arrived := ?bytes\<rparr>) (rB, wB) =
     rbind (HandleReceivedData of_float nb (eB\<lparr>re_rx_buffers := [], re_sock := s\<rparr>) wB) (\<lambda>(e1, w1).
       Inr (rB\<lparr>rl_endpoints := (rl_endpoints rB)(src \<mapsto> Some e1)\<rparr>, w1))" by auto
  have dec: "decode_signal (bf_data nb) = Inr ?sig" unfolding nb(1) by (rule decode_signal_bytes) simp
  let ?wB1 = "wB\<lparr>w_meta_queue := [(src, nb)]\<rparr>"
  have ev: "\<exists>rB1. handle_data_event of_float src (ev\<lparr>ev_arrived := ?bytes\<rparr>) (rB, wB) = Inr (rB1, ?wB1)"
    unfolding nb(3) by (simp add: HandleReceivedData_def dec assms(8,11))
  have u: "usub32 (4 + bf_msg_length buf) 4 = bf_msg_length buf" "u32 (bf_msg_length buf) = bf_msg_length buf"
    using assms(2) by (simp_all add: cast_simps)
  have "\<exists>room1. RecvMeta room ?wB1 = Inr (Some (src, room1, wB))
        \<and> take (bf_msg_length room1) (bf_data room1) = ?pl \<and> bf_msg_length room1 = bf_msg_length buf"
    using assms(1,11,12) nb(1,2) u
    by (simp add: RecvMeta_def tsq_WaitAndPop_def set_msg_length_def put_bytes_def Let_def min_def)
  with ev have recv: "\<exists>rB1 wB1 room1. handle_data_event of_float src (ev\<lparr>ev_arrived := ?bytes\<rparr>) (rB, wB) = Inr (rB1, wB1)
        \<and> RecvMeta room wB1 = Inr (Some (src, room1, wB))
        \<and> take (bf_msg_length room1) (bf_data room1) = ?pl \<and> bf_msg_length room1 = bf_msg_length buf"
    by blast
  let ?wA1 = "rc_Enqueue dest (out_buffer ?sig) wA"
  have "SendMetaAsync dest buf wA = Inr ?wA1" using assms(1) by (simp add: SendMetaAsync_def)
  moreover have "rl_Run_turn of_float mk [] (rA, ?wA1)
      = Inr (rA\<lparr>rl_endpoints := (rl_endpoints rA)(dest \<mapsto> Some (eA\<lparr>re_tx_queue := [b]\<rparr>))\<rparr>, wA)"
  proof -
    have eq: "rA\<lparr>rl_notif := []\<rparr> = rA" "wA\<lparr>w_rc_tx := []\<rparr> = wA" using assms(3,4) by simp_all
    have "rl_Run_turn of_float mk [] (rA, ?wA1)
        = rbind (route_ctrl (dest, out_buffer ?sig) (rA\<lparr>rl_notif := []\<rparr>)) (\<lambda>r3. Inr (r3, wA\<lparr>w_rc_tx := []\<rparr>))"
      using assms(3,4) by (simp add: rl_Run_turn_def rc_Enqueue_def rbind_def split: sum.split)
    then show ?thesis unfolding eq b(1) by simp
  qed
  ultimately show ?thesis
    using recv send
    by - (rule exI [of _ ?wA1], rule exI [of _ "rA\<lparr>rl_endpoints := (rl_endpoints rA)(dest \<mapsto> Some (eA\<lparr>re_tx_queue := [b]\<rparr>))\<rparr>"],
        rule exI [of _ "eA\<lparr>re_tx_queue := [b]\<rparr>"],
        rule exI [of _ "eA\<lparr>re_tx_queue := [], re_sock := (re_sock eA)\<lparr>ts_sent := ts_sent (re_sock eA) @ ?bytes\<rparr>\<rparr>"],
        rule exI [of _ ?bytes], rule exI [of _ "length ?bytes"], intro conjI,
        (assumption | simp add: rd_OnSendReady_def del: signal_bytes.simps)+)
qed

section \<open>Connections\<close>

text \<open>C39: A communicator cannot connect again to a peer it has been connected to. \<open>RemoveEndpoint\<close>, like
  the loss of the connection, leaves the entry of the endpoint in \<open>ctrl_endpoints_\<close>, so that adding
  an endpoint for the same peer fails its \<open>CHECK_EQ\<close>; and once the priority channel has handled the
  removal, \<open>id_conn_\<close> holds a null pointer under the peer's id, which \<open>AddConnection\<close> then passes
  on as a connection (side with the smaller id) or takes for an established one (other side).\<close>

theorem reconnect_fails:
  assumes "rl_endpoints r dest = Some (Some e)" and "re_closed e \<longrightarrow> re_dead e"
    and "w_conns w p = Some c" and "cm_dest_comm_id c = dest" and "p \<in> set (w_conn_metas w)"
    and "w_id_conn w dest = Some (Some p)" and "0 \<le> dest"
  shows "\<exists>r1 w1. RemoveEndpoint dest r = Inr r1 \<and> handle_notification (REMOVE_CONNECTION p) w = Inr w1
    \<and> rl_AddEndpoint (RdEndpoint q dest) r1
        = Inl (Check_Failed ''0 == ctrl_endpoints_.count(remote_comm_id)'')
    \<and> AddConnection mk q 4 dest addr (g, r1, w1) =
        (if w_comm_id w < dest then Inl (Undefined_Behaviour ''null ConnMeta*'')
         else rbind (AddCommIdAddr g dest addr) (\<lambda>g1. Inr (Some (g1, r1, w1))))"
proof -
  obtain r1 where r1: "RemoveEndpoint dest r = Inr r1" "rl_endpoints r1 dest \<noteq> None"
    using assms(1,2) by (cases "re_dead e") (auto simp: RemoveEndpoint_def Disconnect_def)
  obtain w1 where w1: "handle_notification (REMOVE_CONNECTION p) w = Inr w1" "w_id_conn w1 dest = Some None"
    "w_comm_id w1 = w_comm_id w"
    using assms(3-6) by (simp add: handle_notification_def deref_def Let_def)
  have "rl_AddEndpoint (RdEndpoint q dest) r1 = Inl (Check_Failed ''0 == ctrl_endpoints_.count(remote_comm_id)'')"
    using r1(2) by (simp add: rl_AddEndpoint_def RdEndpoint_def check_def)
  moreover have "AddConnection mk q 4 dest addr (g, r1, w1) =
        (if w_comm_id w < dest then Inl (Undefined_Behaviour ''null ConnMeta*'')
         else rbind (AddCommIdAddr g dest addr) (\<lambda>g1. Inr (Some (g1, r1, w1))))"
    using w1(2,3) assms(7) by (simp add: AddConnection_def AddCommIdAddr_def Let_def)
  ultimately show ?thesis using r1(1) w1(1) by blast
qed

section \<open>Flows\<close>

text \<open>\<open>PostSend\<close> announces a flow before it is sent: it hands the message to the priority channel and
  queues a \<open>FlowStart\<close> with the number of the last packet. Once the peer's endpoint has handled that
  signal, the \<open>FlowFinish\<close> of the flow makes it notify its receiving channel with exactly that
  number; a \<open>FlowFinish\<close> of a flow that was not announced fails its \<open>CHECK\<close>.\<close>

lemma flow_announced:
  assumes "fits (w_mss w) (lm_size msg)" and "0 < lm_size msg" and "lm_msg_id msg < 2 ^ 31"
    and "bf_data fin = signal_bytes (FlowFinish (int (lm_msg_id msg)))"
    and "bf_data start = signal_bytes (FlowStart (int (lm_msg_id msg)) (lm_size msg) max_seq)"
    and "max_seq = num_chunks (seg_bound (w_mss w)) (lm_size msg) - 1"
  shows "\<exists>w1. PostSend dest msg f w = Inr w1 \<and> w_sr_queue w1 = w_sr_queue w @ [(dest, LtMessageExt msg, f)]
    \<and> w_rc_tx w1 = w_rc_tx w @ [(dest, out_buffer (FlowStart (int (lm_msg_id msg)) (lm_size msg) max_seq))]
    \<and> rbind (HandleReceivedData of_float start e v) (\<lambda>(e1, v1). HandleReceivedData of_float fin e1 v1)
        = Inr (e\<lparr>re_msg_max_seq := (re_msg_max_seq e)(int (lm_msg_id msg) \<mapsto> max_seq)\<rparr>,
               v\<lparr>w_rnotif := w_rnotif v @ [FINISH_FLOW (int (lm_msg_id msg)) max_seq (re_conn e)]\<rparr>)
    \<and> (HandleReceivedData of_float fin e v = Inl (Check_Failed ''msg_max_seq.count(msg_id)'')
        \<longleftrightarrow> re_msg_max_seq e (int (lm_msg_id msg)) = None)"
proof -
  let ?id = "int (lm_msg_id msg)"
  have id: "wf_int ?id" "i32 ?id = ?id" using assms(3) by (simp_all add: wf_int_def cast_simps)
  have sz: "lm_size msg < 2 ^ 32" using assms(1) by (simp add: fits_def)
  have mx: "GetMaxSeqNum (w_mss w) (lm_size msg) = Inr max_seq"
    using GetMaxSeqNum_eq [OF assms(1,2)] assms(6) by simp
  then have "max_seq < 2 ^ 32" by (auto simp: GetMaxSeqNum_def Let_def split: if_splits)
  then have "decode_signal (bf_data start) = Inr (FlowStart ?id (lm_size msg) max_seq)"
    unfolding assms(5) using id(1) sz by (intro decode_signal_bytes) simp
  moreover have "decode_signal (bf_data fin) = Inr (FlowFinish ?id)"
    unfolding assms(4) using id(1) by (intro decode_signal_bytes) simp
  ultimately show ?thesis
    using mx id sz by (auto simp: PostSend_def HandleReceivedData_def rch_Notify_def pc_Enqueue_def
        rc_Enqueue_def cast_simps split: option.splits)
qed

section \<open>Witnesses\<close>

definition demo_channel :: "int \<Rightarrow> rchannel" where
  "demo_channel i = \<lparr>rl_endpoints = [i \<mapsto> Some (RdEndpoint 0 i)], rl_notif = []\<rparr>"

definition demo_buffer :: "byte list \<Rightarrow> buffer" where
  "demo_buffer d = \<lparr>bf_data = d, bf_size = length d, bf_msg_length = length d, bf_bytes_handled = 0, bf_is_owner = True\<rparr>"

definition demo_ready :: ep_ready where
  "demo_ready = \<lparr>ev_in = True, ev_out = False, ev_err = False, ev_arrived = [], ev_eof = False, ev_sends = []\<rparr>"

theorem meta_round_trip_witness:
  "\<exists>bytes rB1 wB1 room1. handle_data_event (\<lambda>_. 0) 1 (demo_ready\<lparr>ev_arrived := bytes\<rparr>)
      (demo_channel 1, demo_world prio_routes_init demo_conn) = Inr (rB1, wB1)
    \<and> RecvMeta (demo_buffer [0, 0, 0, 0]) wB1 = Inr (Some (1, room1, demo_world prio_routes_init demo_conn))
    \<and> take 3 (bf_data room1) = [10, 20, 30]"
proof -
  let ?w = "demo_world prio_routes_init demo_conn"
  have h: "bf_msg_length (demo_buffer [10, 20, 30]) = 3" "bf_data (demo_buffer [10, 20, 30]) = [10, 20, 30]"
    "bf_data (demo_buffer [0, 0, 0, 0]) = [0, 0, 0, 0]" by (simp_all add: demo_buffer_def)
  have w: "w_rc_tx ?w = []" "w_meta_queue ?w = []" by (simp_all add: demo_world_def)
  have r: "rl_notif (demo_channel i) = []" "rl_endpoints (demo_channel i) i = Some (Some (RdEndpoint 0 i))" for i
    by (simp_all add: demo_channel_def)
  have e: "re_tx_queue (RdEndpoint 0 i) = []" "re_comm_id (RdEndpoint 0 i) = i" "re_rx_buffers (RdEndpoint 0 i) = []"
    "ts_in (re_sock (RdEndpoint 0 i)) = []" for i by (simp_all add: RdEndpoint_def)
  show ?thesis
    using meta_round_trip [where of_float = "\<lambda>_. 0" and mk = "\<lambda>_. Inl Out_Of_Fuel" and buf = "demo_buffer [10, 20, 30]" and ev = demo_ready
        and dest = 2 and src = 1 and room = "demo_buffer [0, 0, 0, 0]", OF _ _ w(1) r(1) r(2) e(1) r(2) e(2) e(3) e(4) w(2)] h
    by (simp add: demo_ready_def) metis
qed

theorem reconnect_fails_witness:
  "\<exists>r1. RemoveEndpoint 2 (demo_channel 2) = Inr r1
    \<and> rl_AddEndpoint (RdEndpoint 5 2) r1 = Inl (Check_Failed ''0 == ctrl_endpoints_.count(remote_comm_id)'')"
proof -
  have "rl_endpoints (demo_channel 2) 2 = Some (Some (RdEndpoint 0 2))" "re_closed (RdEndpoint 0 2) \<longrightarrow> re_dead (RdEndpoint 0 2)"
    by (simp_all add: demo_channel_def RdEndpoint_def)
  note r = reconnect_fails [OF this, of "demo_world prio_routes_init demo_conn" 0 demo_conn]
  have "w_conns (demo_world prio_routes_init demo_conn) 0 = Some demo_conn" "cm_dest_comm_id demo_conn = 2"
    "0 \<in> set (w_conn_metas (demo_world prio_routes_init demo_conn))"
    "w_id_conn (demo_world prio_routes_init demo_conn) 2 = Some (Some 0)" "(0 :: int) \<le> 2"
    by (simp_all add: demo_world_def demo_conn_def ConnMeta_def)
  from r [OF this, of 5 "\<lambda>_. Inl Out_Of_Fuel" "()" mlt_global_inst] show ?thesis by (elim exE conjE) (intro exI conjI, assumption+)
qed

end
