(* ===== verification/Ps_Message.thy ===== *)
theory Ps_Message
  imports Prelude
begin

text \<open>
  Messages of the parameter server (\<open>src/include/ps/internal/message.h\<close>), their raw layout
  (\<open>src/src/meta.h\<close>) and its packing (\<open>PackMeta\<close>, \<open>UnpackMeta\<close> of \<open>src/src/van.cc\<close>).

  Strings are byte lists. The raw structs are written out byte by byte, padding included: a
  \<open>RawMeta\<close> has 88 bytes, a \<open>RawNode\<close> 84; bytes the code leaves uninitialised are zero. An integer
  read from the wire that is not the value of an enumerator is an error.
\<close>

section \<open>Messages\<close>

datatype data_type = CHAR_T | INT8 | INT16 | INT32 | INT64 | UINT8 | UINT16 | UINT32 | UINT64 | FLOAT | DOUBLE | OTHER
datatype role = SERVER | WORKER | SCHEDULER
datatype command = EMPTY | TERMINATE | ADD_NODE | BARRIER | ACK | HEARTBEAT

text \<open>The element types of the arrays of the library, for the dispatch of \<open>GetDataType\<close>.\<close>

datatype elem_type = Int8_t | Int16_t | Int32_t | Int64_t | Uint8_t | Uint16_t | Uint32_t | Uint64_t | Float_t | Double_t | Other_t

fun GetDataType :: "elem_type \<Rightarrow> data_type" where
  "GetDataType Int8_t = INT8"
| "GetDataType Int16_t = INT16"
| "GetDataType Int32_t = INT32"
| "GetDataType Int64_t = INT64"
| "GetDataType Uint8_t = UINT8"
| "GetDataType Uint16_t = UINT16"
| "GetDataType Uint32_t = UINT32"
| "GetDataType Uint64_t = UINT64"
| "GetDataType Float_t = FLOAT"
| "GetDataType Double_t = DOUBLE"
| "GetDataType Other_t = OTHER"

definition kEmpty :: int where "kEmpty = 2 ^ 31 - 1"

record node =
  nd_role :: role
  nd_id :: int
  nd_customer_id :: int
  nd_hostname :: "byte list"
  nd_port :: int
  nd_is_recovery :: bool

record control =
  ct_cmd :: command
  ct_node :: "node list"
  ct_barrier_group :: int
  ct_msg_sig :: nat

definition ctrl_empty :: "control \<Rightarrow> bool" where
  "ctrl_empty c \<longleftrightarrow> ct_cmd c = EMPTY"

record meta =
  me_head :: int
  me_app_id :: int
  me_customer_id :: int
  me_timestamp :: int
  me_sender :: int
  me_recver :: int
  me_request :: bool
  me_push :: bool
  me_simple_app :: bool
  me_body :: "byte list"
  me_data_type :: "data_type list"
  me_control :: control
  me_data_size :: int
  me_key :: nat
  me_addr :: nat
  me_val_len :: int
  me_option :: int

text \<open>Members without an initialiser are zero.\<close>

definition Control :: control where
  "Control = \<lparr>ct_cmd = EMPTY, ct_node = [], ct_barrier_group = 0, ct_msg_sig = 0\<rparr>"

definition Meta :: meta where
  "Meta = \<lparr>me_head = kEmpty, me_app_id = kEmpty, me_customer_id = kEmpty, me_timestamp = kEmpty,
     me_sender = kEmpty, me_recver = kEmpty, me_request = False, me_push = False, me_simple_app = False,
     me_body = [], me_data_type = [], me_control = Control, me_data_size = 0, me_key = 0, me_addr = 0,
     me_val_len = 0, me_option = 0\<rparr>"

definition Node :: "role \<Rightarrow> node" where
  "Node r = \<lparr>nd_role = r, nd_id = kEmpty, nd_customer_id = 0, nd_hostname = [], nd_port = kEmpty,
     nd_is_recovery = False\<rparr>"

record message =
  mg_meta :: meta
  mg_data :: "byte list list"

definition AddData :: "elem_type \<Rightarrow> byte list \<Rightarrow> message \<Rightarrow> message res" where
  "AddData V val msg =
     rbind (check (length (mg_data msg) = length (me_data_type (mg_meta msg))) ''data.size() == meta.data_type.size()'') (\<lambda>_.
       let m = mg_meta msg in
       Inr (msg\<lparr>mg_meta := m\<lparr>me_data_type := me_data_type m @ [GetDataType V],
                              me_data_size := i32 (me_data_size m + int (length val))\<rparr>,
                mg_data := mg_data msg @ [val]\<rparr>))"

section \<open>The raw layout\<close>

fun data_type_code :: "data_type \<Rightarrow> nat" where
  "data_type_code CHAR_T = 0" | "data_type_code INT8 = 1" | "data_type_code INT16 = 2"
| "data_type_code INT32 = 3" | "data_type_code INT64 = 4" | "data_type_code UINT8 = 5"
| "data_type_code UINT16 = 6" | "data_type_code UINT32 = 7" | "data_type_code UINT64 = 8"
| "data_type_code FLOAT = 9" | "data_type_code DOUBLE = 10" | "data_type_code OTHER = 11"

definition data_types :: "data_type list" where
  "data_types = [CHAR_T, INT8, INT16, INT32, INT64, UINT8, UINT16, UINT32, UINT64, FLOAT, DOUBLE, OTHER]"

fun role_code :: "role \<Rightarrow> nat" where
  "role_code SERVER = 0" | "role_code WORKER = 1" | "role_code SCHEDULER = 2"

fun command_code :: "command \<Rightarrow> nat" where
  "command_code EMPTY = 0" | "command_code TERMINATE = 1" | "command_code ADD_NODE = 2"
| "command_code BARRIER = 3" | "command_code ACK = 4" | "command_code HEARTBEAT = 5"

definition enum_of :: "'a list \<Rightarrow> nat \<Rightarrow> 'a res" where
  "enum_of xs n = (if n < length xs then Inr (xs ! n) else Inl (Undefined_Behaviour ''enum''))"

definition bool_byte :: "bool \<Rightarrow> byte list" where
  "bool_byte b = [if b then 1 else 0]"

definition sizeof_RawMeta :: nat where "sizeof_RawMeta = 88"
definition sizeof_RawNode :: nat where "sizeof_RawNode = 84"

definition raw_control_bytes :: "control \<Rightarrow> byte list" where
  "raw_control_bytes c =
     (if ctrl_empty c then le_bytes 4 (command_code EMPTY) @ replicate 20 0
      else le_bytes 4 (command_code (ct_cmd c)) @ int_bytes (int (length (ct_node c)))
           @ int_bytes (if ct_cmd c = BARRIER then ct_barrier_group c else 0) @ replicate 4 0
           @ le_bytes 8 (if ct_cmd c = ACK then ct_msg_sig c else 0))"

definition raw_meta_bytes :: "meta \<Rightarrow> byte list" where
  "raw_meta_bytes m =
     int_bytes (me_head m) @ int_bytes (int (length (me_body m))) @ raw_control_bytes (me_control m)
     @ bool_byte (me_request m) @ replicate 3 0 @ int_bytes (me_app_id m) @ int_bytes (me_timestamp m)
     @ int_bytes (int (length (me_data_type m))) @ int_bytes (me_customer_id m) @ bool_byte (me_push m)
     @ bool_byte (me_simple_app m) @ replicate 2 0 @ int_bytes (me_data_size m) @ replicate 4 0
     @ le_bytes 8 (me_key m) @ le_bytes 8 (me_addr m) @ int_bytes (me_val_len m) @ int_bytes (me_option m)"

definition raw_node_bytes :: "node \<Rightarrow> byte list" where
  "raw_node_bytes n =
     le_bytes 4 (role_code (nd_role n)) @ int_bytes (nd_id n)
     @ (nd_hostname n @ replicate (64 - length (nd_hostname n)) 0) @ int_bytes (nd_port n)
     @ bool_byte (nd_is_recovery n) @ replicate 3 0 @ int_bytes (nd_customer_id n)"

section \<open>Packing\<close>

text \<open>The sum of the sizes, a \<open>size_t\<close>, and the \<open>int\<close> it is returned as.\<close>

definition pack_meta_len :: "meta \<Rightarrow> nat" where
  "pack_meta_len m = sizeof_RawMeta + length (me_body m) + length (me_data_type m) * 4
     + length (ct_node (me_control m)) * sizeof_RawNode"

definition GetPackMetaLen :: "meta \<Rightarrow> int" where
  "GetPackMetaLen m = i32 (int (pack_meta_len m))"

lemma GetPackMetaLen_small: "pack_meta_len m < 2 ^ 31 \<Longrightarrow> GetPackMetaLen m = int (pack_meta_len m)"
  by (simp add: GetPackMetaLen_def cast_simps)

lemma GetPackMetaLen_size_t: "pack_meta_len m < 2 ^ 31 \<Longrightarrow> u64_of_int (GetPackMetaLen m) = pack_meta_len m"
  by (simp add: GetPackMetaLen_small u64_of_int_def)

text \<open>Copying a host name of more than 64 bytes overruns its array.\<close>

definition PackMeta :: "meta \<Rightarrow> byte list res" where
  "PackMeta m =
     (let nodes = ct_node (me_control m); empty = ctrl_empty (me_control m) in
      if \<not> empty \<and> \<not> list_all (\<lambda>n. length (nd_hostname n) \<le> 64) nodes
      then Inl (Undefined_Behaviour ''memcpy'')
      else Inr (raw_meta_bytes m @ me_body m @ concat (map (le_bytes 4 \<circ> data_type_code) (me_data_type m))
                @ (if empty then replicate (length nodes * sizeof_RawNode) 0
                   else concat (map raw_node_bytes nodes))))"

text \<open>\<open>n.hostname = p.hostname\<close> reads up to the first zero byte.\<close>

definition unpack_node :: "byte list \<Rightarrow> nat \<Rightarrow> node res" where
  "unpack_node buf off =
     rbind (enum_of [SERVER, WORKER, SCHEDULER] (field_at buf off 4)) (\<lambda>r.
       let tail = drop (off + 8) buf in
       if 0 \<notin> set tail then Inl (Undefined_Behaviour ''strlen'')
       else Inr \<lparr>nd_role = r, nd_id = in_int buf (off + 4), nd_customer_id = in_int buf (off + 80),
                 nd_hostname = takeWhile (\<lambda>b. b \<noteq> 0) tail, nd_port = in_int buf (off + 72),
                 nd_is_recovery = (field_at buf (off + 76) 1 \<noteq> 0)\<rparr>)"

fun rmapM :: "('a \<Rightarrow> 'b res) \<Rightarrow> 'a list \<Rightarrow> 'b list res" where
  "rmapM f [] = Inr []"
| "rmapM f (x # xs) = rbind (f x) (\<lambda>y. rbind (rmapM f xs) (\<lambda>ys. Inr (y # ys)))"

text \<open>Unpacking into an existing \<open>Meta\<close>: sender and receiver are kept, nodes are appended.\<close>

definition UnpackMeta :: "byte list \<Rightarrow> meta \<Rightarrow> meta res" where
  "UnpackMeta buf m0 =
     (let body_size = in_int buf 4; node_size = in_int buf 12; data_type_size = in_int buf 44 in
      if body_size < 0 \<or> data_type_size < 0 then Inl (Fatal ''std::length_error'')
      else
        let body = sizeof_RawMeta; types = body + nat body_size; nodes = types + nat data_type_size * 4 in
        if length buf < nodes + nat node_size * sizeof_RawNode then Inl (Undefined_Behaviour ''read past the buffer'')
        else
          rbind (rmapM (\<lambda>i. enum_of data_types (field_at buf (types + i * 4) 4)) [0..<nat data_type_size]) (\<lambda>dts.
          rbind (enum_of [EMPTY, TERMINATE, ADD_NODE, BARRIER, ACK, HEARTBEAT] (field_at buf 8 4)) (\<lambda>cmd.
          rbind (rmapM (\<lambda>i. unpack_node buf (nodes + i * sizeof_RawNode)) [0..<nat node_size]) (\<lambda>ns.
            Inr (m0\<lparr>me_head := in_int buf 0, me_app_id := in_int buf 36, me_timestamp := in_int buf 40,
                    me_request := (field_at buf 32 1 \<noteq> 0), me_push := (field_at buf 52 1 \<noteq> 0),
                    me_simple_app := (field_at buf 53 1 \<noteq> 0),
                    me_body := take (nat body_size) (drop body buf), me_customer_id := in_int buf 48,
                    me_data_type := dts,
                    me_control := \<lparr>ct_cmd = cmd, ct_node = ct_node (me_control m0) @ ns,
                                   ct_barrier_group = in_int buf 16, ct_msg_sig = field_at buf 24 8\<rparr>,
                    me_data_size := in_int buf 56, me_key := field_at buf 64 8, me_addr := field_at buf 72 8,
                    me_val_len := in_int buf 80, me_option := in_int buf 84\<rparr>)))))"

section \<open>Round trip\<close>

definition wf_node :: "node \<Rightarrow> bool" where
  "wf_node n \<longleftrightarrow> wf_int (nd_id n) \<and> wf_int (nd_customer_id n) \<and> wf_int (nd_port n)
     \<and> length (nd_hostname n) < 64 \<and> 0 \<notin> set (nd_hostname n)"

definition wf_meta :: "meta \<Rightarrow> bool" where
  "wf_meta m \<longleftrightarrow> wf_int (me_head m) \<and> wf_int (me_app_id m) \<and> wf_int (me_customer_id m)
     \<and> wf_int (me_timestamp m) \<and> wf_int (me_data_size m) \<and> wf_int (me_val_len m) \<and> wf_int (me_option m)
     \<and> me_key m < 2 ^ 64 \<and> me_addr m < 2 ^ 64 \<and> length (me_body m) < 2 ^ 31
     \<and> length (me_data_type m) < 2 ^ 31 \<and> wf_int (ct_barrier_group (me_control m))
     \<and> ct_msg_sig (me_control m) < 2 ^ 64 \<and> length (ct_node (me_control m)) < 2 ^ 31
     \<and> list_all wf_node (ct_node (me_control m))"

text \<open>What of a control record travels.\<close>

definition wire_control :: "control \<Rightarrow> control" where
  "wire_control c =
     \<lparr>ct_cmd = ct_cmd c, ct_node = (if ctrl_empty c then [] else ct_node c),
      ct_barrier_group = (if ct_cmd c = BARRIER then ct_barrier_group c else 0),
      ct_msg_sig = (if ct_cmd c = ACK then ct_msg_sig c else 0)\<rparr>"

lemma length_raw [simp]:
  "length (bool_byte b) = 1"
  "length (raw_control_bytes c) = 24"
  "length (raw_meta_bytes m) = sizeof_RawMeta"
  by (simp_all add: bool_byte_def raw_control_bytes_def raw_meta_bytes_def sizeof_RawMeta_def)

lemma length_raw_node: "length (nd_hostname n) \<le> 64 \<Longrightarrow> length (raw_node_bytes n) = sizeof_RawNode"
  by (simp add: raw_node_bytes_def sizeof_RawNode_def bool_byte_def)

lemma in_int_here: "wf_int x \<Longrightarrow> in_int (int_bytes x @ r) 0 = x"
  by (simp add: in_int_def field_at_here in_int_bytes)

lemma in_int_whole: "wf_int x \<Longrightarrow> in_int (int_bytes x) 0 = x"
  by (simp add: in_int_def field_at_whole in_int_bytes)

lemma in_int_skip: "length a \<le> off \<Longrightarrow> in_int (a @ r) off = in_int r (off - length a)"
  by (simp add: in_int_def field_at_skip)

lemma bool_here: "field_at (bool_byte b @ r) 0 1 \<noteq> 0 \<longleftrightarrow> b"
  by (simp add: field_at_def bool_byte_def)

lemma le_val_bool [simp]: "0 < le_val (bool_byte b) \<longleftrightarrow> b"
  by (simp add: bool_byte_def)

lemma wf_int_0 [simp]: "wf_int 0"
  by (simp add: wf_int_def)

lemma wf_int_length: "n < 2 ^ 31 \<Longrightarrow> wf_int (int n)"
  by (simp add: wf_int_def)

lemmas raw_read = in_int_here in_int_whole in_int_skip bool_here field_at_simps wf_int_length

lemma replicate_zeros_int: "in_int (replicate 20 0 @ r) 8 = 0" "in_int (replicate 20 0 @ r) 4 = 0"
  "in_int (replicate 20 0 @ r) 0 = 0" "field_at (replicate 20 0 @ r) 12 8 = 0"
  by (simp_all add: in_int_def field_at_def numeral_eq_Suc cast_simps)

lemma enum_of_commands: "enum_of [EMPTY, TERMINATE, ADD_NODE, BARRIER, ACK, HEARTBEAT] (command_code c) = Inr c"
  by (cases c) (simp_all add: enum_of_def)

lemma enum_of_roles: "enum_of [SERVER, WORKER, SCHEDULER] (role_code r) = Inr r"
  by (cases r) (simp_all add: enum_of_def)

lemma enum_of_data_types: "enum_of data_types (data_type_code d) = Inr d"
  by (cases d) (simp_all add: enum_of_def data_types_def)

lemma code_bounds: "command_code c < 256" "role_code r < 256" "data_type_code d < 256"
  by (cases c; cases r; cases d; simp)+

text \<open>Reading the fixed part.\<close>

lemma raw_control_read:
  assumes "wf_int (ct_barrier_group c)" and "ct_msg_sig c < 2 ^ 64" and "length (ct_node c) < 2 ^ 31"
  shows "enum_of [EMPTY, TERMINATE, ADD_NODE, BARRIER, ACK, HEARTBEAT] (field_at (raw_control_bytes c @ r) 0 4) = Inr (ct_cmd c)"
    and "in_int (raw_control_bytes c @ r) 4 = (if ctrl_empty c then 0 else int (length (ct_node c)))"
    and "in_int (raw_control_bytes c @ r) 8 = ct_barrier_group (wire_control c)"
    and "field_at (raw_control_bytes c @ r) 16 8 = ct_msg_sig (wire_control c)"
  using assms code_bounds(1) [of "ct_cmd c"] enum_of_commands [of EMPTY]
  by (auto simp: raw_control_bytes_def raw_read enum_of_commands wire_control_def replicate_zeros_int ctrl_empty_def)

lemma raw_meta_read:
  assumes "wf_meta m" and buf_def: "buf = raw_meta_bytes m @ r"
  shows "in_int buf 0 = me_head m" "in_int buf 4 = int (length (me_body m))"
    "in_int buf 12 = int (length (ct_node (wire_control (me_control m))))"
    "in_int buf 16 = ct_barrier_group (wire_control (me_control m))"
    "field_at buf 24 8 = ct_msg_sig (wire_control (me_control m))"
    "in_int buf 36 = me_app_id m" "in_int buf 40 = me_timestamp m"
    "in_int buf 44 = int (length (me_data_type m))" "in_int buf 48 = me_customer_id m"
    "in_int buf 56 = me_data_size m" "field_at buf 64 8 = me_key m" "field_at buf 72 8 = me_addr m"
    "in_int buf 80 = me_val_len m" "in_int buf 84 = me_option m"
    "(field_at buf 32 1 \<noteq> 0) = me_request m" "(field_at buf 52 1 \<noteq> 0) = me_push m"
    "(field_at buf 53 1 \<noteq> 0) = me_simple_app m"
    "enum_of [EMPTY, TERMINATE, ADD_NODE, BARRIER, ACK, HEARTBEAT] (field_at buf 8 4) = Inr (ct_cmd (me_control m))"
proof -
  have w: "wf_int (ct_barrier_group (me_control m))" "ct_msg_sig (me_control m) < 2 ^ 64"
    "length (ct_node (me_control m)) < 2 ^ 31"
    using assms(1) by (simp_all add: wf_meta_def)
  note rc = raw_control_read [OF w]
  show "in_int buf 0 = me_head m" "in_int buf 4 = int (length (me_body m))"
    "in_int buf 36 = me_app_id m" "in_int buf 40 = me_timestamp m"
    "in_int buf 44 = int (length (me_data_type m))" "in_int buf 48 = me_customer_id m"
    "in_int buf 56 = me_data_size m" "field_at buf 64 8 = me_key m" "field_at buf 72 8 = me_addr m"
    "in_int buf 80 = me_val_len m" "in_int buf 84 = me_option m"
    "(field_at buf 32 1 \<noteq> 0) = me_request m" "(field_at buf 52 1 \<noteq> 0) = me_push m"
    "(field_at buf 53 1 \<noteq> 0) = me_simple_app m"
    using assms(1) by (simp_all add: buf_def raw_meta_bytes_def raw_read wf_meta_def)
  show "in_int buf 12 = int (length (ct_node (wire_control (me_control m))))"
    "in_int buf 16 = ct_barrier_group (wire_control (me_control m))"
    "field_at buf 24 8 = ct_msg_sig (wire_control (me_control m))"
    "enum_of [EMPTY, TERMINATE, ADD_NODE, BARRIER, ACK, HEARTBEAT] (field_at buf 8 4) = Inr (ct_cmd (me_control m))"
    using rc by (simp_all add: buf_def raw_meta_bytes_def in_int_skip field_at_skip wire_control_def)
qed

text \<open>Reading the \<open>i\<close>-th of a sequence of records of the same width.\<close>

lemma drop_nth_record:
  assumes "\<And>x. x \<in> set xs \<Longrightarrow> length (g x) = w" and "i < length xs" and "length pre = p"
  shows "drop (p + i * w) (pre @ concat (map g xs) @ post) = g (xs ! i) @ concat (map g (drop (Suc i) xs)) @ post"
proof -
  have len: "length (concat (map g (take i xs))) = i * w"
  proof -
    have "map (length \<circ> g) (take i xs) = replicate i w"
      using assms(1) [OF in_set_takeD] assms(2) by (intro replicate_eqI) auto
    then show ?thesis by (simp add: length_concat sum_list_replicate)
  qed
  have xs: "xs = take i xs @ xs ! i # drop (Suc i) xs" using assms(2) by (simp add: id_take_nth_drop)
  have "concat (map g xs) = concat (map g (take i xs)) @ g (xs ! i) @ concat (map g (drop (Suc i) xs))"
    by (subst xs) simp
  with len assms(3) show ?thesis by simp
qed

lemma field_at_drop: "field_at buf (off + k) w = field_at (drop off buf) k w"
  by (simp add: field_at_def add.commute)

lemma in_int_drop: "in_int buf (off + k) = in_int (drop off buf) k"
  by (simp add: in_int_def field_at_drop)

lemma unpack_raw_node:
  assumes "wf_node n" and "drop off buf = raw_node_bytes n @ rest"
  shows "unpack_node buf off = Inr n"
proof -
  let ?h = "nd_hostname n"
  have w: "wf_int (nd_id n)" "wf_int (nd_customer_id n)" "wf_int (nd_port n)" "length ?h < 64" "0 \<notin> set ?h"
    using assms(1) by (simp_all add: wf_node_def)
  define H where "H = ?h @ replicate (64 - length ?h) 0"
  have hl: "length H = 64" using w(4) by (simp add: H_def)
  have raw: "raw_node_bytes n @ rest = le_bytes 4 (role_code (nd_role n)) @ int_bytes (nd_id n) @ H
      @ int_bytes (nd_port n) @ bool_byte (nd_is_recovery n) @ replicate 3 0 @ int_bytes (nd_customer_id n) @ rest"
    by (simp add: raw_node_bytes_def H_def)
  have tail: "drop 8 (drop off buf) = ?h @ replicate (64 - length ?h) 0 @ int_bytes (nd_port n)
      @ bool_byte (nd_is_recovery n) @ replicate 3 0 @ int_bytes (nd_customer_id n) @ rest"
    unfolding assms(2) raw_node_bytes_def by simp
  obtain k where k: "64 - length ?h = Suc k" using w(4) by (cases "64 - length ?h") auto
  have tw: "takeWhile (\<lambda>b. b \<noteq> 0) (drop 8 (drop off buf)) = ?h" and z: "0 \<in> set (drop 8 (drop off buf))"
    unfolding tail k using w(5) by (auto simp: takeWhile_append)
  have "field_at (drop off buf) 0 4 = role_code (nd_role n)"
    unfolding assms(2) raw_node_bytes_def using code_bounds(2) [of "nd_role n"] by (simp add: raw_read)
  moreover have "in_int (drop off buf) 4 = nd_id n"
    unfolding assms(2) raw_node_bytes_def using w by (simp add: raw_read)
  moreover have "in_int (drop off buf) 72 = nd_port n" "in_int (drop off buf) 80 = nd_customer_id n"
    "(field_at (drop off buf) 76 1 \<noteq> 0) = nd_is_recovery n"
    unfolding assms(2) raw using w hl by (simp_all add: raw_read)
  ultimately show ?thesis
    using tw z enum_of_roles [of "nd_role n"] field_at_drop [of buf off 0 4]
    by (simp add: unpack_node_def in_int_drop field_at_drop Let_def add.commute [of off 8] drop_drop [symmetric] del: drop_drop)
qed

lemma rmapM_nth:
  assumes "\<And>i. i < length xs \<Longrightarrow> f i = Inr (xs ! i)"
  shows "rmapM f [0..<length xs] = Inr xs"
proof -
  have "rmapM f is = Inr (map ((!) xs) is)" if "set is \<subseteq> {..<length xs}" for "is"
    using that by (induction "is") (auto simp: assms)
  then have "rmapM f [0..<length xs] = Inr (map ((!) xs) [0..<length xs])" by (simp add: atLeast0LessThan)
  then show ?thesis by (simp add: map_nth)
qed

lemma wf_node_short: "list_all wf_node ns \<Longrightarrow> list_all (\<lambda>n. length (nd_hostname n) \<le> 64) ns"
  by (auto simp: list_all_iff wf_node_def)

lemma length_concat_const: "(\<And>x. x \<in> set xs \<Longrightarrow> length (g x) = w) \<Longrightarrow> length (concat (map g xs)) = length xs * w"
  by (induction xs) auto

text \<open>The tail of a packed message: what lies behind the fixed part.\<close>

definition packed_tail :: "meta \<Rightarrow> byte list" where
  "packed_tail m = me_body m @ concat (map (le_bytes 4 \<circ> data_type_code) (me_data_type m))
     @ (if ctrl_empty (me_control m) then replicate (length (ct_node (me_control m)) * sizeof_RawNode) 0
        else concat (map raw_node_bytes (ct_node (me_control m))))"

lemma PackMeta_eq:
  assumes "wf_meta m"
  shows "PackMeta m = Inr (raw_meta_bytes m @ packed_tail m)"
    and "length (raw_meta_bytes m @ packed_tail m) = pack_meta_len m"
proof -
  have ns: "list_all wf_node (ct_node (me_control m))" using assms by (simp add: wf_meta_def)
  then show "PackMeta m = Inr (raw_meta_bytes m @ packed_tail m)"
    using wf_node_short [OF ns] by (simp add: PackMeta_def packed_tail_def)
  have "length (concat (map raw_node_bytes (ct_node (me_control m)))) = length (ct_node (me_control m)) * sizeof_RawNode"
    using ns by (intro length_concat_const length_raw_node) (auto simp: list_all_iff wf_node_def)
  then show "length (raw_meta_bytes m @ packed_tail m) = pack_meta_len m"
    using length_concat_const [of "me_data_type m" "le_bytes 4 \<circ> data_type_code" 4]
    by (simp add: packed_tail_def pack_meta_len_def)
qed

lemma data_types_read:
  "rmapM (\<lambda>i. enum_of data_types (field_at (raw_meta_bytes m @ packed_tail m) (sizeof_RawMeta + length (me_body m) + i * 4) 4))
     [0..<length (me_data_type m)] = Inr (me_data_type m)"
proof (rule rmapM_nth)
  fix i
  assume i: "i < length (me_data_type m)"
  let ?g = "le_bytes 4 \<circ> data_type_code"
  from drop_nth_record [where g = ?g and w = 4 and xs = "me_data_type m" and i = i and pre = "raw_meta_bytes m @ me_body m"]
  obtain r where "drop (sizeof_RawMeta + length (me_body m) + i * 4) (raw_meta_bytes m @ packed_tail m) = ?g (me_data_type m ! i) @ r"
    using i by (simp add: packed_tail_def)
  then have "field_at (raw_meta_bytes m @ packed_tail m) (sizeof_RawMeta + length (me_body m) + i * 4) 4
      = data_type_code (me_data_type m ! i)"
    using code_bounds(3) [of "me_data_type m ! i"] by (simp add: field_at_def le_val_le_bytes)
  then show "enum_of data_types (field_at (raw_meta_bytes m @ packed_tail m) (sizeof_RawMeta + length (me_body m) + i * 4) 4)
      = Inr (me_data_type m ! i)" by (simp add: enum_of_data_types)
qed

lemma nodes_read:
  assumes "wf_meta m" and "\<not> ctrl_empty (me_control m)"
  shows "rmapM (\<lambda>i. unpack_node (raw_meta_bytes m @ packed_tail m)
      (sizeof_RawMeta + length (me_body m) + length (me_data_type m) * 4 + i * sizeof_RawNode))
     [0..<length (ct_node (me_control m))] = Inr (ct_node (me_control m))"
proof (rule rmapM_nth)
  fix i
  let ?ns = "ct_node (me_control m)"
  let ?pre = "raw_meta_bytes m @ me_body m @ concat (map (le_bytes 4 \<circ> data_type_code) (me_data_type m))"
  assume i: "i < length ?ns"
  have ns: "list_all wf_node ?ns" using assms(1) by (simp add: wf_meta_def)
  have len: "length ?pre = sizeof_RawMeta + length (me_body m) + length (me_data_type m) * 4"
    using length_concat_const [of "me_data_type m" "le_bytes 4 \<circ> data_type_code" 4] by simp
  have "drop (sizeof_RawMeta + length (me_body m) + length (me_data_type m) * 4 + i * sizeof_RawNode) (?pre @ concat (map raw_node_bytes ?ns) @ [])
      = raw_node_bytes (?ns ! i) @ concat (map raw_node_bytes (drop (Suc i) ?ns)) @ []"
    using ns by (intro drop_nth_record len i length_raw_node) (auto simp: list_all_iff wf_node_def)
  then show "unpack_node (raw_meta_bytes m @ packed_tail m)
      (sizeof_RawMeta + length (me_body m) + length (me_data_type m) * 4 + i * sizeof_RawNode) = Inr (?ns ! i)"
    using ns i assms(2) by (intro unpack_raw_node) (auto simp: packed_tail_def list_all_iff)
qed

text \<open>Packing and unpacking a \<open>Meta\<close>. The packed buffer has the length \<open>GetPackMetaLen\<close> adds up,
  and unpacking it restores every field that is on the wire: all of them but sender and receiver,
  with the barrier group only of a barrier, the signature only of an acknowledgement and the nodes
  only of a control message.\<close>

lemma unpack_pack:
  assumes "wf_meta m"
  shows "\<exists>buf. PackMeta m = Inr buf \<and> length buf = pack_meta_len m
    \<and> UnpackMeta buf Meta = Inr (m\<lparr>me_sender := kEmpty, me_recver := kEmpty, me_control := wire_control (me_control m)\<rparr>)"
proof -
  define buf where buf: "buf = raw_meta_bytes m @ packed_tail m"
  let ?c = "me_control m" and ?w = "wire_control (me_control m)"
  note rd = raw_meta_read [OF assms buf]
  have len: "length buf = pack_meta_len m" using PackMeta_eq(2) [OF assms] by (simp add: buf)
  have body: "take (length (me_body m)) (drop sizeof_RawMeta buf) = me_body m"
    by (simp add: buf packed_tail_def)
  have nodes: "rmapM (\<lambda>i. unpack_node buf (sizeof_RawMeta + length (me_body m) + length (me_data_type m) * 4 + i * sizeof_RawNode))
      [0..<length (ct_node ?w)] = Inr (ct_node ?w)"
    using nodes_read [OF assms] by (cases "ctrl_empty ?c") (simp_all add: buf wire_control_def)
  have fit: "\<not> length buf < sizeof_RawMeta + length (me_body m) + length (me_data_type m) * 4 + length (ct_node ?w) * sizeof_RawNode"
    unfolding len pack_meta_len_def by (simp add: wire_control_def)
  have "UnpackMeta buf Meta = Inr (m\<lparr>me_sender := kEmpty, me_recver := kEmpty, me_control := ?w\<rparr>)"
    unfolding UnpackMeta_def Let_def rd
    using data_types_read [of m, folded buf] nodes fit
    by (simp add: rd body Meta_def Control_def) (simp add: wire_control_def)
  with PackMeta_eq(1) [OF assms] len show ?thesis by (auto simp: buf)
qed

end
