(* ===== verification/Sarray.thy ===== *)
theory Sarray
  imports Prelude
begin

text \<open>
  Shared arrays: \<open>SArray\<close> and \<open>FindRange\<close> (\<open>src/include/ps/sarray.h\<close>, \<open>src/include/ps/range.h\<close>).

  An \<open>SArray\<close> is a pointer into a memory block that other arrays may share: copying and slicing do
  not copy elements. The heap is the list of the blocks allocated so far, a pointer a block number
  and an offset; blocks are never freed while in use (the reference counts see to that), so freeing
  is not modelled. \<open>junk\<close> is the value of uninitialised elements. The lemmas show what each
  operation does to the elements of the array it is applied to, and that growing an array never
  touches the others; a slice, in contrast, shares its elements.
\<close>

section \<open>Arrays on a heap\<close>

type_synonym 'v blocks = "'v list list"

record sarr =
  sa_block :: "nat option"
  sa_off :: nat
  sa_size :: nat
  sa_cap :: nat

definition SArray :: sarr where
  "SArray = \<lparr>sa_block = None, sa_off = 0, sa_size = 0, sa_cap = 0\<rparr>"

definition sa_contents :: "'v blocks \<Rightarrow> sarr \<Rightarrow> 'v list" where
  "sa_contents h a = (case sa_block a of None \<Rightarrow> [] | Some b \<Rightarrow> take (sa_size a) (drop (sa_off a) (h ! b)))"

text \<open>\<open>reset(data, size, del)\<close> with a new block.\<close>

definition sa_reset :: "'v blocks \<Rightarrow> 'v list \<Rightarrow> nat \<Rightarrow> sarr \<times> 'v blocks" where
  "sa_reset h blk n = (\<lparr>sa_block = Some (length h), sa_off = 0, sa_size = n, sa_cap = n\<rparr>, h @ [blk])"

definition sa_clear :: "sarr" where
  "sa_clear = \<lparr>sa_block = None, sa_off = 0, sa_size = 0, sa_cap = 0\<rparr>"

text \<open>Storing elements at an index of an array.\<close>

definition sa_store :: "'v blocks \<Rightarrow> sarr \<Rightarrow> nat \<Rightarrow> 'v list \<Rightarrow> 'v blocks" where
  "sa_store h a i vs =
     (case sa_block a of
        None \<Rightarrow> h
      | Some b \<Rightarrow> let blk = h ! b; p = sa_off a + i in
                 h[b := take p blk @ vs @ drop (p + length vs) blk])"

definition sa_resize :: "'v \<Rightarrow> 'v blocks \<Rightarrow> sarr \<Rightarrow> nat \<Rightarrow> 'v \<Rightarrow> sarr \<times> 'v blocks" where
  "sa_resize junk h a n val =
     (let cur_n = sa_size a;
          (a1, h1) = (if sa_cap a \<ge> n then (a\<lparr>sa_size := n\<rparr>, h)
                      else sa_reset h (sa_contents h a @ replicate (n + 5 - cur_n) junk) n)
      in if n \<le> cur_n then (a1, h1) else (a1, sa_store h1 a1 cur_n (replicate (n - cur_n) val)))"

definition sa_reserve :: "'v \<Rightarrow> 'v \<Rightarrow> 'v blocks \<Rightarrow> sarr \<Rightarrow> nat \<Rightarrow> sarr \<times> 'v blocks" where
  "sa_reserve junk zero h a n =
     (if sa_cap a \<ge> n then (a, h)
      else let (a1, h1) = sa_resize junk h a n zero in (a1\<lparr>sa_size := sa_size a\<rparr>, h1))"

definition sa_CopyFrom :: "'v \<Rightarrow> 'v \<Rightarrow> 'v blocks \<Rightarrow> sarr \<Rightarrow> 'v list \<Rightarrow> sarr \<times> 'v blocks" where
  "sa_CopyFrom junk zero h a data =
     (let (a1, h1) = sa_resize junk h a (length data) zero in (a1, sa_store h1 a1 0 data))"

definition sa_push_back :: "'v \<Rightarrow> 'v \<Rightarrow> 'v blocks \<Rightarrow> sarr \<Rightarrow> 'v \<Rightarrow> sarr \<times> 'v blocks" where
  "sa_push_back junk zero h a val =
     (let (a1, h1) = (if sa_size a = sa_cap a then sa_reserve junk zero h a (sa_size a * 2 + 5) else (a, h))
      in (a1\<lparr>sa_size := sa_size a1 + 1\<rparr>, sa_store h1 a1 (sa_size a1) [val]))"

definition sa_pop_back :: "sarr \<Rightarrow> sarr" where
  "sa_pop_back a = (if sa_size a \<noteq> 0 then a\<lparr>sa_size := sa_size a - 1\<rparr> else a)"

text \<open>The argument is read after the receiver has been resized, which matters when they share a block.\<close>

definition sa_append :: "'v \<Rightarrow> 'v \<Rightarrow> 'v blocks \<Rightarrow> sarr \<Rightarrow> sarr \<Rightarrow> sarr \<times> 'v blocks" where
  "sa_append junk zero h a arr =
     (if sa_size arr = 0 then (a, h)
      else let (a1, h1) = sa_resize junk h a (sa_size a + sa_size arr) zero
           in (a1, sa_store h1 a1 (sa_size a) (sa_contents h1 arr)))"

definition sa_segment :: "sarr \<Rightarrow> nat \<Rightarrow> nat \<Rightarrow> sarr res" where
  "sa_segment a b e =
     rbind (check (e \<ge> b) ''end >= begin'') (\<lambda>_.
     rbind (check (e \<le> sa_size a) ''end <= size()'') (\<lambda>_.
       Inr \<lparr>sa_block = sa_block a, sa_off = sa_off a + b, sa_size = e - b, sa_cap = e - b\<rparr>))"

definition sa_front :: "'v list \<Rightarrow> 'v res" where
  "sa_front vs = (if vs = [] then Inl (Check_Failed ''!empty()'') else Inr (hd vs))"

definition sa_back :: "'v list \<Rightarrow> 'v res" where
  "sa_back vs = (if vs = [] then Inl (Check_Failed ''!empty()'') else Inr (last vs))"

section \<open>Contents\<close>

text \<open>The invariant of an array: its capacity lies within its block.\<close>

definition sarr_ok :: "'v blocks \<Rightarrow> sarr \<Rightarrow> bool" where
  "sarr_ok h a \<longleftrightarrow> sa_size a \<le> sa_cap a
     \<and> (case sa_block a of None \<Rightarrow> sa_cap a = 0
        | Some b \<Rightarrow> b < length h \<and> sa_off a + sa_cap a \<le> length (h ! b))"

lemma length_contents: "sarr_ok h a \<Longrightarrow> length (sa_contents h a) = sa_size a"
  by (auto simp: sarr_ok_def sa_contents_def split: option.splits)

lemma SArray_ok: "sarr_ok h SArray" "sa_contents h SArray = []"
  by (simp_all add: sarr_ok_def SArray_def sa_contents_def)

lemma contents_store:
  assumes "sarr_ok h a" and "i + length vs \<le> sa_size a"
  shows "sa_contents (sa_store h a i vs) a
      = take i (sa_contents h a) @ vs @ drop (i + length vs) (sa_contents h a)"
    and "sarr_ok (sa_store h a i vs) a"
proof -
  show "sa_contents (sa_store h a i vs) a
      = take i (sa_contents h a) @ vs @ drop (i + length vs) (sa_contents h a)"
  proof (cases "sa_block a")
    case None
    with assms show ?thesis by (auto simp: sa_contents_def sarr_ok_def)
  next
    case (Some b)
    let ?blk = "h ! b" and ?o = "sa_off a" and ?n = "sa_size a"
    have b: "b < length h" "?o + ?n \<le> length ?blk" using assms(1) Some by (auto simp: sarr_ok_def)
    have "take ?n (drop ?o (take (?o + i) ?blk @ vs @ drop (?o + i + length vs) ?blk))
        = take i (drop ?o ?blk) @ vs @ take (?n - (i + length vs)) (drop (?o + i + length vs) ?blk)"
      using b assms(2) by (simp add: drop_take)
    also have "take (?n - (i + length vs)) (drop (?o + i + length vs) ?blk)
        = drop (i + length vs) (take ?n (drop ?o ?blk))"
      by (simp add: drop_take add.commute add.left_commute)
    finally show ?thesis
      using Some b assms(2) by (simp add: sa_contents_def sa_store_def Let_def min_def)
  qed
  show "sarr_ok (sa_store h a i vs) a"
    using assms by (auto simp: sarr_ok_def sa_store_def Let_def nth_list_update split: option.splits)
qed

lemma sa_store_size [simp]: "sa_store h (a\<lparr>sa_size := n\<rparr>) i vs = sa_store h a i vs"
  by (simp add: sa_store_def split: option.split)

lemma contents_other_block:
  "sa_block a' \<noteq> sa_block a \<Longrightarrow> sa_contents (sa_store h a i vs) a' = sa_contents h a'"
  by (auto simp: sa_contents_def sa_store_def Let_def split: option.splits)

lemma contents_snoc_block: "sarr_ok h a \<Longrightarrow> sa_contents (h @ [blk]) a = sa_contents h a"
  by (auto simp: sarr_ok_def sa_contents_def nth_append split: option.splits)

lemma ok_snoc_block: "sarr_ok h a \<Longrightarrow> sarr_ok (h @ [blk]) a"
  by (auto simp: sarr_ok_def nth_append split: option.splits)

lemma sa_resize_ok:
  assumes "sarr_ok h a" and "sa_resize junk h a n val = (a1, h1)"
  shows "sarr_ok h1 a1" and "sa_size a1 = n"
    and "sa_contents h1 a1 = take n (sa_contents h a) @ replicate (n - sa_size a) val"
proof -
  have len: "length (sa_contents h a) = sa_size a" by (rule length_contents [OF assms(1)])
  define a0 where "a0 = (if sa_cap a \<ge> n then a\<lparr>sa_size := n\<rparr> else \<lparr>sa_block = Some (length h), sa_off = 0, sa_size = n, sa_cap = n\<rparr>)"
  define h0 where "h0 = (if sa_cap a \<ge> n then h else h @ [sa_contents h a @ replicate (n + 5 - sa_size a) junk])"
  have run: "(a1, h1) = (if n \<le> sa_size a then (a0, h0) else (a0, sa_store h0 a0 (sa_size a) (replicate (n - sa_size a) val)))"
    using assms(2) by (auto simp: sa_resize_def sa_reset_def a0_def h0_def Let_def)
  have ok0: "sarr_ok h0 a0" and sz0: "sa_size a0 = n"
    using assms(1) len by (auto simp: a0_def h0_def sarr_ok_def split: option.splits)
  have c0: "take (min n (sa_size a)) (sa_contents h0 a0) = take n (sa_contents h a)"
    using assms(1) len
    by (cases "sa_cap a \<ge> n") (auto simp: a0_def h0_def sa_contents_def min_def split: option.splits)
  show "sarr_ok h1 a1" "sa_size a1 = n"
    using run ok0 sz0 contents_store(2) [OF ok0] by (auto split: if_splits)
  show "sa_contents h1 a1 = take n (sa_contents h a) @ replicate (n - sa_size a) val"
  proof (cases "n \<le> sa_size a")
    case True
    with run c0 length_contents [OF ok0] sz0 show ?thesis by simp
  next
    case False
    with run contents_store(1) [OF ok0, of "sa_size a" "replicate (n - sa_size a) val"] c0
      length_contents [OF ok0] sz0 show ?thesis by simp
  qed
qed

lemma sa_reserve_ok:
  assumes "sarr_ok h a" and "sa_reserve junk zero h a n = (a1, h1)"
  shows "sarr_ok h1 a1" and "sa_size a1 = sa_size a" and "n \<le> sa_cap a1" and "sa_contents h1 a1 = sa_contents h a"
proof -
  have "sarr_ok h1 a1 \<and> sa_size a1 = sa_size a \<and> n \<le> sa_cap a1 \<and> sa_contents h1 a1 = sa_contents h a"
  proof (cases "sa_cap a \<ge> n")
    case True
    with assms show ?thesis by (simp add: sa_reserve_def)
  next
    case False
    obtain a2 h2 where r: "sa_resize junk h a n zero = (a2, h2)" by fastforce
    note ok = sa_resize_ok [OF assms(1) r]
    have le: "sa_size a \<le> n" using assms(1) False by (simp add: sarr_ok_def)
    have a1: "a1 = a2\<lparr>sa_size := sa_size a\<rparr>" "h1 = h2"
      using assms(2) False r by (auto simp: sa_reserve_def)
    have "sa_contents h1 a1 = take (sa_size a) (sa_contents h2 a2)"
      using a1 ok(2) le by (auto simp: sa_contents_def split: option.splits)
    with ok le a1 length_contents [OF assms(1)] show ?thesis
      by (auto simp: sarr_ok_def split: option.splits)
  qed
  then show "sarr_ok h1 a1" "sa_size a1 = sa_size a" "n \<le> sa_cap a1" "sa_contents h1 a1 = sa_contents h a"
    by simp_all
qed

lemma sa_push_back_ok:
  assumes "sarr_ok h a" and "sa_push_back junk zero h a val = (a1, h1)"
  shows "sarr_ok h1 a1" and "sa_contents h1 a1 = sa_contents h a @ [val]"
proof -
  obtain a2 h2 where r: "(if sa_size a = sa_cap a then sa_reserve junk zero h a (sa_size a * 2 + 5) else (a, h)) = (a2, h2)"
    by fastforce
  have ok: "sarr_ok h2 a2" "sa_size a2 = sa_size a" "sa_size a2 < sa_cap a2" "sa_contents h2 a2 = sa_contents h a"
  proof -
    have "sarr_ok h2 a2 \<and> sa_size a2 = sa_size a \<and> sa_size a2 < sa_cap a2 \<and> sa_contents h2 a2 = sa_contents h a"
    proof (cases "sa_size a = sa_cap a")
      case True
      with r have "sa_reserve junk zero h a (sa_size a * 2 + 5) = (a2, h2)" by simp
      from sa_reserve_ok [OF assms(1) this] show ?thesis by linarith
    next
      case False
      have "sa_size a \<le> sa_cap a" using assms(1) by (simp add: sarr_ok_def)
      with False r assms(1) show ?thesis by auto
    qed
    then show "sarr_ok h2 a2" "sa_size a2 = sa_size a" "sa_size a2 < sa_cap a2" "sa_contents h2 a2 = sa_contents h a"
      by simp_all
  qed
  let ?a = "a2\<lparr>sa_size := sa_size a2 + 1\<rparr>"
  have a1: "a1 = ?a" "h1 = sa_store h2 ?a (sa_size a2) [val]"
    using assms(2) r by (auto simp: sa_push_back_def Let_def)
  have oka: "sarr_ok h2 ?a" using ok by (auto simp: sarr_ok_def split: option.splits)
  have pre: "take (sa_size a2) (sa_contents h2 ?a) = sa_contents h2 a2"
    by (auto simp: sa_contents_def split: option.splits)
  show "sarr_ok h1 a1" using contents_store(2) [OF oka] a1 by simp
  show "sa_contents h1 a1 = sa_contents h a @ [val]"
    using contents_store(1) [OF oka, of "sa_size a2" "[val]"] a1 pre ok(4) length_contents [OF oka] by simp
qed

lemma sa_segment_ok:
  assumes "sarr_ok h a" and "sa_segment a b e = Inr s"
  shows "sarr_ok h s" and "sa_contents h s = take (e - b) (drop b (sa_contents h a))" and "b \<le> e" and "e \<le> sa_size a"
  using assms by (auto simp: sa_segment_def sarr_ok_def sa_contents_def drop_take res_simps add.commute
      split: if_splits option.splits)

lemma sa_CopyFrom_ok:
  assumes "sarr_ok h a" and "sa_CopyFrom junk zero h a data = (a1, h1)"
  shows "sarr_ok h1 a1" and "sa_contents h1 a1 = data"
proof -
  obtain a2 h2 where r: "sa_resize junk h a (length data) zero = (a2, h2)" by fastforce
  note ok = sa_resize_ok [OF assms(1) r]
  have a1: "a1 = a2" "h1 = sa_store h2 a2 0 data" using assms(2) r by (auto simp: sa_CopyFrom_def)
  then show "sarr_ok h1 a1" "sa_contents h1 a1 = data"
    using contents_store [OF ok(1), of 0 data] ok(2) length_contents [OF ok(1)] by simp_all
qed

section \<open>Ranges\<close>

record range =
  rg_begin :: nat
  rg_end :: nat

definition Range :: "nat \<Rightarrow> nat \<Rightarrow> range" where
  "Range b e = \<lparr>rg_begin = b, rg_end = e\<rparr>"

definition range_size :: "range \<Rightarrow> nat" where
  "range_size r = usub64 (rg_end r) (rg_begin r)"

text \<open>\<open>std::lower_bound\<close> on an ordered array: the index of the first element that is not less.\<close>

definition lower_bound :: "nat list \<Rightarrow> nat \<Rightarrow> nat" where
  "lower_bound xs v = length (takeWhile (\<lambda>x. x < v) xs)"

definition FindRange :: "nat list \<Rightarrow> nat \<Rightarrow> nat \<Rightarrow> range" where
  "FindRange arr lower upper =
     (if upper \<le> lower then Range 0 0 else Range (lower_bound arr lower) (lower_bound arr upper))"

lemma lower_bound_le: "lower_bound xs v \<le> length xs"
  by (simp add: lower_bound_def length_takeWhile_le)

lemma lower_bound_mono: "v \<le> w \<Longrightarrow> lower_bound xs v \<le> lower_bound xs w"
  by (induction xs) (auto simp: lower_bound_def)

lemma take_lower_bound: "take (lower_bound xs v) xs = takeWhile (\<lambda>x. x < v) xs"
  by (simp add: lower_bound_def takeWhile_eq_take [symmetric])

lemma drop_lower_bound: "drop (lower_bound xs v) xs = dropWhile (\<lambda>x. x < v) xs"
  by (simp add: lower_bound_def dropWhile_eq_drop [symmetric])

lemma sorted_takeWhile_filter: "sorted xs \<Longrightarrow> takeWhile (\<lambda>x. x < v) xs = filter (\<lambda>x. x < (v :: nat)) xs"
proof (induction xs)
  case (Cons x xs)
  then show ?case
  proof (cases "x < v")
    case False
    with Cons.prems have "filter (\<lambda>x. x < v) xs = []" by (auto simp: filter_empty_conv)
    with False show ?thesis by simp
  qed simp
qed simp

lemma sorted_dropWhile_filter: "sorted xs \<Longrightarrow> dropWhile (\<lambda>x. x < v) xs = filter (\<lambda>x. (v :: nat) \<le> x) xs"
proof (induction xs)
  case (Cons x xs)
  then show ?case
  proof (cases "x < v")
    case False
    with Cons.prems have "filter (\<lambda>x. v \<le> x) (x # xs) = x # xs" by (auto intro!: filter_True)
    with False show ?thesis by simp
  qed simp
qed simp

text \<open>The slice between two lower bounds of an ordered array: the elements of a half-open interval.\<close>

lemma slice_between:
  assumes "sorted xs" and "lo \<le> up"
  shows "take (lower_bound xs up - lower_bound xs lo) (drop (lower_bound xs lo) xs) = filter (\<lambda>x. lo \<le> x \<and> x < up) xs"
proof -
  have "take (lower_bound xs up - lower_bound xs lo) (drop (lower_bound xs lo) xs)
      = drop (lower_bound xs lo) (take (lower_bound xs up) xs)"
    by (simp add: drop_take)
  also have "\<dots> = drop (lower_bound xs lo) (filter (\<lambda>x. x < up) xs)"
    using assms(1) by (simp add: take_lower_bound sorted_takeWhile_filter)
  also have "drop (lower_bound xs lo) (filter (\<lambda>x. x < up) xs)
      = drop (lower_bound (filter (\<lambda>x. x < up) xs) lo) (filter (\<lambda>x. x < up) xs)"
  proof -
    have "filter (\<lambda>x. x < lo) xs = filter (\<lambda>x. x < lo) (filter (\<lambda>x. x < up) xs)"
      using assms(2) by (auto intro: filter_cong)
    then show ?thesis
      using assms(1) by (simp only: lower_bound_def sorted_takeWhile_filter sorted_filter [where f = id, simplified])
  qed
  also have "drop (lower_bound (filter (\<lambda>x. x < up) xs) lo) (filter (\<lambda>x. x < up) xs)
      = filter (\<lambda>x. lo \<le> x) (filter (\<lambda>x. x < up) xs)"
    using assms(1) by (simp add: drop_lower_bound sorted_dropWhile_filter sorted_wrt_filter)
  finally show ?thesis by (simp add: conj_commute)
qed

text \<open>\<open>FindRange\<close> returns the index range of exactly the elements of an ordered array that lie in
  \<open>[lower, upper)\<close>, and its size is their number.\<close>

lemma FindRange_elements:
  assumes "sorted arr" and "length arr < 2 ^ 64" and "FindRange arr lower upper = r"
  shows "take (range_size r) (drop (rg_begin r) arr) = filter (\<lambda>x. lower \<le> x \<and> x < upper) arr
    \<and> range_size r = length (filter (\<lambda>x. lower \<le> x \<and> x < upper) arr)"
proof (cases "upper \<le> lower")
  case True
  then have "filter (\<lambda>x. lower \<le> x \<and> x < upper) arr = []" by (auto simp: filter_empty_conv)
  with True assms(3) show ?thesis by (auto simp: FindRange_def Range_def range_size_def cast_simps)
next
  case False
  let ?b = "lower_bound arr lower" and ?e = "lower_bound arr upper"
  have le: "?b \<le> ?e" "?e \<le> length arr" using False by (simp_all add: lower_bound_mono lower_bound_le)
  have r: "rg_begin r = ?b" "range_size r = ?e - ?b"
    using assms(2,3) False le by (auto simp: FindRange_def Range_def range_size_def cast_simps)
  have sl: "take (?e - ?b) (drop ?b arr) = filter (\<lambda>x. lower \<le> x \<and> x < upper) arr"
    using slice_between [OF assms(1)] False by simp
  moreover have "length (take (?e - ?b) (drop ?b arr)) = ?e - ?b" using le by simp
  ultimately show ?thesis unfolding r by simp
qed



end
