(* ===== verification/Postoffice.thy ===== *)
theory Postoffice
  imports Ps_Message Sarray Mlt_Global "HOL-Library.AList"
begin

text \<open>
  \<open>Postoffice\<close> (\<open>src/include/ps/internal/postoffice.h\<close>, \<open>src/src/postoffice.cc\<close>): the node groups, the
  key ranges of the servers, the customers, barriers and heartbeats of one process; with the
  constants of \<open>src/include/ps/base.h\<close> and the environment of \<open>env.h\<close> and \<open>utils.h\<close>.

  Customers are pointers, as numbers. A map of booleans by customer is an association list without
  repeated keys, since the code uses its size. Clock readings are arguments, in seconds.
\<close>

section \<open>Constants and environment\<close>

definition kMaxKey :: nat where "kMaxKey = 2 ^ 64 - 1"
definition kScheduler :: int where "kScheduler = 1"
definition kServerGroup :: int where "kServerGroup = 2"
definition kWorkerGroup :: int where "kWorkerGroup = 4"

record ps_env =
  pe_kvs :: "string \<rightharpoonup> string"
  pe_system :: env

definition env_find :: "ps_env \<Rightarrow> string \<Rightarrow> string option" where
  "env_find e k = (case pe_kvs e k of None \<Rightarrow> pe_system e k | Some v \<Rightarrow> Some v)"

definition env_Init :: "(string \<rightharpoonup> string) \<Rightarrow> ps_env \<Rightarrow> ps_env" where
  "env_Init kvs e = e\<lparr>pe_kvs := kvs\<rparr>"

definition GetEnv :: "ps_env \<Rightarrow> string \<Rightarrow> int \<Rightarrow> int" where
  "GetEnv e key default_val = (case env_find e key of None \<Rightarrow> default_val | Some v \<Rightarrow> atoi v)"

section \<open>State\<close>

type_synonym done_map = "(int \<times> bool) list"

record postoffice =
  po_van_type :: string
  po_customers :: "int \<Rightarrow> (int \<rightharpoonup> nat) option"
  po_node_ids :: "int \<rightharpoonup> int list"
  po_key_ranges :: "range list"
  po_is_worker :: bool
  po_is_server :: bool
  po_is_scheduler :: bool
  po_num_servers :: int
  po_num_workers :: int
  po_barrier_done :: "int \<Rightarrow> done_map"
  po_verbose :: int
  po_init_stage :: nat
  po_heartbeats :: "int \<rightharpoonup> int"
  po_start_time :: int

definition po_empty :: postoffice where
  "po_empty = \<lparr>po_van_type = [], po_customers = Map.empty, po_node_ids = Map.empty, po_key_ranges = [],
     po_is_worker = False, po_is_server = False, po_is_scheduler = False, po_num_servers = 0,
     po_num_workers = 0, po_barrier_done = (\<lambda>_. []), po_verbose = 0, po_init_stage = 0,
     po_heartbeats = Map.empty, po_start_time = 0\<rparr>"

definition not_null :: "string \<Rightarrow> string option \<Rightarrow> string res" where
  "not_null what v = (case v of None \<Rightarrow> Inl (Check_Failed what) | Some s \<Rightarrow> Inr s)"

definition InitEnvironment :: "ps_env \<Rightarrow> postoffice \<Rightarrow> postoffice res" where
  "InitEnvironment e po =
     (let van = (if GetEnv e ''DMLC_ENABLE_RDMA'' 0 \<noteq> 0 then ''rdma''
                 else if GetEnv e ''USE_MLT'' 0 \<noteq> 0 then ''mlt'' else ''zmq'') in
      rbind (not_null ''DMLC_NUM_WORKER'' (env_find e ''DMLC_NUM_WORKER'')) (\<lambda>nw.
      rbind (not_null ''DMLC_NUM_SERVER'' (env_find e ''DMLC_NUM_SERVER'')) (\<lambda>ns.
      rbind (not_null ''DMLC_ROLE'' (env_find e ''DMLC_ROLE'')) (\<lambda>r.
        Inr (po\<lparr>po_van_type := van, po_num_workers := atoi nw, po_num_servers := atoi ns,
                po_is_worker := (r = ''worker''), po_is_server := (r = ''server''),
                po_is_scheduler := (r = ''scheduler''), po_verbose := GetEnv e ''PS_VERBOSE'' 0\<rparr>)))))"

section \<open>Node ids\<close>

definition WorkerRankToID :: "int \<Rightarrow> int" where "WorkerRankToID r = r * 2 + 9"
definition ServerRankToID :: "int \<Rightarrow> int" where "ServerRankToID r = r * 2 + 8"

text \<open>Division of \<open>int\<close> truncates towards zero.\<close>

definition tdiv :: "int \<Rightarrow> int \<Rightarrow> int" where
  "tdiv a b = (if a < 0 then - ((- a) div b) else a div b)"

definition IDtoRank :: "int \<Rightarrow> int" where
  "IDtoRank i = max (tdiv (i - 8) 2) 0"

definition push_ids :: "int \<Rightarrow> int list \<Rightarrow> (int \<rightharpoonup> int list) \<Rightarrow> (int \<rightharpoonup> int list)" where
  "push_ids i gs m = fold (\<lambda>g m. m(g \<mapsto> (case m g of None \<Rightarrow> [] | Some is \<Rightarrow> is) @ [i])) gs m"

definition worker_groups :: "int \<Rightarrow> int list" where
  "worker_groups i = [i, kWorkerGroup, kWorkerGroup + kServerGroup, kWorkerGroup + kScheduler,
     kWorkerGroup + kServerGroup + kScheduler]"

definition server_groups :: "int \<Rightarrow> int list" where
  "server_groups i = [i, kServerGroup, kWorkerGroup + kServerGroup, kServerGroup + kScheduler,
     kWorkerGroup + kServerGroup + kScheduler]"

definition scheduler_groups :: "int list" where
  "scheduler_groups = [kScheduler, kScheduler + kServerGroup + kWorkerGroup, kScheduler + kWorkerGroup,
     kScheduler + kServerGroup]"

definition init_node_ids :: "int \<Rightarrow> int \<Rightarrow> (int \<rightharpoonup> int list) \<Rightarrow> (int \<rightharpoonup> int list)" where
  "init_node_ids nw ns m0 =
     (let m1 = fold (\<lambda>i. push_ids (WorkerRankToID i) (worker_groups (WorkerRankToID i))) [0..nw - 1] m0;
          m2 = fold (\<lambda>i. push_ids (ServerRankToID i) (server_groups (ServerRankToID i))) [0..ns - 1] m1
      in push_ids kScheduler scheduler_groups m2)"

text \<open>The parts of \<open>Start\<close> before and after the van is started.\<close>

definition po_Start_init :: "ps_env \<Rightarrow> postoffice \<Rightarrow> postoffice res" where
  "po_Start_init e po =
     (if po_init_stage po = 0 then
        rbind (InitEnvironment e po) (\<lambda>po1.
          Inr (po1\<lparr>po_node_ids := init_node_ids (po_num_workers po1) (po_num_servers po1) (po_node_ids po1),
                   po_init_stage := 1\<rparr>))
      else Inr po)"

definition po_Start_done :: "int \<Rightarrow> postoffice \<Rightarrow> postoffice" where
  "po_Start_done now po =
     (if po_init_stage po = 1 then po\<lparr>po_start_time := now, po_init_stage := 2\<rparr> else po)"

definition po_Finalize :: "int \<Rightarrow> postoffice \<Rightarrow> postoffice" where
  "po_Finalize customer_id po =
     (if customer_id = 0 then
        po\<lparr>po_num_workers := 0, po_num_servers := 0, po_init_stage := 0, po_customers := Map.empty,
           po_node_ids := Map.empty, po_barrier_done := (\<lambda>_. []), po_key_ranges := [],
           po_heartbeats := Map.empty\<rparr>
      else po)"

definition GetNodeIDs :: "postoffice \<Rightarrow> int \<Rightarrow> int list res" where
  "GetNodeIDs po g = (case po_node_ids po g of None \<Rightarrow> Inl (Check_Failed ''it != node_ids_.cend()'') | Some is \<Rightarrow> Inr is)"

section \<open>Customers\<close>

text \<open>A customer is given by its pointer, application id and customer id.\<close>

definition AddCustomer :: "nat \<Rightarrow> int \<Rightarrow> int \<Rightarrow> postoffice \<Rightarrow> postoffice res" where
  "AddCustomer p app_id customer_id po =
     (let cs = (case po_customers po app_id of None \<Rightarrow> Map.empty | Some cs \<Rightarrow> cs);
          dn = po_barrier_done po app_id in
      rbind (check (cs customer_id = None) ''customers_[app_id].count(customer_id) == 0'') (\<lambda>_.
        Inr (po\<lparr>po_customers := (po_customers po)(app_id \<mapsto> cs(customer_id \<mapsto> p)),
                po_barrier_done := (po_barrier_done po)(app_id :=
                  (if map_of dn customer_id = None then AList.update customer_id False dn else dn))\<rparr>)))"

definition RemoveCustomer :: "int \<Rightarrow> int \<Rightarrow> postoffice \<Rightarrow> postoffice" where
  "RemoveCustomer app_id customer_id po =
     (let cs = (case po_customers po app_id of None \<Rightarrow> Map.empty | Some cs \<Rightarrow> cs)(customer_id := None) in
      po\<lparr>po_customers := (po_customers po)(app_id := (if cs = Map.empty then None else Some cs))\<rparr>)"

text \<open>The loop of \<open>GetCustomer\<close>: \<open>st i\<close> is the state seen by its \<open>i\<close>-th round, one millisecond apart.\<close>

fun get_customer_loop :: "nat \<Rightarrow> nat \<Rightarrow> (nat \<Rightarrow> postoffice) \<Rightarrow> int \<Rightarrow> int \<Rightarrow> nat option" where
  "get_customer_loop 0 i st app_id customer_id = None"
| "get_customer_loop (Suc k) i st app_id customer_id =
     (case po_customers (st i) app_id of
        Some cs \<Rightarrow> cs customer_id
      | None \<Rightarrow> get_customer_loop k (Suc i) st app_id customer_id)"

definition GetCustomer :: "(nat \<Rightarrow> postoffice) \<Rightarrow> int \<Rightarrow> int \<Rightarrow> nat \<Rightarrow> nat option" where
  "GetCustomer st app_id customer_id timeout = get_customer_loop (timeout * 1000 + 1) 0 st app_id customer_id"

section \<open>Barriers and heartbeats\<close>

definition barrier_role_bit :: "role \<Rightarrow> int" where
  "barrier_role_bit r = (case r of SCHEDULER \<Rightarrow> kScheduler | WORKER \<Rightarrow> kWorkerGroup | SERVER \<Rightarrow> kServerGroup)"

definition barrier_request :: "int \<Rightarrow> int \<Rightarrow> int \<Rightarrow> message" where
  "barrier_request customer_id node_group ts =
     \<lparr>mg_meta = Meta\<lparr>me_recver := kScheduler, me_request := True, me_app_id := 0, me_customer_id := customer_id,
                     me_timestamp := ts,
                     me_control := Control\<lparr>ct_cmd := BARRIER, ct_barrier_group := node_group\<rparr>\<rparr>,
      mg_data = []\<rparr>"

text \<open>\<open>Barrier\<close> up to the wait: the request to send, if any. The caller then waits until
  \<open>barrier_released\<close> holds.\<close>

definition Barrier :: "role \<Rightarrow> int \<Rightarrow> int \<Rightarrow> int \<Rightarrow> postoffice \<Rightarrow> (message option \<times> postoffice) res" where
  "Barrier my_role ts customer_id node_group po =
     rbind (GetNodeIDs po node_group) (\<lambda>is.
       if length is \<le> 1 then Inr (None, po)
       else rbind (check (and node_group (barrier_role_bit my_role) \<noteq> 0) ''node_group & group of the role'') (\<lambda>_.
         Inr (Some (barrier_request customer_id node_group ts),
              po\<lparr>po_barrier_done := (po_barrier_done po)(0 := AList.update customer_id False (po_barrier_done po 0))\<rparr>)))"

definition barrier_released :: "int \<Rightarrow> postoffice \<Rightarrow> bool" where
  "barrier_released customer_id po \<longleftrightarrow> map_of (po_barrier_done po 0) customer_id = Some True"

definition Manage :: "meta \<Rightarrow> postoffice \<Rightarrow> postoffice res" where
  "Manage m po =
     rbind (check (\<not> ctrl_empty (me_control m)) ''!recv.meta.control.empty()'') (\<lambda>_.
       if ct_cmd (me_control m) = BARRIER \<and> \<not> me_request m then
         let app_id = me_app_id m; dn = po_barrier_done po app_id in
         Inr (po\<lparr>po_barrier_done := (po_barrier_done po)(app_id :=
                  fold (\<lambda>c. AList.update (int c) True) [0..<length dn] dn)\<rparr>)
       else Inr po)"

definition UpdateHeartbeat :: "int \<Rightarrow> int \<Rightarrow> postoffice \<Rightarrow> postoffice" where
  "UpdateHeartbeat node_id t po = po\<lparr>po_heartbeats := (po_heartbeats po)(node_id \<mapsto> t)\<rparr>"

definition GetDeadNodes :: "bool \<Rightarrow> int \<Rightarrow> int \<Rightarrow> postoffice \<Rightarrow> int list res" where
  "GetDeadNodes van_ready now t po =
     (if \<not> van_ready \<or> t = 0 then Inr []
      else rbind (GetNodeIDs po (if po_is_scheduler po then kWorkerGroup + kServerGroup else kScheduler)) (\<lambda>nodes.
        Inr (filter (\<lambda>r. (case po_heartbeats po r of None \<Rightarrow> True | Some h \<Rightarrow> h + t < now)
                         \<and> po_start_time po + t < now) nodes)))"

section \<open>Key ranges\<close>

definition GetServerKeyRanges :: "postoffice \<Rightarrow> range list \<times> postoffice" where
  "GetServerKeyRanges po =
     (if po_key_ranges po = [] then
        let n = nat (po_num_servers po);
            rs = map (\<lambda>i. Range (u64 (kMaxKey div n * i)) (u64 (kMaxKey div n * (i + 1)))) [0..<n]
        in (rs, po\<lparr>po_key_ranges := rs\<rparr>)
      else (po_key_ranges po, po))"

section \<open>Groups\<close>

definition ids_of :: "(int \<rightharpoonup> int list) \<Rightarrow> int \<Rightarrow> int list" where
  "ids_of m g = (case m g of None \<Rightarrow> [] | Some is \<Rightarrow> is)"

text \<open>Only groups with members have an entry.\<close>

definition no_empty_group :: "(int \<rightharpoonup> int list) \<Rightarrow> bool" where
  "no_empty_group m \<longleftrightarrow> (\<forall>g. m g \<noteq> Some [])"

lemma ids_of_push: "distinct gs \<Longrightarrow> ids_of (push_ids i gs m) g = ids_of m g @ (if g \<in> set gs then [i] else [])"
  by (induction gs arbitrary: m) (auto simp: push_ids_def ids_of_def)

lemma no_empty_push: "no_empty_group m \<Longrightarrow> no_empty_group (push_ids i gs m)"
  by (induction gs arbitrary: m) (auto simp: push_ids_def no_empty_group_def)

lemma ids_of_fold_push:
  assumes "\<And>x. x \<in> set xs \<Longrightarrow> distinct (G (f x))"
  shows "ids_of (fold (\<lambda>x. push_ids (f x) (G (f x))) xs m) g
    = ids_of m g @ map f (filter (\<lambda>x. g \<in> set (G (f x))) xs)"
  using assms by (induction xs arbitrary: m) (simp_all add: ids_of_push)

lemma no_empty_fold_push:
  "no_empty_group m \<Longrightarrow> no_empty_group (fold (\<lambda>x. push_ids (f x) (G (f x))) xs m)"
  by (induction xs arbitrary: m) (simp_all add: no_empty_push)

lemmas group_consts = kScheduler_def kServerGroup_def kWorkerGroup_def

lemma worker_not_server: "WorkerRankToID x \<noteq> ServerRankToID y" "ServerRankToID y \<noteq> WorkerRankToID x"
  unfolding WorkerRankToID_def ServerRankToID_def by presburger+

lemma filter_const: "(\<And>x. x \<in> set xs \<Longrightarrow> P x = b) \<Longrightarrow> filter P xs = (if b then xs else [])"
  by (induction xs) auto

lemma init_node_ids_of:
  "ids_of (init_node_ids nw ns Map.empty) g =
     map WorkerRankToID (filter (\<lambda>r. g \<in> set (worker_groups (WorkerRankToID r))) [0..nw - 1])
     @ map ServerRankToID (filter (\<lambda>r. g \<in> set (server_groups (ServerRankToID r))) [0..ns - 1])
     @ (if g \<in> set scheduler_groups then [kScheduler] else [])"
proof -
  have w: "distinct (worker_groups (WorkerRankToID r))" if "r \<in> set [0..nw - 1]" for r
    using that by (auto simp: worker_groups_def group_consts WorkerRankToID_def)
  have s: "distinct (server_groups (ServerRankToID r))" if "r \<in> set [0..ns - 1]" for r
    using that by (auto simp: server_groups_def group_consts ServerRankToID_def)
  have h: "distinct scheduler_groups" by (simp add: scheduler_groups_def group_consts)
  have "ids_of (fold (\<lambda>i. push_ids (WorkerRankToID i) (worker_groups (WorkerRankToID i))) [0..nw - 1] Map.empty) g
      = map WorkerRankToID (filter (\<lambda>r. g \<in> set (worker_groups (WorkerRankToID r))) [0..nw - 1])"
    using ids_of_fold_push [of "[0..nw - 1]" worker_groups WorkerRankToID] w by (simp add: ids_of_def)
  then show ?thesis
    unfolding init_node_ids_def Let_def ids_of_push [OF h]
    using ids_of_fold_push [of "[0..ns - 1]" server_groups ServerRankToID] s by simp
qed

lemma no_empty_init: "no_empty_group (init_node_ids nw ns Map.empty)"
  unfolding init_node_ids_def Let_def
  by (intro no_empty_push no_empty_fold_push) (simp add: no_empty_group_def)

text \<open>The members of a group: those of the parts its id is the sum of, workers first.\<close>

definition group_members :: "int \<Rightarrow> int \<Rightarrow> int \<Rightarrow> int list" where
  "group_members nw ns g =
     (if g div 4 mod 2 = 1 then map WorkerRankToID [0..nw - 1] else [])
     @ (if g div 2 mod 2 = 1 then map ServerRankToID [0..ns - 1] else [])
     @ (if g mod 2 = 1 then [kScheduler] else [])"

lemma group_ids:
  assumes "0 < g" and "g < 8"
  shows "ids_of (init_node_ids nw ns Map.empty) g = group_members nw ns g"
proof -
  have wf: "filter (\<lambda>r. g \<in> set (worker_groups (WorkerRankToID r))) [0..nw - 1]
      = (if 4 \<le> g then [0..nw - 1] else [])"
    using assms by (intro filter_const) (auto simp: worker_groups_def group_consts WorkerRankToID_def)
  have sf: "filter (\<lambda>r. g \<in> set (server_groups (ServerRankToID r))) [0..ns - 1]
      = (if g \<in> {2, 3, 6, 7} then [0..ns - 1] else [])"
    using assms by (intro filter_const) (auto simp: server_groups_def group_consts ServerRankToID_def)
  have "g = 1 \<or> g = 2 \<or> g = 3 \<or> g = 4 \<or> g = 5 \<or> g = 6 \<or> g = 7" using assms by linarith
  then show ?thesis
    unfolding init_node_ids_of wf sf group_members_def
    by (elim disjE) (simp_all add: scheduler_groups_def group_consts)
qed

lemma single_ids:
  "0 \<le> r \<Longrightarrow> r < nw \<Longrightarrow> ids_of (init_node_ids nw ns Map.empty) (WorkerRankToID r) = [WorkerRankToID r]"
  "0 \<le> r \<Longrightarrow> r < ns \<Longrightarrow> ids_of (init_node_ids nw ns Map.empty) (ServerRankToID r) = [ServerRankToID r]"
proof -
  have one: "filter (\<lambda>x. x = r) [0..k - 1] = [r]" if "0 \<le> r" "r < k" for k
  proof -
    have "[0..k - 1] = [0..r - 1] @ r # [r + 1..k - 1]"
      using that upto_split2 [of 0 r "k - 1"] upto_rec1 [of r "k - 1"] upto_split3 [of 0 r "k - 1"] by simp
    then show ?thesis by (simp add: filter_empty_conv)
  qed
  show "0 \<le> r \<Longrightarrow> r < nw \<Longrightarrow> ids_of (init_node_ids nw ns Map.empty) (WorkerRankToID r) = [WorkerRankToID r]"
  proof -
    assume r: "0 \<le> r" "r < nw"
    have "filter (\<lambda>x. WorkerRankToID r \<in> set (worker_groups (WorkerRankToID x))) [0..nw - 1] = filter (\<lambda>x. x = r) [0..nw - 1]"
      using r by (intro filter_cong refl) (auto simp: worker_groups_def group_consts WorkerRankToID_def)
    moreover have "filter (\<lambda>x. WorkerRankToID r \<in> set (server_groups (ServerRankToID x))) [0..ns - 1] = []"
      using r by (auto simp: filter_empty_conv server_groups_def worker_not_server) (auto simp: group_consts WorkerRankToID_def)
    moreover have "WorkerRankToID r \<notin> set scheduler_groups"
      using r by (auto simp: scheduler_groups_def group_consts WorkerRankToID_def)
    ultimately show ?thesis unfolding init_node_ids_of using one [OF r] by simp
  qed
  show "0 \<le> r \<Longrightarrow> r < ns \<Longrightarrow> ids_of (init_node_ids nw ns Map.empty) (ServerRankToID r) = [ServerRankToID r]"
  proof -
    assume r: "0 \<le> r" "r < ns"
    have "filter (\<lambda>x. ServerRankToID r \<in> set (server_groups (ServerRankToID x))) [0..ns - 1] = filter (\<lambda>x. x = r) [0..ns - 1]"
      using r by (intro filter_cong refl) (auto simp: server_groups_def group_consts ServerRankToID_def)
    moreover have "filter (\<lambda>x. ServerRankToID r \<in> set (worker_groups (WorkerRankToID x))) [0..nw - 1] = []"
      using r by (auto simp: filter_empty_conv worker_groups_def worker_not_server) (auto simp: group_consts ServerRankToID_def)
    moreover have "ServerRankToID r \<notin> set scheduler_groups"
      using r by (auto simp: scheduler_groups_def group_consts ServerRankToID_def)
    ultimately show ?thesis unfolding init_node_ids_of using one [OF r] by simp
  qed
qed

lemma GetNodeIDs_ids:
  assumes "no_empty_group (po_node_ids po)"
  shows "GetNodeIDs po g = (if ids_of (po_node_ids po) g = [] then Inl (Check_Failed ''it != node_ids_.cend()'')
    else Inr (ids_of (po_node_ids po) g))"
  using assms by (auto simp: GetNodeIDs_def ids_of_def no_empty_group_def split: option.split)

lemma rank_round_trip: "0 \<le> r \<Longrightarrow> IDtoRank (WorkerRankToID r) = r" "0 \<le> r \<Longrightarrow> IDtoRank (ServerRankToID r) = r"
  by (simp_all add: IDtoRank_def tdiv_def WorkerRankToID_def ServerRankToID_def)

lemma distinct_node_ids: "distinct (group_members nw ns g)"
proof -
  have "distinct (map WorkerRankToID [0..nw - 1])" "distinct (map ServerRankToID [0..ns - 1])"
    by (simp_all add: distinct_map inj_on_def WorkerRankToID_def ServerRankToID_def)
  moreover have "kScheduler \<notin> WorkerRankToID ` {0..nw - 1}" "kScheduler \<notin> ServerRankToID ` {0..ns - 1}"
    by (auto simp: kScheduler_def WorkerRankToID_def ServerRankToID_def)
  moreover have "WorkerRankToID ` {0..nw - 1} \<inter> ServerRankToID ` {0..ns - 1} = {}"
    using worker_not_server by blast
  ultimately show ?thesis by (simp add: group_members_def)
qed

text \<open>The node groups set up at start. The group ids are sums of the scheduler (1), the servers (2) and the
  workers (4): looking up such a sum gives exactly the members of its parts, without repetition, and
  fails when there are none; looking up the id of a single node gives that node. Ranks and ids
  convert back and forth.\<close>

lemma node_groups:
  assumes "po_Start_init e po_empty = Inr po" and "nw = po_num_workers po" and "ns = po_num_servers po"
  shows "(0 < g \<and> g < 8 \<longrightarrow> distinct (group_members nw ns g) \<and> GetNodeIDs po g =
      (if group_members nw ns g = [] then Inl (Check_Failed ''it != node_ids_.cend()'') else Inr (group_members nw ns g)))
    \<and> (0 \<le> r \<longrightarrow> IDtoRank (WorkerRankToID r) = r \<and> IDtoRank (ServerRankToID r) = r)
    \<and> (0 \<le> r \<and> r < nw \<longrightarrow> GetNodeIDs po (WorkerRankToID r) = Inr [WorkerRankToID r])
    \<and> (0 \<le> r \<and> r < ns \<longrightarrow> GetNodeIDs po (ServerRankToID r) = Inr [ServerRankToID r])"
proof -
  have m: "po_node_ids po = init_node_ids nw ns Map.empty"
    using assms by (auto simp: po_Start_init_def po_empty_def InitEnvironment_def Let_def elim!: rbind_InrE)
  have "no_empty_group (po_node_ids po)" unfolding m by (rule no_empty_init)
  note look = GetNodeIDs_ids [OF this, unfolded m]
  show ?thesis
    by (auto simp: look group_ids single_ids distinct_node_ids rank_round_trip)
qed

section \<open>Key ranges cover the keys\<close>

definition key_width :: "nat \<Rightarrow> nat" where "key_width n = kMaxKey div n"

definition in_range :: "nat \<Rightarrow> range \<Rightarrow> bool" where
  "in_range k r \<longleftrightarrow> rg_begin r \<le> k \<and> k < rg_end r"

definition server_ranges :: "nat \<Rightarrow> range list" where
  "server_ranges n = map (\<lambda>i. Range (key_width n * i) (key_width n * Suc i)) [0..<n]"

lemma key_width_bound: "i \<le> n \<Longrightarrow> key_width n * i \<le> kMaxKey"
proof -
  assume "i \<le> n"
  then have "key_width n * i \<le> key_width n * n" by simp
  also have "\<dots> \<le> kMaxKey" by (simp add: key_width_def)
  finally show ?thesis .
qed

lemma GetServerKeyRanges_eq:
  "po_key_ranges po = [] \<Longrightarrow> fst (GetServerKeyRanges po) = server_ranges (nat (po_num_servers po))"
proof -
  assume "po_key_ranges po = []"
  let ?n = "nat (po_num_servers po)"
  have "u64 (kMaxKey div ?n * i) = key_width ?n * i" if "i \<le> ?n" for i
    using key_width_bound [OF that] by (simp add: key_width_def kMaxKey_def cast_simps)
  then show ?thesis
    using \<open>po_key_ranges po = []\<close> by (auto simp: GetServerKeyRanges_def server_ranges_def Let_def
        Suc_le_eq simp del: mult_Suc_right)
qed

lemma server_range_of_key:
  assumes "0 < n" and "k < key_width n * n"
  shows "k div key_width n < n" and "in_range k (server_ranges n ! (k div key_width n))"
    and "j < n \<Longrightarrow> in_range k (server_ranges n ! j) \<Longrightarrow> j = k div key_width n"
proof -
  have w: "0 < key_width n" using assms(2) by (cases "key_width n") auto
  show lt: "k div key_width n < n" using assms(2) w by (simp add: less_mult_imp_div_less mult.commute)
  show "in_range k (server_ranges n ! (k div key_width n))"
    using lt w by (simp add: in_range_def server_ranges_def Range_def dividend_less_times_div add.commute)
  assume j: "j < n" "in_range k (server_ranges n ! j)"
  then have "key_width n * j \<le> k" "k < key_width n * Suc j" by (simp_all add: in_range_def server_ranges_def Range_def)
  then show "j = k div key_width n" using w by (metis div_nat_eqI mult.commute)
qed

text \<open>C28: The key ranges of the servers. They start at 0, each begins where the one before ends, and every key
  below \<open>kMaxKey / n * n\<close> lies in exactly one of them; the keys from there to \<open>kMaxKey\<close>, the largest
  key among them, lie in none.\<close>

theorem server_key_ranges:
  assumes "po_key_ranges po = []" and "0 < po_num_servers po" and "n = nat (po_num_servers po)"
    and "rs = fst (GetServerKeyRanges po)"
  shows "length rs = n \<and> rg_begin (rs ! 0) = 0 \<and> (\<forall>i. Suc i < n \<longrightarrow> rg_end (rs ! i) = rg_begin (rs ! Suc i))
    \<and> (\<forall>k. k < kMaxKey div n * n \<longrightarrow> (\<exists>!i. i < n \<and> in_range k (rs ! i)))
    \<and> (\<forall>k. kMaxKey div n * n \<le> k \<longrightarrow> (\<forall>r \<in> set rs. \<not> in_range k r))
    \<and> kMaxKey div n * n \<le> kMaxKey"
proof -
  have rs: "rs = server_ranges n" and n: "0 < n" using GetServerKeyRanges_eq [OF assms(1)] assms(2-4) by simp_all
  have "\<exists>!i. i < n \<and> in_range k (rs ! i)" if "k < key_width n * n" for k
    using server_range_of_key [OF n that] unfolding rs by blast
  moreover have "\<not> in_range k r" if "key_width n * n \<le> k" "r \<in> set rs" for k r
  proof -
    from that(2) obtain i where i: "i < n" "r = Range (key_width n * i) (key_width n * Suc i)"
      by (auto simp: rs server_ranges_def)
    have "key_width n * Suc i \<le> key_width n * n" using i(1) by (intro mult_le_mono2) simp
    with that(1) i(2) show ?thesis by (simp add: in_range_def Range_def)
  qed
  ultimately show ?thesis
    using n key_width_bound [of n n] by (auto simp: rs server_ranges_def Range_def key_width_def [symmetric])
qed

section \<open>Barriers\<close>

lemma fold_update_keys:
  "map_of (fold (\<lambda>c. AList.update (int c) True) cs dn) k = (if k \<in> int ` set cs then Some True else map_of dn k)"
  by (induction cs arbitrary: dn) (auto simp: update_conv')

text \<open>The answer to a barrier releases exactly the waiting customers whose id is smaller than the number of
  customers of application 0: the release loop counts from 0 and takes for granted that customer ids
  are dense. A customer with another id waits forever.\<close>

lemma barrier_release:
  assumes "Barrier my_role ts c g po = Inr (Some req, po1)" and "me_app_id m = 0" and "\<not> me_request m"
    and "ct_cmd (me_control m) = BARRIER"
  shows "\<exists>po2. Manage m po1 = Inr po2
    \<and> (barrier_released c po2 \<longleftrightarrow> 0 \<le> c \<and> c < int (length (po_barrier_done po1 0)))"
proof -
  have w: "map_of (po_barrier_done po1 0) c = Some False"
    using assms(1) by (auto simp: Barrier_def res_simps update_conv' elim!: rbind_InrE split: if_splits)
  have c: "c \<in> int ` {0..<n} \<longleftrightarrow> 0 \<le> c \<and> c < int n" for n
    by (auto simp: image_iff intro!: bexI [of _ "nat c"])
  show ?thesis
    using assms(2-4) w c [of "length (po_barrier_done po1 0)"]
    by (auto simp: Manage_def ctrl_empty_def Let_def barrier_released_def fold_update_keys)
qed

section \<open>Witnesses\<close>

definition demo_env :: ps_env where
  "demo_env = \<lparr>pe_kvs = [''DMLC_NUM_WORKER'' \<mapsto> ''3'', ''DMLC_NUM_SERVER'' \<mapsto> ''2'', ''DMLC_ROLE'' \<mapsto> ''worker''],
     pe_system = (\<lambda>_. None)\<rparr>"

definition demo_po :: postoffice where
  "demo_po = po_empty\<lparr>po_van_type := ''zmq'', po_num_workers := 3, po_num_servers := 2, po_is_worker := True,
     po_node_ids := init_node_ids 3 2 Map.empty, po_init_stage := 1\<rparr>"

lemma demo_atoi: "atoi ''3'' = 3" "atoi ''2'' = 2"
  by (simp_all add: atoi_def is_space_def is_digit_def clamp_long_def i32_def Let_def)

lemma demo_start: "po_Start_init demo_env po_empty = Inr demo_po"
  by (simp add: po_Start_init_def InitEnvironment_def not_null_def env_find_def GetEnv_def demo_env_def
      demo_atoi demo_po_def po_empty_def Let_def)

theorem server_key_ranges_witness:
  "let rs = fst (GetServerKeyRanges demo_po) in length rs = 2 \<and> rg_end (rs ! 0) = rg_begin (rs ! 1)
    \<and> (\<forall>r \<in> set rs. \<not> in_range kMaxKey r)"
proof -
  have "po_key_ranges demo_po = []" "0 < po_num_servers demo_po" "2 = nat (po_num_servers demo_po)"
    by (simp_all add: demo_po_def po_empty_def)
  from server_key_ranges [OF this refl] show ?thesis by (simp add: Let_def)
qed

end
