(* ===== verification/Customer.thy ===== *)
theory Customer
  imports Postoffice Queues
begin

text \<open>
  Customers (\<open>src/include/ps/internal/customer.h\<close>, \<open>src/src/customer.cc\<close>) and \<open>SimpleApp\<close>
  (\<open>src/include/ps/simple_app.h\<close>).

  A customer tracks for each request, by its timestamp, the number of responses expected and received.
  Its receiving thread takes one message at a time from its queue and gives it to the handle of the
  application, a parameter that may use the customer and a state of its own; a response is counted
  after it has been handled. Messages to send are returned.
\<close>

section \<open>Customers\<close>

record customer =
  cu_app_id :: int
  cu_customer_id :: int
  cu_recv_queue :: "message list"
  cu_tracker :: "(int \<times> int) list"

definition new_Customer :: "nat \<Rightarrow> int \<Rightarrow> int \<Rightarrow> postoffice \<Rightarrow> (customer \<times> postoffice) res" where
  "new_Customer p app_id customer_id po =
     rbind (AddCustomer p app_id customer_id po) (\<lambda>po1.
       Inr (\<lparr>cu_app_id = app_id, cu_customer_id = customer_id, cu_recv_queue = [], cu_tracker = []\<rparr>, po1))"

text \<open>The destructor up to the join: it leaves the post office and queues a terminating message.\<close>

definition delete_Customer :: "customer \<Rightarrow> postoffice \<Rightarrow> customer \<times> postoffice" where
  "delete_Customer c po =
     (c\<lparr>cu_recv_queue := tsq_Push (cu_recv_queue c)
          \<lparr>mg_meta = Meta\<lparr>me_control := Control\<lparr>ct_cmd := TERMINATE\<rparr>\<rparr>, mg_data = []\<rparr>\<rparr>,
      RemoveCustomer (cu_app_id c) (cu_customer_id c) po)"

definition NewRequest :: "postoffice \<Rightarrow> int \<Rightarrow> customer \<Rightarrow> (int \<times> customer) res" where
  "NewRequest po recver c =
     rbind (GetNodeIDs po recver) (\<lambda>is.
       Inr (int (length (cu_tracker c)), c\<lparr>cu_tracker := cu_tracker c @ [(int (length is), 0)]\<rparr>))"

definition tracked :: "customer \<Rightarrow> int \<Rightarrow> (int \<times> int) res" where
  "tracked c ts =
     (if 0 \<le> ts \<and> nat ts < length (cu_tracker c) then Inr (cu_tracker c ! nat ts)
      else Inl (Undefined_Behaviour ''tracker_[]''))"

text \<open>The condition \<open>WaitRequest\<close> waits for.\<close>

definition WaitRequest :: "customer \<Rightarrow> int \<Rightarrow> bool res" where
  "WaitRequest c ts = rbind (tracked c ts) (\<lambda>(n, k). Inr (n = k))"

definition NumResponse :: "customer \<Rightarrow> int \<Rightarrow> int res" where
  "NumResponse c ts = rbind (tracked c ts) (\<lambda>(n, k). Inr k)"

definition AddResponse :: "int \<Rightarrow> int \<Rightarrow> customer \<Rightarrow> customer res" where
  "AddResponse ts num c =
     rbind (tracked c ts) (\<lambda>(n, k). Inr (c\<lparr>cu_tracker := (cu_tracker c)[nat ts := (n, k + num)]\<rparr>))"

definition Accept :: "message \<Rightarrow> customer \<Rightarrow> customer" where
  "Accept m c = c\<lparr>cu_recv_queue := tsq_Push (cu_recv_queue c) m\<rparr>"

section \<open>The receiving thread\<close>

type_synonym 's handle = "message \<Rightarrow> customer \<times> 's \<Rightarrow> (customer \<times> 's) res"

definition is_terminate :: "message \<Rightarrow> bool" where
  "is_terminate m \<longleftrightarrow> ct_cmd (me_control (mg_meta m)) = TERMINATE"

definition receive_one :: "'s handle \<Rightarrow> message \<Rightarrow> customer \<times> 's \<Rightarrow> (customer \<times> 's) res" where
  "receive_one h m st =
     rbind (h m st) (\<lambda>(c, s).
       if me_request (mg_meta m) then Inr (c, s)
       else rbind (AddResponse (me_timestamp (mg_meta m)) 1 c) (\<lambda>c1. Inr (c1, s)))"

text \<open>One turn of \<open>Receiving\<close>: \<open>None\<close> while the queue is empty, otherwise whether the loop goes on.\<close>

definition cu_Receiving_turn :: "'s handle \<Rightarrow> customer \<times> 's \<Rightarrow> (bool \<times> customer \<times> 's) option res" where
  "cu_Receiving_turn h st =
     (let (c, s) = st in
      case tsq_WaitAndPop (cu_recv_queue c) of
        None \<Rightarrow> Inr None
      | Some (m, q) \<Rightarrow>
          let c1 = c\<lparr>cu_recv_queue := q\<rparr> in
          if is_terminate m then Inr (Some (False, c1, s))
          else rbind (receive_one h m (c1, s)) (\<lambda>st1. Inr (Some (True, st1))))"

section \<open>SimpleApp\<close>

record simple_data =
  sd_head :: int
  sd_body :: "byte list"
  sd_sender :: int
  sd_timestamp :: int
  sd_customer_id :: int

definition sa_Request :: "postoffice \<Rightarrow> int \<Rightarrow> byte list \<Rightarrow> int \<Rightarrow> customer \<Rightarrow> (int \<times> message list \<times> customer) res" where
  "sa_Request po req_head req_body recv_id c =
     rbind (NewRequest po recv_id c) (\<lambda>(ts, c1).
     rbind (GetNodeIDs po recv_id) (\<lambda>is.
       let m = Meta\<lparr>me_head := req_head, me_body := req_body, me_timestamp := ts, me_request := True,
                    me_simple_app := True, me_app_id := cu_app_id c1, me_customer_id := cu_customer_id c1\<rparr>
       in Inr (ts, map (\<lambda>r. \<lparr>mg_meta = m\<lparr>me_recver := r\<rparr>, mg_data = []\<rparr>) is, c1)))"

definition sa_Response :: "simple_data \<Rightarrow> byte list \<Rightarrow> customer \<Rightarrow> message" where
  "sa_Response req res_body c =
     \<lparr>mg_meta = Meta\<lparr>me_head := sd_head req, me_body := res_body, me_timestamp := sd_timestamp req,
        me_request := False, me_simple_app := True, me_app_id := cu_app_id c,
        me_customer_id := sd_customer_id req, me_recver := sd_sender req\<rparr>, mg_data = []\<rparr>"

text \<open>\<open>Process\<close> with the request and response handles set by the application.\<close>

definition sa_Process :: "(simple_data \<Rightarrow> customer \<times> 's \<Rightarrow> (customer \<times> 's) res)
    \<Rightarrow> (simple_data \<Rightarrow> customer \<times> 's \<Rightarrow> (customer \<times> 's) res) \<Rightarrow> 's handle" where
  "sa_Process request_handle response_handle msg st =
     (let m = mg_meta msg;
          recv = \<lparr>sd_head = me_head m, sd_body = me_body m, sd_sender = me_sender m,
                  sd_timestamp = me_timestamp m, sd_customer_id = me_customer_id m\<rparr>
      in if me_request m then request_handle recv st else response_handle recv st)"

section \<open>Counting responses\<close>

text \<open>A handle that leaves the tracker alone.\<close>

definition keeps_tracker :: "'s handle \<Rightarrow> bool" where
  "keeps_tracker h \<longleftrightarrow> (\<forall>m c s c' s'. h m (c, s) = Inr (c', s') \<longrightarrow> cu_tracker c' = cu_tracker c)"

definition responses :: "int \<Rightarrow> message list \<Rightarrow> message list" where
  "responses ts ms = filter (\<lambda>m. \<not> me_request (mg_meta m) \<and> me_timestamp (mg_meta m) = ts) ms"

lemma receive_one_tracker:
  assumes "keeps_tracker h" and "receive_one h m (c, s) = Inr (c', s')"
  shows "cu_tracker c' = (if me_request (mg_meta m) then cu_tracker c
    else let t = nat (me_timestamp (mg_meta m)) in (cu_tracker c)[t := (fst (cu_tracker c ! t), snd (cu_tracker c ! t) + 1)])"
    and "\<not> me_request (mg_meta m) \<Longrightarrow> 0 \<le> me_timestamp (mg_meta m) \<and> nat (me_timestamp (mg_meta m)) < length (cu_tracker c)"
proof -
  from assms(2) obtain c1 where h: "h m (c, s) = Inr (c1, s')"
    and r: "(if me_request (mg_meta m) then Inr c1 else AddResponse (me_timestamp (mg_meta m)) 1 c1) = Inr c'"
    by (auto simp: receive_one_def elim!: rbind_InrE split: if_splits)
  have "cu_tracker c1 = cu_tracker c" using assms(1) h unfolding keeps_tracker_def by blast
  with r show "cu_tracker c' = (if me_request (mg_meta m) then cu_tracker c
    else let t = nat (me_timestamp (mg_meta m)) in (cu_tracker c)[t := (fst (cu_tracker c ! t), snd (cu_tracker c ! t) + 1)])"
    and "\<not> me_request (mg_meta m) \<Longrightarrow> 0 \<le> me_timestamp (mg_meta m) \<and> nat (me_timestamp (mg_meta m)) < length (cu_tracker c)"
    by (auto simp: AddResponse_def tracked_def Let_def elim!: rbind_InrE split: if_splits prod.splits)
qed

lemma receive_all_tracker:
  assumes "keeps_tracker h" and "rfold (receive_one h) ms (c, s) = Inr (c', s')" and "0 \<le> ts" and "nat ts < length (cu_tracker c)"
    and "cu_tracker c ! nat ts = (n, k)"
  shows "nat ts < length (cu_tracker c') \<and> cu_tracker c' ! nat ts = (n, k + int (length (responses ts ms)))"
  using assms(2-)
proof (induction ms arbitrary: c s k)
  case Nil
  then show ?case by (simp add: responses_def)
next
  case (Cons m ms)
  from Cons.prems(1) obtain c1 s1 where r: "receive_one h m (c, s) = Inr (c1, s1)"
    "rfold (receive_one h) ms (c1, s1) = Inr (c', s')" by (auto elim!: rbind_InrE)
  note t = receive_one_tracker [OF assms(1) r(1)]
  let ?k = "if \<not> me_request (mg_meta m) \<and> me_timestamp (mg_meta m) = ts then k + 1 else k"
  have "nat ts < length (cu_tracker c1)" "cu_tracker c1 ! nat ts = (n, ?k)"
    using t Cons.prems(2-) by (auto simp: Let_def nth_list_update nat_eq_iff2)
  from Cons.IH [OF r(2) Cons.prems(2) this] show ?case by (simp add: responses_def)
qed

text \<open>C16: A request to a node or group is finished exactly when as many responses as the group has members have
  been received: the wait condition of the timestamp \<open>NewRequest\<close> returned holds after handling the
  received messages, whatever else is among them, if and only if this many of them are responses with
  that timestamp.\<close>

theorem request_finished:
  assumes "sa_Request po head body g c = Inr (ts, out, c1)" and "keeps_tracker h"
    and "rfold (receive_one h) ms (c1, s) = Inr (c2, s2)"
  shows "length out = length (ids_of (po_node_ids po) g) \<and> map (me_recver \<circ> mg_meta) out = ids_of (po_node_ids po) g
    \<and> (\<forall>m \<in> set out. me_request (mg_meta m) \<and> me_timestamp (mg_meta m) = ts)
    \<and> WaitRequest c2 ts = Inr (length (responses ts ms) = length out)"
proof -
  obtain "is" where "is": "GetNodeIDs po g = Inr is" "ts = int (length (cu_tracker c))"
    "c1 = c\<lparr>cu_tracker := cu_tracker c @ [(int (length is), 0)]\<rparr>"
    "map (me_recver \<circ> mg_meta) out = is" "\<forall>m \<in> set out. me_request (mg_meta m) \<and> me_timestamp (mg_meta m) = ts"
    using assms(1) by (auto simp: sa_Request_def NewRequest_def comp_def elim!: rbind_InrE)
  have ids: "ids_of (po_node_ids po) g = is"
    using "is"(1) by (auto simp: GetNodeIDs_def ids_of_def split: option.splits)
  have len: "length out = length is" using "is"(4) by (metis length_map)
  have "cu_tracker c1 ! nat ts = (int (length is), 0)" "nat ts < length (cu_tracker c1)" "0 \<le> ts"
    using "is"(2,3) by (simp_all add: nth_append)
  from receive_all_tracker [OF assms(2,3) this(3,2,1)] this(3)
  have "WaitRequest c2 ts = Inr (length (responses ts ms) = length out)"
    by (auto simp: WaitRequest_def tracked_def len)
  with "is" ids len show ?thesis by simp
qed

definition demo_handle :: "nat handle" where
  "demo_handle m st = Inr (fst st, Suc (snd st))"

definition demo_customer :: customer where
  "demo_customer = \<lparr>cu_app_id = 0, cu_customer_id = 0, cu_recv_queue = [], cu_tracker = []\<rparr>"

definition demo_response :: message where
  "demo_response = \<lparr>mg_meta = Meta\<lparr>me_timestamp := 0, me_request := False\<rparr>, mg_data = []\<rparr>"

theorem request_finished_witness:
  "\<exists>ts out c1 c2. sa_Request demo_po 1 [] kServerGroup demo_customer = Inr (ts, out, c1)
    \<and> rfold (receive_one demo_handle) [demo_response, demo_response] (c1, 0) = Inr (c2, 2) \<and> WaitRequest c2 ts = Inr True"
proof -
  have g: "GetNodeIDs demo_po 2 = Inr [8, 10]"
    using GetNodeIDs_ids [of demo_po 2] no_empty_init [of 3 2] group_ids [of 2 3 2]
    by (simp add: demo_po_def group_members_def upto.simps ServerRankToID_def)
  let ?c1 = "demo_customer\<lparr>cu_tracker := [(2, 0)]\<rparr>" and ?c2 = "demo_customer\<lparr>cu_tracker := [(2, 2)]\<rparr>"
  obtain out where r: "sa_Request demo_po 1 [] kServerGroup demo_customer = Inr (0, out, ?c1)"
    by (simp add: sa_Request_def NewRequest_def kServerGroup_def g demo_customer_def)
  have p: "keeps_tracker demo_handle" by (auto simp: keeps_tracker_def demo_handle_def)
  have f: "rfold (receive_one demo_handle) [demo_response, demo_response] (?c1, 0) = Inr (?c2, 2)"
    by (simp add: receive_one_def demo_handle_def demo_response_def AddResponse_def tracked_def demo_customer_def)
  have "length out = 2" using r by (auto simp: sa_Request_def NewRequest_def kServerGroup_def g)
  moreover have "length (responses 0 [demo_response, demo_response]) = 2"
    by (simp add: responses_def demo_response_def)
  ultimately show ?thesis using request_finished [OF r p f] r f by auto
qed

end
