(* ===== verification/Kv_App.thy ===== *)
theory Kv_App
  imports Customer
begin

text \<open>
  The key-value store (\<open>src/include/ps/kv_app.h\<close>): workers push and pull lists of key-value pairs,
  which are sliced by the key ranges of the servers; each server answers its slice, and the worker
  assembles the answers of a pull.

  A value is its object representation, a number below \<open>256 ^ w\<close> where \<open>w\<close> is \<open>sizeof(Val)\<close>; the
  addition of values is a parameter. Shared arrays are lists (theory \<open>Sarray\<close> relates the two), and
  their bytes travel as the data of a message. A callback is data: the user's, by name, or the
  assembly of a pull with the arrays it captured. Messages to send are returned; profiling output is
  left out.
\<close>

section \<open>Key-value lists\<close>

record 'v kvpairs =
  kv_keys :: "nat list"
  kv_vals :: "'v list"
  kv_lens :: "int list"

definition KVPairs :: "'v kvpairs" where
  "KVPairs = \<lparr>kv_keys = [], kv_vals = [], kv_lens = []\<rparr>"

text \<open>\<open>SArray::segment\<close> on the contents of arrays.\<close>

definition segment :: "'v list \<Rightarrow> nat \<Rightarrow> nat \<Rightarrow> 'v list res" where
  "segment xs b e =
     rbind (check (e \<ge> b) ''end >= begin'') (\<lambda>_.
     rbind (check (e \<le> length xs) ''end <= size()'') (\<lambda>_. Inr (take (e - b) (drop b xs))))"

lemma segment_contents:
  "sarr_ok h a \<Longrightarrow> rbind (sa_segment a b e) (\<lambda>s. Inr (sa_contents h s)) = segment (sa_contents h a) b e"
proof -
  assume ok: "sarr_ok h a"
  show ?thesis
  proof (cases "b \<le> e \<and> e \<le> sa_size a")
    case True
    then obtain s where s: "sa_segment a b e = Inr s" by (simp add: sa_segment_def)
    from sa_segment_ok(2) [OF ok s] s True length_contents [OF ok] show ?thesis by (simp add: segment_def)
  next
    case False
    with length_contents [OF ok] show ?thesis by (auto simp: segment_def sa_segment_def check_def)
  qed
qed

section \<open>The default slicer\<close>

text \<open>The positions \<open>pos[1], \<dots>\<close>: \<open>p\<close> is the position reached, \<open>prev\<close> the end of the range before.\<close>

fun slicer_pos :: "nat list \<Rightarrow> nat \<Rightarrow> nat option \<Rightarrow> range list \<Rightarrow> nat list res" where
  "slicer_pos keys p prev [] = Inr []"
| "slicer_pos keys p prev (r # rs) =
     rbind (check (case prev of None \<Rightarrow> True | Some e \<Rightarrow> e = rg_begin r) ''ranges[i-1].end() == ranges[i].begin()'') (\<lambda>_.
       let p' = p + lower_bound (drop p keys) (rg_end r) in
       rbind (slicer_pos keys p' (Some (rg_end r)) rs) (\<lambda>ps. Inr (p' # ps)))"

text \<open>Cutting the list at the positions; \<open>vb\<close> is \<open>val_begin\<close>, which equals \<open>val_end\<close> between rounds.\<close>

fun slice_loop :: "'v kvpairs \<Rightarrow> nat \<Rightarrow> nat \<Rightarrow> nat \<Rightarrow> nat list \<Rightarrow> (bool \<times> 'v kvpairs) list res" where
  "slice_loop send k vb p [] = Inr []"
| "slice_loop send k vb p (q # ps) =
     (if q = p then rbind (slice_loop send k vb q ps) (\<lambda>rest. Inr ((False, KVPairs) # rest))
      else
        rbind (segment (kv_keys send) p q) (\<lambda>keys.
          if kv_lens send \<noteq> [] then
            rbind (segment (kv_lens send) p q) (\<lambda>lens.
              let ve = fold (\<lambda>l v. u64 (v + u64_of_int l)) lens vb in
              rbind (segment (kv_vals send) vb ve) (\<lambda>vals.
              rbind (slice_loop send k ve q ps) (\<lambda>rest.
                Inr ((True, \<lparr>kv_keys = keys, kv_vals = vals, kv_lens = lens\<rparr>) # rest))))
          else
            rbind (segment (kv_vals send) (u64 (p * k)) (u64 (q * k))) (\<lambda>vals.
            rbind (slice_loop send k vb q ps) (\<lambda>rest.
              Inr ((True, \<lparr>kv_keys = keys, kv_vals = vals, kv_lens = []\<rparr>) # rest)))))"

definition DefaultSlicer :: "'v kvpairs \<Rightarrow> range list \<Rightarrow> (bool \<times> 'v kvpairs) list res" where
  "DefaultSlicer send ranges =
     (let keys = kv_keys send;
          p0 = (case ranges of [] \<Rightarrow> 0 | r # _ \<Rightarrow> lower_bound keys (rg_begin r)) in
      rbind (slicer_pos keys p0 None ranges) (\<lambda>ps.
      rbind (check (last (p0 # ps) = length keys) ''pos[n] == send.keys.size()'') (\<lambda>_.
        if keys = [] then Inr (map (\<lambda>_. (False, KVPairs)) ranges)
        else
          let k = (if kv_lens send = [] then length (kv_vals send) div length keys else 0) in
          rbind (if kv_lens send = [] then check (u64 (k * length keys) = length (kv_vals send)) ''k * send.keys.size() == send.vals.size()''
                 else check (length keys = length (kv_lens send)) ''send.keys.size() == send.lens.size()'') (\<lambda>_.
            slice_loop send k 0 p0 ps))))"

section \<open>Messages\<close>

definition key_bytes :: "nat list \<Rightarrow> byte list" where "key_bytes ks = concat (map (le_bytes 8) ks)"
definition val_bytes :: "nat \<Rightarrow> nat list \<Rightarrow> byte list" where "val_bytes w vs = concat (map (le_bytes w) vs)"
definition len_bytes :: "int list \<Rightarrow> byte list" where "len_bytes ls = concat (map int_bytes ls)"

text \<open>Casting an \<open>SArray<char>\<close> to an array of elements of \<open>w\<close> bytes.\<close>

definition cast_array :: "nat \<Rightarrow> byte list \<Rightarrow> nat list res" where
  "cast_array w bs =
     rbind (check (length bs mod w = 0) ''size_ * sizeof(V) == arr.size() * sizeof(W)'') (\<lambda>_.
       Inr (map (\<lambda>i. field_at bs (i * w) w) [0..<length bs div w]))"

definition cast_lens :: "byte list \<Rightarrow> int list res" where
  "cast_lens bs = rbind (cast_array 4 bs) (\<lambda>ls. Inr (map (\<lambda>l. i32 (int l)) ls))"

definition add_kvs :: "nat \<Rightarrow> elem_type \<Rightarrow> nat kvpairs \<Rightarrow> message \<Rightarrow> message res" where
  "add_kvs w V kvs msg =
     (if kv_keys kvs = [] then Inr msg
      else rbind (AddData Uint64_t (key_bytes (kv_keys kvs)) msg) (\<lambda>m1.
           rbind (AddData V (val_bytes w (kv_vals kvs)) m1) (\<lambda>m2.
             if kv_lens kvs = [] then Inr m2 else AddData Int32_t (len_bytes (kv_lens kvs)) m2)))"

section \<open>Workers\<close>

datatype callback =
  User_Callback nat
| Pull_Callback "nat list" bool "nat list" "int list" "nat option"

text \<open>\<open>kw_out\<close> records what the callbacks have written to the user's arrays, by timestamp, and
  \<open>kw_ran\<close> the user callbacks that have run.\<close>

record kv_worker =
  kw_recv_kvs :: "int \<Rightarrow> nat kvpairs list"
  kw_callbacks :: "int \<rightharpoonup> callback"
  kw_zpull :: bool
  kw_out :: "int \<rightharpoonup> nat list \<times> int list"
  kw_ran :: "nat list"

definition AddCallback :: "int \<Rightarrow> callback option \<Rightarrow> kv_worker \<Rightarrow> kv_worker" where
  "AddCallback ts cb w = (case cb of None \<Rightarrow> w | Some f \<Rightarrow> w\<lparr>kw_callbacks := (kw_callbacks w)(ts \<mapsto> f)\<rparr>)"

definition run_user :: "nat option \<Rightarrow> kv_worker \<Rightarrow> kv_worker" where
  "run_user cb w = (case cb of None \<Rightarrow> w | Some f \<Rightarrow> w\<lparr>kw_ran := kw_ran w @ [f]\<rparr>)"

text \<open>The checks on the answer of one server.\<close>

definition check_part :: "nat list \<Rightarrow> bool \<Rightarrow> nat kvpairs \<Rightarrow> nat \<times> nat \<Rightarrow> (nat \<times> nat) res" where
  "check_part keys has_lens s tot =
     rbind (sa_front (kv_keys s)) (\<lambda>lo.
     rbind (sa_back (kv_keys s)) (\<lambda>hi.
     rbind (check (range_size (FindRange keys lo (u64 (hi + 1))) = length (kv_keys s)) ''unmatched keys size from one server'') (\<lambda>_.
     rbind (check (has_lens \<longrightarrow> length (kv_lens s) = length (kv_keys s)) ''s.lens.size() == s.keys.size()'') (\<lambda>_.
       Inr (fst tot + length (kv_keys s), snd tot + length (kv_vals s))))))"

text \<open>The assembly of a pull: \<open>vals\<close> and \<open>lens\<close> are the contents of the user's arrays, which are
  empty or have the right size. \<open>std::sort\<close> orders the answers by their first key.\<close>

definition pull_assemble :: "bool \<Rightarrow> nat list \<Rightarrow> bool \<Rightarrow> nat list \<Rightarrow> int list \<Rightarrow> nat kvpairs list
    \<Rightarrow> (nat list \<times> int list) res" where
  "pull_assemble zpull keys has_lens vals lens kvs =
     rbind (rfold (check_part keys has_lens) kvs (0, 0)) (\<lambda>(total_key, total_val).
     rbind (check (total_key = length keys) ''lost some servers?'') (\<lambda>_.
     let sorted_kvs = sort_key (hd \<circ> kv_keys) kvs in
     rbind (check (vals = [] \<or> length vals = total_val) ''vals->size() == total_val'') (\<lambda>_.
       if zpull then Inr (if vals = [] then replicate total_val 0 else vals, lens)
       else
         rbind (check (has_lens \<longrightarrow> lens = [] \<or> length lens = length keys) ''lens->size() == keys.size()'') (\<lambda>_.
           Inr (concat (map kv_vals sorted_kvs), if has_lens then concat (map kv_lens sorted_kvs) else lens)))))"

definition run_callback_body :: "int \<Rightarrow> callback \<Rightarrow> kv_worker \<Rightarrow> kv_worker res" where
  "run_callback_body ts f w =
     (case f of
        User_Callback u \<Rightarrow> Inr (run_user (Some u) w)
      | Pull_Callback keys has_lens vals lens cb \<Rightarrow>
          rbind (pull_assemble (kw_zpull w) keys has_lens vals lens (kw_recv_kvs w ts)) (\<lambda>out.
            Inr (run_user cb (w\<lparr>kw_out := (kw_out w)(ts \<mapsto> out), kw_recv_kvs := (kw_recv_kvs w)(ts := [])\<rparr>))))"

definition RunCallback :: "int \<Rightarrow> kv_worker \<Rightarrow> kv_worker res" where
  "RunCallback ts w =
     (case kw_callbacks w ts of
        None \<Rightarrow> Inr w
      | Some f \<Rightarrow> rbind (run_callback_body ts f w) (\<lambda>w1. Inr (w1\<lparr>kw_callbacks := (kw_callbacks w1)(ts := None)\<rparr>)))"

definition kv_request :: "nat \<Rightarrow> elem_type \<Rightarrow> customer \<Rightarrow> int \<Rightarrow> bool \<Rightarrow> int \<Rightarrow> nat \<times> bool \<times> nat kvpairs \<Rightarrow> message res" where
  "kv_request w V c ts push cmd s =
     (let (i, _, kvs) = s in
      add_kvs w V kvs
        \<lparr>mg_meta = Meta\<lparr>me_app_id := cu_app_id c, me_customer_id := cu_customer_id c, me_request := True,
           me_push := push, me_head := cmd, me_timestamp := ts, me_recver := ServerRankToID (int i)\<rparr>, mg_data = []\<rparr>)"

definition kw_Send :: "nat \<Rightarrow> elem_type \<Rightarrow> range list \<Rightarrow> int \<Rightarrow> bool \<Rightarrow> int \<Rightarrow> nat kvpairs \<Rightarrow> customer \<times> kv_worker
    \<Rightarrow> (message list \<times> customer \<times> kv_worker) res" where
  "kw_Send w V ranges ts push cmd kvs st =
     (let (c, kw) = st in
      rbind (DefaultSlicer kvs ranges) (\<lambda>sliced.
        let skipped = length (filter (Not \<circ> fst) sliced) in
        rbind (AddResponse ts (int skipped) c) (\<lambda>c1.
        rbind (if skipped = length sliced then RunCallback ts kw else Inr kw) (\<lambda>kw1.
        rbind (rmapM (kv_request w V c1 ts push cmd) (filter (fst \<circ> snd) (enumerate 0 sliced))) (\<lambda>msgs.
          Inr (msgs, c1, kw1))))))"

definition ZPush :: "nat \<Rightarrow> elem_type \<Rightarrow> postoffice \<Rightarrow> nat kvpairs \<Rightarrow> int \<Rightarrow> nat option \<Rightarrow> customer \<times> kv_worker
    \<Rightarrow> (int \<times> message list \<times> customer \<times> kv_worker) res" where
  "ZPush w V po kvs cmd cb st =
     (let (c, kw) = st in
      rbind (NewRequest po kServerGroup c) (\<lambda>(ts, c1).
      rbind (kw_Send w V (fst (GetServerKeyRanges po)) ts True cmd kvs (c1, AddCallback ts (map_option User_Callback cb) kw))
        (\<lambda>(msgs, st1). Inr (ts, msgs, st1))))"

definition Pull_internal :: "nat \<Rightarrow> elem_type \<Rightarrow> postoffice \<Rightarrow> nat list \<Rightarrow> nat list \<Rightarrow> int list option \<Rightarrow> int \<Rightarrow> nat option
    \<Rightarrow> customer \<times> kv_worker \<Rightarrow> (int \<times> message list \<times> customer \<times> kv_worker) res" where
  "Pull_internal w V po keys vals lens cmd cb st =
     (let (c, kw) = st in
      rbind (NewRequest po kServerGroup c) (\<lambda>(ts, c1).
        let f = Pull_Callback keys (lens \<noteq> None) vals (case lens of None \<Rightarrow> [] | Some l \<Rightarrow> l) cb in
        rbind (kw_Send w V (fst (GetServerKeyRanges po)) ts False cmd (KVPairs\<lparr>kv_keys := keys\<rparr>)
                (c1, AddCallback ts (Some f) kw))
          (\<lambda>(msgs, st1). Inr (ts, msgs, st1))))"

text \<open>The interface of the application: arrays are copied, which is not seen in lists. The constructor reads
  \<open>DMLC_ENABLE_RDMA\<close> in a block for \<open>USE_PROFILING\<close>, which \<open>kv_app.h\<close> itself defines (line 18).\<close>

definition new_KVWorker :: "nat \<Rightarrow> ps_env \<Rightarrow> int \<Rightarrow> int \<Rightarrow> postoffice \<Rightarrow> ((customer \<times> kv_worker) \<times> postoffice) res" where
  "new_KVWorker p e app_id customer_id po =
     rbind (new_Customer p app_id customer_id po) (\<lambda>(c, po1).
       Inr ((c, \<lparr>kw_recv_kvs = (\<lambda>_. []), kw_callbacks = Map.empty, kw_zpull = (GetEnv e ''DMLC_ENABLE_RDMA'' 0 \<noteq> 0),
                 kw_out = Map.empty, kw_ran = []\<rparr>), po1))"

definition Push :: "nat \<Rightarrow> elem_type \<Rightarrow> postoffice \<Rightarrow> nat list \<Rightarrow> nat list \<Rightarrow> int list \<Rightarrow> int \<Rightarrow> nat option \<Rightarrow> customer \<times> kv_worker
    \<Rightarrow> (int \<times> message list \<times> customer \<times> kv_worker) res" where
  "Push w V po keys vals lens cmd cb st = ZPush w V po \<lparr>kv_keys = keys, kv_vals = vals, kv_lens = lens\<rparr> cmd cb st"

definition Pull :: "nat \<Rightarrow> elem_type \<Rightarrow> postoffice \<Rightarrow> nat list \<Rightarrow> nat list \<Rightarrow> int list option \<Rightarrow> int \<Rightarrow> nat option
    \<Rightarrow> customer \<times> kv_worker \<Rightarrow> (int \<times> message list \<times> customer \<times> kv_worker) res" where
  "Pull w V po keys vals lens cmd cb st = Pull_internal w V po keys vals lens cmd cb st"

definition ZPull :: "nat \<Rightarrow> elem_type \<Rightarrow> postoffice \<Rightarrow> nat list \<Rightarrow> nat list \<Rightarrow> int list option \<Rightarrow> int \<Rightarrow> nat option
    \<Rightarrow> customer \<times> kv_worker \<Rightarrow> (int \<times> message list \<times> customer \<times> kv_worker) res" where
  "ZPull w V po keys vals lens cmd cb st = Pull_internal w V po keys vals lens cmd cb st"

definition kw_Wait :: "customer \<times> kv_worker \<Rightarrow> int \<Rightarrow> bool res" where
  "kw_Wait st ts = WaitRequest (fst st) ts"

text \<open>\<open>KVWorker::Process\<close>; \<open>simple\<close> is \<open>SimpleApp::Process\<close> with the handles of the application.\<close>

definition store_answer :: "nat \<Rightarrow> message \<Rightarrow> kv_worker \<Rightarrow> kv_worker res" where
  "store_answer w msg kw =
     (let ts = me_timestamp (mg_meta msg); d = mg_data msg in
      if \<not> me_push (mg_meta msg) \<and> d \<noteq> [] then
        rbind (check (length d \<ge> 2) ''msg.data.size() >= 2'') (\<lambda>_.
        rbind (cast_array 8 (d ! 0)) (\<lambda>keys.
        rbind (cast_array w (d ! 1)) (\<lambda>vals.
        rbind (if length d > 2 then cast_lens (d ! 2) else Inr []) (\<lambda>lens.
          Inr (kw\<lparr>kw_recv_kvs := (kw_recv_kvs kw)(ts := kw_recv_kvs kw ts @ [\<lparr>kv_keys = keys, kv_vals = vals, kv_lens = lens\<rparr>])\<rparr>)))))
      else Inr kw)"

definition kw_Process :: "nat \<Rightarrow> int \<Rightarrow> kv_worker handle \<Rightarrow> kv_worker handle" where
  "kw_Process w num_servers simple msg st =
     (if me_simple_app (mg_meta msg) then simple msg st
      else let (c, kw) = st; ts = me_timestamp (mg_meta msg) in
        rbind (store_answer w msg kw) (\<lambda>kw1.
        rbind (NumResponse c ts) (\<lambda>k.
        rbind (if k = num_servers - 1 then RunCallback ts kw1 else Inr kw1) (\<lambda>kw2. Inr (c, kw2)))))"

section \<open>Servers\<close>

record kv_meta =
  km_cmd :: int
  km_push :: bool
  km_sender :: int
  km_timestamp :: int
  km_customer_id :: int
  km_key :: nat

type_synonym 's req_handle = "kv_meta \<Rightarrow> nat kvpairs \<Rightarrow> 's \<Rightarrow> (message list \<times> 's) res"

definition ks_Process :: "nat \<Rightarrow> (message \<Rightarrow> 's \<Rightarrow> (message list \<times> 's) res) \<Rightarrow> 's req_handle
    \<Rightarrow> message \<Rightarrow> 's \<Rightarrow> (message list \<times> 's) res" where
  "ks_Process w simple request_handle msg s =
     (if me_simple_app (mg_meta msg) then simple msg s
      else let m = mg_meta msg; d = mg_data msg;
          km = \<lparr>km_cmd = me_head m, km_push = me_push m, km_sender = me_sender m, km_timestamp = me_timestamp m,
                km_customer_id = me_customer_id m, km_key = me_key m\<rparr>
      in rbind (if d = [] then Inr KVPairs
                else rbind (check (length d \<ge> 2) ''n >= 2'') (\<lambda>_.
                     rbind (cast_array 8 (d ! 0)) (\<lambda>keys.
                     rbind (cast_array w (d ! 1)) (\<lambda>vals.
                       if length d > 2 then
                         rbind (check (length d = 3) ''n == 3'') (\<lambda>_.
                         rbind (cast_lens (d ! 2)) (\<lambda>lens.
                         rbind (check (length lens = length keys) ''data.lens.size() == data.keys.size()'') (\<lambda>_.
                           Inr \<lparr>kv_keys = keys, kv_vals = vals, kv_lens = lens\<rparr>)))
                       else Inr \<lparr>kv_keys = keys, kv_vals = vals, kv_lens = []\<rparr>))))
           (\<lambda>data. request_handle km data s))"

definition ks_Response :: "nat \<Rightarrow> elem_type \<Rightarrow> int \<Rightarrow> kv_meta \<Rightarrow> nat kvpairs \<Rightarrow> message res" where
  "ks_Response w V app_id req res =
     add_kvs w V res
       \<lparr>mg_meta = Meta\<lparr>me_app_id := app_id, me_customer_id := km_customer_id req, me_request := False,
          me_push := km_push req, me_head := km_cmd req, me_timestamp := km_timestamp req,
          me_recver := km_sender req, me_key := km_key req\<rparr>, mg_data = []\<rparr>"

definition new_KVServer :: "nat \<Rightarrow> int \<Rightarrow> postoffice \<Rightarrow> (customer \<times> postoffice) res" where
  "new_KVServer p app_id po = new_Customer p app_id app_id po"

text \<open>\<open>KVServerDefaultHandle\<close>; \<open>add\<close> is the addition of values.\<close>

definition store_get :: "(nat \<rightharpoonup> nat) \<Rightarrow> nat \<Rightarrow> nat" where
  "store_get st key = (case st key of None \<Rightarrow> 0 | Some v \<Rightarrow> v)"

definition store_push :: "(nat \<Rightarrow> nat \<Rightarrow> nat) \<Rightarrow> nat \<times> nat \<Rightarrow> (nat \<rightharpoonup> nat) \<Rightarrow> (nat \<rightharpoonup> nat)" where
  "store_push add kv st = st(fst kv \<mapsto> add (store_get st (fst kv)) (snd kv))"

definition store_touch :: "nat \<Rightarrow> (nat \<rightharpoonup> nat) \<Rightarrow> (nat \<rightharpoonup> nat)" where
  "store_touch key st = st(key \<mapsto> store_get st key)"

definition DefaultHandle :: "nat \<Rightarrow> elem_type \<Rightarrow> int \<Rightarrow> (nat \<Rightarrow> nat \<Rightarrow> nat) \<Rightarrow> (nat \<rightharpoonup> nat) req_handle" where
  "DefaultHandle w V app_id add req data st =
     (let keys = kv_keys data in
      if km_push req then
        rbind (check (length keys = length (kv_vals data)) ''n == req_data.vals.size()'') (\<lambda>_.
        rbind (ks_Response w V app_id req KVPairs) (\<lambda>m.
          Inr ([m], fold (store_push add) (zip keys (kv_vals data)) st)))
      else
        rbind (ks_Response w V app_id req (KVPairs\<lparr>kv_keys := keys, kv_vals := map (store_get st) keys\<rparr>)) (\<lambda>m.
          Inr ([m], fold store_touch keys st)))"

section \<open>Slices\<close>

text \<open>The values of a key-value list, cut by their lengths.\<close>

fun split_lens :: "nat list \<Rightarrow> 'v list \<Rightarrow> 'v list list" where
  "split_lens [] vs = []"
| "split_lens (l # ls) vs = take l vs # split_lens ls (drop l vs)"

definition val_lens :: "nat \<Rightarrow> 'v kvpairs \<Rightarrow> nat list" where
  "val_lens k kvs = (if kv_lens kvs = [] then replicate (length (kv_keys kvs)) k else map nat (kv_lens kvs))"

definition kv_entries :: "nat \<Rightarrow> 'v kvpairs \<Rightarrow> (nat \<times> 'v list) list" where
  "kv_entries k kvs = zip (kv_keys kvs) (split_lens (val_lens k kvs) (kv_vals kvs))"

text \<open>Well-formed lists: ordered 64-bit keys, and the lengths of the values add up.\<close>

definition kv_wf :: "nat \<Rightarrow> 'v kvpairs \<Rightarrow> bool" where
  "kv_wf k kvs \<longleftrightarrow> sorted (kv_keys kvs) \<and> length (val_lens k kvs) = length (kv_keys kvs)
     \<and> sum_list (val_lens k kvs) = length (kv_vals kvs) \<and> length (kv_vals kvs) < 2 ^ 64
     \<and> list_all (\<lambda>l. 0 \<le> l \<and> l < 2 ^ 31) (kv_lens kvs)"

definition kv_cut :: "nat list \<Rightarrow> 'v kvpairs \<Rightarrow> nat \<Rightarrow> nat \<Rightarrow> 'v kvpairs" where
  "kv_cut ls kvs p q =
     \<lparr>kv_keys = take (q - p) (drop p (kv_keys kvs)),
      kv_vals = take (sum_list (take (q - p) (drop p ls))) (drop (sum_list (take p ls)) (kv_vals kvs)),
      kv_lens = take (q - p) (drop p (kv_lens kvs))\<rparr>"

lemma length_split_lens [simp]: "length (split_lens ls vs) = length ls"
  by (induction ls arbitrary: vs) auto

lemma take_split_lens: "take n (split_lens ls vs) = split_lens (take n ls) (take (sum_list (take n ls)) vs)"
proof (induction ls arbitrary: n vs)
  case (Cons l ls)
  then show ?case by (cases n) (simp_all add: drop_take)
qed simp

lemma drop_split_lens: "drop n (split_lens ls vs) = split_lens (drop n ls) (drop (sum_list (take n ls)) vs)"
proof (induction ls arbitrary: n vs)
  case (Cons l ls)
  then show ?case by (cases n) (simp_all add: add.commute)
qed simp

lemma concat_split_lens: "sum_list ls = length vs \<Longrightarrow> concat (split_lens ls vs) = vs"
  by (induction ls arbitrary: vs) auto

lemma sum_take_le: "sum_list (take n ls) \<le> sum_list (ls :: nat list)"
  using sum_list_append [of "take n ls" "drop n ls"] by simp

lemma sum_take_add: "sum_list (take (p + n) ls) = sum_list (take p ls) + sum_list (take n (drop p (ls :: nat list)))"
  by (simp add: take_add)

lemma val_lens_cut:
  assumes "length (val_lens k kvs) = length (kv_keys kvs)" and "p < q" and "q \<le> length (kv_keys kvs)"
  shows "val_lens k (kv_cut (val_lens k kvs) kvs p q) = take (q - p) (drop p (val_lens k kvs))"
  using assms by (auto simp: val_lens_def kv_cut_def take_map drop_map)

lemma entries_cut:
  assumes "length (val_lens k kvs) = length (kv_keys kvs)" and "p < q" and "q \<le> length (kv_keys kvs)"
  shows "kv_entries k (kv_cut (val_lens k kvs) kvs p q) = take (q - p) (drop p (kv_entries k kvs))"
  unfolding kv_entries_def val_lens_cut [OF assms]
  by (simp add: kv_cut_def take_zip drop_zip take_split_lens drop_split_lens)

lemma fold_lens:
  assumes "list_all (\<lambda>l. 0 \<le> l \<and> l < 2 ^ 31) lens" and "vb + sum_list (map nat lens) < 2 ^ 64"
  shows "fold (\<lambda>l v. u64 (v + u64_of_int l)) lens vb = vb + sum_list (map nat lens)"
  using assms
proof (induction lens arbitrary: vb)
  case (Cons l lens)
  then have "u64 (vb + u64_of_int l) = vb + nat l" by (simp add: u64_of_int_def cast_simps)
  with Cons show ?case by (simp add: add.assoc)
qed simp

lemma segment_ok: "b \<le> e \<Longrightarrow> e \<le> length xs \<Longrightarrow> segment xs b e = Inr (take (e - b) (drop b xs))"
  by (simp add: segment_def)

text \<open>The slices between consecutive positions.\<close>

fun cuts :: "nat list \<Rightarrow> 'v kvpairs \<Rightarrow> nat \<Rightarrow> nat list \<Rightarrow> (bool \<times> 'v kvpairs) list" where
  "cuts ls kvs p [] = []"
| "cuts ls kvs p (q # ps) = (if q = p then (False, KVPairs) else (True, kv_cut ls kvs p q)) # cuts ls kvs q ps"

lemma slice_loop_ok:
  assumes wf: "kv_wf k kvs" and "sorted (p # ps)" and "list_all (\<lambda>q. q \<le> length (kv_keys kvs)) ps"
    and "kv_lens kvs \<noteq> [] \<Longrightarrow> vb = sum_list (take p (val_lens k kvs))"
  shows "slice_loop kvs k vb p ps = Inr (cuts (val_lens k kvs) kvs p ps)"
  using assms(2-)
proof (induction ps arbitrary: p vb)
  case (Cons q ps)
  let ?ls = "val_lens k kvs"
  have ls: "length ?ls = length (kv_keys kvs)" "sum_list ?ls = length (kv_vals kvs)" "length (kv_vals kvs) < 2 ^ 64"
    using wf by (simp_all add: kv_wf_def)
  show ?case
  proof (cases "q = p")
    case True
    with Cons.IH [of p vb] Cons.prems show ?thesis by simp
  next
    case False
    with Cons.prems have pq: "p < q" "q \<le> length (kv_keys kvs)" by auto
    have sq: "sum_list (take q ?ls) = sum_list (take p ?ls) + sum_list (take (q - p) (drop p ?ls))"
      using sum_take_add [of p "q - p" ?ls] pq by simp
    have le: "sum_list (take q ?ls) \<le> length (kv_vals kvs)" using sum_take_le [of q ?ls] ls(2) by simp
    have keys: "segment (kv_keys kvs) p q = Inr (kv_keys (kv_cut ?ls kvs p q))"
      using pq by (simp add: segment_ok kv_cut_def)
    show ?thesis
    proof (cases "kv_lens kvs = []")
      case True
      have st: "sum_list (take n ?ls) = n * k" if "n \<le> length (kv_keys kvs)" for n
        using True that by (simp add: val_lens_def sum_list_replicate)
      have u: "u64 (p * k) = p * k" "u64 (q * k) = q * k"
        using st [of p] st [of q] le sum_take_le [of p ?ls] ls pq by (simp_all add: cast_simps)
      have d: "q * k - p * k = sum_list (take (q - p) (drop p ?ls))" using sq st [of p] st [of q] pq by simp
      have "segment (kv_vals kvs) (u64 (p * k)) (u64 (q * k)) = Inr (kv_vals (kv_cut ?ls kvs p q))"
        unfolding u using st [of p] st [of q] le pq by (simp add: segment_ok kv_cut_def d)
      moreover have "kv_lens (kv_cut ?ls kvs p q) = []" using True by (simp add: kv_cut_def)
      ultimately show ?thesis
        using keys True False Cons.IH [of q vb] Cons.prems by simp
    next
      case lens: False
      have le32: "list_all (\<lambda>l. 0 \<le> l \<and> l < 2 ^ 31) (take (q - p) (drop p (kv_lens kvs)))"
        using wf by (auto simp: kv_wf_def list_all_iff dest!: in_set_takeD in_set_dropD)
      have m: "map nat (take (q - p) (drop p (kv_lens kvs))) = take (q - p) (drop p ?ls)"
        using lens by (simp add: val_lens_def take_map drop_map)
      have vb: "vb = sum_list (take p ?ls)" using Cons.prems(3) lens by simp
      have ve: "fold (\<lambda>l v. u64 (v + u64_of_int l)) (take (q - p) (drop p (kv_lens kvs))) vb = sum_list (take q ?ls)"
        using fold_lens [OF le32, of vb] sq vb le ls(3) by (simp add: m)
      have llen: "q \<le> length (kv_lens kvs)" using ls(1) lens pq(2) by (simp add: val_lens_def)
      have "segment (kv_lens kvs) p q = Inr (take (q - p) (drop p (kv_lens kvs)))"
        using pq(1) llen by (simp add: segment_ok)
      moreover have "segment (kv_vals kvs) (sum_list (take p ?ls)) (sum_list (take q ?ls)) = Inr (kv_vals (kv_cut ?ls kvs p q))"
        using sq le by (simp add: segment_ok kv_cut_def)
      moreover have "slice_loop kvs k (sum_list (take q ?ls)) q ps = Inr (cuts ?ls kvs q ps)"
        using Cons.prems by (intro Cons.IH) auto
      ultimately show ?thesis
        using keys lens False by (simp add: ve [unfolded vb] vb Let_def kv_cut_def)
    qed
  qed
qed simp

section \<open>Slicing by key ranges\<close>

text \<open>Ranges that follow on one another, the first starting at \<open>b\<close>.\<close>

fun chained :: "nat \<Rightarrow> range list \<Rightarrow> bool" where
  "chained b [] = True"
| "chained b (r # rs) \<longleftrightarrow> rg_begin r = b \<and> b \<le> rg_end r \<and> chained (rg_end r) rs"

lemma lower_bound_drop:
  assumes "sorted keys" and "b \<le> e"
  shows "lower_bound keys b + lower_bound (drop (lower_bound keys b) keys) e = lower_bound keys e"
proof -
  have "filter (\<lambda>x. x < e) keys = filter (\<lambda>x. x < b) keys @ filter (\<lambda>x. x < e) (filter (\<lambda>x. b \<le> x) keys)"
    using assms
  proof (induction keys)
    case (Cons x xs)
    then show ?case
    proof (cases "x < b")
      case False
      with Cons.prems have "filter (\<lambda>x. x < b) xs = []" "filter (\<lambda>x. b \<le> x) xs = xs"
        by (auto simp: filter_empty_conv filter_id_conv)
      with False show ?thesis by simp
    qed auto
  qed simp
  then have "length (filter (\<lambda>x. x < e) keys) = length (filter (\<lambda>x. x < b) keys) + length (filter (\<lambda>x. x < e) (filter (\<lambda>x. b \<le> x) keys))"
    by (metis length_append)
  moreover have "lower_bound keys b = length (filter (\<lambda>x. x < b) keys)" "lower_bound keys e = length (filter (\<lambda>x. x < e) keys)"
    using assms(1) by (simp_all add: lower_bound_def sorted_takeWhile_filter)
  moreover have "lower_bound (drop (lower_bound keys b) keys) e = length (filter (\<lambda>x. x < e) (filter (\<lambda>x. b \<le> x) keys))"
  proof -
    have "drop (lower_bound keys b) keys = filter (\<lambda>x. b \<le> x) keys"
      by (simp only: drop_lower_bound sorted_dropWhile_filter [OF assms(1)])
    then show ?thesis
      using assms(1) by (simp only: lower_bound_def sorted_takeWhile_filter sorted_wrt_filter)
  qed
  ultimately show ?thesis by simp
qed

lemma slicer_pos_ok:
  assumes "sorted keys" and "chained b rs" and "prev = None \<or> prev = Some b"
  shows "slicer_pos keys (lower_bound keys b) prev rs = Inr (map (lower_bound keys \<circ> rg_end) rs)"
  using assms(2,3)
proof (induction rs arbitrary: b prev)
  case (Cons r rs)
  then have "lower_bound keys b + lower_bound (drop (lower_bound keys b) keys) (rg_end r) = lower_bound keys (rg_end r)"
    using lower_bound_drop [OF assms(1)] by simp
  with Cons show ?case by (auto simp: Let_def)
qed simp

lemma positions_ok:
  assumes "chained b rs"
  shows "sorted (lower_bound keys b # map (lower_bound keys \<circ> rg_end) rs)"
    and "list_all (\<lambda>q. q \<le> length keys) (map (lower_bound keys \<circ> rg_end) rs)"
proof -
  show "sorted (lower_bound keys b # map (lower_bound keys \<circ> rg_end) rs)"
    using assms
  proof (induction rs arbitrary: b)
    case (Cons r rs)
    have "sorted (lower_bound keys (rg_end r) # map (lower_bound keys \<circ> rg_end) rs)"
      using Cons.prems by (intro Cons.IH) simp
    moreover have "lower_bound keys b \<le> lower_bound keys (rg_end r)" using Cons.prems by (simp add: lower_bound_mono)
    ultimately show ?case by (auto simp: comp_def)
  qed simp
  show "list_all (\<lambda>q. q \<le> length keys) (map (lower_bound keys \<circ> rg_end) rs)"
    by (simp add: list_all_iff lower_bound_le)
qed

text \<open>The end of chained ranges.\<close>

definition chain_end :: "nat \<Rightarrow> range list \<Rightarrow> nat" where
  "chain_end b rs = (if rs = [] then b else rg_end (last rs))"

lemma chain_end_simps [simp]: "chain_end b [] = b" "chain_end b (r # rs) = chain_end (rg_end r) rs"
  by (simp_all add: chain_end_def)

lemma last_position:
  "last (lower_bound keys b # map (lower_bound keys \<circ> rg_end) rs) = lower_bound keys (chain_end b rs)"
  by (induction rs arbitrary: b) auto

lemma lower_bound_all: "sorted keys \<Longrightarrow> lower_bound keys e = length keys \<longleftrightarrow> (\<forall>k \<in> set keys. k < e)"
proof -
  assume "sorted keys"
  then have "lower_bound keys e = length (filter (\<lambda>k. k < e) keys)" by (simp add: lower_bound_def sorted_takeWhile_filter)
  then show ?thesis
    by (metis filter_True filter_id_conv length_filter_less nat_less_le)
qed

text \<open>A slice between two positions is the sublist of the entries with keys in the range.\<close>

lemma map_fst_entries: "length (val_lens k kvs) = length (kv_keys kvs) \<Longrightarrow> map fst (kv_entries k kvs) = kv_keys kvs"
  by (simp add: kv_entries_def)

lemma filter_by_fst:
  assumes "sorted (map fst ps)" and "lo \<le> up"
  shows "filter (\<lambda>x. lo \<le> fst x \<and> fst x < up) ps
    = take (lower_bound (map fst ps) up - lower_bound (map fst ps) lo) (drop (lower_bound (map fst ps) lo) ps)"
  using assms(1)
proof (induction ps)
  case Nil
  then show ?case by simp
next
  case (Cons x ps)
  let ?ks = "map fst ps"
  have tail: "fst x \<le> fst y" if "y \<in> set ps" for y using Cons.prems that by auto
  show ?case
  proof (cases "fst x < lo")
    case True
    then have "fst x < up" using assms(2) by simp
    with True Cons show ?thesis by (simp add: lower_bound_def)
  next
    case ge: False
    show ?thesis
    proof (cases "fst x < up")
      case True
      have "lower_bound ?ks lo = 0"
        using ge tail by (cases ps) (force simp: lower_bound_def)+
      with Cons ge True show ?thesis by (simp add: lower_bound_def)
    next
      case False
      then have "filter (\<lambda>x. lo \<le> fst x \<and> fst x < up) ps = []" using tail by (fastforce simp: filter_empty_conv)
      with ge False show ?thesis by (simp add: lower_bound_def)
    qed
  qed
qed

definition slice_of :: "nat \<Rightarrow> 'v kvpairs \<Rightarrow> range \<Rightarrow> bool \<times> 'v kvpairs" where
  "slice_of k kvs r =
     (let p = lower_bound (kv_keys kvs) (rg_begin r); q = lower_bound (kv_keys kvs) (rg_end r) in
      if q = p then (False, KVPairs) else (True, kv_cut (val_lens k kvs) kvs p q))"

lemma cuts_slices:
  "chained b rs \<Longrightarrow> cuts (val_lens k kvs) kvs (lower_bound (kv_keys kvs) b) (map (lower_bound (kv_keys kvs) \<circ> rg_end) rs)
    = map (slice_of k kvs) rs"
  by (induction rs arbitrary: b) (simp_all add: slice_of_def Let_def)

lemma slice_of_entries:
  assumes "kv_wf k kvs" and "rg_begin r \<le> rg_end r"
  shows "kv_entries k (snd (slice_of k kvs r)) = filter (\<lambda>e. in_range (fst e) r) (kv_entries k kvs)"
    and "fst (slice_of k kvs r) \<longleftrightarrow> filter (\<lambda>key. in_range key r) (kv_keys kvs) \<noteq> []"
    and "kv_keys (snd (slice_of k kvs r)) = filter (\<lambda>key. in_range key r) (kv_keys kvs)"
proof -
  let ?ks = "kv_keys kvs"
  let ?p = "lower_bound ?ks (rg_begin r)" and ?q = "lower_bound ?ks (rg_end r)"
  have s: "sorted ?ks" and l: "length (val_lens k kvs) = length ?ks" using assms(1) by (simp_all add: kv_wf_def)
  have pq: "?p \<le> ?q" "?q \<le> length ?ks" using assms(2) by (simp_all add: lower_bound_mono lower_bound_le)
  have "filter (\<lambda>e. in_range (fst e) r) (kv_entries k kvs) = take (?q - ?p) (drop ?p (kv_entries k kvs))"
    using filter_by_fst [of "kv_entries k kvs" "rg_begin r" "rg_end r"] s assms(2)
    by (simp add: map_fst_entries [OF l] in_range_def)
  moreover have "kv_entries k (KVPairs :: 'a kvpairs) = []" by (simp add: kv_entries_def KVPairs_def)
  ultimately show "kv_entries k (snd (slice_of k kvs r)) = filter (\<lambda>e. in_range (fst e) r) (kv_entries k kvs)"
    using entries_cut [OF l, of ?p ?q] pq by (simp add: slice_of_def Let_def)
  have f: "filter (\<lambda>key. in_range key r) ?ks = take (?q - ?p) (drop ?p ?ks)"
    using slice_between [OF s assms(2)] by (simp add: in_range_def)
  show "fst (slice_of k kvs r) \<longleftrightarrow> filter (\<lambda>key. in_range key r) ?ks \<noteq> []"
    unfolding f using pq by (auto simp: slice_of_def Let_def)
  show "kv_keys (snd (slice_of k kvs r)) = filter (\<lambda>key. in_range key r) ?ks"
    unfolding f by (auto simp: slice_of_def Let_def kv_cut_def KVPairs_def)
qed

lemma chain_end_ge: "chained b rs \<Longrightarrow> b \<le> chain_end b rs"
  by (induction rs arbitrary: b) (auto intro: order_trans)

lemma filter_adjacent:
  assumes "sorted (map fst es)" and "b \<le> m" and "m \<le> e"
  shows "filter (\<lambda>x. b \<le> fst x \<and> fst x < m) es @ filter (\<lambda>x. m \<le> fst x \<and> fst x < e) es
    = filter (\<lambda>x. b \<le> fst x \<and> fst x < (e :: nat)) es"
  using assms(1)
proof (induction es)
  case (Cons x es)
  show ?case
  proof (cases "fst x < m")
    case True
    with Cons assms(3) show ?thesis by auto
  next
    case False
    with Cons.prems have "\<forall>y \<in> set es. m \<le> fst y" by auto
    then have "filter (\<lambda>x. b \<le> fst x \<and> fst x < m) es = []" by (auto simp: filter_empty_conv)
    with Cons False assms(2) show ?thesis by auto
  qed
qed simp

lemma concat_ranges:
  assumes "sorted (map fst es)" and "chained b rs"
  shows "concat (map (\<lambda>r. filter (\<lambda>x. in_range (fst x) r) es) rs) = filter (\<lambda>x. b \<le> fst x \<and> fst x < chain_end b rs) es"
  using assms(2)
proof (induction rs arbitrary: b)
  case Nil
  then show ?case by (auto simp: filter_empty_conv)
next
  case (Cons r rs)
  then have "rg_begin r = b" "b \<le> rg_end r" "rg_end r \<le> chain_end (rg_end r) rs" using chain_end_ge by auto
  with Cons filter_adjacent [OF assms(1), of b "rg_end r" "chain_end (rg_end r) rs"] show ?case
    by (simp add: in_range_def)
qed

lemma lower_bound_0 [simp]: "lower_bound xs 0 = 0"
  by (cases xs) (simp_all add: lower_bound_def)

lemma DefaultSlicer_eq:
  assumes wf: "kv_wf k kvs" and ch: "chained 0 rs" and "rs \<noteq> []"
  shows "DefaultSlicer kvs rs =
    (if \<forall>key \<in> set (kv_keys kvs). key < chain_end 0 rs then Inr (map (slice_of k kvs) rs)
     else Inl (Check_Failed ''pos[n] == send.keys.size()''))"
proof -
  let ?ks = "kv_keys kvs"
  let ?ps = "map (lower_bound ?ks \<circ> rg_end) rs"
  have s: "sorted ?ks" using wf by (simp add: kv_wf_def)
  obtain r rs' where rs: "rs = r # rs'" using assms(3) by (cases rs) auto
  then have p0: "(case rs of [] \<Rightarrow> 0 | r # _ \<Rightarrow> lower_bound ?ks (rg_begin r)) = lower_bound ?ks 0" using ch by simp
  have lst: "last (lower_bound ?ks 0 # ?ps) = length ?ks \<longleftrightarrow> (\<forall>key \<in> set ?ks. key < chain_end 0 rs)"
    by (simp only: last_position lower_bound_all [OF s])
  define k0 where "k0 = (if kv_lens kvs = [] then length (kv_vals kvs) div length ?ks else 0)"
  have run: "DefaultSlicer kvs rs =
     (if \<forall>key \<in> set ?ks. key < chain_end 0 rs then
        if ?ks = [] then Inr (map (\<lambda>_. (False, KVPairs)) rs)
        else rbind (if kv_lens kvs = [] then check (u64 (k0 * length ?ks) = length (kv_vals kvs)) ''k * send.keys.size() == send.vals.size()''
                    else check (length ?ks = length (kv_lens kvs)) ''send.keys.size() == send.lens.size()'')
               (\<lambda>_. slice_loop kvs k0 0 (lower_bound ?ks 0) ?ps)
      else Inl (Check_Failed ''pos[n] == send.keys.size()''))"
    unfolding DefaultSlicer_def Let_def p0 slicer_pos_ok [OF s ch disjI1 [OF refl]] k0_def [symmetric] rbind_Inr lst
    by (simp add: rbind_check)
  show ?thesis
  proof (cases "?ks = []")
    case True
    have "slice_of k kvs r = (False, KVPairs)" for r by (simp add: slice_of_def True lower_bound_def)
    with True run show ?thesis by simp
  next
    case False
    have k: "kv_wf k0 kvs \<and> val_lens k0 kvs = val_lens k kvs
      \<and> (kv_lens kvs = [] \<longrightarrow> u64 (k0 * length ?ks) = length (kv_vals kvs)) \<and> (kv_lens kvs \<noteq> [] \<longrightarrow> length ?ks = length (kv_lens kvs))"
    proof (cases "kv_lens kvs = []")
      case True
      with wf have "length ?ks * k = length (kv_vals kvs)" by (simp add: kv_wf_def val_lens_def sum_list_replicate)
      then have "length (kv_vals kvs) div length ?ks = k" using False
        by (metis length_greater_0_conv nonzero_mult_div_cancel_left less_numeral_extra(3))
      with True wf \<open>length ?ks * k = length (kv_vals kvs)\<close> show ?thesis
        by (simp add: k0_def kv_wf_def cast_simps mult.commute)
    next
      case False
      with wf show ?thesis by (auto simp: k0_def kv_wf_def val_lens_def)
    qed
    have "slice_loop kvs k0 0 (lower_bound ?ks 0) ?ps = Inr (map (slice_of k kvs) rs)"
      using slice_loop_ok [of k0 kvs "lower_bound ?ks 0" ?ps 0] positions_ok [OF ch, of ?ks] k cuts_slices [OF ch, of k kvs]
      by simp
    with run k False show ?thesis by simp
  qed
qed

text \<open>What the slices of a list are to be.\<close>

definition slices_ok :: "nat \<Rightarrow> 'v kvpairs \<Rightarrow> range list \<Rightarrow> (bool \<times> 'v kvpairs) list \<Rightarrow> bool" where
  "slices_ok k kvs rs sl \<longleftrightarrow> length sl = length rs
     \<and> (\<forall>i < length rs. kv_entries k (snd (sl ! i)) = filter (\<lambda>e. in_range (fst e) (rs ! i)) (kv_entries k kvs)
          \<and> kv_keys (snd (sl ! i)) = filter (\<lambda>key. in_range key (rs ! i)) (kv_keys kvs)
          \<and> (fst (sl ! i) \<longleftrightarrow> kv_keys (snd (sl ! i)) \<noteq> []))
     \<and> concat (map (kv_entries k \<circ> snd) sl) = kv_entries k kvs"

lemma chained_range_le: "chained b rs \<Longrightarrow> r \<in> set rs \<Longrightarrow> rg_begin r \<le> rg_end r"
  by (induction rs arbitrary: b) auto

lemma slices_of_ok:
  assumes "kv_wf k kvs" and "chained 0 rs" and all: "\<forall>key \<in> set (kv_keys kvs). key < chain_end 0 rs"
  shows "slices_ok k kvs rs (map (slice_of k kvs) rs)"
proof -
  let ?es = "kv_entries k kvs"
  have fst: "map fst ?es = kv_keys kvs" and s: "sorted (map fst ?es)"
    using assms(1) map_fst_entries [of k kvs] by (simp_all add: kv_wf_def)
  note sl = slice_of_entries [OF assms(1) chained_range_le [OF assms(2)]]
  have "concat (map (kv_entries k \<circ> snd) (map (slice_of k kvs) rs)) = concat (map (\<lambda>r. filter (\<lambda>x. in_range (fst x) r) ?es) rs)"
    using sl(1) by (simp add: comp_def cong: map_cong)
  also have "\<dots> = filter (\<lambda>x. 0 \<le> fst x \<and> fst x < chain_end 0 rs) ?es" by (rule concat_ranges [OF s assms(2)])
  also have "\<dots> = ?es" using all by (auto simp: filter_id_conv fst [symmetric])
  finally show ?thesis using sl by (simp add: slices_ok_def)
qed

text \<open>C17: The default slicer partitions a key-value list by the key ranges of the servers. When every key lies
  below the end of the last range, slice \<open>i\<close> holds exactly the entries (key and value) whose key lies
  in range \<open>i\<close>, in order, and is marked to be sent if and only if there are any; the slices together
  are the list. Otherwise the slicer fails its check, and nothing is sent.\<close>

theorem slicer_partition:
  assumes "kv_wf k kvs" and "chained 0 rs" and "rs \<noteq> []"
  shows "if \<forall>key \<in> set (kv_keys kvs). key < chain_end 0 rs
    then \<exists>sl. DefaultSlicer kvs rs = Inr sl \<and> slices_ok k kvs rs sl
    else DefaultSlicer kvs rs = Inl (Check_Failed ''pos[n] == send.keys.size()'')"
  using DefaultSlicer_eq [OF assms] slices_of_ok [OF assms(1,2)] by simp

theorem slicer_partition_witness:
  "\<exists>sl. DefaultSlicer \<lparr>kv_keys = [3, 5, 12], kv_vals = [30, 31, 50, 51, 120, 121 :: nat], kv_lens = []\<rparr> [Range 0 10, Range 10 20] = Inr sl
    \<and> slices_ok 2 \<lparr>kv_keys = [3, 5, 12], kv_vals = [30, 31, 50, 51, 120, 121], kv_lens = []\<rparr> [Range 0 10, Range 10 20] sl"
proof -
  let ?kvs = "\<lparr>kv_keys = [3, 5, 12], kv_vals = [30, 31, 50, 51, 120, 121 :: nat], kv_lens = []\<rparr>"
  let ?rs = "[Range 0 10, Range 10 20]"
  have "kv_wf 2 ?kvs" "chained 0 ?rs" "?rs \<noteq> []" by (simp_all add: kv_wf_def val_lens_def Range_def numeral_3_eq_3)
  moreover have "\<forall>key \<in> set (kv_keys ?kvs). key < chain_end 0 ?rs" by (simp add: Range_def)
  ultimately show ?thesis using slicer_partition [of 2 ?kvs ?rs] by simp
qed

section \<open>Bytes of arrays\<close>

lemma cast_array_bytes:
  assumes "0 < w" and "list_all (\<lambda>v. v < 256 ^ w) vs"
  shows "cast_array w (concat (map (le_bytes w) vs)) = Inr vs"
proof -
  let ?bs = "concat (map (le_bytes w) vs)"
  have len: "length ?bs = length vs * w" by (rule length_concat_const) simp
  have "field_at ?bs (i * w) w = vs ! i" if "i < length vs" for i
  proof -
    have "drop (0 + i * w) ([] @ ?bs @ []) = le_bytes w (vs ! i) @ concat (map (le_bytes w) (drop (Suc i) vs)) @ []"
      using that by (intro drop_nth_record) simp_all
    then show ?thesis
      using assms(2) that by (simp add: field_at_def le_val_le_bytes list_all_length)
  qed
  then have "map (\<lambda>i. field_at ?bs (i * w) w) [0..<length vs] = vs"
    by (intro nth_equalityI) simp_all
  then show ?thesis using assms(1) by (simp add: cast_array_def len)
qed

lemma cast_key_bytes: "list_all (\<lambda>k. k < 2 ^ 64) ks \<Longrightarrow> cast_array 8 (key_bytes ks) = Inr ks"
  unfolding key_bytes_def by (rule cast_array_bytes) simp_all

lemma cast_val_bytes: "0 < w \<Longrightarrow> list_all (\<lambda>v. v < 256 ^ w) vs \<Longrightarrow> cast_array w (val_bytes w vs) = Inr vs"
  unfolding val_bytes_def by (rule cast_array_bytes)

lemma cast_len_bytes: "list_all wf_int ls \<Longrightarrow> cast_lens (len_bytes ls) = Inr ls"
proof -
  assume ls: "list_all wf_int ls"
  have "u32_of_int l < 256 ^ 4" for l
  proof -
    have "nat (l mod 2 ^ 32) < 2 ^ 32" by (simp add: nat_less_iff)
    then show ?thesis by (simp add: u32_of_int_def)
  qed
  then have "cast_array 4 (concat (map (le_bytes 4) (map u32_of_int ls))) = Inr (map u32_of_int ls)"
    by (intro cast_array_bytes) (simp_all add: list_all_iff)
  moreover have "i32 (int (u32_of_int l)) = l" if "wf_int l" for l
    using that i32_mod [of l] by (simp add: u32_of_int_def wf_int_def cast_simps)
  moreover have "len_bytes ls = concat (map (le_bytes 4) (map u32_of_int ls))"
    by (simp add: len_bytes_def int_bytes_def [abs_def] comp_def)
  ultimately show ?thesis
    using ls by (simp add: cast_lens_def list_all_iff map_idI)
qed

end
