(* ===== verification/Kv_Rounds.thy ===== *)
theory Kv_Rounds
  imports Kv_App "HOL-Library.Multiset"
begin

text \<open>
  Rounds of the key-value store: a worker pushes or pulls, the servers run the default handle of
  \<open>src/include/ps/kv_app.h\<close> on their slices, and the responses come back in any order. The theory puts
  together the slicer, the messages, the servers, the response counting of the customer and the
  callback of the worker.
\<close>

section \<open>Assembling the answers of a pull\<close>

definition keys_in :: "nat list \<Rightarrow> range \<Rightarrow> nat list" where
  "keys_in keys r = filter (\<lambda>k. in_range k r) keys"

text \<open>The answer of the server of a range, where \<open>look\<close> gives the value of a key.\<close>

definition answer :: "(nat \<Rightarrow> nat) \<Rightarrow> nat list \<Rightarrow> range \<Rightarrow> nat kvpairs" where
  "answer look keys r = \<lparr>kv_keys = keys_in keys r, kv_vals = map look (keys_in keys r), kv_lens = []\<rparr>"

lemma answer_simps [simp]:
  "kv_keys (answer look keys r) = keys_in keys r" "kv_vals (answer look keys r) = map look (keys_in keys r)"
  "kv_lens (answer look keys r) = []"
  by (simp_all add: answer_def)

lemma in_keys_in [simp]: "k \<in> set (keys_in keys r) \<longleftrightarrow> k \<in> set keys \<and> in_range k r"
  by (auto simp: keys_in_def)

lemma keys_in_hd_last:
  assumes "keys_in keys r \<noteq> []"
  shows "in_range (hd (keys_in keys r)) r" and "in_range (last (keys_in keys r)) r" and "last (keys_in keys r) \<in> set keys"
  using hd_in_set [OF assms] last_in_set [OF assms] by simp_all

lemma sorted_keys_in: "sorted keys \<Longrightarrow> sorted (keys_in keys r)"
  by (simp add: keys_in_def sorted_wrt_filter)

text \<open>The keys of a slice are the keys between its first and its last.\<close>

lemma keys_in_between:
  assumes "sorted keys" and "keys_in keys r \<noteq> []"
  shows "filter (\<lambda>x. hd (keys_in keys r) \<le> x \<and> x < Suc (last (keys_in keys r))) keys = keys_in keys r"
proof -
  let ?ks = "keys_in keys r"
  have "hd ?ks \<le> x \<and> x < Suc (last ?ks) \<longleftrightarrow> in_range x r" if "x \<in> set keys" for x
  proof
    show "in_range x r" if "hd ?ks \<le> x \<and> x < Suc (last ?ks)"
      using that keys_in_hd_last [OF assms(2)] by (simp add: in_range_def)
    assume "in_range x r"
    with that have "x \<in> set ?ks" by simp
    then obtain i where i: "i < length ?ks" "x = ?ks ! i" by (auto simp: in_set_conv_nth)
    have "?ks ! 0 \<le> ?ks ! i" "?ks ! i \<le> ?ks ! (length ?ks - 1)"
      using sorted_keys_in [OF assms(1), of r] i(1) by (auto intro!: sorted_nth_mono)
    with i assms(2) show "hd ?ks \<le> x \<and> x < Suc (last ?ks)" by (simp add: hd_conv_nth last_conv_nth)
  qed
  then show ?thesis unfolding keys_in_def [of keys r] by (auto intro: filter_cong)
qed

lemma check_answer:
  assumes "sorted keys" and "length keys < 2 ^ 64" and "list_all (\<lambda>k. k < 2 ^ 64 - 1) keys" and ne: "keys_in keys r \<noteq> []"
  shows "check_part keys False (answer look keys r) tot
    = Inr (fst tot + length (keys_in keys r), snd tot + length (keys_in keys r))"
proof -
  let ?ks = "keys_in keys r"
  have "last ?ks < 2 ^ 64 - 1" using keys_in_hd_last(3) [OF ne] assms(3) by (simp add: list_all_iff)
  then have u: "u64 (last ?ks + 1) = Suc (last ?ks)" by (simp add: cast_simps)
  have "sorted ?ks" by (rule sorted_keys_in [OF assms(1)])
  then have "hd ?ks \<le> last ?ks" using ne by (simp add: hd_conv_nth last_conv_nth sorted_nth_mono)
  then have "range_size (FindRange keys (hd ?ks) (Suc (last ?ks))) = length ?ks"
    using FindRange_elements [OF assms(1,2) refl, of "hd ?ks" "Suc (last ?ks)"] keys_in_between [OF assms(1) ne] by simp
  with ne u show ?thesis by (simp add: check_part_def sa_front_def sa_back_def check_def)
qed

lemma check_answers:
  assumes "sorted keys" and "length keys < 2 ^ 64" and "list_all (\<lambda>k. k < 2 ^ 64 - 1) keys"
    and "\<forall>r \<in> set rs. keys_in keys r \<noteq> []"
  shows "rfold (check_part keys False) (map (answer look keys) rs) tot
    = Inr (fst tot + length (concat (map (keys_in keys) rs)), snd tot + length (concat (map (keys_in keys) rs)))"
  using assms(4)
  by (induction rs arbitrary: tot) (simp_all add: check_answer [OF assms(1-3)])

lemma concat_keys_in:
  assumes "sorted keys" and "chained 0 rs" and "\<forall>k \<in> set keys. k < chain_end 0 rs"
  shows "concat (map (keys_in keys) rs) = keys"
proof -
  have "concat (map (\<lambda>r. filter (\<lambda>x. in_range (fst x) r) (map (\<lambda>k. (k, ())) keys)) rs) = map (\<lambda>k. (k, ())) keys"
    using concat_ranges [OF _ assms(2), of "map (\<lambda>k. (k, ())) keys"] assms(1,3) by (simp add: comp_def filter_id_conv)
  then have "map fst (concat (map (\<lambda>r. filter (\<lambda>x. in_range (fst x) r) (map (\<lambda>k. (k, ())) keys)) rs)) = keys"
    by (simp add: comp_def)
  then show ?thesis by (simp add: map_concat filter_map comp_def keys_in_def [abs_def])
qed

lemma heads_ordered:
  "chained b rs \<Longrightarrow> sorted_wrt (<) (map (hd \<circ> keys_in keys) (filter (\<lambda>r. keys_in keys r \<noteq> []) rs))
    \<and> (\<forall>r \<in> set rs. keys_in keys r \<noteq> [] \<longrightarrow> b \<le> hd (keys_in keys r))"
proof (induction rs arbitrary: b)
  case (Cons r rs)
  then have "chained (rg_end r) rs" by simp
  from Cons.IH [OF this]
  have ih: "sorted_wrt (<) (map (hd \<circ> keys_in keys) (filter (\<lambda>r. keys_in keys r \<noteq> []) rs))"
    "\<forall>r' \<in> set rs. keys_in keys r' \<noteq> [] \<longrightarrow> rg_end r \<le> hd (keys_in keys r')" by blast+
  have "in_range (hd (keys_in keys r)) r" if "keys_in keys r \<noteq> []" by (rule keys_in_hd_last(1) [OF that])
  then have lo: "b \<le> hd (keys_in keys r) \<and> hd (keys_in keys r) < rg_end r" if "keys_in keys r \<noteq> []"
    using that Cons.prems by (simp add: in_range_def)
  have "b \<le> rg_end r" using Cons.prems by simp
  with ih lo show ?case by (auto simp: comp_def intro: order_trans less_le_trans)
qed simp

text \<open>The ranges that are asked: those with keys.\<close>

definition asked :: "nat list \<Rightarrow> range list \<Rightarrow> range list" where
  "asked keys rs = filter (\<lambda>r. keys_in keys r \<noteq> []) rs"

lemma concat_asked: "concat (map (keys_in keys) (asked keys rs)) = concat (map (keys_in keys) rs)"
  by (induction rs) (simp_all add: asked_def)

lemma pull_assemble_any_order:
  assumes s: "sorted keys" and len: "length keys < 2 ^ 64" and lt: "list_all (\<lambda>k. k < 2 ^ 64 - 1) keys"
    and ch: "chained 0 rs" and all: "\<forall>k \<in> set keys. k < chain_end 0 rs"
    and p: "mset rs' = mset (asked keys rs)"
  shows "pull_assemble False keys False [] [] (map (answer look keys) rs') = Inr (map look keys, [])"
proof -
  let ?A = "asked keys rs"
  have set: "set rs' = set ?A" using p by (metis set_mset_mset)
  have ne: "\<forall>r \<in> set rs'. keys_in keys r \<noteq> []" unfolding set by (simp add: asked_def)
  have cc: "concat (map (keys_in keys) ?A) = keys" using concat_asked concat_keys_in [OF s ch all] by simp
  have "mset (map length (map (keys_in keys) rs')) = mset (map length (map (keys_in keys) ?A))" using p by simp
  then have "length (concat (map (keys_in keys) rs')) = length (concat (map (keys_in keys) ?A))"
    unfolding length_concat by (metis sum_mset_sum_list)
  then have tot: "length (concat (map (keys_in keys) rs')) = length keys" by (simp add: cc)
  let ?f = "hd \<circ> kv_keys"
  have strict: "sorted_wrt (<) (map ?f (map (answer look keys) ?A))"
    using heads_ordered [OF ch, of keys] by (simp add: asked_def comp_def)
  have "sort_key ?f (map (answer look keys) rs') = map (answer look keys) ?A"
  proof (rule sort_key_inj_key_eq)
    show "mset (map (answer look keys) rs') = mset (map (answer look keys) ?A)" using p by simp
    have "distinct (map ?f (map (answer look keys) ?A))" using strict by (simp add: strict_sorted_iff)
    then show "inj_on ?f (set (map (answer look keys) rs'))" using set by (simp only: distinct_map set_map)
    show "sorted (map ?f (map (answer look keys) ?A))" using strict by (simp add: strict_sorted_iff)
  qed
  moreover have "concat (map kv_vals (map (answer look keys) ?A)) = map look keys"
    using arg_cong [OF cc, of "map look"] by (simp add: comp_def map_concat)
  ultimately show ?thesis
    by (simp add: pull_assemble_def check_answers [OF s len lt ne] tot rbind_check)
qed

section \<open>Requests\<close>

lemma take_concat_const: "(\<And>x. length (f x) = k) \<Longrightarrow> take (n * k) (concat (map f xs)) = concat (map f (take n xs))"
proof (induction xs arbitrary: n)
  case (Cons x xs)
  then show ?case by (cases n) simp_all
qed simp

lemma drop_concat_const: "(\<And>x. length (f x) = k) \<Longrightarrow> drop (n * k) (concat (map f xs)) = concat (map f (drop n xs))"
proof (induction xs arbitrary: n)
  case (Cons x xs)
  then show ?case by (cases n) simp_all
qed simp

text \<open>A request with the same number of values for every key.\<close>

definition req_kvs :: "(nat \<Rightarrow> nat list) \<Rightarrow> nat list \<Rightarrow> nat kvpairs" where
  "req_kvs f keys = \<lparr>kv_keys = keys, kv_vals = concat (map f keys), kv_lens = []\<rparr>"

lemma req_kvs_simps [simp]:
  "kv_keys (req_kvs f keys) = keys" "kv_vals (req_kvs f keys) = concat (map f keys)" "kv_lens (req_kvs f keys) = []"
  by (simp_all add: req_kvs_def)

lemma slice_of_req:
  assumes "sorted keys" and "\<And>x. length (f x) = k" and "rg_begin r \<le> rg_end r"
  shows "slice_of k (req_kvs f keys) r = (keys_in keys r \<noteq> [], req_kvs f (keys_in keys r))"
proof -
  let ?p = "lower_bound keys (rg_begin r)" and ?q = "lower_bound keys (rg_end r)"
  have pq: "?p \<le> ?q" "?q \<le> length keys" using assms(3) by (simp_all add: lower_bound_mono lower_bound_le)
  have sl: "take (?q - ?p) (drop ?p keys) = keys_in keys r"
    using slice_between [OF assms(1,3)] by (simp add: keys_in_def in_range_def)
  then have "length (keys_in keys r) = ?q - ?p" using pq by (metis length_take length_drop min_absorb2 diff_le_mono)
  then have ne: "keys_in keys r = [] \<longleftrightarrow> ?q = ?p" using pq by auto
  have "kv_cut (val_lens k (req_kvs f keys)) (req_kvs f keys) ?p ?q = req_kvs f (keys_in keys r)"
    using pq by (simp add: kv_cut_def val_lens_def sum_list_replicate min_absorb2 drop_concat_const [OF assms(2)]
        take_concat_const [OF assms(2)] sl req_kvs_def)
  with ne show ?thesis by (auto simp: slice_of_def Let_def KVPairs_def req_kvs_def)
qed

lemma DefaultSlicer_req:
  assumes "sorted keys" and "\<And>x. length (f x) = k" and "length keys * k < 2 ^ 64"
    and "chained 0 rs" and "rs \<noteq> []" and "\<forall>key \<in> set keys. key < chain_end 0 rs"
  shows "DefaultSlicer (req_kvs f keys) rs = Inr (map (\<lambda>r. (keys_in keys r \<noteq> [], req_kvs f (keys_in keys r))) rs)"
proof -
  have "length (concat (map f keys)) = length keys * k" by (rule length_concat_const) (rule assms(2))
  then have "kv_wf k (req_kvs f keys)"
    using assms(1,3) by (simp add: kv_wf_def val_lens_def sum_list_replicate)
  then have "DefaultSlicer (req_kvs f keys) rs = Inr (map (slice_of k (req_kvs f keys)) rs)"
    using DefaultSlicer_eq [of k "req_kvs f keys" rs] assms(4-6) by simp
  moreover have "slice_of k (req_kvs f keys) r = (keys_in keys r \<noteq> [], req_kvs f (keys_in keys r))" if "r \<in> set rs" for r
    by (rule slice_of_req [OF assms(1,2) chained_range_le [OF assms(4) that]])
  ultimately show ?thesis by simp
qed

lemma add_kvs_eq:
  assumes "kv_keys kvs \<noteq> []" and "kv_lens kvs = []" and "mg_data msg = []" and "me_data_type (mg_meta msg) = []"
  shows "\<exists>dt ds. add_kvs w V kvs msg = Inr \<lparr>mg_meta = (mg_meta msg)\<lparr>me_data_type := dt, me_data_size := ds\<rparr>,
    mg_data = [key_bytes (kv_keys kvs), val_bytes w (kv_vals kvs)]\<rparr>"
  using assms by (cases msg) (auto simp: add_kvs_def AddData_def Let_def check_def)

text \<open>What the receivers read of a message.\<close>

definition msg_ok :: "bool \<Rightarrow> bool \<Rightarrow> int \<Rightarrow> byte list list \<Rightarrow> message \<Rightarrow> bool" where
  "msg_ok request push ts data m \<longleftrightarrow> me_request (mg_meta m) = request \<and> me_push (mg_meta m) = push
     \<and> me_timestamp (mg_meta m) = ts \<and> \<not> me_simple_app (mg_meta m) \<and> mg_data m = data"

definition pair_data :: "nat \<Rightarrow> nat kvpairs \<Rightarrow> byte list list" where
  "pair_data w kvs = [key_bytes (kv_keys kvs), val_bytes w (kv_vals kvs)]"

lemma kv_request_eq:
  assumes "kv_keys kvs \<noteq> []" and "kv_lens kvs = []"
  shows "\<exists>m. kv_request w V c ts push cmd (i, b, kvs) = Inr m \<and> msg_ok True push ts (pair_data w kvs) m
    \<and> me_recver (mg_meta m) = ServerRankToID (int i)"
proof -
  let ?m0 = "\<lparr>mg_meta = Meta\<lparr>me_app_id := cu_app_id c, me_customer_id := cu_customer_id c, me_request := True,
           me_push := push, me_head := cmd, me_timestamp := ts, me_recver := ServerRankToID (int i)\<rparr>, mg_data = []\<rparr>"
  obtain dt ds where "add_kvs w V kvs ?m0 = Inr \<lparr>mg_meta = (mg_meta ?m0)\<lparr>me_data_type := dt, me_data_size := ds\<rparr>,
      mg_data = [key_bytes (kv_keys kvs), val_bytes w (kv_vals kvs)]\<rparr>"
    using add_kvs_eq [OF assms, of ?m0 w V] by (auto simp: Meta_def)
  then show ?thesis by (simp add: kv_request_def msg_ok_def pair_data_def Meta_def)
qed

lemma rmapM_map: "rmapM g (map h xs) = rmapM (g \<circ> h) xs"
  by (induction xs) simp_all

lemma rmapM_exists:
  "\<forall>x \<in> set xs. \<exists>y. f x = Inr y \<and> P x y \<Longrightarrow> \<exists>ys. rmapM f xs = Inr ys \<and> list_all2 P xs ys"
proof (induction xs)
  case (Cons x xs)
  then obtain y ys where "f x = Inr y" "P x y" "rmapM f xs = Inr ys" "list_all2 P xs ys" by auto
  then show ?case by simp
qed simp

text \<open>The indices of the servers that are asked.\<close>

definition asked_at :: "nat list \<Rightarrow> range list \<Rightarrow> nat list" where
  "asked_at keys rs = filter (\<lambda>i. keys_in keys (rs ! i) \<noteq> []) [0..<length rs]"

lemma map_asked_at: "map ((!) rs) (asked_at keys rs) = asked keys rs"
proof -
  have "asked keys (map ((!) rs) [0..<length rs]) = map ((!) rs) (asked_at keys rs)"
    by (simp add: asked_def asked_at_def filter_map comp_def)
  then show ?thesis by (simp add: map_nth)
qed

lemma skipped_asked: "length (filter (\<lambda>r. keys_in keys r = []) rs) + length (asked_at keys rs) = length rs"
proof -
  have "length (asked_at keys rs) = length (asked keys rs)" using map_asked_at by (metis length_map)
  then show ?thesis using sum_length_filter_compl [of "\<lambda>r. keys_in keys r = []" rs] by (simp add: asked_def)
qed

definition is_request :: "nat \<Rightarrow> bool \<Rightarrow> int \<Rightarrow> (nat \<Rightarrow> nat list) \<Rightarrow> nat list \<Rightarrow> range list \<Rightarrow> nat \<Rightarrow> message \<Rightarrow> bool" where
  "is_request w push ts f keys rs i m \<longleftrightarrow> msg_ok True push ts (pair_data w (req_kvs f (keys_in keys (rs ! i)))) m
     \<and> me_recver (mg_meta m) = ServerRankToID (int i)"

lemma enumerate_filter:
  "filter (fst \<circ> snd) (enumerate 0 (map (\<lambda>r. (keys_in keys r \<noteq> [], req_kvs f (keys_in keys r))) rs))
    = map (\<lambda>i. (i, True, req_kvs f (keys_in keys (rs ! i)))) (asked_at keys rs)"
proof -
  have "enumerate 0 (map (\<lambda>r. (keys_in keys r \<noteq> [], req_kvs f (keys_in keys r))) rs)
      = map (\<lambda>i. (i, keys_in keys (rs ! i) \<noteq> [], req_kvs f (keys_in keys (rs ! i)))) [0..<length rs]"
    by (intro nth_equalityI) (simp_all add: nth_enumerate_eq)
  then show ?thesis by (simp add: asked_at_def filter_map comp_def)
qed

lemma kw_Send_req:
  assumes "sorted keys" and "\<And>x. length (f x) = k" and "length keys * k < 2 ^ 64"
    and "chained 0 rs" and "rs \<noteq> []" and "\<forall>key \<in> set keys. key < chain_end 0 rs"
    and "tracked c ts = Inr (int (length rs), 0)" and kw1: "(if keys = [] then RunCallback ts kw else Inr kw) = Inr kw1"
  shows "\<exists>msgs c1. kw_Send w V rs ts push cmd (req_kvs f keys) (c, kw) = Inr (msgs, c1, kw1)
    \<and> list_all2 (is_request w push ts f keys rs) (asked_at keys rs) msgs
    \<and> c1 = c\<lparr>cu_tracker := (cu_tracker c)[nat ts := (int (length rs), int (length rs) - int (length (asked_at keys rs)))]\<rparr>"
proof -
  let ?sl = "map (\<lambda>r. (keys_in keys r \<noteq> [], req_kvs f (keys_in keys r))) rs"
  have sk: "length (filter (Not \<circ> fst) ?sl) = length rs - length (asked_at keys rs)"
    using skipped_asked [of keys rs] by (simp add: filter_map comp_def)
  have "keys = [] \<longleftrightarrow> asked_at keys rs = []"
  proof -
    have "concat (map (keys_in keys) (map ((!) rs) (asked_at keys rs))) = keys"
      unfolding map_asked_at concat_asked by (rule concat_keys_in [OF assms(1,4,6)])
    moreover have "keys_in [] r = []" for r by (simp add: keys_in_def)
    ultimately show ?thesis by (auto simp: asked_at_def)
  qed
  then have e: "length (filter (Not \<circ> fst) ?sl) = length ?sl \<longleftrightarrow> keys = []"
  proof -
    have "length rs - length (asked_at keys rs) = length rs \<longleftrightarrow> length (asked_at keys rs) = 0"
      using skipped_asked [of keys rs] assms(5) length_greater_0_conv [of rs] by linarith
    with \<open>keys = [] \<longleftrightarrow> asked_at keys rs = []\<close> show ?thesis unfolding sk by simp
  qed
  define c1 where "c1 = c\<lparr>cu_tracker := (cu_tracker c)[nat ts := (int (length rs), int (length rs) - int (length (asked_at keys rs)))]\<rparr>"
  have a: "AddResponse ts (int (length (filter (Not \<circ> fst) ?sl))) c = Inr c1"
    using assms(7) skipped_asked [of keys rs] unfolding sk by (simp add: AddResponse_def c1_def of_nat_diff)
  have "\<forall>i \<in> set (asked_at keys rs). \<exists>m. (kv_request w V c1 ts push cmd \<circ> (\<lambda>i. (i, True, req_kvs f (keys_in keys (rs ! i))))) i = Inr m
      \<and> is_request w push ts f keys rs i m"
    using kv_request_eq [of "req_kvs f (keys_in keys (rs ! i))" for i] by (auto simp: asked_at_def is_request_def)
  from rmapM_exists [OF this] obtain msgs
    where m: "rmapM (kv_request w V c1 ts push cmd \<circ> (\<lambda>i. (i, True, req_kvs f (keys_in keys (rs ! i))))) (asked_at keys rs) = Inr msgs"
      "list_all2 (is_request w push ts f keys rs) (asked_at keys rs) msgs" by blast
  from m(1) have "rmapM (kv_request w V c1 ts push cmd) (filter (fst \<circ> snd) (enumerate 0 ?sl)) = Inr msgs"
    by (simp only: enumerate_filter rmapM_map)
  then have "kw_Send w V rs ts push cmd (req_kvs f keys) (c, kw) = Inr (msgs, c1, kw1)"
    unfolding kw_Send_def Let_def prod.case DefaultSlicer_req [OF assms(1-6)] rbind_Inr a e kw1
    by simp
  with m(2) show ?thesis unfolding c1_def by blast
qed

section \<open>Serving\<close>

text \<open>One request at the server it is addressed to; \<open>stores\<close> gives each node's store.\<close>

type_synonym stores = "int \<Rightarrow> (nat \<rightharpoonup> nat)"

definition serve :: "nat \<Rightarrow> elem_type \<Rightarrow> int \<Rightarrow> (nat \<Rightarrow> nat \<Rightarrow> nat) \<Rightarrow> message \<Rightarrow> message list \<times> stores \<Rightarrow> (message list \<times> stores) res" where
  "serve w V app add m st =
     (let (out, stores) = st; id = me_recver (mg_meta m) in
      rbind (ks_Process w (\<lambda>_ s. Inr ([], s)) (DefaultHandle w V app add) m (stores id)) (\<lambda>(o1, s).
        Inr (out @ o1, stores(id := s))))"

lemma serve_all:
  assumes "list_all2 P is msgs" and "distinct (map sid is)"
    and recv: "\<And>i m. P i m \<Longrightarrow> me_recver (mg_meta m) = sid i"
    and step: "\<And>i m. P i m \<Longrightarrow> i \<in> set is \<Longrightarrow> \<exists>a. ks_Process w (\<lambda>_ s. Inr ([], s)) (DefaultHandle w V app add) m (stores (sid i))
      = Inr ([a], F i (stores (sid i))) \<and> Q i a"
  shows "\<exists>as stores'. rfold (serve w V app add) msgs (out, stores) = Inr (out @ as, stores') \<and> list_all2 Q is as
    \<and> (\<forall>i \<in> set is. stores' (sid i) = F i (stores (sid i))) \<and> (\<forall>id. id \<notin> sid ` set is \<longrightarrow> stores' id = stores id)"
  using assms(1,2) step
proof (induction "is" msgs arbitrary: out stores rule: list_all2_induct)
  case (Cons i "is" m msgs)
  from Cons.prems(2) [of i m] Cons.hyps(1) obtain a where
    a: "ks_Process w (\<lambda>_ s. Inr ([], s)) (DefaultHandle w V app add) m (stores (sid i)) = Inr ([a], F i (stores (sid i)))" "Q i a"
    by auto
  let ?s1 = "stores(sid i := F i (stores (sid i)))"
  have one: "serve w V app add m (out, stores) = Inr (out @ [a], ?s1)" using a(1) recv [OF Cons.hyps(1)] by (simp add: serve_def Let_def)
  have same: "?s1 (sid j) = stores (sid j)" if "j \<in> set is" for j using Cons.prems(1) imageI [OF that, of sid] by auto
  have "\<exists>as stores'. rfold (serve w V app add) msgs (out @ [a], ?s1) = Inr ((out @ [a]) @ as, stores') \<and> list_all2 Q is as
    \<and> (\<forall>j \<in> set is. stores' (sid j) = F j (?s1 (sid j))) \<and> (\<forall>id. id \<notin> sid ` set is \<longrightarrow> stores' id = ?s1 id)"
  proof (rule Cons.IH)
    show "distinct (map sid is)" using Cons.prems(1) by simp
    show "\<exists>a. ks_Process w (\<lambda>_ s. Inr ([], s)) (DefaultHandle w V app add) m' (?s1 (sid j)) = Inr ([a], F j (?s1 (sid j))) \<and> Q j a"
      if "P j m'" "j \<in> set is" for j m'
      unfolding same [OF that(2)] by (rule Cons.prems(2) [OF that(1)]) (use that(2) in simp)
  qed
  then obtain as stores' where r: "rfold (serve w V app add) msgs (out @ [a], ?s1) = Inr ((out @ [a]) @ as, stores')" "list_all2 Q is as"
    "\<forall>j \<in> set is. stores' (sid j) = F j (?s1 (sid j))" "\<forall>id. id \<notin> sid ` set is \<longrightarrow> stores' id = ?s1 id" by blast
  have "\<forall>j \<in> set (i # is). stores' (sid j) = F j (stores (sid j))" using r(3,4) same Cons.prems(1) by auto
  moreover have "\<forall>id. id \<notin> sid ` set (i # is) \<longrightarrow> stores' id = stores id" using r(4) by simp
  moreover have "rfold (serve w V app add) (m # msgs) (out, stores) = Inr (out @ a # as, stores')" using one r(1) by simp
  ultimately show ?case using r(2) a(2) list.rel_intros(2) by metis
qed simp

lemma ServerRankToID_inj: "inj (\<lambda>i. ServerRankToID (int i))"
  by (simp add: inj_def ServerRankToID_def)

text \<open>Requests as the servers decode them.\<close>

lemma ks_Process_pairs:
  assumes "msg_ok True push ts (pair_data w kvs) m" and "0 < w"
    and "list_all (\<lambda>k. k < 2 ^ 64) (kv_keys kvs)" and "list_all (\<lambda>v. v < 256 ^ w) (kv_vals kvs)" and "kv_lens kvs = []"
  shows "\<exists>km. ks_Process w simple h m s = h km kvs s \<and> km_push km = push \<and> km_timestamp km = ts"
  using assms by (cases kvs)
    (auto simp: ks_Process_def msg_ok_def pair_data_def Let_def check_def cast_key_bytes cast_val_bytes)

lemma ks_Response_pairs:
  assumes "kv_lens kvs = []"
  shows "\<exists>a. ks_Response w V app km kvs = Inr a
    \<and> msg_ok False (km_push km) (km_timestamp km) (if kv_keys kvs = [] then [] else pair_data w kvs) a"
proof (cases "kv_keys kvs = []")
  case True
  then show ?thesis by (simp add: ks_Response_def add_kvs_def msg_ok_def Meta_def)
next
  case False
  let ?m0 = "\<lparr>mg_meta = Meta\<lparr>me_app_id := app, me_customer_id := km_customer_id km, me_request := False,
          me_push := km_push km, me_head := km_cmd km, me_timestamp := km_timestamp km,
          me_recver := km_sender km, me_key := km_key km\<rparr>, mg_data = []\<rparr>"
  obtain dt ds where "add_kvs w V kvs ?m0 = Inr \<lparr>mg_meta = (mg_meta ?m0)\<lparr>me_data_type := dt, me_data_size := ds\<rparr>,
      mg_data = [key_bytes (kv_keys kvs), val_bytes w (kv_vals kvs)]\<rparr>"
    using add_kvs_eq [OF False assms, of ?m0 w V] by (auto simp: Meta_def)
  with False show ?thesis by (simp add: ks_Response_def msg_ok_def pair_data_def Meta_def)
qed

lemma serve_pull:
  assumes "msg_ok True False ts (pair_data w (req_kvs (\<lambda>_. []) ks)) m" and "0 < w" and "ks \<noteq> []" and "list_all (\<lambda>k. k < 2 ^ 64) ks"
  shows "\<exists>a. ks_Process w simple (DefaultHandle w V app add) m s = Inr ([a], fold store_touch ks s)
    \<and> msg_ok False False ts (pair_data w \<lparr>kv_keys = ks, kv_vals = map (store_get s) ks, kv_lens = []\<rparr>) a"
proof -
  obtain km where km: "ks_Process w simple (DefaultHandle w V app add) m s = DefaultHandle w V app add km (req_kvs (\<lambda>_. []) ks) s"
    "\<not> km_push km" "km_timestamp km = ts"
    using ks_Process_pairs [OF assms(1,2), of simple "DefaultHandle w V app add" s] assms(4) by (auto simp: list_all_iff)
  have e: "KVPairs\<lparr>kv_keys := ks, kv_vals := map (store_get s) ks\<rparr> = \<lparr>kv_keys = ks, kv_vals = map (store_get s) ks, kv_lens = []\<rparr>"
    by (simp add: KVPairs_def)
  show ?thesis
    using km ks_Response_pairs [of "\<lparr>kv_keys = ks, kv_vals = map (store_get s) ks, kv_lens = []\<rparr>" w V app km] assms(3)
    by (auto simp: DefaultHandle_def Let_def e)
qed

lemma serve_push:
  assumes "msg_ok True True ts (pair_data w (req_kvs (\<lambda>k. [f k]) ks)) m" and "0 < w"
    and "list_all (\<lambda>k. k < 2 ^ 64) ks" and "\<forall>k \<in> set ks. f k < 256 ^ w"
  shows "\<exists>a. ks_Process w simple (DefaultHandle w V app add) m s
      = Inr ([a], fold (store_push add) (map (\<lambda>k. (k, f k)) ks) s) \<and> msg_ok False True ts [] a"
proof -
  obtain km where km: "ks_Process w simple (DefaultHandle w V app add) m s = DefaultHandle w V app add km (req_kvs (\<lambda>k. [f k]) ks) s"
    "km_push km" "km_timestamp km = ts"
    using ks_Process_pairs [OF assms(1,2), of simple "DefaultHandle w V app add" s] assms(3,4) by (auto simp: list_all_iff)
  have "zip ks (map f ks) = map (\<lambda>k. (k, f k)) ks" by (simp add: zip_map2 zip_same_conv_map)
  with km ks_Response_pairs [of KVPairs w V app km] show ?thesis
    by (auto simp: DefaultHandle_def Let_def check_def KVPairs_def)
qed

section \<open>Receiving the responses\<close>

lemma AddResponse_tracked:
  "tracked c ts = Inr (n, k) \<Longrightarrow> \<exists>c'. AddResponse ts d c = Inr c' \<and> tracked c' ts = Inr (n, k + d)"
  by (auto simp: AddResponse_def tracked_def split: if_splits)

text \<open>\<open>S m\<close> is what storing the response \<open>m\<close> does to the worker.\<close>

lemma receive_responses:
  assumes "\<forall>m \<in> set ms. \<exists>data. msg_ok False push ts data m" and "\<And>m kw. m \<in> set ms \<Longrightarrow> store_answer w m kw = Inr (S m kw)"
    and "tracked c ts = Inr (n, n - int (length ms))" and "ms \<noteq> []" and "RunCallback ts (fold S ms kw) = Inr kw2"
  shows "\<exists>c2. rfold (receive_one (kw_Process w n simple)) ms (c, kw) = Inr (c2, kw2) \<and> tracked c2 ts = Inr (n, n)"
  using assms
proof (induction ms arbitrary: c kw)
  case (Cons m ms)
  from Cons.prems(1) have m: "\<not> me_request (mg_meta m)" "me_timestamp (mg_meta m) = ts" "\<not> me_simple_app (mg_meta m)"
    by (auto simp: msg_ok_def)
  have st: "store_answer w m kw = Inr (S m kw)" using Cons.prems(2) by simp
  have num: "NumResponse c ts = Inr (n - int (length (m # ms)))" using Cons.prems(3) by (simp add: NumResponse_def)
  obtain c' where c': "AddResponse ts 1 c = Inr c'" "tracked c' ts = Inr (n, n - int (length ms))"
    using AddResponse_tracked [OF Cons.prems(3), of 1] by auto
  show ?case
  proof (cases "ms = []")
    case True
    with Cons.prems(5) have "receive_one (kw_Process w n simple) m (c, kw) = Inr (c', kw2)"
      using m st num c'(1) by (simp add: receive_one_def kw_Process_def Let_def)
    with True c'(2) show ?thesis by simp
  next
    case False
    then have "int (length (m # ms)) \<noteq> 1" by simp
    then have "receive_one (kw_Process w n simple) m (c, kw) = Inr (c', S m kw)"
      using m st num c'(1) by (simp add: receive_one_def kw_Process_def Let_def)
    moreover have "\<exists>c2. rfold (receive_one (kw_Process w n simple)) ms (c', S m kw) = Inr (c2, kw2) \<and> tracked c2 ts = Inr (n, n)"
      using Cons.prems(1,2,5) c'(2) False by (intro Cons.IH) simp_all
    ultimately show ?thesis by simp
  qed
qed simp

lemma receive_round:
  assumes "\<forall>m \<in> set ms. \<exists>data. msg_ok False push ts data m" and "\<And>m kw. m \<in> set ms \<Longrightarrow> store_answer w m kw = Inr (S m kw)"
    and "tracked c ts = Inr (n, n - int (length ms))" and "RunCallback ts (fold S ms kw) = Inr kw2"
    and "(if ms = [] then RunCallback ts kw else Inr kw) = Inr kw1"
  shows "\<exists>c2. rfold (receive_one (kw_Process w n simple)) ms (c, kw1) = Inr (c2, kw2) \<and> WaitRequest c2 ts = Inr True"
proof (cases "ms = []")
  case True
  with assms(3-) show ?thesis by (auto simp: WaitRequest_def)
next
  case False
  obtain c2 where "rfold (receive_one (kw_Process w n simple)) ms (c, kw) = Inr (c2, kw2)" "tracked c2 ts = Inr (n, n)"
    using receive_responses [OF assms(1-3) False assms(4)] by blast
  with False assms(5) show ?thesis by (simp add: WaitRequest_def)
qed

lemma store_push_answer: "msg_ok False True ts data m \<Longrightarrow> store_answer w m kw = Inr kw"
  by (simp add: store_answer_def msg_ok_def Let_def)

lemma store_pull_answer:
  assumes "msg_ok False False ts (pair_data w kvs) m" and "0 < w" and "kv_lens kvs = []"
    and "list_all (\<lambda>k. k < 2 ^ 64) (kv_keys kvs)" and "list_all (\<lambda>v. v < 256 ^ w) (kv_vals kvs)"
  shows "store_answer w m kw = Inr (kw\<lparr>kw_recv_kvs := (kw_recv_kvs kw)(ts := kw_recv_kvs kw ts @ [kvs])\<rparr>)"
  using assms by (cases kvs) (simp add: store_answer_def msg_ok_def pair_data_def Let_def check_def cast_key_bytes cast_val_bytes)

section \<open>Key ranges\<close>

lemma chained_server_ranges: "chained (key_width n * i) (map (\<lambda>j. Range (key_width n * j) (key_width n * Suc j)) [i..<i + m])"
proof (induction m arbitrary: i)
  case (Suc m)
  have "[i..<i + Suc m] = i # [Suc i..<Suc i + m]" by (simp add: upt_conv_Cons)
  with Suc [of "Suc i"] show ?case by (simp add: Range_def)
qed simp

lemma server_ranges_chain:
  "chained 0 (server_ranges n)" "length (server_ranges n) = n" "0 < n \<Longrightarrow> chain_end 0 (server_ranges n) = key_width n * n"
proof -
  show "chained 0 (server_ranges n)" using chained_server_ranges [of n 0 n] by (simp add: server_ranges_def)
  show "length (server_ranges n) = n" by (simp add: server_ranges_def)
  show "chain_end 0 (server_ranges n) = key_width n * n" if "0 < n"
    using that by (cases n) (simp_all add: chain_end_def server_ranges_def Range_def)
qed

text \<open>The node that owns a key.\<close>

definition server_of :: "nat \<Rightarrow> nat \<Rightarrow> int" where
  "server_of n key = ServerRankToID (int (key div key_width n))"

lemma in_server_range:
  assumes "0 < n" and "k < key_width n * n" and "i < n"
  shows "in_range k (server_ranges n ! i) \<longleftrightarrow> server_of n k = ServerRankToID (int i)"
proof -
  have "in_range k (server_ranges n ! i) \<longleftrightarrow> i = k div key_width n"
    using server_range_of_key [OF assms(1,2)] assms(3) by blast
  then show ?thesis by (auto simp: server_of_def ServerRankToID_def)
qed

text \<open>The setting of a round: \<open>n\<close> servers, a started post office and ordered keys the servers cover.\<close>

definition round_ok :: "postoffice \<Rightarrow> nat \<Rightarrow> nat list \<Rightarrow> bool" where
  "round_ok po n keys \<longleftrightarrow> 0 < n \<and> po_num_servers po = int n \<and> po_key_ranges po = []
     \<and> (\<exists>is. GetNodeIDs po kServerGroup = Inr is \<and> length is = n)
     \<and> sorted keys \<and> length keys < 2 ^ 64 \<and> (\<forall>k \<in> set keys. k < key_width n * n)"

lemma round_okD:
  assumes "round_ok po n keys"
  shows "fst (GetServerKeyRanges po) = server_ranges n" and "sorted keys" and "\<forall>k \<in> set keys. k < chain_end 0 (server_ranges n)"
    and "list_all (\<lambda>k. k < 2 ^ 64 - 1) keys" and "list_all (\<lambda>k. k < 2 ^ 64) keys" and "server_ranges n \<noteq> []"
proof -
  have n: "0 < n" "po_num_servers po = int n" "po_key_ranges po = []" and lt: "\<forall>k \<in> set keys. k < key_width n * n"
    and "sorted keys" using assms by (auto simp: round_ok_def)
  then show "fst (GetServerKeyRanges po) = server_ranges n" "sorted keys" "\<forall>k \<in> set keys. k < chain_end 0 (server_ranges n)"
    using GetServerKeyRanges_eq [OF n(3)] server_ranges_chain(3) by simp_all
  have "key_width n * n \<le> 2 ^ 64 - 1" using key_width_bound [of n n] by (simp add: kMaxKey_def)
  with lt show "list_all (\<lambda>k. k < 2 ^ 64 - 1) keys" by (auto simp: list_all_iff)
  then show "list_all (\<lambda>k. k < 2 ^ 64) keys" by (auto simp: list_all_iff)
  show "server_ranges n \<noteq> []" using n(1) server_ranges_chain(2) [of n] by auto
qed

lemma keys_in_bounds: "list_all P keys \<Longrightarrow> list_all P (keys_in keys r)"
  by (auto simp: list_all_iff)

lemma NewRequest_tracked:
  assumes "GetNodeIDs po g = Inr is"
  shows "NewRequest po g c = Inr (int (length (cu_tracker c)), c\<lparr>cu_tracker := cu_tracker c @ [(int (length is), 0)]\<rparr>)"
    and "tracked (c\<lparr>cu_tracker := cu_tracker c @ [(int (length is), 0)]\<rparr>) (int (length (cu_tracker c))) = Inr (int (length is), 0)"
  using assms by (simp_all add: NewRequest_def tracked_def)

section \<open>Rounds\<close>

lemma asked_at_ids: "distinct (map (\<lambda>i. ServerRankToID (int i)) (asked_at keys rs))"
  by (simp add: asked_at_def distinct_map inj_on_subset [OF ServerRankToID_inj])

lemma asked_empty:
  assumes "round_ok po n keys"
  shows "asked_at keys (server_ranges n) = [] \<longleftrightarrow> keys = []"
proof -
  have "concat (map (keys_in keys) (map ((!) (server_ranges n)) (asked_at keys (server_ranges n)))) = keys"
    unfolding map_asked_at concat_asked by (rule concat_keys_in [OF round_okD(2) [OF assms] server_ranges_chain(1) round_okD(3) [OF assms]])
  moreover have "keys_in [] r = []" for r by (simp add: keys_in_def)
  ultimately show ?thesis by (auto simp: asked_at_def)
qed

text \<open>Sending a request opens it: the servers with keys are asked, the others are counted as answered.\<close>

lemma send_round:
  assumes ok: "round_ok po n keys" and k: "\<And>x. length (f x) = k" "length keys * k < 2 ^ 64"
    and kw1: "(if keys = [] then RunCallback ts kw else Inr kw) = Inr kw1" and ts: "ts = int (length (cu_tracker c))"
  shows "\<exists>c0 msgs c1. NewRequest po kServerGroup c = Inr (ts, c0)
    \<and> kw_Send w V (fst (GetServerKeyRanges po)) ts push cmd (req_kvs f keys) (c0, kw) = Inr (msgs, c1, kw1)
    \<and> list_all2 (is_request w push ts f keys (server_ranges n)) (asked_at keys (server_ranges n)) msgs
    \<and> tracked c1 ts = Inr (int n, int n - int (length (asked_at keys (server_ranges n))))"
proof -
  obtain "is" where "is": "GetNodeIDs po kServerGroup = Inr is" "length is = n" using ok by (auto simp: round_ok_def)
  let ?c0 = "c\<lparr>cu_tracker := cu_tracker c @ [(int (length is), 0)]\<rparr>"
  note rs = server_ranges_chain [of n]
  have "tracked ?c0 ts = Inr (int (length (server_ranges n)), 0)"
    using NewRequest_tracked(2) [OF "is"(1), of c] by (simp add: ts "is"(2) rs(2))
  from kw_Send_req [where f = f, OF round_okD(2) [OF ok] k rs(1) round_okD(6,3) [OF ok] this kw1, of w V push cmd]
  obtain msgs c1 where s: "kw_Send w V (server_ranges n) ts push cmd (req_kvs f keys) (?c0, kw) = Inr (msgs, c1, kw1)"
    "list_all2 (is_request w push ts f keys (server_ranges n)) (asked_at keys (server_ranges n)) msgs"
    "c1 = ?c0\<lparr>cu_tracker := (cu_tracker ?c0)[nat ts := (int n, int n - int (length (asked_at keys (server_ranges n))))]\<rparr>"
    unfolding rs(2) by blast
  have "tracked c1 ts = Inr (int n, int n - int (length (asked_at keys (server_ranges n))))"
    by (simp add: s(3) tracked_def ts nth_append)
  with s(1,2) NewRequest_tracked(1) [OF "is"(1), of c] show ?thesis
    unfolding round_okD(1) [OF ok] ts by blast
qed

text \<open>Responses in any order, with the servers they come from.\<close>

lemma responses_any_order:
  assumes "list_all2 Q is as" and "mset ms = mset as"
  shows "\<exists>is'. list_all2 Q is' ms \<and> mset is' = mset is"
proof -
  have "list_all2 (\<lambda>a i. Q i a) as is" using assms(1) by (simp add: list_all2_conv_all_nth)
  from list_all2_reorder_left_invariance [OF this assms(2)] show ?thesis
    by (auto simp: list_all2_conv_all_nth)
qed

lemma list_all2_right: "list_all2 P xs ys \<Longrightarrow> y \<in> set ys \<Longrightarrow> \<exists>x \<in> set xs. P x y"
  by (induction rule: list_all2_induct) auto

lemma fold_store_push:
  "distinct ks \<Longrightarrow> store_get (fold (store_push add) (map (\<lambda>k. (k, f k)) ks) s) key
    = (if key \<in> set ks then add (store_get s key) (f key) else store_get s key)"
proof (induction ks arbitrary: s)
  case (Cons k ks)
  then show ?case by (auto simp: store_push_def store_get_def)
qed simp

lemma fold_store_touch: "store_get (fold store_touch ks s) key = store_get s key"
proof (induction ks arbitrary: s)
  case (Cons k ks)
  have "store_get (store_touch k s) key = store_get s key" by (simp add: store_touch_def store_get_def)
  with Cons show ?case by simp
qed simp

text \<open>The stores after a push: the server of each key has added its value.\<close>

lemma push_stores:
  assumes ok: "round_ok po n keys" and "distinct keys"
    and st: "\<forall>i \<in> set (asked_at keys (server_ranges n)). stores' (ServerRankToID (int i))
      = fold (store_push add) (map (\<lambda>k. (k, f k)) (keys_in keys (server_ranges n ! i))) (stores (ServerRankToID (int i)))"
    and other: "\<forall>node. node \<notin> (\<lambda>i. ServerRankToID (int i)) ` set (asked_at keys (server_ranges n)) \<longrightarrow> stores' node = stores node"
  shows "store_get (stores' node) key = (if key \<in> set keys \<and> node = server_of n key
    then add (store_get (stores node) key) (f key) else store_get (stores node) key)"
proof (cases "node \<in> (\<lambda>i. ServerRankToID (int i)) ` set (asked_at keys (server_ranges n))")
  case True
  then obtain i where i: "node = ServerRankToID (int i)" "i \<in> set (asked_at keys (server_ranges n))" "i < n"
    by (auto simp: asked_at_def server_ranges_chain(2))
  have "distinct (keys_in keys (server_ranges n ! i))" using assms(2) by (simp add: keys_in_def)
  moreover have "key \<in> set (keys_in keys (server_ranges n ! i)) \<longleftrightarrow> key \<in> set keys \<and> node = server_of n key"
    using in_server_range [of n key i] ok i(1,3) by (auto simp: round_ok_def)
  ultimately show ?thesis using st i(1,2) by (simp add: fold_store_push)
next
  case False
  have "node \<noteq> server_of n key" if "key \<in> set keys"
  proof
    assume node: "node = server_of n key"
    have k: "0 < n" "key < key_width n * n" using ok that by (auto simp: round_ok_def)
    let ?i = "key div key_width n"
    have "key \<in> set (keys_in keys (server_ranges n ! ?i))" using server_range_of_key(2) [OF k] that by simp
    then have "keys_in keys (server_ranges n ! ?i) \<noteq> []" by (metis empty_iff list.set(1))
    then have "?i \<in> set (asked_at keys (server_ranges n))"
      using server_range_of_key(1) [OF k] by (simp add: asked_at_def server_ranges_chain(2))
    with False node show False by (simp add: server_of_def)
  qed
  with other False show ?thesis by auto
qed

text \<open>C2: A push reaches the servers and completes. A worker that pushes one value per key to \<open>n\<close> servers
  sends its requests, and the servers that run the default handle add each value to the entry of its
  key at the one server that owns the key, leaving every other entry as it was. Whatever the order in
  which the responses come back, the worker handles all of them, its callback has then run exactly once,
  and the wait for the request is over. This covers a push without keys, and one that some servers have no part in.\<close>

theorem push_round:
  assumes "round_ok po n keys" and "distinct keys" and "0 < w" and "\<forall>k \<in> set keys. f k < 256 ^ w"
    and "ts = int (length (cu_tracker c))"
  shows "\<exists>msgs c1 kw1 as stores'.
    ZPush w V po \<lparr>kv_keys = keys, kv_vals = map f keys, kv_lens = []\<rparr> cmd (Some cb) (c, kw) = Inr (ts, msgs, c1, kw1)
    \<and> rfold (serve w V app add) msgs ([], stores) = Inr (as, stores')
    \<and> (\<forall>id key. store_get (stores' id) key = (if key \<in> set keys \<and> id = server_of n key
          then add (store_get (stores id) key) (f key) else store_get (stores id) key))
    \<and> (\<forall>ms. mset ms = mset as \<longrightarrow> (\<exists>c2 kw2. rfold (receive_one (kw_Process w (int n) simple)) ms (c1, kw1) = Inr (c2, kw2)
          \<and> kw_ran kw2 = kw_ran kw @ [cb] \<and> kw_callbacks kw2 ts = None \<and> WaitRequest c2 ts = Inr True))"
proof -
  note ok = assms(1) and ts = assms(5)
  let ?rs = "server_ranges n" and ?f = "\<lambda>k. [f k]" and ?sid = "\<lambda>i. ServerRankToID (int i)"
  let ?A = "asked_at keys ?rs"
  let ?kw = "AddCallback ts (Some (User_Callback cb)) kw"
  define kw2 where "kw2 = ?kw\<lparr>kw_ran := kw_ran kw @ [cb], kw_callbacks := (kw_callbacks ?kw)(ts := None)\<rparr>"
  have rc: "RunCallback ts ?kw = Inr kw2"
    by (simp add: RunCallback_def AddCallback_def run_callback_body_def run_user_def kw2_def)
  define kw1 where "kw1 = (if keys = [] then kw2 else ?kw)"
  have req: "\<lparr>kv_keys = keys, kv_vals = map f keys, kv_lens = []\<rparr> = req_kvs ?f keys" by (simp add: req_kvs_def)
  have "length keys * 1 < 2 ^ 64" using ok by (simp add: round_ok_def)
  moreover have "(if keys = [] then RunCallback ts ?kw else Inr ?kw) = Inr kw1" by (simp add: rc kw1_def)
  ultimately obtain c0 msgs c1 where send: "NewRequest po kServerGroup c = Inr (ts, c0)"
    "kw_Send w V (fst (GetServerKeyRanges po)) ts True cmd (req_kvs ?f keys) (c0, ?kw) = Inr (msgs, c1, kw1)"
    "list_all2 (is_request w True ts ?f keys ?rs) ?A msgs" "tracked c1 ts = Inr (int n, int n - int (length ?A))"
    using send_round [OF ok, of ?f 1 ts ?kw kw1 c w V True cmd] ts by auto
  let ?F = "\<lambda>i s. fold (store_push add) (map (\<lambda>k. (k, f k)) (keys_in keys (?rs ! i))) s"
  have "\<exists>as stores'. rfold (serve w V app add) msgs ([], stores) = Inr ([] @ as, stores')
    \<and> list_all2 (\<lambda>_. msg_ok False True ts []) ?A as
    \<and> (\<forall>i \<in> set ?A. stores' (?sid i) = ?F i (stores (?sid i))) \<and> (\<forall>id. id \<notin> ?sid ` set ?A \<longrightarrow> stores' id = stores id)"
    using assms(3,4) keys_in_bounds [OF round_okD(5) [OF ok]]
    by (intro serve_all [OF send(3) asked_at_ids] serve_push) (auto simp: is_request_def)
  then obtain as stores' where sv: "rfold (serve w V app add) msgs ([], stores) = Inr (as, stores')"
    "list_all2 (\<lambda>_. msg_ok False True ts []) ?A as" "\<forall>i \<in> set ?A. stores' (?sid i) = ?F i (stores (?sid i))"
    "\<forall>id. id \<notin> ?sid ` set ?A \<longrightarrow> stores' id = stores id" by auto
  have st: "store_get (stores' id) key = (if key \<in> set keys \<and> id = server_of n key
      then add (store_get (stores id) key) (f key) else store_get (stores id) key)" for id key
    by (rule push_stores [OF ok assms(2) sv(3,4)])
  have fin: "\<exists>c2. rfold (receive_one (kw_Process w (int n) simple)) ms (c1, kw1) = Inr (c2, kw2) \<and> WaitRequest c2 ts = Inr True"
    if ms: "mset ms = mset as" for ms
  proof (rule receive_round)
    have "\<forall>a \<in> set as. msg_ok False True ts [] a" using list_all2_right [OF sv(2)] by blast
    then have r: "\<forall>m \<in> set ms. msg_ok False True ts [] m" using mset_eq_setD [OF ms] by blast
    then show "\<forall>m \<in> set ms. \<exists>data. msg_ok False True ts data m" by blast
    show "store_answer w m kw = Inr ((\<lambda>_. id) m kw)" if "m \<in> set ms" for m kw
      using r that by (auto intro: store_push_answer)
    have len: "length ms = length ?A" using mset_eq_length [OF ms] list_all2_lengthD [OF sv(2)] by simp
    then show "tracked c1 ts = Inr (int n, int n - int (length ms))" using send(4) by simp
    show "RunCallback ts (fold (\<lambda>_. id) ms ?kw) = Inr kw2" using rc by (simp add: fold_id)
    show "(if ms = [] then RunCallback ts ?kw else Inr ?kw) = Inr kw1"
      using len asked_empty [OF ok] by (auto simp: rc kw1_def)
  qed
  have "ZPush w V po \<lparr>kv_keys = keys, kv_vals = map f keys, kv_lens = []\<rparr> cmd (Some cb) (c, kw) = Inr (ts, msgs, c1, kw1)"
    using send(1,2) by (simp add: ZPush_def req)
  moreover have "kw_ran kw2 = kw_ran kw @ [cb]" "kw_callbacks kw2 ts = None" by (simp_all add: kw2_def)
  ultimately show ?thesis using sv(1) st fin by blast
qed

text \<open>The callback of a pull, once all the answers are there.\<close>

lemma RunCallback_pull:
  assumes ok: "round_ok po n keys" and "\<not> kw_zpull kw" and "kw_recv_kvs kw ts = map (answer look keys) rs'"
    and "mset rs' = mset (asked keys (server_ranges n))"
    and "kw_callbacks kw ts = Some (Pull_Callback keys False [] [] (Some cb))"
  shows "RunCallback ts kw = Inr (kw\<lparr>kw_out := (kw_out kw)(ts \<mapsto> (map look keys, [])), kw_recv_kvs := (kw_recv_kvs kw)(ts := []),
    kw_ran := kw_ran kw @ [cb], kw_callbacks := (kw_callbacks kw)(ts := None)\<rparr>)"
proof -
  have "length keys < 2 ^ 64" using ok by (simp add: round_ok_def)
  from pull_assemble_any_order [OF round_okD(2) [OF ok] this round_okD(4) [OF ok] server_ranges_chain(1) round_okD(3) [OF ok] assms(4), of look]
  show ?thesis using assms(2,3,5) by (simp add: RunCallback_def run_callback_body_def run_user_def)
qed

lemma serve_pull_all:
  assumes ok: "round_ok po n keys" and "0 < w" and look: "look = (\<lambda>k. store_get (stores (server_of n k)) k)"
    and msgs: "list_all2 (is_request w False ts (\<lambda>_. []) keys (server_ranges n)) (asked_at keys (server_ranges n)) msgs"
  shows "\<exists>as stores'. rfold (serve w V app add) msgs ([], stores) = Inr (as, stores')
    \<and> list_all2 (\<lambda>i. msg_ok False False ts (pair_data w (answer look keys (server_ranges n ! i)))) (asked_at keys (server_ranges n)) as
    \<and> (\<forall>id key. store_get (stores' id) key = store_get (stores id) key)"
proof -
  let ?rs = "server_ranges n" and ?sid = "\<lambda>i. ServerRankToID (int i)"
  let ?A = "asked_at keys ?rs" and ?Q = "\<lambda>i. msg_ok False False ts (pair_data w (answer look keys (?rs ! i)))"
  have own: "map (store_get (stores (?sid i))) (keys_in keys (?rs ! i)) = map look (keys_in keys (?rs ! i))" if "i \<in> set ?A" for i
    using that ok in_server_range [of n _ i] by (auto simp: look asked_at_def server_ranges_chain(2) round_ok_def)
  have "\<exists>as stores'. rfold (serve w V app add) msgs ([], stores) = Inr ([] @ as, stores') \<and> list_all2 ?Q ?A as
    \<and> (\<forall>i \<in> set ?A. stores' (?sid i) = fold store_touch (keys_in keys (?rs ! i)) (stores (?sid i)))
    \<and> (\<forall>id. id \<notin> ?sid ` set ?A \<longrightarrow> stores' id = stores id)"
  proof (rule serve_all [OF msgs asked_at_ids])
    fix i m assume m: "is_request w False ts (\<lambda>_. []) keys ?rs i m" and i: "i \<in> set ?A"
    have "keys_in keys (?rs ! i) \<noteq> []" using i by (simp add: asked_at_def)
    with m assms(2) keys_in_bounds [OF round_okD(5) [OF ok]]
      serve_pull [of ts w "keys_in keys (?rs ! i)" m "\<lambda>_ s. Inr ([], s)" V app add "stores (?sid i)"]
    show "\<exists>a. ks_Process w (\<lambda>_ s. Inr ([], s)) (DefaultHandle w V app add) m (stores (?sid i))
        = Inr ([a], fold store_touch (keys_in keys (?rs ! i)) (stores (?sid i))) \<and> ?Q i a"
      unfolding own [OF i] answer_def is_request_def by blast
  qed (simp add: is_request_def)
  then obtain as stores' where sv: "rfold (serve w V app add) msgs ([], stores) = Inr (as, stores')" "list_all2 ?Q ?A as"
    "\<forall>i \<in> set ?A. stores' (?sid i) = fold store_touch (keys_in keys (?rs ! i)) (stores (?sid i))"
    "\<forall>id. id \<notin> ?sid ` set ?A \<longrightarrow> stores' id = stores id" by auto
  have "store_get (stores' id) key = store_get (stores id) key" for id key
    using sv(3,4) by (cases "id \<in> ?sid ` set ?A") (auto simp: fold_store_touch)
  with sv(1,2) show ?thesis by blast
qed

definition recv_add :: "int \<Rightarrow> nat kvpairs list \<Rightarrow> kv_worker \<Rightarrow> kv_worker" where
  "recv_add ts kvs kw = kw\<lparr>kw_recv_kvs := (kw_recv_kvs kw)(ts := kw_recv_kvs kw ts @ kvs)\<rparr>"

lemma fold_answers:
  "list_all2 (\<lambda>i m. \<forall>kw. store_answer w m kw = Inr (recv_add ts [h i] kw)) is ms
    \<Longrightarrow> fold (\<lambda>m kw. projr (store_answer w m kw)) ms kw = recv_add ts (map h is) kw"
proof (induction "is" ms arbitrary: kw rule: list_all2_induct)
  case (Cons i "is" m ms)
  then show ?case by (simp add: recv_add_def)
qed (simp add: recv_add_def fun_upd_idem)

lemma store_answers:
  assumes "round_ok po n keys" and "0 < w" and "\<forall>k. look k < 256 ^ w"
    and "list_all2 (\<lambda>i. msg_ok False False ts (pair_data w (answer look keys (rs ! i)))) is ms"
  shows "list_all2 (\<lambda>i m. \<forall>kw. store_answer w m kw = Inr (recv_add ts [answer look keys (rs ! i)] kw)) is ms"
proof (rule list_all2_mono [OF assms(4)])
  fix i m assume m: "msg_ok False False ts (pair_data w (answer look keys (rs ! i))) m"
  have b: "list_all (\<lambda>k. k < 2 ^ 64) (kv_keys (answer look keys (rs ! i)))"
    "list_all (\<lambda>v. v < 256 ^ w) (kv_vals (answer look keys (rs ! i)))" "kv_lens (answer look keys (rs ! i)) = []"
    using keys_in_bounds [OF round_okD(5) [OF assms(1)], of "rs ! i"] assms(3) by (simp_all add: list_all_iff)
  show "\<forall>kw. store_answer w m kw = Inr (recv_add ts [answer look keys (rs ! i)] kw)"
    by (simp add: store_pull_answer [OF m assms(2) b(3,1,2)] recv_add_def)
qed

text \<open>C3: A pull returns what the servers hold. A worker that pulls a list of keys from \<open>n\<close> servers sends its
  requests, the servers that run the default handle answer with the values of their keys without
  changing any, and whatever the order in which the answers come back, the worker handles all of them,
  its array then holds for every key, in the order of the keys, the value at the server that owns the
  key, the callback has run exactly once and the wait for the request is over.\<close>

theorem pull_round:
  assumes "round_ok po n keys" and "0 < w" and "\<forall>id k. store_get (stores id) k < 256 ^ w"
    and "\<not> kw_zpull kw" and "kw_recv_kvs kw ts = []" and "ts = int (length (cu_tracker c))"
  shows "\<exists>msgs c1 kw1 as stores'.
    Pull_internal w V po keys [] None cmd (Some cb) (c, kw) = Inr (ts, msgs, c1, kw1)
    \<and> rfold (serve w V app add) msgs ([], stores) = Inr (as, stores')
    \<and> (\<forall>id key. store_get (stores' id) key = store_get (stores id) key)
    \<and> (\<forall>ms. mset ms = mset as \<longrightarrow> (\<exists>c2 kw2. rfold (receive_one (kw_Process w (int n) simple)) ms (c1, kw1) = Inr (c2, kw2)
          \<and> kw_out kw2 ts = Some (map (\<lambda>k. store_get (stores (server_of n k)) k) keys, [])
          \<and> kw_ran kw2 = kw_ran kw @ [cb] \<and> kw_callbacks kw2 ts = None \<and> WaitRequest c2 ts = Inr True))"
proof -
  note ok = assms(1) and ts = assms(6)
  let ?rs = "server_ranges n" and ?f = "\<lambda>k. []" and ?sid = "\<lambda>i. ServerRankToID (int i)"
  let ?A = "asked_at keys ?rs"
  let ?kw = "AddCallback ts (Some (Pull_Callback keys False [] [] (Some cb))) kw"
  define look where "look = (\<lambda>k. store_get (stores (server_of n k)) k)"
  define kw2 where "kw2 = ?kw\<lparr>kw_out := (kw_out kw)(ts \<mapsto> (map look keys, [])), kw_recv_kvs := (kw_recv_kvs kw)(ts := []),
    kw_ran := kw_ran kw @ [cb], kw_callbacks := (kw_callbacks ?kw)(ts := None)\<rparr>"
  have rc: "RunCallback ts (?kw\<lparr>kw_recv_kvs := (kw_recv_kvs kw)(ts := map (answer look keys) rs')\<rparr>) = Inr kw2"
    if "mset rs' = mset (asked keys ?rs)" for rs'
    using RunCallback_pull [OF ok, of "?kw\<lparr>kw_recv_kvs := (kw_recv_kvs kw)(ts := map (answer look keys) rs')\<rparr>" ts look rs' cb] that assms(4)
    by (simp add: kw2_def AddCallback_def)
  have same: "?kw\<lparr>kw_recv_kvs := (kw_recv_kvs kw)(ts := map (answer look keys) [])\<rparr> = ?kw"
    using assms(5) by (simp add: AddCallback_def fun_upd_idem)
  have none: "asked keys ?rs = [] \<longleftrightarrow> keys = []" using asked_empty [OF ok] map_asked_at [of ?rs keys] by (metis map_is_Nil_conv)
  define kw1 where "kw1 = (if keys = [] then kw2 else ?kw)"
  have opened: "(if keys = [] then RunCallback ts ?kw else Inr ?kw) = Inr kw1" using rc [of "[]"] none unfolding same by (simp add: kw1_def)
  then obtain c0 msgs c1 where send: "NewRequest po kServerGroup c = Inr (ts, c0)"
    "kw_Send w V (fst (GetServerKeyRanges po)) ts False cmd (req_kvs ?f keys) (c0, ?kw) = Inr (msgs, c1, kw1)"
    "list_all2 (is_request w False ts ?f keys ?rs) ?A msgs" "tracked c1 ts = Inr (int n, int n - int (length ?A))"
    using send_round [OF ok, of ?f 0 ts ?kw kw1 c w V False cmd] ts by auto
  obtain as stores' where sv: "rfold (serve w V app add) msgs ([], stores) = Inr (as, stores')"
    "list_all2 (\<lambda>i. msg_ok False False ts (pair_data w (answer look keys (?rs ! i)))) ?A as"
    "\<forall>id key. store_get (stores' id) key = store_get (stores id) key"
    using serve_pull_all [OF ok assms(2) look_def send(3)] by blast
  have fin: "\<exists>c2. rfold (receive_one (kw_Process w (int n) simple)) ms (c1, kw1) = Inr (c2, kw2) \<and> WaitRequest c2 ts = Inr True"
    if ms: "mset ms = mset as" for ms
  proof (rule receive_round)
    obtain "is" where "is": "list_all2 (\<lambda>i. msg_ok False False ts (pair_data w (answer look keys (?rs ! i)))) is ms" "mset is = mset ?A"
      using responses_any_order [OF sv(2) ms] by blast
    have "\<forall>k. look k < 256 ^ w" using assms(3) by (simp add: look_def)
    note sa = store_answers [OF ok assms(2) this "is"(1)]
    show "\<forall>m \<in> set ms. \<exists>data. msg_ok False False ts data m"
      using list_all2_right [OF "is"(1)] by blast
    show "store_answer w m kw = Inr ((\<lambda>m kw. projr (store_answer w m kw)) m kw)" if "m \<in> set ms" for m kw
      using list_all2_right [OF sa that] by auto
    have len: "length ms = length ?A" using list_all2_lengthD [OF "is"(1)] mset_eq_length [OF "is"(2)] by simp
    then show "tracked c1 ts = Inr (int n, int n - int (length ms))" using send(4) by simp
    have "mset (map ((!) ?rs) is) = mset (asked keys ?rs)" using "is"(2) by (simp flip: map_asked_at)
    from rc [OF this] show "RunCallback ts (fold (\<lambda>m kw. projr (store_answer w m kw)) ms ?kw) = Inr kw2"
      using assms(5) by (simp add: fold_answers [OF sa] recv_add_def AddCallback_def comp_def)
    show "(if ms = [] then RunCallback ts ?kw else Inr ?kw) = Inr kw1"
      using len asked_empty [OF ok] opened by auto
  qed
  have "Pull_internal w V po keys [] None cmd (Some cb) (c, kw) = Inr (ts, msgs, c1, kw1)"
    using send(1,2) by (simp add: Pull_internal_def KVPairs_def req_kvs_def concat_replicate_trivial map_replicate_const)
  moreover have "kw_out kw2 ts = Some (map look keys, [])" "kw_ran kw2 = kw_ran kw @ [cb]" "kw_callbacks kw2 ts = None"
    by (simp_all add: kw2_def)
  ultimately show ?thesis using sv(1,3) fin unfolding look_def by blast
qed

text \<open>Two servers; the first holds the keys 5 and 7, the second the largest key that is served.\<close>

definition demo_worker :: kv_worker where
  "demo_worker = \<lparr>kw_recv_kvs = (\<lambda>_. []), kw_callbacks = Map.empty, kw_zpull = False, kw_out = Map.empty, kw_ran = []\<rparr>"

definition demo_keys :: "nat list" where "demo_keys = [5, 7, 18446744073709551613]"

lemma demo_round: "round_ok demo_po 2 demo_keys"
proof -
  have "GetNodeIDs demo_po 2 = Inr [8, 10]"
    using GetNodeIDs_ids [of demo_po 2] no_empty_init [of 3 2] group_ids [of 2 3 2]
    by (simp add: demo_po_def group_members_def upto.simps ServerRankToID_def)
  then show ?thesis
    by (simp add: round_ok_def demo_po_def po_empty_def kServerGroup_def demo_keys_def key_width_def kMaxKey_def)
qed

theorem push_round_witness:
  "\<exists>msgs c1 kw1 as stores'. ZPush 4 Float_t demo_po \<lparr>kv_keys = demo_keys, kv_vals = [50, 70, 90], kv_lens = []\<rparr> 0 (Some 1) (demo_customer, demo_worker)
      = Inr (0, msgs, c1, kw1)
    \<and> rfold (serve 4 Float_t 0 (+)) msgs ([], \<lambda>_. Map.empty) = Inr (as, stores')
    \<and> store_get (stores' 8) 7 = 70 \<and> store_get (stores' 10) 7 = 0 \<and> store_get (stores' 10) 18446744073709551613 = 90"
proof -
  let ?f = "\<lambda>k :: nat. if k = 5 then 50 else if k = 7 then 70 else 90 :: nat"
  have pre: "distinct demo_keys" "0 < (4 :: nat)" "\<forall>k \<in> set demo_keys. ?f k < 256 ^ 4" "0 = int (length (cu_tracker demo_customer))"
    by (simp_all add: demo_keys_def demo_customer_def)
  have o: "server_of 2 7 = 8" "server_of 2 18446744073709551613 = 10"
    by (simp_all add: server_of_def key_width_def kMaxKey_def ServerRankToID_def)
  have v: "map ?f demo_keys = [50, 70, 90]" "7 \<in> set demo_keys" "18446744073709551613 \<in> set demo_keys" by (simp_all add: demo_keys_def)
  from push_round [OF demo_round pre, of Float_t 0 1 demo_worker 0 "(+)" "\<lambda>_. Map.empty" "\<lambda>_ st. Inr st"] obtain msgs c1 kw1 as stores' where
    r: "ZPush 4 Float_t demo_po \<lparr>kv_keys = demo_keys, kv_vals = map ?f demo_keys, kv_lens = []\<rparr> 0 (Some 1) (demo_customer, demo_worker) = Inr (0, msgs, c1, kw1)"
    "rfold (serve 4 Float_t 0 (+)) msgs ([], \<lambda>_. Map.empty) = Inr (as, stores')"
    "\<forall>id key. store_get (stores' id) key = (if key \<in> set demo_keys \<and> id = server_of 2 key
          then store_get Map.empty key + ?f key else store_get Map.empty key)" by blast
  have "store_get (stores' 8) 7 = 70" "store_get (stores' 10) 7 = 0" "store_get (stores' 10) 18446744073709551613 = 90"
    using r(3) o v(2,3) by (simp_all add: store_get_def)
  with r(1,2) show ?thesis unfolding v(1) by blast
qed

theorem pull_round_witness:
  "\<exists>msgs c1 kw1 as stores' c2 kw2. Pull_internal 4 Float_t demo_po demo_keys [] None 0 (Some 1) (demo_customer, demo_worker) = Inr (0, msgs, c1, kw1)
    \<and> rfold (serve 4 Float_t 0 (+)) msgs ([], (\<lambda>_. Map.empty)(8 := [7 \<mapsto> 70], 10 := [18446744073709551613 \<mapsto> 90])) = Inr (as, stores')
    \<and> rfold (receive_one (kw_Process 4 2 (\<lambda>_ st. Inr st))) (rev as) (c1, kw1) = Inr (c2, kw2)
    \<and> kw_out kw2 0 = Some ([0, 70, 90], []) \<and> WaitRequest c2 0 = Inr True"
proof -
  let ?st = "(\<lambda>_. Map.empty)(8 := [7 \<mapsto> 70], 10 := [18446744073709551613 \<mapsto> 90]) :: stores"
  have pre: "0 < (4 :: nat)" "\<forall>id k. store_get (?st id) k < 256 ^ 4" "\<not> kw_zpull demo_worker" "kw_recv_kvs demo_worker 0 = []"
    "0 = int (length (cu_tracker demo_customer))"
    by (simp_all add: demo_worker_def demo_customer_def store_get_def)
  have o: "map (\<lambda>k. store_get (?st (server_of 2 k)) k) demo_keys = [0, 70, 90]"
    by (simp add: server_of_def key_width_def kMaxKey_def ServerRankToID_def demo_keys_def store_get_def)
  have "mset (rev xs) = mset xs" for xs :: "message list" by simp
  moreover have "int 2 = 2" by simp
  ultimately show ?thesis using pull_round [OF demo_round pre, of Float_t 0 1 0 "(+)" "\<lambda>_ st. Inr st"] unfolding o by metis
qed

end
