(* ===== verification/Std_Sort.thy ===== *)
theory Std_Sort
  imports Prelude "HOL-Library.Multiset"
begin

text \<open>
  Sorting: \<open>std::sort\<close> and \<open>std::inplace_merge\<close>, and the parallel sort of
  \<open>src/include/ps/internal/parallel_sort.h\<close> on them.

  \<open>std::sort\<close> leaves the order of equivalent elements open, so the parallel sort has it as an argument
  \<open>srt\<close>, and the interface \<open>std_sort\<close> has what the standard promises of it: a permutation that is
  ordered. \<open>std::inplace_merge\<close> is stable, and the model merges that way. \<open>sort_by\<close> is one sort that meets the
  interface; where no two different elements are equivalent it is every such sort (\<open>sort_unique\<close>), which is how
  the nodes of a cluster are sorted. The two halves a parallel sort works on do not overlap, so its threads are
  run one after the other. The recursion does not end for every grain size: not returning is \<open>None\<close>.
\<close>

section \<open>The library\<close>

fun insert_by :: "('a \<Rightarrow> 'a \<Rightarrow> bool) \<Rightarrow> 'a \<Rightarrow> 'a list \<Rightarrow> 'a list" where
  "insert_by lt x [] = [x]"
| "insert_by lt x (y # ys) = (if lt y x then y # insert_by lt x ys else x # y # ys)"

definition sort_by :: "('a \<Rightarrow> 'a \<Rightarrow> bool) \<Rightarrow> 'a list \<Rightarrow> 'a list" where
  "sort_by lt xs = foldr (insert_by lt) xs []"

fun merge_by :: "('a \<Rightarrow> 'a \<Rightarrow> bool) \<Rightarrow> 'a list \<Rightarrow> 'a list \<Rightarrow> 'a list" where
  "merge_by lt [] bs = bs"
| "merge_by lt (a # as) [] = a # as"
| "merge_by lt (a # as) (b # bs) =
     (if lt b a then b # merge_by lt (a # as) bs else a # merge_by lt as (b # bs))"

lemma mset_merge_by: "mset (merge_by lt as bs) = mset as + mset bs"
  by (induction lt as bs rule: merge_by.induct) auto

lemma set_merge_by: "set (merge_by lt as bs) = set as \<union> set bs"
  by (metis mset_merge_by set_mset_mset set_mset_union)

lemma mset_insert_by: "mset (insert_by lt x xs) = add_mset x (mset xs)"
  by (induction xs) auto

lemma mset_sort_by: "mset (sort_by lt xs) = mset xs"
  by (induction xs) (simp_all add: sort_by_def mset_insert_by)

lemma length_sort_by [simp]: "length (sort_by lt xs) = length xs"
  by (metis mset_sort_by size_mset)

lemma set_sort_by [simp]: "set (sort_by lt xs) = set xs"
  by (metis mset_sort_by set_mset_mset)

lemma set_insert_by [simp]: "set (insert_by lt x xs) = insert x (set xs)"
  by (metis mset_insert_by set_mset_add_mset_insert set_mset_mset)

text \<open>What \<open>std::sort\<close> asks of a comparison: a strict weak order.\<close>

locale strict_weak =
  fixes lt :: "'a \<Rightarrow> 'a \<Rightarrow> bool"
  assumes asym: "lt x y \<Longrightarrow> \<not> lt y x"
    and neg_trans: "lt x z \<Longrightarrow> lt x y \<or> lt y z"
begin

lemma lt_trans: "lt x y \<Longrightarrow> lt y z \<Longrightarrow> lt x z"
  using asym neg_trans by blast

lemma sorted_insert_by: "sorted_wrt (\<lambda>x y. \<not> lt y x) xs \<Longrightarrow> sorted_wrt (\<lambda>x y. \<not> lt y x) (insert_by lt x xs)"
proof (induction xs)
  case (Cons y ys)
  have "\<not> lt z x" if "\<not> lt y x" "z \<in> set ys" for z
    using neg_trans [of z x y] Cons.prems that by auto
  moreover have "\<not> lt x y" if "lt y x" using asym [OF that] .
  ultimately show ?case using Cons by auto
qed simp

lemma sorted_sort_by: "sorted_wrt (\<lambda>x y. \<not> lt y x) (sort_by lt xs)"
  by (induction xs) (simp_all add: sort_by_def sorted_insert_by)

lemma sorted_merge_by:
  "sorted_wrt (\<lambda>x y. \<not> lt y x) as \<Longrightarrow> sorted_wrt (\<lambda>x y. \<not> lt y x) bs \<Longrightarrow>
    sorted_wrt (\<lambda>x y. \<not> lt y x) (merge_by lt as bs)"
proof (induction as arbitrary: bs)
  case (Cons a as)
  note outer = Cons
  show ?case
    using Cons.prems(2)
  proof (induction bs)
    case (Cons b bs)
    have "set (merge_by lt as (b # bs)) = set as \<union> set (b # bs)" "set (merge_by lt (a # as) bs) = set (a # as) \<union> set bs"
      by (simp_all add: set_merge_by)
    moreover have "\<not> lt z b" if "lt b a" "z \<in> set (a # as)" for z
      using asym neg_trans [of z b a] outer(2) that by auto
    moreover have "\<not> lt z a" if "\<not> lt b a" "z \<in> set (b # bs)" for z
      using neg_trans [of z a b] Cons.prems that by auto
    ultimately show ?case using outer Cons by auto
  qed (use outer(2) in simp)
qed simp

text \<open>An ordered arrangement is unique when no two different elements are equivalent.\<close>

lemma sort_unique:
  assumes "mset xs = mset ys" and "sorted_wrt (\<lambda>x y. \<not> lt y x) xs" and "sorted_wrt (\<lambda>x y. \<not> lt y x) ys"
    and "\<And>x y. x \<in> set xs \<Longrightarrow> y \<in> set xs \<Longrightarrow> \<not> lt x y \<Longrightarrow> \<not> lt y x \<Longrightarrow> x = y"
  shows "xs = ys"
  using assms
proof (induction xs arbitrary: ys)
  case (Cons x xs)
  then obtain y ys' where ys: "ys = y # ys'" by (cases ys) auto
  have sets: "set ys = set (x # xs)" using Cons.prems(1) by (metis set_mset_mset)
  have "x \<in> set ys" "y \<in> set (x # xs)" using sets ys by auto
  then have "\<not> lt x y \<or> x = y" "\<not> lt y x \<or> x = y" using Cons.prems(2,3) ys by auto
  then have "x = y" using Cons.prems(4) [of x y] \<open>y \<in> set (x # xs)\<close> by auto
  with Cons ys show ?case by auto
qed simp

end

text \<open>What the standard promises of \<open>std::sort\<close> for such a comparison.\<close>

locale std_sort = strict_weak lt for lt :: "'a \<Rightarrow> 'a \<Rightarrow> bool" +
  fixes srt :: "('a \<Rightarrow> 'a \<Rightarrow> bool) \<Rightarrow> 'a list \<Rightarrow> 'a list"
  assumes srt_perm: "mset (srt lt xs) = mset xs"
    and srt_sorted: "sorted_wrt (\<lambda>x y. \<not> lt y x) (srt lt xs)"

lemma sort_by_std_sort:
  assumes "strict_weak lt"
  shows "std_sort lt sort_by"
  by (intro std_sort.intro std_sort_axioms.intro assms mset_sort_by strict_weak.sorted_sort_by)

section \<open>Parallel sort\<close>

partial_function (option) parallel_sort :: "(('a \<Rightarrow> 'a \<Rightarrow> bool) \<Rightarrow> 'a list \<Rightarrow> 'a list) \<Rightarrow> ('a \<Rightarrow> 'a \<Rightarrow> bool)
    \<Rightarrow> nat \<Rightarrow> 'a list \<Rightarrow> 'a list option" where
  "parallel_sort srt cmp grainsize data =
     (if length data \<le> grainsize then Some (srt cmp data)
      else Option.bind (parallel_sort srt cmp grainsize (take (length data div 2) data)) (\<lambda>lo.
           Option.bind (parallel_sort srt cmp grainsize (drop (length data div 2) data)) (\<lambda>hi.
             Some (merge_by cmp lo hi))))"

definition grain :: "nat \<Rightarrow> int \<Rightarrow> nat" where
  "grain len num_threads = max (len div nat num_threads + 5) (1024 * 16)"

text \<open>The comparison is \<open>None\<close> when it converts to \<open>false\<close>: an empty \<open>std::function\<close> or a null pointer.\<close>

definition ParallelSort :: "(('a \<Rightarrow> 'a \<Rightarrow> bool) \<Rightarrow> 'a list \<Rightarrow> 'a list) \<Rightarrow> ('a \<Rightarrow> 'a \<Rightarrow> bool) option
    \<Rightarrow> int \<Rightarrow> 'a list \<Rightarrow> 'a list option res" where
  "ParallelSort srt cmp num_threads arr =
     rbind (check (num_threads > 0) ''num_threads > 0'') (\<lambda>_.
     rbind (check (cmp \<noteq> None) ''cmp'') (\<lambda>_.
       Inr (parallel_sort srt (the cmp) (grain (length arr) num_threads) arr)))"

context std_sort
begin

lemma parallel_sort_sorts:
  assumes "0 < g"
  shows "\<exists>out. parallel_sort srt lt g xs = Some out \<and> mset out = mset xs \<and> sorted_wrt (\<lambda>x y. \<not> lt y x) out"
proof (induction "length xs" arbitrary: xs rule: less_induct)
  case less
  show ?case
  proof (cases "length xs \<le> g")
    case True
    then show ?thesis using srt_perm srt_sorted by (simp add: parallel_sort.simps)
  next
    case False
    let ?h = "length xs div 2"
    have "2 \<le> length xs" using False assms by linarith
    then have "length (take ?h xs) < length xs" "length (drop ?h xs) < length xs" by auto
    from less [OF this(1)] less [OF this(2)] obtain lo hi where
      parts: "parallel_sort srt lt g (take ?h xs) = Some lo" "parallel_sort srt lt g (drop ?h xs) = Some hi"
      and lo: "mset lo = mset (take ?h xs)" "sorted_wrt (\<lambda>x y. \<not> lt y x) lo"
      and hi: "mset hi = mset (drop ?h xs)" "sorted_wrt (\<lambda>x y. \<not> lt y x) hi" by blast
    have "mset (take ?h xs) + mset (drop ?h xs) = mset xs" by (metis append_take_drop_id mset_append)
    then have "mset (merge_by lt lo hi) = mset xs" using lo(1) hi(1) by (simp add: mset_merge_by)
    with sorted_merge_by [OF lo(2) hi(2)] False parts show ?thesis by (subst parallel_sort.simps) simp
  qed
qed

end

text \<open>C24: The parallel sort ends and sorts. Let \<open>std::sort\<close> be any function that arranges its elements in an order
  the comparison, a strict weak order, allows. Then for every array and every positive number of threads the
  parallel sort returns, with the elements of the array in an order the comparison allows; where no two
  different elements are equivalent, it returns exactly what the sequential \<open>std::sort\<close> does. A number of
  threads that is not positive, and then an empty comparison, are rejected.\<close>

theorem parallel_sort_is_sort:
  assumes "std_sort lt srt"
  shows "(num_threads \<le> 0 \<longrightarrow> ParallelSort srt cmp num_threads arr = Inl (Check_Failed ''num_threads > 0''))
    \<and> (0 < num_threads \<longrightarrow> ParallelSort srt None num_threads arr = Inl (Check_Failed ''cmp'')
        \<and> (\<exists>out. ParallelSort srt (Some lt) num_threads arr = Inr (Some out)
             \<and> mset out = mset arr \<and> sorted_wrt (\<lambda>x y. \<not> lt y x) out
             \<and> ((\<forall>x \<in> set arr. \<forall>y \<in> set arr. \<not> lt x y \<and> \<not> lt y x \<longrightarrow> x = y) \<longrightarrow> out = srt lt arr)))"
proof -
  have "0 < grain (length arr) num_threads" by (simp add: grain_def)
  from std_sort.parallel_sort_sorts [OF assms this] obtain out where
    out: "parallel_sort srt lt (grain (length arr) num_threads) arr = Some out"
    "mset out = mset arr" "sorted_wrt (\<lambda>x y. \<not> lt y x) out" by blast
  have "out = srt lt arr" if "\<forall>x \<in> set arr. \<forall>y \<in> set arr. \<not> lt x y \<and> \<not> lt y x \<longrightarrow> x = y"
  proof (rule strict_weak.sort_unique)
    show "strict_weak lt" using assms by (simp add: std_sort_def)
    show "mset out = mset (srt lt arr)" using out(2) std_sort.srt_perm [OF assms] by simp
    show "sorted_wrt (\<lambda>x y. \<not> lt y x) (srt lt arr)" by (rule std_sort.srt_sorted [OF assms])
    have "set out = set arr" using out(2) by (metis set_mset_mset)
    with that show "\<And>x y. x \<in> set out \<Longrightarrow> y \<in> set out \<Longrightarrow> \<not> lt x y \<Longrightarrow> \<not> lt y x \<Longrightarrow> x = y" by blast
  qed (rule out(3))
  with out show ?thesis by (auto simp: ParallelSort_def rbind_check)
qed

text \<open>The comparison of keys, \<open>std::less\<close>.\<close>

lemma strict_weak_less: "strict_weak ((<) :: nat \<Rightarrow> nat \<Rightarrow> bool)"
  by unfold_locales auto

interpretation nat_less: std_sort "(<) :: nat \<Rightarrow> nat \<Rightarrow> bool" sort_by
  by (rule sort_by_std_sort [OF strict_weak_less])

theorem parallel_sort_is_sort_witness:
  "std_sort ((<) :: nat \<Rightarrow> nat \<Rightarrow> bool) sort_by
    \<and> ParallelSort sort_by (Some (<)) 2 [3, 1, 2 :: nat] = Inr (Some [1, 2, 3])
    \<and> ParallelSort sort_by None 2 [3, 1, 2 :: nat] = Inl (Check_Failed ''cmp'')"
  using parallel_sort_is_sort [OF sort_by_std_sort [OF strict_weak_less], of 2 None "[3, 1, 2]"]
    sort_by_std_sort [OF strict_weak_less]
  by (auto simp: sort_by_def)

end
