(* ===== verification/Serializer.thy ===== *)
theory Serializer
  imports Memory_Io Std_Sort
begin

text \<open>
  The serializer of \<open>dmlc\<close> (\<open>serializer.h\<close>, with \<open>ByteSwap\<close> of \<open>endian.h\<close> and the array helpers of \<open>io.h\<close>, under
  \<open>src/src/mlt/include/dmlc\<close>): objects of composed types written to a stream and read back.

  The templates choose a handler by the type of the data, so that types are data here: \<open>ty\<close> has a constructor for
  each type with a handler. An object of an arithmetic or plain type is its bytes in memory, a string the bytes of its characters, a container
  the sequence of its elements. Which bytes are a valid representation of an arithmetic or plain type is not modelled: the handlers copy any, and
  \<open>wf_val\<close> asks only for their number. What the compiler and the machine decide is collected in \<open>ser_env\<close>. Reading yields \<open>None\<close> where
  the code returns \<open>false\<close>; what it leaves in the destination then is not modelled. The hash containers, whose order after insertion is
  unspecified, and user classes with \<open>Save\<close> and \<open>Load\<close> are left out.

  The proofs use only the stream interface \<open>seek_stream\<close>, and hold for both memory streams.
\<close>

section \<open>Types and objects\<close>

text \<open>The numbers are sizes in bytes; for a plain type also its alignment.\<close>

datatype ty = TArith nat | TPod nat nat | TVec ty | TStr nat | TPair ty ty
  | TSet ty | TMultiset ty | TMap ty ty | TMultimap ty ty | TList ty | TDeque ty

datatype val = Obj (obj_of: "byte list") | Seq (seq_of: "val list") | Two (fst_of: val) (snd_of: val)

text \<open>\<open>se_swap\<close>: the machine's byte order is not that of the format; \<open>se_pad\<close>: the content of padding; \<open>se_max\<close>: \<open>max_size()\<close> of a
  container of elements of a size; \<open>se_less\<close>: the order of a type.\<close>

record ser_env =
  se_swap :: bool
  se_pad :: byte
  se_max :: "nat \<Rightarrow> nat"
  se_less :: "ty \<Rightarrow> val \<Rightarrow> val \<Rightarrow> bool"

primrec is_pod :: "ty \<Rightarrow> bool" where
  "is_pod (TArith n) = True"
| "is_pod (TPod n a) = True"
| "is_pod (TVec t) = False"
| "is_pod (TStr n) = False"
| "is_pod (TPair a b) = False"
| "is_pod (TSet t) = False"
| "is_pod (TMultiset t) = False"
| "is_pod (TMap a b) = False"
| "is_pod (TMultimap a b) = False"
| "is_pod (TList t) = False"
| "is_pod (TDeque t) = False"

definition align_up :: "nat \<Rightarrow> nat \<Rightarrow> nat" where
  "align_up x a = (x + a - 1) div a * a"

primrec alignof :: "ty \<Rightarrow> nat" where
  "alignof (TArith n) = n"
| "alignof (TPod n a) = a"
| "alignof (TVec t) = 8"
| "alignof (TStr n) = 8"
| "alignof (TPair a b) = max (alignof a) (alignof b)"
| "alignof (TSet t) = 8"
| "alignof (TMultiset t) = 8"
| "alignof (TMap a b) = 8"
| "alignof (TMultimap a b) = 8"
| "alignof (TList t) = 8"
| "alignof (TDeque t) = 8"

primrec sizeof :: "ty \<Rightarrow> nat" where
  "sizeof (TArith n) = n"
| "sizeof (TPod n a) = n"
| "sizeof (TVec t) = 24"
| "sizeof (TStr n) = 32"
| "sizeof (TPair a b) = align_up (align_up (sizeof a) (alignof b) + sizeof b) (max (alignof a) (alignof b))"
| "sizeof (TSet t) = 48"
| "sizeof (TMultiset t) = 48"
| "sizeof (TMap a b) = 48"
| "sizeof (TMultimap a b) = 48"
| "sizeof (TList t) = 24"
| "sizeof (TDeque t) = 80"

section \<open>Handlers of plain data\<close>

definition swap_step :: "nat \<Rightarrow> nat \<Rightarrow> nat \<Rightarrow> byte list \<Rightarrow> byte list" where
  "swap_step elem_bytes base j d =
     (let v = d ! (base + (elem_bytes - 1 - j)) in (d[base + (elem_bytes - 1 - j) := d ! (base + j)])[base + j := v])"

definition ByteSwap :: "nat \<Rightarrow> nat \<Rightarrow> byte list \<Rightarrow> byte list" where
  "ByteSwap elem_bytes num_elems d =
     fold (\<lambda>i. fold (swap_step elem_bytes (elem_bytes * i)) [0..<elem_bytes div 2]) [0..<num_elems] d"

type_synonym 's wr = "'s \<Rightarrow> byte list \<Rightarrow> 's res"
type_synonym 's rd = "'s \<Rightarrow> nat \<Rightarrow> (byte list \<times> 's) res"
type_synonym ('s, 'a) reader = "'s \<Rightarrow> ('a option \<times> 's) res"

definition Arithmetic_Write :: "ser_env \<Rightarrow> 's wr \<Rightarrow> nat \<Rightarrow> val \<Rightarrow> 's \<Rightarrow> 's res" where
  "Arithmetic_Write E wr n v s = wr s (if se_swap E then ByteSwap n 1 (obj_of v) else obj_of v)"

definition Arithmetic_Read :: "ser_env \<Rightarrow> 's rd \<Rightarrow> nat \<Rightarrow> ('s, val) reader" where
  "Arithmetic_Read E rd n s = rbind (rd s n) (\<lambda>(d, s1).
     Inr (if length d = n then Some (Obj (if se_swap E then ByteSwap n 1 d else d)) else None, s1))"

definition NativePOD_Write :: "'s wr \<Rightarrow> val \<Rightarrow> 's \<Rightarrow> 's res" where
  "NativePOD_Write wr v s = wr s (obj_of v)"

definition NativePOD_Read :: "'s rd \<Rightarrow> nat \<Rightarrow> ('s, val) reader" where
  "NativePOD_Read rd n s = rbind (rd s n) (\<lambda>(d, s1). Inr (if length d = n then Some (Obj d) else None, s1))"

text \<open>The handler a type without one is given; code that uses it does not compile.\<close>

definition UndefinedSerializerFor :: "'a res" where
  "UndefinedSerializerFor = Inl (Undefined_Behaviour ''UndefinedSerializerFor'')"

section \<open>Handlers of containers\<close>

text \<open>A \<open>uint64_t\<close> as it lies in memory, and the element counts.\<close>

definition host_u64 :: "ser_env \<Rightarrow> nat \<Rightarrow> byte list" where
  "host_u64 E n = (if se_swap E then rev (le_bytes 8 n) else le_bytes 8 n)"

definition host_val :: "ser_env \<Rightarrow> byte list \<Rightarrow> nat" where
  "host_val E d = le_val (if se_swap E then rev d else d)"

definition write_size :: "ser_env \<Rightarrow> 's wr \<Rightarrow> nat \<Rightarrow> 's \<Rightarrow> 's res" where
  "write_size E wr sz s = Arithmetic_Write E wr 8 (Obj (host_u64 E (u64 sz))) s"

definition read_size :: "ser_env \<Rightarrow> 's rd \<Rightarrow> ('s, nat) reader" where
  "read_size E rd s = rbind (Arithmetic_Read E rd 8 s) (\<lambda>(r, s1). Inr (map_option (host_val E \<circ> obj_of) r, s1))"

text \<open>Reading a count and resizing the destination, which throws beyond \<open>max_size()\<close>.\<close>

definition read_resized :: "ser_env \<Rightarrow> 's rd \<Rightarrow> nat \<Rightarrow> (nat \<Rightarrow> ('s, val) reader) \<Rightarrow> ('s, val) reader" where
  "read_resized E rd n body s = rbind (read_size E rd s) (\<lambda>(r, s1).
     case r of None \<Rightarrow> Inr (None, s1)
     | Some sz \<Rightarrow> if sz \<le> se_max E n then body sz s1 else Inl (Fatal ''length_error''))"

definition PODVector_Write :: "ser_env \<Rightarrow> 's wr \<Rightarrow> val list \<Rightarrow> 's \<Rightarrow> 's res" where
  "PODVector_Write E wr vec s = rbind (write_size E wr (length vec) s) (\<lambda>s1.
     if u64 (length vec) \<noteq> 0 then wr s1 (concat (map obj_of vec)) else Inr s1)"

definition elements :: "nat \<Rightarrow> nat \<Rightarrow> byte list \<Rightarrow> val list" where
  "elements n sz d = map (\<lambda>i. Obj (take n (drop (n * i) d))) [0..<sz]"

definition PODVector_Read :: "ser_env \<Rightarrow> 's rd \<Rightarrow> nat \<Rightarrow> ('s, val) reader" where
  "PODVector_Read E rd n = read_resized E rd n (\<lambda>sz s.
     if sz \<noteq> 0 then rbind (rd s (u64 (n * sz))) (\<lambda>(d, s1).
       Inr (if length d = u64 (n * sz) then Some (Seq (elements n sz d)) else None, s1))
     else Inr (Some (Seq []), s))"

definition PODString_Write :: "ser_env \<Rightarrow> 's wr \<Rightarrow> nat \<Rightarrow> val \<Rightarrow> 's \<Rightarrow> 's res" where
  "PODString_Write E wr n v s = rbind (write_size E wr (length (obj_of v) div n) s) (\<lambda>s1.
     if u64 (length (obj_of v) div n) \<noteq> 0 then wr s1 (obj_of v) else Inr s1)"

definition PODString_Read :: "ser_env \<Rightarrow> 's rd \<Rightarrow> nat \<Rightarrow> ('s, val) reader" where
  "PODString_Read E rd n = read_resized E rd n (\<lambda>sz s.
     if sz \<noteq> 0 then NativePOD_Read rd (u64 (n * sz)) s else Inr (Some (Obj []), s))"

definition WriteArray :: "(val \<Rightarrow> 's \<Rightarrow> 's res) \<Rightarrow> val list \<Rightarrow> 's \<Rightarrow> 's res" where
  "WriteArray w = rfold w"

fun ReadArray :: "('s, val) reader \<Rightarrow> nat \<Rightarrow> ('s, val list) reader" where
  "ReadArray r 0 s = Inr (Some [], s)"
| "ReadArray r (Suc n) s = rbind (r s) (\<lambda>(v, s1).
     case v of None \<Rightarrow> Inr (None, s1)
     | Some x \<Rightarrow> rbind (ReadArray r n s1) (\<lambda>(vs, s2). Inr (map_option ((#) x) vs, s2)))"

definition ComposeVector_Write :: "ser_env \<Rightarrow> 's wr \<Rightarrow> (val \<Rightarrow> 's \<Rightarrow> 's res) \<Rightarrow> val list \<Rightarrow> 's \<Rightarrow> 's res" where
  "ComposeVector_Write E wr w vec s = rbind (write_size E wr (length vec) s) (WriteArray w vec)"

definition ComposeVector_Read :: "ser_env \<Rightarrow> 's rd \<Rightarrow> nat \<Rightarrow> ('s, val) reader \<Rightarrow> ('s, val) reader" where
  "ComposeVector_Read E rd n r = read_resized E rd n (\<lambda>sz s.
     rbind (ReadArray r sz s) (\<lambda>(vs, s1). Inr (map_option Seq vs, s1)))"

definition Vector_Write :: "ser_env \<Rightarrow> 's wr \<Rightarrow> bool \<Rightarrow> (val \<Rightarrow> 's \<Rightarrow> 's res) \<Rightarrow> val \<Rightarrow> 's \<Rightarrow> 's res" where
  "Vector_Write E wr pod w v =
     (if pod \<and> \<not> se_swap E then PODVector_Write E wr (seq_of v) else ComposeVector_Write E wr w (seq_of v))"

definition Vector_Read :: "ser_env \<Rightarrow> 's rd \<Rightarrow> bool \<Rightarrow> nat \<Rightarrow> ('s, val) reader \<Rightarrow> ('s, val) reader" where
  "Vector_Read E rd pod n r =
     (if pod \<and> \<not> se_swap E then PODVector_Read E rd n else ComposeVector_Read E rd n r)"

text \<open>A pair of plain types is written as it lies in memory, with its padding.\<close>

definition pair_object :: "ser_env \<Rightarrow> ty \<Rightarrow> ty \<Rightarrow> val \<Rightarrow> byte list" where
  "pair_object E a b v =
     (let off = align_up (sizeof a) (alignof b) in
      obj_of (fst_of v) @ replicate (off - sizeof a) (se_pad E) @ obj_of (snd_of v)
        @ replicate (sizeof (TPair a b) - (off + sizeof b)) (se_pad E))"

definition pair_of_object :: "ty \<Rightarrow> ty \<Rightarrow> byte list \<Rightarrow> val" where
  "pair_of_object a b d = Two (Obj (take (sizeof a) d)) (Obj (take (sizeof b) (drop (align_up (sizeof a) (alignof b)) d)))"

definition Pair_Write :: "ser_env \<Rightarrow> 's wr \<Rightarrow> ty \<Rightarrow> ty \<Rightarrow> (val \<Rightarrow> 's \<Rightarrow> 's res) \<Rightarrow> (val \<Rightarrow> 's \<Rightarrow> 's res) \<Rightarrow> val \<Rightarrow> 's \<Rightarrow> 's res" where
  "Pair_Write E wr a b wa wb v s =
     (if is_pod a \<and> is_pod b \<and> \<not> se_swap E then NativePOD_Write wr (Obj (pair_object E a b v)) s
      else rbind (wa (fst_of v) s) (wb (snd_of v)))"

definition Pair_Read :: "ser_env \<Rightarrow> 's rd \<Rightarrow> ty \<Rightarrow> ty \<Rightarrow> ('s, val) reader \<Rightarrow> ('s, val) reader \<Rightarrow> ('s, val) reader" where
  "Pair_Read E rd a b ra rb s =
     (if is_pod a \<and> is_pod b \<and> \<not> se_swap E
      then rbind (NativePOD_Read rd (sizeof (TPair a b)) s) (\<lambda>(r, s1). Inr (map_option (pair_of_object a b \<circ> obj_of) r, s1))
      else rbind (ra s) (\<lambda>(x, s1). case x of None \<Rightarrow> Inr (None, s1)
        | Some va \<Rightarrow> rbind (rb s1) (\<lambda>(y, s2). Inr (map_option (Two va) y, s2))))"

text \<open>Insertion into an ordered container: after the elements that are not greater, and not at all if equivalent to one of them and \<open>unique\<close>.\<close>

fun insert_one :: "bool \<Rightarrow> (val \<Rightarrow> val \<Rightarrow> bool) \<Rightarrow> val \<Rightarrow> val list \<Rightarrow> val list" where
  "insert_one unique lt x [] = [x]"
| "insert_one unique lt x (y # ys) =
     (if lt x y then x # y # ys else if unique \<and> \<not> lt y x then y # ys else y # insert_one unique lt x ys)"

definition Collection_Read :: "bool \<Rightarrow> (val \<Rightarrow> val \<Rightarrow> bool) \<Rightarrow> ('s, val) reader \<Rightarrow> ('s, val) reader" where
  "Collection_Read unique lt r s = rbind (r s) (\<lambda>(v, s1).
     Inr (map_option (\<lambda>vdata. Seq (fold (insert_one unique lt) (seq_of vdata) [])) v, s1))"

definition by_key :: "(val \<Rightarrow> val \<Rightarrow> bool) \<Rightarrow> val \<Rightarrow> val \<Rightarrow> bool" where
  "by_key lt x y = lt (fst_of x) (fst_of y)"

section \<open>The handler of a type\<close>

primrec h_Write :: "ser_env \<Rightarrow> 's wr \<Rightarrow> ty \<Rightarrow> val \<Rightarrow> 's \<Rightarrow> 's res" where
  "h_Write E wr (TArith n) = Arithmetic_Write E wr n"
| "h_Write E wr (TPod n a) = (if \<not> se_swap E then NativePOD_Write wr else (\<lambda>_ _. UndefinedSerializerFor))"
| "h_Write E wr (TVec t) = Vector_Write E wr (is_pod t) (h_Write E wr t)"
| "h_Write E wr (TStr n) = (if \<not> se_swap E \<or> n = 1 then PODString_Write E wr n else (\<lambda>_ _. UndefinedSerializerFor))"
| "h_Write E wr (TPair a b) = Pair_Write E wr a b (h_Write E wr a) (h_Write E wr b)"
| "h_Write E wr (TSet t) = Vector_Write E wr (is_pod t) (h_Write E wr t)"
| "h_Write E wr (TMultiset t) = Vector_Write E wr (is_pod t) (h_Write E wr t)"
| "h_Write E wr (TMap a b) = Vector_Write E wr False (Pair_Write E wr a b (h_Write E wr a) (h_Write E wr b))"
| "h_Write E wr (TMultimap a b) = Vector_Write E wr False (Pair_Write E wr a b (h_Write E wr a) (h_Write E wr b))"
| "h_Write E wr (TList t) = Vector_Write E wr (is_pod t) (h_Write E wr t)"
| "h_Write E wr (TDeque t) = Vector_Write E wr (is_pod t) (h_Write E wr t)"

primrec h_Read :: "ser_env \<Rightarrow> 's rd \<Rightarrow> ty \<Rightarrow> ('s, val) reader" where
  "h_Read E rd (TArith n) = Arithmetic_Read E rd n"
| "h_Read E rd (TPod n a) = (if \<not> se_swap E then NativePOD_Read rd n else (\<lambda>_. UndefinedSerializerFor))"
| "h_Read E rd (TVec t) = Vector_Read E rd (is_pod t) (sizeof t) (h_Read E rd t)"
| "h_Read E rd (TStr n) = (if \<not> se_swap E \<or> n = 1 then PODString_Read E rd n else (\<lambda>_. UndefinedSerializerFor))"
| "h_Read E rd (TPair a b) = Pair_Read E rd a b (h_Read E rd a) (h_Read E rd b)"
| "h_Read E rd (TSet t) = Collection_Read True (se_less E t) (Vector_Read E rd (is_pod t) (sizeof t) (h_Read E rd t))"
| "h_Read E rd (TMultiset t) = Collection_Read False (se_less E t) (Vector_Read E rd (is_pod t) (sizeof t) (h_Read E rd t))"
| "h_Read E rd (TMap a b) = Collection_Read True (by_key (se_less E a))
     (Vector_Read E rd False (sizeof (TPair a b)) (Pair_Read E rd a b (h_Read E rd a) (h_Read E rd b)))"
| "h_Read E rd (TMultimap a b) = Collection_Read False (by_key (se_less E a))
     (Vector_Read E rd False (sizeof (TPair a b)) (Pair_Read E rd a b (h_Read E rd a) (h_Read E rd b)))"
| "h_Read E rd (TList t) = Vector_Read E rd (is_pod t) (sizeof t) (h_Read E rd t)"
| "h_Read E rd (TDeque t) = Vector_Read E rd (is_pod t) (sizeof t) (h_Read E rd t)"

section \<open>The format\<close>

text \<open>Which types have a handler, which values a type has, and the bytes that are to be written.\<close>

primrec supported :: "ser_env \<Rightarrow> ty \<Rightarrow> bool" where
  "supported E (TArith n) = (0 < n)"
| "supported E (TPod n a) = (0 < n \<and> 0 < a \<and> \<not> se_swap E)"
| "supported E (TVec t) = supported E t"
| "supported E (TStr n) = (0 < n \<and> (\<not> se_swap E \<or> n = 1))"
| "supported E (TPair a b) = (supported E a \<and> supported E b)"
| "supported E (TSet t) = supported E t"
| "supported E (TMultiset t) = supported E t"
| "supported E (TMap a b) = (supported E a \<and> supported E b)"
| "supported E (TMultimap a b) = (supported E a \<and> supported E b)"
| "supported E (TList t) = supported E t"
| "supported E (TDeque t) = supported E t"

definition wf_obj :: "nat \<Rightarrow> val \<Rightarrow> bool" where
  "wf_obj n v = (case v of Obj d \<Rightarrow> length d = n | _ \<Rightarrow> False)"

definition wf_seq :: "ser_env \<Rightarrow> nat \<Rightarrow> (val \<Rightarrow> bool) \<Rightarrow> val \<Rightarrow> bool" where
  "wf_seq E n P v = (case v of Seq vs \<Rightarrow> list_all P vs \<and> length vs \<le> se_max E n | _ \<Rightarrow> False)"

definition wf_two :: "(val \<Rightarrow> bool) \<Rightarrow> (val \<Rightarrow> bool) \<Rightarrow> val \<Rightarrow> bool" where
  "wf_two P Q v = (case v of Two x y \<Rightarrow> P x \<and> Q y | _ \<Rightarrow> False)"

definition ordered :: "bool \<Rightarrow> (val \<Rightarrow> val \<Rightarrow> bool) \<Rightarrow> val \<Rightarrow> bool" where
  "ordered unique lt v = sorted_wrt (\<lambda>x y. \<not> lt y x \<and> (unique \<longrightarrow> lt x y)) (seq_of v)"

primrec wf_val :: "ser_env \<Rightarrow> ty \<Rightarrow> val \<Rightarrow> bool" where
  "wf_val E (TArith n) = wf_obj n"
| "wf_val E (TPod n a) = wf_obj n"
| "wf_val E (TVec t) = wf_seq E (sizeof t) (wf_val E t)"
| "wf_val E (TStr n) = (\<lambda>v. wf_obj (length (obj_of v)) v \<and> n dvd length (obj_of v) \<and> length (obj_of v) div n \<le> se_max E n)"
| "wf_val E (TPair a b) = wf_two (wf_val E a) (wf_val E b)"
| "wf_val E (TSet t) = (\<lambda>v. wf_seq E (sizeof t) (wf_val E t) v \<and> ordered True (se_less E t) v)"
| "wf_val E (TMultiset t) = (\<lambda>v. wf_seq E (sizeof t) (wf_val E t) v \<and> ordered False (se_less E t) v)"
| "wf_val E (TMap a b) = (\<lambda>v. wf_seq E (sizeof (TPair a b)) (wf_two (wf_val E a) (wf_val E b)) v \<and> ordered True (by_key (se_less E a)) v)"
| "wf_val E (TMultimap a b) = (\<lambda>v. wf_seq E (sizeof (TPair a b)) (wf_two (wf_val E a) (wf_val E b)) v \<and> ordered False (by_key (se_less E a)) v)"
| "wf_val E (TList t) = wf_seq E (sizeof t) (wf_val E t)"
| "wf_val E (TDeque t) = wf_seq E (sizeof t) (wf_val E t)"

definition enc_seq :: "(val \<Rightarrow> byte list) \<Rightarrow> val \<Rightarrow> byte list" where
  "enc_seq e v = le_bytes 8 (length (seq_of v)) @ concat (map e (seq_of v))"

definition enc_pair :: "ser_env \<Rightarrow> ty \<Rightarrow> ty \<Rightarrow> (val \<Rightarrow> byte list) \<Rightarrow> (val \<Rightarrow> byte list) \<Rightarrow> val \<Rightarrow> byte list" where
  "enc_pair E a b ea eb v =
     (if is_pod a \<and> is_pod b \<and> \<not> se_swap E then pair_object E a b v else ea (fst_of v) @ eb (snd_of v))"

primrec enc :: "ser_env \<Rightarrow> ty \<Rightarrow> val \<Rightarrow> byte list" where
  "enc E (TArith n) = (\<lambda>v. if se_swap E then rev (obj_of v) else obj_of v)"
| "enc E (TPod n a) = obj_of"
| "enc E (TVec t) = enc_seq (enc E t)"
| "enc E (TStr n) = (\<lambda>v. le_bytes 8 (length (obj_of v) div n) @ obj_of v)"
| "enc E (TPair a b) = enc_pair E a b (enc E a) (enc E b)"
| "enc E (TSet t) = enc_seq (enc E t)"
| "enc E (TMultiset t) = enc_seq (enc E t)"
| "enc E (TMap a b) = enc_seq (enc_pair E a b (enc E a) (enc E b))"
| "enc E (TMultimap a b) = enc_seq (enc_pair E a b (enc E a) (enc E b))"
| "enc E (TList t) = enc_seq (enc E t)"
| "enc E (TDeque t) = enc_seq (enc E t)"

text \<open>A container's bytes can be counted in 64 bits.\<close>

definition env_ok :: "ser_env \<Rightarrow> bool" where
  "env_ok E \<longleftrightarrow> (\<forall>n. se_max E n < 2 ^ 64 \<and> n * se_max E n < 2 ^ 64)"

section \<open>Lemmas on bytes\<close>

lemma swap_steps:
  "m \<le> length d div 2 \<Longrightarrow> length (fold (swap_step (length d) 0) [0..<m] d) = length d
    \<and> (\<forall>i < length d. fold (swap_step (length d) 0) [0..<m] d ! i = (if i < m \<or> length d - m \<le> i then rev d ! i else d ! i))"
proof (induction m)
  case (Suc m)
  define n f where "n = length d" and "f = fold (swap_step n 0) [0..<m] d"
  have m: "2 * m + 2 \<le> n" using Suc.prems by (simp add: n_def)
  have f: "length f = n" "\<forall>i < n. f ! i = (if i < m \<or> n - m \<le> i then rev d ! i else d ! i)"
    using Suc by (simp_all add: n_def f_def)
  have g: "swap_step n 0 m f ! i = (if i = m then f ! (n - 1 - m) else if i = n - 1 - m then f ! m else f ! i)" if "i < n" for i
    using that m f(1) by (simp add: swap_step_def Let_def nth_list_update)
  have r: "rev d ! i = d ! (n - 1 - i)" if "i < n" for i using that by (simp add: rev_nth n_def)
  have "swap_step n 0 m f ! i = (if i < Suc m \<or> n - Suc m \<le> i then rev d ! i else d ! i)" if i: "i < n" for i
  proof -
    consider "i = m" | "i = n - 1 - m" "i \<noteq> m" | "i \<noteq> m" "i \<noteq> n - 1 - m" by blast
    then show ?thesis
    proof cases
      case 3
      then have "i < Suc m \<longleftrightarrow> i < m" "n - Suc m \<le> i \<longleftrightarrow> n - m \<le> i" using m by linarith+
      with 3 show ?thesis using g [OF i] f(2) i by simp
    qed (use g [OF i] f(2) r [OF i] m in auto)
  qed
  moreover have "length (swap_step n 0 m f) = n" using f(1) by (simp add: swap_step_def Let_def)
  ultimately show ?case by (simp add: n_def f_def)
qed simp

lemma ByteSwap_rev:
  assumes "length d = n"
  shows "ByteSwap n (Suc 0) d = rev d"
proof -
  have "fold (swap_step n 0) [0..<n div 2] d = rev d"
  proof (rule nth_equalityI)
    fix i
    assume "i < length (fold (swap_step n 0) [0..<n div 2] d)"
    then have "i < n" using swap_steps [of "n div 2" d] assms by simp
    moreover have "d ! i = rev d ! i" if "\<not> i < n div 2" "\<not> n - n div 2 \<le> i"
    proof -
      have "i = n - Suc i" using that by linarith
      then show ?thesis using \<open>i < n\<close> assms by (simp add: rev_nth)
    qed
    ultimately show "fold (swap_step n 0) [0..<n div 2] d ! i = rev d ! i"
      using swap_steps [of "n div 2" d] assms by auto
  qed (use swap_steps [of "n div 2" d] assms in simp)
  then show ?thesis by (simp add: ByteSwap_def)
qed

lemma elements_concat:
  "list_all (wf_obj n) vs \<Longrightarrow> elements n (length vs) (concat (map obj_of vs)) = vs"
proof (induction vs)
  case (Cons v vs)
  then obtain d where v: "v = Obj d" "length d = n" by (cases v) (auto simp: wf_obj_def)
  have "elements n (length (v # vs)) (d @ r) = Obj d # elements n (length vs) r" for r
    using v(2) unfolding elements_def length_Cons upt_conv_Cons [OF zero_less_Suc] map_Suc_upt [symmetric]
    by (simp add: map_Suc_upt [symmetric] comp_def del: upt_Suc)
  with Cons v(1) show ?case by simp
qed (simp add: elements_def)

lemma length_objs: "list_all (wf_obj n) vs \<Longrightarrow> length (concat (map obj_of vs)) = n * length vs"
  by (induction vs) (auto simp: wf_obj_def split: val.splits)

lemma insert_sorted:
  "sorted_wrt (\<lambda>x y. \<not> lt y x \<and> (u \<longrightarrow> lt x y)) (xs @ [x]) \<Longrightarrow> insert_one u lt x xs = xs @ [x]"
  by (induction xs) (auto simp: sorted_wrt_append)

lemma insert_all_sorted:
  "sorted_wrt (\<lambda>x y. \<not> lt y x \<and> (u \<longrightarrow> lt x y)) (xs @ ys) \<Longrightarrow> fold (insert_one u lt) ys xs = xs @ ys"
proof (induction ys arbitrary: xs)
  case (Cons y ys)
  then have "sorted_wrt (\<lambda>x y. \<not> lt y x \<and> (u \<longrightarrow> lt x y)) (xs @ [y])" by (auto simp: sorted_wrt_append)
  from insert_sorted [OF this] Cons show ?case by simp
qed simp

lemma align_up_ge: "0 < a \<Longrightarrow> x \<le> align_up x a"
proof -
  assume a: "0 < a"
  have "(x + a - 1) mod a < a" using a by simp
  moreover have "(x + a - 1) div a * a + (x + a - 1) mod a = x + a - 1" by simp
  ultimately show ?thesis using a unfolding align_up_def by linarith
qed

lemma alignof_pos: "supported E t \<Longrightarrow> 0 < alignof t"
  by (induction t) auto

lemma pair_object_inverse:
  assumes "supported E a" "supported E b" "wf_obj (sizeof a) x" "wf_obj (sizeof b) y"
  shows "length (pair_object E a b (Two x y)) = sizeof (TPair a b)"
    and "pair_of_object a b (pair_object E a b (Two x y)) = Two x y"
proof -
  obtain p q where "x = Obj p" "length p = sizeof a" "y = Obj q" "length q = sizeof b"
    using assms(3,4) by (auto simp: wf_obj_def split: val.splits)
  moreover have "sizeof a \<le> align_up (sizeof a) (alignof b)" using assms(2) by (simp add: align_up_ge alignof_pos)
  moreover have "align_up (sizeof a) (alignof b) + sizeof b \<le> sizeof (TPair a b)"
    using alignof_pos [OF assms(1)] by (simp add: align_up_ge)
  ultimately show "length (pair_object E a b (Two x y)) = sizeof (TPair a b)"
    "pair_of_object a b (pair_object E a b (Two x y)) = Two x y"
    by (simp_all add: pair_object_def pair_of_object_def Let_def)
qed

lemma pod_obj: "is_pod t \<Longrightarrow> wf_val E t = wf_obj (sizeof t)"
  by (cases t) auto

lemma pod_enc: "is_pod t \<Longrightarrow> \<not> se_swap E \<Longrightarrow> enc E t = obj_of"
  by (cases t) (auto simp: fun_eq_iff)

section \<open>Over any stream\<close>

context seek_stream
begin

text \<open>\<open>appends s bs r\<close>: the run \<open>r\<close>, started in \<open>s\<close>, wrote \<open>bs\<close>.
  \<open>gets s k v r\<close>: it read \<open>k\<close> bytes and returned \<open>v\<close>. \<open>holds s bs\<close>: \<open>bs\<close> is next to be read.\<close>

definition appends :: "'s \<Rightarrow> byte list \<Rightarrow> 's res \<Rightarrow> bool" where
  "appends s bs r \<longleftrightarrow> (\<exists>s'. r = Inr s' \<and> invar s' \<and> tell s' = tell s + length bs
     \<and> take (tell s') (content s') = take (tell s) (content s) @ bs \<and> (\<forall>n. room s (length bs + n) \<longrightarrow> room s' n))"

definition holds :: "'s \<Rightarrow> byte list \<Rightarrow> bool" where
  "holds s bs \<longleftrightarrow> invar s \<and> take (length bs) (drop (tell s) (content s)) = bs"

definition gets :: "'s \<Rightarrow> nat \<Rightarrow> 'b \<Rightarrow> ('b option \<times> 's) res \<Rightarrow> bool" where
  "gets s k v r \<longleftrightarrow> (\<exists>s'. r = Inr (Some v, s') \<and> invar s' \<and> tell s' = tell s + k \<and> content s' = content s)"

lemma appends_put: "invar s \<Longrightarrow> room s (length bs) \<Longrightarrow> appends s bs (put s bs)"
  unfolding appends_def by (rule write_ok)

lemma appends_nothing: "invar s \<Longrightarrow> appends s [] (Inr s)"
  by (simp add: appends_def)

lemma appends_bind:
  assumes "appends s a r" and "room s (length (a @ b))"
    and "\<And>s'. invar s' \<Longrightarrow> room s' (length b) \<Longrightarrow> appends s' b (f s')"
  shows "appends s (a @ b) (rbind r f)"
proof -
  from assms(1) obtain s1 where s1: "r = Inr s1" "invar s1" "tell s1 = tell s + length a"
    "take (tell s1) (content s1) = take (tell s) (content s) @ a" "\<forall>n. room s (length a + n) \<longrightarrow> room s1 n"
    by (auto simp: appends_def)
  with assms(2,3) have "appends s1 b (f s1)" by simp
  with s1 show ?thesis by (auto simp: appends_def add.assoc)
qed

lemma appends_rfold:
  assumes "\<And>x s. x \<in> set xs \<Longrightarrow> invar s \<Longrightarrow> room s (length (e x)) \<Longrightarrow> appends s (e x) (w x s)"
    and "invar s" and "room s (length (concat (map e xs)))"
  shows "appends s (concat (map e xs)) (rfold w xs s)"
  using assms
proof (induction xs arbitrary: s)
  case (Cons x xs)
  have "appends s (e x) (w x s)" using Cons.prems room_mono by simp
  then have "appends s (e x @ concat (map e xs)) (rbind (w x s) (rfold w xs))"
    by (rule appends_bind) (use Cons in auto)
  then show ?case by simp
qed (simp add: appends_nothing)

lemma holds_append:
  assumes "holds s (a @ b)"
  shows "holds s a"
    and "invar s' \<Longrightarrow> tell s' = tell s + length a \<Longrightarrow> content s' = content s \<Longrightarrow> holds s' b"
proof -
  let ?x = "drop (tell s) (content s)"
  have x: "take (length a + length b) ?x = a @ b" using assms by (simp add: holds_def)
  have "take (length a) ?x = take (length a) (take (length a + length b) ?x)" by (simp add: min_def)
  then show "holds s a" using assms by (simp add: x holds_def)
  have "take (length b) (drop (length a) ?x) = drop (length a) (take (length a + length b) ?x)" by (simp add: drop_take)
  then show "invar s' \<Longrightarrow> tell s' = tell s + length a \<Longrightarrow> content s' = content s \<Longrightarrow> holds s' b"
    by (simp add: x holds_def add.commute)
qed

lemma fetch_holds:
  assumes "holds s bs"
  shows "\<exists>s'. fetch s (length bs) = Inr (bs, s') \<and> invar s' \<and> tell s' = tell s + length bs \<and> content s' = content s"
proof -
  have "length (take (length bs) (drop (tell s) (content s))) = length bs" using assms by (simp add: holds_def)
  then have "tell s + length bs \<le> length (content s)" using tell_le [of s] assms by (auto simp: holds_def)
  with read_ok [of s "length bs"] assms show ?thesis by (auto simp: holds_def)
qed

lemma gets_bind:
  assumes "holds s (a @ b)" and "gets s (length a) v r" and "\<And>s'. holds s' b \<Longrightarrow> gets s' (length b) w (f (Some v, s'))"
  shows "gets s (length (a @ b)) w (rbind r f)"
proof -
  from assms(2) obtain s1 where s1: "r = Inr (Some v, s1)" "invar s1" "tell s1 = tell s + length a" "content s1 = content s"
    by (auto simp: gets_def)
  with assms(1,3) holds_append(2) have "gets s1 (length b) w (f (Some v, s1))" by blast
  with s1 show ?thesis by (auto simp: gets_def)
qed

lemma gets_map:
  assumes "gets s k v r"
  shows "gets s k (g v) (rbind r (\<lambda>(x, s1). Inr (map_option g x, s1)))"
  using assms by (auto simp: gets_def)

lemma gets_array:
  assumes "\<And>x s. x \<in> set xs \<Longrightarrow> holds s (e x) \<Longrightarrow> gets s (length (e x)) x (r s)" and "holds s (concat (map e xs))"
  shows "gets s (length (concat (map e xs))) xs (ReadArray r (length xs) s)"
  using assms
proof (induction xs arbitrary: s)
  case Nil
  then show ?case by (simp add: gets_def holds_def)
next
  case (Cons x xs)
  have h: "holds s (e x @ concat (map e xs))" using Cons.prems(2) by simp
  from Cons.prems(1) [of x] holds_append(1) [OF h] have "gets s (length (e x)) x (r s)" by simp
  from gets_bind [OF h this, of "x # xs"] Cons.IH Cons.prems(1) show ?case
    by (simp add: gets_map [of _ _ xs _ "(#) x"])
qed

lemma write_size_appends:
  assumes "n < 2 ^ 64" "invar s" "room s 8"
  shows "appends s (le_bytes 8 n) (write_size E put n s)"
  using appends_put [OF assms(2), of "le_bytes 8 n"] assms(1,3)
  by (simp add: write_size_def Arithmetic_Write_def host_u64_def ByteSwap_rev cast_simps)

lemma read_size_gets:
  assumes "n < 2 ^ 64" "holds s (le_bytes 8 n)"
  shows "gets s 8 n (read_size E fetch s)"
  using fetch_holds [OF assms(2)] assms(1)
  by (auto simp: gets_def read_size_def Arithmetic_Read_def ByteSwap_rev host_val_def le_val_le_bytes_id)

lemma read_resized_gets:
  assumes "env_ok E" "n \<le> se_max E k" "holds s (le_bytes 8 n @ bs)" "\<And>s'. holds s' bs \<Longrightarrow> gets s' (length bs) v (body n s')"
  shows "gets s (length (le_bytes 8 n @ bs)) v (read_resized E fetch k body s)"
proof -
  have "n < 2 ^ 64" using assms(1,2) unfolding env_ok_def by (meson le_less_trans)
  then have "gets s (length (le_bytes 8 n)) n (read_size E fetch s)"
    using read_size_gets [of n s E] holds_append(1) [OF assms(3)] by simp
  from gets_bind [OF assms(3) this, of v] assms(2,4) show ?thesis by (simp add: read_resized_def)
qed

text \<open>What a handler of elements promises, and that the handlers of vectors and pairs keep it.\<close>

definition writes :: "(val \<Rightarrow> bool) \<Rightarrow> (val \<Rightarrow> byte list) \<Rightarrow> (val \<Rightarrow> 's \<Rightarrow> 's res) \<Rightarrow> bool" where
  "writes P e w \<longleftrightarrow> (\<forall>v s. P v \<longrightarrow> invar s \<longrightarrow> room s (length (e v)) \<longrightarrow> appends s (e v) (w v s))"

definition restores :: "(val \<Rightarrow> bool) \<Rightarrow> (val \<Rightarrow> byte list) \<Rightarrow> ('s \<Rightarrow> (val option \<times> 's) res) \<Rightarrow> bool" where
  "restores P e r \<longleftrightarrow> (\<forall>v s. P v \<longrightarrow> holds s (e v) \<longrightarrow> gets s (length (e v)) v (r s))"

lemma Arithmetic_handler:
  "writes (wf_obj n) (enc E (TArith n)) (Arithmetic_Write E put n)"
  "restores (wf_obj n) (enc E (TArith n)) (Arithmetic_Read E fetch n)"
proof -
  show "writes (wf_obj n) (enc E (TArith n)) (Arithmetic_Write E put n)"
    using appends_put by (auto simp: writes_def Arithmetic_Write_def wf_obj_def ByteSwap_rev split: val.splits)
  show "restores (wf_obj n) (enc E (TArith n)) (Arithmetic_Read E fetch n)"
    using fetch_holds
    by (fastforce simp: restores_def Arithmetic_Read_def gets_def wf_obj_def ByteSwap_rev split: val.splits)
qed

lemma NativePOD_handler:
  "writes P obj_of (NativePOD_Write put)"
  "restores (wf_obj n) obj_of (NativePOD_Read fetch n)"
proof -
  show "writes P obj_of (NativePOD_Write put)" using appends_put by (auto simp: writes_def NativePOD_Write_def)
  show "restores (wf_obj n) obj_of (NativePOD_Read fetch n)"
    using fetch_holds by (fastforce simp: restores_def NativePOD_Read_def gets_def wf_obj_def split: val.splits)
qed

lemma Compose_handler:
  assumes "env_ok E" and "writes P e w" and "restores P e r"
  shows "writes (wf_seq E n P) (enc_seq e) (\<lambda>v. ComposeVector_Write E put w (seq_of v))"
    and "restores (wf_seq E n P) (enc_seq e) (ComposeVector_Read E fetch n r)"
proof -
  have lt: "k \<le> se_max E n \<Longrightarrow> k < 2 ^ 64" for k using assms(1) unfolding env_ok_def by (meson le_less_trans)
  have "appends s (enc_seq e (Seq vs)) (ComposeVector_Write E put w vs s)"
    if vs: "list_all P vs" "length vs \<le> se_max E n" "invar s" "room s (length (enc_seq e (Seq vs)))" for vs s
  proof -
    have "appends s (le_bytes 8 (length vs)) (write_size E put (length vs) s)"
      using vs lt room_mono by (intro write_size_appends) (auto simp: enc_seq_def)
    then have "appends s (le_bytes 8 (length vs) @ concat (map e vs)) (rbind (write_size E put (length vs) s) (rfold w vs))"
    proof (rule appends_bind)
      show "appends s' (concat (map e vs)) (rfold w vs s')" if "invar s'" "room s' (length (concat (map e vs)))" for s'
        using that vs(1) assms(2) by (intro appends_rfold) (auto simp: writes_def list_all_iff)
    qed (use vs(4) in \<open>simp add: enc_seq_def\<close>)
    then show ?thesis by (simp add: ComposeVector_Write_def WriteArray_def enc_seq_def)
  qed
  then show "writes (wf_seq E n P) (enc_seq e) (\<lambda>v. ComposeVector_Write E put w (seq_of v))"
    by (auto simp: writes_def wf_seq_def split: val.splits)
  have "gets s (length (enc_seq e (Seq vs))) (Seq vs) (ComposeVector_Read E fetch n r s)"
    if vs: "list_all P vs" "length vs \<le> se_max E n" "holds s (enc_seq e (Seq vs))" for vs s
    unfolding ComposeVector_Read_def enc_seq_def val.sel
  proof (rule read_resized_gets [OF assms(1) vs(2)])
    show "gets s' (length (concat (map e vs))) (Seq vs) (rbind (ReadArray r (length vs) s') (\<lambda>(vs, s1). Inr (map_option Seq vs, s1)))"
      if "holds s' (concat (map e vs))" for s'
      using that vs(1) assms(3) by (intro gets_map gets_array) (auto simp: restores_def list_all_iff)
  qed (use vs(3) in \<open>simp add: enc_seq_def\<close>)
  then show "restores (wf_seq E n P) (enc_seq e) (ComposeVector_Read E fetch n r)"
    by (auto simp: restores_def wf_seq_def split: val.splits)
qed

lemma PODVector_handler:
  assumes "env_ok E"
  shows "writes (wf_seq E n (wf_obj n)) (enc_seq obj_of) (\<lambda>v. PODVector_Write E put (seq_of v))"
    and "restores (wf_seq E n (wf_obj n)) (enc_seq obj_of) (PODVector_Read E fetch n)"
proof -
  have lt: "k \<le> se_max E n \<Longrightarrow> k < 2 ^ 64" "k \<le> se_max E n \<Longrightarrow> n * k < 2 ^ 64" for k
    using assms unfolding env_ok_def by (meson le_less_trans mult_le_mono2)+
  have "appends s (enc_seq obj_of (Seq vs)) (PODVector_Write E put vs s)"
    if vs: "length vs \<le> se_max E n" "invar s" "room s (length (enc_seq obj_of (Seq vs)))" for vs s
  proof -
    have l: "length vs < 2 ^ 64" using lt(1) vs(1) by blast
    have "appends s (le_bytes 8 (length vs)) (write_size E put (length vs) s)"
      using vs l room_mono by (intro write_size_appends) (auto simp: enc_seq_def)
    then show ?thesis unfolding PODVector_Write_def enc_seq_def val.sel
      by (rule appends_bind) (use vs(3) l appends_put appends_nothing in \<open>auto simp: enc_seq_def cast_simps\<close>)
  qed
  then show "writes (wf_seq E n (wf_obj n)) (enc_seq obj_of) (\<lambda>v. PODVector_Write E put (seq_of v))"
    by (auto simp: writes_def wf_seq_def split: val.splits)
  have "gets s (length (enc_seq obj_of (Seq vs))) (Seq vs) (PODVector_Read E fetch n s)"
    if vs: "list_all (wf_obj n) vs" "length vs \<le> se_max E n" "holds s (enc_seq obj_of (Seq vs))" for vs s
    unfolding PODVector_Read_def enc_seq_def val.sel
  proof (rule read_resized_gets [OF assms vs(2)])
    let ?d = "concat (map obj_of vs)"
    have u: "u64 (n * length vs) = length ?d" using lt(2) [OF vs(2)] by (simp add: length_objs [OF vs(1)] cast_simps)
    show "gets s' (length ?d) (Seq vs) (if length vs \<noteq> 0 then rbind (fetch s' (u64 (n * length vs))) (\<lambda>(d, s1).
        Inr (if length d = u64 (n * length vs) then Some (Seq (elements n (length vs) d)) else None, s1))
      else Inr (Some (Seq []), s'))" if "holds s' ?d" for s'
      using fetch_holds [OF that] that unfolding u by (auto simp: gets_def elements_concat [OF vs(1)] holds_def)
  qed (use vs(3) in \<open>simp add: enc_seq_def\<close>)
  then show "restores (wf_seq E n (wf_obj n)) (enc_seq obj_of) (PODVector_Read E fetch n)"
    by (auto simp: restores_def wf_seq_def split: val.splits)
qed

lemma String_handler:
  assumes "env_ok E" and "0 < n"
  shows "writes (wf_val E (TStr n)) (enc E (TStr n)) (PODString_Write E put n)"
    and "restores (wf_val E (TStr n)) (enc E (TStr n)) (PODString_Read E fetch n)"
proof -
  have lt: "k \<le> se_max E n \<Longrightarrow> k < 2 ^ 64" "k \<le> se_max E n \<Longrightarrow> n * k < 2 ^ 64" for k
    using assms unfolding env_ok_def by (meson le_less_trans mult_le_mono2)+
  have "appends s (enc E (TStr n) (Obj d)) (PODString_Write E put n (Obj d) s)"
    if d: "n dvd length d" "length d div n \<le> se_max E n" "invar s" "room s (length (enc E (TStr n) (Obj d)))" for d s
  proof -
    have l: "length d div n < 2 ^ 64" using lt(1) d(2) by blast
    have z: "length d div n = 0 \<Longrightarrow> d = []" using d(1) assms(2) by (auto simp: dvd_def)
    have "appends s (le_bytes 8 (length d div n)) (write_size E put (length d div n) s)"
      using d l room_mono by (intro write_size_appends) auto
    then show ?thesis unfolding PODString_Write_def enc.simps val.sel
      by (rule appends_bind) (use d(4) l z appends_put appends_nothing in \<open>auto simp: cast_simps\<close>)
  qed
  then show "writes (wf_val E (TStr n)) (enc E (TStr n)) (PODString_Write E put n)"
    by (auto simp: writes_def wf_obj_def split: val.splits)
  have "gets s (length (enc E (TStr n) (Obj d))) (Obj d) (PODString_Read E fetch n s)"
    if d: "n dvd length d" "length d div n \<le> se_max E n" "holds s (enc E (TStr n) (Obj d))" for d s
    unfolding PODString_Read_def enc.simps val.sel
  proof (rule read_resized_gets [OF assms(1) d(2)])
    have u: "u64 (n * (length d div n)) = length d" using lt(2) [OF d(2)] d(1) by (simp add: cast_simps)
    have z: "length d div n = 0 \<Longrightarrow> d = []" using d(1) assms(2) by (auto simp: dvd_def)
    show "gets s' (length d) (Obj d) (if length d div n \<noteq> 0 then NativePOD_Read fetch (u64 (n * (length d div n))) s'
        else Inr (Some (Obj []), s'))" if h: "holds s' d" for s'
    proof (cases "length d div n = 0")
      case True
      with z h show ?thesis by (auto simp: gets_def holds_def)
    next
      case False
      have "wf_obj (length d) (Obj d)" by (simp add: wf_obj_def)
      with NativePOD_handler(2) h have "gets s' (length d) (Obj d) (NativePOD_Read fetch (length d) s')"
        unfolding restores_def by (metis val.sel(1))
      with False show ?thesis unfolding u by simp
    qed
  qed (use d(3) in simp)
  then show "restores (wf_val E (TStr n)) (enc E (TStr n)) (PODString_Read E fetch n)"
    by (auto simp: restores_def wf_obj_def split: val.splits)
qed

lemma Vector_handler:
  assumes "env_ok E" and "writes (wf_val E t) (enc E t) w" and "restores (wf_val E t) (enc E t) r"
  shows "writes (wf_seq E (sizeof t) (wf_val E t)) (enc_seq (enc E t)) (Vector_Write E put (is_pod t) w)"
    and "restores (wf_seq E (sizeof t) (wf_val E t)) (enc_seq (enc E t)) (Vector_Read E fetch (is_pod t) (sizeof t) r)"
proof -
  have pod: "is_pod t \<and> \<not> se_swap E \<Longrightarrow> wf_val E t = wf_obj (sizeof t) \<and> enc E t = obj_of" by (simp add: pod_obj pod_enc)
  show "writes (wf_seq E (sizeof t) (wf_val E t)) (enc_seq (enc E t)) (Vector_Write E put (is_pod t) w)"
  proof (cases "is_pod t \<and> \<not> se_swap E")
    case True
    then have "Vector_Write E put (is_pod t) w = (\<lambda>v. PODVector_Write E put (seq_of v))" by (simp add: Vector_Write_def fun_eq_iff)
    with PODVector_handler(1) [OF assms(1)] pod [OF True] show ?thesis by metis
  next
    case False
    then have "Vector_Write E put (is_pod t) w = (\<lambda>v. ComposeVector_Write E put w (seq_of v))" unfolding Vector_Write_def by auto
    with Compose_handler(1) [OF assms] show ?thesis by metis
  qed
  show "restores (wf_seq E (sizeof t) (wf_val E t)) (enc_seq (enc E t)) (Vector_Read E fetch (is_pod t) (sizeof t) r)"
  proof (cases "is_pod t \<and> \<not> se_swap E")
    case True
    with PODVector_handler(2) [OF assms(1)] pod [OF True] show ?thesis by (metis Vector_Read_def)
  next
    case False
    with Compose_handler(2) [OF assms] show ?thesis by (metis Vector_Read_def)
  qed
qed

lemma Pair_handler:
  assumes "supported E a" "supported E b"
    and "writes (wf_val E a) (enc E a) wa" and "restores (wf_val E a) (enc E a) ra"
    and "writes (wf_val E b) (enc E b) wb" and "restores (wf_val E b) (enc E b) rb"
  shows "writes (wf_two (wf_val E a) (wf_val E b)) (enc_pair E a b (enc E a) (enc E b)) (Pair_Write E put a b wa wb)"
    and "restores (wf_two (wf_val E a) (wf_val E b)) (enc_pair E a b (enc E a) (enc E b)) (Pair_Read E fetch a b ra rb)"
proof -
  let ?pod = "is_pod a \<and> is_pod b \<and> \<not> se_swap E" and ?e = "enc_pair E a b (enc E a) (enc E b)"
  have "appends s (?e (Two x y)) (Pair_Write E put a b wa wb (Two x y) s)"
    if v: "wf_val E a x" "wf_val E b y" "invar s" "room s (length (?e (Two x y)))" for x y s
  proof (cases ?pod)
    case True
    with v appends_put show ?thesis by (simp add: Pair_Write_def enc_pair_def NativePOD_Write_def)
  next
    case False
    have "appends s (enc E a x) (wa x s)"
      using v False assms(3) room_mono [of s "length (enc E a x)"] by (auto simp: writes_def enc_pair_def)
    then have "appends s (enc E a x @ enc E b y) (rbind (wa x s) (wb y))"
      by (rule appends_bind) (use v False assms(5) in \<open>auto simp: writes_def enc_pair_def\<close>)
    with False show ?thesis by (auto simp: Pair_Write_def enc_pair_def)
  qed
  then show "writes (wf_two (wf_val E a) (wf_val E b)) ?e (Pair_Write E put a b wa wb)"
    by (auto simp: writes_def wf_two_def split: val.splits)
  have "gets s (length (?e (Two x y))) (Two x y) (Pair_Read E fetch a b ra rb s)"
    if v: "wf_val E a x" "wf_val E b y" "holds s (?e (Two x y))" for x y s
  proof (cases ?pod)
    case True
    then have w: "wf_obj (sizeof a) x" "wf_obj (sizeof b) y" using v pod_obj by auto
    note p = pair_object_inverse [OF assms(1,2) w]
    let ?d = "pair_object E a b (Two x y)"
    have h: "holds s ?d" using v(3) True by (simp add: enc_pair_def)
    have "wf_obj (sizeof (TPair a b)) (Obj ?d)" unfolding wf_obj_def val.case by (rule p(1))
    with NativePOD_handler(2) h have "gets s (length ?d) (Obj ?d) (NativePOD_Read fetch (sizeof (TPair a b)) s)"
      unfolding restores_def by (metis val.sel(1))
    from gets_map [OF this, of "pair_of_object a b \<circ> obj_of"] True show ?thesis
      by (simp add: Pair_Read_def enc_pair_def p(2))
  next
    case False
    have h: "holds s (enc E a x @ enc E b y)" using v(3) False by (auto simp: enc_pair_def)
    have "gets s (length (enc E a x)) x (ra s)" using v(1) assms(4) holds_append(1) [OF h] by (simp add: restores_def)
    then have "gets s (length (enc E a x @ enc E b y)) (Two x y) (rbind (ra s) (\<lambda>(x, s1). case x of None \<Rightarrow> Inr (None, s1)
        | Some va \<Rightarrow> rbind (rb s1) (\<lambda>(y, s2). Inr (map_option (Two va) y, s2))))"
    proof (rule gets_bind [OF h])
      show "gets s' (length (enc E b y)) (Two x y) (case (Some x, s') of (x, s1) \<Rightarrow> case x of None \<Rightarrow> Inr (None, s1)
          | Some va \<Rightarrow> rbind (rb s1) (\<lambda>(y, s2). Inr (map_option (Two va) y, s2)))" if "holds s' (enc E b y)" for s'
        using that v(2) assms(6) by (simp add: restores_def gets_map [where g = "Two x"])
    qed
    with False show ?thesis by (auto simp: Pair_Read_def enc_pair_def)
  qed
  then show "restores (wf_two (wf_val E a) (wf_val E b)) ?e (Pair_Read E fetch a b ra rb)"
    by (auto simp: restores_def wf_two_def split: val.splits)
qed

lemma Collection_handler:
  assumes "restores (wf_seq E n P) e r"
  shows "restores (\<lambda>v. wf_seq E n P v \<and> ordered u lt v) e (Collection_Read u lt r)"
proof -
  have "gets s (length (e v)) v (Collection_Read u lt r s)" if v: "wf_seq E n P v" "ordered u lt v" "holds s (e v)" for v s
  proof -
    have "gets s (length (e v)) v (r s)" using v assms by (simp add: restores_def)
    from gets_map [OF this, of "\<lambda>w. Seq (fold (insert_one u lt) (seq_of w) [])"] show ?thesis
      using v(1,2) insert_all_sorted [of lt u "[]" "seq_of v"]
      by (auto simp: Collection_Read_def ordered_def wf_seq_def split: val.splits)
  qed
  then show ?thesis by (simp add: restores_def)
qed

lemma writes_weaken: "writes P e w \<Longrightarrow> (\<And>v. Q v \<Longrightarrow> P v) \<Longrightarrow> writes Q e w"
  by (auto simp: writes_def)

lemma pair_as_element:
  "enc E (TPair a b) = enc_pair E a b (enc E a) (enc E b)" "wf_val E (TPair a b) = wf_two (wf_val E a) (wf_val E b)"
  "is_pod (TPair a b) = False"
  by simp_all

lemma Map_handler:
  assumes "env_ok E" "supported E a" "supported E b"
    and "writes (wf_val E a) (enc E a) wa" and "restores (wf_val E a) (enc E a) ra"
    and "writes (wf_val E b) (enc E b) wb" and "restores (wf_val E b) (enc E b) rb"
  shows "writes (\<lambda>v. wf_seq E (sizeof (TPair a b)) (wf_two (wf_val E a) (wf_val E b)) v \<and> ordered u lt v)
      (enc_seq (enc_pair E a b (enc E a) (enc E b))) (Vector_Write E put False (Pair_Write E put a b wa wb))"
    and "restores (\<lambda>v. wf_seq E (sizeof (TPair a b)) (wf_two (wf_val E a) (wf_val E b)) v \<and> ordered u lt v)
      (enc_seq (enc_pair E a b (enc E a) (enc E b)))
      (Collection_Read u lt (Vector_Read E fetch False (sizeof (TPair a b)) (Pair_Read E fetch a b ra rb)))"
  using Vector_handler [OF assms(1), of "TPair a b", unfolded pair_as_element, OF Pair_handler [OF assms(2-7)]]
  by (auto intro: Collection_handler writes_weaken simp del: sizeof.simps)

lemma handler:
  assumes "env_ok E" and "supported E t"
  shows "writes (wf_val E t) (enc E t) (h_Write E put t) \<and> restores (wf_val E t) (enc E t) (h_Read E fetch t)"
  using assms(2)
proof (induction t)
  case (TArith n)
  then show ?case using Arithmetic_handler by simp
next
  case (TPod n a)
  then show ?case using NativePOD_handler by simp
next
  case (TVec t)
  then show ?case using Vector_handler [OF assms(1), of t "h_Write E put t" "h_Read E fetch t"] by simp
next
  case (TStr n)
  then show ?case using String_handler [OF assms(1), of n] by (auto simp del: enc.simps wf_val.simps)
next
  case (TPair a b)
  then show ?case using Pair_handler [of E a b "h_Write E put a" "h_Read E fetch a" "h_Write E put b" "h_Read E fetch b"] by simp
next
  case (TSet t)
  then show ?case using Vector_handler [OF assms(1), of t "h_Write E put t" "h_Read E fetch t"]
    by (auto intro: Collection_handler writes_weaken)
next
  case (TMultiset t)
  then show ?case using Vector_handler [OF assms(1), of t "h_Write E put t" "h_Read E fetch t"]
    by (auto intro: Collection_handler writes_weaken)
next
  case (TMap a b)
  then show ?case using Map_handler [OF assms(1), of a b "h_Write E put a" "h_Read E fetch a" "h_Write E put b" "h_Read E fetch b"]
    by (simp del: sizeof.simps)
next
  case (TMultimap a b)
  then show ?case using Map_handler [OF assms(1), of a b "h_Write E put a" "h_Read E fetch a" "h_Write E put b" "h_Read E fetch b"]
    by (simp del: sizeof.simps)
next
  case (TList t)
  then show ?case using Vector_handler [OF assms(1), of t "h_Write E put t" "h_Read E fetch t"] by simp
next
  case (TDeque t)
  then show ?case using Vector_handler [OF assms(1), of t "h_Write E put t" "h_Read E fetch t"] by simp
qed

text \<open>Writing a value, going back and reading it.\<close>

lemma round_trip:
  assumes "env_ok E" "supported E t" "wf_val E t v" "invar s" "room s (length (enc E t v))"
  shows "\<exists>s' s''. h_Write E put t v s = Inr s' \<and> tell s' = tell s + length (enc E t v)
    \<and> take (tell s') (content s') = take (tell s) (content s) @ enc E t v
    \<and> h_Read E fetch t (seek s' (tell s)) = Inr (Some v, s'') \<and> tell s'' = tell s'"
proof -
  have w: "writes (wf_val E t) (enc E t) (h_Write E put t)" and r: "restores (wf_val E t) (enc E t) (h_Read E fetch t)"
    using handler [OF assms(1,2)] by simp_all
  from w assms(3-5) have "appends s (enc E t v) (h_Write E put t v s)" by (simp add: writes_def)
  then obtain s' where s': "h_Write E put t v s = Inr s'" "invar s'" "tell s' = tell s + length (enc E t v)"
    "take (tell s') (content s') = take (tell s) (content s) @ enc E t v" by (auto simp: appends_def)
  have k: "invar (seek s' (tell s))" "tell (seek s' (tell s)) = tell s" "content (seek s' (tell s)) = content s'"
    using seek_ok [OF s'(2), of "tell s"] s'(3) by simp_all
  have "take (length (enc E t v)) (drop (tell s) (content s')) = drop (tell s) (take (tell s') (content s'))"
    by (simp add: s'(3) drop_take)
  also have "\<dots> = enc E t v" using tell_le [OF assms(4)] by (simp add: s'(4))
  finally have "holds (seek s' (tell s)) (enc E t v)" by (simp add: holds_def k)
  with r assms(3) have "gets (seek s' (tell s)) (length (enc E t v)) v (h_Read E fetch t (seek s' (tell s)))" by (simp add: restores_def)
  with s' k show ?thesis by (auto simp: gets_def)
qed

end

section \<open>What a stream delivers\<close>

text \<open>Nothing is known of the bytes that are read here; still, a value that is returned is one of its type.\<close>

definition yields :: "('a \<Rightarrow> bool) \<Rightarrow> ('s, 'a) reader \<Rightarrow> bool" where
  "yields P r \<longleftrightarrow> (\<forall>s v s'. r s = Inr (Some v, s') \<longrightarrow> P v)"

lemma yieldsI: "(\<And>s v s'. r s = Inr (Some v, s') \<Longrightarrow> P v) \<Longrightarrow> yields P r"
  by (simp add: yields_def)

lemma length_swap_steps: "length (fold (swap_step n b) js d) = length d"
  by (induction js arbitrary: d) (simp_all add: swap_step_def Let_def)

lemma length_ByteSwap [simp]: "length (ByteSwap n k d) = length d"
proof -
  have "length (fold (\<lambda>i. fold (swap_step n (n * i)) [0..<n div 2]) is d) = length d" for "is"
    by (induction "is" arbitrary: d) (simp_all add: length_swap_steps)
  then show ?thesis by (simp add: ByteSwap_def)
qed

lemma yields_plain:
  "yields (wf_obj n) (Arithmetic_Read E rd n)" "yields (wf_obj n) (NativePOD_Read rd n)"
  by (auto simp: yields_def Arithmetic_Read_def NativePOD_Read_def rbind_eq_Inr_conv wf_obj_def split: if_splits)

lemma yields_resized:
  "(\<And>sz. sz \<le> se_max E n \<Longrightarrow> yields P (body sz)) \<Longrightarrow> yields P (read_resized E rd n body)"
  by (rule yieldsI) (fastforce simp: yields_def read_resized_def split: option.splits if_splits elim!: rbind_InrE)

lemma yields_array: "yields P r \<Longrightarrow> yields (\<lambda>vs. length vs = n \<and> list_all P vs) (ReadArray r n)"
proof (induction n)
  case (Suc n)
  then show ?case by (fastforce simp: yields_def rbind_eq_Inr_conv split: option.splits)
qed (simp add: yields_def)

lemma yields_vector:
  assumes "env_ok E" and "yields (wf_val E t) r"
  shows "yields (wf_seq E (sizeof t) (wf_val E t)) (Vector_Read E rd (is_pod t) (sizeof t) r)"
proof -
  have lt: "k \<le> se_max E n \<Longrightarrow> n * k < 2 ^ 64" for k n
    using assms(1) unfolding env_ok_def by (meson le_less_trans mult_le_mono2)
  have u: "sz \<le> se_max E (sizeof t) \<Longrightarrow> u64 (sizeof t * sz) = sizeof t * sz" for sz using lt by (auto simp: cast_simps)
  have elements_length: "length (elements n sz d) = sz" for n sz d by (simp add: elements_def)
  have el: "list_all (wf_obj n) (elements n sz d)" if "length d = n * sz" for n sz d
  proof -
    have "n * i + n \<le> n * sz" if "i < sz" for i using mult_le_mono2 [of "Suc i" sz n] that by simp
    then show ?thesis using that by (force simp: elements_def list_all_iff wf_obj_def)
  qed
  have "yields (wf_seq E (sizeof t) (wf_obj (sizeof t))) (PODVector_Read E rd (sizeof t))"
    unfolding PODVector_Read_def
    by (intro yields_resized yieldsI)
      (auto simp: rbind_eq_Inr_conv wf_seq_def u el elements_length split: if_splits)
  moreover have "yields (wf_seq E (sizeof t) (wf_val E t)) (ComposeVector_Read E rd (sizeof t) r)"
    unfolding ComposeVector_Read_def using yields_array [OF assms(2)]
    by (intro yields_resized yieldsI) (fastforce simp: yields_def rbind_eq_Inr_conv wf_seq_def)
  ultimately show ?thesis by (auto simp: Vector_Read_def pod_obj)
qed

lemma yields_string:
  assumes "env_ok E" and "0 < n"
  shows "yields (wf_val E (TStr n)) (PODString_Read E rd n)"
proof -
  have "n * sz < 2 ^ 64" if "sz \<le> se_max E n" for sz
    using assms(1) that unfolding env_ok_def by (meson le_less_trans mult_le_mono2)
  then have u: "sz \<le> se_max E n \<Longrightarrow> u64 (n * sz) = n * sz" for sz by (auto simp: cast_simps)
  show ?thesis unfolding PODString_Read_def
    by (intro yields_resized yieldsI) (use assms(2) in \<open>auto simp: NativePOD_Read_def rbind_eq_Inr_conv u wf_obj_def split: if_splits\<close>)
qed

lemma yields_pair:
  assumes "supported E a" "supported E b" and "yields (wf_val E a) ra" "yields (wf_val E b) rb"
  shows "yields (wf_two (wf_val E a) (wf_val E b)) (Pair_Read E rd a b ra rb)"
proof (rule yieldsI)
  fix s v s'
  assume r: "Pair_Read E rd a b ra rb s = Inr (Some v, s')"
  show "wf_two (wf_val E a) (wf_val E b) v"
  proof (cases "is_pod a \<and> is_pod b \<and> \<not> se_swap E")
    case True
    have "align_up (sizeof a) (alignof b) + sizeof b \<le> sizeof (TPair a b)" "sizeof a \<le> align_up (sizeof a) (alignof b)"
      using alignof_pos [OF assms(1)] alignof_pos [OF assms(2)] by (simp_all add: align_up_ge)
    then show ?thesis using r True unfolding Pair_Read_def
      by (auto simp: NativePOD_Read_def rbind_eq_Inr_conv pair_of_object_def wf_two_def wf_obj_def pod_obj simp del: sizeof.simps split: if_splits)
  next
    case False
    then have "Pair_Read E rd a b ra rb s = rbind (ra s) (\<lambda>(x, s1). case x of None \<Rightarrow> Inr (None, s1)
        | Some va \<Rightarrow> rbind (rb s1) (\<lambda>(y, s2). Inr (map_option (Two va) y, s2)))" by (auto simp: Pair_Read_def)
    with r show ?thesis using assms(3,4)
      by (fastforce simp: yields_def wf_two_def split: option.splits elim!: rbind_InrE)
  qed
qed

lemma insert_one_ordered:
  assumes "strict_weak lt" and "sorted_wrt (\<lambda>x y. \<not> lt y x \<and> (u \<longrightarrow> lt x y)) xs"
  shows "sorted_wrt (\<lambda>x y. \<not> lt y x \<and> (u \<longrightarrow> lt x y)) (insert_one u lt x xs)"
    and "set (insert_one u lt x xs) \<subseteq> insert x (set xs)" and "length (insert_one u lt x xs) \<le> Suc (length xs)"
proof -
  show sub: "set (insert_one u lt x xs) \<subseteq> insert x (set xs)" for xs by (induction xs) auto
  show "length (insert_one u lt x xs) \<le> Suc (length xs)" by (induction xs) auto
  note sw = strict_weak.asym [OF assms(1)] strict_weak.lt_trans [OF assms(1)] strict_weak.neg_trans [OF assms(1)]
  show "sorted_wrt (\<lambda>x y. \<not> lt y x \<and> (u \<longrightarrow> lt x y)) (insert_one u lt x xs)"
    using assms(2)
  proof (induction xs)
    case (Cons y ys)
    have less: "\<not> lt z x \<and> (u \<longrightarrow> lt x z)" if "lt x y" "z \<in> set (y # ys)" for z
    proof -
      have "\<not> lt z y" using that(2) Cons.prems strict_weak.asym [OF assms(1), of y y] by auto
      then have "lt x z" using sw(3) [OF that(1), of z] by blast
      then show ?thesis using sw(1) by blast
    qed
    have greater: "\<not> lt z y \<and> (u \<longrightarrow> lt y z)"
      if "\<not> lt x y" "\<not> (u \<and> \<not> lt y x)" "z \<in> set (insert_one u lt x ys)" for z
    proof -
      have "z = x \<or> z \<in> set ys" using sub [of ys] that(3) by blast
      then show ?thesis using that(1,2) Cons.prems by (elim disjE) simp_all
    qed
    consider "lt x y" | "\<not> lt x y" "u \<and> \<not> lt y x" | "\<not> lt x y" "\<not> (u \<and> \<not> lt y x)" by blast
    then show ?case
    proof cases
      case 1
      then have "insert_one u lt x (y # ys) = x # y # ys" by simp
      with less [OF 1] Cons.prems show ?thesis by (simp only: sorted_wrt.simps) blast
    next
      case 2
      then have "insert_one u lt x (y # ys) = y # ys" by simp
      with Cons.prems show ?thesis by (simp only:)
    next
      case 3
      then have "insert_one u lt x (y # ys) = y # insert_one u lt x ys" by auto
      with greater [OF 3] Cons show ?thesis by (simp only: sorted_wrt.simps) blast
    qed
  qed simp
qed

lemma insert_all_ordered:
  assumes "strict_weak lt" and "sorted_wrt (\<lambda>x y. \<not> lt y x \<and> (u \<longrightarrow> lt x y)) xs"
  shows "sorted_wrt (\<lambda>x y. \<not> lt y x \<and> (u \<longrightarrow> lt x y)) (fold (insert_one u lt) ys xs)
    \<and> set (fold (insert_one u lt) ys xs) \<subseteq> set xs \<union> set ys \<and> length (fold (insert_one u lt) ys xs) \<le> length xs + length ys"
  using assms(2)
proof (induction ys arbitrary: xs)
  case (Cons y ys)
  note i = insert_one_ordered [OF assms(1) Cons.prems, of y]
  from Cons.IH [OF i(1)] i(2,3) show ?case by fastforce
qed simp

lemma yields_collection:
  assumes "strict_weak lt" and "yields (wf_seq E n P) r"
  shows "yields (\<lambda>v. wf_seq E n P v \<and> ordered u lt v) (Collection_Read u lt r)"
proof (rule yieldsI)
  fix s v s'
  assume "Collection_Read u lt r s = Inr (Some v, s')"
  then obtain w where w: "r s = Inr (Some w, s')" "v = Seq (fold (insert_one u lt) (seq_of w) [])"
    by (auto simp: Collection_Read_def elim!: rbind_InrE)
  with assms(2) have "wf_seq E n P w" unfolding yields_def by blast
  then have "list_all P (seq_of w)" "length (seq_of w) \<le> se_max E n" by (auto simp: wf_seq_def split: val.splits)
  with insert_all_ordered [OF assms(1), of u "[]" "seq_of w"] w(2) show "wf_seq E n P v \<and> ordered u lt v"
    by (auto simp: wf_seq_def ordered_def list_all_iff)
qed

lemma strict_weak_key: "strict_weak lt \<Longrightarrow> strict_weak (by_key lt)"
  by (auto simp: strict_weak_def by_key_def)

lemma yields_map:
  assumes "env_ok E" "supported E a" "supported E b" "yields (wf_val E a) ra" "yields (wf_val E b) rb" "strict_weak lt"
  shows "yields (\<lambda>v. wf_seq E (sizeof (TPair a b)) (wf_two (wf_val E a) (wf_val E b)) v \<and> ordered u (by_key lt) v)
    (Collection_Read u (by_key lt) (Vector_Read E rd False (sizeof (TPair a b)) (Pair_Read E rd a b ra rb)))"
  using yields_vector [OF assms(1), of "TPair a b" "Pair_Read E rd a b ra rb" rd] yields_pair [OF assms(2-5)]
    yields_collection [OF strict_weak_key [OF assms(6)]]
  by (simp del: sizeof.simps)

lemma read_typed:
  assumes "env_ok E" and "\<And>t. strict_weak (se_less E t)" and "supported E t"
  shows "yields (wf_val E t) (h_Read E rd t)"
  using assms(3)
proof (induction t)
  case (TStr n)
  then show ?case using yields_string [OF assms(1), of n rd] by (auto simp del: wf_val.simps)
next
  case (TMap a b)
  then show ?case using yields_map [OF assms(1), of a b _ _ _ True rd] assms(2) by (simp del: sizeof.simps)
next
  case (TMultimap a b)
  then show ?case using yields_map [OF assms(1), of a b _ _ _ False rd] assms(2) by (simp del: sizeof.simps)
next
  case (TSet t)
  then show ?case by (simp add: yields_collection [OF assms(2) yields_vector [OF assms(1)]])
next
  case (TMultiset t)
  then show ?case by (simp add: yields_collection [OF assms(2) yields_vector [OF assms(1)]])
next
  case (TPair a b)
  then show ?case using yields_pair [of E a b] by simp
qed (use yields_plain yields_vector [OF assms(1)] in simp_all)

section \<open>Reading is exact\<close>

text \<open>A stream that returns what lies at its cursor, all of it or less, and moves behind it.\<close>

locale prefix_stream = seek_stream +
  assumes fetch_prefix: "invar s \<Longrightarrow> fetch s n = Inr (d, s') \<Longrightarrow>
      invar s' \<and> tell s' = tell s + length d \<and> content s' = content s \<and> take (length d) (drop (tell s) (content s)) = d"
begin

text \<open>\<open>took s bs s'\<close>: going from \<open>s\<close> to \<open>s'\<close>, the bytes \<open>bs\<close> were read and nothing else. \<open>exact e r\<close>: whatever \<open>r\<close> returns,
  it took the bytes \<open>e\<close> has for it.\<close>

definition took :: "'a \<Rightarrow> byte list \<Rightarrow> 'a \<Rightarrow> bool" where
  "took s bs s' \<longleftrightarrow> invar s' \<and> tell s' = tell s + length bs \<and> content s' = content s
     \<and> take (length bs) (drop (tell s) (content s)) = bs"

definition exact :: "('b \<Rightarrow> byte list) \<Rightarrow> ('a \<Rightarrow> ('b option \<times> 'a) res) \<Rightarrow> bool" where
  "exact e r \<longleftrightarrow> (\<forall>s v s'. invar s \<longrightarrow> r s = Inr (Some v, s') \<longrightarrow> took s (e v) s')"

lemma exactI: "(\<And>s v s'. invar s \<Longrightarrow> r s = Inr (Some v, s') \<Longrightarrow> took s (e v) s') \<Longrightarrow> exact e r"
  by (simp add: exact_def)

lemma exactD: "exact e r \<Longrightarrow> invar s \<Longrightarrow> r s = Inr (Some v, s') \<Longrightarrow> took s (e v) s'"
  by (simp add: exact_def)

lemma took_invar: "took s bs s' \<Longrightarrow> invar s'"
  by (simp add: took_def)

lemma took_nothing: "invar s \<Longrightarrow> took s [] s"
  by (simp add: took_def)

lemma took_trans:
  assumes "took s a s1" and "took s1 b s2"
  shows "took s (a @ b) s2"
proof -
  have "take (length a + length b) (drop (tell s) (content s)) =
      take (length a) (drop (tell s) (content s)) @ take (length b) (drop (tell s + length a) (content s))"
    by (simp add: take_add add.commute)
  with assms show ?thesis by (simp add: took_def)
qed

lemma took_fetch: "invar s \<Longrightarrow> fetch s n = Inr (d, s') \<Longrightarrow> took s d s'"
  using fetch_prefix [of s n d s'] by (simp add: took_def)

lemma exact_arith: "exact (enc E (TArith n)) (Arithmetic_Read E fetch n)"
  using took_fetch by (fastforce simp: exact_def Arithmetic_Read_def rbind_eq_Inr_conv ByteSwap_rev split: if_splits)

lemma exact_pod: "exact obj_of (NativePOD_Read fetch n)"
  using took_fetch by (fastforce simp: exact_def NativePOD_Read_def rbind_eq_Inr_conv split: if_splits)

lemma exact_size: "exact (le_bytes 8) (read_size E fetch)"
proof (rule exactI)
  fix s k s'
  assume s: "invar s" "read_size E fetch s = Inr (Some k, s')"
  then obtain d where d: "fetch s 8 = Inr (d, s')" "length d = 8" "k = le_val d"
    by (auto simp: read_size_def Arithmetic_Read_def rbind_eq_Inr_conv host_val_def ByteSwap_rev split: if_splits)
  with took_fetch [OF s(1) d(1)] show "took s (le_bytes 8 k) s'" by (simp add: le_bytes_le_val)
qed

lemma exact_resized:
  assumes "\<And>sz. sz \<le> se_max E n \<Longrightarrow> exact (\<lambda>v. drop 8 (e v)) (body sz)"
    and "\<And>sz s v s'. sz \<le> se_max E n \<Longrightarrow> body sz s = Inr (Some v, s') \<Longrightarrow> take 8 (e v) = le_bytes 8 sz"
  shows "exact e (read_resized E fetch n body)"
proof (rule exactI)
  fix s v s'
  assume s: "invar s" "read_resized E fetch n body s = Inr (Some v, s')"
  then obtain sz s1 where r: "read_size E fetch s = Inr (Some sz, s1)" "sz \<le> se_max E n" "body sz s1 = Inr (Some v, s')"
    by (auto simp: read_resized_def rbind_eq_Inr_conv split: option.splits if_splits)
  note t = exactD [OF exact_size s(1) r(1)]
  from took_trans [OF t exactD [OF assms(1) [OF r(2)] took_invar [OF t] r(3)]]
  show "took s (e v) s'" by (simp add: assms(2) [OF r(2,3), symmetric])
qed

lemma exact_array:
  assumes "exact e r"
  shows "exact (\<lambda>vs. concat (map e vs)) (ReadArray r n)"
proof (induction n)
  case 0
  then show ?case by (auto simp: exact_def took_nothing)
next
  case (Suc n)
  show ?case
  proof (rule exactI)
    fix s vs s'
    assume s: "invar s" "ReadArray r (Suc n) s = Inr (Some vs, s')"
    then obtain x s1 xs where x: "r s = Inr (Some x, s1)" "ReadArray r n s1 = Inr (Some xs, s')" "vs = x # xs"
      by (auto simp: rbind_eq_Inr_conv split: option.splits)
    note t = exactD [OF assms s(1) x(1)]
    from took_trans [OF t exactD [OF Suc took_invar [OF t] x(2)]] show "took s (concat (map e vs)) s'" by (simp add: x(3))
  qed
qed

lemma array_length: "ReadArray r n s = Inr (Some vs, s') \<Longrightarrow> length vs = n"
  by (induction n arbitrary: s vs) (auto simp: rbind_eq_Inr_conv split: option.splits)

lemma concat_elements: "length d = n * sz \<Longrightarrow> concat (map obj_of (elements n sz d)) = d"
proof (induction sz arbitrary: d)
  case (Suc sz)
  have "elements n (Suc sz) d = Obj (take n d) # elements n sz (drop n d)"
    unfolding elements_def upt_conv_Cons [OF zero_less_Suc] map_Suc_upt [symmetric] by (simp add: add.commute)
  with Suc show ?case by simp
qed (simp add: elements_def)

lemma exact_vector:
  assumes "env_ok E" and "exact (enc E t) r"
  shows "exact (enc_seq (enc E t)) (Vector_Read E fetch (is_pod t) (sizeof t) r)"
proof -
  have "sizeof t * sz < 2 ^ 64" if "sz \<le> se_max E (sizeof t)" for sz
    using assms(1) that unfolding env_ok_def by (meson le_less_trans mult_le_mono2)
  then have u: "sz \<le> se_max E (sizeof t) \<Longrightarrow> u64 (sizeof t * sz) = sizeof t * sz" for sz by (auto simp: cast_simps)
  have el: "length (elements n sz d) = sz" for n sz d by (simp add: elements_def)
  have pod: "exact (enc_seq obj_of) (PODVector_Read E fetch (sizeof t))"
    unfolding PODVector_Read_def
    by (intro exact_resized exactI)
      (auto simp: rbind_eq_Inr_conv enc_seq_def u concat_elements el took_nothing dest: took_fetch split: if_splits)
  have com: "exact (enc_seq (enc E t)) (ComposeVector_Read E fetch (sizeof t) r)"
    unfolding ComposeVector_Read_def
    by (intro exact_resized exactI)
      (auto simp: rbind_eq_Inr_conv enc_seq_def dest: array_length exactD [OF exact_array [OF assms(2)]])
  show ?thesis
  proof (cases "is_pod t \<and> \<not> se_swap E")
    case True
    with pod pod_enc [of t E] show ?thesis by (simp add: Vector_Read_def)
  next
    case False
    with com show ?thesis unfolding Vector_Read_def by auto
  qed
qed

lemma exact_string:
  assumes "env_ok E" and "0 < n"
  shows "exact (enc E (TStr n)) (PODString_Read E fetch n)"
proof -
  have "n * sz < 2 ^ 64" if "sz \<le> se_max E n" for sz
    using assms(1) that unfolding env_ok_def by (meson le_less_trans mult_le_mono2)
  then have u: "sz \<le> se_max E n \<Longrightarrow> u64 (n * sz) = n * sz" for sz by (auto simp: cast_simps)
  show ?thesis unfolding PODString_Read_def
    by (intro exact_resized exactI)
      (use assms(2) in \<open>auto simp: NativePOD_Read_def rbind_eq_Inr_conv u took_nothing dest: took_fetch split: if_splits\<close>)
qed

lemma exact_pair:
  assumes "supported E a" "supported E b" and "exact (enc E a) ra" "exact (enc E b) rb"
    and "is_pod a \<and> is_pod b \<and> \<not> se_swap E \<longrightarrow> sizeof (TPair a b) = sizeof a + sizeof b"
  shows "exact (enc_pair E a b (enc E a) (enc E b)) (Pair_Read E fetch a b ra rb)"
proof (rule exactI)
  fix s v s'
  assume s: "invar s" and r: "Pair_Read E fetch a b ra rb s = Inr (Some v, s')"
  show "took s (enc_pair E a b (enc E a) (enc E b) v) s'"
  proof (cases "is_pod a \<and> is_pod b \<and> \<not> se_swap E")
    case True
    have sz: "sizeof (TPair a b) = sizeof a + sizeof b" using assms(5) True by blast
    have "align_up (sizeof a) (alignof b) + sizeof b \<le> sizeof (TPair a b)" "sizeof a \<le> align_up (sizeof a) (alignof b)"
      using alignof_pos [OF assms(1)] alignof_pos [OF assms(2)] by (simp_all add: align_up_ge)
    then have off: "align_up (sizeof a) (alignof b) = sizeof a" using sz by linarith
    from r True obtain d where d: "fetch s (sizeof (TPair a b)) = Inr (d, s')" "length d = sizeof (TPair a b)" "v = pair_of_object a b d"
      by (auto simp: Pair_Read_def NativePOD_Read_def rbind_eq_Inr_conv simp del: sizeof.simps split: if_splits)
    have "pair_object E a b v = d"
      using d(2,3) sz by (simp add: pair_object_def pair_of_object_def off Let_def del: sizeof.simps)
    with took_fetch [OF s d(1)] True show ?thesis by (simp add: enc_pair_def)
  next
    case False
    then obtain x s1 y where x: "ra s = Inr (Some x, s1)" "rb s1 = Inr (Some y, s')" "v = Two x y"
      using r by (auto simp: Pair_Read_def rbind_eq_Inr_conv split: option.splits)
    note t = exactD [OF assms(3) s x(1)]
    from took_trans [OF t exactD [OF assms(4) took_invar [OF t] x(2)]] False x(3) show ?thesis by (auto simp: enc_pair_def)
  qed
qed

end

text \<open>The types whose values have one representation each: no container that sorts what it reads, and no padding that is copied
  from memory.\<close>

primrec canonical :: "ser_env \<Rightarrow> ty \<Rightarrow> bool" where
  "canonical E (TArith n) = True"
| "canonical E (TPod n a) = True"
| "canonical E (TVec t) = canonical E t"
| "canonical E (TStr n) = True"
| "canonical E (TPair a b) = (canonical E a \<and> canonical E b
     \<and> (is_pod a \<and> is_pod b \<and> \<not> se_swap E \<longrightarrow> sizeof (TPair a b) = sizeof a + sizeof b))"
| "canonical E (TSet t) = False"
| "canonical E (TMultiset t) = False"
| "canonical E (TMap a b) = False"
| "canonical E (TMultimap a b) = False"
| "canonical E (TList t) = canonical E t"
| "canonical E (TDeque t) = canonical E t"

context prefix_stream
begin

lemma read_exact:
  assumes "env_ok E" and "supported E t" and "canonical E t"
  shows "exact (enc E t) (h_Read E fetch t)"
  using assms(2,3)
proof (induction t)
  case (TArith n)
  then show ?case using exact_arith [of E n] by simp
next
  case (TPod n a)
  then show ?case using exact_pod by simp
next
  case (TStr n)
  then show ?case using exact_string [OF assms(1), of n] by (auto simp del: enc.simps)
next
  case (TPair a b)
  then show ?case using exact_pair [of E a b] by simp
qed (use exact_vector [OF assms(1)] in simp_all)

end

lemma canonical_typed:
  assumes "env_ok E" and "supported E t" and "canonical E t"
  shows "yields (wf_val E t) (h_Read E rd t)"
  using assms(2,3)
proof (induction t)
  case (TStr n)
  then show ?case using yields_string [OF assms(1), of n rd] by (auto simp del: wf_val.simps)
next
  case (TPair a b)
  then show ?case using yields_pair [of E a b] by simp
qed (use yields_plain yields_vector [OF assms(1)] in simp_all)

interpretation fixed_exact: prefix_stream fixed_Write fixed_Read fixed_Seek fixed_Tell p_buffer fixed_room fixed_invar
proof (unfold_locales, goal_cases)
  case (1 s n d s')
  then show ?case
    by (auto simp: fixed_Read_def fixed_invar_def fixed_Tell_def Let_def res_simps cast_simps min_def split: if_splits)
qed

interpretation str_exact: prefix_stream string_Write string_Read string_Seek string_Tell str_buffer string_room string_invar
proof (unfold_locales, goal_cases)
  case (1 s n d s')
  then show ?case
    by (auto simp: string_Read_def string_invar_def string_Tell_def Let_def res_simps cast_simps min_def split: if_splits)
qed

section \<open>Properties\<close>

text \<open>C33: The serializer reads exactly what stands in the stream. Take a type without sorting containers and without padding. When
  reading it from either memory stream succeeds, with any content and at any position, the bytes between the old and the new cursor are the
  format of the value returned, none short and none too many, and the content is untouched; the value is one of the type, and
  writing it again produces the very bytes it was read from. So different bytes are different values, and a stream that ends early is refused.\<close>

theorem serializer_exact:
  assumes "env_ok E" and "supported E t" and "canonical E t"
  shows "(fixed_invar s \<and> h_Read E fixed_Read t s = Inr (Some v, s') \<longrightarrow>
      wf_val E t v \<and> p_buffer s' = p_buffer s \<and> fixed_Tell s' = fixed_Tell s + length (enc E t v)
      \<and> take (length (enc E t v)) (drop (fixed_Tell s) (p_buffer s)) = enc E t v)
    \<and> (string_invar z \<and> h_Read E string_Read t z = Inr (Some u, z') \<longrightarrow>
      wf_val E t u \<and> str_buffer z' = str_buffer z \<and> string_Tell z' = string_Tell z + length (enc E t u)
      \<and> take (length (enc E t u)) (drop (string_Tell z) (str_buffer z)) = enc E t u
      \<and> (\<exists>w. h_Write E fixed_Write t u (MemoryFixedSizeStream (replicate (length (enc E t u)) 0) (length (enc E t u))) = Inr w
            \<and> take (fixed_Tell w) (p_buffer w) = take (string_Tell z' - string_Tell z) (drop (string_Tell z) (str_buffer z))))"
proof (intro conjI [of "_ \<longrightarrow> _" "_ \<longrightarrow> _"] impI)
  assume s: "fixed_invar s \<and> h_Read E fixed_Read t s = Inr (Some v, s')"
  then have "wf_val E t v" using canonical_typed [OF assms, of fixed_Read] unfolding yields_def by blast
  with fixed_exact.exactD [OF fixed_exact.read_exact [OF assms]] s
  show "wf_val E t v \<and> p_buffer s' = p_buffer s \<and> fixed_Tell s' = fixed_Tell s + length (enc E t v)
      \<and> take (length (enc E t v)) (drop (fixed_Tell s) (p_buffer s)) = enc E t v"
    by (auto simp: fixed_exact.took_def)
next
  assume z: "string_invar z \<and> h_Read E string_Read t z = Inr (Some u, z')"
  then have u: "wf_val E t u" using canonical_typed [OF assms, of string_Read] unfolding yields_def by blast
  have t: "str_buffer z' = str_buffer z" "string_Tell z' = string_Tell z + length (enc E t u)"
    "take (length (enc E t u)) (drop (string_Tell z) (str_buffer z)) = enc E t u"
    using str_exact.exactD [OF str_exact.read_exact [OF assms]] z by (auto simp: str_exact.took_def)
  have "length (enc E t u) \<le> length (str_buffer z)" by (subst t(3) [symmetric]) simp
  with z have n: "length (enc E t u) < 2 ^ 64" by (simp add: string_invar_def)
  let ?f = "MemoryFixedSizeStream (replicate (length (enc E t u)) 0) (length (enc E t u))"
  have "fixed_invar ?f" "fixed_room ?f (length (enc E t u))" "fixed_Tell ?f = 0"
    using n by (simp_all add: fixed_invar_def fixed_room_def MemoryFixedSizeStream_def fixed_Tell_def)
  from fixed.round_trip [OF assms(1,2) u this(1,2)] this(3) t(2,3)
  have "\<exists>w. h_Write E fixed_Write t u ?f = Inr w
      \<and> take (fixed_Tell w) (p_buffer w) = take (string_Tell z' - string_Tell z) (drop (string_Tell z) (str_buffer z))" by auto
  with u t show "wf_val E t u \<and> str_buffer z' = str_buffer z \<and> string_Tell z' = string_Tell z + length (enc E t u)
      \<and> take (length (enc E t u)) (drop (string_Tell z) (str_buffer z)) = enc E t u
      \<and> (\<exists>w. h_Write E fixed_Write t u ?f = Inr w
            \<and> take (fixed_Tell w) (p_buffer w) = take (string_Tell z' - string_Tell z) (drop (string_Tell z) (str_buffer z)))" by blast
qed

text \<open>C34: What the serializer writes it reads back. A value of any type, nested to any depth, written to a memory stream where
  there is room, takes the bytes of its format, and reading the type from where it began returns the value and ends where the
  writing ended; in a region of fixed size and in a growing string alike, whatever the byte order of the machine.\<close>

theorem serializer_round_trip:
  assumes "env_ok E" and "supported E t" and "wf_val E t v"
    and "length region = n" and "length (enc E t v) \<le> n" and "n < 2 ^ 64" and "length str < 2 ^ 64"
  shows "(\<exists>s' s''. h_Write E fixed_Write t v (MemoryFixedSizeStream region n) = Inr s' \<and> take (fixed_Tell s') (p_buffer s') = enc E t v
        \<and> h_Read E fixed_Read t (fixed_Seek s' 0) = Inr (Some v, s'') \<and> fixed_Tell s'' = fixed_Tell s')
    \<and> (\<exists>s' s''. h_Write E string_Write t v (MemoryStringStream str) = Inr s'
        \<and> h_Read E string_Read t (string_Seek s' 0) = Inr (Some v, s'') \<and> string_Tell s'' = string_Tell s')"
proof
  let ?f = "MemoryFixedSizeStream region n" and ?g = "MemoryStringStream str"
  have "fixed_invar ?f" "fixed_room ?f (length (enc E t v))" "fixed_Tell ?f = 0"
    using assms(4-6) by (simp_all add: fixed_invar_def fixed_room_def MemoryFixedSizeStream_def fixed_Tell_def)
  from fixed.round_trip [OF assms(1-3) this(1,2)] this(3)
  show "\<exists>s' s''. h_Write E fixed_Write t v ?f = Inr s' \<and> take (fixed_Tell s') (p_buffer s') = enc E t v
      \<and> h_Read E fixed_Read t (fixed_Seek s' 0) = Inr (Some v, s'') \<and> fixed_Tell s'' = fixed_Tell s'" by auto
  have "string_invar ?g" "string_room ?g (length (enc E t v))" "string_Tell ?g = 0"
    using assms(5-7) by (simp_all add: string_invar_def string_room_def MemoryStringStream_def string_Tell_def)
  from str.round_trip [OF assms(1-3) this(1,2)] this(3)
  show "\<exists>s' s''. h_Write E string_Write t v ?g = Inr s'
      \<and> h_Read E string_Read t (string_Seek s' 0) = Inr (Some v, s'') \<and> string_Tell s'' = string_Tell s'" by auto
qed

text \<open>The format of a pair of plain types depends on the machine: with padding where bytes need no swapping, without where they do.\<close>

definition demo_env :: "bool \<Rightarrow> ser_env" where
  "demo_env swap = \<lparr>se_swap = swap, se_pad = 170, se_max = (\<lambda>n. 1000000 div n), se_less = (\<lambda>_ x y. le_val (obj_of x) < le_val (obj_of y))\<rparr>"

lemma pair_format_differs:
  "enc (demo_env False) (TPair (TArith 1) (TArith 4)) (Two (Obj [1]) (Obj [2, 0, 0, 0])) = [1, 170, 170, 170, 2, 0, 0, 0]"
  "enc (demo_env True) (TPair (TArith 1) (TArith 4)) (Two (Obj [1]) (Obj [0, 0, 0, 2])) = [1, 2, 0, 0, 0]"
proof -
  have r: "replicate 3 x = [x, x, x]" for x :: byte by (simp add: numeral_3_eq_3)
  show "enc (demo_env False) (TPair (TArith 1) (TArith 4)) (Two (Obj [1]) (Obj [2, 0, 0, 0])) = [1, 170, 170, 170, 2, 0, 0, 0]"
    by (simp add: demo_env_def enc_pair_def pair_object_def align_up_def Let_def r)
  show "enc (demo_env True) (TPair (TArith 1) (TArith 4)) (Two (Obj [1]) (Obj [0, 0, 0, 2])) = [1, 2, 0, 0, 0]"
    by (simp add: demo_env_def enc_pair_def)
qed

section \<open>Witnesses\<close>

lemma demo_env_ok: "env_ok (demo_env sw)"
proof -
  have a: "n * (1000000 div n) < 2 ^ 64" for n :: nat by (rule le_less_trans [of _ 1000000]) simp_all
  have b: "1000000 div n < 2 ^ 64" for n :: nat by (rule le_less_trans [OF div_le_dividend]) simp
  show ?thesis unfolding env_ok_def demo_env_def ser_env.simps using a b by blast
qed

definition demo_ty :: ty where
  "demo_ty = TMap (TArith 2) (TVec (TStr 1))"

definition demo_val :: val where
  "demo_val = Seq [Two (Obj [1, 0]) (Seq [Obj [104, 105], Obj []]), Two (Obj [7, 0]) (Seq [])]"

lemma demo_val_ok: "supported (demo_env False) demo_ty" "wf_val (demo_env False) demo_ty demo_val"
  "length (enc (demo_env False) demo_ty demo_val) = 46"
  by (simp_all add: demo_env_def demo_ty_def demo_val_def wf_seq_def wf_two_def wf_obj_def ordered_def by_key_def enc_seq_def enc_pair_def align_up_def)

theorem serializer_round_trip_witness:
  "\<exists>s' s''. h_Write (demo_env False) string_Write demo_ty demo_val (MemoryStringStream []) = Inr s'
    \<and> h_Read (demo_env False) string_Read demo_ty (string_Seek s' 0) = Inr (Some demo_val, s'') \<and> string_Tell s'' = string_Tell s'"
  using serializer_round_trip [OF demo_env_ok demo_val_ok(1,2), of "replicate 46 0" 46 "[]"] by (simp add: demo_val_ok(3))

text \<open>A vector of two 16-bit numbers on a machine that swaps bytes, behind one other byte and before another.\<close>

theorem serializer_exact_witness:
  "\<exists>w. h_Write (demo_env True) fixed_Write (TVec (TArith 2)) (Seq [Obj [1, 5], Obj [2, 6]]) (MemoryFixedSizeStream (replicate 12 0) 12) = Inr w
    \<and> take (fixed_Tell w) (p_buffer w) = [2, 0, 0, 0, 0, 0, 0, 0, 5, 1, 6, 2]"
proof -
  let ?z = "\<lparr>str_buffer = [9, 2, 0, 0, 0, 0, 0, 0, 0, 5, 1, 6, 2, 7], str_ptr = 1\<rparr>" and ?v = "Seq [Obj [1, 5], Obj [2, 6]]"
  have two: "ReadArray r 2 s = ReadArray r (Suc (Suc 0)) s" for r :: "(string_stream, val) reader" and s by (simp only: numeral_2_eq_2)
  have r: "string_invar ?z \<and> h_Read (demo_env True) string_Read (TVec (TArith 2)) ?z
      = Inr (Some ?v, \<lparr>str_buffer = [9, 2, 0, 0, 0, 0, 0, 0, 0, 5, 1, 6, 2, 7], str_ptr = 13\<rparr>)"
    by (simp add: string_invar_def demo_env_def Vector_Read_def ComposeVector_Read_def read_resized_def read_size_def Arithmetic_Read_def
        host_val_def string_Read_def cast_simps Let_def ByteSwap_rev two)
  have n: "length (enc (demo_env True) (TVec (TArith 2)) ?v) = 12" by (simp add: enc_seq_def demo_env_def)
  have "supported (demo_env True) (TVec (TArith 2))" "canonical (demo_env True) (TVec (TArith 2))" by simp_all
  from mp [OF conjunct2 [OF serializer_exact [OF demo_env_ok this]] r] show ?thesis
    unfolding n by (auto simp: string_Tell_def simp del: h_Write.simps)
qed

end
