(* ===== verification/Io_Streams.thy ===== *)
theory Io_Streams
  imports Serializer
begin

text \<open>
  The wrappers of \<open>src/src/mlt/include/dmlc/io.h\<close> that make a \<open>Stream\<close> a \<open>std::ostream\<close> or a \<open>std::istream\<close>, through a buffer.

  The characters between \<open>pbase()\<close> and \<open>pptr()\<close>, and between \<open>gptr()\<close> and \<open>egptr()\<close>, are lists; \<open>sputc\<close> and \<open>sbumpc\<close> are the
  functions of \<open>std::streambuf\<close> that call the overridden ones. The lemmas are about any \<open>seek_stream\<close>.
\<close>

section \<open>Output\<close>

record 's out_buf =
  ob_stream :: "'s option"
  ob_size :: nat
  ob_pending :: "byte list"
  ob_bytes_out :: nat

definition OutBuf :: "nat \<Rightarrow> 's out_buf" where
  "OutBuf n =
     \<lparr>ob_stream = None, ob_size = (if n = 0 then 2 else n), ob_pending = [], ob_bytes_out = 0\<rparr>"

definition ob_sync :: "'s wr \<Rightarrow> 's out_buf \<Rightarrow> (int \<times> 's out_buf) res" where
  "ob_sync wr b =
     (case ob_stream b of None \<Rightarrow> Inr (- 1, b)
      | Some s \<Rightarrow> rbind (wr s (ob_pending b)) (\<lambda>s1.
          Inr (0, b\<lparr>ob_stream := Some s1, ob_pending := [], ob_bytes_out := u64 (ob_bytes_out b + length (ob_pending b))\<rparr>)))"

definition ob_set_stream :: "'s wr \<Rightarrow> 's option \<Rightarrow> 's out_buf \<Rightarrow> 's out_buf res" where
  "ob_set_stream wr s b =
     rbind (if ob_stream b \<noteq> None then ob_sync wr b else Inr (0, b)) (\<lambda>(_, b1). Inr (b1\<lparr>ob_stream := s, ob_pending := []\<rparr>))"

text \<open>\<open>None\<close> is \<open>EOF\<close>.\<close>

definition ob_overflow :: "'s wr \<Rightarrow> byte option \<Rightarrow> 's out_buf \<Rightarrow> 's out_buf res" where
  "ob_overflow wr c b =
     (case ob_stream b of None \<Rightarrow> Inl (Undefined_Behaviour ''stream_ is NULL'')
      | Some s \<Rightarrow>
          let out = (case c of None \<Rightarrow> ob_pending b | Some x \<Rightarrow> ob_pending b @ [x]) in
          rbind (wr s out) (\<lambda>s1.
            Inr (b\<lparr>ob_stream := Some s1, ob_pending := [], ob_bytes_out := u64 (ob_bytes_out b + length out)\<rparr>)))"

definition sputc :: "'s wr \<Rightarrow> byte \<Rightarrow> 's out_buf \<Rightarrow> 's out_buf res" where
  "sputc wr c b =
     (if ob_stream b \<noteq> None \<and> length (ob_pending b) < ob_size b - 1 then Inr (b\<lparr>ob_pending := ob_pending b @ [c]\<rparr>)
      else ob_overflow wr (Some c) b)"

section \<open>Input\<close>

record 's in_buf =
  ib_stream :: "'s option"
  ib_size :: nat
  ib_avail :: "byte list"
  ib_bytes_read :: nat

definition InBuf :: "nat \<Rightarrow> 's in_buf" where
  "InBuf n =
     \<lparr>ib_stream = None, ib_size = (if n = 0 then 2 else n), ib_avail = [], ib_bytes_read = 0\<rparr>"

definition ib_set_stream :: "'s option \<Rightarrow> 's in_buf \<Rightarrow> 's in_buf" where
  "ib_set_stream s b = b\<lparr>ib_stream := s, ib_avail := []\<rparr>"

definition underflow :: "'s rd \<Rightarrow> 's in_buf \<Rightarrow> (byte option \<times> 's in_buf) res" where
  "underflow rd b =
     rbind (if ib_avail b = [] then
              (case ib_stream b of None \<Rightarrow> Inl (Undefined_Behaviour ''stream_ is NULL'')
               | Some s \<Rightarrow> rbind (rd s (ib_size b)) (\<lambda>(d, s1).
                   Inr (b\<lparr>ib_stream := Some s1, ib_avail := d, ib_bytes_read := u64 (ib_bytes_read b + length d)\<rparr>)))
            else Inr b) (\<lambda>b1. Inr (if ib_avail b1 = [] then None else Some (hd (ib_avail b1)), b1))"

definition sbumpc :: "'s rd \<Rightarrow> 's in_buf \<Rightarrow> (byte option \<times> 's in_buf) res" where
  "sbumpc rd b = rbind (underflow rd b) (\<lambda>(c, b1). Inr (c, b1\<lparr>ib_avail := tl (ib_avail b1)\<rparr>))"

text \<open>Reading characters until \<open>EOF\<close>, at most \<open>n\<close> of them.\<close>

fun read_chars :: "'s rd \<Rightarrow> nat \<Rightarrow> 's in_buf \<Rightarrow> (byte list \<times> 's in_buf) res" where
  "read_chars rd 0 b = Inr ([], b)"
| "read_chars rd (Suc n) b = rbind (sbumpc rd b) (\<lambda>(c, b1).
     case c of None \<Rightarrow> Inr ([], b1) | Some x \<Rightarrow> rbind (read_chars rd n b1) (\<lambda>(xs, b2). Inr (x # xs, b2)))"

section \<open>The buffers are transparent\<close>

context seek_stream
begin

text \<open>The bytes given to an output buffer are those written to the stream and those still pending.\<close>

definition accepted :: "'s \<Rightarrow> byte list \<Rightarrow> 's out_buf \<Rightarrow> bool" where
  "accepted s0 cs b \<longleftrightarrow> (\<exists>s out. ob_stream b = Some s \<and> cs = out @ ob_pending b \<and> appends s0 out (Inr s)
     \<and> ob_bytes_out b = u64 (length out) \<and> 0 < ob_size b)"

lemma appends_room: "appends s a (Inr s') \<Longrightarrow> room s (length (a @ c)) \<Longrightarrow> invar s' \<and> room s' (length c)"
  by (auto simp: appends_def)

lemma flush_appends:
  assumes "appends s0 out (Inr s)" and "room s0 (length (out @ c))"
  obtains s1 where "put s c = Inr s1" "appends s0 (out @ c) (Inr s1)"
proof -
  have "appends s0 (out @ c) (rbind (Inr s) (\<lambda>s. put s c))"
    by (rule appends_bind [OF assms]) (rule appends_put)
  then have "appends s0 (out @ c) (put s c)" by simp
  then show ?thesis using that by (auto simp: appends_def)
qed

lemma u64_add: "u64 (u64 a + b) = u64 (a + b)"
  by (simp add: u64_def mod_add_left_eq)

lemma sputc_accepted:
  assumes "accepted s0 cs b" and "room s0 (Suc (length cs))"
  shows "\<exists>b'. sputc put c b = Inr b' \<and> accepted s0 (cs @ [c]) b'"
proof -
  from assms(1) obtain s out where b: "ob_stream b = Some s" "cs = out @ ob_pending b" "appends s0 out (Inr s)"
    "ob_bytes_out b = u64 (length out)" "0 < ob_size b" by (auto simp: accepted_def)
  show ?thesis
  proof (cases "length (ob_pending b) < ob_size b - 1")
    case True
    with b show ?thesis by (auto simp: sputc_def accepted_def)
  next
    case False
    obtain s1 where "put s (ob_pending b @ [c]) = Inr s1" "appends s0 (out @ ob_pending b @ [c]) (Inr s1)"
      using flush_appends [OF b(3), of "ob_pending b @ [c]"] assms(2) b(2) by auto
    with False b show ?thesis by (auto simp: sputc_def ob_overflow_def accepted_def u64_add)
  qed
qed

lemma sputs_accepted:
  "accepted s0 cs b \<Longrightarrow> room s0 (length cs + length ds) \<Longrightarrow> \<exists>b'. rfold (sputc put) ds b = Inr b' \<and> accepted s0 (cs @ ds) b'"
proof (induction ds arbitrary: cs b)
  case (Cons d ds)
  have "room s0 (Suc (length cs))" using Cons.prems(2) room_mono [of s0 "Suc (length cs)" "length ds"] by simp
  from sputc_accepted [OF Cons.prems(1) this] obtain b1 where "sputc put d b = Inr b1" "accepted s0 (cs @ [d]) b1" by blast
  with Cons.IH [of "cs @ [d]" b1] Cons.prems(2) show ?case by simp
qed simp

lemma sync_accepted:
  assumes "accepted s0 cs b" and "room s0 (length cs)"
  shows "\<exists>b' s. ob_sync put b = Inr (0, b') \<and> ob_stream b' = Some s \<and> appends s0 cs (Inr s) \<and> ob_bytes_out b' = u64 (length cs)"
proof -
  from assms(1) obtain s out where b: "ob_stream b = Some s" "cs = out @ ob_pending b" "appends s0 out (Inr s)"
    "ob_bytes_out b = u64 (length out)" by (auto simp: accepted_def)
  obtain s1 where "put s (ob_pending b) = Inr s1" "appends s0 (out @ ob_pending b) (Inr s1)"
    using flush_appends [OF b(3), of "ob_pending b"] assms(2) b(2) by auto
  with b show ?thesis by (auto simp: ob_sync_def u64_add)
qed

lemma ostream_writes:
  assumes "invar s" and "room s (length cs)"
  shows "\<exists>b0 b b' s'. ob_set_stream put (Some s) (OutBuf k) = Inr b0 \<and> rfold (sputc put) cs b0 = Inr b
    \<and> ob_sync put b = Inr (0, b') \<and> ob_stream b' = Some s' \<and> appends s cs (Inr s') \<and> ob_bytes_out b' = u64 (length cs)"
proof -
  obtain b0 where b0: "ob_set_stream put (Some s) (OutBuf k) = Inr b0" "accepted s [] b0"
    using appends_nothing [OF assms(1)] by (auto simp: ob_set_stream_def OutBuf_def accepted_def u64_def)
  from sputs_accepted [OF b0(2), of cs] assms(2) obtain b where "rfold (sputc put) cs b0 = Inr b" "accepted s cs b" by auto
  with sync_accepted assms(2) b0 show ?thesis by metis
qed

end


text \<open>A string stream returns what is left of it when that is less than asked for.\<close>

definition unread :: "string_stream in_buf \<Rightarrow> byte list" where
  "unread b = ib_avail b @ (case ib_stream b of None \<Rightarrow> [] | Some s \<Rightarrow> drop (str_ptr s) (str_buffer s))"

definition ib_ok :: "string_stream in_buf \<Rightarrow> bool" where
  "ib_ok b \<longleftrightarrow> 0 < ib_size b \<and> (\<exists>s. ib_stream b = Some s \<and> string_invar s)"

lemma string_Read_short:
  assumes "string_invar s"
  shows "\<exists>s'. string_Read s n = Inr (take n (drop (str_ptr s) (str_buffer s)), s') \<and> string_invar s'
    \<and> drop (str_ptr s') (str_buffer s') = drop n (drop (str_ptr s) (str_buffer s))"
proof -
  have "u64 (str_ptr s + k) = str_ptr s + k" if "k \<le> length (str_buffer s) - str_ptr s" for k
    by (rule u64_id) (use assms that in \<open>auto simp: string_invar_def\<close>)
  then show ?thesis using assms by (auto simp: string_Read_def string_invar_def res_simps Let_def min_def add.commute u64_id)
qed

lemma sbumpc_unread:
  assumes "ib_ok b"
  shows "\<exists>b'. sbumpc string_Read b = Inr (if unread b = [] then None else Some (hd (unread b)), b') \<and> ib_ok b' \<and> unread b' = tl (unread b)"
proof -
  from assms obtain s where s: "ib_stream b = Some s" "string_invar s" "0 < ib_size b" by (auto simp: ib_ok_def)
  show ?thesis
  proof (cases "ib_avail b = []")
    case True
    obtain s' where s': "string_Read s (ib_size b) = Inr (take (ib_size b) (drop (str_ptr s) (str_buffer s)), s')" "string_invar s'"
      "drop (str_ptr s') (str_buffer s') = drop (ib_size b) (drop (str_ptr s) (str_buffer s))"
      using string_Read_short [OF s(2)] by blast
    let ?r = "drop (str_ptr s) (str_buffer s)"
    have "hd (take (ib_size b) ?r) = hd ?r" "tl (take (ib_size b) ?r) @ drop (ib_size b) ?r = tl ?r" if "?r \<noteq> []"
      using that s(3) by (cases ?r; cases "ib_size b"; simp)+
    with True s s' show ?thesis by (auto simp: sbumpc_def underflow_def unread_def ib_ok_def)
  next
    case False
    with s show ?thesis by (auto simp: sbumpc_def underflow_def unread_def ib_ok_def)
  qed
qed

lemma read_chars_unread:
  "ib_ok b \<Longrightarrow> \<exists>b'. read_chars string_Read n b = Inr (take n (unread b), b') \<and> ib_ok b' \<and> unread b' = drop n (unread b)"
proof (induction n arbitrary: b)
  case (Suc n)
  from sbumpc_unread [OF Suc.prems] obtain b1 where
    b1: "sbumpc string_Read b = Inr (if unread b = [] then None else Some (hd (unread b)), b1)" "ib_ok b1" "unread b1 = tl (unread b)" by blast
  from Suc.IH [OF b1(2)] b1 show ?case by (cases "unread b") auto
qed simp

section \<open>Properties\<close>

text \<open>The buffered streams neither lose nor reorder. Characters put into a \<open>dmlc::ostream\<close> with any buffer size and flushed are, together,
  what is appended to the \<open>Stream\<close>, and \<open>bytes_written\<close> counts them; a \<open>dmlc::istream\<close> over a string returns the characters of the string
  in order, and then the end of the file, for any buffer size and any number of characters asked for. Over a
  \<open>MemoryFixedSizeStream\<close>, whose \<open>Read\<close> insists on the whole buffer, an \<open>istream\<close> aborts when less than a buffer is left.\<close>

lemma buffered_streams:
  assumes "length str < 2 ^ 64" and "length cs < 2 ^ 64" and "length region < k" and "k < 2 ^ 64"
  shows "(\<exists>b0 b b' s. ob_set_stream string_Write (Some (MemoryStringStream [])) (OutBuf j) = Inr b0
        \<and> rfold (sputc string_Write) cs b0 = Inr b \<and> ob_sync string_Write b = Inr (0, b')
        \<and> ob_stream b' = Some s \<and> take (string_Tell s) (str_buffer s) = cs \<and> ob_bytes_out b' = length cs)
    \<and> (\<exists>b'. read_chars string_Read n (ib_set_stream (Some (MemoryStringStream str)) (InBuf j)) = Inr (take n str, b'))
    \<and> (\<exists>w. read_chars fixed_Read (Suc n) (ib_set_stream (Some (MemoryFixedSizeStream region (length region))) (InBuf k)) = Inl (Check_Failed w))"
proof (intro conjI)
  have "string_invar (MemoryStringStream [])" "string_room (MemoryStringStream []) (length cs)"
    using assms(2) by (simp_all add: string_invar_def string_room_def MemoryStringStream_def)
  from str.ostream_writes [OF this, of j] show "\<exists>b0 b b' s. ob_set_stream string_Write (Some (MemoryStringStream [])) (OutBuf j) = Inr b0
      \<and> rfold (sputc string_Write) cs b0 = Inr b \<and> ob_sync string_Write b = Inr (0, b')
      \<and> ob_stream b' = Some s \<and> take (string_Tell s) (str_buffer s) = cs \<and> ob_bytes_out b' = length cs"
    using assms(2) by (fastforce simp: str.appends_def cast_simps MemoryStringStream_def string_Tell_def)
  have "ib_ok (ib_set_stream (Some (MemoryStringStream str)) (InBuf j))" "unread (ib_set_stream (Some (MemoryStringStream str)) (InBuf j)) = str"
    using assms(1) by (simp_all add: ib_ok_def unread_def ib_set_stream_def InBuf_def string_invar_def MemoryStringStream_def)
  with read_chars_unread show "\<exists>b'. read_chars string_Read n (ib_set_stream (Some (MemoryStringStream str)) (InBuf j)) = Inr (take n str, b')"
    by metis
  show "\<exists>w. read_chars fixed_Read (Suc n) (ib_set_stream (Some (MemoryFixedSizeStream region (length region))) (InBuf k)) = Inl (Check_Failed w)"
    using assms(3,4) by (simp add: sbumpc_def underflow_def ib_set_stream_def InBuf_def fixed_Read_def MemoryFixedSizeStream_def res_simps cast_simps)
qed

end
