(* ===== verification/Rdma_Utils.thy ===== *)
theory Rdma_Utils
  imports Postoffice Queues
begin

text \<open>
  The helpers of the RDMA transport (\<open>src/src/rdma_utils.h\<close>): alignment, the allocator of registered memory, the pool that numbers
  the receive buffers, and the decoding of keys.

  A node's memory is a map from addresses to bytes with the end of its heap; allocation takes the next free page, and freed memory is not
  used again. \<open>ibv_reg_mr\<close> is not code of the repository: the keys it gives to the \<open>n\<close>-th region are a parameter. Calls that
  fail without influence of the caller's arguments (memory, device) do not.
\<close>

section \<open>Alignment\<close>

definition kRxDepth :: nat where "kRxDepth = 2048"
definition kStartDepth :: nat where "kStartDepth = 128"
definition kReplyDepth :: nat where "kReplyDepth = kRxDepth"
definition kMaxDataFields :: nat where "kMaxDataFields = 4"

definition align_floor :: "nat \<Rightarrow> nat \<Rightarrow> nat" where
  "align_floor v align = usub64 v (v mod align)"

definition align_ceil :: "nat \<Rightarrow> nat \<Rightarrow> nat" where
  "align_ceil v align = align_floor (usub64 (u64 (v + align)) 1) align"

definition ROUNDUP :: "nat \<Rightarrow> nat \<Rightarrow> nat" where
  "ROUNDUP x y = u64 (usub64 (u64 (x + y)) 1 div y * y)"

section \<open>Registered memory\<close>

record mr =
  mr_addr :: nat
  mr_len :: nat
  mr_lkey :: nat
  mr_rkey :: nat

text \<open>What the machine decides: the size of a page and the keys of the registered regions.\<close>

record rdma_hw =
  hw_page :: nat
  hw_lkey :: "nat \<Rightarrow> nat"
  hw_rkey :: "nat \<Rightarrow> nat"

text \<open>The memory of a process: its content, the end of the heap, and the regions registered with the device.\<close>

record host =
  ho_mem :: mem
  ho_brk :: nat
  ho_regions :: "mr list"

definition ibv_reg_mr :: "rdma_hw \<Rightarrow> nat \<Rightarrow> nat \<Rightarrow> host \<Rightarrow> mr \<times> host" where
  "ibv_reg_mr hw addr sz h =
     (let k = length (ho_regions h); r = \<lparr>mr_addr = addr, mr_len = sz, mr_lkey = hw_lkey hw k, mr_rkey = hw_rkey hw k\<rparr> in
      (r, h\<lparr>ho_regions := ho_regions h @ [r]\<rparr>))"

definition next_page :: "nat \<Rightarrow> nat \<Rightarrow> nat" where
  "next_page page brk = (brk + page - 1) div page * page"

text \<open>The size is kept in an \<open>int\<close>: negative, it is too much for \<open>posix_memalign\<close>; truncated, too little for \<open>memset\<close>.\<close>

definition ib_malloc :: "rdma_hw \<Rightarrow> nat \<Rightarrow> host \<Rightarrow> (nat \<times> host) res" where
  "ib_malloc hw sz h =
     (let size_aligned = u64_of_int (i32 (int (ROUNDUP sz (hw_page hw)))); p = next_page (hw_page hw) (ho_brk h) in
      rbind (check (size_aligned < 2 ^ 63) ''posix_memalign error'') (\<lambda>_.
        if size_aligned < sz then Inl (Undefined_Behaviour ''memset'')
        else Inr (p, h\<lparr>ho_mem := store_bytes (ho_mem h) p (replicate sz 0), ho_brk := p + size_aligned\<rparr>)))"

definition malloc :: "nat \<Rightarrow> host \<Rightarrow> nat \<times> host" where
  "malloc sz h = (ho_brk h, h\<lparr>ho_brk := ho_brk h + sz\<rparr>)"

text \<open>\<open>MemoryAllocator\<close>, without the protection domain.\<close>

record allocator =
  al_used_list :: "nat \<rightharpoonup> nat"
  al_mr :: "nat \<rightharpoonup> mr"

definition MemoryAllocator :: allocator where
  "MemoryAllocator = \<lparr>al_used_list = Map.empty, al_mr = Map.empty\<rparr>"

text \<open>\<open>None\<close> is \<open>nullptr\<close>. \<open>emplace\<close> keeps an entry that is there.\<close>

definition al_Alloc :: "rdma_hw \<Rightarrow> nat \<Rightarrow> allocator \<times> host \<Rightarrow> (nat option \<times> allocator \<times> host) res" where
  "al_Alloc hw sz st =
     (if sz = 0 then Inr (None, st)
      else
        let (al, h) = st; sz1 = align_ceil sz (hw_page hw) in
        rbind (ib_malloc hw sz1 h) (\<lambda>(p, h1).
          let (r, h2) = ibv_reg_mr hw p sz1 h1 in
          Inr (Some p, al\<lparr>al_mr := (al_mr al)(p \<mapsto> r),
                          al_used_list := (if al_used_list al p = None then (al_used_list al)(p \<mapsto> sz1) else al_used_list al)\<rparr>, h2)))"

definition Addr2MR :: "nat \<Rightarrow> allocator \<Rightarrow> mr res" where
  "Addr2MR addr al = (case al_mr al addr of None \<Rightarrow> Inl (Check_Failed ''it != mr_.end()'') | Some r \<Rightarrow> Inr r)"

definition LocalKey :: "nat \<Rightarrow> allocator \<Rightarrow> nat res" where
  "LocalKey addr al = rbind (Addr2MR addr al) (\<lambda>r. Inr (mr_lkey r))"

definition RemoteKey :: "nat \<Rightarrow> allocator \<Rightarrow> nat res" where
  "RemoteKey addr al = rbind (Addr2MR addr al) (\<lambda>r. Inr (mr_rkey r))"

section \<open>The pool of addresses\<close>

record 'a addr_pool =
  ap_indices :: "nat list"
  ap_table :: "'a option list"

text \<open>\<open>kMaxEntries\<close> is an \<open>int\<close>; a negative one makes \<open>new\<close> throw.\<close>

definition AddressPool :: "ps_env \<Rightarrow> 'a addr_pool res" where
  "AddressPool e =
     (let n = GetEnv e ''BYTEPS_ADDRESS_POOL_SIZE'' 10240 in
      if n < 0 then Inl (Fatal ''std::bad_array_new_length'')
      else Inr \<lparr>ap_indices = [0..<nat n], ap_table = replicate (nat n) None\<rparr>)"

definition pool_at :: "'a addr_pool \<Rightarrow> nat \<Rightarrow> 'a option res" where
  "pool_at p index = (if index < length (ap_table p) then Inr (ap_table p ! index) else Inl (Undefined_Behaviour ''table_[index]''))"

definition ap_GetAddressAndRelease :: "nat \<Rightarrow> 'a addr_pool \<Rightarrow> ('a \<times> 'a addr_pool) res" where
  "ap_GetAddressAndRelease index p =
     rbind (pool_at p index) (\<lambda>ptr. case ptr of None \<Rightarrow> Inl (Check_Failed ''ptr'')
       | Some x \<Rightarrow> Inr (x, p\<lparr>ap_indices := ap_indices p @ [index], ap_table := (ap_table p)[index := None]\<rparr>))"

definition ap_GetAddress :: "nat \<Rightarrow> 'a addr_pool \<Rightarrow> 'a res" where
  "ap_GetAddress index p =
     rbind (pool_at p index) (\<lambda>ptr. case ptr of None \<Rightarrow> Inl (Check_Failed ''table_[index]'') | Some x \<Rightarrow> Inr x)"

definition ap_StoreAddress :: "'a \<Rightarrow> 'a addr_pool \<Rightarrow> (nat \<times> 'a addr_pool) res" where
  "ap_StoreAddress ptr p =
     (case ap_indices p of [] \<Rightarrow> Inl (Check_Failed ''!indices_.empty()'')
      | idx # rest \<Rightarrow>
          rbind (pool_at p idx) (\<lambda>old. rbind (check (old = None) ''table_[idx] == nullptr'') (\<lambda>_.
            Inr (idx, p\<lparr>ap_indices := rest, ap_table := (ap_table p)[idx := Some ptr]\<rparr>))))"

section \<open>Keys\<close>

definition IsValidPushpull :: "meta \<Rightarrow> bool" where
  "IsValidPushpull m \<longleftrightarrow> ctrl_empty (me_control m) \<and> \<not> me_simple_app m"

fun decode_loop :: "nat \<Rightarrow> nat \<Rightarrow> byte list \<Rightarrow> nat" where
  "decode_loop key coef [] = key"
| "decode_loop key coef (b # bs) = decode_loop (u64 (key + u64 (coef * unat b))) (u64 (coef * 256)) bs"

definition DecodeKey :: "byte list \<Rightarrow> nat" where
  "DecodeKey keys = decode_loop 0 1 keys"

definition DecodeWorkerKey :: "range list \<Rightarrow> nat \<Rightarrow> nat \<Rightarrow> nat res" where
  "DecodeWorkerKey ranges rank key =
     (if rank < length ranges then Inr (usub64 key (rg_begin (ranges ! rank))) else Inl (Undefined_Behaviour ''GetServerKeyRanges()[rank]''))"

section \<open>Lemmas\<close>

lemma usub64_le: "b \<le> a \<Longrightarrow> a < 2 ^ 64 \<Longrightarrow> usub64 a b = a - b"
  by (simp add: usub64_def nat_diff_distrib)

lemma align_floor_eq: "v < 2 ^ 64 \<Longrightarrow> align_floor v a = v div a * a"
  using mod_le_divisor div_mod_decomp [of v a] by (simp add: align_floor_def usub64_le minus_mod_eq_div_mult)

lemma align_ceil_eq:
  assumes "0 < a" "v + a \<le> 2 ^ 64 - 1"
  shows "align_ceil v a = (v + a - 1) div a * a"
  using assms by (simp add: align_ceil_def usub64_le align_floor_eq cast_simps)

lemma round_up_bounds:
  fixes a v :: nat
  assumes "0 < a"
  shows "v \<le> (v + a - 1) div a * a" "(v + a - 1) div a * a < v + a"
proof -
  have "(v + a - 1) mod a < a" using assms by simp
  moreover have "(v + a - 1) div a * a + (v + a - 1) mod a = v + a - 1" by simp
  ultimately show "v \<le> (v + a - 1) div a * a" "(v + a - 1) div a * a < v + a" using assms by linarith+
qed

lemma DecodeKey_val: "DecodeKey bs = u64 (le_val bs)"
proof -
  have "decode_loop (u64 k) (u64 c) bs = u64 (k + c * le_val bs)" for k c
  proof (induction bs arbitrary: k c)
    case (Cons b bs)
    have "u64 (u64 k + u64 (u64 c * unat b)) = u64 (k + c * unat b)" "u64 (u64 c * 256) = u64 (c * 256)"
      by (simp_all add: u64_def mod_simps)
    with Cons show ?case by (simp add: algebra_simps)
  qed simp
  from this [of 0 1] show ?thesis by (simp add: DecodeKey_def u64_def)
qed


section \<open>The contract of the pool\<close>

text \<open>A pool hands out a free number for an object until it has no more, and returns the object for the number.\<close>

locale number_pool =
  fixes store :: "'a \<Rightarrow> 'p \<Rightarrow> (nat \<times> 'p) res"
    and get :: "nat \<Rightarrow> 'p \<Rightarrow> 'a res"
    and release :: "nat \<Rightarrow> 'p \<Rightarrow> ('a \<times> 'p) res"
    and objects :: "'p \<Rightarrow> nat \<rightharpoonup> 'a"
    and free :: "'p \<Rightarrow> nat"
    and invar :: "'p \<Rightarrow> bool"
  assumes store_free: "invar p \<Longrightarrow> 0 < free p \<Longrightarrow> \<exists>i p'. store x p = Inr (i, p') \<and> invar p' \<and> objects p i = None
      \<and> objects p' = (objects p)(i \<mapsto> x) \<and> Suc (free p') = free p"
    and store_full: "invar p \<Longrightarrow> free p = 0 \<Longrightarrow> \<exists>w. store x p = Inl (Check_Failed w)"
    and get_ok: "invar p \<Longrightarrow> objects p i = Some x \<Longrightarrow> get i p = Inr x"
    and release_ok: "invar p \<Longrightarrow> objects p i = Some x \<Longrightarrow> \<exists>p'. release i p = Inr (x, p') \<and> invar p'
      \<and> objects p' = (objects p)(i := None) \<and> free p' = Suc (free p)"
begin

primrec store_all :: "'a list \<Rightarrow> 'p \<Rightarrow> (nat list \<times> 'p) res" where
  "store_all [] p = Inr ([], p)"
| "store_all (x # xs) p = rbind (store x p) (\<lambda>(i, p1). rbind (store_all xs p1) (\<lambda>(is, p2). Inr (i # is, p2)))"

text \<open>Objects stored one after the other get numbers of their own, under which all of them are found; one more than there are free numbers fails.\<close>

lemma store_all_ok:
  assumes "invar p" and "length xs \<le> free p"
  shows "\<exists>is p'. store_all xs p = Inr (is, p') \<and> invar p' \<and> length is = length xs \<and> distinct is
    \<and> set is \<inter> dom (objects p) = {} \<and> free p' + length xs = free p \<and> objects p' = objects p ++ map_of (zip is xs)"
  using assms
proof (induction xs arbitrary: p)
  case (Cons x xs)
  from store_free [OF Cons.prems(1), of x] Cons.prems(2) obtain i p1 where
    p1: "store x p = Inr (i, p1)" "invar p1" "objects p i = None" "objects p1 = (objects p)(i \<mapsto> x)" "Suc (free p1) = free p" by auto
  from Cons.IH [OF p1(2)] p1(5) Cons.prems(2) obtain "is" p2 where
    p2: "store_all xs p1 = Inr (is, p2)" "invar p2" "length is = length xs" "distinct is" "set is \<inter> dom (objects p1) = {}"
      "free p2 + length xs = free p1" "objects p2 = objects p1 ++ map_of (zip is xs)" by auto
  have i: "i \<notin> set is" using p2(5) p1(4) by auto
  then have "map_of (zip is xs) i = None" using p2(3) by (simp add: map_of_zip_is_None)
  then have "objects p2 = objects p ++ map_of (zip (i # is) (x # xs))"
    by (auto simp: p2(7) p1(4) fun_eq_iff map_add_def split: option.splits)
  then show ?case using p1 p2 i by auto
qed simp

lemma store_all_full:
  assumes "invar p" and "free p < length xs"
  shows "\<exists>w. store_all xs p = Inl (Check_Failed w)"
  using assms
proof (induction xs arbitrary: p)
  case (Cons x xs)
  show ?case
  proof (cases "free p = 0")
    case True
    from store_full [OF Cons.prems(1) this, of x] show ?thesis by auto
  next
    case False
    then obtain i p1 where p1: "store x p = Inr (i, p1)" "invar p1" "Suc (free p1) = free p"
      using store_free [OF Cons.prems(1), of x] by auto
    with Cons.IH [OF p1(2)] Cons.prems(2) show ?thesis by auto
  qed
qed simp

end

definition pool_ok :: "'a addr_pool \<Rightarrow> bool" where
  "pool_ok p \<longleftrightarrow> distinct (ap_indices p) \<and> (\<forall>i \<in> set (ap_indices p). i < length (ap_table p) \<and> ap_table p ! i = None)"

definition pool_objects :: "'a addr_pool \<Rightarrow> nat \<rightharpoonup> 'a" where
  "pool_objects p i = (if i < length (ap_table p) then ap_table p ! i else None)"

interpretation addr_pool: number_pool ap_StoreAddress ap_GetAddress ap_GetAddressAndRelease pool_objects
  "\<lambda>p. length (ap_indices p)" pool_ok
proof (unfold_locales, goal_cases)
  case (1 p x)
  then obtain i rest where "ap_indices p = i # rest" by (cases "ap_indices p") auto
  with 1 show ?case
    by (auto simp: ap_StoreAddress_def pool_at_def pool_ok_def pool_objects_def fun_eq_iff nth_list_update)
next
  case (2 p x)
  then show ?case by (simp add: ap_StoreAddress_def)
next
  case (3 p i x)
  then show ?case by (auto simp: ap_GetAddress_def pool_at_def pool_objects_def split: if_splits)
next
  case (4 p i x)
  then show ?case
    by (auto simp: ap_GetAddressAndRelease_def pool_at_def pool_ok_def pool_objects_def fun_eq_iff nth_list_update split: if_splits)
qed

lemma AddressPool_ok:
  "AddressPool e = Inr p \<Longrightarrow> pool_ok p \<and> pool_objects p = Map.empty \<and> int (length (ap_indices p)) = GetEnv e ''BYTEPS_ADDRESS_POOL_SIZE'' 10240"
  by (auto simp: AddressPool_def pool_ok_def pool_objects_def Let_def split: if_splits)


section \<open>Allocation\<close>

lemma ROUNDUP_eq: "0 < a \<Longrightarrow> v + a \<le> 2 ^ 63 \<Longrightarrow> ROUNDUP v a = (v + a - 1) div a * a"
  using round_up_bounds(2) [of a v] by (simp add: ROUNDUP_def usub64_le cast_simps)

lemma round_up_multiple: "0 < a \<Longrightarrow> (k * a + a - 1) div a = (k :: nat)"
  by (rule div_nat_eqI) (simp_all add: mult.commute [of a k])

text \<open>A region that fits an \<open>int\<close> is allocated beyond the heap, registered, and filled with zeros; nothing else changes.\<close>

lemma Alloc_ok:
  assumes "0 < sz" and "0 < hw_page hw" and "sz + 2 * hw_page hw \<le> 2 ^ 31"
  shows "\<exists>p r h'. al_Alloc hw sz (al, h) = Inr (Some p, al\<lparr>al_mr := (al_mr al)(p \<mapsto> r),
        al_used_list := (if al_used_list al p = None then (al_used_list al)(p \<mapsto> align_ceil sz (hw_page hw)) else al_used_list al)\<rparr>, h')
    \<and> r = \<lparr>mr_addr = p, mr_len = align_ceil sz (hw_page hw), mr_lkey = hw_lkey hw (length (ho_regions h)), mr_rkey = hw_rkey hw (length (ho_regions h))\<rparr>
    \<and> ho_brk h \<le> p \<and> p < ho_brk h + hw_page hw \<and> ho_brk h' = p + align_ceil sz (hw_page hw) \<and> ho_regions h' = ho_regions h @ [r]
    \<and> sz \<le> align_ceil sz (hw_page hw) \<and> align_ceil sz (hw_page hw) < sz + hw_page hw
    \<and> ho_mem h' = store_bytes (ho_mem h) p (replicate (align_ceil sz (hw_page hw)) 0)"
proof -
  let ?a = "align_ceil sz (hw_page hw)" and ?p = "next_page (hw_page hw) (ho_brk h)"
  have e: "?a = (sz + hw_page hw - 1) div hw_page hw * hw_page hw" using assms by (intro align_ceil_eq) simp_all
  note b = round_up_bounds [OF assms(2), of sz, folded e]
  have r: "ROUNDUP ?a (hw_page hw) = ?a"
    using assms(2,3) b(2) by (subst ROUNDUP_eq) (simp_all only: e round_up_multiple, simp)
  have "i32 (int ?a) = int ?a" using assms(3) b(2) by (simp add: i32_def)
  then have "u64_of_int (i32 (int (ROUNDUP ?a (hw_page hw)))) = ?a" using assms(3) b(2) by (simp add: r u64_of_int_def nat_mod_distrib)
  moreover have "?a < 2 ^ 63" using assms(3) b(2) by simp
  moreover have "ho_brk h \<le> ?p" "?p < ho_brk h + hw_page hw" unfolding next_page_def using round_up_bounds [OF assms(2)] by blast+
  ultimately show ?thesis using assms(1) b by (auto simp: al_Alloc_def ib_malloc_def ibv_reg_mr_def Let_def)
qed

end
