(* ===== verification/Resender_Model.thy ===== *)
theory Resender_Model
  imports Ps_Message "HOL-Library.Word"
begin

unbundle bit_operations_syntax

text \<open>
  \<open>Resender\<close> (\<open>src/src/resender.h\<close>): a sender keeps every message until it is acknowledged and sends it
  again after a timeout; a receiver acknowledges every message and drops those it has seen.

  The clock, in milliseconds, and \<open>van_->my_node().id\<close>, which fails before the van is ready, are
  arguments; messages to send are returned. The send buffer is an association list: the code iterates over it
  in an order that is not specified, here the order of insertion.
\<close>

section \<open>Model\<close>

record entry =
  en_msg :: message
  en_send :: int
  en_num_retry :: int

record resender =
  rs_send_buff :: "(nat \<times> entry) list"
  rs_acked :: "nat list"
  rs_exit :: bool
  rs_timeout :: int
  rs_max_num_retry :: int

definition new_Resender :: "int \<Rightarrow> int \<Rightarrow> resender" where
  "new_Resender timeout max_num_retry =
     \<lparr>rs_send_buff = [], rs_acked = [], rs_exit = False, rs_timeout = timeout, rs_max_num_retry = max_num_retry\<rparr>"

text \<open>The signature of a message: 16 bits of the application, 8 of the sender and of the receiver, and the
  timestamp, an \<open>int\<close> shifted by one and extended to 64 bits, with the request flag.\<close>

definition key_word :: "int \<Rightarrow> int \<Rightarrow> int \<Rightarrow> int \<Rightarrow> bool \<Rightarrow> 64 word" where
  "key_word app_id sender recver timestamp request =
     push_bit 48 (word_of_int (app_id mod 2 ^ 16)) OR push_bit 40 (word_of_int (sender mod 2 ^ 8))
     OR push_bit 32 (word_of_int (recver mod 2 ^ 8)) OR word_of_int (i32 (timestamp * 2)) OR of_bool request"

definition rs_GetKey :: "int res \<Rightarrow> message \<Rightarrow> nat res" where
  "rs_GetKey my_id msg =
     (let m = mg_meta msg in
      rbind (check (me_timestamp m \<noteq> kEmpty) ''msg.meta.timestamp != Meta::kEmpty'') (\<lambda>_.
      rbind (if me_sender m = kEmpty then my_id else Inr (me_sender m)) (\<lambda>sender.
        Inr (unat (key_word (me_app_id m) sender (me_recver m) (me_timestamp m) (me_request m))))))"

definition AddOutgoing :: "int res \<Rightarrow> int \<Rightarrow> message \<Rightarrow> resender \<Rightarrow> resender res" where
  "AddOutgoing my_id now msg r =
     (if ct_cmd (me_control (mg_meta msg)) = ACK then Inr r
      else
        rbind (check (me_timestamp (mg_meta msg) \<noteq> kEmpty) ''msg.meta.timestamp != Meta::kEmpty'') (\<lambda>_.
        rbind (rs_GetKey my_id msg) (\<lambda>key.
          if map_of (rs_send_buff r) key \<noteq> None then Inr r
          else Inr (r\<lparr>rs_send_buff := rs_send_buff r @ [(key, \<lparr>en_msg = msg, en_send = now, en_num_retry = 0\<rparr>)]\<rparr>))))"

definition ack_msg :: "message \<Rightarrow> nat \<Rightarrow> message" where
  "ack_msg msg key =
     \<lparr>mg_meta = Meta\<lparr>me_recver := me_sender (mg_meta msg), me_sender := me_recver (mg_meta msg),
        me_control := Control\<lparr>ct_cmd := ACK, ct_msg_sig := key\<rparr>\<rparr>, mg_data = []\<rparr>"

text \<open>The result: whether the message is dropped, the acknowledgement to send, and the new state.\<close>

definition AddIncomming :: "int res \<Rightarrow> message \<Rightarrow> resender \<Rightarrow> (bool \<times> message list \<times> resender) res" where
  "AddIncomming my_id msg r =
     (let c = me_control (mg_meta msg) in
      if ct_cmd c = TERMINATE then Inr (False, [], r)
      else if ct_cmd c = ACK then
        Inr (True, [], r\<lparr>rs_send_buff := filter (\<lambda>(k, _). k \<noteq> ct_msg_sig c) (rs_send_buff r)\<rparr>)
      else
        rbind (rs_GetKey my_id msg) (\<lambda>key.
          let duplicated = key \<in> set (rs_acked r) in
          Inr (duplicated, [ack_msg msg key], if duplicated then r else r\<lparr>rs_acked := key # rs_acked r\<rparr>)))"

text \<open>One entry of the loop of \<open>Monitoring\<close>, and one round of it.\<close>

definition monitor_entry :: "int res \<Rightarrow> int \<Rightarrow> int \<Rightarrow> int \<Rightarrow> nat \<times> entry \<Rightarrow> message list \<times> (nat \<times> entry) list
    \<Rightarrow> (message list \<times> (nat \<times> entry) list) res" where
  "monitor_entry my_id timeout max_num_retry now ke st =
     (let (key, e) = ke; (resend, buff) = st in
      if en_send e + timeout * (1 + en_num_retry e) < now then
        let e1 = e\<lparr>en_num_retry := en_num_retry e + 1\<rparr> in
        rbind my_id (\<lambda>_.
        rbind (check (en_num_retry e1 < max_num_retry) ''it.second.num_retry < max_num_retry_'') (\<lambda>_.
          Inr (resend @ [en_msg e], buff @ [(key, e1)])))
      else Inr (resend, buff @ [(key, e)]))"

definition Monitoring_turn :: "int res \<Rightarrow> int \<Rightarrow> resender \<Rightarrow> (message list \<times> resender) res" where
  "Monitoring_turn my_id now r =
     rbind (rfold (monitor_entry my_id (rs_timeout r) (rs_max_num_retry r) now) (rs_send_buff r) ([], []))
       (\<lambda>(resend, buff). Inr (resend, r\<lparr>rs_send_buff := buff\<rparr>))"

section \<open>Signatures\<close>

lemma or_parts:
  fixes a b c t f :: "64 word"
  assumes "take_bit 16 a = a" and "take_bit 8 b = b" and "take_bit 8 c = c" and "take_bit 31 t = t" and "take_bit 1 f = f"
  defines "k \<equiv> push_bit 48 a OR push_bit 40 b OR push_bit 32 c OR push_bit 1 t OR f"
  shows "drop_bit 48 k = a" and "take_bit 8 (drop_bit 40 k) = b" and "take_bit 8 (drop_bit 32 k) = c"
    and "take_bit 31 (drop_bit 1 k) = t" and "take_bit 1 k = f"
proof -
  have hi: "bit a n \<Longrightarrow> n < 16" "bit b n \<Longrightarrow> n < 8" "bit c n \<Longrightarrow> n < 8" "bit t n \<Longrightarrow> n < 31" "bit f n \<Longrightarrow> n < 1" for n
    using arg_cong [OF assms(1), of "\<lambda>w. bit w n"] arg_cong [OF assms(2), of "\<lambda>w. bit w n"] arg_cong [OF assms(3), of "\<lambda>w. bit w n"]
      arg_cong [OF assms(4), of "\<lambda>w. bit w n"] arg_cong [OF assms(5), of "\<lambda>w. bit w n"] by (auto simp: bit_simps)
  define T where "T = push_bit 1 t"
  have T: "bit T n \<longleftrightarrow> 1 \<le> n \<and> n < 64 \<and> bit t (n - 1)" for n
    unfolding T_def bit_push_bit_iff by (simp add: bit_simps)
  have k: "k = push_bit 48 a OR push_bit 40 b OR push_bit 32 c OR T OR f" by (simp only: k_def T_def)
  note bits = bit_simps k T
  show "drop_bit 48 k = a"
    by (rule bit_word_eqI) (auto simp: bits dest: hi)
  show "take_bit 8 (drop_bit 40 k) = b"
    by (rule bit_word_eqI) (auto simp: bits dest: hi)
  show "take_bit 8 (drop_bit 32 k) = c"
    by (rule bit_word_eqI) (auto simp: bits dest: hi)
  show "take_bit 31 (drop_bit 1 k) = t"
    by (rule bit_word_eqI) (auto simp: bits dest: hi)
  show "take_bit 1 k = f"
  proof (rule bit_word_eqI)
    fix n
    have "bit (take_bit 1 k) n \<longleftrightarrow> n < 1 \<and> bit k n" by (simp only: bit_take_bit_iff)
    also have "\<dots> \<longleftrightarrow> n < 1 \<and> bit f n" unfolding k bit_or_iff bit_push_bit_iff T by auto
    finally show "bit (take_bit 1 k) n \<longleftrightarrow> bit f n" using hi(5) by auto
  qed
qed

text \<open>The fields a signature can tell apart.\<close>

definition key_wf :: "int \<Rightarrow> int \<Rightarrow> int \<Rightarrow> int \<Rightarrow> bool" where
  "key_wf app_id sender recver timestamp \<longleftrightarrow> 0 \<le> app_id \<and> app_id < 2 ^ 16 \<and> 0 \<le> sender \<and> sender < 2 ^ 8
     \<and> 0 \<le> recver \<and> recver < 2 ^ 8 \<and> 0 \<le> timestamp \<and> timestamp < 2 ^ 30"

lemma take_bit_word_of_int: "0 \<le> x \<Longrightarrow> x < 2 ^ n \<Longrightarrow> take_bit n (word_of_int x :: 64 word) = word_of_int x"
  by (rule bit_word_eqI) (metis (no_types, lifting) bit_take_bit_iff bit_word_of_int_iff take_bit_int_eq_self)

lemma key_word_parts:
  assumes "key_wf app sender recver ts"
  shows "drop_bit 48 (key_word app sender recver ts rq) = word_of_int app"
    and "take_bit 8 (drop_bit 40 (key_word app sender recver ts rq)) = word_of_int sender"
    and "take_bit 8 (drop_bit 32 (key_word app sender recver ts rq)) = word_of_int recver"
    and "take_bit 31 (drop_bit 1 (key_word app sender recver ts rq)) = word_of_int ts"
    and "take_bit 1 (key_word app sender recver ts rq) = of_bool rq"
proof -
  have "i32 (ts * 2) = ts * 2" using assms by (simp add: key_wf_def i32_def)
  then have sh: "word_of_int (i32 (ts * 2)) = (push_bit 1 (word_of_int ts) :: 64 word)"
    by (simp add: push_bit_eq_mult mult.commute)
  have k: "key_word app sender recver ts rq = push_bit 48 (word_of_int app) OR push_bit 40 (word_of_int sender)
    OR push_bit 32 (word_of_int recver) OR push_bit 1 (word_of_int ts) OR of_bool rq"
    using assms by (simp add: key_word_def sh key_wf_def)
  have "take_bit 16 (word_of_int app :: 64 word) = word_of_int app" "take_bit 8 (word_of_int sender :: 64 word) = word_of_int sender"
    "take_bit 8 (word_of_int recver :: 64 word) = word_of_int recver" "take_bit 31 (word_of_int ts :: 64 word) = word_of_int ts"
    "take_bit 1 (of_bool rq :: 64 word) = of_bool rq"
    using assms by (auto simp: key_wf_def intro!: take_bit_word_of_int)
  from or_parts [OF this] show "drop_bit 48 (key_word app sender recver ts rq) = word_of_int app"
    "take_bit 8 (drop_bit 40 (key_word app sender recver ts rq)) = word_of_int sender"
    "take_bit 8 (drop_bit 32 (key_word app sender recver ts rq)) = word_of_int recver"
    "take_bit 31 (drop_bit 1 (key_word app sender recver ts rq)) = word_of_int ts"
    "take_bit 1 (key_word app sender recver ts rq) = of_bool rq"
    unfolding k by simp_all
qed

lemma word_of_int_inj: "0 \<le> x \<Longrightarrow> x < 2 ^ 64 \<Longrightarrow> 0 \<le> y \<Longrightarrow> y < 2 ^ 64 \<Longrightarrow> (word_of_int x :: 64 word) = word_of_int y \<longleftrightarrow> x = y"
  by (simp add: word_of_int_eq_iff take_bit_eq_mod)

lemma key_word_inj:
  assumes "key_wf a s r t" and "key_wf a' s' r' t'"
  shows "key_word a s r t q = key_word a' s' r' t' q' \<longleftrightarrow> a = a' \<and> s = s' \<and> r = r' \<and> t = t' \<and> q = q'"
proof
  assume "key_word a s r t q = key_word a' s' r' t' q'"
  then have "word_of_int a = (word_of_int a' :: 64 word)" "word_of_int s = (word_of_int s' :: 64 word)"
    "word_of_int r = (word_of_int r' :: 64 word)" "word_of_int t = (word_of_int t' :: 64 word)" "of_bool q = (of_bool q' :: 64 word)"
    using key_word_parts [OF assms(1), of q] key_word_parts [OF assms(2), of q'] by simp_all
  then show "a = a' \<and> s = s' \<and> r = r' \<and> t = t' \<and> q = q'"
    using assms by (auto simp: key_wf_def word_of_int_inj)
qed simp

text \<open>C32: Signatures tell messages apart as long as their fields fit: for application ids of 16 bits, node ids of 8
  bits and timestamps below \<open>2 ^ 30\<close>, two messages have the same signature only if application, sender,
  receiver, timestamp and request flag agree. Beyond that they collide: node ids that differ by 256 are
  one node to the resender.\<close>

theorem signature_injective:
  assumes "rs_GetKey my m = Inr k" and "rs_GetKey my' m' = Inr k'"
    and "me_sender (mg_meta m) \<noteq> kEmpty" and "me_sender (mg_meta m') \<noteq> kEmpty"
    and "key_wf (me_app_id (mg_meta m)) (me_sender (mg_meta m)) (me_recver (mg_meta m)) (me_timestamp (mg_meta m))"
    and "key_wf (me_app_id (mg_meta m')) (me_sender (mg_meta m')) (me_recver (mg_meta m')) (me_timestamp (mg_meta m'))"
  shows "(k = k' \<longleftrightarrow> me_app_id (mg_meta m) = me_app_id (mg_meta m') \<and> me_sender (mg_meta m) = me_sender (mg_meta m')
      \<and> me_recver (mg_meta m) = me_recver (mg_meta m') \<and> me_timestamp (mg_meta m) = me_timestamp (mg_meta m')
      \<and> me_request (mg_meta m) = me_request (mg_meta m'))
    \<and> rs_GetKey my (m\<lparr>mg_meta := (mg_meta m)\<lparr>me_sender := me_sender (mg_meta m) + 256\<rparr>\<rparr>) = Inr k"
proof -
  have "k = unat (key_word (me_app_id (mg_meta m)) (me_sender (mg_meta m)) (me_recver (mg_meta m)) (me_timestamp (mg_meta m)) (me_request (mg_meta m)))"
    "k' = unat (key_word (me_app_id (mg_meta m')) (me_sender (mg_meta m')) (me_recver (mg_meta m')) (me_timestamp (mg_meta m')) (me_request (mg_meta m')))"
    "me_timestamp (mg_meta m) \<noteq> kEmpty"
    using assms(1-4) by (auto simp: rs_GetKey_def Let_def check_def split: if_splits)
  moreover have "me_sender (mg_meta m) + 256 \<noteq> kEmpty" using assms(5) by (simp add: key_wf_def kEmpty_def)
  ultimately show ?thesis
    using key_word_inj [OF assms(5,6)]
    by (auto simp: word_unat_eq_iff [symmetric] rs_GetKey_def Let_def key_word_def check_def)
qed

section \<open>A lossy link\<close>

text \<open>A sender \<open>A\<close> and a receiver \<open>B\<close> with their resenders, and a network that may lose, repeat and reorder
  messages: what is on it may arrive any number of times in any order, and may be lost at any moment. The van of
  the receiver enters the sender and itself into a message that arrives. \<open>Van::Send\<close> first puts a message on
  the network and enters it into the buffer afterwards: \<open>lk_sending\<close> has the messages of the calls that are in
  between. The monitoring thread collects the messages that are due under the lock, \<open>lk_pending\<close>, and then
  sends one after the other, with the same two steps: \<open>lk_resending\<close>. \<open>lk_sent\<close>, \<open>lk_returned\<close> and \<open>lk_delivered\<close>
  record the calls of \<open>Send\<close> that began, those that returned, and the messages passed on.\<close>

record link =
  lk_snd :: resender
  lk_rcv :: resender
  lk_net :: "message list"
  lk_acks :: "message list"
  lk_sending :: "message list"
  lk_pending :: "message list"
  lk_resending :: "message option"
  lk_sent :: "message list"
  lk_returned :: "message list"
  lk_delivered :: "message list"

definition stamp :: "int \<Rightarrow> int \<Rightarrow> message \<Rightarrow> message" where
  "stamp A B m = m\<lparr>mg_meta := (mg_meta m)\<lparr>me_sender := A, me_recver := B\<rparr>\<rparr>"

definition plain_msg :: "int \<Rightarrow> int \<Rightarrow> message \<Rightarrow> bool" where
  "plain_msg A B m \<longleftrightarrow> ct_cmd (me_control (mg_meta m)) \<notin> {ACK, TERMINATE} \<and> me_recver (mg_meta m) = B
     \<and> (me_sender (mg_meta m) = kEmpty \<or> me_sender (mg_meta m) = A)"

inductive link_step :: "int \<Rightarrow> int \<Rightarrow> link \<Rightarrow> link \<Rightarrow> bool" for A B where
  Ls_send: "plain_msg A B m \<Longrightarrow>
    link_step A B L (L\<lparr>lk_net := m # lk_net L, lk_sending := m # lk_sending L, lk_sent := m # lk_sent L\<rparr>)"
| Ls_buffer: "m \<in> set (lk_sending L) \<Longrightarrow> AddOutgoing (Inr A) now m (lk_snd L) = Inr r \<Longrightarrow>
    link_step A B L (L\<lparr>lk_snd := r, lk_sending := remove1 m (lk_sending L), lk_returned := m # lk_returned L\<rparr>)"
| Ls_monitor: "lk_pending L = [] \<Longrightarrow> lk_resending L = None \<Longrightarrow> Monitoring_turn (Inr A) now (lk_snd L) = Inr (ms, r) \<Longrightarrow>
    link_step A B L (L\<lparr>lk_snd := r, lk_pending := ms\<rparr>)"
| Ls_resend: "lk_pending L = m # ms \<Longrightarrow> lk_resending L = None \<Longrightarrow>
    link_step A B L (L\<lparr>lk_net := m # lk_net L, lk_pending := ms, lk_resending := Some m\<rparr>)"
| Ls_rebuffer: "lk_resending L = Some m \<Longrightarrow> AddOutgoing (Inr A) now m (lk_snd L) = Inr r \<Longrightarrow>
    link_step A B L (L\<lparr>lk_snd := r, lk_resending := None\<rparr>)"
| Ls_data: "m \<in> set (lk_net L) \<Longrightarrow> AddIncomming (Inr B) (stamp A B m) (lk_rcv L) = Inr (dup, acks, r) \<Longrightarrow>
    link_step A B L (L\<lparr>lk_rcv := r, lk_acks := acks @ lk_acks L,
      lk_delivered := (if dup then lk_delivered L else stamp A B m # lk_delivered L)\<rparr>)"
| Ls_ack: "a \<in> set (lk_acks L) \<Longrightarrow> AddIncomming (Inr A) a (lk_snd L) = Inr (dup, acks, r) \<Longrightarrow>
    link_step A B L (L\<lparr>lk_snd := r\<rparr>)"
| Ls_lose: "m \<in> set (lk_net L) \<Longrightarrow> link_step A B L (L\<lparr>lk_net := remove1 m (lk_net L)\<rparr>)"
| Ls_lose_ack: "a \<in> set (lk_acks L) \<Longrightarrow> link_step A B L (L\<lparr>lk_acks := remove1 a (lk_acks L)\<rparr>)"

inductive link_reach :: "int \<Rightarrow> int \<Rightarrow> link \<Rightarrow> link \<Rightarrow> bool" for A B L0 where
  Lr_init: "link_reach A B L0 L0"
| Lr_step: "link_reach A B L0 L \<Longrightarrow> link_step A B L L' \<Longrightarrow> link_reach A B L0 L'"

definition link_init :: "int \<Rightarrow> int \<Rightarrow> link" where
  "link_init timeout retries = \<lparr>lk_snd = new_Resender timeout retries, lk_rcv = new_Resender timeout retries,
     lk_net = [], lk_acks = [], lk_sending = [], lk_pending = [], lk_resending = None, lk_sent = [], lk_returned = [], lk_delivered = []\<rparr>"

text \<open>The signature of a message of \<open>A\<close>.\<close>

definition msg_key :: "int \<Rightarrow> message \<Rightarrow> nat" where
  "msg_key A m = (let n = mg_meta m in unat (key_word (me_app_id n) (if me_sender n = kEmpty then A else me_sender n)
     (me_recver n) (me_timestamp n) (me_request n)))"

lemma rs_GetKey_Inr: "rs_GetKey (Inr A) m = (if me_timestamp (mg_meta m) \<noteq> kEmpty then Inr (msg_key A m)
    else Inl (Check_Failed ''msg.meta.timestamp != Meta::kEmpty''))"
  by (simp add: rs_GetKey_def msg_key_def Let_def check_def)

lemma stamp_key: "plain_msg A B m \<Longrightarrow> A \<noteq> kEmpty \<Longrightarrow> msg_key B (stamp A B m) = msg_key A m"
  by (auto simp: msg_key_def stamp_def plain_msg_def Let_def)

lemma stamp_simps [simp]:
  "me_timestamp (mg_meta (stamp A B m)) = me_timestamp (mg_meta m)" "me_control (mg_meta (stamp A B m)) = me_control (mg_meta m)"
  by (simp_all add: stamp_def)

subsection \<open>What the operations do\<close>

definition buffered :: "resender \<Rightarrow> (nat \<times> message) list" where
  "buffered r = map (\<lambda>(k, e). (k, en_msg e)) (rs_send_buff r)"

lemma buffered_dom: "fst ` set (buffered r) = dom (map_of (rs_send_buff r))"
  by (force simp: buffered_def dom_map_of_conv_image_fst image_image split_beta)

lemma AddOutgoing_plain:
  assumes "plain_msg A B m" and "AddOutgoing (Inr A) now m r = Inr r'"
  shows "me_timestamp (mg_meta m) \<noteq> kEmpty" and "rs_acked r' = rs_acked r"
    and "buffered r' = (if msg_key A m \<in> fst ` set (buffered r) then buffered r else buffered r @ [(msg_key A m, m)])"
  using assms unfolding buffered_dom
  by (auto simp: AddOutgoing_def plain_msg_def rs_GetKey_Inr check_def buffered_def split: if_splits)

lemma monitor_fold:
  assumes "rfold (monitor_entry my t x now) es (out, buff) = Inr (out', buff')"
  shows "map (\<lambda>(k, e). (k, en_msg e)) buff' = map (\<lambda>(k, e). (k, en_msg e)) buff @ map (\<lambda>(k, e). (k, en_msg e)) es
    \<and> set out' \<subseteq> set out \<union> en_msg ` snd ` set es"
  using assms
proof (induction es arbitrary: out buff)
  case (Cons ke es)
  obtain key e where ke: "ke = (key, e)" by (cases ke)
  from Cons.prems obtain o1 b1 where s: "monitor_entry my t x now ke (out, buff) = Inr (o1, b1)"
    "rfold (monitor_entry my t x now) es (o1, b1) = Inr (out', buff')" by (auto elim!: rbind_InrE)
  have "map (\<lambda>(k, e). (k, en_msg e)) b1 = map (\<lambda>(k, e). (k, en_msg e)) buff @ [(key, en_msg e)]" "set o1 \<subseteq> set out \<union> {en_msg e}"
    using s(1) by (auto simp: monitor_entry_def ke Let_def elim!: rbind_InrE split: if_splits)
  with Cons.IH [OF s(2)] show ?case by (auto simp: ke)
qed simp

lemma Monitoring_turn_buff:
  assumes "Monitoring_turn my now r = Inr (ms, r')"
  shows "buffered r' = buffered r" and "set ms \<subseteq> snd ` set (buffered r)" and "rs_acked r' = rs_acked r"
proof -
  from assms obtain buff where b: "rfold (monitor_entry my (rs_timeout r) (rs_max_num_retry r) now) (rs_send_buff r) ([], []) = Inr (ms, buff)"
    "r' = r\<lparr>rs_send_buff := buff\<rparr>" by (auto simp: Monitoring_turn_def elim!: rbind_InrE)
  from monitor_fold [OF b(1)] show "buffered r' = buffered r" "set ms \<subseteq> snd ` set (buffered r)"
    by (auto simp: buffered_def b(2) image_image split_beta)
  show "rs_acked r' = rs_acked r" by (simp add: b(2))
qed

lemma AddIncomming_plain:
  assumes "plain_msg A B m" and "A \<noteq> kEmpty" and "AddIncomming (Inr B) (stamp A B m) r = Inr (dup, acks, r')"
  shows "dup \<longleftrightarrow> msg_key A m \<in> set (rs_acked r)" and "acks = [ack_msg (stamp A B m) (msg_key A m)]"
    and "rs_acked r' = (if dup then rs_acked r else msg_key A m # rs_acked r)"
  using assms stamp_key [OF assms(1,2)]
  by (auto simp: AddIncomming_def plain_msg_def rs_GetKey_Inr Let_def split: if_splits)

lemma AddIncomming_ack:
  assumes "ct_cmd (me_control (mg_meta a)) = ACK" and "AddIncomming my a r = Inr (dup, acks, r')"
  shows "buffered r' = filter (\<lambda>(k, _). k \<noteq> ct_msg_sig (me_control (mg_meta a))) (buffered r)"
  using assms by (auto simp: AddIncomming_def Let_def buffered_def filter_map comp_def split_beta intro!: arg_cong [where f = "map _"] filter_cong)

lemma ack_msg_simps [simp]:
  "ct_cmd (me_control (mg_meta (ack_msg m k))) = ACK" "ct_msg_sig (me_control (mg_meta (ack_msg m k))) = k"
  by (simp_all add: ack_msg_def Control_def)

subsection \<open>The invariant\<close>

definition link_inv :: "int \<Rightarrow> int \<Rightarrow> link \<Rightarrow> bool" where
  "link_inv A B L \<longleftrightarrow> (\<forall>m \<in> set (lk_sent L). plain_msg A B m) \<and> (\<forall>m \<in> set (lk_returned L). me_timestamp (mg_meta m) \<noteq> kEmpty)
     \<and> set (lk_net L) \<subseteq> set (lk_sent L) \<and> set (lk_sending L) \<subseteq> set (lk_sent L) \<and> set (lk_returned L) \<subseteq> set (lk_sent L)
     \<and> set (lk_pending L) \<subseteq> set (lk_returned L) \<and> set_option (lk_resending L) \<subseteq> set (lk_returned L)
     \<and> (\<forall>(k, m) \<in> set (buffered (lk_snd L)). m \<in> set (lk_returned L) \<and> k = msg_key A m)
     \<and> map (msg_key B) (lk_delivered L) = rs_acked (lk_rcv L) \<and> distinct (rs_acked (lk_rcv L))
     \<and> set (lk_delivered L) \<subseteq> stamp A B ` set (lk_sent L)
     \<and> (\<forall>a \<in> set (lk_acks L). ct_cmd (me_control (mg_meta a)) = ACK
          \<and> ct_msg_sig (me_control (mg_meta a)) \<in> set (rs_acked (lk_rcv L)))
     \<and> (\<forall>m \<in> set (lk_returned L). msg_key A m \<in> fst ` set (buffered (lk_snd L)) \<or> msg_key A m \<in> set (rs_acked (lk_rcv L)))"

lemma link_inv_init: "link_inv A B (link_init t x)"
  by (simp add: link_inv_def link_init_def new_Resender_def buffered_def)

text \<open>Entering a message into the buffer.\<close>

lemma link_inv_buffer:
  assumes inv: "link_inv A B L" and m: "m \<in> set (lk_sent L)" and out: "AddOutgoing (Inr A) now m (lk_snd L) = Inr r"
    and L': "L' = L\<lparr>lk_snd := r, lk_sending := s, lk_resending := p, lk_returned := q\<rparr>"
    and s: "set s \<subseteq> set (lk_sending L)" and p: "set_option p \<subseteq> set_option (lk_resending L)"
    and q: "set q = insert m (set (lk_returned L))"
  shows "link_inv A B L'"
proof -
  have pm: "plain_msg A B m" using inv m by (simp add: link_inv_def)
  have b: "set (buffered r) = (if msg_key A m \<in> fst ` set (buffered (lk_snd L)) then set (buffered (lk_snd L))
      else insert (msg_key A m, m) (set (buffered (lk_snd L))))"
    by (simp add: AddOutgoing_plain(3) [OF pm out])
  have sub: "set (buffered (lk_snd L)) \<subseteq> set (buffered r)" and k: "msg_key A m \<in> fst ` set (buffered r)"
    unfolding b by (auto split: if_splits)
  have "\<forall>(k, m) \<in> set (buffered r). m \<in> set q \<and> k = msg_key A m"
    using inv unfolding b q link_inv_def by (auto split: if_splits)
  moreover have "\<forall>m' \<in> set q. msg_key A m' \<in> fst ` set (buffered r) \<or> msg_key A m' \<in> set (rs_acked (lk_rcv L))"
  proof
    fix m' assume "m' \<in> set q"
    then have "m' = m \<or> msg_key A m' \<in> fst ` set (buffered (lk_snd L)) \<or> msg_key A m' \<in> set (rs_acked (lk_rcv L))"
      using inv unfolding q link_inv_def by blast
    with k image_mono [OF sub, of fst] show "msg_key A m' \<in> fst ` set (buffered r) \<or> msg_key A m' \<in> set (rs_acked (lk_rcv L))"
      by blast
  qed
  moreover have "\<forall>m \<in> set q. me_timestamp (mg_meta m) \<noteq> kEmpty"
    using inv AddOutgoing_plain(1) [OF pm out] unfolding q link_inv_def by blast
  moreover have "set s \<subseteq> set (lk_sent L)" "set q \<subseteq> set (lk_sent L)" "set (lk_pending L) \<subseteq> set q" "set_option p \<subseteq> set q"
    using inv s p m unfolding q link_inv_def by blast+
  ultimately show ?thesis using inv by (simp add: link_inv_def L')
qed

lemma link_inv_step:
  assumes "link_step A B L L'" and "link_inv A B L" and "A \<noteq> kEmpty"
  shows "link_inv A B L'"
  using assms(1,2)
proof cases
  case (Ls_send m)
  then show ?thesis using assms(2) by (auto simp: link_inv_def)
next
  case (Ls_buffer m now r)
  then have "m \<in> set (lk_sent L)" using assms(2) by (auto simp: link_inv_def)
  from link_inv_buffer [OF assms(2) this Ls_buffer(3) refl set_remove1_subset order_refl, of "m # lk_returned L"]
  show ?thesis by (simp add: Ls_buffer(1))
next
  case (Ls_monitor now ms r)
  note t = Monitoring_turn_buff [OF Ls_monitor(4)]
  have "\<forall>(k, m) \<in> set (buffered (lk_snd L)). m \<in> set (lk_returned L)" using assms(2) unfolding link_inv_def by blast
  then have "snd ` set (buffered (lk_snd L)) \<subseteq> set (lk_returned L)" by auto
  with t(2) have "set ms \<subseteq> set (lk_returned L)" by blast
  with t(1) assms(2) show ?thesis by (simp add: link_inv_def Ls_monitor(1))
next
  case (Ls_resend m ms)
  then show ?thesis using assms(2) by (auto simp: link_inv_def)
next
  case (Ls_rebuffer m now r)
  then have m: "m \<in> set (lk_returned L)" "m \<in> set (lk_sent L)" using assms(2) by (auto simp: link_inv_def)
  from link_inv_buffer [OF assms(2) m(2) Ls_rebuffer(3) refl order_refl, of None "lk_returned L"] m(1)
  show ?thesis by (simp add: Ls_rebuffer(1) insert_absorb)
next
  case (Ls_data m dup acks r)
  then have m: "m \<in> set (lk_sent L)" using assms(2) by (auto simp: link_inv_def)
  then have pm: "plain_msg A B m" using assms(2) by (simp add: link_inv_def)
  note i = AddIncomming_plain [OF pm assms(3) Ls_data(3)] and k = stamp_key [OF pm assms(3)]
  show ?thesis using assms(2) m i k by (auto simp: link_inv_def Ls_data(1))
next
  case (Ls_ack a dup acks r)
  then have a: "ct_cmd (me_control (mg_meta a)) = ACK" "ct_msg_sig (me_control (mg_meta a)) \<in> set (rs_acked (lk_rcv L))"
    using assms(2) by (auto simp: link_inv_def)
  have b: "set (buffered r) = {(k, m) \<in> set (buffered (lk_snd L)). k \<noteq> ct_msg_sig (me_control (mg_meta a))}"
    by (auto simp: AddIncomming_ack [OF a(1) Ls_ack(3)])
  have "msg_key A m \<in> fst ` set (buffered r) \<or> msg_key A m \<in> set (rs_acked (lk_rcv L))" if "m \<in> set (lk_returned L)" for m
  proof -
    have "msg_key A m \<in> fst ` set (buffered (lk_snd L)) \<or> msg_key A m \<in> set (rs_acked (lk_rcv L))"
      using assms(2) that unfolding link_inv_def by blast
    then show ?thesis using a(2) unfolding b by (cases "msg_key A m = ct_msg_sig (me_control (mg_meta a))") auto
  qed
  moreover have "\<forall>(k, m) \<in> set (buffered r). m \<in> set (lk_returned L) \<and> k = msg_key A m"
    using assms(2) unfolding b link_inv_def by blast
  ultimately show ?thesis using assms(2) by (simp add: link_inv_def Ls_ack(1))
next
  case (Ls_lose m)
  then show ?thesis using assms(2) set_remove1_subset [of m "lk_net L"] by (auto simp: link_inv_def)
next
  case (Ls_lose_ack a)
  then show ?thesis using assms(2) set_remove1_subset [of a "lk_acks L"] by (auto simp: link_inv_def)
qed

lemma link_reach_inv: "link_reach A B L0 L \<Longrightarrow> link_inv A B L0 \<Longrightarrow> A \<noteq> kEmpty \<Longrightarrow> link_inv A B L"
  by (induction rule: link_reach.induct) (auto intro: link_inv_step)

text \<open>C4: The resender makes a lossy link reliable. Whatever the network loses, repeats or reorders and however
  often the monitoring thread sends again, the receiver passes on only messages that were sent, no two
  with the same signature, and once \<open>Send\<close> has returned, a message that is no longer in the buffer of the
  sender has been passed on, or another one with its signature. So when the signatures of the messages sent are
  different, each message is passed on at most once, and exactly once by the time all calls of \<open>Send\<close> have
  returned and the buffer is empty.\<close>

theorem reliable_link:
  assumes "link_reach A B (link_init timeout retries) L" and "A \<noteq> kEmpty"
  shows "distinct (map (msg_key B) (lk_delivered L)) \<and> set (lk_delivered L) \<subseteq> stamp A B ` set (lk_sent L)
    \<and> (\<forall>m \<in> set (lk_returned L). map_of (rs_send_buff (lk_snd L)) (msg_key A m) = None \<longrightarrow> msg_key A m \<in> msg_key B ` set (lk_delivered L))
    \<and> (inj_on (msg_key A) (set (lk_sent L)) \<and> set (lk_sent L) \<subseteq> set (lk_returned L) \<and> rs_send_buff (lk_snd L) = [] \<longrightarrow>
        distinct (lk_delivered L) \<and> set (lk_delivered L) = stamp A B ` set (lk_sent L))"
proof -
  note inv = link_reach_inv [OF assms(1) link_inv_init assms(2), unfolded link_inv_def]
  have d: "distinct (map (msg_key B) (lk_delivered L))" and sub: "set (lk_delivered L) \<subseteq> stamp A B ` set (lk_sent L)"
    and pl: "\<forall>m \<in> set (lk_sent L). plain_msg A B m" using inv by auto
  have acked: "set (rs_acked (lk_rcv L)) = msg_key B ` set (lk_delivered L)" using inv by (metis set_map)
  have gone: "msg_key A m \<in> msg_key B ` set (lk_delivered L)"
    if "m \<in> set (lk_returned L)" "map_of (rs_send_buff (lk_snd L)) (msg_key A m) = None" for m
    using inv that unfolding acked buffered_dom by blast
  have "stamp A B m \<in> set (lk_delivered L)"
    if "inj_on (msg_key A) (set (lk_sent L))" "rs_send_buff (lk_snd L) = []" "set (lk_sent L) \<subseteq> set (lk_returned L)"
      "m \<in> set (lk_sent L)" for m
  proof -
    from that(3,4) have "m \<in> set (lk_returned L)" by blast
    from gone [OF this] that(2) obtain d where d: "d \<in> set (lk_delivered L)" "msg_key B d = msg_key A m" by auto
    with sub obtain m' where m': "d = stamp A B m'" "m' \<in> set (lk_sent L)" by blast
    then have "msg_key A m' = msg_key A m" using d(2) pl stamp_key assms(2) by metis
    with m' that(1,4) d(1) show ?thesis by (auto simp: inj_on_def)
  qed
  with d sub gone distinct_map [of "msg_key B"] show ?thesis by blast
qed

subsection \<open>Recovery from loss\<close>

lemma link_reach_trans: "link_reach A B L1 L2 \<Longrightarrow> link_reach A B L0 L1 \<Longrightarrow> link_reach A B L0 L2"
  by (induction rule: link_reach.induct) (auto intro: Lr_step)

text \<open>No message has used up its retries: the next round of \<open>Monitoring\<close> passes its \<open>CHECK\<close>.\<close>

definition retries_left :: "resender \<Rightarrow> bool" where
  "retries_left r \<longleftrightarrow> 1 < rs_max_num_retry r \<and> (\<forall>(k, e) \<in> set (rs_send_buff r). en_num_retry e + 1 < rs_max_num_retry r)"

lemma AddOutgoing_ok:
  assumes "plain_msg A B m" and "me_timestamp (mg_meta m) \<noteq> kEmpty"
  shows "\<exists>r'. AddOutgoing (Inr A) now m r = Inr r' \<and> set (rs_send_buff r) \<subseteq> set (rs_send_buff r')
    \<and> (retries_left r \<longrightarrow> retries_left r')"
  using assms by (auto simp: AddOutgoing_def plain_msg_def rs_GetKey_Inr check_def retries_left_def)

lemma monitor_fold_ok:
  assumes "\<forall>(k, e) \<in> set es. en_num_retry e + 1 < x"
  shows "\<exists>out' buff'. rfold (monitor_entry (Inr A) t x now) es (out, buff) = Inr (out', buff') \<and> set out \<subseteq> set out'
    \<and> (\<forall>(k, e) \<in> set es. en_send e + t * (1 + en_num_retry e) < now \<longrightarrow> en_msg e \<in> set out')"
  using assms
proof (induction es arbitrary: out buff)
  case (Cons ke es)
  obtain key e where ke: "ke = (key, e)" by (cases ke)
  obtain o1 b1 where one: "monitor_entry (Inr A) t x now ke (out, buff) = Inr (o1, b1)" "set out \<subseteq> set o1"
    "en_send e + t * (1 + en_num_retry e) < now \<longrightarrow> en_msg e \<in> set o1"
    using Cons.prems that by (cases "en_send e + t * (1 + en_num_retry e) < now") (auto simp: monitor_entry_def ke Let_def check_def)
  from Cons.IH [of o1 b1] Cons.prems obtain out' buff' where
    rest: "rfold (monitor_entry (Inr A) t x now) es (o1, b1) = Inr (out', buff')" "set o1 \<subseteq> set out'"
    "\<forall>(k, e) \<in> set es. en_send e + t * (1 + en_num_retry e) < now \<longrightarrow> en_msg e \<in> set out'" by auto
  then show ?case using one by (auto simp: ke)
qed simp

lemma Monitoring_turn_ok:
  assumes "retries_left r" and "(k, e) \<in> set (rs_send_buff r)"
  shows "\<exists>now ms r'. Monitoring_turn (Inr A) now r = Inr (ms, r') \<and> en_msg e \<in> set ms"
proof -
  let ?now = "en_send e + rs_timeout r * (1 + en_num_retry e) + 1"
  from monitor_fold_ok [of "rs_send_buff r" "rs_max_num_retry r" A "rs_timeout r" ?now "[]" "[]"] assms
  obtain out buff where "rfold (monitor_entry (Inr A) (rs_timeout r) (rs_max_num_retry r) ?now) (rs_send_buff r) ([], []) = Inr (out, buff)"
    "en_msg e \<in> set out" by (auto simp: retries_left_def)
  then show ?thesis by (intro exI [of _ ?now]) (simp add: Monitoring_turn_def)
qed

text \<open>The monitoring thread can always finish the calls of \<open>Send\<close> it owes, after which they are on the network.\<close>

definition same_records :: "link \<Rightarrow> link \<Rightarrow> bool" where
  "same_records L L' \<longleftrightarrow> lk_sent L' = lk_sent L \<and> lk_returned L' = lk_returned L
     \<and> set (lk_net L) \<subseteq> set (lk_net L') \<and> set (rs_send_buff (lk_snd L)) \<subseteq> set (rs_send_buff (lk_snd L'))
     \<and> (retries_left (lk_snd L) \<longrightarrow> retries_left (lk_snd L'))"

lemma finish_rebuffer:
  assumes "link_inv A B L"
  shows "\<exists>L'. link_reach A B L L' \<and> same_records L L' \<and> lk_resending L' = None \<and> lk_pending L' = lk_pending L"
proof (cases "lk_resending L")
  case None
  then show ?thesis by (intro exI [of _ L]) (simp add: Lr_init same_records_def)
next
  case (Some m)
  then have "plain_msg A B m" "me_timestamp (mg_meta m) \<noteq> kEmpty" using assms by (auto simp: link_inv_def)
  from AddOutgoing_ok [OF this, of 0 "lk_snd L"] obtain r where r: "AddOutgoing (Inr A) 0 m (lk_snd L) = Inr r"
    "set (rs_send_buff (lk_snd L)) \<subseteq> set (rs_send_buff r)" "retries_left (lk_snd L) \<longrightarrow> retries_left r" by blast
  from Lr_step [OF Lr_init Ls_rebuffer [OF Some r(1)]] r(2,3) show ?thesis by (force simp: same_records_def)
qed

lemma finish_pending:
  assumes "link_inv A B L" and "A \<noteq> kEmpty"
  shows "\<exists>L'. link_reach A B L L' \<and> same_records L L' \<and> lk_resending L' = None \<and> lk_pending L' = []
    \<and> set (lk_pending L) \<subseteq> set (lk_net L')"
  using assms(1)
proof (induction "lk_pending L" arbitrary: L)
  case Nil
  then show ?case using finish_rebuffer [OF Nil.prems] by auto
next
  case (Cons m ms)
  from finish_rebuffer [OF Cons.prems] obtain L1 where
    L1: "link_reach A B L L1" "same_records L L1" "lk_resending L1 = None" "lk_pending L1 = lk_pending L" by blast
  let ?L2 = "L1\<lparr>lk_net := m # lk_net L1, lk_pending := ms, lk_resending := Some m\<rparr>"
  have "link_step A B L1 ?L2" using Cons.hyps(2) L1(3,4) by (intro Ls_resend) simp_all
  then have L2: "link_reach A B L ?L2" using L1(1) by (rule Lr_step [rotated])
  have "link_inv A B ?L2" by (rule link_reach_inv [OF L2 Cons.prems assms(2)])
  from Cons.hyps(1) [OF _ this] obtain L3 where
    L3: "link_reach A B ?L2 L3" "same_records ?L2 L3" "lk_resending L3 = None" "lk_pending L3 = []" "set ms \<subseteq> set (lk_net L3)"
    by auto
  have "same_records L L3" "m \<in> set (lk_net L3)" using L1(2) L3(2) by (auto simp: same_records_def)
  with L3 link_reach_trans [OF L3(1) L2] show ?case unfolding Cons.hyps(2) [symmetric] by auto
qed

lemma resend_buffered:
  assumes "link_inv A B L" and "A \<noteq> kEmpty" and "retries_left (lk_snd L)" and "(k, e) \<in> set (rs_send_buff (lk_snd L))"
  shows "\<exists>L'. link_reach A B L L' \<and> lk_sent L' = lk_sent L \<and> lk_returned L' = lk_returned L \<and> en_msg e \<in> set (lk_net L')"
proof -
  from finish_pending [OF assms(1,2)] obtain L1 where
    L1: "link_reach A B L L1" "same_records L L1" "lk_resending L1 = None" "lk_pending L1 = []" by blast
  have "retries_left (lk_snd L1)" "(k, e) \<in> set (rs_send_buff (lk_snd L1))"
    using L1(2) assms(3,4) by (auto simp: same_records_def)
  from Monitoring_turn_ok [OF this] obtain now ms r where
    mon: "Monitoring_turn (Inr A) now (lk_snd L1) = Inr (ms, r)" "en_msg e \<in> set ms" by blast
  let ?L2 = "L1\<lparr>lk_snd := r, lk_pending := ms\<rparr>"
  have L2: "link_reach A B L ?L2" by (rule Lr_step [OF L1(1) Ls_monitor [OF L1(4,3) mon(1)]])
  from finish_pending [OF link_reach_inv [OF L2 assms(1,2)] assms(2)] obtain L3 where
    L3: "link_reach A B ?L2 L3" "same_records ?L2 L3" "set (lk_pending ?L2) \<subseteq> set (lk_net L3)" by blast
  have "link_reach A B L L3" by (rule link_reach_trans [OF L3(1) L2])
  with L3(2,3) mon(2) L1(2) show ?thesis by (intro exI [of _ L3]) (auto simp: same_records_def)
qed

text \<open>One arrival of a message and one of its acknowledgement take its signature out of the buffer.\<close>

lemma deliver_and_ack:
  assumes "link_inv A B L" and "A \<noteq> kEmpty" and "m \<in> set (lk_net L)" and "me_timestamp (mg_meta m) \<noteq> kEmpty"
  shows "\<exists>L'. link_reach A B L L' \<and> lk_sent L' = lk_sent L \<and> lk_returned L' = lk_returned L
    \<and> map_of (rs_send_buff (lk_snd L')) (msg_key A m) = None \<and> msg_key A m \<in> msg_key B ` set (lk_delivered L')"
proof -
  have m: "plain_msg A B m" using assms(1,3) by (auto simp: link_inv_def)
  obtain dup acks r where d: "AddIncomming (Inr B) (stamp A B m) (lk_rcv L) = Inr (dup, acks, r)"
    using m assms(4) by (auto simp: AddIncomming_def plain_msg_def rs_GetKey_Inr Let_def)
  let ?L1 = "L\<lparr>lk_rcv := r, lk_acks := acks @ lk_acks L, lk_delivered := (if dup then lk_delivered L else stamp A B m # lk_delivered L)\<rparr>"
  have s1: "link_step A B L ?L1" by (rule Ls_data [OF assms(3) d])
  note i = AddIncomming_plain [OF m assms(2) d]
  let ?a = "ack_msg (stamp A B m) (msg_key A m)"
  have a: "?a \<in> set (lk_acks ?L1)" by (simp add: i(2))
  let ?r2 = "(lk_snd L)\<lparr>rs_send_buff := filter (\<lambda>(k, _). k \<noteq> msg_key A m) (rs_send_buff (lk_snd L))\<rparr>"
  have "AddIncomming (Inr A) ?a (lk_snd ?L1) = Inr (True, [], ?r2)" by (simp add: AddIncomming_def Let_def)
  then have s2: "link_step A B ?L1 (?L1\<lparr>lk_snd := ?r2\<rparr>)" by (rule Ls_ack [OF a])
  have r: "link_reach A B L (?L1\<lparr>lk_snd := ?r2\<rparr>)" using s1 s2 by (blast intro: Lr_init Lr_step)
  have "map_of (filter (\<lambda>(k, _). k \<noteq> msg_key A m) (rs_send_buff (lk_snd L))) (msg_key A m) = None"
    by (auto simp: map_of_eq_None_iff)
  moreover have "msg_key A m \<in> msg_key B ` set (lk_delivered ?L1)"
    using link_reach_inv [OF r assms(1,2), unfolded link_inv_def] i(1,3) stamp_key [OF m assms(2)] assms(1) [unfolded link_inv_def]
    by (cases dup) (auto simp del: set_map simp flip: set_map)
  ultimately show ?thesis using r by (intro exI [of _ "?L1\<lparr>lk_snd := ?r2\<rparr>"]) simp
qed

text \<open>C26: No loss is final. From every state the link can be in, also when the network has lost every copy of a
  message and every acknowledgement of it, and as long as no message has used up its retries, the run can
  go on, without the application sending anything again, so that a message whose \<open>Send\<close> has returned is passed on,
  or another one with its signature, and leaves the buffer of the sender: the monitoring thread sends it again
  and it arrives and is acknowledged.\<close>

theorem link_progress:
  assumes "link_reach A B (link_init timeout retries) L" and "A \<noteq> kEmpty" and "m \<in> set (lk_returned L)"
    and "retries_left (lk_snd L)"
  shows "\<exists>L'. link_reach A B L L' \<and> lk_sent L' = lk_sent L
    \<and> map_of (rs_send_buff (lk_snd L')) (msg_key A m) = None \<and> msg_key A m \<in> msg_key B ` set (lk_delivered L')"
proof (cases "map_of (rs_send_buff (lk_snd L)) (msg_key A m)")
  case None
  note inv = link_reach_inv [OF assms(1) link_inv_init assms(2), unfolded link_inv_def]
  have "set (rs_acked (lk_rcv L)) = msg_key B ` set (lk_delivered L)" using inv by (metis set_map)
  then have "msg_key A m \<in> msg_key B ` set (lk_delivered L)"
    using inv assms(3) None unfolding buffered_dom by blast
  with None show ?thesis by (blast intro: Lr_init)
next
  case (Some e)
  note inv = link_reach_inv [OF assms(1) link_inv_init assms(2)]
  from Some have e: "(msg_key A m, e) \<in> set (rs_send_buff (lk_snd L))" by (rule map_of_SomeD)
  then have "(msg_key A m, en_msg e) \<in> set (buffered (lk_snd L))" by (force simp: buffered_def)
  with inv have k: "msg_key A (en_msg e) = msg_key A m" "me_timestamp (mg_meta (en_msg e)) \<noteq> kEmpty"
    unfolding link_inv_def by auto
  from resend_buffered [OF inv assms(2,4) e] obtain L1 where
    L1: "link_reach A B L L1" "lk_sent L1 = lk_sent L" "en_msg e \<in> set (lk_net L1)" by blast
  from deliver_and_ack [OF link_reach_inv [OF L1(1) inv assms(2)] assms(2) L1(3) k(2)] L1 k(1)
  show ?thesis by (metis link_reach_trans)
qed

section \<open>Examples\<close>

definition demo_msg :: message where
  "demo_msg = \<lparr>mg_meta = Meta\<lparr>me_app_id := 0, me_sender := 9, me_recver := 8, me_timestamp := 3\<rparr>, mg_data = []\<rparr>"

text \<open>A message has been sent and entered into the buffer; after that, its only copy has been lost.\<close>

definition demo_sent :: link where
  "demo_sent = (link_init 1000 10)\<lparr>lk_snd := (new_Resender 1000 10)\<lparr>rs_send_buff := [(msg_key 9 demo_msg, \<lparr>en_msg = demo_msg, en_send = 0, en_num_retry = 0\<rparr>)]\<rparr>,
     lk_net := [demo_msg], lk_sent := [demo_msg], lk_returned := [demo_msg]\<rparr>"

definition demo_lost :: link where
  "demo_lost = demo_sent\<lparr>lk_net := []\<rparr>"

lemma demo_msg_simps:
  "plain_msg 9 8 demo_msg" "me_timestamp (mg_meta demo_msg) = 3" "me_control (mg_meta demo_msg) = Control" "(9 :: int) \<noteq> kEmpty" "(3 :: int) \<noteq> kEmpty"
  by (simp_all add: demo_msg_def plain_msg_def Meta_def Control_def kEmpty_def)

lemma demo_sent_reach: "link_reach 9 8 (link_init 1000 10) demo_sent"
proof -
  let ?L = "(link_init 1000 10)\<lparr>lk_net := [demo_msg], lk_sending := [demo_msg], lk_sent := [demo_msg]\<rparr>"
  have one: "link_reach 9 8 (link_init 1000 10) ?L"
    using Lr_step [OF Lr_init Ls_send [OF demo_msg_simps(1), of "link_init 1000 10"]] by (simp add: link_init_def)
  have "AddOutgoing (Inr 9) 0 demo_msg (lk_snd ?L) = Inr (lk_snd demo_sent)"
    by (simp add: AddOutgoing_def rs_GetKey_Inr demo_msg_simps check_def link_init_def new_Resender_def demo_sent_def Control_def)
  from Lr_step [OF one Ls_buffer [OF _ this]] show ?thesis by (simp add: demo_sent_def link_init_def)
qed

lemma demo_lost_reach: "link_reach 9 8 (link_init 1000 10) demo_lost"
proof -
  have "demo_msg \<in> set (lk_net demo_sent)" by (simp add: demo_sent_def)
  from Lr_step [OF demo_sent_reach Ls_lose [OF this]] show ?thesis by (simp add: demo_lost_def demo_sent_def)
qed

theorem signature_injective_witness:
  "\<exists>k k'. rs_GetKey (Inr 1) demo_msg = Inr k
    \<and> rs_GetKey (Inr 1) (demo_msg\<lparr>mg_meta := (mg_meta demo_msg)\<lparr>me_timestamp := 4\<rparr>\<rparr>) = Inr k' \<and> k \<noteq> k'"
proof -
  let ?m' = "demo_msg\<lparr>mg_meta := (mg_meta demo_msg)\<lparr>me_timestamp := 4\<rparr>\<rparr>"
  obtain k k' where k: "rs_GetKey (Inr 1) demo_msg = Inr k" "rs_GetKey (Inr 1) ?m' = Inr k'"
    by (simp add: rs_GetKey_Inr demo_msg_def kEmpty_def)
  have "me_sender (mg_meta demo_msg) \<noteq> kEmpty" "me_sender (mg_meta ?m') \<noteq> kEmpty"
    "key_wf (me_app_id (mg_meta demo_msg)) (me_sender (mg_meta demo_msg)) (me_recver (mg_meta demo_msg)) (me_timestamp (mg_meta demo_msg))"
    "key_wf (me_app_id (mg_meta ?m')) (me_sender (mg_meta ?m')) (me_recver (mg_meta ?m')) (me_timestamp (mg_meta ?m'))"
    by (simp_all add: demo_msg_def Meta_def kEmpty_def key_wf_def)
  from signature_injective [OF k this] k show ?thesis by (auto simp: demo_msg_def)
qed

theorem reliable_link_witness:
  "\<exists>L. link_reach 9 8 (link_init 1000 10) L \<and> rs_send_buff (lk_snd L) = [] \<and> lk_sent L = [demo_msg]
    \<and> set (lk_delivered L) = {stamp 9 8 demo_msg}"
proof -
  let ?k = "msg_key 9 demo_msg" and ?m = "stamp 9 8 demo_msg"
  let ?r = "(new_Resender 1000 10)\<lparr>rs_acked := [?k]\<rparr>"
  have "AddIncomming (Inr 8) ?m (lk_rcv demo_sent) = Inr (False, [ack_msg ?m ?k], ?r)"
    using stamp_key [OF demo_msg_simps(1,4)]
    by (simp add: AddIncomming_def Let_def demo_msg_simps rs_GetKey_Inr demo_sent_def link_init_def new_Resender_def Control_def)
  from Lr_step [OF demo_sent_reach Ls_data [OF _ this]]
  have r1: "link_reach 9 8 (link_init 1000 10) (demo_sent\<lparr>lk_rcv := ?r, lk_acks := [ack_msg ?m ?k], lk_delivered := [?m]\<rparr>)"
    (is "link_reach _ _ _ ?L1") by (simp add: demo_sent_def link_init_def)
  have "AddIncomming (Inr 9) (ack_msg ?m ?k) (lk_snd ?L1) = Inr (True, [], new_Resender 1000 10)"
    by (simp add: AddIncomming_def Let_def demo_sent_def new_Resender_def)
  from Lr_step [OF r1 Ls_ack [OF _ this]]
  have r2: "link_reach 9 8 (link_init 1000 10) (?L1\<lparr>lk_snd := new_Resender 1000 10\<rparr>)" (is "link_reach _ _ _ ?L2") by simp
  have "inj_on (msg_key 9) (set (lk_sent ?L2))" "rs_send_buff (lk_snd ?L2) = []" "lk_sent ?L2 = [demo_msg]" "lk_returned ?L2 = [demo_msg]"
    by (simp_all add: demo_sent_def new_Resender_def link_init_def)
  with reliable_link [OF r2 demo_msg_simps(4)] r2 show ?thesis by (intro exI [of _ ?L2]) auto
qed

theorem link_progress_witness:
  "link_reach 9 8 (link_init 1000 10) demo_lost \<and> lk_net demo_lost = []
    \<and> (\<exists>L'. link_reach 9 8 demo_lost L' \<and> lk_sent L' = [demo_msg]
          \<and> map_of (rs_send_buff (lk_snd L')) (msg_key 9 demo_msg) = None \<and> msg_key 9 demo_msg \<in> msg_key 8 ` set (lk_delivered L'))"
proof -
  have "demo_msg \<in> set (lk_returned demo_lost)" "retries_left (lk_snd demo_lost)" "lk_sent demo_lost = [demo_msg]" "lk_net demo_lost = []"
    by (simp_all add: demo_lost_def demo_sent_def retries_left_def new_Resender_def)
  with link_progress [OF demo_lost_reach demo_msg_simps(4)] demo_lost_reach show ?thesis by metis
qed

end
