(* ===== verification/Van_Model.thy ===== *)
theory Van_Model
  imports Customer Resender_Model Std_Sort
begin

text \<open>
  \<open>Van\<close> (\<open>src/include/ps/internal/van.h\<close>, \<open>src/src/van.cc\<close>): registration of the nodes at the scheduler,
  recovery, barriers, heartbeats, delivery of data messages, and the receiving loop.

  The transport (the virtual functions \<open>Connect\<close>, \<open>Bind\<close>, \<open>RecvMsg\<close>, \<open>SendMsg\<close>), the clocks and the
  network interfaces are arguments, gathered in \<open>van_world\<close>. Messages given to the transport and nodes
  connected to are recorded in the van. The post office and the customers, by their pointers, are
  part of the state, for the receiving thread changes them; so is the variable \<open>DMLC_RANK\<close>.
\<close>

section \<open>State\<close>

record van =
  vn_scheduler :: node
  vn_my_node :: node
  vn_is_scheduler :: bool
  vn_connected :: "byte list \<rightharpoonup> int"
  vn_shared :: "int \<rightharpoonup> int"
  vn_ready :: bool
  vn_send_bytes :: nat
  vn_recv_bytes :: nat
  vn_num_servers :: int
  vn_num_workers :: int
  vn_barrier_count :: "int list"
  vn_resender :: "resender option"
  vn_drop_rate :: int
  vn_timestamp :: int
  vn_init_stage :: int
  vn_heartbeat_timeout :: int
  vn_out :: "message list"
  vn_conns :: "node list"

record sys =
  sy_van :: van
  sy_po :: postoffice
  sy_customers :: "nat \<rightharpoonup> customer"
  sy_rank :: "int option"

text \<open>\<open>wd_seen po\<close> are the states of the post office that the rounds of \<open>GetCustomer\<close> see, from \<open>po\<close> on.\<close>

record van_world =
  wd_SendMsg :: "message \<Rightarrow> int"
  wd_Bind :: "node \<Rightarrow> int \<Rightarrow> int"
  wd_time :: int
  wd_now :: int
  wd_seen :: "postoffice \<Rightarrow> nat \<Rightarrow> postoffice"
  wd_rand :: "nat \<Rightarrow> int"
  wd_GetIP :: "byte list \<Rightarrow> byte list"
  wd_interface :: "byte list \<times> byte list"
  wd_port :: int

definition new_Van :: "ps_env \<Rightarrow> van" where
  "new_Van e =
     \<lparr>vn_scheduler = Node SERVER, vn_my_node = Node SERVER, vn_is_scheduler = False, vn_connected = Map.empty,
      vn_shared = Map.empty, vn_ready = False, vn_send_bytes = 0, vn_recv_bytes = 0, vn_num_servers = 0,
      vn_num_workers = 0, vn_barrier_count = [], vn_resender = None, vn_drop_rate = 0, vn_timestamp = 0,
      vn_init_stage = 0, vn_heartbeat_timeout = GetEnv e ''PS_HEARTBEAT_TIMEOUT'' 0, vn_out = [], vn_conns = []\<rparr>"

definition my_node :: "van \<Rightarrow> node res" where
  "my_node v = rbind (check (vn_ready v) ''call Start() first'') (\<lambda>_. Inr (vn_my_node v))"

definition GetTimestamp :: "van \<Rightarrow> int \<times> van" where
  "GetTimestamp v = (vn_timestamp v, v\<lparr>vn_timestamp := i32 (vn_timestamp v + 1)\<rparr>)"

fun dec_digits :: "nat \<Rightarrow> byte list" where
  "dec_digits n = (if n < 10 then [of_nat (48 + n)] else dec_digits (n div 10) @ [of_nat (48 + n mod 10)])"

declare dec_digits.simps [simp del]

definition to_string :: "int \<Rightarrow> byte list" where
  "to_string x = (if x < 0 then 45 # dec_digits (nat (- x)) else dec_digits (nat x))"

definition address :: "node \<Rightarrow> byte list" where
  "address n = nd_hostname n @ [58] @ to_string (nd_port n)"

section \<open>Sending\<close>

definition vn_Send :: "van_world \<Rightarrow> message \<Rightarrow> van \<Rightarrow> (int \<times> van) res" where
  "vn_Send wd msg v =
     (let n = wd_SendMsg wd msg; v1 = v\<lparr>vn_out := vn_out v @ [msg]\<rparr> in
      rbind (check (n \<noteq> - 1) ''send_bytes != -1'') (\<lambda>_.
        let v2 = v1\<lparr>vn_send_bytes := u64 (vn_send_bytes v1 + u64_of_int n)\<rparr> in
        case vn_resender v2 of
          None \<Rightarrow> Inr (n, v2)
        | Some r \<Rightarrow>
            rbind (AddOutgoing (rbind (my_node v2) (\<lambda>m. Inr (nd_id m))) (wd_now wd) msg r) (\<lambda>r1.
              Inr (n, v2\<lparr>vn_resender := Some r1\<rparr>))))"

text \<open>Sending \<open>m\<close> to a node with a fresh timestamp.\<close>

definition send_stamped :: "van_world \<Rightarrow> meta \<Rightarrow> int \<Rightarrow> van \<Rightarrow> (int \<times> van) res" where
  "send_stamped wd m r v =
     (let (ts, v1) = GetTimestamp v in
      vn_Send wd \<lparr>mg_meta = m\<lparr>me_recver := r, me_timestamp := ts\<rparr>, mg_data = []\<rparr> v1)"

definition vn_Connect :: "node \<Rightarrow> van \<Rightarrow> van" where
  "vn_Connect n v = v\<lparr>vn_conns := vn_conns v @ [n]\<rparr>"

text \<open>The log message, which needs the node, is written from verbosity 1 on.\<close>

definition ProcessTerminateCommand :: "int \<Rightarrow> van \<Rightarrow> van res" where
  "ProcessTerminateCommand verbose v =
     rbind (if 1 \<le> verbose then my_node v else Inr (vn_my_node v)) (\<lambda>_. Inr (v\<lparr>vn_ready := False\<rparr>))"

section \<open>Registration\<close>

text \<open>The comparison of the nodes: \<open>compare\<close> is negative, zero or positive, and an \<open>or\<close> with a truth value
  leaves a negative number negative.\<close>

fun str_less :: "byte list \<Rightarrow> byte list \<Rightarrow> bool" where
  "str_less [] [] = False"
| "str_less [] (_ # _) = True"
| "str_less (_ # _) [] = False"
| "str_less (x # xs) (y # ys) = (x < y \<or> x = y \<and> str_less xs ys)"

definition node_less :: "node \<Rightarrow> node \<Rightarrow> bool" where
  "node_less a b = (if str_less (nd_hostname b) (nd_hostname a) then True
     else if nd_hostname a = nd_hostname b then nd_port a < nd_port b else False)"

definition rank_id :: "node \<Rightarrow> van \<Rightarrow> int" where
  "rank_id n v = (if nd_role n = SERVER then ServerRankToID (vn_num_servers v) else WorkerRankToID (vn_num_workers v))"

definition count_role :: "node \<Rightarrow> van \<Rightarrow> van" where
  "count_role n v =
     (case nd_role n of
        SERVER \<Rightarrow> v\<lparr>vn_num_servers := i32 (vn_num_servers v + 1)\<rparr>
      | WORKER \<Rightarrow> v\<lparr>vn_num_workers := i32 (vn_num_workers v + 1)\<rparr>
      | SCHEDULER \<Rightarrow> v)"

text \<open>The body of the loop that assigns the ranks: the node with its id, and the new state.\<close>

definition assign_rank :: "int \<Rightarrow> node \<Rightarrow> van \<times> postoffice \<Rightarrow> (node \<times> van \<times> postoffice) res" where
  "assign_rank t n st =
     (let (v, po) = st; i = rank_id n v in
      case vn_connected v (address n) of
        None \<Rightarrow>
          rbind (check (nd_id n = kEmpty) ''node.id == Node::kEmpty'') (\<lambda>_.
            let n1 = n\<lparr>nd_id := i\<rparr>; v1 = vn_Connect n1 v in
            Inr (n1, count_role n (v1\<lparr>vn_connected := (vn_connected v1)(address n \<mapsto> i)\<rparr>), UpdateHeartbeat i t po))
      | Some j \<Rightarrow> Inr (n\<lparr>nd_id := j\<rparr>, count_role n (v\<lparr>vn_shared := (vn_shared v)(i \<mapsto> j)\<rparr>), po))"

fun assign_ranks :: "int \<Rightarrow> node list \<Rightarrow> van \<times> postoffice \<Rightarrow> (node list \<times> van \<times> postoffice) res" where
  "assign_ranks t [] st = Inr ([], st)"
| "assign_ranks t (n # ns) st =
     rbind (assign_rank t n st) (\<lambda>(n1, st1).
     rbind (assign_ranks t ns st1) (\<lambda>(ns1, st2). Inr (n1 # ns1, st2)))"

definition num_nodes :: "postoffice \<Rightarrow> nat" where
  "num_nodes po = u64_of_int (i32 (po_num_servers po + po_num_workers po))"

definition ProcessAddNodeCommandAtScheduler :: "van_world \<Rightarrow> meta \<times> meta \<times> van \<times> postoffice
    \<Rightarrow> (meta \<times> meta \<times> van \<times> postoffice) res" where
  "ProcessAddNodeCommandAtScheduler wd st =
     (let (nodes, recovery0, v, po) = st;
          recovery = recovery0\<lparr>me_control := (me_control recovery0)\<lparr>ct_cmd := ADD_NODE\<rparr>\<rparr>;
          ns = ct_node (me_control nodes); rns = ct_node (me_control recovery) in
      if length ns = num_nodes po then
        rbind (assign_ranks (wd_time wd) (sort_by node_less ns) (v, po)) (\<lambda>(ns1, v1, po1).
          let nodes1 = nodes\<lparr>me_control := (me_control nodes)\<lparr>ct_node := ns1 @ [vn_my_node v1], ct_cmd := ADD_NODE\<rparr>\<rparr> in
          rbind (GetNodeIDs po1 (kWorkerGroup + kServerGroup)) (\<lambda>is.
          rbind (rfold (\<lambda>r v. if vn_shared v r = None then rbind (send_stamped wd nodes1 r v) (\<lambda>(_, v'). Inr v') else Inr v) is v1) (\<lambda>v2.
            Inr (nodes1, recovery, v2\<lparr>vn_ready := True\<rparr>, po1))))
      else if rns \<noteq> [] then
        rbind (GetDeadNodes (vn_ready v) (wd_time wd) (vn_heartbeat_timeout v) po) (\<lambda>dead.
        rbind (check (length rns = 1) ''recovery_nodes->control.node.size() == 1'') (\<lambda>_.
          let rn = hd rns; v1 = vn_Connect rn v; po1 = UpdateHeartbeat (nd_id rn) (wd_time wd) po in
          rbind (GetNodeIDs po1 (kWorkerGroup + kServerGroup)) (\<lambda>is.
          rbind (rfold (\<lambda>r v. if r \<noteq> nd_id rn \<and> r \<in> set dead then Inr v
                   else rbind (send_stamped wd (if r = nd_id rn then nodes else recovery) r v) (\<lambda>(_, v'). Inr v')) is v1) (\<lambda>v2.
            Inr (nodes, recovery, v2, po1)))))
      else Inr (nodes, recovery, v, po))"

text \<open>The loop of \<open>UpdateLocalID\<close> over all nodes but the last: the first dead node of the same role.\<close>

fun find_dead :: "int list \<Rightarrow> role \<Rightarrow> nat \<Rightarrow> node list \<Rightarrow> nat option" where
  "find_dead dead rl i [] = None"
| "find_dead dead rl i (n # ns) =
     (if nd_id n \<in> set dead \<and> nd_role n = rl then Some i else find_dead dead rl (Suc i) ns)"

definition register_node :: "int list \<Rightarrow> nat \<Rightarrow> van \<Rightarrow> node list \<Rightarrow> meta \<times> meta \<Rightarrow> (node list \<times> meta \<times> meta) res" where
  "register_node dead nn v cn st =
     (let (nodes, recovery) = st; ns = ct_node (me_control nodes) in
      rbind (check (vn_is_scheduler v) ''is_scheduler_'') (\<lambda>_.
      rbind (check (length cn = 1) ''ctrl.node.size() == 1'') (\<lambda>_.
        if int (length ns) < i32 (int nn) then
          Inr (cn, nodes\<lparr>me_control := (me_control nodes)\<lparr>ct_node := ns @ [hd cn]\<rparr>\<rparr>, recovery)
        else
          rbind (check (vn_ready v) ''ready_.load()'') (\<lambda>_.
            if ns = [] then Inl (Undefined_Behaviour ''nodes->control.node[0]'')
            else case find_dead dead (nd_role (hd cn)) 0 (butlast ns) of
              None \<Rightarrow> Inr (cn, nodes, recovery)
            | Some i \<Rightarrow>
                let rn = (hd cn)\<lparr>nd_id := nd_id (ns ! i), nd_is_recovery := True\<rparr> in
                Inr ([rn], nodes\<lparr>me_control := (me_control nodes)\<lparr>ct_node := ns[i := rn]\<rparr>\<rparr>,
                     recovery\<lparr>me_control := (me_control recovery)\<lparr>ct_node := ct_node (me_control recovery) @ [rn]\<rparr>\<rparr>)))))"

definition update_my_id :: "node \<Rightarrow> van \<times> int option \<Rightarrow> van \<times> int option" where
  "update_my_id n st =
     (let (v, rank) = st in
      if nd_hostname (vn_my_node v) = nd_hostname n \<and> nd_port (vn_my_node v) = nd_port n
         \<and> (rank = None \<or> nd_id (vn_my_node v) = kEmpty)
      then (v\<lparr>vn_my_node := n\<rparr>, Some (IDtoRank (nd_id n))) else (v, rank))"

text \<open>\<open>UpdateLocalID\<close>: the nodes of the message, which it may change, and the new state.\<close>

definition UpdateLocalID :: "meta \<Rightarrow> int list \<Rightarrow> meta \<times> meta \<times> sys \<Rightarrow> (node list \<times> meta \<times> meta \<times> sys) res" where
  "UpdateLocalID m dead st =
     (let (nodes, recovery, s) = st; cn = ct_node (me_control m) in
      rbind (if me_sender m = kEmpty then register_node dead (num_nodes (sy_po s)) (sy_van s) cn (nodes, recovery)
             else Inr (cn, nodes, recovery)) (\<lambda>(cn1, nodes1, recovery1).
        let (v, rank) = fold update_my_id cn1 (sy_van s, sy_rank s) in
        Inr (cn1, nodes1, recovery1, s\<lparr>sy_van := v, sy_rank := rank\<rparr>)))"

definition connect_node :: "node \<Rightarrow> van \<Rightarrow> van" where
  "connect_node n v =
     (let v1 = (if vn_connected v (address n) = None
                then (vn_Connect n v)\<lparr>vn_connected := (vn_connected v)(address n \<mapsto> nd_id n)\<rparr> else v)
      in if nd_is_recovery n then v1 else count_role n v1)"

definition ProcessAddNodeCommand :: "van_world \<Rightarrow> meta \<Rightarrow> meta \<times> meta \<times> sys \<Rightarrow> (meta \<times> meta \<times> sys) res" where
  "ProcessAddNodeCommand wd m st =
     (let (nodes, recovery, s) = st in
      rbind (GetDeadNodes (vn_ready (sy_van s)) (wd_time wd) (vn_heartbeat_timeout (sy_van s)) (sy_po s)) (\<lambda>dead.
      rbind (UpdateLocalID m dead (nodes, recovery, s)) (\<lambda>(cn, nodes1, recovery1, s1).
        if vn_is_scheduler (sy_van s1) then
          rbind (ProcessAddNodeCommandAtScheduler wd (nodes1, recovery1, sy_van s1, sy_po s1)) (\<lambda>(nodes2, recovery2, v, po).
            Inr (nodes2, recovery2, s1\<lparr>sy_van := v, sy_po := po\<rparr>))
        else Inr (nodes1, recovery1, s1\<lparr>sy_van := (fold connect_node cn (sy_van s1))\<lparr>vn_ready := True\<rparr>\<rparr>))))"

section \<open>Heartbeats, barriers and data\<close>

definition heartbeat_one :: "van_world \<Rightarrow> node \<Rightarrow> van \<times> postoffice \<Rightarrow> (van \<times> postoffice) res" where
  "heartbeat_one wd n st =
     (let (v, po) = st; po1 = UpdateHeartbeat (nd_id n) (wd_time wd) po in
      if vn_is_scheduler v then
        rbind (send_stamped wd (Meta\<lparr>me_control := Control\<lparr>ct_cmd := HEARTBEAT, ct_node := [vn_my_node v]\<rparr>\<rparr>) (nd_id n) v)
          (\<lambda>(_, v1). Inr (v1, po1))
      else Inr (v, po1))"

definition ProcessHearbeat :: "van_world \<Rightarrow> meta \<Rightarrow> van \<times> postoffice \<Rightarrow> (van \<times> postoffice) res" where
  "ProcessHearbeat wd m st = rfold (heartbeat_one wd) (ct_node (me_control m)) st"

definition barrier_release_one :: "van_world \<Rightarrow> meta \<Rightarrow> int \<Rightarrow> van \<Rightarrow> van res" where
  "barrier_release_one wd res r v =
     (if vn_shared v r = None then
        rbind (send_stamped wd res r v) (\<lambda>(n, v1). rbind (check (n > 0) ''Send(res) > 0'') (\<lambda>_. Inr v1))
      else Inr v)"

definition ProcessBarrierCommand :: "van_world \<Rightarrow> meta \<Rightarrow> van \<times> postoffice \<Rightarrow> (van \<times> postoffice) res" where
  "ProcessBarrierCommand wd m st =
     (let (v, po) = st in
      if me_request m then
        let bc = (if vn_barrier_count v = [] then replicate 8 0 else vn_barrier_count v);
            g = ct_barrier_group (me_control m) in
        if g < 0 \<or> int (length bc) \<le> g then Inl (Undefined_Behaviour ''barrier_count_[group]'')
        else
          let k = bc ! nat g + 1; v1 = v\<lparr>vn_barrier_count := bc[nat g := k]\<rparr> in
          rbind (GetNodeIDs po g) (\<lambda>is.
            if k = int (length is) then
              let v2 = v1\<lparr>vn_barrier_count := (vn_barrier_count v1)[nat g := 0]\<rparr>;
                  res = Meta\<lparr>me_request := False, me_app_id := me_app_id m, me_customer_id := me_customer_id m,
                             me_control := Control\<lparr>ct_cmd := BARRIER\<rparr>\<rparr>
              in rbind (rfold (barrier_release_one wd res) is v2) (\<lambda>v3. Inr (v3, po))
            else Inr (v1, po))
      else rbind (Manage m po) (\<lambda>po1. Inr (v, po1)))"

definition ProcessDataMsg :: "van_world \<Rightarrow> message \<Rightarrow> sys \<Rightarrow> sys res" where
  "ProcessDataMsg wd msg s =
     (let m = mg_meta msg in
      rbind (check (me_sender m \<noteq> kEmpty) ''msg->meta.sender != Meta::kEmpty'') (\<lambda>_.
      rbind (check (me_recver m \<noteq> kEmpty) ''msg->meta.recver != Meta::kEmpty'') (\<lambda>_.
      rbind (check (me_app_id m \<noteq> kEmpty) ''msg->meta.app_id != Meta::kEmpty'') (\<lambda>_.
        let customer_id = (if po_is_worker (sy_po s) then me_customer_id m else me_app_id m) in
        case GetCustomer (wd_seen wd (sy_po s)) (me_app_id m) customer_id 5 of
          None \<Rightarrow> Inl (Check_Failed ''timeout (5 sec) to wait App'')
        | Some p \<Rightarrow>
            (case sy_customers s p of
               None \<Rightarrow> Inl (Undefined_Behaviour ''obj->Accept'')
             | Some c \<Rightarrow> Inr (s\<lparr>sy_customers := (sy_customers s)(p \<mapsto> Accept msg c)\<rparr>))))))"

section \<open>The receiving thread\<close>

definition vn_AddIncomming :: "van_world \<Rightarrow> message \<Rightarrow> van \<Rightarrow> (bool \<times> van) res" where
  "vn_AddIncomming wd msg v =
     (case vn_resender v of
        None \<Rightarrow> Inr (False, v)
      | Some r \<Rightarrow>
          rbind (AddIncomming (rbind (my_node v) (\<lambda>m. Inr (nd_id m))) msg r) (\<lambda>(dup, acks, r1).
          rbind (rfold (\<lambda>a v. rbind (vn_Send wd a v) (\<lambda>(_, v1). Inr v1)) acks (v\<lparr>vn_resender := Some r1\<rparr>)) (\<lambda>v1.
            Inr (dup, v1))))"

definition process_msg :: "van_world \<Rightarrow> message \<Rightarrow> meta \<times> meta \<times> sys \<Rightarrow> (bool \<times> meta \<times> meta \<times> sys) res" where
  "process_msg wd msg st =
     (let (nodes, recovery, s) = st; m = mg_meta msg in
      if \<not> ctrl_empty (me_control m) then
        (case ct_cmd (me_control m) of
           TERMINATE \<Rightarrow> rbind (ProcessTerminateCommand (po_verbose (sy_po s)) (sy_van s)) (\<lambda>v. Inr (False, nodes, recovery, s\<lparr>sy_van := v\<rparr>))
         | ADD_NODE \<Rightarrow> rbind (ProcessAddNodeCommand wd m st) (\<lambda>st1. Inr (True, st1))
         | BARRIER \<Rightarrow> rbind (ProcessBarrierCommand wd m (sy_van s, sy_po s)) (\<lambda>(v, po).
             Inr (True, nodes, recovery, s\<lparr>sy_van := v, sy_po := po\<rparr>))
         | HEARTBEAT \<Rightarrow> rbind (ProcessHearbeat wd m (sy_van s, sy_po s)) (\<lambda>(v, po).
             Inr (True, nodes, recovery, s\<lparr>sy_van := v, sy_po := po\<rparr>))
         | _ \<Rightarrow> Inr (True, st))
      else rbind (ProcessDataMsg wd msg s) (\<lambda>s1. Inr (True, nodes, recovery, s1)))"

text \<open>One round of \<open>Receiving\<close> for the message and the number of bytes \<open>RecvMsg\<close> returned; the result says
  whether the loop goes on.\<close>

definition vn_Receiving_turn :: "van_world \<Rightarrow> message \<times> int \<Rightarrow> meta \<times> meta \<times> sys \<Rightarrow> (bool \<times> meta \<times> meta \<times> sys) res" where
  "vn_Receiving_turn wd inp st =
     (let (msg, recv_bytes) = inp; (nodes, recovery, s) = st; v = sy_van s in
      if vn_ready v \<and> vn_drop_rate v > 0 \<and> wd_rand wd (u32_of_int (wd_time wd + nd_id (vn_my_node v))) mod 100 < vn_drop_rate v
      then Inr (True, st)
      else
        rbind (check (recv_bytes \<noteq> - 1) ''recv_bytes != -1'') (\<lambda>_.
        rbind (vn_AddIncomming wd msg (v\<lparr>vn_recv_bytes := u64 (vn_recv_bytes v + u64_of_int recv_bytes)\<rparr>)) (\<lambda>(dup, v1).
          let st1 = (nodes, recovery, s\<lparr>sy_van := v1\<rparr>) in
          if dup then Inr (True, st1) else process_msg wd msg st1)))"

section \<open>Starting and stopping\<close>

definition string_bytes :: "string \<Rightarrow> byte list" where
  "string_bytes s = map of_char s"

definition env_bytes :: "ps_env \<Rightarrow> string \<Rightarrow> byte list" where
  "env_bytes e k = (case env_find e k of None \<Rightarrow> [] | Some v \<Rightarrow> string_bytes v)"

definition local_ip :: "van_world \<Rightarrow> ps_env \<Rightarrow> byte list res" where
  "local_ip wd e =
     (let ip = env_bytes e ''DMLC_NODE_HOST'' in
      if ip \<noteq> [] then Inr ip
      else
        let itf = env_bytes e ''DMLC_INTERFACE'';
            (interface, ip1) = (if itf \<noteq> [] then (itf, wd_GetIP wd itf) else wd_interface wd) in
        rbind (check (interface \<noteq> []) ''failed to get the interface'') (\<lambda>_. Inr ip1))"

definition local_node :: "van_world \<Rightarrow> ps_env \<Rightarrow> int \<Rightarrow> bool \<Rightarrow> node \<Rightarrow> node res" where
  "local_node wd e customer_id is_worker n =
     rbind (local_ip wd e) (\<lambda>ip.
       let port = (case env_find e ''PORT'' of None \<Rightarrow> wd_port wd | Some p \<Rightarrow> atoi p) in
       rbind (check (ip \<noteq> []) ''failed to get ip'') (\<lambda>_.
       rbind (check (port \<noteq> 0) ''failed to get a port'') (\<lambda>_.
         Inr (n\<lparr>nd_hostname := ip, nd_role := (if is_worker then WORKER else SERVER), nd_port := port, nd_id := kEmpty,
                nd_customer_id := customer_id\<rparr>))))"

text \<open>The parts of \<open>Start\<close>: binding, registering at the scheduler, and, once the van is ready, the resender.\<close>

definition vn_Start_bind :: "van_world \<Rightarrow> ps_env \<Rightarrow> int \<Rightarrow> postoffice \<Rightarrow> van \<Rightarrow> van res" where
  "vn_Start_bind wd e customer_id po v =
     (if vn_init_stage v = 0 then
        rbind (not_null ''DMLC_PS_ROOT_URI'' (env_find e ''DMLC_PS_ROOT_URI'')) (\<lambda>uri.
        rbind (not_null ''DMLC_PS_ROOT_PORT'' (env_find e ''DMLC_PS_ROOT_PORT'')) (\<lambda>port.
          let sch = (vn_scheduler v)\<lparr>nd_hostname := string_bytes uri, nd_port := atoi port, nd_role := SCHEDULER, nd_id := kScheduler\<rparr>;
              is_sch = po_is_scheduler po in
          rbind (if is_sch then Inr sch else local_node wd e customer_id (po_is_worker po) (vn_my_node v)) (\<lambda>n.
            let n1 = n\<lparr>nd_port := wd_Bind wd n (if is_sch then 0 else 40)\<rparr> in
            rbind (check (nd_port n1 \<noteq> - 1) ''bind failed'') (\<lambda>_.
              Inr ((vn_Connect sch v)\<lparr>vn_scheduler := sch, vn_is_scheduler := is_sch, vn_my_node := n1,
                   vn_drop_rate := (case env_find e ''PS_DROP_MSG'' of None \<Rightarrow> vn_drop_rate v | Some d \<Rightarrow> atoi d),
                   vn_init_stage := vn_init_stage v + 1\<rparr>)))))
      else Inr v)"

definition vn_Start_register :: "van_world \<Rightarrow> int \<Rightarrow> van \<Rightarrow> van res" where
  "vn_Start_register wd customer_id v =
     (if vn_is_scheduler v then Inr v
      else rbind (send_stamped wd (Meta\<lparr>me_control := Control\<lparr>ct_cmd := ADD_NODE,
                    ct_node := [(vn_my_node v)\<lparr>nd_customer_id := customer_id\<rparr>]\<rparr>\<rparr>) kScheduler v) (\<lambda>(_, v1). Inr v1))"

definition vn_Start_ready :: "ps_env \<Rightarrow> van \<Rightarrow> van" where
  "vn_Start_ready e v =
     (if vn_init_stage v = 1 then
        v\<lparr>vn_resender := (case env_find e ''PS_RESEND'' of
             None \<Rightarrow> vn_resender v
           | Some r \<Rightarrow> if atoi r \<noteq> 0 then Some (new_Resender (GetEnv e ''PS_RESEND_TIMEOUT'' 1000) 10) else vn_resender v),
          vn_init_stage := 2\<rparr>
      else v)"

text \<open>\<open>Stop\<close> up to the join of the threads, and after it.\<close>

definition vn_Stop_begin :: "van_world \<Rightarrow> van \<Rightarrow> van res" where
  "vn_Stop_begin wd v =
     (let msg = \<lparr>mg_meta = Meta\<lparr>me_control := Control\<lparr>ct_cmd := TERMINATE\<rparr>, me_recver := nd_id (vn_my_node v),
                                 me_customer_id := 0\<rparr>, mg_data = []\<rparr> in
      rbind (check (wd_SendMsg wd msg \<noteq> - 1) ''ret != -1'') (\<lambda>_. Inr (v\<lparr>vn_out := vn_out v @ [msg]\<rparr>)))"

definition vn_Stop_end :: "van \<Rightarrow> van" where
  "vn_Stop_end v =
     v\<lparr>vn_init_stage := 0, vn_resender := map_option (\<lambda>r. r\<lparr>rs_exit := True\<rparr>) (vn_resender v), vn_ready := False,
       vn_connected := Map.empty, vn_shared := Map.empty, vn_send_bytes := 0, vn_timestamp := 0,
       vn_my_node := (vn_my_node v)\<lparr>nd_id := kEmpty\<rparr>, vn_barrier_count := []\<rparr>"

text \<open>One round of the heartbeat thread, after its sleep; \<open>None\<close> when the loop ends.\<close>

definition Heartbeat_turn :: "van_world \<Rightarrow> ps_env \<Rightarrow> van \<Rightarrow> van option res" where
  "Heartbeat_turn wd e v =
     (if GetEnv e ''PS_HEARTBEAT_INTERVAL'' 0 > 0 \<and> vn_ready v then
        rbind (send_stamped wd (Meta\<lparr>me_control := Control\<lparr>ct_cmd := HEARTBEAT, ct_node := [vn_my_node v]\<rparr>\<rparr>) kScheduler v)
          (\<lambda>(_, v1). Inr (Some v1))
      else Inr None)"

section \<open>The order of the nodes\<close>

lemma str_less_asym: "str_less x y \<Longrightarrow> \<not> str_less y x"
  by (induction x y rule: str_less.induct) auto

lemma str_less_neg_trans: "str_less x z \<Longrightarrow> str_less x y \<or> str_less y z"
proof (induction x z arbitrary: y rule: str_less.induct)
  case (2 z zs)
  then show ?case by (cases y) auto
next
  case (4 x xs z zs)
  then show ?case by (cases y) auto
qed auto

lemma str_less_total: "\<not> str_less x y \<Longrightarrow> \<not> str_less y x \<Longrightarrow> x = y"
  by (induction x y rule: str_less.induct) auto

text \<open>The comparison the scheduler gives to \<open>std::sort\<close> is one it accepts: host names descending, ports
  ascending.\<close>

interpretation node_order: strict_weak node_less
proof
  show "\<not> node_less y x" if "node_less x y" for x y
    using that str_less_asym by (fastforce simp: node_less_def split: if_splits)
  show "node_less x y \<or> node_less y z" if "node_less x z" for x y z
    using that str_less_neg_trans str_less_total unfolding node_less_def by (metis not_less_iff_gr_or_eq order_less_trans)
qed

text \<open>Nodes at different addresses are never equivalent, so for them the result of \<open>std::sort\<close> is
  determined by its contract: \<open>sort_by\<close> is what every sort returns.\<close>

lemma node_sort_unique:
  assumes "distinct (map address ns)" and "mset xs = mset ns" and "sorted_wrt (\<lambda>x y. \<not> node_less y x) xs"
  shows "xs = sort_by node_less ns"
proof (rule node_order.sort_unique [OF _ assms(3) node_order.sorted_sort_by])
  show "mset xs = mset (sort_by node_less ns)" using assms(2) by (simp add: mset_sort_by)
  fix x y assume xy: "x \<in> set xs" "y \<in> set xs" "\<not> node_less x y" "\<not> node_less y x"
  then have "nd_hostname x = nd_hostname y" "nd_port x = nd_port y"
    using str_less_total by (auto simp: node_less_def split: if_splits)
  moreover have "x \<in> set ns" "y \<in> set ns" using xy(1,2) assms(2) by (metis set_mset_mset)+
  moreover from calculation have "address x = address y" by (simp add: address_def)
  ultimately show "x = y" using assms(1) by (auto simp: distinct_map dest: inj_onD)
qed

section \<open>Sending to a list of nodes\<close>

text \<open>What sending leaves alone.\<close>

definition same_core :: "van \<Rightarrow> van \<Rightarrow> bool" where
  "same_core v v' \<longleftrightarrow> vn_scheduler v' = vn_scheduler v \<and> vn_my_node v' = vn_my_node v \<and> vn_is_scheduler v' = vn_is_scheduler v
     \<and> vn_connected v' = vn_connected v \<and> vn_shared v' = vn_shared v \<and> vn_ready v' = vn_ready v
     \<and> vn_num_servers v' = vn_num_servers v \<and> vn_num_workers v' = vn_num_workers v
     \<and> vn_barrier_count v' = vn_barrier_count v \<and> vn_resender v' = vn_resender v \<and> vn_conns v' = vn_conns v"

lemma same_core_trans: "same_core u v \<Longrightarrow> same_core v w \<Longrightarrow> same_core u w"
  by (simp add: same_core_def)

lemma send_stamped_ok:
  assumes "vn_resender v = None" and "\<forall>m. wd_SendMsg wd m > 0"
  shows "\<exists>n v' ts. send_stamped wd m r v = Inr (n, v') \<and> n > 0 \<and> same_core v v'
    \<and> vn_out v' = vn_out v @ [\<lparr>mg_meta = m\<lparr>me_recver := r, me_timestamp := ts\<rparr>, mg_data = []\<rparr>]"
proof -
  have "wd_SendMsg wd x \<noteq> - 1" for x
  proof -
    have "0 < wd_SendMsg wd x" using assms(2) by blast
    then show ?thesis by linarith
  qed
  with assms show ?thesis
    by (auto simp: send_stamped_def vn_Send_def GetTimestamp_def Let_def check_def same_core_def)
qed

text \<open>A loop that sends to each node of a list, or skips it.\<close>

definition sends :: "(int \<Rightarrow> meta) \<Rightarrow> int list \<Rightarrow> message list \<Rightarrow> bool" where
  "sends m rs out \<longleftrightarrow> list_all2 (\<lambda>r x. \<exists>ts. x = \<lparr>mg_meta = (m r)\<lparr>me_recver := r, me_timestamp := ts\<rparr>, mg_data = []\<rparr>) rs out"

lemma send_loop:
  assumes "vn_resender v = None"
    and step: "\<And>r v. vn_resender v = None \<Longrightarrow> \<exists>v'. f r v = Inr v' \<and> same_core v v'
      \<and> (if P v r then \<exists>ts. vn_out v' = vn_out v @ [\<lparr>mg_meta = (m r)\<lparr>me_recver := r, me_timestamp := ts\<rparr>, mg_data = []\<rparr>] else vn_out v' = vn_out v)"
    and keep: "\<And>v v' r. same_core v v' \<Longrightarrow> P v' r = P v r"
  shows "\<exists>v' out. rfold f rs v = Inr v' \<and> same_core v v' \<and> vn_out v' = vn_out v @ out \<and> sends m (filter (P v) rs) out"
  using assms(1)
proof (induction rs arbitrary: v)
  case Nil
  then show ?case by (simp add: same_core_def sends_def)
next
  case (Cons r rs)
  from step [OF Cons.prems] obtain v1 where v1: "f r v = Inr v1" "same_core v v1"
    "if P v r then \<exists>ts. vn_out v1 = vn_out v @ [\<lparr>mg_meta = (m r)\<lparr>me_recver := r, me_timestamp := ts\<rparr>, mg_data = []\<rparr>] else vn_out v1 = vn_out v"
    by blast
  then have "vn_resender v1 = None" using Cons.prems by (simp add: same_core_def)
  from Cons.IH [OF this] obtain v2 out where v2: "rfold f rs v1 = Inr v2" "same_core v1 v2" "vn_out v2 = vn_out v1 @ out"
    "sends m (filter (P v1) rs) out" by blast
  have p: "filter (P v1) rs = filter (P v) rs" by (intro filter_cong) (simp_all add: keep [OF v1(2)])
  show ?case
  proof (cases "P v r")
    case True
    with v1(3) obtain ts where o: "vn_out v1 = vn_out v @ [\<lparr>mg_meta = (m r)\<lparr>me_recver := r, me_timestamp := ts\<rparr>, mg_data = []\<rparr>]" by auto
    have "sends m (filter (P v) (r # rs)) (\<lparr>mg_meta = (m r)\<lparr>me_recver := r, me_timestamp := ts\<rparr>, mg_data = []\<rparr> # out)"
      using v2(4) True by (auto simp: sends_def p)
    with v1(1,2) v2 o same_core_trans [OF v1(2) v2(2)] show ?thesis by simp
  next
    case False
    with v1 v2 p same_core_trans [OF v1(2) v2(2)] show ?thesis by simp
  qed
qed

section \<open>Barriers at the scheduler\<close>

lemma barrier_release_ok:
  assumes "vn_resender v = None" and "\<forall>m. wd_SendMsg wd m > 0"
  shows "\<exists>v' out. rfold (barrier_release_one wd res) is v = Inr v' \<and> same_core v v' \<and> vn_out v' = vn_out v @ out
    \<and> sends (\<lambda>_. res) (filter (\<lambda>r. vn_shared v r = None) is) out"
proof (rule send_loop [where P = "\<lambda>v r. vn_shared v r = None", OF assms(1)])
  fix r :: int and v :: van assume v: "vn_resender v = None"
  from send_stamped_ok [OF v assms(2), of res r] obtain n v1 ts where
    "send_stamped wd res r v = Inr (n, v1)" "n > 0" "same_core v v1" "vn_out v1 = vn_out v @ [\<lparr>mg_meta = res\<lparr>me_recver := r, me_timestamp := ts\<rparr>, mg_data = []\<rparr>]" by blast
  then show "\<exists>v'. barrier_release_one wd res r v = Inr v' \<and> same_core v v' \<and> (if vn_shared v r = None
      then \<exists>ts. vn_out v' = vn_out v @ [\<lparr>mg_meta = res\<lparr>me_recver := r, me_timestamp := ts\<rparr>, mg_data = []\<rparr>] else vn_out v' = vn_out v)"
    by (cases "vn_shared v r = None") (auto simp: barrier_release_one_def check_def same_core_def)
qed (simp add: same_core_def)

text \<open>The requests of a group that have arrived since the last release.\<close>

definition waiting :: "van \<Rightarrow> int \<Rightarrow> int" where
  "waiting v g = (if vn_barrier_count v = [] then 0 else vn_barrier_count v ! nat g)"

definition barrier_van :: "int \<Rightarrow> int list \<Rightarrow> van \<Rightarrow> bool" where
  "barrier_van g is v \<longleftrightarrow> vn_resender v = None \<and> (vn_barrier_count v = [] \<or> length (vn_barrier_count v) = 8)
     \<and> 0 \<le> waiting v g \<and> waiting v g < int (length is)"

definition barrier_req :: "int \<Rightarrow> meta \<Rightarrow> bool" where
  "barrier_req g m \<longleftrightarrow> me_request m \<and> ct_barrier_group (me_control m) = g"

lemma barrier_one:
  assumes "barrier_van g is v" and "barrier_req g m" and "0 \<le> g" "g < 8" and "GetNodeIDs po g = Inr is" and "\<forall>m. wd_SendMsg wd m > 0"
  shows "\<exists>v' out. ProcessBarrierCommand wd m (v, po) = Inr (v', po) \<and> barrier_van g is v' \<and> vn_shared v' = vn_shared v
    \<and> vn_out v' = vn_out v @ out \<and> waiting v' g = (waiting v g + 1) mod int (length is)
    \<and> map (me_recver \<circ> mg_meta) out = (if waiting v g + 1 = int (length is) then filter (\<lambda>r. vn_shared v r = None) is else [])"
proof -
  let ?bc = "if vn_barrier_count v = [] then replicate 8 0 else vn_barrier_count v"
  have bc: "length ?bc = 8" "?bc ! nat g = waiting v g" using assms(1,3,4) by (auto simp: barrier_van_def waiting_def)
  let ?v1 = "v\<lparr>vn_barrier_count := ?bc[nat g := waiting v g + 1]\<rparr>"
  have g: "\<not> (g < 0 \<or> int (length ?bc) \<le> g)" using assms(3,4) bc(1) by simp
  have w: "waiting (v\<lparr>vn_barrier_count := ?bc[nat g := x]\<rparr>) g = x" for x
    using bc(1) assms(3,4) by (simp add: waiting_def)
  show ?thesis
  proof (cases "waiting v g + 1 = int (length is)")
    case False
    then have "ProcessBarrierCommand wd m (v, po) = Inr (?v1, po)"
      using assms(2,5) g bc(2) by (simp add: ProcessBarrierCommand_def barrier_req_def Let_def)
    moreover have "barrier_van g is ?v1" using assms(1) False bc(1) w by (auto simp: barrier_van_def)
    moreover have "(waiting v g + 1) mod int (length is) = waiting v g + 1" using assms(1) False by (simp add: barrier_van_def)
    ultimately show ?thesis using w False by auto
  next
    case True
    let ?v2 = "v\<lparr>vn_barrier_count := ?bc[nat g := 0]\<rparr>"
    let ?res = "Meta\<lparr>me_request := False, me_app_id := me_app_id m, me_customer_id := me_customer_id m, me_control := Control\<lparr>ct_cmd := BARRIER\<rparr>\<rparr>"
    have "vn_resender ?v2 = None" using assms(1) by (simp add: barrier_van_def)
    from barrier_release_ok [OF this assms(6), of ?res "is"] obtain v3 out where
      v3: "rfold (barrier_release_one wd ?res) is ?v2 = Inr v3" "same_core ?v2 v3" "vn_out v3 = vn_out v @ out"
      "sends (\<lambda>_. ?res) (filter (\<lambda>r. vn_shared v r = None) is) out" by auto
    have "ProcessBarrierCommand wd m (v, po) = Inr (v3, po)"
      using assms(2,5) g bc(2) True v3(1) by (simp add: ProcessBarrierCommand_def barrier_req_def Let_def)
    moreover have c3: "vn_barrier_count v3 = ?bc[nat g := 0]" using v3(2) by (simp add: same_core_def)
    moreover have w3: "waiting v3 g = 0" 
    proof -
      have "nat g < length ?bc" "?bc[nat g := 0] \<noteq> []" using bc(1) assms(3,4) by auto
      then show ?thesis unfolding waiting_def c3 by (simp only: nth_list_update_eq if_False)
    qed
    moreover have "barrier_van g is v3"
      using assms(1) v3(2) bc(1) w3 unfolding barrier_van_def c3 by (auto simp: same_core_def)
    moreover have "map (me_recver \<circ> mg_meta) out = filter (\<lambda>r. vn_shared v r = None) is"
      using v3(4) unfolding sends_def by (induction rule: list_all2_induct) auto
    ultimately show ?thesis using v3(2,3) True by (auto simp: same_core_def)
  qed
qed

lemma barrier_rounds_lemma:
  assumes "barrier_van g is v" and "list_all (barrier_req g) ms" and "0 \<le> g" "g < 8" and "GetNodeIDs po g = Inr is"
    and "\<forall>m. wd_SendMsg wd m > 0"
  shows "\<exists>v' out. rfold (ProcessBarrierCommand wd) ms (v, po) = Inr (v', po) \<and> vn_out v' = vn_out v @ out
    \<and> waiting v' g = (waiting v g + int (length ms)) mod int (length is)
    \<and> map (me_recver \<circ> mg_meta) out = concat (replicate (nat ((waiting v g + int (length ms)) div int (length is)))
        (filter (\<lambda>r. vn_shared v r = None) is))"
  using assms(1,2)
proof (induction ms arbitrary: v)
  case Nil
  then show ?case by (simp add: barrier_van_def)
next
  case (Cons m ms)
  let ?n = "int (length is)" and ?w = "waiting v g" and ?k = "int (length ms)"
  let ?F = "filter (\<lambda>r. vn_shared v r = None) is"
  from Cons.prems barrier_one [OF Cons.prems(1) _ assms(3-6), of m] obtain v1 o1 where
    v1: "ProcessBarrierCommand wd m (v, po) = Inr (v1, po)" "barrier_van g is v1" "vn_shared v1 = vn_shared v"
    "vn_out v1 = vn_out v @ o1" "waiting v1 g = (?w + 1) mod ?n" "map (me_recver \<circ> mg_meta) o1 = (if ?w + 1 = ?n then ?F else [])"
    by auto
  have "list_all (barrier_req g) ms" using Cons.prems(2) by simp
  from Cons.IH [OF v1(2) this] obtain v2 o2 where
    v2: "rfold (ProcessBarrierCommand wd) ms (v1, po) = Inr (v2, po)" "vn_out v2 = vn_out v1 @ o2"
    "waiting v2 g = (waiting v1 g + ?k) mod ?n"
    "map (me_recver \<circ> mg_meta) o2 = concat (replicate (nat ((waiting v1 g + ?k) div ?n)) ?F)"
    unfolding v1(3) by blast
  have b: "0 \<le> ?w" "?w < ?n" using Cons.prems(1) by (simp_all add: barrier_van_def)
  have "waiting v2 g = (?w + int (length (m # ms))) mod ?n" using v2(3) v1(5) by (simp add: mod_simps algebra_simps)
  moreover have "map (me_recver \<circ> mg_meta) (o1 @ o2) = concat (replicate (nat ((?w + int (length (m # ms))) div ?n)) ?F)"
  proof (cases "?w + 1 = ?n")
    case True
    then have e: "?w + int (length (m # ms)) = ?n + ?k" by simp
    have "0 \<le> ?k div ?n" by (simp flip: zdiv_int)
    moreover have "?n \<noteq> 0" using b by linarith
    then have "(?n + ?k) div ?n = ?k div ?n + 1" by (rule div_add_self1)
    ultimately have "nat ((?n + ?k) div ?n) = Suc (nat (?k div ?n))" by (simp add: nat_add_distrib)
    with True v1(5,6) v2(4) show ?thesis unfolding e by simp
  next
    case False
    with b have "waiting v1 g = ?w + 1" using v1(5) by simp
    with False v1(6) v2(4) show ?thesis by (simp add: algebra_simps)
  qed
  ultimately show ?case using v1(1,4) v2(1,2) by (auto simp: comp_def)
qed

section \<open>Assigning the ranks\<close>

text \<open>The ids given out so far.\<close>

definition allotted :: "van \<Rightarrow> int set" where
  "allotted v = ServerRankToID ` {0..<vn_num_servers v} \<union> WorkerRankToID ` {0..<vn_num_workers v}"

definition rank_inv :: "van \<Rightarrow> bool" where
  "rank_inv v \<longleftrightarrow> 0 \<le> vn_num_servers v \<and> 0 \<le> vn_num_workers v \<and> ran (vn_connected v) \<union> dom (vn_shared v) = allotted v
     \<and> ran (vn_connected v) \<inter> dom (vn_shared v) = {} \<and> inj_on (vn_connected v) (dom (vn_connected v))"

lemma rank_fresh: "nd_role n \<noteq> SCHEDULER \<Longrightarrow> rank_id n v \<notin> allotted v"
  by (cases "nd_role n") (auto simp: rank_id_def allotted_def ServerRankToID_def WorkerRankToID_def, presburger+)

lemma count_role_simps [simp]:
  "vn_connected (count_role n v) = vn_connected v" "vn_shared (count_role n v) = vn_shared v" "vn_resender (count_role n v) = vn_resender v"
  "vn_my_node (count_role n v) = vn_my_node v" "vn_out (count_role n v) = vn_out v" "vn_conns (count_role n v) = vn_conns v"
  by (simp_all add: count_role_def split: role.splits)

lemma count_role_allotted:
  assumes "nd_role n \<noteq> SCHEDULER" and "0 \<le> vn_num_servers v" "vn_num_servers v < 2 ^ 31 - 1" "0 \<le> vn_num_workers v" "vn_num_workers v < 2 ^ 31 - 1"
  shows "allotted (count_role n v) = insert (rank_id n v) (allotted v)"
    and "vn_num_servers (count_role n v) = (if nd_role n = SERVER then vn_num_servers v + 1 else vn_num_servers v)"
    and "vn_num_workers (count_role n v) = (if nd_role n = WORKER then vn_num_workers v + 1 else vn_num_workers v)"
proof -
  have i: "i32 (vn_num_servers v + 1) = vn_num_servers v + 1" "i32 (vn_num_workers v + 1) = vn_num_workers v + 1"
    using assms by (simp_all add: i32_def)
  have a: "{0..<x + 1} = insert x {0..<x}" if "0 \<le> x" for x :: int using that by auto
  show "allotted (count_role n v) = insert (rank_id n v) (allotted v)"
    using assms a by (cases "nd_role n") (auto simp: count_role_def allotted_def rank_id_def i)
  show "vn_num_servers (count_role n v) = (if nd_role n = SERVER then vn_num_servers v + 1 else vn_num_servers v)"
    "vn_num_workers (count_role n v) = (if nd_role n = WORKER then vn_num_workers v + 1 else vn_num_workers v)"
    by (simp_all add: count_role_def i split: role.splits)
qed

definition of_role :: "role \<Rightarrow> node list \<Rightarrow> int" where
  "of_role r ns = int (length (filter (\<lambda>n. nd_role n = r) ns))"

lemma of_role_simps [simp]: "of_role r [] = 0" "of_role r (n # ns) = (if nd_role n = r then 1 else 0) + of_role r ns"
  by (simp_all add: of_role_def)

lemma of_role_nonneg: "0 \<le> of_role r ns" by (simp add: of_role_def)

lemma allotted_cong:
  "vn_num_servers v = vn_num_servers w \<Longrightarrow> vn_num_workers v = vn_num_workers w \<Longrightarrow> allotted v = allotted w"
  by (simp add: allotted_def)

lemma assign_rank_ok:
  assumes inv: "rank_inv v" and role: "nd_role n \<noteq> SCHEDULER" and empty: "nd_id n = kEmpty"
    and bound: "vn_num_servers v < 2 ^ 31 - 1" "vn_num_workers v < 2 ^ 31 - 1"
  shows "\<exists>i v' po'. assign_rank t n (v, po) = Inr (n\<lparr>nd_id := i\<rparr>, v', po') \<and> rank_inv v'
    \<and> vn_connected v' (address n) = Some i \<and> vn_connected v \<subseteq>\<^sub>m vn_connected v'
    \<and> (vn_resender v', vn_my_node v', vn_out v') = (vn_resender v, vn_my_node v, vn_out v) \<and> po_node_ids po' = po_node_ids po
    \<and> vn_num_servers v' = vn_num_servers v + of_role SERVER [n] \<and> vn_num_workers v' = vn_num_workers v + of_role WORKER [n]
    \<and> dom (vn_connected v') = insert (address n) (dom (vn_connected v))"
proof -
  let ?i = "rank_id n v"
  have nn: "0 \<le> vn_num_servers v" "0 \<le> vn_num_workers v" using inv by (simp_all add: rank_inv_def)
  have fresh: "?i \<notin> ran (vn_connected v)" "?i \<notin> dom (vn_shared v)" using rank_fresh [OF role, of v] inv by (auto simp: rank_inv_def)
  show ?thesis
  proof (cases "vn_connected v (address n)")
    case None
    let ?u = "(vn_Connect (n\<lparr>nd_id := ?i\<rparr>) v)\<lparr>vn_connected := (vn_connected v)(address n \<mapsto> ?i)\<rparr>"
    have a: "allotted ?u = allotted v" "rank_id n ?u = ?i" by (simp_all add: allotted_def rank_id_def vn_Connect_def)
    note c = count_role_allotted [OF role, of ?u, unfolded a]
    have c': "allotted (count_role n ?u) = insert ?i (allotted v)" "0 \<le> vn_num_servers (count_role n ?u)" "0 \<le> vn_num_workers (count_role n ?u)"
      using c nn bound by (simp_all add: vn_Connect_def)
    have "ran ((vn_connected v)(address n \<mapsto> ?i)) = insert ?i (ran (vn_connected v))" using None by simp
    moreover have "inj_on ((vn_connected v)(address n \<mapsto> ?i)) (insert (address n) (dom (vn_connected v)))"
      using inv None fresh(1) by (auto simp: rank_inv_def inj_on_def ran_def dom_def)
    ultimately have "rank_inv (count_role n ?u)"
      using inv fresh c' unfolding rank_inv_def by (auto simp: vn_Connect_def)
    then show ?thesis
      using None empty c nn bound by (auto simp: assign_rank_def Let_def check_def vn_Connect_def UpdateHeartbeat_def map_le_def)
  next
    case (Some j)
    let ?u = "v\<lparr>vn_shared := (vn_shared v)(?i \<mapsto> j)\<rparr>"
    have a: "allotted ?u = allotted v" "rank_id n ?u = ?i" by (simp_all add: allotted_def rank_id_def)
    note c = count_role_allotted [OF role, of ?u, unfolded a]
    have "rank_inv (count_role n ?u)" using inv fresh c nn bound unfolding rank_inv_def by auto
    then show ?thesis using Some c nn bound by (auto simp: assign_rank_def Let_def insert_absorb domI)
  qed
qed

lemma assign_ranks_ok:
  assumes "rank_inv v" and "\<forall>n \<in> set ns. nd_role n \<noteq> SCHEDULER \<and> nd_id n = kEmpty"
    and "vn_num_servers v + of_role SERVER ns < 2 ^ 31 - 1" "vn_num_workers v + of_role WORKER ns < 2 ^ 31 - 1"
  shows "\<exists>ids v' po'. assign_ranks t ns (v, po) = Inr (map2 (\<lambda>n i. n\<lparr>nd_id := i\<rparr>) ns ids, v', po') \<and> length ids = length ns
    \<and> rank_inv v' \<and> vn_connected v \<subseteq>\<^sub>m vn_connected v' \<and> list_all2 (\<lambda>n i. vn_connected v' (address n) = Some i) ns ids
    \<and> (vn_resender v', vn_my_node v', vn_out v') = (vn_resender v, vn_my_node v, vn_out v) \<and> po_node_ids po' = po_node_ids po
    \<and> vn_num_servers v' = vn_num_servers v + of_role SERVER ns \<and> vn_num_workers v' = vn_num_workers v + of_role WORKER ns
    \<and> dom (vn_connected v') = address ` set ns \<union> dom (vn_connected v)"
  using assms
proof (induction ns arbitrary: v po)
  case Nil
  then show ?case by simp
next
  case (Cons n ns)
  have nn: "0 \<le> of_role SERVER ns" "0 \<le> of_role WORKER ns" by (simp_all add: of_role_nonneg)
  have role: "nd_role n \<noteq> SCHEDULER" "nd_id n = kEmpty" using Cons.prems(2) by auto
  have "\<exists>i v1 po1. assign_rank t n (v, po) = Inr (n\<lparr>nd_id := i\<rparr>, v1, po1) \<and> rank_inv v1
    \<and> vn_connected v1 (address n) = Some i \<and> vn_connected v \<subseteq>\<^sub>m vn_connected v1
    \<and> (vn_resender v1, vn_my_node v1, vn_out v1) = (vn_resender v, vn_my_node v, vn_out v) \<and> po_node_ids po1 = po_node_ids po
    \<and> vn_num_servers v1 = vn_num_servers v + of_role SERVER [n] \<and> vn_num_workers v1 = vn_num_workers v + of_role WORKER [n]
    \<and> dom (vn_connected v1) = insert (address n) (dom (vn_connected v))"
    using Cons.prems(3,4) nn by (intro assign_rank_ok [OF Cons.prems(1) role]) (auto split: if_splits)
  then obtain i v1 po1 where a: "assign_rank t n (v, po) = Inr (n\<lparr>nd_id := i\<rparr>, v1, po1)" "rank_inv v1"
    "vn_connected v1 (address n) = Some i" "vn_connected v \<subseteq>\<^sub>m vn_connected v1"
    "(vn_resender v1, vn_my_node v1, vn_out v1) = (vn_resender v, vn_my_node v, vn_out v)" "po_node_ids po1 = po_node_ids po"
    "vn_num_servers v1 = vn_num_servers v + of_role SERVER [n]" "vn_num_workers v1 = vn_num_workers v + of_role WORKER [n]"
    "dom (vn_connected v1) = insert (address n) (dom (vn_connected v))" by blast
  have "vn_num_servers v1 + of_role SERVER ns < 2 ^ 31 - 1" "vn_num_workers v1 + of_role WORKER ns < 2 ^ 31 - 1"
    "\<forall>n \<in> set ns. nd_role n \<noteq> SCHEDULER \<and> nd_id n = kEmpty"
    using Cons.prems(2-4) a(7,8) by simp_all
  from Cons.IH [OF a(2) this(3,1,2)] obtain ids v2 po2 where
    r: "assign_ranks t ns (v1, po1) = Inr (map2 (\<lambda>n i. n\<lparr>nd_id := i\<rparr>) ns ids, v2, po2)" "length ids = length ns" "rank_inv v2"
    "vn_connected v1 \<subseteq>\<^sub>m vn_connected v2" "list_all2 (\<lambda>n i. vn_connected v2 (address n) = Some i) ns ids"
    "(vn_resender v2, vn_my_node v2, vn_out v2) = (vn_resender v1, vn_my_node v1, vn_out v1)" "po_node_ids po2 = po_node_ids po1"
    "vn_num_servers v2 = vn_num_servers v1 + of_role SERVER ns" "vn_num_workers v2 = vn_num_workers v1 + of_role WORKER ns"
    "dom (vn_connected v2) = address ` set ns \<union> dom (vn_connected v1)" by blast
  have i: "vn_connected v2 (address n) = Some i" using a(3) r(4) by (auto simp: map_le_def dom_def)
  have "vn_connected v \<subseteq>\<^sub>m vn_connected v2" using a(4) r(4) by (rule map_le_trans)
  with i a r show ?case by (intro exI [of _ "i # ids"] exI [of _ v2] exI [of _ po2]) auto
qed

text \<open>A van that has not seen a registration, and the nodes that have registered, as many of each role as the
  post office expects.\<close>

definition fresh_van :: "van \<Rightarrow> bool" where
  "fresh_van v \<longleftrightarrow> vn_connected v = Map.empty \<and> vn_shared v = Map.empty \<and> vn_num_servers v = 0 \<and> vn_num_workers v = 0
     \<and> vn_resender v = None"

definition all_registered :: "node list \<Rightarrow> postoffice \<Rightarrow> bool" where
  "all_registered ns po \<longleftrightarrow> (\<forall>n \<in> set ns. nd_role n \<noteq> SCHEDULER \<and> nd_id n = kEmpty)
     \<and> of_role SERVER ns = po_num_servers po \<and> of_role WORKER ns = po_num_workers po
     \<and> po_num_servers po + po_num_workers po < 2 ^ 31 - 1
     \<and> GetNodeIDs po 6 = Inr (group_members (po_num_workers po) (po_num_servers po) 6)"

lemma length_roles: "\<forall>n \<in> set ns. nd_role n \<noteq> SCHEDULER \<Longrightarrow> int (length ns) = of_role SERVER ns + of_role WORKER ns"
proof (induction ns)
  case (Cons n ns)
  then show ?case by (cases "nd_role n") auto
qed simp

lemma of_role_sort [simp]: "of_role r (sort_by lt ns) = of_role r ns"
proof -
  have "mset (filter (\<lambda>n. nd_role n = r) (sort_by lt ns)) = mset (filter (\<lambda>n. nd_role n = r) ns)"
    by (simp add: mset_sort_by)
  then show ?thesis unfolding of_role_def by (metis size_mset)
qed

lemma num_nodes_registered:
  assumes "all_registered ns po"
  shows "length ns = num_nodes po"
proof -
  have "int (length ns) = po_num_servers po + po_num_workers po" "po_num_servers po + po_num_workers po < 2 ^ 31 - 1"
    using assms length_roles [of ns] by (auto simp: all_registered_def)
  then show ?thesis by (simp add: num_nodes_def i32_def u64_of_int_def nat_eq_iff)
qed

lemma rank_inv_fresh: "fresh_van v \<Longrightarrow> rank_inv v"
  by (simp add: fresh_van_def rank_inv_def allotted_def)

lemma allotted_members: "allotted v = set (group_members (vn_num_workers v) (vn_num_servers v) 6)"
  by (auto simp: allotted_def group_members_def image_iff)

lemma sends_recver: "sends m rs out \<Longrightarrow> map (me_recver \<circ> mg_meta) out = rs"
  unfolding sends_def by (induction rule: list_all2_induct) auto

lemma sends_control: "sends (\<lambda>_. m) rs out \<Longrightarrow> \<forall>x \<in> set out. me_control (mg_meta x) = me_control m"
  unfolding sends_def by (induction rule: list_all2_induct) auto

text \<open>The node table with its ids: two entries have the same id just when they have the same address.\<close>

lemma assigned_ids:
  assumes "rank_inv v" and "list_all2 (\<lambda>n i. vn_connected v (address n) = Some i) ns ids"
    and "dom (vn_connected v) = address ` set ns"
  defines "ns' \<equiv> map2 (\<lambda>n i. n\<lparr>nd_id := i\<rparr>) ns ids"
  shows "\<forall>a \<in> set ns'. \<forall>b \<in> set ns'. nd_id a = nd_id b \<longleftrightarrow> address a = address b"
    and "nd_id ` set ns' = ran (vn_connected v)" and "map address ns' = map address ns"
    and "map (\<lambda>n. n\<lparr>nd_id := kEmpty\<rparr>) ns' = map (\<lambda>n. n\<lparr>nd_id := kEmpty\<rparr>) ns"
proof -
  have at: "vn_connected v (address a) = Some (nd_id a)" if "a \<in> set ns'" for a
    using that assms(2) by (auto simp: ns'_def list_all2_iff address_def split_beta)
  have len: "length ids = length ns" using assms(2) by (simp add: list_all2_lengthD)
  show "\<forall>a \<in> set ns'. \<forall>b \<in> set ns'. nd_id a = nd_id b \<longleftrightarrow> address a = address b"
  proof (intro ballI)
    fix a b assume "a \<in> set ns'" "b \<in> set ns'"
    then have c: "vn_connected v (address a) = Some (nd_id a)" "vn_connected v (address b) = Some (nd_id b)" using at by auto
    moreover have "inj_on (vn_connected v) (dom (vn_connected v))" using assms(1) by (simp add: rank_inv_def)
    ultimately show "nd_id a = nd_id b \<longleftrightarrow> address a = address b" by (metis domI inj_onD option.inject)
  qed
  show addr: "map address ns' = map address ns"
    using len by (intro nth_equalityI) (simp_all add: ns'_def address_def)
  show "map (\<lambda>n. n\<lparr>nd_id := kEmpty\<rparr>) ns' = map (\<lambda>n. n\<lparr>nd_id := kEmpty\<rparr>) ns"
    using len by (intro nth_equalityI) (simp_all add: ns'_def)
  have "address ` set ns' = dom (vn_connected v)" using arg_cong [OF addr, of set] assms(3) by simp
  moreover have "ran (vn_connected v) = (\<lambda>x. the (vn_connected v x)) ` dom (vn_connected v)"
    unfolding ran_def dom_def image_def by force
  ultimately have "ran (vn_connected v) = (\<lambda>a. the (vn_connected v (address a))) ` set ns'" by (metis image_image)
  then show "nd_id ` set ns' = ran (vn_connected v)" using at by simp
qed

text \<open>The loop that tells the nodes.\<close>

lemma tell_nodes:
  assumes "vn_resender v = None" and "\<forall>m. wd_SendMsg wd m > 0"
  shows "\<exists>v' out. rfold (\<lambda>r v. if vn_shared v r = None then rbind (send_stamped wd m r v) (\<lambda>(_, v'). Inr v') else Inr v) is v = Inr v'
    \<and> same_core v v' \<and> vn_out v' = vn_out v @ out \<and> sends (\<lambda>_. m) (filter (\<lambda>r. vn_shared v r = None) is) out"
proof (rule send_loop [where P = "\<lambda>v r. vn_shared v r = None", OF assms(1)])
  fix r :: int and v :: van assume v: "vn_resender v = None"
  from send_stamped_ok [OF v assms(2), of m r] show "\<exists>v'. (if vn_shared v r = None then rbind (send_stamped wd m r v) (\<lambda>(_, v'). Inr v') else Inr v) = Inr v'
      \<and> same_core v v' \<and> (if vn_shared v r = None
      then \<exists>ts. vn_out v' = vn_out v @ [\<lparr>mg_meta = m\<lparr>me_recver := r, me_timestamp := ts\<rparr>, mg_data = []\<rparr>] else vn_out v' = vn_out v)"
    by (cases "vn_shared v r = None") (auto simp: same_core_def)
qed (simp add: same_core_def)

lemma members_distinct: "distinct (group_members nw ns 6)"
  by (auto simp: group_members_def distinct_map inj_on_def WorkerRankToID_def ServerRankToID_def, presburger+)

lemma length_registered:
  assumes "all_registered ns po"
  shows "length ns = length (group_members (po_num_workers po) (po_num_servers po) 6)"
proof -
  have "int (length ns) = po_num_servers po + po_num_workers po" "0 \<le> po_num_servers po" "0 \<le> po_num_workers po"
    using assms length_roles [of ns] of_role_nonneg [of SERVER ns] of_role_nonneg [of WORKER ns] by (auto simp: all_registered_def)
  then show ?thesis by (simp add: group_members_def)
qed

lemma distinct_ids_cover:
  assumes "distinct (map address ns)" and "\<forall>a \<in> set ns. \<forall>b \<in> set ns. nd_id a = nd_id b \<longleftrightarrow> address a = address b"
    and "length ns = length is" and "nd_id ` set ns \<subseteq> set is" and "distinct is"
  shows "set is \<subseteq> nd_id ` set ns"
proof -
  have "inj_on nd_id (set ns)" using assms(1,2) by (auto simp: distinct_map inj_on_def)
  then have "card (nd_id ` set ns) = card (set is)"
    using assms(1,3,5) by (simp add: card_image distinct_card distinct_map)
  with assms(4) show ?thesis using card_subset_eq by blast
qed

lemma node_less_ids: "sorted_wrt (\<lambda>a b. \<not> node_less b a) (map (\<lambda>n. n\<lparr>nd_id := i\<rparr>) ns) \<longleftrightarrow> sorted_wrt (\<lambda>a b. \<not> node_less b a) ns"
  by (simp add: sorted_wrt_map node_less_def)

text \<open>C9: Registration. When as many servers and workers have registered as are expected, the scheduler gives
  them ids and tells them. The table it sends holds the registered nodes, in the order of the comparison, each with an id of the
  group of all servers and workers, and itself. Two nodes have the same id just when they have the
  same address. Each id that was given out is sent the table once, and no other; with
  different addresses this is the whole group. The van is then ready.\<close>

theorem registration:
  assumes "fresh_van v" and "all_registered ns po" and "ns = ct_node (me_control nodes)" and "\<forall>m. wd_SendMsg wd m > 0"
    and "members = group_members (po_num_workers po) (po_num_servers po) 6"
  shows "\<exists>ns' nodes' recovery' v' po' out. ProcessAddNodeCommandAtScheduler wd (nodes, recovery, v, po) = Inr (nodes', recovery', v', po')
    \<and> vn_ready v' \<and> vn_out v' = vn_out v @ out
    \<and> mset (map (\<lambda>n. n\<lparr>nd_id := kEmpty\<rparr>) ns') = mset (map (\<lambda>n. n\<lparr>nd_id := kEmpty\<rparr>) ns)
    \<and> sorted_wrt (\<lambda>a b. \<not> node_less b a) ns' \<and> nd_id ` set ns' \<subseteq> set members
    \<and> (\<forall>a \<in> set ns'. \<forall>b \<in> set ns'. nd_id a = nd_id b \<longleftrightarrow> address a = address b)
    \<and> map (me_recver \<circ> mg_meta) out = filter (\<lambda>r. r \<in> nd_id ` set ns') members
    \<and> (\<forall>m \<in> set out. ct_node (me_control (mg_meta m)) = ns' @ [vn_my_node v])
    \<and> (distinct (map address ns) \<longrightarrow> map (me_recver \<circ> mg_meta) out = members)"
proof -
  let ?s = "sort_by node_less ns"
  have nn: "0 \<le> of_role SERVER ns" "0 \<le> of_role WORKER ns" by (simp_all add: of_role_nonneg)
  have pre: "\<forall>n \<in> set ?s. nd_role n \<noteq> SCHEDULER \<and> nd_id n = kEmpty" "vn_num_servers v + of_role SERVER ?s < 2 ^ 31 - 1"
    "vn_num_workers v + of_role WORKER ?s < 2 ^ 31 - 1"
    using assms(1,2) nn by (auto simp: all_registered_def fresh_van_def)
  from assign_ranks_ok [OF rank_inv_fresh [OF assms(1)] pre, of "wd_time wd" po] obtain ids v1 po1 where
    a: "assign_ranks (wd_time wd) ?s (v, po) = Inr (map2 (\<lambda>n i. n\<lparr>nd_id := i\<rparr>) ?s ids, v1, po1)" "rank_inv v1"
    "list_all2 (\<lambda>n i. vn_connected v1 (address n) = Some i) ?s ids"
    "(vn_resender v1, vn_my_node v1, vn_out v1) = (vn_resender v, vn_my_node v, vn_out v)" "po_node_ids po1 = po_node_ids po"
    "vn_num_servers v1 = vn_num_servers v + of_role SERVER ?s" "vn_num_workers v1 = vn_num_workers v + of_role WORKER ?s"
    "dom (vn_connected v1) = address ` set ?s \<union> dom (vn_connected v)" by blast
  define ns' where "ns' = map2 (\<lambda>n i. n\<lparr>nd_id := i\<rparr>) ?s ids"
  have dom: "dom (vn_connected v1) = address ` set ?s" using a(8) assms(1) by (simp add: fresh_van_def)
  note t = assigned_ids [OF a(2,3) dom, folded ns'_def]
  let ?nodes = "nodes\<lparr>me_control := (me_control nodes)\<lparr>ct_node := ns' @ [vn_my_node v], ct_cmd := ADD_NODE\<rparr>\<rparr>"
  have m: "set members = ran (vn_connected v1) \<union> dom (vn_shared v1)" and dj: "ran (vn_connected v1) \<inter> dom (vn_shared v1) = {}"
    using a(2,6,7) assms(1,2,5) by (auto simp: rank_inv_def allotted_members fresh_van_def all_registered_def)
  have ids: "GetNodeIDs po1 6 = Inr members" using a(5) assms(2,5) by (simp add: all_registered_def GetNodeIDs_def)
  have "vn_resender v1 = None" using a(4) assms(1) by (simp add: fresh_van_def)
  from tell_nodes [OF this assms(4), of ?nodes members] obtain v2 out where
    o: "rfold (\<lambda>r v. if vn_shared v r = None then rbind (send_stamped wd ?nodes r v) (\<lambda>(_, v'). Inr v') else Inr v) members v1 = Inr v2"
    "same_core v1 v2" "vn_out v2 = vn_out v1 @ out" "sends (\<lambda>_. ?nodes) (filter (\<lambda>r. vn_shared v1 r = None) members) out" by blast
  have run: "\<exists>recovery'. ProcessAddNodeCommandAtScheduler wd (nodes, recovery, v, po) = Inr (?nodes, recovery', v2\<lparr>vn_ready := True\<rparr>, po1)"
    using num_nodes_registered [OF assms(2)] a(1,4) ids o(1)
    by (simp add: ProcessAddNodeCommandAtScheduler_def Let_def assms(3) [symmetric] ns'_def [symmetric] kWorkerGroup_def kServerGroup_def
        cong del: if_weak_cong)
  have fil: "filter (\<lambda>r. vn_shared v1 r = None) members = filter (\<lambda>r. r \<in> nd_id ` set ns') members"
    using m dj unfolding t(2) by (intro filter_cong) (auto simp: dom_def)
  have rc: "map (me_recver \<circ> mg_meta) out = filter (\<lambda>r. r \<in> nd_id ` set ns') members" using sends_recver [OF o(4)] unfolding fil .
  have all: "map (me_recver \<circ> mg_meta) out = members" if "distinct (map address ns)"
  proof -
    have "distinct (map address ns')" unfolding t(3) using that by (metis mset_sort_by mset_map mset_eq_imp_distinct_iff)
    moreover have "length ns' = length members" using length_registered [OF assms(2), folded assms(5)] arg_cong [OF t(3), of length] by simp
    ultimately have "set members \<subseteq> nd_id ` set ns'"
      using distinct_ids_cover [OF _ t(1) _ _ members_distinct [of "po_num_workers po" "po_num_servers po", folded assms(5)]] m t(2) by auto
    then show ?thesis unfolding rc by (auto simp: filter_id_conv)
  qed
  have ms: "mset (map (\<lambda>n. n\<lparr>nd_id := kEmpty\<rparr>) ns') = mset (map (\<lambda>n. n\<lparr>nd_id := kEmpty\<rparr>) ns)"
    unfolding t(4) by (simp add: mset_sort_by)
  have "sorted_wrt (\<lambda>a b. \<not> node_less b a) ns'"
    using node_order.sorted_sort_by [of ns] t(4) node_less_ids [of kEmpty ns'] node_less_ids [of kEmpty ?s] by simp
  moreover have "\<forall>x \<in> set out. ct_node (me_control (mg_meta x)) = ns' @ [vn_my_node v]" using sends_control [OF o(4)] by simp
  moreover have "vn_out (v2\<lparr>vn_ready := True\<rparr>) = vn_out v @ out" using o(3) a(4) by simp
  moreover have "nd_id ` set ns' \<subseteq> set members" unfolding t(2) m by (rule Un_upper1)
  moreover have "vn_ready (v2\<lparr>vn_ready := True\<rparr>)" by simp
  ultimately show ?thesis using run ms t(1) rc all by (elim exE) (intro exI conjI impI; assumption | simp only:)
qed

text \<open>C18: The scheduler releases a barrier exactly when all members have asked. Of any sequence of requests for a
  group, every \<open>n\<close>-th, where \<open>n\<close> is the size of the group, answers each member that has an id of its own, in the order of the group,
  the requests in between send nothing, and what is left over is counted towards the next
  round.\<close>

theorem barrier_rounds:
  assumes "0 \<le> g" "g < 8" and "GetNodeIDs po g = Inr is" and "is \<noteq> []" and "list_all (barrier_req g) ms"
    and "vn_barrier_count v = []" and "vn_resender v = None" and "\<forall>m. wd_SendMsg wd m > 0"
  shows "\<exists>v' out. rfold (ProcessBarrierCommand wd) ms (v, po) = Inr (v', po) \<and> vn_out v' = vn_out v @ out
    \<and> waiting v' g = int (length ms mod length is)
    \<and> map (me_recver \<circ> mg_meta) out = concat (replicate (length ms div length is) (filter (\<lambda>r. vn_shared v r = None) is))"
proof -
  have w: "waiting v g = 0" "barrier_van g is v" using assms(4,6,7) by (simp_all add: barrier_van_def waiting_def)
  from barrier_rounds_lemma [OF w(2) assms(5,1,2,3,8)] show ?thesis
    by (simp add: w(1) zmod_int flip: zdiv_int)
qed

section \<open>Recovery\<close>

lemma update_my_id_core:
  "update_my_id n (v, rank) = (v', rank') \<Longrightarrow> vn_is_scheduler v' = vn_is_scheduler v \<and> vn_ready v' = vn_ready v
    \<and> vn_resender v' = vn_resender v \<and> vn_heartbeat_timeout v' = vn_heartbeat_timeout v \<and> vn_out v' = vn_out v"
  by (auto simp: update_my_id_def split: if_splits)

lemma find_dead_bound: "find_dead dead rl k ns = Some i \<Longrightarrow> i < k + length ns"
  by (induction ns arbitrary: k) (force split: if_splits)+

lemma tell_recovery:
  assumes "vn_resender v = None" and "\<forall>m. wd_SendMsg wd m > 0"
  shows "\<exists>v' out. rfold (\<lambda>r v. if r \<noteq> i \<and> r \<in> set dead then Inr v
      else rbind (send_stamped wd (if r = i then a else b) r v) (\<lambda>(_, v'). Inr v')) is v = Inr v'
    \<and> same_core v v' \<and> vn_out v' = vn_out v @ out \<and> sends (\<lambda>r. if r = i then a else b) (filter (\<lambda>r. \<not> (r \<noteq> i \<and> r \<in> set dead)) is) out"
proof (rule send_loop [where P = "\<lambda>_ r. \<not> (r \<noteq> i \<and> r \<in> set dead)", OF assms(1)])
  fix r :: int and v :: van assume v: "vn_resender v = None"
  from send_stamped_ok [OF v assms(2), of "if r = i then a else b" r]
  show "\<exists>v'. (if r \<noteq> i \<and> r \<in> set dead then Inr v else rbind (send_stamped wd (if r = i then a else b) r v) (\<lambda>(_, v'). Inr v')) = Inr v'
      \<and> same_core v v' \<and> (if \<not> (r \<noteq> i \<and> r \<in> set dead)
      then \<exists>ts. vn_out v' = vn_out v @ [\<lparr>mg_meta = (if r = i then a else b)\<lparr>me_recver := r, me_timestamp := ts\<rparr>, mg_data = []\<rparr>] else vn_out v' = vn_out v)"
    by (cases "r \<noteq> i \<and> r \<in> set dead") (auto simp: same_core_def)
qed simp

text \<open>C36: Recovery works once. When a node registers again after all have registered, and a node of its role is
  taken for dead, it gets that node's id and place in the table, and every node that is not dead is told,
  the new one included. The list of recovered nodes then holds it for good: at the next recovery the scheduler
  fails the check that this list has one element.\<close>

theorem second_recovery:
  assumes "vn_is_scheduler (sy_van s)" and "vn_ready (sy_van s)" and "vn_resender (sy_van s) = None"
    and "length (ct_node (me_control nodes)) = Suc (num_nodes (sy_po s))" and "num_nodes (sy_po s) < 2 ^ 31"
    and "me_sender m = kEmpty" and "ct_node (me_control m) = [n]"
    and "GetDeadNodes True (wd_time wd) (vn_heartbeat_timeout (sy_van s)) (sy_po s) = Inr dead"
    and "find_dead dead (nd_role n) 0 (butlast (ct_node (me_control nodes))) = Some i"
    and "GetNodeIDs (sy_po s) 6 = Inr is" and "\<forall>m. wd_SendMsg wd m > 0"
    and "rn = n\<lparr>nd_id := nd_id (ct_node (me_control nodes) ! i), nd_is_recovery := True\<rparr>"
  shows "if ct_node (me_control recovery) = []
    then \<exists>nodes' recovery' s' out. ProcessAddNodeCommand wd m (nodes, recovery, s) = Inr (nodes', recovery', s')
      \<and> ct_node (me_control nodes') = (ct_node (me_control nodes))[i := rn] \<and> ct_node (me_control recovery') = [rn]
      \<and> vn_out (sy_van s') = vn_out (sy_van s) @ out
      \<and> map (me_recver \<circ> mg_meta) out = filter (\<lambda>r. r = nd_id rn \<or> r \<notin> set dead) is
    else ProcessAddNodeCommand wd m (nodes, recovery, s) = Inl (Check_Failed ''recovery_nodes->control.node.size() == 1'')"
proof -
  let ?ns = "ct_node (me_control nodes)" and ?rns = "ct_node (me_control recovery)"
  define N R R' where "N = nodes\<lparr>me_control := (me_control nodes)\<lparr>ct_node := ?ns[i := rn]\<rparr>\<rparr>"
    and "R = recovery\<lparr>me_control := (me_control recovery)\<lparr>ct_node := ?rns @ [rn]\<rparr>\<rparr>"
    and "R' = R\<lparr>me_control := (me_control R)\<lparr>ct_cmd := ADD_NODE\<rparr>\<rparr>"
  have NR: "ct_node (me_control N) = ?ns[i := rn]" "ct_node (me_control R) = ?rns @ [rn]" "ct_node (me_control R') = ?rns @ [rn]"
    by (simp_all add: N_def R_def R'_def)
  have reg: "register_node dead (num_nodes (sy_po s)) (sy_van s) [n] (nodes, recovery) = Inr ([rn], N, R)"
    using assms(1,2,4,5,9,12) by (auto simp: register_node_def Let_def check_def i32_def N_def R_def)
  obtain v rank where u: "update_my_id rn (sy_van s, sy_rank s) = (v, rank)" by (cases "update_my_id rn (sy_van s, sy_rank s)")
  note c = update_my_id_core [OF u]
  let ?s1 = "s\<lparr>sy_van := v, sy_rank := rank\<rparr>"
  have run: "ProcessAddNodeCommand wd m (nodes, recovery, s)
      = rbind (ProcessAddNodeCommandAtScheduler wd (N, R, v, sy_po s)) (\<lambda>(nodes2, recovery2, v', po).
          Inr (nodes2, recovery2, ?s1\<lparr>sy_van := v', sy_po := po\<rparr>))"
    using assms(1,2,6-8) c reg u by (simp add: ProcessAddNodeCommand_def UpdateLocalID_def)
  have at: "ProcessAddNodeCommandAtScheduler wd (N, R, v, sy_po s)
      = rbind (check (length (?rns @ [rn]) = 1) ''recovery_nodes->control.node.size() == 1'') (\<lambda>_.
          let r1 = hd (?rns @ [rn]); v1 = vn_Connect r1 v; po1 = UpdateHeartbeat (nd_id r1) (wd_time wd) (sy_po s) in
          rbind (GetNodeIDs po1 6) (\<lambda>is.
          rbind (rfold (\<lambda>r v. if r \<noteq> nd_id r1 \<and> r \<in> set dead then Inr v
                   else rbind (send_stamped wd (if r = nd_id r1 then N else R') r v) (\<lambda>(_, v'). Inr v')) is v1) (\<lambda>v2.
            Inr (N, R', v2, po1))))"
    using assms(2,4,8) c NR
    by (simp add: ProcessAddNodeCommandAtScheduler_def Let_def kWorkerGroup_def kServerGroup_def cong del: if_weak_cong flip: R'_def)
  show ?thesis
  proof (cases "?rns = []")
    case False
    then have "length (?rns @ [rn]) \<noteq> 1" by simp
    with False run at show ?thesis by (simp add: check_def)
  next
    case True
    then have e: "?rns @ [rn] = [rn]" by simp
    have "vn_resender (vn_Connect rn v) = None" using c assms(3) by (simp add: vn_Connect_def)
    from tell_recovery [OF this assms(11), of "nd_id rn" dead N R' "is"] obtain v2 out where
      o: "rfold (\<lambda>r v. if r \<noteq> nd_id rn \<and> r \<in> set dead then Inr v
            else rbind (send_stamped wd (if r = nd_id rn then N else R') r v) (\<lambda>(_, v'). Inr v')) is (vn_Connect rn v) = Inr v2"
      "vn_out v2 = vn_out (vn_Connect rn v) @ out"
      "sends (\<lambda>r. if r = nd_id rn then N else R') (filter (\<lambda>r. \<not> (r \<noteq> nd_id rn \<and> r \<in> set dead)) is) out" by blast
    have "GetNodeIDs (UpdateHeartbeat (nd_id rn) (wd_time wd) (sy_po s)) 6 = Inr is"
      using assms(10) by (simp add: GetNodeIDs_def UpdateHeartbeat_def)
    with o(1) have "ProcessAddNodeCommandAtScheduler wd (N, R, v, sy_po s)
        = Inr (N, R', v2, UpdateHeartbeat (nd_id rn) (wd_time wd) (sy_po s))"
      unfolding at e by (simp add: check_def Let_def)
    then have "ProcessAddNodeCommand wd m (nodes, recovery, s)
        = Inr (N, R', ?s1\<lparr>sy_van := v2, sy_po := UpdateHeartbeat (nd_id rn) (wd_time wd) (sy_po s)\<rparr>)" using run by simp
    moreover have "map (me_recver \<circ> mg_meta) out = filter (\<lambda>r. r = nd_id rn \<or> r \<notin> set dead) is" using sends_recver [OF o(3)] by (simp add: disj_commute)
    ultimately show ?thesis using True o(2) c NR e by (auto simp: vn_Connect_def)
  qed
qed

section \<open>Examples\<close>

definition demo_world :: van_world where
  "demo_world = \<lparr>wd_SendMsg = (\<lambda>_. 88), wd_Bind = (\<lambda>n _. nd_port n), wd_time = 100, wd_now = 0, wd_seen = (\<lambda>po _. po),
     wd_rand = (\<lambda>_. 0), wd_GetIP = (\<lambda>_. []), wd_interface = ([], []), wd_port = 5000\<rparr>"

definition demo_van :: van where
  "demo_van = (new_Van \<lparr>pe_kvs = [''PS_HEARTBEAT_TIMEOUT'' \<mapsto> ''3''], pe_system = Map.empty\<rparr>)\<lparr>vn_is_scheduler := True\<rparr>"

definition demo_node :: "role \<Rightarrow> int \<Rightarrow> int \<Rightarrow> node" where
  "demo_node r i port = (Node r)\<lparr>nd_id := i, nd_hostname := [49], nd_port := port\<rparr>"

definition demo_table :: "node list \<Rightarrow> meta" where
  "demo_table ns = Meta\<lparr>me_control := Control\<lparr>ct_cmd := ADD_NODE, ct_node := ns\<rparr>\<rparr>"

definition demo_sched_po :: postoffice where
  "demo_sched_po = po_empty\<lparr>po_is_scheduler := True, po_num_workers := 1, po_num_servers := 1, po_node_ids := init_node_ids 1 1 Map.empty\<rparr>"

lemma demo_members: "GetNodeIDs demo_sched_po 6 = Inr [9, 8]"
proof -
  have "group_members 1 1 6 = [9, 8]" by (simp add: group_members_def upto.simps WorkerRankToID_def ServerRankToID_def)
  then show ?thesis
    using GetNodeIDs_ids [of demo_sched_po 6] no_empty_init [of 1 1] group_ids [of 6 1 1] by (simp add: demo_sched_po_def)
qed

lemma demo_world_send: "\<forall>m. wd_SendMsg demo_world m > 0" by (simp add: demo_world_def)

theorem registration_witness:
  "\<exists>nodes' recovery' v' po' out. ProcessAddNodeCommandAtScheduler demo_world
      (demo_table [demo_node WORKER kEmpty 1, demo_node SERVER kEmpty 2], Meta, demo_van, demo_sched_po) = Inr (nodes', recovery', v', po')
    \<and> vn_ready v' \<and> vn_out v' = out \<and> map (me_recver \<circ> mg_meta) out = [9, 8]"
proof -
  let ?ns = "[demo_node WORKER kEmpty 1, demo_node SERVER kEmpty 2]"
  have m: "group_members 1 1 6 = [9, 8]" by (simp add: group_members_def upto.simps WorkerRankToID_def ServerRankToID_def)
  have po: "po_num_workers demo_sched_po = 1" "po_num_servers demo_sched_po = 1" by (simp_all add: demo_sched_po_def)
  have "fresh_van demo_van" "vn_out demo_van = []" by (simp_all add: fresh_van_def demo_van_def new_Van_def)
  moreover have "all_registered ?ns demo_sched_po" using demo_members by (simp add: all_registered_def demo_node_def Node_def po m)
  moreover have "?ns = ct_node (me_control (demo_table ?ns))" by (simp add: demo_table_def)
  moreover have "distinct (map address ?ns)" by (simp add: address_def demo_node_def to_string_def dec_digits.simps)
  ultimately show ?thesis
    using registration [of demo_van ?ns demo_sched_po "demo_table ?ns" demo_world _ Meta, OF _ _ _ demo_world_send refl]
    by (metis append_Nil m po)
qed

theorem barrier_rounds_witness:
  "\<exists>v' out. rfold (ProcessBarrierCommand demo_world) (replicate 5 (mg_meta (barrier_request 0 6 1))) (demo_van, demo_sched_po) = Inr (v', demo_sched_po)
    \<and> vn_out v' = out \<and> map (me_recver \<circ> mg_meta) out = [9, 8, 9, 8] \<and> waiting v' 6 = 1"
proof -
  let ?ms = "replicate 5 (mg_meta (barrier_request 0 6 1))"
  have "list_all (barrier_req 6) ?ms" by (simp add: list_all_iff barrier_req_def barrier_request_def)
  moreover have "vn_barrier_count demo_van = []" "vn_resender demo_van = None" "vn_out demo_van = []" "vn_shared demo_van = Map.empty"
    by (simp_all add: demo_van_def new_Van_def)
  moreover have "5 div Suc (Suc 0) = Suc (Suc 0)" "5 mod Suc (Suc 0) = 1" by (simp_all flip: numeral_2_eq_2)
  ultimately show ?thesis
    using barrier_rounds [OF _ _ demo_members _ _ _ _ demo_world_send, of ?ms demo_van] by auto
qed

definition demo_sys :: sys where
  "demo_sys = \<lparr>sy_van = demo_van\<lparr>vn_ready := True\<rparr>, sy_po = demo_sched_po, sy_customers = Map.empty, sy_rank = Some 0\<rparr>"

lemma demo_recovery:
  "length (ct_node (me_control (demo_table [demo_node WORKER 9 1, demo_node SERVER 8 2, demo_node SCHEDULER 1 3]))) = Suc (num_nodes (sy_po demo_sys))"
  "num_nodes (sy_po demo_sys) < 2 ^ 31"
  "GetDeadNodes True (wd_time demo_world) (vn_heartbeat_timeout (sy_van demo_sys)) (sy_po demo_sys) = Inr [9, 8]"
  "find_dead [9, 8] SERVER 0 (butlast (ct_node (me_control (demo_table [demo_node WORKER 9 1, demo_node SERVER 8 2, demo_node SCHEDULER 1 3])))) = Some 1"
proof -
  have t: "vn_heartbeat_timeout (sy_van demo_sys) = 3"
    by (simp add: demo_sys_def demo_van_def new_Van_def GetEnv_def env_find_def demo_atoi)
  have "po_heartbeats demo_sched_po = Map.empty" "po_start_time demo_sched_po = 0" "po_is_scheduler demo_sched_po"
    by (simp_all add: demo_sched_po_def po_empty_def)
  with demo_members show "GetDeadNodes True (wd_time demo_world) (vn_heartbeat_timeout (sy_van demo_sys)) (sy_po demo_sys) = Inr [9, 8]"
    by (simp add: GetDeadNodes_def t) (simp add: demo_sys_def demo_world_def kWorkerGroup_def kServerGroup_def)
qed (simp_all add: demo_table_def demo_sys_def demo_sched_po_def num_nodes_def i32_def u64_of_int_def demo_node_def Node_def)

theorem second_recovery_witness:
  "ProcessAddNodeCommand demo_world (demo_table [demo_node SERVER kEmpty 7])
     (demo_table [demo_node WORKER 9 1, demo_node SERVER 8 2, demo_node SCHEDULER 1 3], demo_table [demo_node WORKER 9 5], demo_sys)
   = Inl (Check_Failed ''recovery_nodes->control.node.size() == 1'')"
proof -
  have s: "vn_is_scheduler (sy_van demo_sys)" "vn_ready (sy_van demo_sys)" "vn_resender (sy_van demo_sys) = None"
    by (simp_all add: demo_sys_def demo_van_def new_Van_def)
  have m: "me_sender (demo_table [demo_node SERVER kEmpty 7]) = kEmpty" "ct_node (me_control (demo_table [demo_node SERVER kEmpty 7])) = [demo_node SERVER kEmpty 7]"
    by (simp_all add: demo_table_def Meta_def)
  have f: "find_dead [9, 8] (nd_role (demo_node SERVER kEmpty 7)) 0
      (butlast (ct_node (me_control (demo_table [demo_node WORKER 9 1, demo_node SERVER 8 2, demo_node SCHEDULER 1 3])))) = Some 1"
    using demo_recovery(4) by (simp add: demo_node_def Node_def)
  have "GetNodeIDs (sy_po demo_sys) 6 = Inr [9, 8]" using demo_members by (simp add: demo_sys_def)
  from second_recovery [OF s demo_recovery(1,2) m demo_recovery(3) f this demo_world_send refl, of "demo_table [demo_node WORKER 9 5]"]
  show ?thesis by (simp add: demo_table_def)
qed

end
