(* ===== verification/Rdma_Transport.thy ===== *)
theory Rdma_Transport
  imports Rdma_Utils Van_Model "HOL-Library.Signed_Division"
begin

text \<open>
  The transports of the RDMA van (\<open>src/src/rdma_transport.h\<close>): rendezvous messages, remote writes, and the two ways
  of moving the values of a tensor, over the network (\<open>RDMATransport\<close>) and through memory shared by the processes of a machine (\<open>IPCTransport\<close>).

  Work requests given to the device are recorded in \<open>rv_sq\<close> in the order of posting. The rendezvous structures travel as records: they lie in
  the buffer of a work request context, which is not used again before the request is completed. A queue that is empty makes
  its reader block, which is the result \<open>Out_Of_Fuel\<close>. Shared memory is mapped at an address that is a parameter.
\<close>

section \<open>Data\<close>

datatype wr_ctx = Start_Ctx nat | Reply_Ctx nat | Rx_Ctx nat

record rdv_start =
  ds_meta_len :: nat
  ds_data_num :: nat
  ds_data_len :: "nat list"
  ds_origin_addr :: nat

record rdv_reply =
  dr_addr :: nat
  dr_origin_addr :: nat
  dr_rkey :: nat
  dr_idx :: nat

record buf_ctx =
  bc_buffer :: nat
  bc_meta_len :: nat
  bc_data_num :: nat
  bc_data_len :: "nat list"

text \<open>A message whose arrays are given by address and size.\<close>

record rmsg =
  rm_meta :: meta
  rm_data :: "(nat \<times> nat) list"

record msg_buf =
  mb_inline_len :: nat
  mb_inline_buf :: nat
  mb_data :: "(nat \<times> nat) list"
  mb_mrs :: "(mr \<times> nat) list"

text \<open>Remote address, remote key, index, and the local message buffer.\<close>

type_synonym remote_tuple = "nat \<times> nat \<times> nat \<times> nat"

datatype wr =
    Send_Start wr_ctx rdv_start
  | Send_Reply wr_ctx rdv_reply
  | Rdma_Write nat nat nat nat nat
  | Rdma_Write_Imm nat nat nat nat nat nat nat

record async_copy =
  ac_msg_buf :: nat
  ac_remote :: remote_tuple
  ac_dst :: nat
  ac_src :: nat
  ac_len :: int
  ac_shutdown :: bool

record ipc =
  ip_queues :: "async_copy list list"
  ip_counter :: nat
  ip_partition_bytes :: int
  ip_key_shm_addr :: "nat \<rightharpoonup> nat"
  ip_enable_async_copy :: bool

datatype transport = RDMATransport | IPCTransport ipc

datatype ep_status = IDLE | CONNECTING | CONNECTED | REJECTED

record endpoint =
  ep_status :: ep_status
  ep_node_id :: int
  ep_cm_id :: "nat option"
  ep_trans :: "transport option"
  ep_free_start_ctx :: "nat list"
  ep_free_reply_ctx :: "nat list"
  ep_rx_posted :: "nat list"

text \<open>The van with the memory of its process. Endpoints and message buffers are on heaps, where numbers are pointers; \<open>rv_next\<close> is the next one.\<close>

record rdma_van =
  rv_my_node :: node
  rv_is_server :: bool
  rv_host :: host
  rv_allocator :: allocator
  rv_addr_pool :: "buf_ctx addr_pool"
  rv_next :: nat
  rv_eps :: "nat \<rightharpoonup> endpoint"
  rv_endpoints :: "int \<rightharpoonup> nat"
  rv_incoming :: "nat list"
  rv_cq_polling :: bool
  rv_should_stop :: bool
  rv_context :: bool
  rv_disable_ipc :: bool
  rv_is_local :: "int \<rightharpoonup> bool"
  rv_recv_buffers :: "(nat \<times> buf_ctx) list"
  rv_tensor_info :: "nat \<Rightarrow> int \<rightharpoonup> int \<times> nat \<times> int"
  rv_push_addr :: "nat \<Rightarrow> int \<rightharpoonup> remote_tuple"
  rv_pull_addr :: "nat \<Rightarrow> int \<rightharpoonup> remote_tuple"
  rv_msgbufs :: "nat \<rightharpoonup> msg_buf"
  rv_msgbuf_cache :: "nat \<rightharpoonup> rmsg"
  rv_mem_mr :: "nat \<rightharpoonup> mr"
  rv_sq :: "(nat \<times> wr) list"

text \<open>The surroundings of a van: the device, the address at which a named piece of shared memory is mapped, and the key ranges with the rank
  of the server.\<close>

record rdma_world =
  rw_hw :: rdma_hw
  rw_shm :: "byte list \<Rightarrow> nat option"
  rw_ranges :: "range list"
  rw_rank :: nat

definition get_ep :: "nat \<Rightarrow> rdma_van \<Rightarrow> endpoint res" where
  "get_ep e v = (case rv_eps v e of None \<Rightarrow> Inl (Undefined_Behaviour ''endpoint'') | Some ep \<Rightarrow> Inr ep)"

definition set_ep :: "nat \<Rightarrow> endpoint \<Rightarrow> rdma_van \<Rightarrow> rdma_van" where
  "set_ep e ep v = v\<lparr>rv_eps := (rv_eps v)(e \<mapsto> ep)\<rparr>"

definition get_msgbuf :: "nat \<Rightarrow> rdma_van \<Rightarrow> msg_buf res" where
  "get_msgbuf b v = (case rv_msgbufs v b of None \<Rightarrow> Inl (Undefined_Behaviour ''msg_buf'') | Some mb \<Rightarrow> Inr mb)"

definition post_send :: "nat \<Rightarrow> wr \<Rightarrow> rdma_van \<Rightarrow> rdma_van" where
  "post_send e w v = v\<lparr>rv_sq := rv_sq v @ [(e, w)]\<rparr>"

section \<open>Rendezvous\<close>

definition RDMAWriteWithImm :: "nat \<Rightarrow> nat \<Rightarrow> nat \<Rightarrow> nat \<Rightarrow> nat \<Rightarrow> rdma_van \<Rightarrow> rdma_van res" where
  "RDMAWriteWithImm e b remote_addr rkey idx v =
     rbind (get_msgbuf b v) (\<lambda>mb.
     rbind (LocalKey (mb_inline_buf mb) (rv_allocator v)) (\<lambda>lkey.
       Inr (post_send e (Rdma_Write_Imm b (mb_inline_buf mb) (u32 (mb_inline_len mb)) lkey remote_addr rkey idx) v)))"

definition SendRendezvousBegin :: "nat \<Rightarrow> rmsg \<Rightarrow> nat \<Rightarrow> rdma_van \<Rightarrow> rdma_van res" where
  "SendRendezvousBegin e msg b v =
     rbind (get_ep e v) (\<lambda>ep.
     rbind (get_msgbuf b v) (\<lambda>mb.
       case tsq_WaitAndPop (ep_free_start_ctx ep) of
         None \<Rightarrow> Inl Out_Of_Fuel
       | Some (c, rest) \<Rightarrow>
           let n = length (mb_data mb) in
           if n > kMaxDataFields then Inl (Undefined_Behaviour ''req->data_len[i]'')
           else if n > length (rm_data msg) then Inl (Undefined_Behaviour ''msg.data[i]'')
           else
             let req = \<lparr>ds_meta_len = mb_inline_len mb, ds_data_num = n, ds_data_len = map snd (take n (rm_data msg)), ds_origin_addr = b\<rparr>
             in Inr (post_send e (Send_Start (Start_Ctx c) req) (set_ep e (ep\<lparr>ep_free_start_ctx := rest\<rparr>) v))))"

definition SendRendezvousReply :: "rdma_world \<Rightarrow> nat \<Rightarrow> rdv_start \<Rightarrow> rdma_van \<Rightarrow> rdma_van res" where
  "SendRendezvousReply wd e req v =
     (if ds_data_num req > kMaxDataFields then Inl (Undefined_Behaviour ''buf_ctx->data_len[i]'')
      else
        let page = hw_page (rw_hw wd);
            data_len = fold (\<lambda>n acc. u64 (acc + n)) (ds_data_len req) 0;
            sz = (if rv_is_server v then u64 (align_ceil (ds_meta_len req) page + data_len) else ds_meta_len req)
        in
        rbind (al_Alloc (rw_hw wd) sz (rv_allocator v, rv_host v)) (\<lambda>(p, al, h).
          case p of None \<Rightarrow> Inl (Check_Failed ''buffer'')
          | Some buffer \<Rightarrow>
              let ctx = \<lparr>bc_buffer = buffer, bc_meta_len = ds_meta_len req, bc_data_num = ds_data_num req, bc_data_len = ds_data_len req\<rparr> in
              rbind (get_ep e v) (\<lambda>ep.
                case tsq_WaitAndPop (ep_free_reply_ctx ep) of
                  None \<Rightarrow> Inl Out_Of_Fuel
                | Some (c, rest) \<Rightarrow>
                    rbind (RemoteKey buffer al) (\<lambda>rkey.
                    rbind (ap_StoreAddress ctx (rv_addr_pool v)) (\<lambda>(idx, pool).
                      let v1 = v\<lparr>rv_allocator := al, rv_host := h, rv_addr_pool := pool\<rparr>;
                          resp = \<lparr>dr_addr = buffer, dr_origin_addr = ds_origin_addr req, dr_rkey = rkey, dr_idx = idx\<rparr>
                      in Inr (post_send e (Send_Reply (Reply_Ctx c) resp) (set_ep e (ep\<lparr>ep_free_reply_ctx := rest\<rparr>) v1)))))))"

section \<open>Sending over the network\<close>

definition rt_Send :: "nat \<Rightarrow> nat \<Rightarrow> remote_tuple \<Rightarrow> rdma_van \<Rightarrow> rdma_van res" where
  "rt_Send e b t v = (case t of (raddr, rkey, idx, _) \<Rightarrow> RDMAWriteWithImm e b raddr rkey idx v)"

definition rt_SendPushRequest :: "rdma_world \<Rightarrow> nat \<Rightarrow> nat \<Rightarrow> remote_tuple \<Rightarrow> rdma_van \<Rightarrow> rdma_van res" where
  "rt_SendPushRequest wd e b t v =
     rbind (get_msgbuf b v) (\<lambda>mb.
     rbind (check (length (mb_mrs mb) = 1) ''msg_buf->mrs.size() == 1'') (\<lambda>_.
       case (hd (mb_mrs mb), t) of
         ((r, len), (raddr, rkey, idx, _)) \<Rightarrow>
           RDMAWriteWithImm e b raddr rkey idx
             (post_send e (Rdma_Write (mr_addr r) (u32 len) (mr_lkey r)
                (u64 (raddr + align_ceil (mb_inline_len mb) (hw_page (rw_hw wd)))) rkey) v)))"

text \<open>\<open>SendPullRequest\<close> and \<open>SendPushResponse\<close>.\<close>

definition rt_SendMeta :: "nat \<Rightarrow> nat \<Rightarrow> remote_tuple \<Rightarrow> rdma_van \<Rightarrow> rdma_van res" where
  "rt_SendMeta e b t v =
     rbind (get_msgbuf b v) (\<lambda>mb.
     rbind (check (length (mb_mrs mb) = 0) ''msg_buf->mrs.size() == 0'') (\<lambda>_. rt_Send e b t v))"

definition rt_SendPullResponse :: "nat \<Rightarrow> rmsg \<Rightarrow> nat \<Rightarrow> remote_tuple \<Rightarrow> nat \<Rightarrow> rdma_van \<Rightarrow> rdma_van res" where
  "rt_SendPullResponse e msg b t lkey v =
     rbind (get_msgbuf b v) (\<lambda>mb.
     rbind (check (length (mb_mrs mb) = 0) ''msg_buf->mrs.size() == 0'') (\<lambda>_.
       if length (mb_data mb) < 2 then Inl (Undefined_Behaviour ''msg_buf->data[1]'')
       else
         let m = rm_meta msg; (addr, sz) = mb_data mb ! 1 in
         rbind (check (u64_of_int (me_val_len m) = sz) ''(size_t) msg.meta.val_len == msg_buf->data[1].size()'') (\<lambda>_.
           rt_Send e b t (post_send e (Rdma_Write addr (u32_of_int (me_val_len m)) lkey (me_addr m) (u32_of_int (me_option m))) v))))"

section \<open>Receiving over the network\<close>

definition CreateFunctionalSarray :: "byte list \<Rightarrow> rdma_van \<Rightarrow> (nat \<times> nat) \<times> rdma_van" where
  "CreateFunctionalSarray val v =
     (let (p, h) = malloc (length val) (rv_host v) in
      ((p, length val), v\<lparr>rv_host := h\<lparr>ho_mem := store_bytes (ho_mem h) p val\<rparr>\<rparr>))"

definition add_data :: "(nat \<times> nat) list \<Rightarrow> rmsg \<Rightarrow> int \<times> rmsg" where
  "add_data ds msg = (i32 (int (sum_list (map snd ds))), msg\<lparr>rm_data := rm_data msg @ ds\<rparr>)"

definition key_array :: "rmsg \<Rightarrow> rdma_van \<Rightarrow> (nat \<times> nat) \<times> rdma_van" where
  "key_array msg v = CreateFunctionalSarray (le_bytes 8 (me_key (rm_meta msg))) v"

text \<open>The arrays for the key, the values at an address, and the length.\<close>

definition kv_arrays :: "rmsg \<Rightarrow> nat \<times> nat \<Rightarrow> rdma_van \<Rightarrow> (int \<times> rmsg) \<times> rdma_van" where
  "kv_arrays msg vals v =
     (let (ks, v1) = key_array msg v; (ls, v2) = CreateFunctionalSarray (int_bytes (me_val_len (rm_meta msg))) v1
      in (add_data [ks, vals, ls] msg, v2))"

definition rt_RecvPushResponse :: "rmsg \<Rightarrow> buf_ctx \<Rightarrow> rdma_van \<Rightarrow> ((int \<times> rmsg) \<times> rdma_van) res" where
  "rt_RecvPushResponse msg bc v = rbind (check (bc_data_num bc = 0) ''buffer_ctx->data_num == 0'') (\<lambda>_. Inr ((0, msg), v))"

definition rt_RecvPullRequest :: "rmsg \<Rightarrow> rdma_van \<Rightarrow> ((int \<times> rmsg) \<times> rdma_van) res" where
  "rt_RecvPullRequest msg v = (let (ks, v1) = key_array msg v in Inr (add_data [ks, (0, 0)] msg, v1))"

definition rt_RecvPushRequest :: "rdma_world \<Rightarrow> rmsg \<Rightarrow> buf_ctx \<Rightarrow> nat \<Rightarrow> rdma_van \<Rightarrow> ((int \<times> rmsg) \<times> rdma_van) res" where
  "rt_RecvPushRequest wd msg bc meta_len v =
     rbind (check (me_push (rm_meta msg) \<and> me_request (rm_meta msg)) ''msg->meta.push && msg->meta.request'') (\<lambda>_.
     rbind (check (bc_data_num bc = 3) ''buffer_ctx->data_num == 3'') (\<lambda>_.
       Inr (kv_arrays msg (bc_buffer bc + align_ceil meta_len (hw_page (rw_hw wd)), u32 (bc_data_len bc ! 1)) v)))"

definition rt_RecvPullResponse :: "rmsg \<Rightarrow> rdma_van \<Rightarrow> ((int \<times> rmsg) \<times> rdma_van) res" where
  "rt_RecvPullResponse msg v = Inr (kv_arrays msg (me_addr (rm_meta msg), u64_of_int (me_val_len (rm_meta msg))) v)"

section \<open>Shared memory\<close>

definition DivUp :: "int \<Rightarrow> int \<Rightarrow> int res" where
  "DivUp x y = (if y = 0 then Inl (Undefined_Behaviour ''division by zero'') else Inr (i32 (x + y - 1) sdiv y))"

definition ipc_RoundUp :: "int \<Rightarrow> int \<Rightarrow> int res" where
  "ipc_RoundUp x y = rbind (DivUp x y) (\<lambda>d. Inr (i32 (d * y)))"

definition new_IPCTransport :: "rdma_world \<Rightarrow> ps_env \<Rightarrow> ipc res" where
  "new_IPCTransport wd env =
     rbind (ipc_RoundUp (GetEnv env ''BYTEPS_PARTITION_BYTES'' 4096000)
              (i32 (GetEnv env ''BYTEPS_LOCAL_SIZE'' 8 * int (hw_page (rw_hw wd))))) (\<lambda>bytes.
       Inr \<lparr>ip_queues = replicate (nat (GetEnv env ''BYTEPS_IPC_COPY_NUM_THREADS'' 4)) [], ip_counter = 0,
            ip_partition_bytes = bytes, ip_key_shm_addr = Map.empty,
            ip_enable_async_copy = (GetEnv env ''BYTEPS_IPC_ENABLE_ASYNC_COPY'' 1 \<noteq> 0)\<rparr>)"

definition kShmPrefix :: "byte list" where
  "kShmPrefix = string_bytes ''BytePS_ShM_''"

definition GetSharedMemory :: "rdma_world \<Rightarrow> byte list \<Rightarrow> nat \<Rightarrow> ipc \<Rightarrow> (nat \<times> ipc) res" where
  "GetSharedMemory wd prefix key ip =
     rbind (DecodeWorkerKey (rw_ranges wd) (rw_rank wd) key) (\<lambda>worker_key.
       let seq_num = worker_key mod 2 ^ 16; base_key = worker_key - seq_num;
           offset = u64 (u64_of_int (ip_partition_bytes ip) * seq_num)
       in case ip_key_shm_addr ip base_key of
            Some p \<Rightarrow> Inr (u64 (p + offset), ip)
          | None \<Rightarrow>
              (case rw_shm wd (prefix @ to_string (int base_key)) of
                 None \<Rightarrow> Inl (Check_Failed ''shm_fd >= 0'')
               | Some p \<Rightarrow> Inr (u64 (p + offset), ip\<lparr>ip_key_shm_addr := (ip_key_shm_addr ip)(base_key \<mapsto> p)\<rparr>)))"

definition set_ipc :: "nat \<Rightarrow> ipc \<Rightarrow> rdma_van \<Rightarrow> rdma_van" where
  "set_ipc e ip v = (case rv_eps v e of None \<Rightarrow> v | Some ep \<Rightarrow> set_ep e (ep\<lparr>ep_trans := Some (IPCTransport ip)\<rparr>) v)"

definition ipc_SendPullResponse :: "rdma_world \<Rightarrow> nat \<Rightarrow> rmsg \<Rightarrow> nat \<Rightarrow> remote_tuple \<Rightarrow> ipc \<Rightarrow> rdma_van \<Rightarrow> rdma_van res" where
  "ipc_SendPullResponse wd e msg b t ip v =
     (if length (rm_data msg) < 2 then Inl (Undefined_Behaviour ''msg.data[1]'')
      else
        let addr = fst (rm_data msg ! 1); len = me_val_len (rm_meta msg) in
        rbind (check (addr \<noteq> 0) ''msg.data[1].data()'') (\<lambda>_.
        rbind (GetSharedMemory wd kShmPrefix (me_key (rm_meta msg)) ip) (\<lambda>(shm, ip1).
        rbind (check (shm \<noteq> 0) ''GetSharedMemory(kShmPrefix, msg.meta.key)'') (\<lambda>_.
          if ip_enable_async_copy ip1 then
            let m = \<lparr>ac_msg_buf = b, ac_remote = t, ac_dst = shm, ac_src = addr, ac_len = len, ac_shutdown = False\<rparr>;
                n = length (ip_queues ip1); k = ip_counter ip1 mod n
            in if n = 0 then Inl (Undefined_Behaviour ''cnt % ipc_copy_nthreads_'')
               else Inr (set_ipc e (ip1\<lparr>ip_counter := u64 (ip_counter ip1 + 1),
                                       ip_queues := (ip_queues ip1)[k := tsq_Push (ip_queues ip1 ! k) m]\<rparr>) v)
          else
            let h = rv_host v in
            rt_Send e b t (set_ipc e ip1 (v\<lparr>rv_host := h\<lparr>ho_mem := memcpy (ho_mem h) shm addr (u64_of_int len)\<rparr>\<rparr>))))))"

definition ipc_RecvPushRequest :: "rdma_world \<Rightarrow> nat \<Rightarrow> rmsg \<Rightarrow> ipc \<Rightarrow> rdma_van \<Rightarrow> ((int \<times> rmsg) \<times> rdma_van) res" where
  "ipc_RecvPushRequest wd e msg ip v =
     (let (ks, v1) = key_array msg v in
      rbind (GetSharedMemory wd kShmPrefix (me_key (rm_meta msg)) ip) (\<lambda>(addr, ip1).
        let (ls, v2) = CreateFunctionalSarray (int_bytes (me_val_len (rm_meta msg))) (set_ipc e ip1 v1)
        in Inr (add_data [ks, (addr, u64_of_int (me_val_len (rm_meta msg))), ls] msg, v2)))"

text \<open>One turn of \<open>AsyncCopyThread\<close>: \<open>None\<close> when it ends.\<close>

definition AsyncCopyThread_turn :: "nat \<Rightarrow> nat \<Rightarrow> rdma_van \<Rightarrow> rdma_van option res" where
  "AsyncCopyThread_turn e i v =
     rbind (get_ep e v) (\<lambda>ep.
       case ep_trans ep of
         Some (IPCTransport ip) \<Rightarrow>
           (case tsq_WaitAndPop (ip_queues ip ! i) of
              None \<Rightarrow> Inr (Some v)
            | Some (m, rest) \<Rightarrow>
                let v1 = set_ipc e (ip\<lparr>ip_queues := (ip_queues ip)[i := rest]\<rparr>) v; h = rv_host v in
                if ac_shutdown m then Inr None
                else if ac_len m = 0 then Inr (Some v1)
                else
                  rbind (check (ac_dst m \<noteq> 0) ''m.dst'') (\<lambda>_.
                  rbind (check (ac_src m \<noteq> 0) ''m.src'') (\<lambda>_.
                  rbind (rt_Send e (ac_msg_buf m) (ac_remote m)
                           (v1\<lparr>rv_host := h\<lparr>ho_mem := memcpy (ho_mem h) (ac_dst m) (ac_src m) (u64_of_int (ac_len m))\<rparr>\<rparr>)) (\<lambda>v2.
                    Inr (Some v2)))))
       | _ \<Rightarrow> Inl (Undefined_Behaviour ''not an IPCTransport''))"

section \<open>Dispatch\<close>

definition tr_SendPushRequest :: "rdma_world \<Rightarrow> transport \<Rightarrow> nat \<Rightarrow> nat \<Rightarrow> remote_tuple \<Rightarrow> rdma_van \<Rightarrow> rdma_van res" where
  "tr_SendPushRequest wd tr e b t v =
     (case tr of RDMATransport \<Rightarrow> rt_SendPushRequest wd e b t v | IPCTransport ip \<Rightarrow> rt_Send e b t v)"

definition tr_SendPullResponse :: "rdma_world \<Rightarrow> transport \<Rightarrow> nat \<Rightarrow> rmsg \<Rightarrow> nat \<Rightarrow> remote_tuple \<Rightarrow> nat \<Rightarrow> rdma_van \<Rightarrow> rdma_van res" where
  "tr_SendPullResponse wd tr e msg b t lkey v =
     (case tr of RDMATransport \<Rightarrow> rt_SendPullResponse e msg b t lkey v | IPCTransport ip \<Rightarrow> ipc_SendPullResponse wd e msg b t ip v)"

definition tr_RecvPushRequest :: "rdma_world \<Rightarrow> transport \<Rightarrow> nat \<Rightarrow> rmsg \<Rightarrow> buf_ctx \<Rightarrow> nat \<Rightarrow> rdma_van \<Rightarrow> ((int \<times> rmsg) \<times> rdma_van) res" where
  "tr_RecvPushRequest wd tr e msg bc meta_len v =
     (case tr of RDMATransport \<Rightarrow> rt_RecvPushRequest wd msg bc meta_len v | IPCTransport ip \<Rightarrow> ipc_RecvPushRequest wd e msg ip v)"

end
