(* ===== verification/Rdma_Van.thy ===== *)
theory Rdma_Van
  imports Rdma_Transport
begin

text \<open>
  The van over RDMA (\<open>src/src/rdma_van.h\<close>). A message that is sent for the first time for its key and receiver starts a rendezvous: the
  receiver allocates a buffer, numbers it and answers with its address; the sender remembers the answer and writes the message into the
  buffer, and later messages for the key at once. The number travels with the write and tells the receiver what has arrived.

  Completions of work requests and events of connections are what the device reports; one of each is handled by one function
  (\<open>handle_wc\<close>, \<open>On...\<close>). Waiting in \<open>Connect\<close> splits it in parts. Logging is left out, as are file descriptors and polling.
\<close>

section \<open>Bookkeeping\<close>

definition PackWorkerTensorAddress :: "rmsg \<Rightarrow> rdma_van \<Rightarrow> rmsg res" where
  "PackWorkerTensorAddress msg v =
     (let m = rm_meta msg in
      if me_push m \<or> me_request m then Inr msg
      else case rv_tensor_info v (me_key m) (me_recver m) of
             None \<Rightarrow> Inl (Check_Failed ''tensor_info_map_[key].find(recver) != end'')
           | Some (len, addr, rkey) \<Rightarrow> Inr (msg\<lparr>rm_meta := m\<lparr>me_val_len := len, me_addr := addr, me_option := rkey\<rparr>\<rparr>))"

definition StoreWorkerTensorAddress :: "rmsg \<Rightarrow> rdma_van \<Rightarrow> rdma_van res" where
  "StoreWorkerTensorAddress msg v =
     (let m = rm_meta msg; key = me_key m; sender = me_sender m in
      case rv_tensor_info v key sender of
        None \<Rightarrow> Inr (v\<lparr>rv_tensor_info := (rv_tensor_info v)(key := (rv_tensor_info v key)(sender \<mapsto> (me_val_len m, me_addr m, me_option m)))\<rparr>)
      | Some (len, addr, rkey) \<Rightarrow>
          rbind (check (me_val_len m = len) ''len == std::get<0>(tensor_info_map_[key][sender])'') (\<lambda>_.
          rbind (check (me_addr m = addr) ''addr == std::get<1>(tensor_info_map_[key][sender])'') (\<lambda>_.
          rbind (check (me_option m = rkey) ''rkey == std::get<2>(tensor_info_map_[key][sender])'') (\<lambda>_. Inr v))))"

definition addr_map :: "bool \<Rightarrow> rdma_van \<Rightarrow> nat \<Rightarrow> int \<rightharpoonup> remote_tuple" where
  "addr_map is_push v = (if is_push then rv_push_addr v else rv_pull_addr v)"

definition set_addr :: "bool \<Rightarrow> nat \<Rightarrow> int \<Rightarrow> remote_tuple \<Rightarrow> rdma_van \<Rightarrow> rdma_van" where
  "set_addr is_push key recver t v =
     (if is_push then v\<lparr>rv_push_addr := (rv_push_addr v)(key := (rv_push_addr v key)(recver \<mapsto> t))\<rparr>
      else v\<lparr>rv_pull_addr := (rv_pull_addr v)(key := (rv_pull_addr v key)(recver \<mapsto> t))\<rparr>)"

definition HasRemoteInfo :: "nat \<Rightarrow> bool \<Rightarrow> int \<Rightarrow> rdma_van \<Rightarrow> bool" where
  "HasRemoteInfo key is_push recver v \<longleftrightarrow> addr_map is_push v key recver \<noteq> None"

definition StoreMsgBuf :: "nat \<Rightarrow> rmsg \<Rightarrow> rdma_van \<Rightarrow> rdma_van res" where
  "StoreMsgBuf b msg v =
     rbind (check (rv_msgbuf_cache v b = None) ''msgbuf_cache_.find(msg_buf) == msgbuf_cache_.end()'') (\<lambda>_.
       Inr (v\<lparr>rv_msgbuf_cache := (rv_msgbuf_cache v)(b \<mapsto> msg)\<rparr>))"

definition GetFirstMsg :: "nat \<Rightarrow> rdma_van \<Rightarrow> rmsg res" where
  "GetFirstMsg b v = (case rv_msgbuf_cache v b of
       None \<Rightarrow> Inl (Check_Failed ''msgbuf_cache_.find(msg_buf) != msgbuf_cache_.end()'') | Some m \<Rightarrow> Inr m)"

definition ReleaseFirstMsg :: "nat \<Rightarrow> rdma_van \<Rightarrow> rdma_van res" where
  "ReleaseFirstMsg b v = rbind (GetFirstMsg b v) (\<lambda>_. Inr (v\<lparr>rv_msgbuf_cache := (rv_msgbuf_cache v)(b := None)\<rparr>))"

definition StoreRemoteAndLocalInfo :: "nat \<Rightarrow> nat \<Rightarrow> nat \<Rightarrow> nat \<Rightarrow> rdma_van \<Rightarrow> rdma_van res" where
  "StoreRemoteAndLocalInfo b remote_addr rkey idx v =
     rbind (GetFirstMsg b v) (\<lambda>msg.
       let m = rm_meta msg in Inr (set_addr (me_push m) (me_key m) (me_recver m) (remote_addr, rkey, idx, b) v))"

text \<open>\<open>operator[]\<close> inserts an empty entry where there is none.\<close>

definition GetRemoteAndLocalInfo :: "nat \<Rightarrow> bool \<Rightarrow> int \<Rightarrow> rdma_van \<Rightarrow> remote_tuple \<times> rdma_van" where
  "GetRemoteAndLocalInfo key is_push recver v =
     (case addr_map is_push v key recver of
        Some t \<Rightarrow> (t, v) | None \<Rightarrow> ((0, 0, 0, 0), set_addr is_push key recver (0, 0, 0, 0) v))"

definition pack_into :: "meta \<Rightarrow> nat \<Rightarrow> rdma_van \<Rightarrow> rdma_van res" where
  "pack_into m p v =
     rbind (PackMeta m) (\<lambda>buf. let h = rv_host v in Inr (v\<lparr>rv_host := h\<lparr>ho_mem := store_bytes (ho_mem h) p buf\<rparr>\<rparr>))"

definition PrepareNewMsgBuf :: "rdma_world \<Rightarrow> rmsg \<Rightarrow> rdma_van \<Rightarrow> (nat \<times> rdma_van) res" where
  "PrepareNewMsgBuf wd msg v =
     (let meta_len = u64_of_int (GetPackMetaLen (rm_meta msg)); b = rv_next v in
      rbind (al_Alloc (rw_hw wd) meta_len (rv_allocator v, rv_host v)) (\<lambda>(p, al, h).
        case p of None \<Rightarrow> Inl (Undefined_Behaviour ''PackMeta'')
        | Some inline_buf \<Rightarrow>
            let mb = \<lparr>mb_inline_len = meta_len, mb_inline_buf = inline_buf, mb_data = rm_data msg, mb_mrs = []\<rparr> in
            rbind (pack_into (rm_meta msg) inline_buf
                     (v\<lparr>rv_allocator := al, rv_host := h, rv_next := Suc b, rv_msgbufs := (rv_msgbufs v)(b \<mapsto> mb)\<rparr>)) (\<lambda>v1. Inr (b, v1))))"

text \<open>Only the second array that is not empty is registered.\<close>

fun RegisterMemory :: "rdma_world \<Rightarrow> nat \<Rightarrow> (nat \<times> nat) list \<Rightarrow> rdma_van \<Rightarrow> rdma_van" where
  "RegisterMemory wd sa_cnt [] v = v"
| "RegisterMemory wd sa_cnt ((p, n) # ds) v =
     (if n = 0 then RegisterMemory wd sa_cnt ds v
      else RegisterMemory wd (Suc sa_cnt) ds
        (if rv_mem_mr v p = None \<and> sa_cnt = 1
         then let (r, h) = ibv_reg_mr (rw_hw wd) p n (rv_host v) in v\<lparr>rv_host := h, rv_mem_mr := (rv_mem_mr v)(p \<mapsto> r)\<rparr>
         else v))"

definition PrepareData :: "rmsg \<Rightarrow> nat \<Rightarrow> rdma_van \<Rightarrow> rdma_van res" where
  "PrepareData msg b v =
     (if \<not> (me_push (rm_meta msg) \<and> me_request (rm_meta msg)) then Inr v
      else rbind (get_msgbuf b v) (\<lambda>mb.
        if length (mb_data mb) < 2 then Inl (Undefined_Behaviour ''msg_buf->data[1]'')
        else let (p, n) = mb_data mb ! 1 in
          if n = 0 then Inr v
          else case rv_mem_mr v p of
                 None \<Rightarrow> Inl (Check_Failed ''it != mem_mr_.end()'')
               | Some r \<Rightarrow> Inr (v\<lparr>rv_msgbufs := (rv_msgbufs v)(b \<mapsto> mb\<lparr>mb_mrs := mb_mrs mb @ [(r, n)]\<rparr>)\<rparr>)))"

definition AddMeta :: "rmsg \<Rightarrow> rdma_van \<Rightarrow> rmsg res" where
  "AddMeta msg v =
     (let m = rm_meta msg in
      rbind (if me_request m then
               (case rm_data msg of [] \<Rightarrow> Inl (Undefined_Behaviour ''msg.data[0]'')
                | (p, n) # _ \<Rightarrow> Inr (m\<lparr>me_key := DecodeKey (load_bytes (ho_mem (rv_host v)) p n)\<rparr>))
             else Inr m) (\<lambda>m1.
        if me_push m1 \<and> me_request m1 then
          rbind (check (length (rm_data msg) = 3) ''msg.data.size() == 3'') (\<lambda>_.
            let (p, n) = rm_data msg ! 1 in
            case rv_mem_mr v p of
              None \<Rightarrow> Inl (Check_Failed ''mem_mr_.find(msg.data[1].data()) != mem_mr_.end()'')
            | Some r \<Rightarrow> Inr (msg\<lparr>rm_meta := m1\<lparr>me_addr := p, me_val_len := i32 (int n), me_option := i32 (int (mr_rkey r))\<rparr>\<rparr>))
        else Inr (msg\<lparr>rm_meta := m1\<rparr>)))"

section \<open>Sending\<close>

definition get_trans :: "nat \<Rightarrow> rdma_van \<Rightarrow> transport res" where
  "get_trans e v = rbind (get_ep e v) (\<lambda>ep. case ep_trans ep of None \<Rightarrow> Inl (Check_Failed ''endpoint->GetTransport()'') | Some t \<Rightarrow> Inr t)"

text \<open>The choice of the transport's function by the kind of a data message.\<close>

definition send_data_msg :: "rdma_world \<Rightarrow> nat \<Rightarrow> rmsg \<Rightarrow> nat \<Rightarrow> remote_tuple \<Rightarrow> rdma_van \<Rightarrow> rdma_van res" where
  "send_data_msg wd e msg b t v =
     rbind (get_trans e v) (\<lambda>tr.
       let m = rm_meta msg in
       if me_push m \<and> me_request m then tr_SendPushRequest wd tr e b t v
       else if me_push m \<or> me_request m then rt_SendMeta e b t v
       else rbind (get_msgbuf b v) (\<lambda>mb.
              if length (mb_data mb) < 2 then Inl (Undefined_Behaviour ''msg_buf->data[1]'')
              else case rv_mem_mr v (fst (mb_data mb ! 1)) of
                     None \<Rightarrow> Inl (Check_Failed ''temp_mr != mem_mr_.end()'')
                   | Some r \<Rightarrow> tr_SendPullResponse wd tr e msg b t (mr_lkey r) v))"

definition first_send :: "rdma_world \<Rightarrow> nat \<Rightarrow> rmsg \<Rightarrow> bool \<Rightarrow> rdma_van \<Rightarrow> rdma_van res" where
  "first_send wd e msg with_data v =
     rbind (PrepareNewMsgBuf wd msg v) (\<lambda>(b, v1).
     rbind (StoreMsgBuf b msg v1) (\<lambda>v2.
     rbind (if with_data then PrepareData msg b v2 else Inr v2) (\<lambda>v3. SendRendezvousBegin e msg b v3)))"

definition rv_SendMsg :: "rdma_world \<Rightarrow> rmsg \<Rightarrow> rdma_van \<Rightarrow> (int \<times> rdma_van) res" where
  "rv_SendMsg wd msg v =
     (let remote_id = me_recver (rm_meta msg) in
      rbind (check (remote_id \<noteq> kEmpty) ''remote_id != Meta::kEmpty'') (\<lambda>_.
        case rv_endpoints v remote_id of
          None \<Rightarrow> Inl (Check_Failed ''endpoints_.find(remote_id) != endpoints_.end()'')
        | Some e \<Rightarrow>
            let meta_len = GetPackMetaLen (rm_meta msg);
                total_len = i32 (meta_len + me_data_size (rm_meta msg))
            in
            rbind (check (meta_len \<noteq> 0) ''meta_len'') (\<lambda>_.
            let v1 = RegisterMemory wd 0 (rm_data msg) v; data = IsValidPushpull (rm_meta msg) in
            rbind (if data then rbind (AddMeta msg v1) (\<lambda>msg1. PackWorkerTensorAddress msg1 v1) else Inr msg) (\<lambda>msg2.
            rbind (get_trans e v1) (\<lambda>_.
            let m = rm_meta msg2 in
            if \<not> data then rbind (first_send wd e msg2 False v1) (\<lambda>v2. Inr (total_len, v2))
            else if \<not> HasRemoteInfo (me_key m) (me_push m) remote_id v1
            then rbind (first_send wd e msg2 True v1) (\<lambda>v2. Inr (total_len, v2))
            else
              let (t, v2) = GetRemoteAndLocalInfo (me_key m) (me_push m) remote_id v1; b = snd (snd (snd t)) in
              rbind (get_msgbuf b v2) (\<lambda>mb.
              rbind (check (mb_inline_len mb = u64_of_int meta_len) ''msg_buf->inline_len == (size_t) meta_len'') (\<lambda>_.
              rbind (check (mb_inline_buf mb \<noteq> 0) ''msg_buf->inline_buf'') (\<lambda>_.
              let v3 = v2\<lparr>rv_msgbufs := (rv_msgbufs v2)(b \<mapsto> mb\<lparr>mb_data := rm_data msg2\<rparr>)\<rparr> in
              rbind (pack_into m (mb_inline_buf mb) v3) (\<lambda>v4.
              rbind (send_data_msg wd e msg2 b t v4) (\<lambda>v5. Inr (total_len, v5)))))))))))"

section \<open>Receiving\<close>

definition rv_RecvMsg :: "rdma_world \<Rightarrow> rdma_van \<Rightarrow> ((rmsg \<times> int) option \<times> rdma_van) res" where
  "rv_RecvMsg wd v =
     (case tsq_WaitAndPop (rv_recv_buffers v) of
        None \<Rightarrow> Inr (None, v)
      | Some ((e, bc), q) \<Rightarrow>
          let v1 = v\<lparr>rv_recv_buffers := q\<rparr> in
          rbind (get_ep e v1) (\<lambda>ep.
          rbind (UnpackMeta (load_bytes (ho_mem (rv_host v)) (bc_buffer bc) (bc_meta_len bc))
                   (Meta\<lparr>me_sender := ep_node_id ep, me_recver := nd_id (rv_my_node v)\<rparr>)) (\<lambda>m.
          let meta_len = GetPackMetaLen m; msg = \<lparr>rm_meta = m, rm_data = []\<rparr> in
          rbind (get_trans e v1) (\<lambda>tr.
            if \<not> IsValidPushpull m then Inr (Some (msg, meta_len), v1)
            else
              rbind (if me_push m \<and> me_request m then
                       rbind (tr_RecvPushRequest wd tr e msg bc (u64_of_int meta_len) v1) (\<lambda>(r, v2).
                         rbind (StoreWorkerTensorAddress (snd r) v2) (\<lambda>v3. Inr (r, v3)))
                     else if me_request m then rt_RecvPullRequest msg v1
                     else if me_push m then rt_RecvPushResponse msg bc v1
                     else rt_RecvPullResponse msg v1) (\<lambda>((n, msg1), v2).
                Inr (Some (msg1, i32 (meta_len + n)), v2))))))"

section \<open>Completions\<close>

datatype rdv_msg = Rdv_Start rdv_start | Rdv_Reply rdv_reply

text \<open>A completion: of a send, of a write, the arrival of a write with its number, of a rendezvous message, or a failure. The endpoint is the
  private data of the context.\<close>

datatype wc = Wc_Send wr_ctx | Wc_Rdma_Write | Wc_Recv_Imm wr_ctx nat | Wc_Recv wr_ctx rdv_msg | Wc_Failed

definition ReleaseWorkRequestContext :: "wr_ctx \<Rightarrow> nat \<Rightarrow> rdma_van \<Rightarrow> rdma_van res" where
  "ReleaseWorkRequestContext c e v =
     rbind (get_ep e v) (\<lambda>ep. Inr (set_ep e (case c of
         Start_Ctx i \<Rightarrow> ep\<lparr>ep_free_start_ctx := tsq_Push (ep_free_start_ctx ep) i\<rparr>
       | Reply_Ctx i \<Rightarrow> ep\<lparr>ep_free_reply_ctx := tsq_Push (ep_free_reply_ctx ep) i\<rparr>
       | Rx_Ctx i \<Rightarrow> ep\<lparr>ep_rx_posted := ep_rx_posted ep @ [i]\<rparr>) v))"

definition handle_reply :: "rdma_world \<Rightarrow> nat \<Rightarrow> rdv_reply \<Rightarrow> rdma_van \<Rightarrow> rdma_van res" where
  "handle_reply wd e resp v =
     (let b = dr_origin_addr resp in
      rbind (StoreRemoteAndLocalInfo b (dr_addr resp) (dr_rkey resp) (dr_idx resp) v) (\<lambda>v1.
      rbind (GetFirstMsg b v1) (\<lambda>msg.
      let m = rm_meta msg; (t, v2) = GetRemoteAndLocalInfo (me_key m) (me_push m) (me_recver m) v1 in
      rbind (get_trans e v2) (\<lambda>_.
      rbind (if \<not> IsValidPushpull m then RDMAWriteWithImm e b (dr_addr resp) (dr_rkey resp) (dr_idx resp) v2
             else send_data_msg wd e msg b t v2) (\<lambda>v3.
        ReleaseFirstMsg b v3)))))"

definition handle_wc :: "rdma_world \<Rightarrow> nat \<Rightarrow> wc \<Rightarrow> rdma_van \<Rightarrow> rdma_van res" where
  "handle_wc wd e w v =
     (case w of
        Wc_Failed \<Rightarrow> Inl (Check_Failed ''wc[i].status == IBV_WC_SUCCESS'')
      | Wc_Send c \<Rightarrow> ReleaseWorkRequestContext c e v
      | Wc_Rdma_Write \<Rightarrow> Inr v
      | Wc_Recv_Imm c idx \<Rightarrow>
          rbind (ap_GetAddress idx (rv_addr_pool v)) (\<lambda>bc.
            ReleaseWorkRequestContext c e (v\<lparr>rv_recv_buffers := tsq_Push (rv_recv_buffers v) (e, bc)\<rparr>))
      | Wc_Recv c r \<Rightarrow>
          rbind (case r of
                   Rdv_Start req \<Rightarrow> rbind (get_trans e v) (\<lambda>_. SendRendezvousReply wd e req v)
                 | Rdv_Reply resp \<Rightarrow> handle_reply wd e resp v) (\<lambda>v1.
            ReleaseWorkRequestContext c e v1))"

section \<open>Connections\<close>

definition new_Endpoint :: endpoint where
  "new_Endpoint = \<lparr>ep_status = IDLE, ep_node_id = kEmpty, ep_cm_id = None, ep_trans = None,
     ep_free_start_ctx = [], ep_free_reply_ctx = [], ep_rx_posted = []\<rparr>"

definition ep_Init :: "endpoint \<Rightarrow> endpoint" where
  "ep_Init ep = ep\<lparr>ep_free_start_ctx := ep_free_start_ctx ep @ [0..<kStartDepth],
     ep_free_reply_ctx := ep_free_reply_ctx ep @ [0..<kReplyDepth], ep_rx_posted := ep_rx_posted ep @ [0..<kRxDepth]\<rparr>"

definition InitContext :: "rdma_van \<Rightarrow> rdma_van" where
  "InitContext v = v\<lparr>rv_context := True, rv_allocator := MemoryAllocator\<rparr>"

definition local_transport :: "rdma_world \<Rightarrow> ps_env \<Rightarrow> int \<Rightarrow> byte list \<Rightarrow> rdma_van \<Rightarrow> (transport \<times> rdma_van) res" where
  "local_transport wd env i hostname v =
     (let is_local = (if rv_disable_ipc v then False else hostname = nd_hostname (rv_my_node v));
          v1 = v\<lparr>rv_is_local := (rv_is_local v)(i \<mapsto> is_local)\<rparr>
      in if is_local then rbind (new_IPCTransport wd env) (\<lambda>ip. Inr (IPCTransport ip, v1)) else Inr (RDMATransport, v1))"

text \<open>\<open>Connect\<close> until it waits: an endpoint for the node, connecting with a new identifier.\<close>

definition rv_Connect_begin :: "nat \<Rightarrow> node \<Rightarrow> rdma_van \<Rightarrow> rdma_van res" where
  "rv_Connect_begin cm n v =
     rbind (check (nd_id n \<noteq> kEmpty) ''node.id != node.kEmpty'') (\<lambda>_.
     rbind (check (nd_port n \<noteq> kEmpty) ''node.port != node.kEmpty'') (\<lambda>_.
     rbind (check (nd_hostname n \<noteq> []) ''node.hostname.size()'') (\<lambda>_.
       if nd_role n = nd_role (rv_my_node v) \<and> nd_id n \<noteq> nd_id (rv_my_node v) then Inr v
       else
         let e = rv_next v; eps = (case rv_endpoints v (nd_id n) of None \<Rightarrow> rv_eps v | Some old \<Rightarrow> (rv_eps v)(old := None)) in
         Inr (v\<lparr>rv_next := Suc e, rv_endpoints := (rv_endpoints v)(nd_id n \<mapsto> e),
                rv_eps := eps(e \<mapsto> new_Endpoint\<lparr>ep_status := CONNECTING, ep_node_id := nd_id n, ep_cm_id := Some cm\<rparr>)\<rparr>))))"

text \<open>What \<open>Connect\<close> does when it wakes up: it tries again, or is done.\<close>

definition rv_Connect_wake :: "rdma_world \<Rightarrow> ps_env \<Rightarrow> nat \<Rightarrow> node \<Rightarrow> rdma_van \<Rightarrow> rdma_van res" where
  "rv_Connect_wake wd env cm n v =
     (case rv_endpoints v (nd_id n) of
        None \<Rightarrow> Inl (Undefined_Behaviour ''endpoint'')
      | Some e \<Rightarrow>
          rbind (get_ep e v) (\<lambda>ep.
            if ep_status ep = CONNECTED then
              rbind (local_transport wd env (nd_id n) (nd_hostname n) v) (\<lambda>(t, v1). Inr (set_ep e (ep\<lparr>ep_trans := Some t\<rparr>) v1))
            else if ep_status ep = CONNECTING then Inr v
            else Inr (set_ep e (ep\<lparr>ep_status := CONNECTING, ep_cm_id := Some cm\<rparr>) v)))"

definition OnRejected :: "nat \<Rightarrow> nat \<Rightarrow> rdma_van \<Rightarrow> rdma_van res" where
  "OnRejected e cm v =
     rbind (get_ep e v) (\<lambda>ep.
     rbind (check (rv_endpoints v (ep_node_id ep) \<noteq> None) ''Connection not ready.'') (\<lambda>_.
     rbind (check (ep_status ep = CONNECTING) ''endpoint->status == Endpoint::CONNECTING'') (\<lambda>_.
     rbind (check (ep_cm_id ep = Some cm) ''endpoint->cm_id == id'') (\<lambda>_.
       Inr (set_ep e (ep\<lparr>ep_status := REJECTED\<rparr>) v)))))"

definition kMaxHostnameLength :: nat where "kMaxHostnameLength = 16"

text \<open>The \<open>RequestContext\<close> that travels with a connection: the id, and the host name cut to 15 characters by \<open>snprintf\<close>.\<close>

definition request_context :: "node \<Rightarrow> int \<times> byte list" where
  "request_context n = (nd_id n, take (kMaxHostnameLength - 1) (nd_hostname n))"

definition OnConnectRequest :: "rdma_world \<Rightarrow> ps_env \<Rightarrow> nat \<Rightarrow> int \<times> byte list \<Rightarrow> rdma_van \<Rightarrow> (nat \<times> rdma_van) res" where
  "OnConnectRequest wd env cm remote_ctx v =
     (let e = rv_next v; (i, hostname) = remote_ctx;
          v1 = (if rv_context v then v else InitContext v);
          ep = ep_Init (new_Endpoint\<lparr>ep_node_id := i, ep_cm_id := Some cm\<rparr>)
      in rbind (local_transport wd env i hostname v1) (\<lambda>(t, v2).
           Inr (e, v2\<lparr>rv_next := Suc e, rv_incoming := rv_incoming v2 @ [e], rv_eps := (rv_eps v2)(e \<mapsto> ep\<lparr>ep_trans := Some t\<rparr>)\<rparr>)))"

definition OnRouteResolved :: "nat \<Rightarrow> rdma_van \<Rightarrow> rdma_van res" where
  "OnRouteResolved e v =
     (let v1 = (if rv_context v then v else InitContext v) in
      rbind (get_ep e v1) (\<lambda>ep. Inr (set_ep e (ep_Init ep) v1)))"

definition OnConnected :: "nat \<Rightarrow> nat \<Rightarrow> rdma_van \<Rightarrow> rdma_van res" where
  "OnConnected e cm v =
     rbind (get_ep e v) (\<lambda>ep.
     rbind (check (ep_cm_id ep = Some cm) ''endpoint->cm_id == id'') (\<lambda>_.
       Inr (set_ep e (ep\<lparr>ep_status := CONNECTED\<rparr>) (v\<lparr>rv_cq_polling := True\<rparr>))))"

definition OnDisconnected :: "nat \<Rightarrow> rdma_van \<Rightarrow> rdma_van res" where
  "OnDisconnected e v = rbind (get_ep e v) (\<lambda>ep. Inr (set_ep e (ep\<lparr>ep_status := IDLE\<rparr>) v))"

definition rv_Start_flags :: "ps_env \<Rightarrow> rdma_van \<Rightarrow> rdma_van" where
  "rv_Start_flags env v = v\<lparr>rv_should_stop := False, rv_disable_ipc := (GetEnv env ''BYTEPS_ENABLE_IPC'' 0 = 0)\<rparr>"

definition rv_Stop_end :: "rdma_van \<Rightarrow> rdma_van" where
  "rv_Stop_end v = v\<lparr>rv_should_stop := True, rv_cq_polling := False, rv_allocator := MemoryAllocator, rv_incoming := [],
     rv_endpoints := Map.empty, rv_eps := Map.empty\<rparr>"

text \<open>\<open>bound\<close> says to which ports \<open>rdma_bind_addr\<close> can bind, \<open>rnd\<close> gives the random numbers.\<close>

fun rv_bind_loop :: "(int \<Rightarrow> bool) \<Rightarrow> (nat \<Rightarrow> int) \<Rightarrow> nat \<Rightarrow> nat \<Rightarrow> int \<Rightarrow> int" where
  "rv_bind_loop bound rnd i 0 port = (if bound port then port else - 1)"
| "rv_bind_loop bound rnd i (Suc k) port = (if bound port then port else rv_bind_loop bound rnd (Suc i) k (10000 + rnd i mod 40000))"

end
