(* ===== verification/Zmq_Van.thy ===== *)
theory Zmq_Van
  imports Van_Model "HOL-Library.AList"
begin

text \<open>
  The transport over ZeroMQ (\<open>src/src/zmq_van.h\<close>): messages become sequences of frames, an identity, the
  packed metadata and the arrays of data, and are put together again.

  Sockets are numbers, and what is sent on them is recorded as frames. The outcomes of \<open>zmq_msg_send\<close>, \<open>zmq_bind\<close> and
  \<open>zmq_connect\<close> are parameters, as is what ZeroMQ delivers for the frames it is given. Creating a context or a socket and
  setting its options succeed; closing a socket fails when it is closed already.
\<close>

section \<open>State\<close>

text \<open>A received message before unpacking.\<close>

record zmq_ctx =
  zc_sender :: int
  zc_meta :: "byte list"
  zc_data :: "byte list list"

text \<open>\<open>zv_context\<close> holds the limits on sockets and threads set on the context, \<open>zv_fresh\<close> the next socket \<open>zmq_socket\<close> returns,
  \<open>zv_sockets\<close> the identities and addresses of the sockets connected, \<open>zv_closed\<close> the sockets closed, and \<open>zv_sent\<close> the frames
  given to each socket.\<close>

record zmq_van =
  zv_my_node :: node
  zv_context :: "(int \<times> int) option"
  zv_senders :: "(int \<times> nat) list"
  zv_receiver :: nat
  zv_is_worker :: bool
  zv_recv_buffers :: "zmq_ctx list"
  zv_fresh :: nat
  zv_sockets :: "nat \<rightharpoonup> byte list option \<times> byte list"
  zv_closed :: "nat list"
  zv_recv_threads :: "nat list"
  zv_should_stop :: bool
  zv_sent :: "(nat \<times> byte list list) list"

section \<open>Identities\<close>

definition ps_id :: "int \<Rightarrow> byte list" where
  "ps_id i = [112, 115] @ to_string i"

fun id_loop :: "int \<Rightarrow> byte list \<Rightarrow> int option" where
  "id_loop i [] = Some i"
| "id_loop i (b # bs) =
     (if 48 \<le> b \<and> b \<le> 57 then id_loop (i32 (i * 10 + uint b - 48)) bs else None)"

definition GetNodeID :: "byte list \<Rightarrow> int" where
  "GetNodeID buf =
     (if length buf > 2 \<and> buf ! 0 = 112 \<and> buf ! 1 = 115
      then (case id_loop 0 (drop 2 buf) of None \<Rightarrow> kEmpty | Some i \<Rightarrow> i)
      else kEmpty)"

definition GetRoleFromId :: "int \<Rightarrow> role" where
  "GetRoleFromId i = (if i < 8 then SCHEDULER else if i mod 2 \<noteq> 0 then WORKER else SERVER)"

section \<open>Binding and connecting\<close>

text \<open>The loop of \<open>Bind\<close>: \<open>bound\<close> says for which addresses \<open>zmq_bind\<close> succeeds, \<open>rnd\<close> gives the random numbers.\<close>

fun bind_loop :: "(byte list \<Rightarrow> bool) \<Rightarrow> (nat \<Rightarrow> int) \<Rightarrow> byte list \<Rightarrow> nat \<Rightarrow> nat \<Rightarrow> int \<Rightarrow> int" where
  "bind_loop bound rnd addr i 0 port = (if bound (addr @ to_string port) then port else - 1)"
| "bind_loop bound rnd addr i (Suc k) port =
     (if bound (addr @ to_string port) then port else bind_loop bound rnd addr (Suc i) k (10000 + rnd i mod 40000))"

definition bind_address :: "ps_env \<Rightarrow> node \<Rightarrow> byte list" where
  "bind_address e n =
     (let hostname = (if GetEnv e ''DMLC_USE_KUBERNETES'' 0 > 0 \<and> nd_role n = SCHEDULER then string_bytes ''0.0.0.0''
                      else if nd_hostname n = [] then [42] else nd_hostname n) in
      if GetEnv e ''DMLC_LOCAL'' 0 \<noteq> 0 then string_bytes ''ipc:///tmp/'' else string_bytes ''tcp://'' @ hostname @ [58])"

definition zq_Bind :: "ps_env \<Rightarrow> (byte list \<Rightarrow> bool) \<Rightarrow> (nat \<Rightarrow> int) \<Rightarrow> node \<Rightarrow> nat \<Rightarrow> zmq_van \<Rightarrow> int \<times> zmq_van" where
  "zq_Bind e bound rnd n max_retry z =
     (bind_loop bound rnd (bind_address e n) 0 max_retry (nd_port n),
      z\<lparr>zv_receiver := zv_fresh z, zv_fresh := Suc (zv_fresh z), zv_is_worker := (nd_role n = WORKER),
        zv_recv_threads := zv_recv_threads z @ [zv_fresh z]\<rparr>)"

definition conn_address :: "ps_env \<Rightarrow> node \<Rightarrow> byte list" where
  "conn_address e n =
     (if GetEnv e ''DMLC_LOCAL'' 0 \<noteq> 0 then string_bytes ''ipc:///tmp/'' @ to_string (nd_port n)
      else string_bytes ''tcp://'' @ nd_hostname n @ [58] @ to_string (nd_port n))"

definition zq_Connect :: "ps_env \<Rightarrow> (byte list \<Rightarrow> bool) \<Rightarrow> node \<Rightarrow> zmq_van \<Rightarrow> zmq_van res" where
  "zq_Connect e connects n z =
     rbind (check (nd_id n \<noteq> kEmpty) ''node.id != node.kEmpty'') (\<lambda>_.
     rbind (check (nd_port n \<noteq> kEmpty) ''node.port != node.kEmpty'') (\<lambda>_.
     rbind (check (nd_hostname n \<noteq> []) ''node.hostname.size()'') (\<lambda>_.
       let old = map_of (zv_senders z) (nd_id n);
           z1 = (case old of None \<Rightarrow> z | Some s \<Rightarrow> z\<lparr>zv_closed := List.insert s (zv_closed z)\<rparr>)
       in
       if nd_role n = nd_role (zv_my_node z) \<and> nd_id n \<noteq> nd_id (zv_my_node z) then Inr z1
       else
         let sender = zv_fresh z; mine = nd_id (zv_my_node z); addr = conn_address e n;
             ident = (if mine \<noteq> kEmpty then Some (ps_id mine) else None);
             threads = (if mine \<noteq> kEmpty \<and> zv_is_worker z \<and> old = None then [sender] else [])
         in if connects addr then
              Inr (z1\<lparr>zv_fresh := Suc sender, zv_sockets := (zv_sockets z)(sender \<mapsto> (ident, addr)),
                      zv_recv_threads := zv_recv_threads z @ threads, zv_senders := AList.update (nd_id n) sender (zv_senders z)\<rparr>)
            else Inl (Fatal ''connect failed''))))"

section \<open>Starting and stopping\<close>

text \<open>\<open>Start\<close> before \<open>Van::Start\<close>, and \<open>Stop\<close> after \<open>Van::Stop\<close> and the end of the receiving threads.\<close>

definition zq_Start_context :: "ps_env \<Rightarrow> zmq_van \<Rightarrow> zmq_van" where
  "zq_Start_context e z =
     z\<lparr>zv_context := Some (GetEnv e ''BYTEPS_ZMQ_MAX_SOCKET'' 1024, GetEnv e ''BYTEPS_ZMQ_NTHREADS'' 4)\<rparr>"

definition close_socket :: "nat \<Rightarrow> zmq_van \<Rightarrow> zmq_van res" where
  "close_socket s z =
     rbind (check (s \<notin> set (zv_closed z)) ''zmq_close(socket) == 0'') (\<lambda>_. Inr (z\<lparr>zv_closed := List.insert s (zv_closed z)\<rparr>))"

definition zq_Stop_end :: "zmq_van \<Rightarrow> zmq_van res" where
  "zq_Stop_end z =
     rbind (close_socket (zv_receiver z) (z\<lparr>zv_should_stop := True\<rparr>)) (\<lambda>z1.
     rbind (rfold (\<lambda>(_, s). close_socket s) (zv_senders z) z1) (\<lambda>z2.
       Inr (z2\<lparr>zv_senders := [], zv_context := None\<rparr>)))"

section \<open>Sending\<close>

text \<open>The outcomes of \<open>zmq_msg_send\<close>: all bytes sent, interrupted, or another error.\<close>

datatype zmq_out = Sent | Interrupted | Failed

fun send_frame :: "zmq_out list \<Rightarrow> (bool \<times> zmq_out list) res" where
  "send_frame [] = Inl Out_Of_Fuel"
| "send_frame (Sent # os) = Inr (True, os)"
| "send_frame (Interrupted # os) = send_frame os"
| "send_frame (Failed # os) = Inr (False, os)"

fun send_data :: "zmq_out list \<Rightarrow> int \<Rightarrow> byte list list \<Rightarrow> (int \<times> byte list list \<times> zmq_out list) res" where
  "send_data os bytes [] = Inr (bytes, [], os)"
| "send_data os bytes (d # ds) =
     rbind (send_frame os) (\<lambda>(ok, os1).
       if ok then rbind (send_data os1 (i32 (bytes + int (length d))) ds) (\<lambda>(n, fs, os2). Inr (n, d # fs, os2))
       else Inr (- 1, [], os1))"

text \<open>\<open>ZmqSendMsg\<close>: the bytes sent or -1, and the frames.\<close>

definition ZmqSendMsg :: "zmq_out list \<Rightarrow> message \<Rightarrow> (int \<times> byte list list \<times> zmq_out list) res" where
  "ZmqSendMsg os msg =
     rbind (PackMeta (mg_meta msg)) (\<lambda>meta_buf.
     rbind (send_frame os) (\<lambda>(ok, os1).
     rbind (check ok ''zmq_strerror(errno)'') (\<lambda>_.
     rbind (send_data os1 (int (length meta_buf)) (mg_data msg)) (\<lambda>(n, fs, os2). Inr (n, meta_buf # fs, os2)))))"

definition put_frames :: "nat \<Rightarrow> byte list list \<Rightarrow> zmq_van \<Rightarrow> zmq_van" where
  "put_frames s fs z = z\<lparr>zv_sent := zv_sent z @ [(s, fs)]\<rparr>"

definition send_on :: "zmq_out list \<Rightarrow> nat \<Rightarrow> byte list list \<Rightarrow> message \<Rightarrow> zmq_van \<Rightarrow> (int \<times> zmq_van) res" where
  "send_on os s prefix msg z = rbind (ZmqSendMsg os msg) (\<lambda>(n, fs, _). Inr (n, put_frames s (prefix @ fs) z))"

definition NonWorkerSendMsg :: "zmq_out list \<Rightarrow> message \<Rightarrow> zmq_van \<Rightarrow> (int \<times> zmq_van) res" where
  "NonWorkerSendMsg os msg z =
     (let m = mg_meta msg; i = me_recver m in
      rbind (check (i \<noteq> kEmpty) ''id != Meta::kEmpty'') (\<lambda>_.
        case map_of (zv_senders z) i of
          None \<Rightarrow> Inr (- 1, z)
        | Some s \<Rightarrow>
            if me_simple_app m \<or> \<not> ctrl_empty (me_control m) \<or> GetRoleFromId i \<noteq> WORKER then send_on os s [] msg z
            else
              rbind (send_frame os) (\<lambda>(ok1, os1).
              rbind (check ok1 ''zmq_strerror(errno)'') (\<lambda>_.
              rbind (send_frame os1) (\<lambda>(ok2, os2).
              rbind (check ok2 ''zmq_strerror(errno)'') (\<lambda>_.
                send_on os2 (zv_receiver z) [ps_id i, ps_id (nd_id (zv_my_node z))] msg z))))))"

definition zq_SendMsg :: "zmq_out list \<Rightarrow> message \<Rightarrow> zmq_van \<Rightarrow> (int \<times> zmq_van) res" where
  "zq_SendMsg os msg z =
     (if \<not> zv_is_worker z then NonWorkerSendMsg os msg z
      else
        let i = me_recver (mg_meta msg) in
        rbind (check (i \<noteq> kEmpty) ''id != Meta::kEmpty'') (\<lambda>_.
          case map_of (zv_senders z) i of None \<Rightarrow> Inr (- 1, z) | Some s \<Rightarrow> send_on os s [] msg z))"

section \<open>Receiving\<close>

text \<open>One message of \<open>CallZmqRecvThread\<close>, given its frames.\<close>

definition recv_frames :: "byte list list \<Rightarrow> zmq_van \<Rightarrow> zmq_van res" where
  "recv_frames fs z =
     (case fs of
        [] \<Rightarrow> Inl Out_Of_Fuel
      | f # rest \<Rightarrow>
          rbind (check (rest \<noteq> []) ''zmq_msg_more(zmsg)'') (\<lambda>_.
            Inr (z\<lparr>zv_recv_buffers := tsq_Push (zv_recv_buffers z)
                     \<lparr>zc_sender = GetNodeID f, zc_meta = hd rest, zc_data = tl rest\<rparr>\<rparr>)))"

text \<open>\<open>RecvMsg\<close>: \<open>None\<close> while the queue is empty; otherwise the message and its bytes.\<close>

definition zq_RecvMsg :: "zmq_van \<Rightarrow> ((message \<times> int) option \<times> zmq_van) res" where
  "zq_RecvMsg z =
     (case tsq_WaitAndPop (zv_recv_buffers z) of
        None \<Rightarrow> Inr (None, z)
      | Some (c, q) \<Rightarrow>
          rbind (UnpackMeta (zc_meta c) (Meta\<lparr>me_sender := zc_sender c, me_recver := nd_id (zv_my_node z)\<rparr>)) (\<lambda>m.
            Inr (Some (\<lparr>mg_meta = m, mg_data = zc_data c\<rparr>,
                       i32 (int (length (zc_meta c)) + sum_list (map (int \<circ> length) (zc_data c)))),
                 z\<lparr>zv_recv_buffers := q\<rparr>)))"

section \<open>Identities name nodes\<close>

lemma dec_digits_ne [simp]: "dec_digits n \<noteq> []"
  by (subst dec_digits.simps) simp

lemma digit_byte: "d < 10 \<Longrightarrow> (48 :: byte) \<le> of_nat (48 + d) \<and> of_nat (48 + d) \<le> (57 :: byte) \<and> uint (of_nat (48 + d) :: byte) = 48 + int d"
proof -
  assume "d < 10"
  then have "d \<in> {0, 1, 2, 3, 4, 5, 6, 7, 8, 9}" by auto
  then show ?thesis by auto
qed

lemma id_loop_append: "id_loop i (xs @ ys) = (case id_loop i xs of None \<Rightarrow> None | Some j \<Rightarrow> id_loop j ys)"
  by (induction i xs rule: id_loop.induct) auto

lemma id_loop_digits: "n < 2 ^ 31 \<Longrightarrow> id_loop 0 (dec_digits n) = Some (int n)"
proof (induction n rule: dec_digits.induct)
  case (1 n)
  have i: "i32 (int (n div 10) * 10 + (48 + int (n mod 10)) - 48) = int n" 
  proof -
    have "int (n div 10) * 10 + int (n mod 10) = int n" by (metis div_mult_mod_eq of_nat_add of_nat_mult of_nat_numeral)
    then show ?thesis using "1.prems" by (simp add: i32_def)
  qed
  show ?case
  proof (cases "n < 10")
    case True
    then have "id_loop 0 [of_nat (48 + n)] = Some (int n)" using digit_byte [of n] by (simp add: i32_def)
    with True show ?thesis by (subst dec_digits.simps) simp
  next
    case False
    then have "id_loop 0 (dec_digits (n div 10)) = Some (int (n div 10))" using 1 by simp
    moreover have "id_loop (int (n div 10)) [of_nat (48 + n mod 10)] = Some (int n)"
      using digit_byte [of "n mod 10"] i by simp
    ultimately have "id_loop 0 (dec_digits (n div 10) @ [of_nat (48 + n mod 10)]) = Some (int n)" by (simp add: id_loop_append)
    with False show ?thesis by (subst dec_digits.simps) simp
  qed
qed

lemma GetNodeID_ps_id: "0 \<le> i \<Longrightarrow> i < 2 ^ 31 \<Longrightarrow> GetNodeID (ps_id i) = i"
  using id_loop_digits [of "nat i"] dec_digits_ne [of "nat i"]
  by (cases "dec_digits (nat i)") (auto simp: GetNodeID_def ps_id_def to_string_def)

section \<open>Sockets\<close>

text \<open>Every peer has a socket of its own which is open; \<open>Connect\<close> keeps this, and \<open>Stop\<close> relies on it.\<close>

definition zq_inv :: "zmq_van \<Rightarrow> bool" where
  "zq_inv z \<longleftrightarrow> distinct (map fst (zv_senders z)) \<and> distinct (zv_receiver z # map snd (zv_senders z))
     \<and> set (zv_receiver z # map snd (zv_senders z)) \<inter> set (zv_closed z) = {}
     \<and> (\<forall>s \<in> set (zv_receiver z # map snd (zv_senders z)) \<union> set (zv_closed z). s < zv_fresh z)"

lemma values_update:
  assumes "distinct (map fst al)" "distinct (map snd al)" "v \<notin> set (map snd al)"
  shows "distinct (map snd (AList.update k v al))"
    and "set (map snd (AList.update k v al)) = insert v (set (map snd al) - set_option (map_of al k))"
proof -
  have "distinct (map snd (AList.update k v al))
      \<and> set (map snd (AList.update k v al)) = insert v (set (map snd al) - set_option (map_of al k))"
    using assms
  proof (induction al)
    case (Cons p al)
    have "map_of al k = Some w \<Longrightarrow> w \<in> snd ` set al" for w by (force dest: map_of_SomeD)
    with Cons show ?case by (cases p; cases "fst p = k"; cases "map_of al k") auto
  qed simp
  then show "distinct (map snd (AList.update k v al))"
    "set (map snd (AList.update k v al)) = insert v (set (map snd al) - set_option (map_of al k))" by simp_all
qed

lemma zq_Connect_inv:
  assumes "zq_inv z" and "zq_Connect e connects n z = Inr z'"
    and "nd_role n = nd_role (zv_my_node z) \<and> nd_id n \<noteq> nd_id (zv_my_node z) \<Longrightarrow> map_of (zv_senders z) (nd_id n) = None"
  shows "zq_inv z'"
proof -
  have v: "zv_fresh z \<notin> set (map snd (zv_senders z))" "zv_receiver z \<noteq> zv_fresh z" "zv_fresh z \<notin> set (zv_closed z)"
    using assms(1) by (auto simp: zq_inv_def)
  have d: "distinct (map fst (zv_senders z))" "distinct (map snd (zv_senders z))" using assms(1) by (auto simp: zq_inv_def)
  note u = values_update [OF d v(1), of "nd_id n"]
  have old: "s < zv_fresh z \<and> s \<noteq> zv_receiver z" if "map_of (zv_senders z) (nd_id n) = Some s" for s
    using assms(1) map_of_SomeD [OF that] by (force simp: zq_inv_def)
  define c where "c = (case map_of (zv_senders z) (nd_id n) of None \<Rightarrow> zv_closed z | Some s \<Rightarrow> List.insert s (zv_closed z))"
  have c: "set c = set (zv_closed z) \<union> set_option (map_of (zv_senders z) (nd_id n))" by (auto simp: c_def split: option.splits)
  have w: "w < zv_fresh z \<and> w \<noteq> zv_receiver z" if "w \<in> set_option (map_of (zv_senders z) (nd_id n))" for w
    using old that by simp
  consider "z' = z" | "zv_receiver z' = zv_receiver z" "zv_closed z' = c" "zv_fresh z' = Suc (zv_fresh z)"
      "zv_senders z' = AList.update (nd_id n) (zv_fresh z) (zv_senders z)"
    using assms(2,3) by (auto simp: zq_Connect_def check_def Let_def c_def split: if_splits option.splits)
  then show ?thesis
  proof cases
    case 2
    show ?thesis unfolding zq_inv_def 2 list.set distinct.simps u(2) c
      using u(1) v w assms(1) by (auto simp: zq_inv_def distinct_update less_Suc_eq simp del: set_map elem_set)
  qed (use assms(1) in simp)
qed

lemma close_open: "s \<notin> set (zv_closed z) \<Longrightarrow> close_socket s z = Inr (z\<lparr>zv_closed := List.insert s (zv_closed z)\<rparr>)"
  by (simp add: close_socket_def check_def)

lemma close_all:
  "distinct (map snd al) \<Longrightarrow> set (map snd al) \<inter> set (zv_closed z) = {}
    \<Longrightarrow> \<exists>c. rfold (\<lambda>(_, s). close_socket s) al z = Inr (z\<lparr>zv_closed := c\<rparr>) \<and> set c = set (zv_closed z) \<union> set (map snd al)"
proof (induction al arbitrary: z)
  case (Cons p al)
  obtain i s where p: "p = (i, s)" by force
  have "\<exists>c. rfold (\<lambda>(_, s). close_socket s) al (z\<lparr>zv_closed := List.insert s (zv_closed z)\<rparr>) = Inr (z\<lparr>zv_closed := c\<rparr>)
      \<and> set c = set (List.insert s (zv_closed z)) \<union> set (map snd al)"
    using Cons.IH [of "z\<lparr>zv_closed := List.insert s (zv_closed z)\<rparr>"] Cons.prems p by auto
  then show ?case using Cons.prems p by (auto simp: close_open)
next
  case Nil
  show ?case by (rule exI [of _ "zv_closed z"]) simp
qed

lemma zq_Stop_closes_all:
  assumes "zq_inv z"
  shows "\<exists>z'. zq_Stop_end z = Inr z' \<and> zv_senders z' = [] \<and> zv_context z' = None
    \<and> set (zv_closed z') = set (zv_closed z) \<union> insert (zv_receiver z) (set (map snd (zv_senders z)))"
proof -
  let ?z = "z\<lparr>zv_should_stop := True, zv_closed := List.insert (zv_receiver z) (zv_closed z)\<rparr>"
  have "distinct (map snd (zv_senders z))" "set (map snd (zv_senders z)) \<inter> set (zv_closed ?z) = {}"
    using assms by (auto simp: zq_inv_def)
  from close_all [OF this] assms show ?thesis by (auto simp: zq_Stop_end_def close_open zq_inv_def)
qed

text \<open>A socket that is connected once the node has its id carries that id.\<close>

lemma zq_Connect_identity:
  assumes "zq_Connect e connects n z = Inr z'" and "nd_id (zv_my_node z) \<noteq> kEmpty"
    and "\<not> (nd_role n = nd_role (zv_my_node z) \<and> nd_id n \<noteq> nd_id (zv_my_node z))"
  shows "\<exists>s. map_of (zv_senders z') (nd_id n) = Some s \<and> zv_sockets z' s = Some (Some (ps_id (nd_id (zv_my_node z))), conn_address e n)"
  using assms by (auto simp: zq_Connect_def check_def Let_def update_conv split: if_splits option.splits)

text \<open>A worker that connects to a known node again gets a new socket on which nothing receives.\<close>

lemma zq_reconnect_deaf:
  assumes "zq_Connect e connects n z = Inr z'" and "map_of (zv_senders z) (nd_id n) = Some s"
  shows "zv_recv_threads z' = zv_recv_threads z \<and> s \<in> set (zv_closed z')"
  using assms by (auto simp: zq_Connect_def check_def Let_def split: if_splits)

section \<open>Messages across the network\<close>

text \<open>Outcomes that are only interruptions and successes, with enough of the latter.\<close>

definition lively :: "nat \<Rightarrow> zmq_out list \<Rightarrow> bool" where
  "lively n os \<longleftrightarrow> Failed \<notin> set os \<and> n \<le> length (filter ((=) Sent) os)"

lemma send_frame_lively: "lively (Suc n) os \<Longrightarrow> \<exists>os1. send_frame os = Inr (True, os1) \<and> lively n os1"
  by (induction os rule: send_frame.induct) (auto simp: lively_def)

lemma send_data_lively:
  "lively (length ds + k) os \<Longrightarrow> \<exists>n os1. send_data os b ds = Inr (n, ds, os1)"
proof (induction ds arbitrary: os b)
  case (Cons d ds)
  then obtain os1 where o: "send_frame os = Inr (True, os1)" "lively (length ds + k) os1"
    using send_frame_lively [of "length ds + k" os] by auto
  from Cons.IH [OF o(2), of "i32 (b + int (length d))"] obtain n os2 where
    "send_data os1 (i32 (b + int (length d))) ds = Inr (n, ds, os2)" by blast
  with o(1) show ?case by simp
qed simp

lemma ZmqSendMsg_lively:
  assumes "PackMeta (mg_meta msg) = Inr buf" and "lively (Suc (length (mg_data msg) + k)) os"
  shows "\<exists>n os1. ZmqSendMsg os msg = Inr (n, buf # mg_data msg, os1)"
proof -
  obtain os1 where o: "send_frame os = Inr (True, os1)" "lively (length (mg_data msg) + k) os1"
    using send_frame_lively [OF assms(2)] by blast
  with send_data_lively [OF o(2), of "int (length buf)"] assms(1) show ?thesis by (auto simp: ZmqSendMsg_def check_def)
qed

lemma send_on_lively:
  assumes "PackMeta (mg_meta msg) = Inr buf" and "lively (Suc (length (mg_data msg) + k)) os"
  shows "\<exists>n. send_on os s prefix msg z = Inr (n, put_frames s (prefix @ buf # mg_data msg) z)"
  using ZmqSendMsg_lively [OF assms] by (auto simp: send_on_def)

text \<open>Whether a message goes over the router socket, and the frames that are sent.\<close>

definition via_router :: "zmq_van \<Rightarrow> message \<Rightarrow> bool" where
  "via_router z msg \<longleftrightarrow> \<not> zv_is_worker z \<and> \<not> me_simple_app (mg_meta msg) \<and> ctrl_empty (me_control (mg_meta msg))
     \<and> GetRoleFromId (me_recver (mg_meta msg)) = WORKER"

lemma SendMsg_frames:
  assumes "PackMeta (mg_meta msg) = Inr buf" and "lively (3 + length (mg_data msg)) os"
    and "me_recver (mg_meta msg) \<noteq> kEmpty" and "map_of (zv_senders z) (me_recver (mg_meta msg)) = Some s"
  shows "\<exists>n. zq_SendMsg os msg z = Inr (n, if via_router z msg
      then put_frames (zv_receiver z) (ps_id (me_recver (mg_meta msg)) # ps_id (nd_id (zv_my_node z)) # buf # mg_data msg) z
      else put_frames s (buf # mg_data msg) z)"
proof (cases "via_router z msg")
  case True
  have "lively (Suc (Suc (Suc (length (mg_data msg) + 0)))) os" using assms(2) by (simp add: numeral_3_eq_3)
  then obtain os1 os2 where o: "send_frame os = Inr (True, os1)" "send_frame os1 = Inr (True, os2)" "lively (Suc (length (mg_data msg) + 0)) os2"
    using send_frame_lively by metis
  from send_on_lively [OF assms(1) o(3), of "zv_receiver z" "[ps_id (me_recver (mg_meta msg)), ps_id (nd_id (zv_my_node z))]" z]
    True o(1,2) assms(3,4) show ?thesis
    by (auto simp: zq_SendMsg_def NonWorkerSendMsg_def via_router_def Let_def check_def)
next
  case False
  have "lively (Suc (length (mg_data msg) + 2)) os" using assms(2) by (simp add: numeral_eq_Suc)
  from send_on_lively [OF assms(1) this, of s "[]" z] False assms(3,4) show ?thesis
    by (cases "zv_is_worker z") (auto simp: zq_SendMsg_def NonWorkerSendMsg_def via_router_def Let_def check_def)
qed

text \<open>Unpacking into a \<open>Meta\<close> whose sender and receiver are set keeps them.\<close>

lemma UnpackMeta_keep:
  "UnpackMeta buf (Meta\<lparr>me_sender := a, me_recver := b\<rparr>) = rbind (UnpackMeta buf Meta) (\<lambda>m. Inr (m\<lparr>me_sender := a, me_recver := b\<rparr>))"
  by (simp add: UnpackMeta_def Let_def rbind_assoc Meta_def)

definition identity :: "zmq_van \<Rightarrow> nat \<Rightarrow> byte list" where
  "identity z s = (case zv_sockets z s of Some (Some i, _) \<Rightarrow> i | _ \<Rightarrow> [])"

lemma receive_frames:
  assumes "UnpackMeta buf Meta = Inr m" and "zv_recv_buffers z = []" and "0 \<le> a" "a < 2 ^ 31" and "nd_id (zv_my_node z) = b"
  shows "\<exists>z1 z2 bytes. recv_frames (ps_id a # buf # ds) z = Inr z1
    \<and> zq_RecvMsg z1 = Inr (Some (\<lparr>mg_meta = m\<lparr>me_sender := a, me_recver := b\<rparr>, mg_data = ds\<rparr>, bytes), z2) \<and> zv_recv_buffers z2 = []"
  using assms GetNodeID_ps_id [OF assms(3,4)]
  by (simp add: recv_frames_def check_def zq_RecvMsg_def tsq_Push_def tsq_WaitAndPop_def tsq_TryPop_def UnpackMeta_keep)

text \<open>C6: A message crosses the network unchanged. A node \<open>a\<close> that sends a message to a node \<open>b\<close> over ZeroMQ, which delivers
  the frames of a message together, puts the identity of the sending socket before them at a router
  and strips the address at the sending router, makes \<open>b\<close> receive the message with its data, its
  metadata and its control information, and with \<open>a\<close> as sender and \<open>b\<close> as receiver. Interrupted system
  calls do not change this.\<close>

theorem zmq_round_trip:
  assumes "wf_meta (mg_meta msg)" and "lively (3 + length (mg_data msg)) os"
    and "me_recver (mg_meta msg) = b" and "b \<noteq> kEmpty" and "nd_id (zv_my_node zb) = b" and "zv_recv_buffers zb = []"
    and "nd_id (zv_my_node za) = a" and "0 \<le> a" "a < 2 ^ 31"
    and "map_of (zv_senders za) b = Some s" and "zv_sockets za s = Some (Some (ps_id a), addr)"
    and router: "\<forall>i fs. to_router i fs = i # fs" and dealer: "\<forall>d fs. to_dealer (d # fs) = fs"
  shows "\<exists>n za' sock frames zb1 zb2 bytes. zq_SendMsg os msg za = Inr (n, za') \<and> zv_sent za' = zv_sent za @ [(sock, frames)]
    \<and> recv_frames (if via_router za msg then to_dealer frames else to_router (identity za sock) frames) zb = Inr zb1
    \<and> zq_RecvMsg zb1 = Inr (Some (\<lparr>mg_meta = (mg_meta msg)\<lparr>me_sender := a, me_recver := b, me_control := wire_control (me_control (mg_meta msg))\<rparr>,
        mg_data = mg_data msg\<rparr>, bytes), zb2) \<and> zv_recv_buffers zb2 = []"
proof -
  let ?m = "(mg_meta msg)\<lparr>me_sender := kEmpty, me_recver := kEmpty, me_control := wire_control (me_control (mg_meta msg))\<rparr>"
  obtain buf where buf: "PackMeta (mg_meta msg) = Inr buf" "UnpackMeta buf Meta = Inr ?m"
    using unpack_pack [OF assms(1)] by blast
  have b: "me_recver (mg_meta msg) \<noteq> kEmpty" "map_of (zv_senders za) (me_recver (mg_meta msg)) = Some s" using assms by simp_all
  obtain n where n: "zq_SendMsg os msg za = Inr (n, if via_router za msg
      then put_frames (zv_receiver za) (ps_id b # ps_id a # buf # mg_data msg) za else put_frames s (buf # mg_data msg) za)"
    using SendMsg_frames [OF buf(1) assms(2) b] assms(3,7) by auto
  have id: "identity za s = ps_id a" using assms(11) by (simp add: identity_def)
  have m: "?m\<lparr>me_sender := a, me_recver := b\<rparr> = (mg_meta msg)\<lparr>me_sender := a, me_recver := b, me_control := wire_control (me_control (mg_meta msg))\<rparr>"
    by simp
  from receive_frames [OF buf(2) assms(6,8,9,5), of "mg_data msg"] obtain z1 z2 bytes where
    r: "recv_frames (ps_id a # buf # mg_data msg) zb = Inr z1"
    "zq_RecvMsg z1 = Inr (Some (\<lparr>mg_meta = ?m\<lparr>me_sender := a, me_recver := b\<rparr>, mg_data = mg_data msg\<rparr>, bytes), z2)" "zv_recv_buffers z2 = []"
    by blast
  show ?thesis
  proof (cases "via_router za msg")
    case True
    with n r dealer show ?thesis unfolding m by (auto simp: put_frames_def)
  next
    case False
    with n r router id show ?thesis unfolding m by (auto simp: put_frames_def)
  qed
qed

definition demo_zmq :: "role \<Rightarrow> int \<Rightarrow> zmq_van" where
  "demo_zmq r i = \<lparr>zv_my_node = (Node r)\<lparr>nd_id := i\<rparr>, zv_context = Some (1024, 4), zv_senders = [(9, 4)], zv_receiver = 0, zv_is_worker = (r = WORKER),
     zv_recv_buffers = [], zv_fresh = 5, zv_sockets = [4 \<mapsto> (Some (ps_id i), [])], zv_closed = [],
     zv_recv_threads = [], zv_should_stop = False, zv_sent = []\<rparr>"

definition demo_pull_answer :: message where
  "demo_pull_answer = \<lparr>mg_meta = Meta\<lparr>me_recver := 9, me_timestamp := 3, me_data_type := [UINT64, FLOAT]\<rparr>, mg_data = [[1, 0], [2]]\<rparr>"

theorem zmq_round_trip_witness:
  "\<exists>n za' sock frames zb1 zb2 bytes msg. zq_SendMsg [Interrupted, Sent, Sent, Sent, Interrupted, Sent, Sent] demo_pull_answer (demo_zmq SERVER 8) = Inr (n, za')
    \<and> zv_sent za' = [(sock, frames)] \<and> recv_frames (tl frames) (demo_zmq WORKER 9) = Inr zb1
    \<and> zq_RecvMsg zb1 = Inr (Some (msg, bytes), zb2) \<and> mg_data msg = [[1, 0], [2]] \<and> me_sender (mg_meta msg) = 8 \<and> me_timestamp (mg_meta msg) = 3"
proof -
  let ?os = "[Interrupted, Sent, Sent, Sent, Interrupted, Sent, Sent]"
  have pre: "wf_meta (mg_meta demo_pull_answer)" "lively (3 + length (mg_data demo_pull_answer)) ?os"
    "me_recver (mg_meta demo_pull_answer) = 9" "(9 :: int) \<noteq> kEmpty" "nd_id (zv_my_node (demo_zmq WORKER 9)) = 9"
    "zv_recv_buffers (demo_zmq WORKER 9) = []" "nd_id (zv_my_node (demo_zmq SERVER 8)) = 8" "(0 :: int) \<le> 8" "(8 :: int) < 2 ^ 31"
    "map_of (zv_senders (demo_zmq SERVER 8)) 9 = Some 4" "zv_sockets (demo_zmq SERVER 8) 4 = Some (Some (ps_id 8), [])"
    "\<forall>i fs. (#) i fs = i # fs" "\<forall>d fs. tl (d # fs) = fs"
    by (simp_all add: wf_meta_def demo_pull_answer_def demo_zmq_def lively_def Meta_def Control_def wf_int_def kEmpty_def)
  have "via_router (demo_zmq SERVER 8) demo_pull_answer" "zv_sent (demo_zmq SERVER 8) = []"
    by (simp_all add: via_router_def demo_zmq_def demo_pull_answer_def Meta_def Control_def ctrl_empty_def GetRoleFromId_def)
  with zmq_round_trip [OF pre] show ?thesis by (fastforce simp: demo_pull_answer_def)
qed

end
