(* ===== verification/Rdma_Rendezvous.thy ===== *)
theory Rdma_Rendezvous
  imports Rdma_Van Zmq_Van
begin

text \<open>
  What a push request and a pull response have in common over RDMA: the rendezvous for the first message of a key, the writes of a later
  one, and their arrival, through the code of both nodes. Both carry a tensor, by a write without notice, before the metadata.
\<close>

section \<open>The device\<close>

text \<open>\<open>dma h rkey addr bs\<close> is what the device of the receiver does with a write. It is a parameter; what is relied on is that a write
  into a region registered under the key stores the bytes and nothing else (\<open>dma_ok\<close>).\<close>

type_synonym dma = "host \<Rightarrow> nat \<Rightarrow> nat \<Rightarrow> byte list \<Rightarrow> host option"

definition dma_ok :: "dma \<Rightarrow> bool" where
  "dma_ok dma \<longleftrightarrow> (\<forall>h rkey addr bs r. r \<in> set (ho_regions h) \<longrightarrow> mr_rkey r = rkey \<longrightarrow> mr_addr r \<le> addr
     \<longrightarrow> addr + length bs \<le> mr_addr r + mr_len r \<longrightarrow> dma h rkey addr bs = Some (h\<lparr>ho_mem := store_bytes (ho_mem h) addr bs\<rparr>))"

lemma dma_okD:
  "dma_ok dma \<Longrightarrow> r \<in> set (ho_regions h) \<Longrightarrow> mr_rkey r = rkey \<Longrightarrow> mr_addr r \<le> addr \<Longrightarrow> addr + length bs \<le> mr_addr r + mr_len r
    \<Longrightarrow> dma h rkey addr bs = Some (h\<lparr>ho_mem := store_bytes (ho_mem h) addr bs\<rparr>)"
  unfolding dma_ok_def by blast

text \<open>What a posted work request does at the other end of the connection, where \<open>rx\<close> is the receive context it takes.\<close>

definition transfer :: "dma \<Rightarrow> rdma_world \<Rightarrow> nat \<Rightarrow> nat \<Rightarrow> mem \<Rightarrow> wr \<Rightarrow> rdma_van \<Rightarrow> rdma_van res" where
  "transfer dma wd e rx m w v =
     (let write = (\<lambda>laddr len raddr rkey. case dma (rv_host v) rkey raddr (load_bytes m laddr len) of
            None \<Rightarrow> Inl (Fatal ''remote access error'') | Some h \<Rightarrow> Inr (v\<lparr>rv_host := h\<rparr>)) in
      case w of
        Send_Start c req \<Rightarrow> handle_wc wd e (Wc_Recv (Rx_Ctx rx) (Rdv_Start req)) v
      | Send_Reply c resp \<Rightarrow> handle_wc wd e (Wc_Recv (Rx_Ctx rx) (Rdv_Reply resp)) v
      | Rdma_Write laddr len lkey raddr rkey \<Rightarrow> write laddr len raddr rkey
      | Rdma_Write_Imm b laddr len lkey raddr rkey idx \<Rightarrow>
          rbind (write laddr len raddr rkey) (\<lambda>v1. handle_wc wd e (Wc_Recv_Imm (Rx_Ctx rx) idx) v1))"

section \<open>Tensors\<close>

record tensor =
  tn_key_addr :: nat
  tn_addr :: nat
  tn_len :: nat
  tn_len_addr :: nat

definition tensor_data :: "tensor \<Rightarrow> (nat \<times> nat) list" where
  "tensor_data t = [(tn_key_addr t, 8), (tn_addr t, tn_len t), (tn_len_addr t, 4)]"

lemma wf_int_i32 [simp]: "wf_int (i32 x)"
  by (simp add: wf_int_def i32_def)

lemma le_val_8: "length bs = 8 \<Longrightarrow> le_val bs < 2 ^ 64"
  using le_val_bound [of bs] by simp

text \<open>Registering the values of a tensor, which happens once.\<close>

definition tensor_mr :: "rdma_world \<Rightarrow> tensor \<Rightarrow> rdma_van \<Rightarrow> mr" where
  "tensor_mr wd t v = (case rv_mem_mr v (tn_addr t) of Some r \<Rightarrow> r | None \<Rightarrow> fst (ibv_reg_mr (rw_hw wd) (tn_addr t) (tn_len t) (rv_host v)))"

lemma RegisterMemory_tensor:
  assumes "0 < tn_len t"
  shows "\<exists>h. RegisterMemory wd 0 (tensor_data t) v = v\<lparr>rv_host := h, rv_mem_mr := (rv_mem_mr v)(tn_addr t \<mapsto> tensor_mr wd t v)\<rparr>
    \<and> ho_mem h = ho_mem (rv_host v) \<and> ho_brk h = ho_brk (rv_host v)"
proof (cases "rv_mem_mr v (tn_addr t)")
  case None
  with assms show ?thesis by (auto simp: tensor_data_def tensor_mr_def ibv_reg_mr_def Let_def)
next
  case (Some r)
  then have "(rv_mem_mr v)(tn_addr t \<mapsto> r) = rv_mem_mr v" by auto
  with assms Some show ?thesis by (intro exI [of _ "rv_host v"]) (simp add: tensor_data_def tensor_mr_def)
qed


section \<open>The sender\<close>

text \<open>A message buffer \<open>b\<close> that holds packed metadata at \<open>p\<close>, in registered memory, for the arrays of a tensor.\<close>

definition staged :: "nat \<Rightarrow> nat \<Rightarrow> byte list \<Rightarrow> (mr \<times> nat) list \<Rightarrow> tensor \<Rightarrow> rdma_van \<Rightarrow> bool" where
  "staged b p buf mrs t v \<longleftrightarrow> rv_msgbufs v b = Some \<lparr>mb_inline_len = length buf, mb_inline_buf = p, mb_data = tensor_data t, mb_mrs = mrs\<rparr>
     \<and> al_mr (rv_allocator v) p \<noteq> None \<and> load_bytes (ho_mem (rv_host v)) p (length buf) = buf"

text \<open>An endpoint \<open>e\<close> for the network, and a heap in which pointers to come are not in use and the tensor lies.\<close>

definition over_network :: "nat \<Rightarrow> rdma_van \<Rightarrow> bool" where
  "over_network e v \<longleftrightarrow> (\<exists>ep. rv_eps v e = Some ep \<and> ep_trans ep = Some RDMATransport)"

definition sender_ready :: "rdma_world \<Rightarrow> nat \<Rightarrow> rmsg \<Rightarrow> tensor \<Rightarrow> rdma_van \<Rightarrow> bool" where
  "sender_ready wd e msg t v \<longleftrightarrow> over_network e v \<and> rv_endpoints v (me_recver (rm_meta msg)) = Some e
     \<and> (\<forall>b \<ge> rv_next v. rv_msgbuf_cache v b = None) \<and> 0 < hw_page (rw_hw wd)
     \<and> pack_meta_len (rm_meta msg) + 2 * hw_page (rw_hw wd) \<le> 2 ^ 31
     \<and> tn_addr t + tn_len t \<le> ho_brk (rv_host v) \<and> tn_key_addr t + 8 \<le> ho_brk (rv_host v)"

lemma store_bytes_outside: "a + length bs \<le> p \<or> p + n \<le> a \<Longrightarrow> load_bytes (store_bytes m a bs) p n = load_bytes m p n"
  by (intro load_bytes_cong) (auto simp: store_bytes_def)

lemma PrepareNewMsgBuf_ok:
  assumes "wf_meta (rm_meta msg)" and "0 < hw_page (rw_hw wd)" and "pack_meta_len (rm_meta msg) + 2 * hw_page (rw_hw wd) \<le> 2 ^ 31"
  shows "\<exists>buf p al h. PackMeta (rm_meta msg) = Inr buf \<and> length buf = pack_meta_len (rm_meta msg)
    \<and> PrepareNewMsgBuf wd msg v = Inr (rv_next v, v\<lparr>rv_allocator := al, rv_host := h, rv_next := Suc (rv_next v),
        rv_msgbufs := (rv_msgbufs v)(rv_next v \<mapsto> \<lparr>mb_inline_len = length buf, mb_inline_buf = p, mb_data = rm_data msg, mb_mrs = []\<rparr>)\<rparr>)
    \<and> al_mr al p \<noteq> None \<and> ho_brk (rv_host v) \<le> p \<and> p + length buf \<le> ho_brk h \<and> load_bytes (ho_mem h) p (length buf) = buf
    \<and> (\<forall>a n. a + n \<le> ho_brk (rv_host v) \<longrightarrow> load_bytes (ho_mem h) a n = load_bytes (ho_mem (rv_host v)) a n)"
proof -
  obtain buf where buf: "PackMeta (rm_meta msg) = Inr buf" "length buf = pack_meta_len (rm_meta msg)"
    using unpack_pack [OF assms(1)] by blast
  have "0 < pack_meta_len (rm_meta msg)" by (simp add: pack_meta_len_def sizeof_RawMeta_def)
  from Alloc_ok [OF this assms(2,3), of "rv_allocator v" "rv_host v"] obtain p r h al where
    a: "al_Alloc (rw_hw wd) (pack_meta_len (rm_meta msg)) (rv_allocator v, rv_host v) = Inr (Some p, al, h)"
      "al_mr al p \<noteq> None" "ho_brk (rv_host v) \<le> p" "p + pack_meta_len (rm_meta msg) \<le> ho_brk h"
      "ho_mem h = store_bytes (ho_mem (rv_host v)) p (replicate (align_ceil (pack_meta_len (rm_meta msg)) (hw_page (rw_hw wd))) 0)"
    by fastforce
  let ?h = "h\<lparr>ho_mem := store_bytes (ho_mem h) p buf\<rparr>"
  have "load_bytes (ho_mem ?h) x n = load_bytes (ho_mem (rv_host v)) x n" if "x + n \<le> ho_brk (rv_host v)" for x n
    using that a(3) by (simp add: a(5) store_bytes_outside)
  moreover have "load_bytes (ho_mem ?h) p (length buf) = buf" by (simp add: load_store_bytes)
  moreover have "pack_meta_len (rm_meta msg) < 2 ^ 31" using assms(2,3) by linarith
  ultimately show ?thesis using buf a
    by (intro exI [of _ buf] exI [of _ p] exI [of _ al] exI [of _ ?h])
      (simp add: PrepareNewMsgBuf_def pack_into_def Let_def GetPackMetaLen_size_t)
qed


lemma get_trans_network: "over_network e v \<Longrightarrow> get_trans e v = Inr RDMATransport"
  by (auto simp: over_network_def get_trans_def get_ep_def)


lemma over_network_ep: "over_network e v \<Longrightarrow> map_option f (rv_eps v e) \<noteq> Some [] \<Longrightarrow> \<exists>ep c cs. rv_eps v e = Some ep \<and> f ep = c # cs"
  by (cases "rv_eps v e") (auto simp: over_network_def neq_Nil_conv)

text \<open>The first send for a key: its message is staged and kept, and a rendezvous starts. A push request refers to the region of the tensor.\<close>

definition mrs_of :: "rmsg \<Rightarrow> mr \<Rightarrow> tensor \<Rightarrow> (mr \<times> nat) list" where
  "mrs_of msg r t = (if me_push (rm_meta msg) \<and> me_request (rm_meta msg) then [(r, tn_len t)] else [])"

definition tensor_start :: "nat \<Rightarrow> nat \<Rightarrow> tensor \<Rightarrow> rdv_start" where
  "tensor_start ml b t = \<lparr>ds_meta_len = ml, ds_data_num = 3, ds_data_len = [8, tn_len t, 4], ds_origin_addr = b\<rparr>"

definition staged_send :: "nat \<Rightarrow> nat \<Rightarrow> rmsg \<Rightarrow> mr \<Rightarrow> tensor \<Rightarrow> rdma_van \<Rightarrow> rdma_van \<Rightarrow> bool" where
  "staged_send e c msg r t v v' \<longleftrightarrow> (\<exists>p buf. PackMeta (rm_meta msg) = Inr buf \<and> length buf = pack_meta_len (rm_meta msg)
    \<and> rv_sq v' = rv_sq v @ [(e, Send_Start (Start_Ctx c) (tensor_start (length buf) (rv_next v) t))]
    \<and> staged (rv_next v) p buf (mrs_of msg r t) t v' \<and> rv_msgbuf_cache v' (rv_next v) = Some msg
    \<and> ho_brk (rv_host v) \<le> p
    \<and> (\<forall>a n. a + n \<le> ho_brk (rv_host v) \<longrightarrow> load_bytes (ho_mem (rv_host v')) a n = load_bytes (ho_mem (rv_host v)) a n)
    \<and> rv_mem_mr v' (tn_addr t) = Some r \<and> rv_endpoints v' = rv_endpoints v \<and> rv_tensor_info v' = rv_tensor_info v \<and> over_network e v')"

lemma first_send_ok:
  assumes msg: "rm_data msg = tensor_data t" "wf_meta (rm_meta msg)" "0 < tn_len t" and v: "sender_ready wd e msg t v"
    and ep: "rv_eps v e = Some ep" "ep_free_start_ctx ep = c # cs" and r: "rv_mem_mr v (tn_addr t) = Some r"
  shows "\<exists>v'. first_send wd e msg True v = Inr v' \<and> staged_send e c msg r t v v'"
proof -
  let ?b = "rv_next v" and ?mb = "\<lambda>buf p mrs. \<lparr>mb_inline_len = length buf, mb_inline_buf = p, mb_data = tensor_data t, mb_mrs = mrs\<rparr>"
  from PrepareNewMsgBuf_ok [OF msg(2), of wd v] v obtain buf p al h where
    p: "PackMeta (rm_meta msg) = Inr buf" "length buf = pack_meta_len (rm_meta msg)"
      "PrepareNewMsgBuf wd msg v = Inr (?b, v\<lparr>rv_allocator := al, rv_host := h, rv_next := Suc ?b, rv_msgbufs := (rv_msgbufs v)(?b \<mapsto> ?mb buf p [])\<rparr>)"
      "al_mr al p \<noteq> None" "ho_brk (rv_host v) \<le> p" "load_bytes (ho_mem h) p (length buf) = buf"
      "\<forall>a n. a + n \<le> ho_brk (rv_host v) \<longrightarrow> load_bytes (ho_mem h) a n = load_bytes (ho_mem (rv_host v)) a n"
    using msg(1) by (auto simp: sender_ready_def)
  define v2 where "v2 = v\<lparr>rv_allocator := al, rv_host := h, rv_next := Suc ?b, rv_msgbufs := (rv_msgbufs v)(?b \<mapsto> ?mb buf p [])\<rparr>"
  define v3 where "v3 = v2\<lparr>rv_msgbuf_cache := (rv_msgbuf_cache v2)(?b \<mapsto> msg)\<rparr>"
  have s: "StoreMsgBuf ?b msg v2 = Inr v3" using v by (simp add: StoreMsgBuf_def v2_def v3_def sender_ready_def)
  define v4 where "v4 = v3\<lparr>rv_msgbufs := (rv_msgbufs v3)(?b \<mapsto> ?mb buf p (mrs_of msg r t))\<rparr>"
  have d: "PrepareData msg ?b v3 = Inr v4" using msg r
    by (simp add: PrepareData_def get_msgbuf_def v4_def v3_def v2_def tensor_data_def mrs_of_def)
  define v' where "v' = post_send e (Send_Start (Start_Ctx c) (tensor_start (length buf) ?b t)) (set_ep e (ep\<lparr>ep_free_start_ctx := cs\<rparr>) v4)"
  have "SendRendezvousBegin e msg ?b v4 = Inr v'"
    using ep msg(1) by (simp add: SendRendezvousBegin_def get_ep_def get_msgbuf_def v'_def v4_def v3_def v2_def tsq_WaitAndPop_def tensor_start_def
        kMaxDataFields_def tensor_data_def Let_def numeral_3_eq_3)
  then have "first_send wd e msg True v = Inr v'" by (simp add: first_send_def p(3) v2_def [symmetric] s d)
  moreover have "staged ?b p buf (mrs_of msg r t) t v'" "over_network e v'" "rv_msgbuf_cache v' ?b = Some msg" "ho_mem (rv_host v') = ho_mem h"
      "rv_mem_mr v' (tn_addr t) = Some r" "rv_endpoints v' = rv_endpoints v" "rv_tensor_info v' = rv_tensor_info v"
    using p v ep r by (simp_all add: staged_def v'_def post_send_def set_ep_def v4_def v3_def v2_def over_network_def sender_ready_def)
  moreover have "rv_sq v' = rv_sq v @ [(e, Send_Start (Start_Ctx c) (tensor_start (length buf) ?b t))]"
    by (simp add: v'_def post_send_def set_ep_def v4_def v3_def v2_def)
  ultimately show ?thesis using p unfolding staged_send_def by metis
qed


lemma first_message:
  assumes msg: "rm_data msg = tensor_data t" "0 < tn_len t" "me_recver (rm_meta msg) \<noteq> kEmpty" "IsValidPushpull (rm_meta msg)"
    and v: "sender_ready wd e msg t v" and ep: "rv_eps v e = Some ep" "ep_free_start_ctx ep = c # cs" and r: "r = tensor_mr wd t v"
    and prep: "\<forall>h. ho_mem h = ho_mem (rv_host v) \<longrightarrow> (let v1 = v\<lparr>rv_host := h, rv_mem_mr := (rv_mem_mr v)(tn_addr t \<mapsto> r)\<rparr> in
        rbind (AddMeta msg v1) (\<lambda>m1. PackWorkerTensorAddress m1 v1) = Inr msg')"
    and msg': "rm_data msg' = tensor_data t" "wf_meta (rm_meta msg')" "me_recver (rm_meta msg') = me_recver (rm_meta msg)"
      "pack_meta_len (rm_meta msg') = pack_meta_len (rm_meta msg)"
    and new: "addr_map (me_push (rm_meta msg')) v (me_key (rm_meta msg')) (me_recver (rm_meta msg)) = None"
  shows "\<exists>n v'. rv_SendMsg wd msg v = Inr (n, v') \<and> staged_send e c msg' r t v v'"
proof -
  from RegisterMemory_tensor [OF msg(2), of wd v] obtain h where
    R: "RegisterMemory wd 0 (tensor_data t) v = v\<lparr>rv_host := h, rv_mem_mr := (rv_mem_mr v)(tn_addr t \<mapsto> r)\<rparr>"
      "ho_mem h = ho_mem (rv_host v)" "ho_brk h = ho_brk (rv_host v)" unfolding r by blast
  define v1 where "v1 = v\<lparr>rv_host := h, rv_mem_mr := (rv_mem_mr v)(tn_addr t \<mapsto> r)\<rparr>"
  have w: "sender_ready wd e msg' t v1" "rv_eps v1 e = Some ep" "rv_mem_mr v1 (tn_addr t) = Some r"
    using v ep msg'(3,4) by (simp_all add: sender_ready_def over_network_def v1_def R(2,3))
  have A: "rbind (AddMeta msg v1) (\<lambda>m1. PackWorkerTensorAddress m1 v1) = Inr msg'" using prep R(2) by (simp add: v1_def Let_def)
  have "get_trans e v1 = Inr RDMATransport" using w(1) by (simp add: get_trans_network sender_ready_def)
  moreover from first_send_ok [OF msg'(1,2) msg(2) w(1,2) ep(2) w(3)] obtain v' where
    f: "first_send wd e msg' True v1 = Inr v'" "staged_send e c msg' r t v1 v'" by auto
  moreover have "\<not> HasRemoteInfo (me_key (rm_meta msg')) (me_push (rm_meta msg')) (me_recver (rm_meta msg)) v1"
    using new by (auto simp: HasRemoteInfo_def addr_map_def v1_def split: if_splits)
  moreover have "pack_meta_len (rm_meta msg) \<noteq> 0" by (simp add: pack_meta_len_def sizeof_RawMeta_def)
  moreover have "GetPackMetaLen (rm_meta msg) = int (pack_meta_len (rm_meta msg))"
    using v by (intro GetPackMetaLen_small) (auto simp: sender_ready_def)
  ultimately have "rv_SendMsg wd msg v = Inr (i32 (int (pack_meta_len (rm_meta msg)) + me_data_size (rm_meta msg)), v')"
    using v msg A by (simp add: rv_SendMsg_def sender_ready_def R(1) [folded v1_def])
  with f(2) show ?thesis by (auto simp: staged_send_def v1_def R(2,3))
qed

section \<open>The rendezvous\<close>

text \<open>The receiver has a buffer under the number \<open>idx\<close>, with room for metadata of \<open>ml\<close> bytes and, at a server, for the values of the tensor on the
  pages after it.\<close>

definition slot :: "nat \<Rightarrow> nat \<Rightarrow> nat \<Rightarrow> nat \<Rightarrow> nat \<Rightarrow> tensor \<Rightarrow> rdma_van \<Rightarrow> bool" where
  "slot idx buffer rkey ml room t s \<longleftrightarrow> pool_ok (rv_addr_pool s) \<and> ml \<le> room \<and> buffer + room \<le> ho_brk (rv_host s)
     \<and> pool_objects (rv_addr_pool s) idx = Some \<lparr>bc_buffer = buffer, bc_meta_len = ml, bc_data_num = 3, bc_data_len = [8, tn_len t, 4]\<rparr>
     \<and> (\<exists>r \<in> set (ho_regions (rv_host s)). mr_rkey r = rkey \<and> mr_addr r = buffer \<and> room \<le> mr_len r)"

definition reply_room :: "rdma_world \<Rightarrow> bool \<Rightarrow> nat \<Rightarrow> tensor \<Rightarrow> nat" where
  "reply_room wd server ml t = (if server then align_ceil ml (hw_page (rw_hw wd)) + tn_len t else ml)"

definition receiver_ready :: "rdma_world \<Rightarrow> nat \<Rightarrow> nat \<Rightarrow> tensor \<Rightarrow> rdma_van \<Rightarrow> bool" where
  "receiver_ready wd e ml t s \<longleftrightarrow> over_network e s \<and> pool_ok (rv_addr_pool s) \<and> ap_indices (rv_addr_pool s) \<noteq> []
     \<and> 0 < hw_page (rw_hw wd) \<and> 0 < ml \<and> ml + tn_len t + 12 + 3 * hw_page (rw_hw wd) \<le> 2 ^ 31
     \<and> ho_brk (rv_host s) + 2 ^ 32 \<le> 2 ^ 64"

lemma receiver_align:
  assumes "receiver_ready wd e ml t s"
  shows "ml \<le> align_ceil ml (hw_page (rw_hw wd))" "align_ceil ml (hw_page (rw_hw wd)) < ml + hw_page (rw_hw wd)"
proof -
  let ?page = "hw_page (rw_hw wd)"
  have pg: "0 < ?page" "ml + tn_len t + 12 + 3 * ?page \<le> 2 ^ 31" using assms by (simp_all add: receiver_ready_def)
  then have "align_ceil ml ?page = (ml + ?page - 1) div ?page * ?page" by (intro align_ceil_eq) simp_all
  with round_up_bounds [OF pg(1), of ml] show "ml \<le> align_ceil ml ?page" "align_ceil ml ?page < ml + ?page" by simp_all
qed

lemma release_rx:
  "rv_eps v e = Some ep \<Longrightarrow> ReleaseWorkRequestContext (Rx_Ctx rx) e v = Inr (set_ep e (ep\<lparr>ep_rx_posted := ep_rx_posted ep @ [rx]\<rparr>) v)"
  by (simp add: ReleaseWorkRequestContext_def get_ep_def)

text \<open>The answer of the receiver.\<close>

definition answered :: "rdma_world \<Rightarrow> nat \<Rightarrow> nat \<Rightarrow> nat \<Rightarrow> nat \<Rightarrow> tensor \<Rightarrow> nat \<Rightarrow> nat \<Rightarrow> nat \<Rightarrow> rdma_van \<Rightarrow> rdma_van \<Rightarrow> bool" where
  "answered wd e c b ml t buffer rkey idx s s' \<longleftrightarrow>
     rv_sq s' = rv_sq s @ [(e, Send_Reply (Reply_Ctx c) \<lparr>dr_addr = buffer, dr_origin_addr = b, dr_rkey = rkey, dr_idx = idx\<rparr>)]
    \<and> slot idx buffer rkey ml (reply_room wd (rv_is_server s) ml t) t s' \<and> over_network e s'
    \<and> ho_brk (rv_host s) \<le> buffer \<and> buffer + 2 ^ 31 \<le> 2 ^ 64 \<and> set (ho_regions (rv_host s)) \<subseteq> set (ho_regions (rv_host s'))
    \<and> rv_recv_buffers s' = rv_recv_buffers s \<and> rv_tensor_info s' = rv_tensor_info s \<and> rv_my_node s' = rv_my_node s
    \<and> map_option ep_node_id (rv_eps s' e) = map_option ep_node_id (rv_eps s e)"

lemma rendezvous_reply:
  assumes s: "receiver_ready wd e ml t s" and ep: "rv_eps s e = Some ep" "ep_free_reply_ctx ep = c # cs"
  shows "\<exists>s' buffer rkey idx. handle_wc wd e (Wc_Recv (Rx_Ctx rx) (Rdv_Start (tensor_start ml b t))) s = Inr s' \<and> answered wd e c b ml t buffer rkey idx s s'"
proof -
  let ?page = "hw_page (rw_hw wd)"
  let ?a = "align_ceil ml ?page" and ?ctx = "\<lambda>p. \<lparr>bc_buffer = p, bc_meta_len = ml, bc_data_num = 3, bc_data_len = [8, tn_len t, 4]\<rparr>"
  have pg: "0 < ?page" "ml + tn_len t + 12 + 3 * ?page \<le> 2 ^ 31" "0 < ml" "ho_brk (rv_host s) + 2 ^ 32 \<le> 2 ^ 64"
    using s by (simp_all add: receiver_ready_def)
  note ab = receiver_align [OF s]
  let ?sz = "if rv_is_server s then ?a + (12 + tn_len t) else ml"
  have sz: "(if rv_is_server s then u64 (?a + fold (\<lambda>n acc. u64 (acc + n)) [8, tn_len t, 4] 0) else ml) = ?sz" using pg ab by (simp add: cast_simps)
  have "0 < ?sz" "?sz + 2 * ?page \<le> 2 ^ 31" using pg ab by simp_all
  from Alloc_ok [OF this(1) pg(1) this(2), of "rv_allocator s" "rv_host s"] obtain p al h r where
    al: "al_Alloc (rw_hw wd) ?sz (rv_allocator s, rv_host s) = Inr (Some p, al, h)" "al_mr al p = Some r" "mr_addr r = p" "?sz \<le> mr_len r"
      "p < ho_brk (rv_host s) + ?page" "ho_brk h = p + mr_len r" "ho_regions h = ho_regions (rv_host s) @ [r]" "ho_brk (rv_host s) \<le> p" by fastforce
  obtain i q where q: "ap_StoreAddress (?ctx p) (rv_addr_pool s) = Inr (i, q)" "pool_ok q" "pool_objects q i = Some (?ctx p)"
    using addr_pool.store_free [of "rv_addr_pool s" "?ctx p"] s by (auto simp: receiver_ready_def)
  define s1 where "s1 = post_send e (Send_Reply (Reply_Ctx c) \<lparr>dr_addr = p, dr_origin_addr = b, dr_rkey = mr_rkey r, dr_idx = i\<rparr>)
      (set_ep e (ep\<lparr>ep_free_reply_ctx := cs\<rparr>) (s\<lparr>rv_allocator := al, rv_host := h, rv_addr_pool := q\<rparr>))"
  have "SendRendezvousReply wd e (tensor_start ml b t) s = Inr s1"
    using s ep unfolding SendRendezvousReply_def tensor_start_def rdv_start.simps Let_def sz receiver_ready_def
    by (simp add: al(1,2) get_ep_def tsq_WaitAndPop_def RemoteKey_def Addr2MR_def q(1) s1_def kMaxDataFields_def)
  moreover have "get_trans e s = Inr RDMATransport" using s by (simp add: receiver_ready_def get_trans_network)
  moreover have "rv_eps s1 e = Some (ep\<lparr>ep_free_reply_ctx := cs\<rparr>)" by (simp add: s1_def post_send_def set_ep_def)
  moreover define ep' where "ep' = ep\<lparr>ep_free_reply_ctx := cs, ep_rx_posted := ep_rx_posted ep @ [rx]\<rparr>"
  ultimately have s': "handle_wc wd e (Wc_Recv (Rx_Ctx rx) (Rdv_Start (tensor_start ml b t))) s = Inr (set_ep e ep' s1)"
    by (simp add: handle_wc_def release_rx)
  have ep': "ep_trans ep' = ep_trans ep" "ep_node_id ep' = ep_node_id ep" by (simp_all add: ep'_def)
  have "slot i p (mr_rkey r) ml (reply_room wd (rv_is_server s) ml t) t (set_ep e ep' s1)"
    using al q ab by (cases "rv_is_server s") (simp_all add: slot_def s1_def set_ep_def post_send_def reply_room_def)
  moreover have "p + 2 ^ 31 \<le> 2 ^ 64" using al(5) pg(2,4) by simp
  ultimately have "answered wd e c b ml t p (mr_rkey r) i s (set_ep e ep' s1)"
    using ep' s ep(1) al(7,8) by (auto simp: answered_def s1_def set_ep_def post_send_def over_network_def receiver_ready_def)
  with s' show ?thesis by blast
qed

text \<open>The sender on the answer: it remembers the buffer, sends the message and drops the copy. \<open>posts\<close> says what sending does.\<close>

definition posts :: "rdma_world \<Rightarrow> nat \<Rightarrow> rmsg \<Rightarrow> nat \<Rightarrow> nat \<Rightarrow> byte list \<Rightarrow> mr \<Rightarrow> tensor \<Rightarrow> remote_tuple \<Rightarrow> (nat \<Rightarrow> (nat \<times> wr) list) \<Rightarrow> bool" where
  "posts wd e msg b p buf r t tup ws \<longleftrightarrow> (\<forall>v. staged b p buf (mrs_of msg r t) t v \<longrightarrow> over_network e v \<longrightarrow> rv_mem_mr v (tn_addr t) = Some r
     \<longrightarrow> (\<exists>lkey. send_data_msg wd e msg b tup v = Inr (v\<lparr>rv_sq := rv_sq v @ ws lkey\<rparr>)))"

definition same_links :: "rdma_van \<Rightarrow> rdma_van \<Rightarrow> bool" where
  "same_links v v' \<longleftrightarrow> rv_mem_mr v' = rv_mem_mr v \<and> rv_endpoints v' = rv_endpoints v \<and> rv_tensor_info v' = rv_tensor_info v"

lemma reply_data:
  assumes msg: "IsValidPushpull (rm_meta msg)" and st: "staged b p buf (mrs_of msg r t) t v" "rv_msgbuf_cache v b = Some msg" "over_network e v"
      "rv_mem_mr v (tn_addr t) = Some r"
    and ws: "posts wd e msg b p buf r t (raddr, rkey, idx, b) ws"
  shows "\<exists>v' lkey. handle_wc wd e (Wc_Recv (Rx_Ctx rx) (Rdv_Reply \<lparr>dr_addr = raddr, dr_origin_addr = b, dr_rkey = rkey, dr_idx = idx\<rparr>)) v = Inr v'
    \<and> rv_sq v' = rv_sq v @ ws lkey \<and> staged b p buf (mrs_of msg r t) t v' \<and> over_network e v' \<and> same_links v v' \<and> rv_host v' = rv_host v
    \<and> addr_map (me_push (rm_meta msg)) v' (me_key (rm_meta msg)) (me_recver (rm_meta msg)) = Some (raddr, rkey, idx, b)"
proof -
  let ?m = "rm_meta msg" and ?t = "(raddr, rkey, idx, b)"
  define v1 where "v1 = set_addr (me_push ?m) (me_key ?m) (me_recver ?m) ?t v"
  have v1: "StoreRemoteAndLocalInfo b raddr rkey idx v = Inr v1" "GetFirstMsg b v1 = Inr msg"
    "GetRemoteAndLocalInfo (me_key ?m) (me_push ?m) (me_recver ?m) v1 = (?t, v1)" "staged b p buf (mrs_of msg r t) t v1" "over_network e v1"
    "rv_mem_mr v1 (tn_addr t) = Some r"
    using st by (simp_all add: StoreRemoteAndLocalInfo_def GetFirstMsg_def v1_def set_addr_def GetRemoteAndLocalInfo_def addr_map_def Let_def
        staged_def over_network_def)
  from ws v1(4-6) obtain lkey where w: "send_data_msg wd e msg b ?t v1 = Inr (v1\<lparr>rv_sq := rv_sq v1 @ ws lkey\<rparr>)" unfolding posts_def by blast
  define v2 where "v2 = v1\<lparr>rv_sq := rv_sq v1 @ ws lkey\<rparr>"
  define v3 where "v3 = v2\<lparr>rv_msgbuf_cache := (rv_msgbuf_cache v2)(b := None)\<rparr>"
  have "GetFirstMsg b v2 = Inr msg" using st(2) by (simp add: GetFirstMsg_def v2_def v1_def set_addr_def)
  then have h: "handle_reply wd e \<lparr>dr_addr = raddr, dr_origin_addr = b, dr_rkey = rkey, dr_idx = idx\<rparr> v = Inr v3"
    using msg v1 by (simp add: handle_reply_def get_trans_network w [folded v2_def] ReleaseFirstMsg_def v3_def)
  obtain ep where ep: "rv_eps v3 e = Some ep" "ep_trans ep = Some RDMATransport"
    using st(3) by (auto simp: over_network_def v3_def v2_def v1_def set_addr_def)
  let ?v = "set_ep e (ep\<lparr>ep_rx_posted := ep_rx_posted ep @ [rx]\<rparr>) v3"
  have "handle_wc wd e (Wc_Recv (Rx_Ctx rx) (Rdv_Reply \<lparr>dr_addr = raddr, dr_origin_addr = b, dr_rkey = rkey, dr_idx = idx\<rparr>)) v = Inr ?v"
    by (simp add: handle_wc_def h release_rx [OF ep(1)])
  moreover have "rv_sq ?v = rv_sq v @ ws lkey" "staged b p buf (mrs_of msg r t) t ?v" "over_network e ?v" "same_links v ?v"
    "addr_map (me_push ?m) ?v (me_key ?m) (me_recver ?m) = Some ?t" "rv_host ?v = rv_host v"
    using st(1) ep by (simp_all add: set_ep_def v3_def v2_def v1_def set_addr_def staged_def over_network_def same_links_def addr_map_def)
  ultimately show ?thesis by blast
qed


section \<open>A later message\<close>

text \<open>What the sender keeps for a key and receiver: the remote buffer, the message buffer and the region of the values.\<close>

definition sender_link :: "nat \<Rightarrow> bool \<Rightarrow> nat \<Rightarrow> int \<Rightarrow> nat \<Rightarrow> tensor \<Rightarrow> (mr \<times> nat) list \<Rightarrow> mr \<Rightarrow> nat \<Rightarrow> nat \<Rightarrow> nat \<Rightarrow> nat \<Rightarrow> nat \<Rightarrow> rdma_van \<Rightarrow> bool" where
  "sender_link e push key n ml t mrs r b p raddr rkey idx v \<longleftrightarrow> over_network e v \<and> rv_endpoints v n = Some e \<and> rv_mem_mr v (tn_addr t) = Some r
     \<and> tn_addr t + tn_len t \<le> p \<and> addr_map push v key n = Some (raddr, rkey, idx, b) \<and> (\<exists>buf. staged b p buf mrs t v \<and> length buf = ml)"

lemma later_send:
  assumes msg: "rm_data msg = tensor_data t" "IsValidPushpull (rm_meta msg)" "0 < tn_len t" "me_recver (rm_meta msg) = n" "n \<noteq> kEmpty"
      "pack_meta_len (rm_meta msg) = ml" "ml < 2 ^ 31"
    and prep: "rbind (AddMeta msg v) (\<lambda>m1. PackWorkerTensorAddress m1 v) = Inr msg'" "rm_data msg' = tensor_data t"
      "PackMeta (rm_meta msg') = Inr buf" "length buf = ml"
    and v: "sender_link e (me_push (rm_meta msg')) (me_key (rm_meta msg')) n ml t (mrs_of msg' r t) r b p raddr rkey idx v"
    and ws: "posts wd e msg' b p buf r t (raddr, rkey, idx, b) ws"
  shows "\<exists>k v' lkey. rv_SendMsg wd msg v = Inr (k, v') \<and> rv_sq v' = rv_sq v @ ws lkey \<and> load_bytes (ho_mem (rv_host v')) p (length buf) = buf
    \<and> sender_link e (me_push (rm_meta msg')) (me_key (rm_meta msg')) n ml t (mrs_of msg' r t) r b p raddr rkey idx v' \<and> same_links v v'
    \<and> (\<forall>a k. a + k \<le> p \<longrightarrow> load_bytes (ho_mem (rv_host v')) a k = load_bytes (ho_mem (rv_host v)) a k)"
proof -
  let ?M = "ho_mem (rv_host v)" and ?t = "(raddr, rkey, idx, b)" and ?m = "rm_meta msg'"
  have l: "over_network e v" "rv_endpoints v n = Some e" "rv_mem_mr v (tn_addr t) = Some r" "tn_addr t + tn_len t \<le> p"
    "addr_map (me_push ?m) v (me_key ?m) n = Some ?t" using v by (simp_all add: sender_link_def)
  obtain buf0 where buf0: "staged b p buf0 (mrs_of msg' r t) t v" "length buf0 = ml" using v by (auto simp: sender_link_def)
  have R: "RegisterMemory wd 0 (tensor_data t) v = v" using msg(3) l(3) by (simp add: tensor_data_def)
  let ?h = "(rv_host v)\<lparr>ho_mem := store_bytes ?M p buf\<rparr>"
  let ?mb = "\<lparr>mb_inline_len = ml, mb_inline_buf = p, mb_data = tensor_data t, mb_mrs = mrs_of msg' r t\<rparr>"
  define v4 where "v4 = v\<lparr>rv_msgbufs := (rv_msgbufs v)(b \<mapsto> ?mb), rv_host := ?h\<rparr>"
  have mb: "rv_msgbufs v b = Some ?mb" using buf0 by (simp add: staged_def)
  have P: "pack_into ?m p (v\<lparr>rv_msgbufs := (rv_msgbufs v)(b \<mapsto> ?mb)\<rparr>) = Inr v4" by (simp add: pack_into_def prep(3) v4_def Let_def)
  have s4: "staged b p buf (mrs_of msg' r t) t v4" "over_network e v4" "rv_mem_mr v4 (tn_addr t) = Some r"
    using buf0 prep(4) l(1,3) by (simp_all add: staged_def v4_def load_store_bytes over_network_def)
  with ws obtain lkey where w: "send_data_msg wd e msg' b ?t v4 = Inr (v4\<lparr>rv_sq := rv_sq v4 @ ws lkey\<rparr>)" unfolding posts_def by blast
  define v5 where "v5 = v4\<lparr>rv_sq := rv_sq v4 @ ws lkey\<rparr>"
  have "HasRemoteInfo (me_key ?m) (me_push ?m) n v" "GetRemoteAndLocalInfo (me_key ?m) (me_push ?m) n v = (?t, v)"
    using l(5) by (simp_all add: HasRemoteInfo_def GetRemoteAndLocalInfo_def)
  moreover have "p \<noteq> 0" "ml \<noteq> 0" using l(4) msg(3,6) by (simp_all add: pack_meta_len_def sizeof_RawMeta_def)
  moreover have "GetPackMetaLen (rm_meta msg) = int ml" "u64_of_int (GetPackMetaLen (rm_meta msg)) = ml"
    using GetPackMetaLen_small [of "rm_meta msg"] GetPackMetaLen_size_t [of "rm_meta msg"] msg(6,7) by simp_all
  ultimately have "rv_SendMsg wd msg v = Inr (i32 (int ml + me_data_size (rm_meta msg)), v5)"
    using l(2) msg(1-6) prep(1,2) R get_trans_network [OF l(1)] P w [folded v5_def] mb
    by (simp add: rv_SendMsg_def get_msgbuf_def Let_def)
  moreover have "load_bytes (ho_mem (rv_host v5)) a k = load_bytes ?M a k" if "a + k \<le> p" for a k
    using that store_bytes_outside [of p buf a k ?M] by (simp add: v5_def v4_def)
  moreover have "sender_link e (me_push ?m) (me_key ?m) n ml t (mrs_of msg' r t) r b p raddr rkey idx v5"
    using l s4(1) prep(4) by (auto simp: sender_link_def v5_def v4_def over_network_def staged_def addr_map_def)
  moreover have "rv_sq v5 = rv_sq v @ ws lkey" "load_bytes (ho_mem (rv_host v5)) p (length buf) = buf" "same_links v v5"
    by (simp_all add: v5_def v4_def load_store_bytes same_links_def)
  ultimately show ?thesis by blast
qed

section \<open>Arrival\<close>

text \<open>The work requests that were posted between two states, and what they do at the other end.\<close>

definition posted :: "rdma_van \<Rightarrow> rdma_van \<Rightarrow> wr list" where
  "posted v v' = map snd (drop (length (rv_sq v)) (rv_sq v'))"

lemma posted_append: "rv_sq v' = rv_sq v @ ws \<Longrightarrow> posted v v' = map snd ws"
  by (simp add: posted_def)

fun transfer_all :: "dma \<Rightarrow> rdma_world \<Rightarrow> nat \<Rightarrow> nat \<Rightarrow> mem \<Rightarrow> wr list \<Rightarrow> rdma_van \<Rightarrow> rdma_van res" where
  "transfer_all dma wd e rx m [] v = Inr v"
| "transfer_all dma wd e rx m (w # ws) v = rbind (transfer dma wd e rx m w v) (transfer_all dma wd e rx m ws)"

text \<open>The values, written to \<open>ra\<close> under \<open>rk\<close>, and then the metadata with its number.\<close>

definition two_writes :: "nat \<Rightarrow> nat \<Rightarrow> nat \<Rightarrow> byte list \<Rightarrow> nat \<Rightarrow> nat \<Rightarrow> nat \<Rightarrow> nat \<Rightarrow> nat \<Rightarrow> nat \<Rightarrow> nat \<Rightarrow> nat \<Rightarrow> nat \<Rightarrow> (nat \<times> wr) list" where
  "two_writes e b p buf la len lk ra rk raddr rkey idx lkey =
     [(e, Rdma_Write la len lk ra rk), (e, Rdma_Write_Imm b p (length buf) lkey raddr rkey idx)]"

definition in_region :: "host \<Rightarrow> nat \<Rightarrow> nat \<Rightarrow> nat \<Rightarrow> bool" where
  "in_region h rkey addr n \<longleftrightarrow> (\<exists>r \<in> set (ho_regions h). mr_rkey r = rkey \<and> mr_addr r \<le> addr \<and> addr + n \<le> mr_addr r + mr_len r)"

lemma dma_region: "dma_ok dma \<Longrightarrow> in_region h rkey addr (length bs) \<Longrightarrow> dma h rkey addr bs = Some (h\<lparr>ho_mem := store_bytes (ho_mem h) addr bs\<rparr>)"
  unfolding in_region_def by (blast intro: dma_okD)

definition arrived :: "nat \<Rightarrow> nat \<Rightarrow> byte list \<Rightarrow> nat \<Rightarrow> tensor \<Rightarrow> byte list \<Rightarrow> rdma_van \<Rightarrow> rdma_van \<Rightarrow> endpoint \<Rightarrow> bool" where
  "arrived e buffer buf ra t vals s s' ep \<longleftrightarrow> (\<exists>h. s' = set_ep e ep (s\<lparr>rv_host := h, rv_recv_buffers := rv_recv_buffers s @
        [(e, \<lparr>bc_buffer = buffer, bc_meta_len = length buf, bc_data_num = 3, bc_data_len = [8, tn_len t, 4]\<rparr>)]\<rparr>)
    \<and> ep_trans ep = Some RDMATransport \<and> Some (ep_node_id ep) = map_option ep_node_id (rv_eps s e)
    \<and> ho_brk h = ho_brk (rv_host s) \<and> ho_regions h = ho_regions (rv_host s)
    \<and> load_bytes (ho_mem h) buffer (length buf) = buf \<and> load_bytes (ho_mem h) ra (tn_len t) = vals)"

lemma writes_arrive:
  assumes dma: "dma_ok dma" and sl: "slot idx buffer rkey (length buf) room t s" and e: "over_network e s"
    and reg: "in_region (rv_host s) rk ra (tn_len t)" and dis: "buffer + length buf \<le> ra \<or> ra + tn_len t \<le> buffer"
    and mem: "load_bytes m la (tn_len t) = vals" "load_bytes m p (length buf) = buf"
  shows "\<exists>s' ep. transfer_all dma wd e rx m (map snd (two_writes e' b p buf la (tn_len t) lk ra rk buffer rkey idx lkey)) s = Inr s'
    \<and> arrived e buffer buf ra t vals s s' ep"
proof -
  let ?h = "rv_host s" and ?bc = "\<lparr>bc_buffer = buffer, bc_meta_len = length buf, bc_data_num = 3, bc_data_len = [8, tn_len t, 4]\<rparr>"
  have l: "length vals = tn_len t" using mem(1) by auto
  define h1 where "h1 = ?h\<lparr>ho_mem := store_bytes (ho_mem ?h) ra vals\<rparr>"
  define h2 where "h2 = h1\<lparr>ho_mem := store_bytes (ho_mem h1) buffer buf\<rparr>"
  have d1: "dma ?h rk ra vals = Some h1" using dma_region [OF dma, of ?h rk ra vals] reg by (simp add: l h1_def)
  have "in_region h1 rkey buffer (length buf)" using sl by (auto simp: slot_def in_region_def h1_def intro: order_trans)
  then have d2: "dma h1 rkey buffer buf = Some h2" unfolding h2_def by (rule dma_region [OF dma])
  obtain ep where ep: "rv_eps s e = Some ep" "ep_trans ep = Some RDMATransport" using e by (auto simp: over_network_def)
  have q: "ap_GetAddress idx (rv_addr_pool s) = Inr ?bc"
    using sl addr_pool.get_ok [of "rv_addr_pool s" idx] by (simp add: slot_def)
  let ?ep = "ep\<lparr>ep_rx_posted := ep_rx_posted ep @ [rx]\<rparr>"
  let ?s2 = "set_ep e ?ep (s\<lparr>rv_host := h2, rv_recv_buffers := rv_recv_buffers s @ [(e, ?bc)]\<rparr>)"
  have "transfer dma wd e rx m (Rdma_Write la (tn_len t) lk ra rk) s = Inr (s\<lparr>rv_host := h1\<rparr>)"
    by (simp add: transfer_def Let_def mem(1) d1)
  moreover have "transfer dma wd e rx m (Rdma_Write_Imm b p (length buf) lkey buffer rkey idx) (s\<lparr>rv_host := h1\<rparr>) = Inr ?s2"
    using ep by (simp add: transfer_def Let_def mem(2) d2 handle_wc_def q release_rx tsq_Push_def)
  ultimately have "transfer_all dma wd e rx m (map snd (two_writes e' b p buf la (tn_len t) lk ra rk buffer rkey idx lkey)) s = Inr ?s2"
    by (simp add: two_writes_def)
  moreover have "load_bytes (ho_mem h2) buffer (length buf) = buf" "load_bytes (ho_mem h2) ra (tn_len t) = vals"
    using dis l by (simp_all add: h2_def h1_def store_bytes_outside load_store_bytes)
  moreover have "ho_brk h2 = ho_brk ?h" "ho_regions h2 = ho_regions ?h" by (simp_all add: h2_def h1_def)
  ultimately show ?thesis using ep by (intro exI [of _ ?s2] exI [of _ ?ep]) (auto simp: arrived_def intro!: exI [of _ h2])
qed


section \<open>Rounds\<close>

text \<open>\<open>RecvMsg\<close> with the contents of the arrays at that time; and a whole round: \<open>SendMsg\<close>; what it posts is done at the receiver, what the receiver
  posts then at the sender, what that posts again at the receiver; and \<open>RecvMsg\<close> there.\<close>

definition contents :: "host \<Rightarrow> rmsg \<Rightarrow> byte list list" where
  "contents h msg = map (\<lambda>(p, n). load_bytes (ho_mem h) p n) (rm_data msg)"

definition take_msg :: "rdma_world \<Rightarrow> rdma_van \<Rightarrow> ((meta \<times> byte list list) option \<times> rdma_van) res" where
  "take_msg wd s = rbind (rv_RecvMsg wd s) (\<lambda>(r, s'). Inr (map_option (\<lambda>(m, k). (rm_meta m, contents (rv_host s') m)) r, s'))"

definition message_round ::
    "dma \<Rightarrow> rdma_world \<Rightarrow> nat \<Rightarrow> nat \<Rightarrow> nat \<Rightarrow> rmsg \<Rightarrow> rdma_van \<Rightarrow> rdma_van \<Rightarrow> ((meta \<times> byte list list) option \<times> rdma_van \<times> rdma_van) res" where
  "message_round dma wd ev es rx msg v s =
     rbind (rv_SendMsg wd msg v) (\<lambda>(n, v1).
     rbind (transfer_all dma wd es rx (ho_mem (rv_host v1)) (posted v v1) s) (\<lambda>s1.
     rbind (transfer_all dma wd ev rx (ho_mem (rv_host s1)) (posted s s1) v1) (\<lambda>v2.
     rbind (transfer_all dma wd es rx (ho_mem (rv_host v2)) (posted v1 v2) s1) (\<lambda>s2.
     rbind (take_msg wd s2) (\<lambda>(r, s3). Inr (r, v2, s3))))))"

text \<open>Sending a message writes the values from \<open>la\<close> to \<open>ra\<close> and the metadata into the remote buffer.\<close>

definition writes_to :: "rdma_world \<Rightarrow> nat \<Rightarrow> rmsg \<Rightarrow> mr \<Rightarrow> tensor \<Rightarrow> nat \<Rightarrow> nat \<Rightarrow> (nat \<Rightarrow> nat) \<Rightarrow> (nat \<Rightarrow> nat) \<Rightarrow> bool" where
  "writes_to wd e msg r t la lk ra rk \<longleftrightarrow> (\<forall>b p buf raddr rkey idx. length buf = pack_meta_len (rm_meta msg) \<longrightarrow> raddr + 2 ^ 31 \<le> 2 ^ 64
     \<longrightarrow> posts wd e msg b p buf r t (raddr, rkey, idx, b) (two_writes e b p buf la (tn_len t) lk (ra raddr) (rk rkey) raddr rkey idx))"

text \<open>The place of the values is in a region of the receiver and apart from the buffer.\<close>

definition target :: "nat \<Rightarrow> nat \<Rightarrow> nat \<Rightarrow> nat \<Rightarrow> tensor \<Rightarrow> rdma_van \<Rightarrow> bool" where
  "target ra rk raddr ml t s \<longleftrightarrow> in_region (rv_host s) rk ra (tn_len t) \<and> (raddr + ml \<le> ra \<or> ra + tn_len t \<le> raddr)"

lemma arrived_sq: "arrived e buffer buf ra t vals s s' ep \<Longrightarrow> posted s s' = []"
  by (auto simp: arrived_def posted_def set_ep_def)

text \<open>A later message: the receiver posts nothing.\<close>

lemma later_round:
  assumes dma: "dma_ok dma" and send: "rv_SendMsg wd msg v = Inr (k, v1)" "rv_sq v1 = rv_sq v @ two_writes ev b p buf la (tn_len t) lk ra rk raddr rkey idx lkey"
      "load_bytes (ho_mem (rv_host v1)) la (tn_len t) = vals" "load_bytes (ho_mem (rv_host v1)) p (length buf) = buf"
    and s: "slot idx raddr rkey (length buf) room t s" "over_network es s" "target ra rk raddr (length buf) t s"
  shows "\<exists>s2 ep. message_round dma wd ev es rx msg v s = rbind (take_msg wd s2) (\<lambda>(r, s3). Inr (r, v1, s3)) \<and> arrived es raddr buf ra t vals s s2 ep"
proof -
  have t: "in_region (rv_host s) rk ra (tn_len t)" "raddr + length buf \<le> ra \<or> ra + tn_len t \<le> raddr" using s(3) by (simp_all add: target_def)
  from writes_arrive [OF dma s(1,2) t send(3,4), of wd rx ev b lk lkey] obtain s2 ep where
    a: "transfer_all dma wd es rx (ho_mem (rv_host v1)) (map snd (two_writes ev b p buf la (tn_len t) lk ra rk raddr rkey idx lkey)) s = Inr s2"
      "arrived es raddr buf ra t vals s s2 ep" by blast
  have "posted v1 v1 = []" by (simp add: posted_def)
  with a arrived_sq [OF a(2)] send(1) posted_append [OF send(2)] show ?thesis by (auto simp: message_round_def)
qed

text \<open>The first message for a key, with a rendezvous.\<close>

lemma rendezvous_round:
  assumes dma: "dma_ok dma" and send: "rv_SendMsg wd msg v = Inr (x, v1)" "staged_send ev c msg' r t v v1"
    and msg': "IsValidPushpull (rm_meta msg')" "pack_meta_len (rm_meta msg') = ml" "rv_endpoints v (me_recver (rm_meta msg')) = Some ev"
    and W: "writes_to wd ev msg' r t la lk ra rk" and la: "la + tn_len t \<le> ho_brk (rv_host v)" "tn_addr t + tn_len t \<le> ho_brk (rv_host v)"
    and s: "receiver_ready wd es ml t s" and ep: "rv_eps s es = Some ep" "ep_free_reply_ctx ep = c' # cs"
    and T: "\<forall>s1 b raddr rkey idx. answered wd es c' b ml t raddr rkey idx s s1 \<longrightarrow> target (ra raddr) (rk rkey) raddr ml t s1"
  shows "\<exists>buf b p raddr rkey idx v2 s1 s2 ep2. PackMeta (rm_meta msg') = Inr buf \<and> length buf = ml
    \<and> message_round dma wd ev es rx msg v s = rbind (take_msg wd s2) (\<lambda>(r, s3). Inr (r, v2, s3))
    \<and> arrived es raddr buf (ra raddr) t (load_bytes (ho_mem (rv_host v)) la (tn_len t)) s1 s2 ep2
    \<and> answered wd es c' b ml t raddr rkey idx s s1 \<and> ho_brk (rv_host v) \<le> p
    \<and> sender_link ev (me_push (rm_meta msg')) (me_key (rm_meta msg')) (me_recver (rm_meta msg')) ml t (mrs_of msg' r t) r b p raddr rkey idx v2
    \<and> rv_tensor_info v2 = rv_tensor_info v
    \<and> (\<forall>a n. a + n \<le> ho_brk (rv_host v) \<longrightarrow> load_bytes (ho_mem (rv_host v2)) a n = load_bytes (ho_mem (rv_host v)) a n)"
proof -
  let ?b = "rv_next v" and ?m = "rm_meta msg'"
  from send(2) obtain p buf where st: "PackMeta ?m = Inr buf" "length buf = ml" "staged ?b p buf (mrs_of msg' r t) t v1" "rv_msgbuf_cache v1 ?b = Some msg'"
    "ho_brk (rv_host v) \<le> p" "rv_mem_mr v1 (tn_addr t) = Some r" "over_network ev v1" "rv_endpoints v1 = rv_endpoints v" "rv_tensor_info v1 = rv_tensor_info v"
    "rv_sq v1 = rv_sq v @ [(ev, Send_Start (Start_Ctx c) (tensor_start ml ?b t))]"
    "\<forall>a n. a + n \<le> ho_brk (rv_host v) \<longrightarrow> load_bytes (ho_mem (rv_host v1)) a n = load_bytes (ho_mem (rv_host v)) a n"
    using msg'(2) unfolding staged_send_def by auto
  from rendezvous_reply [OF s ep, of rx ?b] obtain s1 raddr rkey idx where
    s1: "handle_wc wd es (Wc_Recv (Rx_Ctx rx) (Rdv_Start (tensor_start ml ?b t))) s = Inr s1" "answered wd es c' ?b ml t raddr rkey idx s s1" by blast
  let ?ws = "two_writes ev ?b p buf la (tn_len t) lk (ra raddr) (rk rkey) raddr rkey idx"
  have q: "rv_sq s1 = rv_sq s @ [(es, Send_Reply (Reply_Ctx c') \<lparr>dr_addr = raddr, dr_origin_addr = ?b, dr_rkey = rkey, dr_idx = idx\<rparr>)]"
    "slot idx raddr rkey (length buf) (reply_room wd (rv_is_server s) ml t) t s1" "over_network es s1" "raddr + 2 ^ 31 \<le> 2 ^ 64"
    using s1(2) by (simp_all add: answered_def st(2))
  from W q(4) st(2) msg'(2) have "posts wd ev msg' ?b p buf r t (raddr, rkey, idx, ?b) ?ws" unfolding writes_to_def by simp
  from reply_data [OF msg'(1) st(3,4,7,6) this, of rx] obtain v2 lkey where
    v2: "handle_wc wd ev (Wc_Recv (Rx_Ctx rx) (Rdv_Reply \<lparr>dr_addr = raddr, dr_origin_addr = ?b, dr_rkey = rkey, dr_idx = idx\<rparr>)) v1 = Inr v2"
      "rv_sq v2 = rv_sq v1 @ ?ws lkey" "staged ?b p buf (mrs_of msg' r t) t v2" "over_network ev v2" "same_links v1 v2" "rv_host v2 = rv_host v1"
      "addr_map (me_push ?m) v2 (me_key ?m) (me_recver ?m) = Some (raddr, rkey, idx, ?b)" by blast
  have mem: "load_bytes (ho_mem (rv_host v2)) la (tn_len t) = load_bytes (ho_mem (rv_host v)) la (tn_len t)"
    "load_bytes (ho_mem (rv_host v2)) p (length buf) = buf" using st(11) la(1) v2(3) by (simp_all add: v2(6) staged_def)
  have "target (ra raddr) (rk rkey) raddr ml t s1" using T s1(2) by blast
  then have t: "in_region (rv_host s1) (rk rkey) (ra raddr) (tn_len t)" "raddr + length buf \<le> ra raddr \<or> ra raddr + tn_len t \<le> raddr"
    by (simp_all add: target_def st(2))
  from writes_arrive [OF dma q(2,3) t mem, of wd rx ev ?b lk lkey] obtain s2 ep2 where
    a: "transfer_all dma wd es rx (ho_mem (rv_host v2)) (map snd (?ws lkey)) s1 = Inr s2"
      "arrived es raddr buf (ra raddr) t (load_bytes (ho_mem (rv_host v)) la (tn_len t)) s1 s2 ep2" by blast
  have "message_round dma wd ev es rx msg v s = rbind (take_msg wd s2) (\<lambda>(r, s3). Inr (r, v2, s3))"
    by (simp add: message_round_def send(1) posted_append [OF st(10)] posted_append [OF q(1)] posted_append [OF v2(2)] transfer_def s1(1) v2(1) a(1))
  moreover have "sender_link ev (me_push ?m) (me_key ?m) (me_recver ?m) ml t (mrs_of msg' r t) r ?b p raddr rkey idx v2"
    using v2 st msg'(3) la(2) by (auto simp: sender_link_def same_links_def)
  moreover have "rv_tensor_info v2 = rv_tensor_info v" using v2(5) st(9) by (simp add: same_links_def)
  ultimately show ?thesis using st(1,2,5,11) a(2) s1(2) v2(6) by metis
qed


section \<open>Taking a message\<close>

lemma wire_control_empty: "wire_control Control = Control"
  by (simp add: wire_control_def Control_def ctrl_empty_def)

lemma unpacked:
  assumes "wf_meta m" and "me_control m = Control" and "PackMeta m = Inr buf"
  shows "UnpackMeta buf (Meta\<lparr>me_sender := a, me_recver := b\<rparr>) = Inr (m\<lparr>me_sender := a, me_recver := b\<rparr>)"
    "pack_meta_len (m\<lparr>me_sender := a, me_recver := b\<rparr>) = length buf"
proof -
  obtain buf' where "PackMeta m = Inr buf'" "length buf' = pack_meta_len m"
    "UnpackMeta buf' Meta = Inr (m\<lparr>me_sender := kEmpty, me_recver := kEmpty, me_control := wire_control (me_control m)\<rparr>)"
    using unpack_pack [OF assms(1)] by blast
  then show "UnpackMeta buf (Meta\<lparr>me_sender := a, me_recver := b\<rparr>) = Inr (m\<lparr>me_sender := a, me_recver := b\<rparr>)"
    "pack_meta_len (m\<lparr>me_sender := a, me_recver := b\<rparr>) = length buf"
    using assms(2,3) by (simp_all add: UnpackMeta_keep wire_control_empty pack_meta_len_def)
qed

lemma kv_arrays_contents:
  assumes "rm_data msg = []" and "ra + n \<le> ho_brk (rv_host v)"
  shows "\<exists>k msg' h. kv_arrays msg (ra, n) v = ((k, msg'), v\<lparr>rv_host := h\<rparr>) \<and> rm_meta msg' = rm_meta msg
    \<and> contents h msg' = [le_bytes 8 (me_key (rm_meta msg)), load_bytes (ho_mem (rv_host v)) ra n, int_bytes (me_val_len (rm_meta msg))]
    \<and> ho_brk (rv_host v) \<le> ho_brk h \<and> ho_regions h = ho_regions (rv_host v)
    \<and> (\<forall>a k. a + k \<le> ho_brk (rv_host v) \<longrightarrow> load_bytes (ho_mem h) a k = load_bytes (ho_mem (rv_host v)) a k)"
proof -
  let ?b = "ho_brk (rv_host v)" and ?m = "rm_meta msg"
  have li: "length (int_bytes x) = 4" for x by (simp add: int_bytes_def)
  define h where "h = (rv_host v)\<lparr>ho_brk := ?b + 8 + 4,
      ho_mem := store_bytes (store_bytes (ho_mem (rv_host v)) ?b (le_bytes 8 (me_key ?m))) (?b + 8) (int_bytes (me_val_len ?m))\<rparr>"
  define ds where "ds = [(?b, 8), (ra, n), (?b + 8, 4)]"
  have "kv_arrays msg (ra, n) v = ((i32 (int (sum_list (map snd ds))), msg\<lparr>rm_data := ds\<rparr>), v\<lparr>rv_host := h\<rparr>)"
    using assms(1) by (simp add: kv_arrays_def key_array_def CreateFunctionalSarray_def malloc_def add_data_def h_def ds_def li Let_def)
  moreover have "contents h (msg\<lparr>rm_data := ds\<rparr>) = [le_bytes 8 (me_key ?m), load_bytes (ho_mem (rv_host v)) ra n, int_bytes (me_val_len ?m)]"
    using assms(2) by (simp add: contents_def ds_def h_def load_store_bytes store_bytes_outside li)
  moreover have "load_bytes (ho_mem h) a k = load_bytes (ho_mem (rv_host v)) a k" if "a + k \<le> ?b" for a k
    using that by (simp add: h_def store_bytes_outside)
  ultimately show ?thesis
    by (intro exI [of _ "i32 (int (sum_list (map snd ds)))"] exI [of _ "msg\<lparr>rm_data := ds\<rparr>"] exI [of _ h]) (simp add: h_def)
qed

end
