(* ===== verification/Rdma_Rounds.thy ===== *)
theory Rdma_Rounds
  imports Rdma_Rendezvous
begin

text \<open>
  A tensor is pushed over RDMA again and again: the rendezvous of the first push, and the pushes after it, through the code of both nodes.
\<close>

section \<open>A push request\<close>

definition push_msg :: "rmsg \<Rightarrow> tensor \<Rightarrow> bool" where
  "push_msg msg t \<longleftrightarrow> rm_data msg = tensor_data t \<and> me_push (rm_meta msg) \<and> me_request (rm_meta msg) \<and> \<not> me_simple_app (rm_meta msg)
     \<and> me_control (rm_meta msg) = Control \<and> wf_meta (rm_meta msg) \<and> me_recver (rm_meta msg) \<noteq> kEmpty
     \<and> 0 < tn_len t \<and> tn_len t < 2 ^ 31 \<and> tn_addr t < 2 ^ 64"

text \<open>The metadata that is sent: with the key, and where the values lie at the worker.\<close>

definition tensor_meta :: "byte list \<Rightarrow> mr \<Rightarrow> tensor \<Rightarrow> meta \<Rightarrow> meta" where
  "tensor_meta kbs r t me = me\<lparr>me_key := le_val kbs, me_addr := tn_addr t, me_val_len := int (tn_len t), me_option := i32 (int (mr_rkey r))\<rparr>"

lemma tensor_meta_simps [simp]:
  "me_push (tensor_meta kbs r t me) = me_push me" "me_request (tensor_meta kbs r t me) = me_request me"
  "me_recver (tensor_meta kbs r t me) = me_recver me" "me_simple_app (tensor_meta kbs r t me) = me_simple_app me"
  "me_control (tensor_meta kbs r t me) = me_control me" "pack_meta_len (tensor_meta kbs r t me) = pack_meta_len me"
  "me_data_size (tensor_meta kbs r t me) = me_data_size me" "me_key (tensor_meta kbs r t me) = le_val kbs"
  "me_val_len (tensor_meta kbs r t me) = int (tn_len t)"
  by (simp_all add: tensor_meta_def pack_meta_len_def)

abbreviation with_tensor :: "byte list \<Rightarrow> mr \<Rightarrow> tensor \<Rightarrow> rmsg \<Rightarrow> rmsg" where
  "with_tensor kbs r t msg \<equiv> msg\<lparr>rm_meta := tensor_meta kbs r t (rm_meta msg)\<rparr>"

lemma push_valid: "push_msg msg t \<Longrightarrow> IsValidPushpull (rm_meta msg)"
  by (simp add: push_msg_def IsValidPushpull_def Control_def ctrl_empty_def)

lemma push_facts:
  assumes "push_msg msg t" and "length kbs = 8"
  shows "push_msg (with_tensor kbs r t msg) t" "IsValidPushpull (tensor_meta kbs r t (rm_meta msg))"
    "\<exists>buf. PackMeta (tensor_meta kbs r t (rm_meta msg)) = Inr buf \<and> length buf = pack_meta_len (rm_meta msg)"
    "mrs_of (with_tensor kbs r t msg) r t = [(r, tn_len t)]"
proof -
  have "wf_int (int (tn_len t))" "wf_int 0" using assms(1) by (simp_all add: push_msg_def wf_int_def)
  then have w: "wf_meta (tensor_meta kbs r t (rm_meta msg))"
    using assms(1) le_val_8 [OF assms(2)] by (simp add: push_msg_def tensor_meta_def wf_meta_def Control_def)
  with assms(1) show "push_msg (with_tensor kbs r t msg) t" by (simp add: push_msg_def)
  then show "IsValidPushpull (tensor_meta kbs r t (rm_meta msg))" using push_valid [of "with_tensor kbs r t msg" t] by simp
  show "\<exists>buf. PackMeta (tensor_meta kbs r t (rm_meta msg)) = Inr buf \<and> length buf = pack_meta_len (rm_meta msg)"
    using unpack_pack [OF w] by auto
  show "mrs_of (with_tensor kbs r t msg) r t = [(r, tn_len t)]" using assms(1) by (simp add: push_msg_def mrs_of_def)
qed

lemma push_prepared:
  assumes "push_msg msg t" and "rv_mem_mr v (tn_addr t) = Some r" and "load_bytes (ho_mem (rv_host v)) (tn_key_addr t) 8 = kbs"
  shows "rbind (AddMeta msg v) (\<lambda>m1. PackWorkerTensorAddress m1 v) = Inr (with_tensor kbs r t msg)"
  using assms le_val_8 [of kbs]
  by (auto simp: AddMeta_def push_msg_def tensor_data_def tensor_meta_def DecodeKey_val check_def cast_simps i32_def PackWorkerTensorAddress_def)

text \<open>The values go to the page after the metadata.\<close>

lemma push_writes:
  assumes "push_msg msg t" and "length kbs = 8" and "align_ceil (pack_meta_len (rm_meta msg)) (hw_page (rw_hw wd)) < 2 ^ 31" and "pack_meta_len (rm_meta msg) < 2 ^ 31"
  shows "writes_to wd e (with_tensor kbs r t msg) r t (mr_addr r) (mr_lkey r)
    (\<lambda>raddr. raddr + align_ceil (pack_meta_len (rm_meta msg)) (hw_page (rw_hw wd))) (\<lambda>rkey. rkey)"
proof -
  have "\<exists>lkey. send_data_msg wd e (with_tensor kbs r t msg) b (raddr, rkey, idx, b) v = Inr (v\<lparr>rv_sq := rv_sq v @
      two_writes e b p buf (mr_addr r) (tn_len t) (mr_lkey r) (raddr + align_ceil (length buf) (hw_page (rw_hw wd))) rkey raddr rkey idx lkey\<rparr>)"
    if st: "staged b p buf [(r, tn_len t)] t v" "over_network e v" "length buf = pack_meta_len (rm_meta msg)" "raddr + 2 ^ 31 \<le> 2 ^ 64"
    for b p buf raddr rkey idx v
  proof -
    obtain l where "al_mr (rv_allocator v) p = Some l" using st(1) by (auto simp: staged_def)
    with st assms show ?thesis
      by (intro exI [of _ "mr_lkey l"]) (simp add: send_data_msg_def push_msg_def get_trans_network tr_SendPushRequest_def rt_SendPushRequest_def get_msgbuf_def
          staged_def post_send_def RDMAWriteWithImm_def LocalKey_def Addr2MR_def two_writes_def cast_simps)
  qed
  then show ?thesis unfolding writes_to_def posts_def push_facts(4) [OF assms(1,2)] by simp
qed

section \<open>The receiver\<close>

definition known_tensor :: "byte list \<Rightarrow> mr \<Rightarrow> tensor \<Rightarrow> int \<Rightarrow> rdma_van \<Rightarrow> bool" where
  "known_tensor kbs r t sender s \<longleftrightarrow> rv_tensor_info s (le_val kbs) sender \<in> {None, Some (int (tn_len t), tn_addr t, i32 (int (mr_rkey r)))}"

text \<open>What the server is handed: the metadata with what was added, its sender and itself as the receiver; and the key, the values and their length.\<close>

definition pushed :: "byte list \<Rightarrow> mr \<Rightarrow> tensor \<Rightarrow> int \<Rightarrow> int \<Rightarrow> meta \<Rightarrow> byte list \<Rightarrow> meta \<times> byte list list" where
  "pushed kbs r t sender self me vals =
     ((tensor_meta kbs r t me)\<lparr>me_sender := sender, me_recver := self\<rparr>, [kbs, vals, int_bytes (int (tn_len t))])"

lemma StoreWorker_known:
  assumes "known_tensor kbs r t sender s" and "rm_meta msg = (tensor_meta kbs r t me)\<lparr>me_sender := sender, me_recver := self\<rparr>"
  shows "StoreWorkerTensorAddress msg s = Inr (s\<lparr>rv_tensor_info := (rv_tensor_info s)(le_val kbs := (rv_tensor_info s (le_val kbs))(sender \<mapsto>
    (int (tn_len t), tn_addr t, i32 (int (mr_rkey r)))))\<rparr>)"
proof (cases "rv_tensor_info s (le_val kbs) sender")
  case None
  then show ?thesis by (simp add: StoreWorkerTensorAddress_def assms(2) Let_def) (simp add: tensor_meta_def)
next
  case (Some x)
  then have x: "rv_tensor_info s (le_val kbs) sender = Some (int (tn_len t), tn_addr t, i32 (int (mr_rkey r)))" using assms(1) by (auto simp: known_tensor_def)
  then have "(rv_tensor_info s)(le_val kbs := (rv_tensor_info s (le_val kbs))(sender \<mapsto> (int (tn_len t), tn_addr t, i32 (int (mr_rkey r))))) = rv_tensor_info s"
    by (metis fun_upd_triv)
  moreover have "StoreWorkerTensorAddress msg s = Inr s" using x by (simp add: StoreWorkerTensorAddress_def assms(2) Let_def) (simp add: tensor_meta_def)
  ultimately show ?thesis by simp
qed


definition server_link :: "rdma_world \<Rightarrow> nat \<Rightarrow> int \<Rightarrow> nat \<Rightarrow> nat \<Rightarrow> nat \<Rightarrow> nat \<Rightarrow> byte list \<Rightarrow> mr \<Rightarrow> tensor \<Rightarrow> rdma_van \<Rightarrow> bool" where
  "server_link wd e sender idx raddr rkey ml kbs r t s \<longleftrightarrow> slot idx raddr rkey ml (reply_room wd True ml t) t s \<and> over_network e s
     \<and> rv_recv_buffers s = [] \<and> map_option ep_node_id (rv_eps s e) = Some sender \<and> known_tensor kbs r t sender s"

lemma take_push:
  assumes msg: "push_msg msg t" "length kbs = 8" "PackMeta (tensor_meta kbs r t (rm_meta msg)) = Inr buf" "length buf = ml" "ml < 2 ^ 31"
    and a: "arrived e raddr buf (raddr + align_ceil ml (hw_page (rw_hw wd))) t vals s s2 ep" and s: "server_link wd e sender idx raddr rkey ml kbs r t s"
  shows "\<exists>s3. take_msg wd s2 = Inr (Some (pushed kbs r t sender (nd_id (rv_my_node s)) (rm_meta msg) vals), s3)
    \<and> server_link wd e sender idx raddr rkey ml kbs r t s3 \<and> rv_my_node s3 = rv_my_node s"
proof -
  let ?bc = "\<lparr>bc_buffer = raddr, bc_meta_len = ml, bc_data_num = 3, bc_data_len = [8, tn_len t, 4]\<rparr>" and ?self = "nd_id (rv_my_node s)"
  let ?ra = "raddr + align_ceil ml (hw_page (rw_hw wd))"
  let ?m = "(tensor_meta kbs r t (rm_meta msg))\<lparr>me_sender := sender, me_recver := ?self\<rparr>"
  have l: "slot idx raddr rkey ml (reply_room wd True ml t) t s" "rv_recv_buffers s = []" "map_option ep_node_id (rv_eps s e) = Some sender"
    "known_tensor kbs r t sender s" using s by (simp_all add: server_link_def)
  from a obtain h where h: "s2 = set_ep e ep (s\<lparr>rv_host := h, rv_recv_buffers := [(e, ?bc)]\<rparr>)" "ep_trans ep = Some RDMATransport" "ep_node_id ep = sender"
    "ho_brk h = ho_brk (rv_host s)" "ho_regions h = ho_regions (rv_host s)" "load_bytes (ho_mem h) raddr ml = buf" "load_bytes (ho_mem h) ?ra (tn_len t) = vals"
    using l(2,3) by (auto simp: arrived_def msg(4))
  have p: "push_msg (with_tensor kbs r t msg) t" by (rule push_facts(1) [OF msg(1,2)])
  then have "wf_meta (tensor_meta kbs r t (rm_meta msg))" "me_control (tensor_meta kbs r t (rm_meta msg)) = Control" by (simp_all add: push_msg_def)
  note u = unpacked [OF this msg(3), where a = sender and b = ?self, unfolded msg(4)]
  have gl: "GetPackMetaLen ?m = int ml" "u64_of_int (int ml) = ml"
    using GetPackMetaLen_small [of ?m] GetPackMetaLen_size_t [of ?m] u msg(5) by simp_all
  define v1 where "v1 = s2\<lparr>rv_recv_buffers := []\<rparr>"
  have "?ra + tn_len t \<le> ho_brk (rv_host v1)" using l(1) by (simp add: slot_def reply_room_def h(1,4) set_ep_def v1_def)
  from kv_arrays_contents [OF _ this, of "\<lparr>rm_meta = ?m, rm_data = []\<rparr>"] obtain k msg' h' where
    k: "kv_arrays \<lparr>rm_meta = ?m, rm_data = []\<rparr> (?ra, tn_len t) v1 = ((k, msg'), v1\<lparr>rv_host := h'\<rparr>)" "rm_meta msg' = ?m"
      "contents h' msg' = [le_bytes 8 (le_val kbs), load_bytes (ho_mem (rv_host v1)) ?ra (tn_len t), int_bytes (int (tn_len t))]"
      "ho_brk (rv_host v1) \<le> ho_brk h'" "ho_regions h' = ho_regions (rv_host v1)" by auto
  define s3 where "s3 = (v1\<lparr>rv_host := h'\<rparr>)\<lparr>rv_tensor_info := (rv_tensor_info s)(le_val kbs := (rv_tensor_info s (le_val kbs))(sender \<mapsto>
    (int (tn_len t), tn_addr t, i32 (int (mr_rkey r)))))\<rparr>"
  have info: "rv_tensor_info (v1\<lparr>rv_host := h'\<rparr>) = rv_tensor_info s" by (simp add: v1_def h(1) set_ep_def)
  then have "known_tensor kbs r t sender (v1\<lparr>rv_host := h'\<rparr>)" using l(4) by (simp add: known_tensor_def)
  from StoreWorker_known [OF this k(2)] have st: "StoreWorkerTensorAddress msg' (v1\<lparr>rv_host := h'\<rparr>) = Inr s3" by (simp only: info s3_def)
  have rp: "rt_RecvPushRequest wd \<lparr>rm_meta = ?m, rm_data = []\<rparr> ?bc ml v1 = Inr ((k, msg'), v1\<lparr>rv_host := h'\<rparr>)"
    using msg(1) by (simp add: rt_RecvPushRequest_def push_msg_def k(1) cast_simps)
  have iv: "IsValidPushpull ?m" using push_facts(2) [OF msg(1,2), of r] by (simp add: IsValidPushpull_def)
  have v1': "rv_eps s2 e = Some ep" "rv_recv_buffers s2 = [(e, ?bc)]" "rv_host s2 = h" "rv_my_node s2 = rv_my_node s" "get_trans e v1 = Inr RDMATransport"
    using h(2) by (simp_all add: v1_def h(1) set_ep_def get_trans_def get_ep_def)
  have "rv_RecvMsg wd s2 = Inr (Some (msg', i32 (int ml + k)), s3)"
    using msg(1) u gl iv v1' h(3,6) rp st
    by (simp add: rv_RecvMsg_def tsq_WaitAndPop_def v1_def [symmetric] get_ep_def tr_RecvPushRequest_def push_msg_def)
  moreover have "le_bytes 8 (le_val kbs) = kbs" using le_bytes_le_val [of kbs] msg(2) by simp
  ultimately have "take_msg wd s2 = Inr (Some (pushed kbs r t sender ?self (rm_meta msg) vals), s3)"
    using h(7) k(2,3) by (simp add: take_msg_def pushed_def s3_def v1_def v1'(3))
  moreover have "slot idx raddr rkey ml (reply_room wd True ml t) t s3" using l(1) k(4,5) by (simp add: slot_def s3_def v1_def h(1,4,5) set_ep_def)
  then have "server_link wd e sender idx raddr rkey ml kbs r t s3"
    using h(2,3) by (simp add: server_link_def s3_def v1_def h(1) set_ep_def over_network_def known_tensor_def)
  moreover have "rv_my_node s3 = rv_my_node s" by (simp add: s3_def v1_def v1'(4))
  ultimately show ?thesis by blast
qed


section \<open>Rounds\<close>

text \<open>What the two ends keep for a tensor after its first push.\<close>

definition push_link :: "rdma_world \<Rightarrow> nat \<Rightarrow> nat \<Rightarrow> int \<Rightarrow> int \<Rightarrow> int \<Rightarrow> nat \<Rightarrow> tensor \<Rightarrow> byte list \<Rightarrow> mr \<Rightarrow> rdma_van \<Rightarrow> rdma_van \<Rightarrow> bool" where
  "push_link wd ev es n sender self ml t kbs r v s \<longleftrightarrow> (\<exists>b p raddr rkey idx. sender_link ev True (le_val kbs) n ml t [(r, tn_len t)] r b p raddr rkey idx v
       \<and> tn_key_addr t + 8 \<le> p \<and> server_link wd es sender idx raddr rkey ml kbs r t s \<and> raddr + 2 ^ 31 \<le> 2 ^ 64)
     \<and> load_bytes (ho_mem (rv_host v)) (tn_key_addr t) 8 = kbs \<and> mr_addr r = tn_addr t \<and> nd_id (rv_my_node s) = self
     \<and> ml \<le> align_ceil ml (hw_page (rw_hw wd)) \<and> align_ceil ml (hw_page (rw_hw wd)) < 2 ^ 31"

lemma push_linkI:
  "sender_link ev True (le_val kbs) n ml t [(r, tn_len t)] r b p raddr rkey idx v \<Longrightarrow> tn_key_addr t + 8 \<le> p
    \<Longrightarrow> server_link wd es sender idx raddr rkey ml kbs r t s \<Longrightarrow> raddr + 2 ^ 31 \<le> 2 ^ 64
    \<Longrightarrow> load_bytes (ho_mem (rv_host v)) (tn_key_addr t) 8 = kbs \<Longrightarrow> mr_addr r = tn_addr t \<Longrightarrow> nd_id (rv_my_node s) = self
    \<Longrightarrow> ml \<le> align_ceil ml (hw_page (rw_hw wd)) \<Longrightarrow> align_ceil ml (hw_page (rw_hw wd)) < 2 ^ 31 \<Longrightarrow> push_link wd ev es n sender self ml t kbs r v s"
  unfolding push_link_def by blast

text \<open>The place of the values is in the buffer of the server.\<close>

lemma push_target:
  assumes "slot idx raddr rkey ml (reply_room wd True ml t) t s" and "ml \<le> align_ceil ml (hw_page (rw_hw wd))"
  shows "target (raddr + align_ceil ml (hw_page (rw_hw wd))) rkey raddr ml t s"
proof -
  from assms(1) obtain g where "g \<in> set (ho_regions (rv_host s))" "mr_rkey g = rkey" "mr_addr g = raddr"
    "align_ceil ml (hw_page (rw_hw wd)) + tn_len t \<le> mr_len g" by (auto simp: slot_def reply_room_def)
  with assms(2) show ?thesis by (auto simp: target_def in_region_def intro!: bexI [of _ g])
qed

lemma next_round:
  assumes dma: "dma_ok dma" and msg: "push_msg msg t" "me_recver (rm_meta msg) = n" "pack_meta_len (rm_meta msg) = ml"
    and l: "push_link wd ev es n sender self ml t kbs r v s"
  shows "\<exists>v' s'. message_round dma wd ev es rx msg v s
      = Inr (Some (pushed kbs r t sender self (rm_meta msg) (load_bytes (ho_mem (rv_host v)) (tn_addr t) (tn_len t))), v', s')
    \<and> push_link wd ev es n sender self ml t kbs r v' s'"
proof -
  let ?a = "align_ceil ml (hw_page (rw_hw wd))" and ?M = "with_tensor kbs r t msg"
  from l obtain b p raddr rkey idx where w: "sender_link ev True (le_val kbs) n ml t [(r, tn_len t)] r b p raddr rkey idx v" "tn_key_addr t + 8 \<le> p"
    and s: "server_link wd es sender idx raddr rkey ml kbs r t s" "raddr + 2 ^ 31 \<le> 2 ^ 64"
    and f: "load_bytes (ho_mem (rv_host v)) (tn_key_addr t) 8 = kbs" "mr_addr r = tn_addr t" "nd_id (rv_my_node s) = self" "ml \<le> ?a" "?a < 2 ^ 31"
    unfolding push_link_def by blast
  have kl: "length kbs = 8" using f(1) by auto
  note p = push_facts [OF msg(1) kl, of r]
  obtain buf where buf: "PackMeta (rm_meta ?M) = Inr buf" "length buf = ml" using p(3) msg(3) by auto
  have g: "rm_data msg = tensor_data t" "0 < tn_len t" "n \<noteq> kEmpty" "rm_data ?M = tensor_data t" "me_push (rm_meta ?M)"
    using msg(1,2) by (simp_all add: push_msg_def)
  have m: "rv_mem_mr v (tn_addr t) = Some r" using w(1) by (simp add: sender_link_def)
  have W: "posts wd ev ?M b p buf r t (raddr, rkey, idx, b) (two_writes ev b p buf (mr_addr r) (tn_len t) (mr_lkey r) (raddr + ?a) rkey raddr rkey idx)"
    using push_writes [OF msg(1) kl, of wd ev r] f(4,5) s(2) buf(2) msg(3) unfolding writes_to_def by simp
  have "sender_link ev (me_push (rm_meta ?M)) (me_key (rm_meta ?M)) n ml t (mrs_of ?M r t) r b p raddr rkey idx v" using w(1) g(5) by (simp add: p(4))
  from later_send [OF g(1) push_valid [OF msg(1)] g(2) msg(2) g(3) msg(3) le_less_trans [OF f(4,5)] push_prepared [OF msg(1) m f(1)] g(4) buf this W] g(5) obtain k v1 lkey where
    v1: "rv_SendMsg wd msg v = Inr (k, v1)"
      "rv_sq v1 = rv_sq v @ two_writes ev b p buf (mr_addr r) (tn_len t) (mr_lkey r) (raddr + ?a) rkey raddr rkey idx lkey"
      "load_bytes (ho_mem (rv_host v1)) p (length buf) = buf" "sender_link ev True (le_val kbs) n ml t [(r, tn_len t)] r b p raddr rkey idx v1"
      "\<forall>a k. a + k \<le> p \<longrightarrow> load_bytes (ho_mem (rv_host v1)) a k = load_bytes (ho_mem (rv_host v)) a k"
    unfolding p(4) by auto
  have la: "load_bytes (ho_mem (rv_host v1)) (mr_addr r) (tn_len t) = load_bytes (ho_mem (rv_host v)) (tn_addr t) (tn_len t)"
    using v1(5) w(1) f(2) by (simp add: sender_link_def)
  have sl: "slot idx raddr rkey (length buf) (reply_room wd True ml t) t s" "over_network es s" "target (raddr + ?a) rkey raddr (length buf) t s"
    using s(1) push_target [OF _ f(4)] by (auto simp: server_link_def buf(2))
  from later_round [OF dma v1(1,2) la v1(3) sl, of rx] obtain s2 ep where
    r: "message_round dma wd ev es rx msg v s = rbind (take_msg wd s2) (\<lambda>(r, s3). Inr (r, v1, s3))"
      "arrived es raddr buf (raddr + ?a) t (load_bytes (ho_mem (rv_host v)) (tn_addr t) (tn_len t)) s s2 ep" by blast
  from take_push [OF msg(1) kl _ buf(2) le_less_trans [OF f(4,5)] r(2) s(1)] buf(1) obtain s3 where
    "take_msg wd s2 = Inr (Some (pushed kbs r t sender self (rm_meta msg) (load_bytes (ho_mem (rv_host v)) (tn_addr t) (tn_len t))), s3)"
    "server_link wd es sender idx raddr rkey ml kbs r t s3" "rv_my_node s3 = rv_my_node s" unfolding f(3) by auto
  moreover from this have "push_link wd ev es n sender self ml t kbs r v1 s3"
    using v1(5) w(2) f by (intro push_linkI [OF v1(4) w(2) _ s(2)]) simp_all
  ultimately show ?thesis by (simp add: r(1))
qed


text \<open>The state before the first push of a tensor: both ends are connected over the network with contexts to spare, the key has not been pushed
  to the server, and the server has no message to take and has not heard of the tensor from this worker.\<close>

definition first_ready :: "rdma_world \<Rightarrow> nat \<Rightarrow> nat \<Rightarrow> int \<Rightarrow> rmsg \<Rightarrow> tensor \<Rightarrow> byte list \<Rightarrow> rdma_van \<Rightarrow> rdma_van \<Rightarrow> bool" where
  "first_ready wd ev es sender msg t kbs v s \<longleftrightarrow> sender_ready wd ev msg t v \<and> receiver_ready wd es (pack_meta_len (rm_meta msg)) t s \<and> rv_is_server s
     \<and> map_option ep_free_start_ctx (rv_eps v ev) \<noteq> Some [] \<and> map_option ep_free_reply_ctx (rv_eps s es) \<noteq> Some []
     \<and> load_bytes (ho_mem (rv_host v)) (tn_key_addr t) 8 = kbs
     \<and> rv_push_addr v (le_val kbs) (me_recver (rm_meta msg)) = None
     \<and> (case rv_mem_mr v (tn_addr t) of None \<Rightarrow> True | Some r \<Rightarrow> mr_addr r = tn_addr t)
     \<and> rv_recv_buffers s = [] \<and> map_option ep_node_id (rv_eps s es) = Some sender \<and> rv_tensor_info s (le_val kbs) sender = None"

lemma tensor_mr_addr: "first_ready wd ev es sender msg t kbs v s \<Longrightarrow> mr_addr (tensor_mr wd t v) = tn_addr t"
  by (auto simp: first_ready_def tensor_mr_def ibv_reg_mr_def Let_def split: option.splits)

lemma first_push:
  assumes msg: "push_msg msg t" and v: "sender_ready wd e msg t v" and ep: "rv_eps v e = Some ep" "ep_free_start_ctx ep = c # cs"
    and k: "load_bytes (ho_mem (rv_host v)) (tn_key_addr t) 8 = kbs" "rv_push_addr v (le_val kbs) (me_recver (rm_meta msg)) = None"
  defines "r \<equiv> tensor_mr wd t v"
  shows "\<exists>n v'. rv_SendMsg wd msg v = Inr (n, v') \<and> staged_send e c (with_tensor kbs r t msg) r t v v'"
proof -
  have kl: "length kbs = 8" using k(1) by auto
  have n: "rm_data msg = tensor_data t" "0 < tn_len t" "me_recver (rm_meta msg) \<noteq> kEmpty" "me_push (rm_meta msg)"
    using msg by (simp_all add: push_msg_def)
  have "wf_meta (rm_meta (with_tensor kbs r t msg))" using push_facts(1) [OF msg kl, of r] by (simp add: push_msg_def)
  then show ?thesis using n k push_prepared [OF msg]
    by (intro first_message [OF n(1-3) push_valid [OF msg] v ep]) (simp_all add: r_def addr_map_def Let_def)
qed

lemma first_round:
  assumes dma: "dma_ok dma" and msg: "push_msg msg t" and f: "first_ready wd ev es sender msg t kbs v s"
  defines "r \<equiv> tensor_mr wd t v" and "self \<equiv> nd_id (rv_my_node s)"
  shows "\<exists>v' s'. message_round dma wd ev es rx msg v s
      = Inr (Some (pushed kbs r t sender self (rm_meta msg) (load_bytes (ho_mem (rv_host v)) (tn_addr t) (tn_len t))), v', s')
    \<and> push_link wd ev es (me_recver (rm_meta msg)) sender self (pack_meta_len (rm_meta msg)) t kbs r v' s'"
proof -
  let ?ml = "pack_meta_len (rm_meta msg)" and ?n = "me_recver (rm_meta msg)" and ?M = "with_tensor kbs r t msg"
  let ?a = "align_ceil ?ml (hw_page (rw_hw wd))"
  have a: "sender_ready wd ev msg t v" "receiver_ready wd es ?ml t s" "rv_is_server s" "over_network ev v" "over_network es s"
    and k: "load_bytes (ho_mem (rv_host v)) (tn_key_addr t) 8 = kbs" "rv_push_addr v (le_val kbs) ?n = None"
    and b: "rv_recv_buffers s = []" "map_option ep_node_id (rv_eps s es) = Some sender" "rv_tensor_info s (le_val kbs) sender = None"
    using f by (simp_all add: first_ready_def sender_ready_def receiver_ready_def)
  have brk: "tn_addr t + tn_len t \<le> ho_brk (rv_host v)" "tn_key_addr t + 8 \<le> ho_brk (rv_host v)" "rv_endpoints v ?n = Some ev"
    using a(1) by (simp_all add: sender_ready_def)
  have ra: "mr_addr r = tn_addr t" using tensor_mr_addr [OF f] by (simp add: r_def)
  have kl: "length kbs = 8" using k(1) by auto
  have ac: "?ml \<le> ?a" "?a < 2 ^ 31" using receiver_align [OF a(2)] a(2) by (simp_all add: receiver_ready_def)
  obtain ep c cs where ep: "rv_eps v ev = Some ep" "ep_free_start_ctx ep = c # cs"
    using over_network_ep [OF a(4)] f unfolding first_ready_def by blast
  obtain ep' c' cs' where ep': "rv_eps s es = Some ep'" "ep_free_reply_ctx ep' = c' # cs'"
    using over_network_ep [OF a(5)] f unfolding first_ready_def by blast
  obtain x v1 where v1: "rv_SendMsg wd msg v = Inr (x, v1)" "staged_send ev c ?M r t v v1" using first_push [OF msg a(1) ep k] unfolding r_def by blast
  have W: "writes_to wd ev ?M r t (mr_addr r) (mr_lkey r) (\<lambda>raddr. raddr + ?a) (\<lambda>rkey. rkey)" using ac by (intro push_writes [OF msg kl]) simp_all
  have "target (raddr + ?a) rkey raddr ?ml t s1" if "answered wd es c' b ?ml t raddr rkey idx s s1" for s1 b raddr rkey idx
    using that a(3) ac(1) by (intro push_target [of idx]) (simp_all add: answered_def)
  then have T: "\<forall>s1 b raddr rkey idx. answered wd es c' b ?ml t raddr rkey idx s s1 \<longrightarrow> target (raddr + ?a) rkey raddr ?ml t s1" by blast
  have V: "IsValidPushpull (rm_meta ?M)" "pack_meta_len (rm_meta ?M) = ?ml" "rv_endpoints v (me_recver (rm_meta ?M)) = Some ev"
    "mr_addr r + tn_len t \<le> ho_brk (rv_host v)" "me_recver (rm_meta ?M) = ?n" using push_facts(2) [OF msg kl, of r] brk ra by simp_all
  obtain buf b p raddr rkey idx v2 s1 s2 ep2 where
    R: "PackMeta (rm_meta ?M) = Inr buf" "length buf = ?ml"
      "message_round dma wd ev es rx msg v s = rbind (take_msg wd s2) (\<lambda>(r, s3). Inr (r, v2, s3))"
      "arrived es raddr buf (raddr + ?a) t (load_bytes (ho_mem (rv_host v)) (tn_addr t) (tn_len t)) s1 s2 ep2"
      "answered wd es c' b ?ml t raddr rkey idx s s1" "ho_brk (rv_host v) \<le> p"
      "sender_link ev (me_push (rm_meta ?M)) (me_key (rm_meta ?M)) ?n ?ml t (mrs_of ?M r t) r b p raddr rkey idx v2"
      "\<forall>a n. a + n \<le> ho_brk (rv_host v) \<longrightarrow> load_bytes (ho_mem (rv_host v2)) a n = load_bytes (ho_mem (rv_host v)) a n"
    using rendezvous_round [OF dma v1 V(1-3) W V(4) brk(1) a(2) ep' T, of rx] unfolding V(5) ra by metis
  have s1: "server_link wd es sender idx raddr rkey ?ml kbs r t s1" "rv_my_node s1 = rv_my_node s" "raddr + 2 ^ 31 \<le> 2 ^ 64"
    using R(5) a(3) b by (simp_all add: answered_def server_link_def known_tensor_def)
  from take_push [OF msg kl _ R(2) le_less_trans [OF ac] R(4) s1(1)] R(1) obtain s3 where
    t: "take_msg wd s2 = Inr (Some (pushed kbs r t sender self (rm_meta msg) (load_bytes (ho_mem (rv_host v)) (tn_addr t) (tn_len t))), s3)"
      "server_link wd es sender idx raddr rkey ?ml kbs r t s3" "rv_my_node s3 = rv_my_node s" unfolding self_def s1(2) by auto
  have l: "sender_link ev True (le_val kbs) ?n ?ml t [(r, tn_len t)] r b p raddr rkey idx v2"
    using R(7) push_facts(4) [OF msg kl, of r] msg by (simp add: push_msg_def)
  have "push_link wd ev es ?n sender self ?ml t kbs r v2 s3"
    using R(6,8) brk(2) k(1) ra ac t(3) by (intro push_linkI [OF l _ t(2) s1(3)]) (simp_all add: self_def)
  with t(1) show ?thesis by (simp add: R(3))
qed

text \<open>A worker that computes new values and pushes them, again and again, with what the server is handed each time.\<close>

definition set_values :: "tensor \<Rightarrow> byte list \<Rightarrow> rdma_van \<Rightarrow> rdma_van" where
  "set_values t vals v = v\<lparr>rv_host := (rv_host v)\<lparr>ho_mem := store_bytes (ho_mem (rv_host v)) (tn_addr t) vals\<rparr>\<rparr>"

fun push_rounds ::
    "dma \<Rightarrow> rdma_world \<Rightarrow> nat \<Rightarrow> nat \<Rightarrow> nat \<Rightarrow> tensor \<Rightarrow> (rmsg \<times> byte list) list \<Rightarrow> rdma_van \<Rightarrow> rdma_van \<Rightarrow> (meta \<times> byte list list) option list res" where
  "push_rounds dma wd ev es rx t [] v s = Inr []"
| "push_rounds dma wd ev es rx t ((msg, vals) # ps) v s =
     rbind (message_round dma wd ev es rx msg (set_values t vals v) s) (\<lambda>(out, v', s').
     rbind (push_rounds dma wd ev es rx t ps v' s') (\<lambda>outs. Inr (out # outs)))"

definition pushes_of :: "tensor \<Rightarrow> int \<Rightarrow> nat \<Rightarrow> (rmsg \<times> byte list) list \<Rightarrow> bool" where
  "pushes_of t n ml ps \<longleftrightarrow> (\<forall>(msg, vals) \<in> set ps. push_msg msg t \<and> me_recver (rm_meta msg) = n \<and> pack_meta_len (rm_meta msg) = ml
     \<and> length vals = tn_len t) \<and> (tn_addr t + tn_len t \<le> tn_key_addr t \<or> tn_key_addr t + 8 \<le> tn_addr t)"

lemma pushes_of_Cons:
  "pushes_of t n ml ((msg, vals) # ps) \<longleftrightarrow> pushes_of t n ml ps \<and> push_msg msg t \<and> me_recver (rm_meta msg) = n \<and> pack_meta_len (rm_meta msg) = ml
     \<and> length vals = tn_len t"
  by (auto simp: pushes_of_def)

lemma set_values_sender:
  "sender_link e push k n ml t mrs r b p raddr rkey idx v \<Longrightarrow> length vals = tn_len t
    \<Longrightarrow> sender_link e push k n ml t mrs r b p raddr rkey idx (set_values t vals v)"
  by (auto simp: sender_link_def set_values_def over_network_def staged_def store_bytes_outside addr_map_def split: if_splits)

lemma set_values_link:
  assumes "push_link wd ev es n sender self ml t kbs r v s" and "length vals = tn_len t" and "pushes_of t n ml ps"
  shows "push_link wd ev es n sender self ml t kbs r (set_values t vals v) s"
proof -
  have "sender_link ev True (le_val kbs) n ml t mrs r b p raddr rkey idx (set_values t vals v)" if "sender_link ev True (le_val kbs) n ml t mrs r b p raddr rkey idx v"
    for mrs b p raddr rkey idx using set_values_sender [OF that assms(2)] .
  moreover have "load_bytes (ho_mem (rv_host (set_values t vals v))) (tn_key_addr t) 8 = load_bytes (ho_mem (rv_host v)) (tn_key_addr t) 8"
    using assms(2,3) by (auto simp: set_values_def store_bytes_outside pushes_of_def)
  ultimately show ?thesis using assms(1) unfolding push_link_def by metis
qed

lemma set_values_first:
  "first_ready wd ev es sender msg t kbs v s \<Longrightarrow> length vals = tn_len t \<Longrightarrow> pushes_of t n ml ps
    \<Longrightarrow> first_ready wd ev es sender msg t kbs (set_values t vals v) s"
  by (auto simp: first_ready_def sender_ready_def set_values_def over_network_def store_bytes_outside pushes_of_def)

lemma later_rounds:
  assumes "dma_ok dma" and "push_link wd ev es n sender self ml t kbs r v s" and "pushes_of t n ml ps"
  shows "push_rounds dma wd ev es rx t ps v s = Inr (map (\<lambda>(msg, vals). Some (pushed kbs r t sender self (rm_meta msg) vals)) ps)"
  using assms(2,3)
proof (induction ps arbitrary: v s)
  case (Cons a ps)
  obtain msg vals where a: "a = (msg, vals)" by (cases a)
  have p: "pushes_of t n ml ps" "push_msg msg t" "me_recver (rm_meta msg) = n" "pack_meta_len (rm_meta msg) = ml" "length vals = tn_len t"
    using Cons.prems(2) unfolding a pushes_of_Cons by blast+
  from next_round [OF assms(1) p(2-4) set_values_link [OF Cons.prems(1) p(5,1)], of rx] obtain v' s' where
    "message_round dma wd ev es rx msg (set_values t vals v) s
       = Inr (Some (pushed kbs r t sender self (rm_meta msg) vals), v', s')" "push_link wd ev es n sender self ml t kbs r v' s'"
    using p(5) by (auto simp: set_values_def load_store_bytes)
  with Cons.IH [OF this(2) p(1)] show ?case by (simp add: a)
qed simp


lemma tensor_mr_set_values [simp]: "tensor_mr wd t (set_values t vals v) = tensor_mr wd t v"
  by (simp add: tensor_mr_def set_values_def ibv_reg_mr_def Let_def split: option.split)

text \<open>C7: A worker pushes new values of a tensor to a server over RDMA again and again, from a state where the server does not know the tensor
  (\<open>first_ready\<close>) and over any device that stores what is written into a registered region. Every push is delivered: \<open>RecvMsg\<close> at the server returns,
  for each, a message with the worker's metadata, the key and the place of the tensor, and exactly three arrays: the key, the values of this
  push, and their length. The first one finds a buffer by a rendezvous, the later ones write into it at once.\<close>

theorem rdma_push_rounds:
  assumes "dma_ok dma" and "first_ready wd ev es sender msg t kbs v s" and "pushes_of t (me_recver (rm_meta msg)) (pack_meta_len (rm_meta msg)) ((msg, vals) # ps)"
  shows "push_rounds dma wd ev es rx t ((msg, vals) # ps) v s
    = Inr (map (\<lambda>(m, vs). Some (pushed kbs (tensor_mr wd t v) t sender (nd_id (rv_my_node s)) (rm_meta m) vs)) ((msg, vals) # ps))"
proof -
  let ?n = "me_recver (rm_meta msg)" and ?ml = "pack_meta_len (rm_meta msg)" and ?self = "nd_id (rv_my_node s)" and ?r = "tensor_mr wd t v"
  have p: "pushes_of t ?n ?ml ps" "push_msg msg t" "length vals = tn_len t" using assms(3) unfolding pushes_of_Cons by blast+
  from first_round [OF assms(1) p(2) set_values_first [OF assms(2) p(3,1)], of rx] obtain v' s' where
    "message_round dma wd ev es rx msg (set_values t vals v) s = Inr (Some (pushed kbs ?r t sender ?self (rm_meta msg) vals), v', s')"
    "push_link wd ev es ?n sender ?self ?ml t kbs ?r v' s'"
    unfolding tensor_mr_set_values using p(3) by (auto simp: set_values_def load_store_bytes)
  with later_rounds [OF assms(1) this(2) p(1)] show ?thesis by simp
qed

definition device :: dma where
  "device h rkey addr bs =
     (if list_ex (\<lambda>r. mr_rkey r = rkey \<and> mr_addr r \<le> addr \<and> addr + length bs \<le> mr_addr r + mr_len r) (ho_regions h)
      then Some (h\<lparr>ho_mem := store_bytes (ho_mem h) addr bs\<rparr>) else None)"

lemma device_ok: "dma_ok device"
  by (auto simp: dma_ok_def device_def list_ex_iff)

definition ex_endpoint :: "int \<Rightarrow> endpoint" where
  "ex_endpoint n = new_Endpoint\<lparr>ep_status := CONNECTED, ep_node_id := n, ep_trans := Some RDMATransport,
     ep_free_start_ctx := [0, 1], ep_free_reply_ctx := [0, 1], ep_rx_posted := [0, 1, 2]\<rparr>"

definition ex_van :: "bool \<Rightarrow> int \<Rightarrow> int \<Rightarrow> rdma_van" where
  "ex_van server self other = \<lparr>rv_my_node = (Node (if server then SERVER else WORKER))\<lparr>nd_id := self\<rparr>, rv_is_server = server,
     rv_host = \<lparr>ho_mem = store_bytes (\<lambda>_. 0) 20000 [7, 0, 0, 0, 0, 0, 0, 0], ho_brk = 40000, ho_regions = []\<rparr>, rv_allocator = MemoryAllocator,
     rv_addr_pool = \<lparr>ap_indices = [0, 1], ap_table = [None, None]\<rparr>, rv_next = 2, rv_eps = [1 \<mapsto> ex_endpoint other],
     rv_endpoints = [other \<mapsto> 1], rv_incoming = [], rv_cq_polling = True, rv_should_stop = False, rv_context = True, rv_disable_ipc = True,
     rv_is_local = Map.empty, rv_recv_buffers = [], rv_tensor_info = (\<lambda>_. Map.empty), rv_push_addr = (\<lambda>_. Map.empty),
     rv_pull_addr = (\<lambda>_. Map.empty), rv_msgbufs = Map.empty, rv_msgbuf_cache = Map.empty, rv_mem_mr = Map.empty, rv_sq = []\<rparr>"

definition ex_world :: rdma_world where
  "ex_world = \<lparr>rw_hw = \<lparr>hw_page = 4096, hw_lkey = (\<lambda>k. k), hw_rkey = (\<lambda>k. 100 + k)\<rparr>, rw_shm = (\<lambda>_. None), rw_ranges = [], rw_rank = 0\<rparr>"

definition ex_tensor :: tensor where
  "ex_tensor = \<lparr>tn_key_addr = 20000, tn_addr = 30000, tn_len = 4, tn_len_addr = 20008\<rparr>"

definition ex_push :: "int \<Rightarrow> rmsg" where
  "ex_push ts = \<lparr>rm_meta = Meta\<lparr>me_push := True, me_request := True, me_timestamp := ts, me_recver := 8\<rparr>, rm_data = tensor_data ex_tensor\<rparr>"

theorem rdma_push_rounds_witness:
  "\<exists>outs. push_rounds device ex_world 1 1 0 ex_tensor [(ex_push 0, [1, 2, 3, 4]), (ex_push 1, [5, 6, 7, 8])] (ex_van False 9 8) (ex_van True 8 9) = Inr outs
    \<and> map (map_option snd) outs = [Some [[7, 0, 0, 0, 0, 0, 0, 0], [1, 2, 3, 4], [4, 0, 0, 0]], Some [[7, 0, 0, 0, 0, 0, 0, 0], [5, 6, 7, 8], [4, 0, 0, 0]]]"
proof -
  let ?k = "[7, 0, 0, 0, 0, 0, 0, 0] :: byte list"
  have m: "push_msg (ex_push 0) ex_tensor" "push_msg (ex_push 1) ex_tensor"
    by (simp_all add: push_msg_def ex_push_def ex_tensor_def wf_meta_def Meta_def Control_def wf_int_def kEmpty_def)
  have p: "pushes_of ex_tensor (me_recver (rm_meta (ex_push 0))) (pack_meta_len (rm_meta (ex_push 0))) [(ex_push 0, [1, 2, 3, 4]), (ex_push 1, [5, 6, 7, 8])]"
    using m by (simp add: pushes_of_def ex_push_def ex_tensor_def pack_meta_len_def)
  have f: "first_ready ex_world 1 1 9 (ex_push 0) ex_tensor ?k (ex_van False 9 8) (ex_van True 8 9)"
    using load_store_bytes [of 8 ?k "\<lambda>_. 0" 20000]
    by (simp add: first_ready_def sender_ready_def receiver_ready_def over_network_def ex_van_def ex_endpoint_def new_Endpoint_def ex_push_def ex_tensor_def
        ex_world_def pack_meta_len_def Meta_def Control_def sizeof_RawMeta_def pool_ok_def)
  have "int_bytes 4 = [4, 0, 0, 0]" by code_simp
  then have "int_bytes (int (tn_len ex_tensor)) = [4, 0, 0, 0]" by (simp add: ex_tensor_def)
  with rdma_push_rounds [OF device_ok f p, of 0] show ?thesis by (simp add: pushed_def)
qed


end
