(* ===== verification/Rdma_Pull.thy ===== *)
theory Rdma_Pull
  imports Rdma_Rounds
begin

text \<open>
  A server answers pulls of a tensor over RDMA: it writes the values into the memory of the worker, at the place that the worker's push
  told it, and then the metadata. As for pushes, the first answer needs a rendezvous and the later ones do not.
\<close>

section \<open>A pull response\<close>

text \<open>The arrays of the response lie at the server.\<close>

definition pull_answer :: "rmsg \<Rightarrow> tensor \<Rightarrow> bool" where
  "pull_answer msg t \<longleftrightarrow> rm_data msg = tensor_data t \<and> \<not> me_push (rm_meta msg) \<and> \<not> me_request (rm_meta msg) \<and> \<not> me_simple_app (rm_meta msg)
     \<and> me_control (rm_meta msg) = Control \<and> wf_meta (rm_meta msg) \<and> me_recver (rm_meta msg) \<noteq> kEmpty \<and> 0 < tn_len t \<and> tn_len t < 2 ^ 31"

text \<open>The place of the tensor at the worker: its address and the key of its region.\<close>

definition answer_meta :: "nat \<Rightarrow> nat \<Rightarrow> tensor \<Rightarrow> meta \<Rightarrow> meta" where
  "answer_meta wa wk t me = me\<lparr>me_val_len := int (tn_len t), me_addr := wa, me_option := i32 (int wk)\<rparr>"

lemma answer_meta_simps [simp]:
  "me_push (answer_meta wa wk t me) = me_push me" "me_request (answer_meta wa wk t me) = me_request me"
  "me_recver (answer_meta wa wk t me) = me_recver me" "me_simple_app (answer_meta wa wk t me) = me_simple_app me"
  "me_control (answer_meta wa wk t me) = me_control me" "pack_meta_len (answer_meta wa wk t me) = pack_meta_len me"
  "me_key (answer_meta wa wk t me) = me_key me" "me_val_len (answer_meta wa wk t me) = int (tn_len t)" "me_addr (answer_meta wa wk t me) = wa"
  by (simp_all add: answer_meta_def pack_meta_len_def)

abbreviation with_place :: "nat \<Rightarrow> nat \<Rightarrow> tensor \<Rightarrow> rmsg \<Rightarrow> rmsg" where
  "with_place wa wk t msg \<equiv> msg\<lparr>rm_meta := answer_meta wa wk t (rm_meta msg)\<rparr>"

lemma answer_valid: "pull_answer msg t \<Longrightarrow> IsValidPushpull (rm_meta msg)"
  by (simp add: pull_answer_def IsValidPushpull_def Control_def ctrl_empty_def)

lemma answer_facts:
  assumes "pull_answer msg t" and "wa < 2 ^ 64"
  shows "pull_answer (with_place wa wk t msg) t" "IsValidPushpull (answer_meta wa wk t (rm_meta msg))"
    "\<exists>buf. PackMeta (answer_meta wa wk t (rm_meta msg)) = Inr buf \<and> length buf = pack_meta_len (rm_meta msg)"
    "mrs_of (with_place wa wk t msg) r t = []"
proof -
  have "wf_int (int (tn_len t))" "wf_int 0" using assms(1) by (simp_all add: pull_answer_def wf_int_def)
  then have w: "wf_meta (answer_meta wa wk t (rm_meta msg))"
    using assms by (simp add: pull_answer_def answer_meta_def wf_meta_def Control_def)
  with assms(1) show a: "pull_answer (with_place wa wk t msg) t" by (simp add: pull_answer_def)
  show "IsValidPushpull (answer_meta wa wk t (rm_meta msg))" using answer_valid [OF a] by simp
  show "\<exists>buf. PackMeta (answer_meta wa wk t (rm_meta msg)) = Inr buf \<and> length buf = pack_meta_len (rm_meta msg)"
    using unpack_pack [OF w] by auto
  show "mrs_of (with_place wa wk t msg) r t = []" using assms(1) by (simp add: pull_answer_def mrs_of_def)
qed

lemma answer_prepared:
  assumes "pull_answer msg t" and "rv_tensor_info v (me_key (rm_meta msg)) (me_recver (rm_meta msg)) = Some (int (tn_len t), wa, i32 (int wk))"
  shows "rbind (AddMeta msg v) (\<lambda>m1. PackWorkerTensorAddress m1 v) = Inr (with_place wa wk t msg)"
  using assms by (simp add: AddMeta_def pull_answer_def PackWorkerTensorAddress_def answer_meta_def Let_def)

lemma u32_i32: "n < 2 ^ 32 \<Longrightarrow> u32_of_int (i32 (int n)) = n"
  by (simp add: u32_of_int_def i32_def mod_simps)

text \<open>The values go to the place at the worker.\<close>

lemma answer_writes:
  assumes msg: "pull_answer msg t" and wa: "wa < 2 ^ 64" and wk: "wk < 2 ^ 32" and ml: "pack_meta_len (rm_meta msg) < 2 ^ 31"
  shows "writes_to wd e (with_place wa wk t msg) r t (tn_addr t) (mr_lkey r) (\<lambda>_. wa) (\<lambda>_. wk)"
proof -
  have "\<exists>lkey. send_data_msg wd e (with_place wa wk t msg) b (raddr, rkey, idx, b) v = Inr (v\<lparr>rv_sq := rv_sq v @
      two_writes e b p buf (tn_addr t) (tn_len t) (mr_lkey r) wa wk raddr rkey idx lkey\<rparr>)"
    if st: "staged b p buf [] t v" "over_network e v" "rv_mem_mr v (tn_addr t) = Some r" "length buf = pack_meta_len (rm_meta msg)"
    for b p buf raddr rkey idx v
  proof -
    obtain l where "al_mr (rv_allocator v) p = Some l" using st(1) by (auto simp: staged_def)
    moreover have "u64_of_int (int (tn_len t)) = tn_len t" "u32_of_int (int (tn_len t)) = tn_len t"
      using msg by (simp_all add: pull_answer_def u64_of_int_def u32_of_int_def nat_mod_distrib)
    moreover have "u32_of_int (me_option (answer_meta wa wk t (rm_meta msg))) = wk" using u32_i32 [OF wk] by (simp add: answer_meta_def)
    ultimately show ?thesis using st msg ml
      by (intro exI [of _ "mr_lkey l"]) (simp add: send_data_msg_def pull_answer_def get_trans_network tr_SendPullResponse_def rt_SendPullResponse_def
          rt_Send_def get_msgbuf_def staged_def post_send_def RDMAWriteWithImm_def LocalKey_def Addr2MR_def two_writes_def cast_simps tensor_data_def)
  qed
  then show ?thesis unfolding writes_to_def posts_def answer_facts(4) [OF msg wa] by simp
qed

section \<open>The worker\<close>

definition worker_link :: "nat \<Rightarrow> int \<Rightarrow> nat \<Rightarrow> nat \<Rightarrow> nat \<Rightarrow> nat \<Rightarrow> nat \<Rightarrow> nat \<Rightarrow> tensor \<Rightarrow> rdma_van \<Rightarrow> bool" where
  "worker_link e sender idx raddr rkey ml wa wk t v \<longleftrightarrow> slot idx raddr rkey ml ml t v \<and> over_network e v \<and> rv_recv_buffers v = []
     \<and> map_option ep_node_id (rv_eps v e) = Some sender \<and> in_region (rv_host v) wk wa (tn_len t) \<and> wa + tn_len t \<le> raddr
     \<and> wa + tn_len t \<le> ho_brk (rv_host v)"

text \<open>What the worker is handed: the metadata of the answer, and the key, the values and their length.\<close>

definition pulled :: "nat \<Rightarrow> nat \<Rightarrow> tensor \<Rightarrow> int \<Rightarrow> int \<Rightarrow> meta \<Rightarrow> byte list \<Rightarrow> meta \<times> byte list list" where
  "pulled wa wk t sender self me vals =
     ((answer_meta wa wk t me)\<lparr>me_sender := sender, me_recver := self\<rparr>, [le_bytes 8 (me_key me), vals, int_bytes (int (tn_len t))])"

lemma take_answer:
  assumes msg: "pull_answer msg t" "wa < 2 ^ 64" "PackMeta (answer_meta wa wk t (rm_meta msg)) = Inr buf" "length buf = ml" "ml < 2 ^ 31"
    and a: "arrived e raddr buf wa t vals v v2 ep" and v: "worker_link e sender idx raddr rkey ml wa wk t v"
  shows "\<exists>v3. take_msg wd v2 = Inr (Some (pulled wa wk t sender (nd_id (rv_my_node v)) (rm_meta msg) vals), v3)
    \<and> load_bytes (ho_mem (rv_host v3)) wa (tn_len t) = vals \<and> worker_link e sender idx raddr rkey ml wa wk t v3 \<and> rv_my_node v3 = rv_my_node v"
proof -
  let ?bc = "\<lparr>bc_buffer = raddr, bc_meta_len = ml, bc_data_num = 3, bc_data_len = [8, tn_len t, 4]\<rparr>" and ?self = "nd_id (rv_my_node v)"
  let ?m = "(answer_meta wa wk t (rm_meta msg))\<lparr>me_sender := sender, me_recver := ?self\<rparr>"
  have l: "slot idx raddr rkey ml ml t v" "rv_recv_buffers v = []" "map_option ep_node_id (rv_eps v e) = Some sender"
    "in_region (rv_host v) wk wa (tn_len t)" "wa + tn_len t \<le> raddr" "wa + tn_len t \<le> ho_brk (rv_host v)" using v by (simp_all add: worker_link_def)
  from a obtain h where h: "v2 = set_ep e ep (v\<lparr>rv_host := h, rv_recv_buffers := [(e, ?bc)]\<rparr>)" "ep_trans ep = Some RDMATransport" "ep_node_id ep = sender"
    "ho_brk h = ho_brk (rv_host v)" "ho_regions h = ho_regions (rv_host v)" "load_bytes (ho_mem h) raddr ml = buf" "load_bytes (ho_mem h) wa (tn_len t) = vals"
    using l(2,3) by (auto simp: arrived_def msg(4))
  have "wf_meta (answer_meta wa wk t (rm_meta msg))" "me_control (answer_meta wa wk t (rm_meta msg)) = Control"
    using answer_facts(1) [OF msg(1,2), of wk] by (simp_all add: pull_answer_def)
  note u = unpacked [OF this msg(3), where a = sender and b = ?self, unfolded msg(4)]
  have gl: "GetPackMetaLen ?m = int ml"
    using GetPackMetaLen_small [of ?m] u msg(5) by simp
  define v1 where "v1 = v2\<lparr>rv_recv_buffers := []\<rparr>"
  have "wa + tn_len t \<le> ho_brk (rv_host v1)" using l(6) by (simp add: h(1,4) set_ep_def v1_def)
  from kv_arrays_contents [OF _ this, of "\<lparr>rm_meta = ?m, rm_data = []\<rparr>"] this obtain k msg' h' where
    k: "kv_arrays \<lparr>rm_meta = ?m, rm_data = []\<rparr> (wa, tn_len t) v1 = ((k, msg'), v1\<lparr>rv_host := h'\<rparr>)" "rm_meta msg' = ?m"
      "contents h' msg' = [le_bytes 8 (me_key (rm_meta msg)), load_bytes (ho_mem (rv_host v1)) wa (tn_len t), int_bytes (int (tn_len t))]"
      "ho_brk (rv_host v1) \<le> ho_brk h'" "ho_regions h' = ho_regions (rv_host v1)"
      "load_bytes (ho_mem h') wa (tn_len t) = load_bytes (ho_mem (rv_host v1)) wa (tn_len t)" by auto
  have "u64_of_int (int (tn_len t)) = tn_len t" using msg(1) by (simp add: pull_answer_def u64_of_int_def nat_mod_distrib)
  then have rp: "rt_RecvPullResponse \<lparr>rm_meta = ?m, rm_data = []\<rparr> v1 = Inr ((k, msg'), v1\<lparr>rv_host := h'\<rparr>)"
    by (simp add: rt_RecvPullResponse_def k(1))
  have iv: "IsValidPushpull ?m" using answer_facts(2) [OF msg(1,2), of wk] by (simp add: IsValidPushpull_def)
  have v1': "rv_eps v2 e = Some ep" "rv_recv_buffers v2 = [(e, ?bc)]" "rv_host v2 = h" "rv_my_node v2 = rv_my_node v" "get_trans e v1 = Inr RDMATransport"
    using h(2) by (simp_all add: v1_def h(1) set_ep_def get_trans_def get_ep_def)
  have "rv_RecvMsg wd v2 = Inr (Some (msg', i32 (int ml + k)), v1\<lparr>rv_host := h'\<rparr>)"
    using msg(1) u gl iv v1' h(3,6) rp by (simp add: rv_RecvMsg_def tsq_WaitAndPop_def v1_def [symmetric] get_ep_def pull_answer_def)
  then have "take_msg wd v2 = Inr (Some (pulled wa wk t sender ?self (rm_meta msg) vals), v1\<lparr>rv_host := h'\<rparr>)"
    using h(7) k(2,3) by (simp add: take_msg_def pulled_def v1_def v1'(3))
  moreover have "worker_link e sender idx raddr rkey ml wa wk t (v1\<lparr>rv_host := h'\<rparr>)"
    using l k(4,5) h(2,3) by (simp add: worker_link_def slot_def v1_def h(1,4,5) set_ep_def over_network_def in_region_def)
  moreover have "load_bytes (ho_mem h') wa (tn_len t) = vals" using k(6) h(7) by (simp add: v1_def v1'(3))
  moreover have "rv_my_node (v1\<lparr>rv_host := h'\<rparr>) = rv_my_node v" by (simp add: v1_def v1'(4))
  ultimately show ?thesis by (intro exI [of _ "v1\<lparr>rv_host := h'\<rparr>"]) simp
qed


section \<open>Rounds\<close>

text \<open>What the two ends keep for a tensor after its first answer: \<open>k\<close> is its key, \<open>n\<close> the id of the worker.\<close>

definition pull_link ::
    "rdma_world \<Rightarrow> nat \<Rightarrow> nat \<Rightarrow> int \<Rightarrow> int \<Rightarrow> int \<Rightarrow> nat \<Rightarrow> nat \<Rightarrow> tensor \<Rightarrow> nat \<Rightarrow> nat \<Rightarrow> mr \<Rightarrow> rdma_van \<Rightarrow> rdma_van \<Rightarrow> bool" where
  "pull_link wd es ev n sender self ml k t wa wk r s v \<longleftrightarrow> (\<exists>b p raddr rkey idx. sender_link es False k n ml t [] r b p raddr rkey idx s
       \<and> worker_link ev sender idx raddr rkey ml wa wk t v \<and> raddr + 2 ^ 31 \<le> 2 ^ 64)
     \<and> rv_tensor_info s k n = Some (int (tn_len t), wa, i32 (int wk)) \<and> nd_id (rv_my_node v) = self \<and> ml < 2 ^ 31"

lemma pull_linkI:
  "sender_link es False k n ml t [] r b p raddr rkey idx s \<Longrightarrow> worker_link ev sender idx raddr rkey ml wa wk t v \<Longrightarrow> raddr + 2 ^ 31 \<le> 2 ^ 64
    \<Longrightarrow> rv_tensor_info s k n = Some (int (tn_len t), wa, i32 (int wk)) \<Longrightarrow> nd_id (rv_my_node v) = self \<Longrightarrow> ml < 2 ^ 31
    \<Longrightarrow> pull_link wd es ev n sender self ml k t wa wk r s v"
  unfolding pull_link_def by blast

lemma next_answer:
  assumes dma: "dma_ok dma" and msg: "pull_answer msg t" "me_recver (rm_meta msg) = n" "pack_meta_len (rm_meta msg) = ml" "me_key (rm_meta msg) = k"
    and w: "wa < 2 ^ 64" "wk < 2 ^ 32" and l: "pull_link wd es ev n sender self ml k t wa wk r s v"
  shows "\<exists>s' v'. message_round dma wd es ev rx msg s v
      = Inr (Some (pulled wa wk t sender self (rm_meta msg) (load_bytes (ho_mem (rv_host s)) (tn_addr t) (tn_len t))), s', v')
    \<and> load_bytes (ho_mem (rv_host v')) wa (tn_len t) = load_bytes (ho_mem (rv_host s)) (tn_addr t) (tn_len t)
    \<and> pull_link wd es ev n sender self ml k t wa wk r s' v'"
proof -
  let ?M = "with_place wa wk t msg" and ?vals = "load_bytes (ho_mem (rv_host s)) (tn_addr t) (tn_len t)"
  from l obtain b p raddr rkey idx where s: "sender_link es False k n ml t [] r b p raddr rkey idx s"
    and v: "worker_link ev sender idx raddr rkey ml wa wk t v" "raddr + 2 ^ 31 \<le> 2 ^ 64"
    and f: "rv_tensor_info s k n = Some (int (tn_len t), wa, i32 (int wk))" "nd_id (rv_my_node v) = self" "ml < 2 ^ 31"
    unfolding pull_link_def by blast
  note p = answer_facts [OF msg(1) w(1), of wk]
  obtain buf where buf: "PackMeta (rm_meta ?M) = Inr buf" "length buf = ml" using p(3) msg(3) by auto
  have g: "rm_data msg = tensor_data t" "0 < tn_len t" "n \<noteq> kEmpty" "rm_data ?M = tensor_data t" "\<not> me_push (rm_meta ?M)"
    using msg(1,2) by (simp_all add: pull_answer_def)
  have W: "posts wd es ?M b p buf r t (raddr, rkey, idx, b) (two_writes es b p buf (tn_addr t) (tn_len t) (mr_lkey r) wa wk raddr rkey idx)"
    using answer_writes [OF msg(1) w, of wd es r] f(3) v(2) buf(2) msg(3) unfolding writes_to_def by simp
  have L: "sender_link es (me_push (rm_meta ?M)) (me_key (rm_meta ?M)) n ml t (mrs_of ?M r t) r b p raddr rkey idx s"
    using s g(5) by (simp add: answer_facts(4) [OF msg(1) w(1)] msg(4))
  have P: "rbind (AddMeta msg s) (\<lambda>m1. PackWorkerTensorAddress m1 s) = Inr ?M" using f(1) by (intro answer_prepared [OF msg(1)]) (simp add: msg(2,4))
  obtain x s1 lkey where
    s1: "rv_SendMsg wd msg s = Inr (x, s1)" "rv_sq s1 = rv_sq s @ two_writes es b p buf (tn_addr t) (tn_len t) (mr_lkey r) wa wk raddr rkey idx lkey"
      "load_bytes (ho_mem (rv_host s1)) p (length buf) = buf" "sender_link es False k n ml t [] r b p raddr rkey idx s1" "same_links s s1"
      "\<forall>a k. a + k \<le> p \<longrightarrow> load_bytes (ho_mem (rv_host s1)) a k = load_bytes (ho_mem (rv_host s)) a k"
    using later_send [OF g(1) answer_valid [OF msg(1)] g(2) msg(2) g(3) msg(3) f(3) P g(4) buf L W] g(5)
    unfolding answer_facts(4) [OF msg(1) w(1)] by (auto simp: msg(4))
  have la: "load_bytes (ho_mem (rv_host s1)) (tn_addr t) (tn_len t) = ?vals" using s1(6) s by (simp add: sender_link_def)
  have sl: "slot idx raddr rkey (length buf) ml t v" "over_network ev v" "target wa wk raddr (length buf) t v"
    using v(1) by (simp_all add: worker_link_def buf(2) target_def)
  from later_round [OF dma s1(1,2) la s1(3) sl, of rx] obtain v2 ep where
    r: "message_round dma wd es ev rx msg s v = rbind (take_msg wd v2) (\<lambda>(r, s3). Inr (r, s1, s3))" "arrived ev raddr buf wa t ?vals v v2 ep" by blast
  from take_answer [OF msg(1) w(1) _ buf(2) f(3) r(2) v(1)] buf(1) obtain v3 where
    t: "take_msg wd v2 = Inr (Some (pulled wa wk t sender self (rm_meta msg) ?vals), v3)" "load_bytes (ho_mem (rv_host v3)) wa (tn_len t) = ?vals"
      "worker_link ev sender idx raddr rkey ml wa wk t v3" "rv_my_node v3 = rv_my_node v" unfolding f(2) by auto
  have "pull_link wd es ev n sender self ml k t wa wk r s1 v3"
    using s1(5) t(4) f by (intro pull_linkI [OF s1(4) t(3) v(2)]) (simp_all add: same_links_def)
  with t(1,2) show ?thesis by (simp add: r(1))
qed

text \<open>The state before the first answer: the server knows the place of the tensor from a push of the worker, where it is in a registered region.\<close>

definition answer_ready :: "rdma_world \<Rightarrow> nat \<Rightarrow> nat \<Rightarrow> int \<Rightarrow> rmsg \<Rightarrow> tensor \<Rightarrow> nat \<Rightarrow> nat \<Rightarrow> rdma_van \<Rightarrow> rdma_van \<Rightarrow> bool" where
  "answer_ready wd es ev sender msg t wa wk s v \<longleftrightarrow> sender_ready wd es msg t s \<and> receiver_ready wd ev (pack_meta_len (rm_meta msg)) t v \<and> \<not> rv_is_server v
     \<and> map_option ep_free_start_ctx (rv_eps s es) \<noteq> Some [] \<and> map_option ep_free_reply_ctx (rv_eps v ev) \<noteq> Some []
     \<and> rv_tensor_info s (me_key (rm_meta msg)) (me_recver (rm_meta msg)) = Some (int (tn_len t), wa, i32 (int wk))
     \<and> rv_pull_addr s (me_key (rm_meta msg)) (me_recver (rm_meta msg)) = None
     \<and> rv_recv_buffers v = [] \<and> map_option ep_node_id (rv_eps v ev) = Some sender
     \<and> in_region (rv_host v) wk wa (tn_len t) \<and> wa + tn_len t \<le> ho_brk (rv_host v) \<and> wk < 2 ^ 32"

lemma first_answer:
  assumes dma: "dma_ok dma" and msg: "pull_answer msg t" and f: "answer_ready wd es ev sender msg t wa wk s v"
  defines "r \<equiv> tensor_mr wd t s" and "self \<equiv> nd_id (rv_my_node v)" and "vals \<equiv> load_bytes (ho_mem (rv_host s)) (tn_addr t) (tn_len t)"
  shows "\<exists>s' v'. message_round dma wd es ev rx msg s v = Inr (Some (pulled wa wk t sender self (rm_meta msg) vals), s', v')
    \<and> load_bytes (ho_mem (rv_host v')) wa (tn_len t) = vals
    \<and> pull_link wd es ev (me_recver (rm_meta msg)) sender self (pack_meta_len (rm_meta msg)) (me_key (rm_meta msg)) t wa wk r s' v'"
proof -
  let ?ml = "pack_meta_len (rm_meta msg)" and ?n = "me_recver (rm_meta msg)" and ?k = "me_key (rm_meta msg)" and ?M = "with_place wa wk t msg"
  have a: "sender_ready wd es msg t s" "receiver_ready wd ev ?ml t v" "\<not> rv_is_server v" "over_network es s" "over_network ev v"
    and k: "rv_tensor_info s ?k ?n = Some (int (tn_len t), wa, i32 (int wk))" "rv_pull_addr s ?k ?n = None"
    and b: "rv_recv_buffers v = []" "map_option ep_node_id (rv_eps v ev) = Some sender" "in_region (rv_host v) wk wa (tn_len t)"
      "wa + tn_len t \<le> ho_brk (rv_host v)" "wk < 2 ^ 32"
    using f by (simp_all add: answer_ready_def sender_ready_def receiver_ready_def)
  have brk: "tn_addr t + tn_len t \<le> ho_brk (rv_host s)" "rv_endpoints s ?n = Some es" using a(1) by (simp_all add: sender_ready_def)
  have ml: "?ml < 2 ^ 31" "wa < 2 ^ 64" using a(2) b(4) by (simp_all add: receiver_ready_def)
  obtain ep c cs where ep: "rv_eps s es = Some ep" "ep_free_start_ctx ep = c # cs"
    using over_network_ep [OF a(4)] f unfolding answer_ready_def by blast
  obtain ep' c' cs' where ep': "rv_eps v ev = Some ep'" "ep_free_reply_ctx ep' = c' # cs'"
    using over_network_ep [OF a(5)] f unfolding answer_ready_def by blast
  note p = answer_facts [OF msg ml(2), of wk]
  have g: "rm_data msg = tensor_data t" "0 < tn_len t" "?n \<noteq> kEmpty" "\<not> me_push (rm_meta msg)" "wf_meta (rm_meta ?M)"
    using msg p(1) by (simp_all add: pull_answer_def)
  obtain x s1 where s1: "rv_SendMsg wd msg s = Inr (x, s1)" "staged_send es c ?M r t s s1"
    using first_message [OF g(1-3) answer_valid [OF msg] a(1) ep r_def [THEN meta_eq_to_obj_eq], of ?M] g k answer_prepared [OF msg] by (auto simp: addr_map_def Let_def)
  have W: "writes_to wd es ?M r t (tn_addr t) (mr_lkey r) (\<lambda>_. wa) (\<lambda>_. wk)" by (rule answer_writes [OF msg ml(2) b(5) ml(1)])
  have T: "\<forall>s1 b raddr rkey idx. answered wd ev c' b ?ml t raddr rkey idx v s1 \<longrightarrow> target wa wk raddr ?ml t s1"
    using b(3,4) by (auto simp: answered_def target_def in_region_def)
  have V: "IsValidPushpull (rm_meta ?M)" "pack_meta_len (rm_meta ?M) = ?ml" "rv_endpoints s (me_recver (rm_meta ?M)) = Some es" "me_recver (rm_meta ?M) = ?n"
    using p(2) brk by simp_all
  obtain buf b' p' raddr rkey idx s2 v1 v2 ep2 where
    R: "PackMeta (rm_meta ?M) = Inr buf" "length buf = ?ml"
      "message_round dma wd es ev rx msg s v = rbind (take_msg wd v2) (\<lambda>(r, s3). Inr (r, s2, s3))"
      "arrived ev raddr buf wa t vals v1 v2 ep2" "answered wd ev c' b' ?ml t raddr rkey idx v v1"
      "sender_link es (me_push (rm_meta ?M)) (me_key (rm_meta ?M)) ?n ?ml t (mrs_of ?M r t) r b' p' raddr rkey idx s2"
      "rv_tensor_info s2 = rv_tensor_info s"
    using rendezvous_round [OF dma s1 V(1-3) W brk(1) brk(1) a(2) ep' T, of rx] unfolding V(4) vals_def by metis
  have v1: "worker_link ev sender idx raddr rkey ?ml wa wk t v1" "rv_my_node v1 = rv_my_node v" "raddr + 2 ^ 31 \<le> 2 ^ 64"
    using R(5) a(3) b by (auto simp: answered_def worker_link_def reply_room_def in_region_def slot_def)
  from take_answer [OF msg ml(2) _ R(2) ml(1) R(4) v1(1)] R(1) obtain v3 where
    t: "take_msg wd v2 = Inr (Some (pulled wa wk t sender self (rm_meta msg) vals), v3)" "load_bytes (ho_mem (rv_host v3)) wa (tn_len t) = vals"
      "worker_link ev sender idx raddr rkey ?ml wa wk t v3" "rv_my_node v3 = rv_my_node v" unfolding self_def v1(2) by auto
  have l: "sender_link es False ?k ?n ?ml t [] r b' p' raddr rkey idx s2" using R(6) g(4) by (simp add: answer_facts(4) [OF msg ml(2)])
  have "pull_link wd es ev ?n sender self ?ml ?k t wa wk r s2 v3"
    using t(4) R(7) k(1) ml(1) by (intro pull_linkI [OF l t(3) v1(3)]) (simp_all add: self_def)
  with t(1,2) show ?thesis by (simp add: R(3))
qed


text \<open>A server whose values change, and which answers pulls of them; with what the worker is handed and what its tensor is afterwards.\<close>

fun pull_rounds ::
    "dma \<Rightarrow> rdma_world \<Rightarrow> nat \<Rightarrow> nat \<Rightarrow> nat \<Rightarrow> tensor \<Rightarrow> nat \<Rightarrow> (rmsg \<times> byte list) list \<Rightarrow> rdma_van \<Rightarrow> rdma_van
      \<Rightarrow> ((meta \<times> byte list list) option \<times> byte list) list res" where
  "pull_rounds dma wd es ev rx t wa [] s v = Inr []"
| "pull_rounds dma wd es ev rx t wa ((msg, vals) # ps) s v =
     rbind (message_round dma wd es ev rx msg (set_values t vals s) v) (\<lambda>(out, s', v').
     rbind (pull_rounds dma wd es ev rx t wa ps s' v') (\<lambda>outs. Inr ((out, load_bytes (ho_mem (rv_host v')) wa (tn_len t)) # outs)))"

definition answers_of :: "tensor \<Rightarrow> int \<Rightarrow> nat \<Rightarrow> nat \<Rightarrow> (rmsg \<times> byte list) list \<Rightarrow> bool" where
  "answers_of t n ml k ps \<longleftrightarrow> (\<forall>(msg, vals) \<in> set ps. pull_answer msg t \<and> me_recver (rm_meta msg) = n \<and> pack_meta_len (rm_meta msg) = ml
     \<and> me_key (rm_meta msg) = k \<and> length vals = tn_len t)"

lemma answers_of_Cons:
  "answers_of t n ml k ((msg, vals) # ps) \<longleftrightarrow> answers_of t n ml k ps \<and> pull_answer msg t \<and> me_recver (rm_meta msg) = n \<and> pack_meta_len (rm_meta msg) = ml
     \<and> me_key (rm_meta msg) = k \<and> length vals = tn_len t"
  by (auto simp: answers_of_def)

lemma set_values_pull_link:
  assumes "pull_link wd es ev n sender self ml k t wa wk r s v" and "length vals = tn_len t"
  shows "pull_link wd es ev n sender self ml k t wa wk r (set_values t vals s) v"
proof -
  have "sender_link es False k n ml t [] r b p raddr rkey idx (set_values t vals s)" if "sender_link es False k n ml t [] r b p raddr rkey idx s"
    for b p raddr rkey idx using set_values_sender [OF that assms(2)] .
  moreover have "rv_tensor_info (set_values t vals s) = rv_tensor_info s" by (simp add: set_values_def)
  ultimately show ?thesis using assms(1) unfolding pull_link_def by metis
qed

lemma later_answers:
  assumes "dma_ok dma" and "wa < 2 ^ 64" and "wk < 2 ^ 32" and "pull_link wd es ev n sender self ml k t wa wk r s v" and "answers_of t n ml k ps"
  shows "pull_rounds dma wd es ev rx t wa ps s v = Inr (map (\<lambda>(m, vs). (Some (pulled wa wk t sender self (rm_meta m) vs), vs)) ps)"
  using assms(4,5)
proof (induction ps arbitrary: s v)
  case (Cons a ps)
  obtain msg vals where a: "a = (msg, vals)" by (cases a)
  have p: "answers_of t n ml k ps" "pull_answer msg t" "me_recver (rm_meta msg) = n" "pack_meta_len (rm_meta msg) = ml" "me_key (rm_meta msg) = k"
    "length vals = tn_len t" using Cons.prems(2) unfolding a answers_of_Cons by blast+
  from next_answer [OF assms(1) p(2-5) assms(2,3) set_values_pull_link [OF Cons.prems(1) p(6)], of rx] obtain s' v' where
    "message_round dma wd es ev rx msg (set_values t vals s) v = Inr (Some (pulled wa wk t sender self (rm_meta msg) vals), s', v')"
    "load_bytes (ho_mem (rv_host v')) wa (tn_len t) = vals" "pull_link wd es ev n sender self ml k t wa wk r s' v'"
    using p(6) by (auto simp: set_values_def load_store_bytes)
  with Cons.IH [OF this(3) p(1)] show ?case by (simp add: a)
qed simp

text \<open>C8: A server answers the pulls of a worker over RDMA again and again, each time with its current values, from a state where it knows the
  place of the tensor at the worker (\<open>answer_ready\<close>, which a push brings about) and over any device that stores what is written into a
  registered region. After each answer the tensor in the worker's memory holds exactly the server's values of that time, and
  \<open>RecvMsg\<close> at the worker returns a message with the metadata of the answer, the key, these values and their length.\<close>

theorem rdma_pull_rounds:
  assumes "dma_ok dma" and "answer_ready wd es ev sender msg t wa wk s v"
    and "answers_of t (me_recver (rm_meta msg)) (pack_meta_len (rm_meta msg)) (me_key (rm_meta msg)) ((msg, vals) # ps)"
  shows "pull_rounds dma wd es ev rx t wa ((msg, vals) # ps) s v
    = Inr (map (\<lambda>(m, vs). (Some (pulled wa wk t sender (nd_id (rv_my_node v)) (rm_meta m) vs), vs)) ((msg, vals) # ps))"
proof -
  let ?n = "me_recver (rm_meta msg)" and ?ml = "pack_meta_len (rm_meta msg)" and ?k = "me_key (rm_meta msg)" and ?self = "nd_id (rv_my_node v)"
  have p: "answers_of t ?n ?ml ?k ps" "pull_answer msg t" "length vals = tn_len t" using assms(3) unfolding answers_of_Cons by blast+
  have w: "wa < 2 ^ 64" "wk < 2 ^ 32" using assms(2) by (simp_all add: answer_ready_def receiver_ready_def)
  have "answer_ready wd es ev sender msg t wa wk (set_values t vals s) v"
    using assms(2) by (simp add: answer_ready_def sender_ready_def set_values_def over_network_def)
  from first_answer [OF assms(1) p(2) this, of rx] obtain s' v' where
    "message_round dma wd es ev rx msg (set_values t vals s) v = Inr (Some (pulled wa wk t sender ?self (rm_meta msg) vals), s', v')"
    "load_bytes (ho_mem (rv_host v')) wa (tn_len t) = vals"
    "pull_link wd es ev ?n sender ?self ?ml ?k t wa wk (tensor_mr wd t s) s' v'"
    unfolding tensor_mr_set_values using p(3) by (auto simp: set_values_def load_store_bytes)
  with later_answers [OF assms(1) w this(3) p(1)] show ?thesis by simp
qed

definition ex_answer :: "int \<Rightarrow> rmsg" where
  "ex_answer ts = \<lparr>rm_meta = Meta\<lparr>me_key := 7, me_timestamp := ts, me_recver := 9\<rparr>, rm_data = tensor_data ex_tensor\<rparr>"

definition ex_server :: rdma_van where
  "ex_server = (ex_van True 8 9)\<lparr>rv_tensor_info := (\<lambda>k. if k = 7 then [9 \<mapsto> (4, 30000, 55)] else Map.empty)\<rparr>"

definition ex_worker :: rdma_van where
  "ex_worker = (let v = ex_van False 9 8 in
     v\<lparr>rv_host := (rv_host v)\<lparr>ho_regions := [\<lparr>mr_addr = 30000, mr_len = 4, mr_lkey = 5, mr_rkey = 55\<rparr>]\<rparr>\<rparr>)"

theorem rdma_pull_rounds_witness:
  "\<exists>outs. pull_rounds device ex_world 1 1 0 ex_tensor 30000 [(ex_answer 0, [1, 2, 3, 4]), (ex_answer 1, [5, 6, 7, 8])] ex_server ex_worker = Inr outs
    \<and> map snd outs = [[1, 2, 3, 4], [5, 6, 7, 8]]"
proof -
  have m: "pull_answer (ex_answer 0) ex_tensor" "pull_answer (ex_answer 1) ex_tensor"
    by (simp_all add: pull_answer_def ex_answer_def ex_tensor_def wf_meta_def Meta_def Control_def wf_int_def kEmpty_def)
  have a: "answers_of ex_tensor (me_recver (rm_meta (ex_answer 0))) (pack_meta_len (rm_meta (ex_answer 0))) (me_key (rm_meta (ex_answer 0)))
      [(ex_answer 0, [1, 2, 3, 4]), (ex_answer 1, [5, 6, 7, 8])]"
    using m by (simp add: answers_of_def ex_answer_def ex_tensor_def pack_meta_len_def)
  have f: "answer_ready ex_world 1 1 8 (ex_answer 0) ex_tensor 30000 55 ex_server ex_worker"
    by (simp add: answer_ready_def sender_ready_def receiver_ready_def over_network_def ex_server_def ex_worker_def ex_van_def ex_endpoint_def new_Endpoint_def
        ex_answer_def ex_tensor_def ex_world_def pack_meta_len_def Meta_def Control_def sizeof_RawMeta_def pool_ok_def in_region_def i32_def)
  show ?thesis using rdma_pull_rounds [OF device_ok f a, of 0] by simp
qed

end
