(* ===== verification/Rdma_Pool.thy ===== *)
theory Rdma_Pool
  imports Rdma_Pull
begin

text \<open>
  The numbers of receive buffers over the life of an RDMA van, whatever messages it sends and takes and whatever completions arrive.
\<close>

section \<open>Events\<close>

datatype rdma_event = Completion nat wc | Send_Msg rmsg | Recv_Msg | Copy_Turn nat nat

definition do_event :: "rdma_world \<Rightarrow> rdma_event \<Rightarrow> rdma_van \<Rightarrow> rdma_van res" where
  "do_event wd ev v = (case ev of
       Completion e w \<Rightarrow> handle_wc wd e w v
     | Send_Msg msg \<Rightarrow> rbind (rv_SendMsg wd msg v) (\<lambda>(n, v'). Inr v')
     | Recv_Msg \<Rightarrow> rbind (rv_RecvMsg wd v) (\<lambda>(m, v'). Inr v')
     | Copy_Turn e i \<Rightarrow> rbind (AsyncCopyThread_turn e i v) (\<lambda>v'. Inr (case v' of None \<Rightarrow> v | Some v1 \<Rightarrow> v1)))"

fun is_rdv_start :: "rdma_event \<Rightarrow> bool" where
  "is_rdv_start (Completion e (Wc_Recv c (Rdv_Start req))) = True"
| "is_rdv_start ev = False"

section \<open>What leaves the pool alone\<close>

text \<open>\<open>ensures m P\<close>: if \<open>m\<close> returns, its result has the property \<open>P\<close>. The rules \<open>ensures_simps\<close> compute what is needed before a
  sequence of calls.\<close>

definition ensures :: "'a res \<Rightarrow> ('a \<Rightarrow> bool) \<Rightarrow> bool" where
  "ensures m P \<longleftrightarrow> (\<forall>x. m = Inr x \<longrightarrow> P x)"

named_theorems ensures_simps
named_theorems ensures_intros

lemma ensures_Inl [ensures_simps]: "ensures (Inl e) P"
  by (simp add: ensures_def)

lemma ensures_Inr [ensures_simps]: "ensures (Inr x) P = P x"
  by (simp add: ensures_def)

lemma ensures_rbind [ensures_simps]: "ensures (rbind m f) P = ensures m (\<lambda>x. ensures (f x) P)"
  by (auto simp: ensures_def rbind_eq_Inr_conv)

lemma ensuresI: "(\<And>x. m = Inr x \<Longrightarrow> P x) \<Longrightarrow> ensures m P"
  by (simp add: ensures_def)

lemma ensures_mono: "ensures m Q \<Longrightarrow> (\<And>x. Q x \<Longrightarrow> P x) \<Longrightarrow> ensures m P"
  by (auto simp: ensures_def)

lemma ensures_any: "(\<And>x. P x) \<Longrightarrow> ensures m P"
  by (simp add: ensures_def)

text \<open>A call that leaves the pool as it is.\<close>

abbreviation keeps_pool :: "rdma_van res \<Rightarrow> rdma_van \<Rightarrow> bool" where
  "keeps_pool m v \<equiv> ensures m (\<lambda>v'. rv_addr_pool v' = rv_addr_pool v)"

lemma set_ep_pool [simp]: "rv_addr_pool (set_ep e ep v) = rv_addr_pool v"
  by (simp add: set_ep_def)

lemma post_send_pool [simp]: "rv_addr_pool (post_send e w v) = rv_addr_pool v"
  by (simp add: post_send_def)

lemma set_ipc_pool [simp]: "rv_addr_pool (set_ipc e ip v) = rv_addr_pool v"
  by (simp add: set_ipc_def split: option.split)

lemma set_addr_pool [simp]: "rv_addr_pool (set_addr p k n t v) = rv_addr_pool v"
  by (simp add: set_addr_def)

lemma RegisterMemory_pool [simp]: "rv_addr_pool (RegisterMemory wd k ds v) = rv_addr_pool v"
  by (induction wd k ds v rule: RegisterMemory.induct) (auto split: prod.split)

lemma GetRemote_pool: "GetRemoteAndLocalInfo k p n v = (t, v') \<Longrightarrow> rv_addr_pool v' = rv_addr_pool v"
  by (auto simp: GetRemoteAndLocalInfo_def split: option.splits)

lemma CreateSarray_pool: "CreateFunctionalSarray bs v = (a, v') \<Longrightarrow> rv_addr_pool v' = rv_addr_pool v"
  by (auto simp: CreateFunctionalSarray_def split: prod.splits)

lemmas reads = ensures_any [of _ "get_ep e v" for e v] ensures_any [of _ "get_msgbuf b v" for b v] ensures_any [of _ "check b w" for b w]
  ensures_any [of _ "LocalKey p al" for p al] ensures_any [of _ "PackMeta m" for m] ensures_any [of _ "get_trans e v" for e v]
  ensures_any [of _ "GetSharedMemory wd p k ip" for wd p k ip] ensures_any [of _ "al_Alloc hw n st" for hw n st]
  ensures_any [of _ "AddMeta m v" for m v] ensures_any [of _ "PackWorkerTensorAddress m v" for m v]
  ensures_any [of _ "UnpackMeta bs m" for bs m] ensures_any [of _ "GetFirstMsg b v" for b v]

lemma WriteImm_pool: "keeps_pool (RDMAWriteWithImm e b a k i v) v"
  by (auto simp: RDMAWriteWithImm_def ensures_simps intro!: reads)

lemma RdvBegin_pool: "keeps_pool (SendRendezvousBegin e m b v) v"
  by (auto simp: SendRendezvousBegin_def ensures_simps Let_def intro!: reads split: option.split)

lemma Send_pool: "keeps_pool (rt_Send e b t v) v"
  by (cases t) (simp add: rt_Send_def WriteImm_pool)

lemma tr_SendPushRequest_pool: "keeps_pool (tr_SendPushRequest wd tr e b t v) v"
  by (auto simp: tr_SendPushRequest_def rt_SendPushRequest_def ensures_simps Send_pool split: transport.split prod.split
      intro!: reads ensures_mono [OF WriteImm_pool])

lemma SendMeta_pool: "keeps_pool (rt_SendMeta e b t v) v"
  by (auto simp: rt_SendMeta_def ensures_simps Send_pool intro!: reads)

lemma tr_SendPullResponse_pool: "keeps_pool (tr_SendPullResponse wd tr e m b t l v) v"
  by (auto simp: tr_SendPullResponse_def rt_SendPullResponse_def ipc_SendPullResponse_def ensures_simps Let_def
      split: transport.split prod.split intro!: reads ensures_mono [OF Send_pool])

lemma send_data_pool: "keeps_pool (send_data_msg wd e m b t v) v"
  by (auto simp: send_data_msg_def ensures_simps Let_def tr_SendPushRequest_pool SendMeta_pool tr_SendPullResponse_pool
      split: option.split intro!: reads)

lemma pack_into_pool: "keeps_pool (pack_into m p v) v"
  by (auto simp: pack_into_def ensures_simps Let_def intro!: reads)

lemma PrepareNew_pool: "ensures (PrepareNewMsgBuf wd m v) (\<lambda>(b, v'). rv_addr_pool v' = rv_addr_pool v)"
  by (auto simp: PrepareNewMsgBuf_def ensures_simps Let_def split: option.split intro!: reads ensures_mono [OF pack_into_pool])

lemma StoreMsgBuf_pool: "keeps_pool (StoreMsgBuf b m v) v"
  by (auto simp: StoreMsgBuf_def ensures_simps intro!: reads)

lemma PrepareData_pool: "keeps_pool (PrepareData m b v) v"
  by (auto simp: PrepareData_def ensures_simps Let_def split: option.split prod.split intro!: reads)

lemma first_send_pool: "keeps_pool (first_send wd e m d v) v"
  by (auto simp: first_send_def ensures_simps
      intro!: ensures_mono [OF PrepareNew_pool] ensures_mono [OF StoreMsgBuf_pool] ensures_mono [OF PrepareData_pool] ensures_mono [OF RdvBegin_pool])

lemma SendMsg_pool: "ensures (rv_SendMsg wd m v) (\<lambda>(n, v'). rv_addr_pool v' = rv_addr_pool v)"
  by (auto simp: rv_SendMsg_def Let_def ensures_simps dest!: GetRemote_pool split: option.split prod.split
      intro!: reads ensures_mono [OF first_send_pool] ensures_mono [OF pack_into_pool] ensures_mono [OF send_data_pool])

lemma StoreWorker_pool: "keeps_pool (StoreWorkerTensorAddress m v) v"
  by (auto simp: StoreWorkerTensorAddress_def ensures_simps Let_def split: option.split prod.split intro!: reads)

lemma key_array_pool: "key_array m v = (ks, v') \<Longrightarrow> rv_addr_pool v' = rv_addr_pool v"
  by (auto simp: key_array_def dest: CreateSarray_pool)

lemma kv_arrays_pool: "kv_arrays m vals v = (r, v') \<Longrightarrow> rv_addr_pool v' = rv_addr_pool v"
  by (auto simp: kv_arrays_def dest!: key_array_pool CreateSarray_pool split: prod.splits)

lemma tr_RecvPushRequest_pool: "ensures (tr_RecvPushRequest wd tr e m bc n v) (\<lambda>(r, v'). rv_addr_pool v' = rv_addr_pool v)"
  by (auto simp: tr_RecvPushRequest_def rt_RecvPushRequest_def ipc_RecvPushRequest_def ensures_simps Let_def dest!: kv_arrays_pool key_array_pool CreateSarray_pool
      split: transport.split prod.split intro!: reads)

lemma other_recv_pool:
  "ensures (rt_RecvPullRequest m v) (\<lambda>(r, v'). rv_addr_pool v' = rv_addr_pool v)"
  "ensures (rt_RecvPushResponse m bc v) (\<lambda>(r, v'). rv_addr_pool v' = rv_addr_pool v)"
  "ensures (rt_RecvPullResponse m v) (\<lambda>(r, v'). rv_addr_pool v' = rv_addr_pool v)"
  by (auto simp: rt_RecvPullRequest_def rt_RecvPushResponse_def rt_RecvPullResponse_def ensures_simps dest!: kv_arrays_pool key_array_pool
      split: prod.split intro!: reads)

lemma RecvMsg_pool: "ensures (rv_RecvMsg wd v) (\<lambda>(r, v'). rv_addr_pool v' = rv_addr_pool v)"
  by (auto simp: rv_RecvMsg_def Let_def ensures_simps split: option.split prod.split
      intro!: reads ensures_mono [OF tr_RecvPushRequest_pool] ensures_mono [OF StoreWorker_pool] ensures_mono [OF other_recv_pool(1)]
        ensures_mono [OF other_recv_pool(2)] ensures_mono [OF other_recv_pool(3)])

lemma AsyncCopy_pool: "ensures (AsyncCopyThread_turn e i v) (\<lambda>r. case r of None \<Rightarrow> True | Some v' \<Rightarrow> rv_addr_pool v' = rv_addr_pool v)"
  by (auto simp: AsyncCopyThread_turn_def Let_def ensures_simps split: option.split prod.split transport.split intro!: reads ensures_mono [OF Send_pool])

lemma handle_reply_pool: "keeps_pool (handle_reply wd e resp v) v"
  by (auto simp: handle_reply_def StoreRemoteAndLocalInfo_def ReleaseFirstMsg_def Let_def ensures_simps dest!: GetRemote_pool split: prod.split
      intro!: reads ensures_mono [OF WriteImm_pool] ensures_mono [OF send_data_pool])

section \<open>Numbers are taken by rendezvous, and kept\<close>

text \<open>\<open>pool_grows n p q\<close>: \<open>n\<close> numbers were taken between \<open>p\<close> and \<open>q\<close>, and a number that was in use stands for the same buffer.\<close>

definition pool_grows :: "nat \<Rightarrow> 'a addr_pool \<Rightarrow> 'a addr_pool \<Rightarrow> bool" where
  "pool_grows n p q \<longleftrightarrow> pool_ok q \<and> length (ap_indices q) + n = length (ap_indices p) \<and> pool_objects p \<subseteq>\<^sub>m pool_objects q"

lemma StoreAddress_grows: "pool_ok p \<Longrightarrow> ensures (ap_StoreAddress x p) (\<lambda>(i, q). pool_grows 1 p q)"
  using addr_pool.store_free [of p x] addr_pool.store_full [of p x]
  by (cases "ap_indices p") (auto simp: ensures_simps pool_grows_def map_le_def dom_def)

lemma RdvReply_pool: "pool_ok (rv_addr_pool v) \<Longrightarrow> ensures (SendRendezvousReply wd e req v) (\<lambda>v'. pool_grows 1 (rv_addr_pool v) (rv_addr_pool v'))"
  by (auto simp: SendRendezvousReply_def RemoteKey_def Let_def ensures_simps split: option.split prod.split
      intro!: reads ensures_any [of _ "Addr2MR p al" for p al] ensures_mono [OF StoreAddress_grows])

lemma Release_pool: "keeps_pool (ReleaseWorkRequestContext c e v) v"
  by (auto simp: ReleaseWorkRequestContext_def ensures_simps intro!: reads)

lemma pool_grows_0: "pool_ok p \<Longrightarrow> pool_grows 0 p p"
  by (simp add: pool_grows_def)

lemma handle_wc_pool:
  assumes "pool_ok (rv_addr_pool v)"
  shows "ensures (handle_wc wd e w v) (\<lambda>v'. pool_grows (if is_rdv_start (Completion e w) then 1 else 0) (rv_addr_pool v) (rv_addr_pool v'))"
proof (cases w)
  case (Wc_Recv c r)
  then show ?thesis using RdvReply_pool [OF assms] pool_grows_0 [OF assms]
    by (cases r) (auto simp: handle_wc_def ensures_simps
        intro!: reads ensures_mono [OF RdvReply_pool [OF assms]] ensures_mono [OF Release_pool] ensures_mono [OF handle_reply_pool])
qed (use pool_grows_0 [OF assms] in \<open>auto simp: handle_wc_def ensures_simps intro!: ensures_mono [OF Release_pool] ensures_any [of _ "ap_GetAddress i p" for i p]\<close>)

lemma do_event_pool:
  assumes "pool_ok (rv_addr_pool v)"
  shows "ensures (do_event wd ev v) (\<lambda>v'. pool_grows (length (filter is_rdv_start [ev])) (rv_addr_pool v) (rv_addr_pool v'))"
proof (cases ev)
  case (Completion e w)
  then show ?thesis using handle_wc_pool [OF assms, of wd e w] by (simp add: do_event_def split: if_splits)
qed (use pool_grows_0 [OF assms] in \<open>auto simp: do_event_def ensures_simps split: option.splits
        intro!: ensures_mono [OF SendMsg_pool] ensures_mono [OF RecvMsg_pool] ensures_mono [OF AsyncCopy_pool]\<close>)

lemma pool_grows_trans: "pool_grows m p q \<Longrightarrow> pool_grows n q r \<Longrightarrow> pool_grows (m + n) p r"
  by (auto simp: pool_grows_def intro: map_le_trans)

lemma events_pool:
  "pool_ok (rv_addr_pool v) \<Longrightarrow> rfold (do_event wd) evs v = Inr v' \<Longrightarrow> pool_grows (length (filter is_rdv_start evs)) (rv_addr_pool v) (rv_addr_pool v')"
proof (induction evs arbitrary: v)
  case (Cons ev evs)
  from Cons.prems(2) obtain v1 where v1: "do_event wd ev v = Inr v1" "rfold (do_event wd) evs v1 = Inr v'" by (auto elim: rbind_InrE)
  then have g: "pool_grows (length (filter is_rdv_start [ev])) (rv_addr_pool v) (rv_addr_pool v1)"
    using do_event_pool [OF Cons.prems(1), of wd ev] by (simp add: ensures_simps)
  then have "pool_ok (rv_addr_pool v1)" by (simp add: pool_grows_def)
  from pool_grows_trans [OF g Cons.IH [OF this v1(2)]] show ?case by (simp split: if_splits)
qed (simp add: pool_grows_0)

lemma GetAddress_iff: "ap_GetAddress i p = Inr x \<longleftrightarrow> pool_objects p i = Some x"
  by (auto simp: ap_GetAddress_def pool_at_def pool_objects_def split: option.splits)

text \<open>C25: Over the life of an RDMA van, through any sequence of sends, receives, copies and completions that succeed, a number under which a
  receive buffer was announced stands for the same buffer for ever, so that a write that arrives with it finds its buffer however late; and
  no more rendezvous are answered than the pool has entries (10240 if nothing is configured), as no number is given back.\<close>

theorem rdma_pool_numbers:
  assumes "AddressPool env = Inr (rv_addr_pool v)" and "rfold (do_event wd) evs v = Inr v1" and "rfold (do_event wd) evs' v1 = Inr v2"
  shows "int (length (filter is_rdv_start (evs @ evs'))) \<le> GetEnv env ''BYTEPS_ADDRESS_POOL_SIZE'' 10240
    \<and> (\<forall>i bc. ap_GetAddress i (rv_addr_pool v1) = Inr bc \<longrightarrow> ap_GetAddress i (rv_addr_pool v2) = Inr bc)"
proof -
  from AddressPool_ok [OF assms(1)] have p: "pool_ok (rv_addr_pool v)"
    "int (length (ap_indices (rv_addr_pool v))) = GetEnv env ''BYTEPS_ADDRESS_POOL_SIZE'' 10240" by simp_all
  note g1 = events_pool [OF p(1) assms(2)]
  then have "pool_ok (rv_addr_pool v1)" by (simp add: pool_grows_def)
  note g2 = events_pool [OF this assms(3)]
  have "int (length (filter is_rdv_start (evs @ evs'))) \<le> int (length (ap_indices (rv_addr_pool v)))"
    using g1 g2 by (simp add: pool_grows_def)
  moreover have "pool_objects (rv_addr_pool v2) i = Some bc" if "pool_objects (rv_addr_pool v1) i = Some bc" for i bc
    using g2 that by (simp add: pool_grows_def map_le_def dom_def)
  ultimately show ?thesis using p(2) by (simp add: GetAddress_iff)
qed

definition ex_env :: ps_env where
  "ex_env = \<lparr>pe_kvs = [''BYTEPS_ADDRESS_POOL_SIZE'' \<mapsto> ''2''], pe_system = Map.empty\<rparr>"

definition ex_start :: rdma_event where
  "ex_start = Completion 1 (Wc_Recv (Rx_Ctx 0) (Rdv_Start (tensor_start 100 5 ex_tensor)))"

theorem rdma_pool_numbers_witness:
  "\<exists>v1 v2. rfold (do_event ex_world) [Recv_Msg, ex_start] (ex_van True 8 9) = Inr v1 \<and> rfold (do_event ex_world) [Recv_Msg] v1 = Inr v2
    \<and> int (length (filter is_rdv_start ([Recv_Msg, ex_start] @ [Recv_Msg]))) \<le> GetEnv ex_env ''BYTEPS_ADDRESS_POOL_SIZE'' 10240
    \<and> (\<forall>i bc. ap_GetAddress i (rv_addr_pool v1) = Inr bc \<longrightarrow> ap_GetAddress i (rv_addr_pool v2) = Inr bc)"
proof -
  let ?s = "ex_van True 8 9"
  have r: "receiver_ready ex_world 1 100 ex_tensor ?s" "rv_eps ?s 1 = Some (ex_endpoint 9)" "ep_free_reply_ctx (ex_endpoint 9) = [0, 1]"
    by (simp_all add: receiver_ready_def over_network_def ex_van_def ex_endpoint_def new_Endpoint_def ex_tensor_def ex_world_def pool_ok_def)
  have "rv_RecvMsg ex_world ?s = Inr (None, ?s)" by (simp add: rv_RecvMsg_def ex_van_def tsq_WaitAndPop_def)
  moreover obtain v1 where v1: "do_event ex_world ex_start ?s = Inr v1" "rv_recv_buffers v1 = []"
    using rendezvous_reply [OF r(1-3), of 0 5] by (auto simp: do_event_def ex_start_def answered_def ex_van_def)
  moreover have "rv_RecvMsg ex_world v1 = Inr (None, v1)" using v1(2) by (simp add: rv_RecvMsg_def tsq_WaitAndPop_def)
  ultimately have e: "rfold (do_event ex_world) [Recv_Msg, ex_start] ?s = Inr v1" "rfold (do_event ex_world) [Recv_Msg] v1 = Inr v1"
    by (simp_all add: do_event_def [of _ Recv_Msg])
  have "AddressPool ex_env = Inr (rv_addr_pool ?s)"
    by (simp add: AddressPool_def ex_van_def GetEnv_def env_find_def ex_env_def demo_atoi upt_rec numeral_2_eq_2)
  from rdma_pool_numbers [OF this e] e show ?thesis by blast
qed

end
