(* ===== verification/Test_App.thy ===== *)
theory Test_App
  imports Communicator
begin

text \<open>
  The test application of the transport (\<open>src/src/mlt/test_mlt.cc\<close>) and its string helpers (\<open>src/src/mlt/string_helper.h\<close>): the host file, the options, and the
  tests over the communicator. The barrier of the application is in \<open>Test_Barrier\<close>.
\<close>

section \<open>Strings\<close>

text \<open>The first and the last position whose character satisfies a predicate; \<open>None\<close> is \<open>npos\<close>.\<close>

fun find_first :: "('a \<Rightarrow> bool) \<Rightarrow> 'a list \<Rightarrow> nat option" where
  "find_first P [] = None"
| "find_first P (x # xs) = (if P x then Some 0 else map_option Suc (find_first P xs))"

fun find_last :: "('a \<Rightarrow> bool) \<Rightarrow> 'a list \<Rightarrow> nat option" where
  "find_last P [] = None"
| "find_last P (x # xs) = (case find_last P xs of Some i \<Rightarrow> Some (Suc i) | None \<Rightarrow> if P x then Some 0 else None)"

definition substr :: "string \<Rightarrow> nat \<Rightarrow> nat \<Rightarrow> string res" where
  "substr s pos n = (if pos \<le> length s then Inr (take n (drop pos s)) else Inl (Fatal ''std::out_of_range''))"

text \<open>\<open>std::stoi\<close>, with the number of characters it used.\<close>

definition sign_of :: "string \<Rightarrow> string \<times> string" where
  "sign_of t = (case t of c # u \<Rightarrow> if c = CHR ''-'' \<or> c = CHR ''+'' then ([c], u) else ([], t) | [] \<Rightarrow> ([], []))"

definition stoi :: "string \<Rightarrow> (int \<times> nat) res" where
  "stoi s =
     (let sp = takeWhile is_space s; (sg, u) = sign_of (dropWhile is_space s); ds = takeWhile is_digit u;
          v = (if sg = ''-'' then - int (digits_val 0 ds) else int (digits_val 0 ds)) in
      if ds = [] then Inl (Fatal ''std::invalid_argument'')
      else if v < - (2 ^ 31) \<or> v \<ge> 2 ^ 31 then Inl (Fatal ''std::out_of_range'')
      else Inr (v, length sp + length sg + length ds))"

definition ToLower :: "string \<Rightarrow> string" where
  "ToLower s = map (\<lambda>c. if 65 \<le> (of_char c :: nat) \<and> (of_char c :: nat) \<le> 90 then char_of (of_char c + 32 :: nat) else c) s"

definition Dirname :: "string \<Rightarrow> char \<Rightarrow> string res" where
  "Dirname name delim = (case find_last (\<lambda>c. c = delim) name of None \<Rightarrow> Inl (Check_Failed ''pos != npos'') | Some pos \<Rightarrow> substr name 0 pos)"

definition Basename :: "string \<Rightarrow> char \<Rightarrow> string res" where
  "Basename name delim = (case find_last (\<lambda>c. c = delim) name of None \<Rightarrow> Inr name | Some pos \<Rightarrow> substr name (pos + 1) (length name))"

definition Trim :: "string \<Rightarrow> string \<Rightarrow> string" where
  "Trim input trimset =
     (if input = [] then input
      else (case (find_first (\<lambda>c. c \<notin> set trimset) input, find_last (\<lambda>c. c \<notin> set trimset) input) of
          (Some b, Some e) \<Rightarrow> take (e - b + 1) (drop b input)
        | _ \<Rightarrow> []))"

text \<open>\<open>%d\<close> of \<open>snprintf\<close>.\<close>

fun dec_nat :: "nat \<Rightarrow> string" where
  "dec_nat n = (if n < 10 then [char_of (48 + n)] else dec_nat (n div 10) @ [char_of (48 + n mod 10)])"

declare dec_nat.simps [simp del]

definition dec_int :: "int \<Rightarrow> string" where
  "dec_int x = (if x < 0 then CHR ''-'' # dec_nat (nat (- x)) else dec_nat (nat x))"

section \<open>The host file\<close>

record tnode =
  tn_rank :: int
  tn_port :: int
  tn_host :: string

definition ParseNode :: "string \<Rightarrow> tnode res" where
  "ParseNode uri =
     (case find_last (\<lambda>c. c = CHR '','') uri of
        None \<Rightarrow> Inl (Check_Failed ''pos0 != npos'')
      | Some comma \<Rightarrow>
          rbind (substr uri 0 comma) (\<lambda>rank_str.
          rbind (stoi rank_str) (\<lambda>(rank, pos0).
          rbind (check (pos0 = length rank_str) ''pos0 == rank_str.length()'') (\<lambda>_.
          case find_last (\<lambda>c. c = CHR '':'') uri of
            None \<Rightarrow> Inl (Check_Failed ''pos != npos'')
          | Some colon \<Rightarrow>
              rbind (substr uri (pos0 + 1) (usub64 (usub64 colon pos0) 1)) (\<lambda>host_str.
              rbind (substr uri (colon + 1) (length uri)) (\<lambda>port_str.
              rbind (stoi port_str) (\<lambda>(port, pos).
              rbind (check (pos = length port_str) ''pos == port_str.length()'') (\<lambda>_.
                Inr \<lparr>tn_rank = rank, tn_port = port, tn_host = host_str\<rparr>))))))))"

text \<open>\<open>std::getline\<close> until it fails: a line ends at a newline or at the end of the file, and there is none after the last newline.\<close>

function getlines :: "string \<Rightarrow> string list" where
  "getlines s = (if s = [] then []
     else takeWhile (\<lambda>c. c \<noteq> CHR 0x0A) s # getlines (tl (dropWhile (\<lambda>c. c \<noteq> CHR 0x0A) s)))"
  by auto

termination
proof (relation "measure length")
  fix s :: string assume "s \<noteq> []"
  moreover have "length (dropWhile (\<lambda>c. c \<noteq> CHR 0x0A) s) \<le> length s" by (rule length_dropWhile_le)
  ultimately show "(tl (dropWhile (\<lambda>c. c \<noteq> CHR 0x0A) s), s) \<in> measure length" by (cases s) (auto split: if_splits)
qed simp

declare getlines.simps [simp del]

definition blanks :: string where
  "blanks = [CHR '' '', CHR 0x0A, CHR 0x0D, CHR 0x09]"

fun parse_lines :: "string list \<Rightarrow> tnode list \<Rightarrow> tnode list res" where
  "parse_lines [] nodes = Inr nodes"
| "parse_lines (l # ls) nodes =
     (let line = Trim l blanks in
      if line = [] then parse_lines ls nodes
      else if line ! 0 = CHR ''#'' then parse_lines ls nodes
      else rbind (ParseNode line) (\<lambda>n. parse_lines ls (nodes @ [n])))"

text \<open>The content of the file, or \<open>None\<close> when it cannot be opened.\<close>

definition ParseHostFile :: "string option \<Rightarrow> tnode list \<Rightarrow> tnode list res" where
  "ParseHostFile file nodes = (case file of None \<Rightarrow> Inl (Check_Failed ''fs.is_open()'') | Some text \<Rightarrow> parse_lines (getlines text) nodes)"

definition FindNode :: "tnode list \<Rightarrow> int \<Rightarrow> tnode res" where
  "FindNode nodes rank = (case find (\<lambda>n. tn_rank n = rank) nodes of None \<Rightarrow> Inl (Check_Failed ''could not find rank'') | Some n \<Rightarrow> Inr n)"

text \<open>\<open>std::min_element\<close> keeps the first of the smallest elements; on no nodes the end iterator is dereferenced.\<close>

fun min_rank :: "int \<Rightarrow> int list \<Rightarrow> int" where
  "min_rank m [] = m"
| "min_rank m (r # rs) = min_rank (if r < m then r else m) rs"

definition RootRank :: "tnode list \<Rightarrow> int res" where
  "RootRank nodes = (case nodes of [] \<Rightarrow> Inl (Undefined_Behaviour ''nodes_.end()->rank'') | n # ns \<Rightarrow> Inr (min_rank (tn_rank n) (map tn_rank ns)))"

definition Hello :: "tnode \<Rightarrow> string" where
  "Hello n = ''Hello, '' @ tn_host n @ '':'' @ dec_int (tn_port n) @ ''!''"

section \<open>Positions\<close>

lemma find_last_None: "find_last P xs = None \<longleftrightarrow> (\<forall>x \<in> set xs. \<not> P x)"
  by (induction xs) (auto split: option.splits)

lemma find_first_None: "find_first P xs = None \<longleftrightarrow> (\<forall>x \<in> set xs. \<not> P x)"
  by (induction xs) auto

lemma find_last_append: "P x \<Longrightarrow> \<forall>y \<in> set ys. \<not> P y \<Longrightarrow> find_last P (xs @ x # ys) = Some (length xs)"
proof (induction xs)
  case Nil
  then have "find_last P ys = None" by (simp add: find_last_None)
  then show ?case using Nil by simp
qed simp

lemma find_first_append: "P x \<Longrightarrow> \<forall>y \<in> set xs. \<not> P y \<Longrightarrow> find_first P (xs @ x # ys) = Some (length xs)"
  by (induction xs) auto

lemma find_last_Some: "find_last P xs = Some i \<Longrightarrow> \<exists>a x b. xs = a @ x # b \<and> length a = i \<and> P x \<and> (\<forall>y \<in> set b. \<not> P y)"
proof -
  assume s: "find_last P xs = Some i"
  then have "\<exists>x \<in> set xs. P x" by (metis find_last_None option.distinct(1))
  then obtain a x b where "xs = a @ x # b" "P x" "\<forall>y \<in> set b. \<not> P y" using split_list_last_prop [of xs P] by blast
  then show ?thesis using s find_last_append [of P x b a] by auto
qed

text \<open>\<open>Trim\<close> keeps what is between the first and the last character that is not of the set.\<close>

lemma Trim_middle:
  assumes "set a \<subseteq> set ts" and "set b \<subseteq> set ts" and "m \<noteq> []" and "hd m \<notin> set ts" and "last m \<notin> set ts"
  shows "Trim (a @ m @ b) ts = m"
proof -
  obtain c u where m1: "m = c # u" using assms(3) by (cases m) auto
  obtain v d where m2: "m = v @ [d]" using assms(3) by (cases m rule: rev_cases) auto
  have f: "find_first (\<lambda>c. c \<notin> set ts) (a @ m @ b) = Some (length a)"
    using find_first_append [of "\<lambda>c. c \<notin> set ts" c a "u @ b"] assms(1,4) m1 by auto
  have l: "find_last (\<lambda>c. c \<notin> set ts) (a @ m @ b) = Some (length (a @ v))"
    using find_last_append [of "\<lambda>c. c \<notin> set ts" d b "a @ v"] assms(2,5) m2 by auto
  have "Suc (length v) = length m" by (simp add: m2)
  then show ?thesis using f l assms(3) by (simp add: Trim_def)
qed

lemma Trim_blank: "set a \<subseteq> set ts \<Longrightarrow> Trim a ts = []"
proof -
  assume "set a \<subseteq> set ts"
  then have "find_first (\<lambda>c. c \<notin> set ts) a = None" by (auto simp: find_first_None)
  then show ?thesis by (simp add: Trim_def)
qed

section \<open>Numbers\<close>

lemma sign_of_split: "sign_of t = (sg, u) \<Longrightarrow> t = sg @ u \<and> set sg \<subseteq> {CHR ''-'', CHR ''+''}"
  by (auto simp: sign_of_def split: list.splits if_splits)

text \<open>A string that \<open>stoi\<close> uses to its end has white space, a sign and digits only.\<close>

lemma stoi_all:
  assumes "stoi s = Inr (v, length s)" and "c \<in> set s"
  shows "is_space c \<or> c = CHR ''-'' \<or> c = CHR ''+'' \<or> is_digit c"
proof -
  obtain sg u where su: "sign_of (dropWhile is_space s) = (sg, u)" by fastforce
  note t = sign_of_split [OF su]
  have s: "s = takeWhile is_space s @ sg @ u" using t by (metis takeWhile_dropWhile_id)
  have "length s = length (takeWhile is_space s) + length sg + length (takeWhile is_digit u)"
    using assms(1) su by (auto simp: stoi_def Let_def split: if_splits)
  moreover have "length s = length (takeWhile is_space s) + length sg + length u"
    using arg_cong [OF s, of length] by simp
  ultimately have "takeWhile is_digit u = u" by (metis add_left_cancel append_take_drop_id length_append takeWhile_eq_take take_all_iff order_refl)
  then have u: "\<forall>c \<in> set u. is_digit c" by (simp add: takeWhile_eq_all_conv)
  have "c \<in> set (takeWhile is_space s) \<union> set sg \<union> set u" using assms(2) s by (metis Un_assoc set_append)
  then show ?thesis using t u by (auto dest: set_takeWhileD)
qed

lemma stoi_no_sep: "stoi s = Inr (v, length s) \<Longrightarrow> CHR '':'' \<notin> set s \<and> CHR '','' \<notin> set s"
  using stoi_all [of s v "CHR '':''"] stoi_all [of s v "CHR '',''"] by (auto simp: is_space_def is_digit_def)

lemma of_digit [simp]: "n < 10 \<Longrightarrow> of_char (char_of (48 + n) :: char) = (48 + n :: nat)"
  by (simp add: of_char_of)

lemma is_digit_dec [simp]: "n < 10 \<Longrightarrow> is_digit (char_of (48 + n :: nat))"
  by (simp add: is_digit_def)

lemma dec_nat_digits: "c \<in> set (dec_nat n) \<Longrightarrow> is_digit c"
proof (induction n rule: dec_nat.induct)
  case (1 n)
  then show ?case by (cases "n < 10") (auto simp: dec_nat.simps [of n])
qed

lemma dec_nat_ne [simp]: "dec_nat n \<noteq> []"
  by (subst dec_nat.simps) simp

lemma digits_val_snoc: "\<forall>c \<in> set xs. is_digit c \<Longrightarrow> digits_val acc (xs @ ys) = digits_val (digits_val acc xs) ys"
  by (induction xs arbitrary: acc) auto

lemma digits_val_dec_nat: "digits_val 0 (dec_nat n) = n"
proof (induction n rule: dec_nat.induct)
  case (1 n)
  show ?case
  proof (cases "n < 10")
    case True
    then show ?thesis by (simp add: dec_nat.simps [of n])
  next
    case False
    have "digits_val 0 (dec_nat n) = digits_val (digits_val 0 (dec_nat (n div 10))) [char_of (48 + n mod 10)]"
      using False by (simp add: dec_nat.simps [of n] digits_val_snoc dec_nat_digits)
    also have "\<dots> = 10 * (n div 10) + n mod 10" using 1 [OF False] by simp
    finally show ?thesis by simp
  qed
qed

lemma digit_not: "is_digit c \<Longrightarrow> \<not> is_space c \<and> c \<noteq> CHR ''-'' \<and> c \<noteq> CHR ''+'' \<and> c \<noteq> CHR 0x0A \<and> c \<notin> set blanks \<and> c \<noteq> CHR ''#''"
  by (auto simp: is_digit_def is_space_def blanks_def)

lemma hd_dec_nat: "is_digit (hd (dec_nat n))"
  by (rule dec_nat_digits [OF hd_in_set]) simp

lemma takeWhile_dec [simp]: "takeWhile is_digit (dec_nat n) = dec_nat n"
  by (simp add: takeWhile_eq_all_conv dec_nat_digits)

lemma stoi_dec_int:
  assumes "- (2 ^ 31) \<le> x" and "x < 2 ^ 31"
  shows "stoi (dec_int x) = Inr (x, length (dec_int x))"
proof (cases "x < 0")
  case True
  show ?thesis using True assms by (simp add: stoi_def dec_int_def Let_def sign_of_def is_space_def digits_val_dec_nat)
next
  case False
  obtain c cs where c: "dec_nat (nat x) = c # cs" by (cases "dec_nat (nat x)") auto
  then have d: "is_digit c" using hd_dec_nat [of "nat x"] by simp
  have "sign_of (dec_nat (nat x)) = ([], dec_nat (nat x))" using d digit_not by (simp add: c sign_of_def)
  moreover have "takeWhile is_space (dec_nat (nat x)) = []" "dropWhile is_space (dec_nat (nat x)) = dec_nat (nat x)"
    using d digit_not by (simp_all add: c)
  ultimately show ?thesis using False assms by (simp add: stoi_def dec_int_def Let_def digits_val_dec_nat)
qed

section \<open>Entries of the host file\<close>

lemma ParseNode_entry:
  assumes rs: "stoi rs = Inr (r, length rs)" and ps: "stoi ps = Inr (q, length ps)" and h: "CHR '','' \<notin> set h"
    and len: "length rs + length h + length ps + 2 < 2 ^ 64"
  shows "ParseNode (rs @ '','' @ h @ '':'' @ ps) = Inr \<lparr>tn_rank = r, tn_port = q, tn_host = h\<rparr>"
proof -
  let ?u = "rs @ '','' @ h @ '':'' @ ps"
  have c: "find_last (\<lambda>c. c = CHR '','') ?u = Some (length rs)"
    using find_last_append [of "\<lambda>c. c = CHR '',''" "CHR '',''" "h @ '':'' @ ps" rs] h stoi_no_sep [OF ps] by auto
  have d: "find_last (\<lambda>c. c = CHR '':'') ?u = Some (length rs + 1 + length h)"
    using find_last_append [of "\<lambda>c. c = CHR '':''" "CHR '':''" ps "rs @ '','' @ h"] stoi_no_sep [OF ps] by auto
  have w: "usub64 (usub64 (length rs + 1 + length h) (length rs)) 1 = length h"
    using len by (simp add: usub64_id)
  show ?thesis unfolding ParseNode_def c d using rs ps w by (simp add: substr_def)
qed

lemma ParseNode_inv:
  assumes "ParseNode uri = Inr n" and len: "length uri < 2 ^ 64"
  shows "\<exists>rs ps. uri = rs @ '','' @ tn_host n @ '':'' @ ps \<and> stoi rs = Inr (tn_rank n, length rs)
    \<and> stoi ps = Inr (tn_port n, length ps) \<and> CHR '','' \<notin> set (tn_host n)"
proof -
  obtain i where i: "find_last (\<lambda>c. c = CHR '','') uri = Some i"
    using assms(1) by (auto simp: ParseNode_def split: option.splits)
  obtain rs b where u: "uri = rs @ CHR '','' # b" "length rs = i" and nb: "CHR '','' \<notin> set b" using find_last_Some [OF i] by auto
  have sub: "substr uri 0 i = Inr rs" by (simp add: substr_def u)
  obtain r where r: "stoi rs = Inr (r, length rs)"
    using assms(1) i sub by (auto simp: ParseNode_def rbind_eq_Inr_conv)
  obtain j where j: "find_last (\<lambda>c. c = CHR '':'') uri = Some j"
    using assms(1) i sub r by (auto simp: ParseNode_def split: option.splits)
  obtain a ps where v: "uri = a @ CHR '':'' # ps" "length a = j" using find_last_Some [OF j] by auto
  obtain h where h: "b = h @ CHR '':'' # ps"
  proof -
    consider z where "rs @ z = a" "CHR '','' # b = z @ CHR '':'' # ps" | z where "rs = a @ z" "z @ CHR '','' # b = CHR '':'' # ps"
      using u(1) v(1) by (auto simp: append_eq_append_conv2)
    then show thesis
    proof cases
      case 1
      then show thesis using that by (cases z) auto
    next
      case 2
      then show thesis using stoi_no_sep [OF r] by (cases z) auto
    qed
  qed
  have a: "a = rs @ '','' @ h" using u(1) v(1) h by simp
  have "usub64 (usub64 j i) 1 = length h"
  proof -
    have "j = i + 1 + length h" "i + 1 + length h < 2 ^ 64" using len u v a h by auto
    then show ?thesis by (simp add: usub64_id)
  qed
  then have "substr uri (i + 1) (usub64 (usub64 j i) 1) = Inr h" "substr uri (j + 1) (length uri) = Inr ps"
    using u v(1) v(2) [symmetric] a h by (simp_all add: substr_def)
  then obtain q where "stoi ps = Inr (q, length ps)" "n = \<lparr>tn_rank = r, tn_port = q, tn_host = h\<rparr>"
    using assms(1) i sub r j u(2) by (auto simp: ParseNode_def rbind_eq_Inr_conv)
  then show ?thesis using u(1) h r nb by (intro exI [of _ rs] exI [of _ ps]) simp
qed

section \<open>Lines of the host file\<close>

lemma getlines_line: "CHR 0x0A \<notin> set l \<Longrightarrow> getlines (l @ CHR 0x0A # s) = l # getlines s"
proof -
  assume "CHR 0x0A \<notin> set l"
  then have "\<forall>c \<in> set l. c \<noteq> CHR 0x0A" by auto
  then have "takeWhile (\<lambda>c. c \<noteq> CHR 0x0A) (l @ CHR 0x0A # s) = l" "dropWhile (\<lambda>c. c \<noteq> CHR 0x0A) (l @ CHR 0x0A # s) = CHR 0x0A # s"
    by (simp_all add: takeWhile_append2 dropWhile_append2)
  then show ?thesis by (subst getlines.simps) simp
qed

lemma getlines_concat: "\<forall>l \<in> set ls. CHR 0x0A \<notin> set l \<Longrightarrow> getlines (concat (map (\<lambda>l. l @ [CHR 0x0A]) ls)) = ls"
  by (induction ls) (simp_all add: getlines_line, simp add: getlines.simps)

text \<open>The lines of a host file as they are written: an entry, a comment, or nothing, with blanks around it.\<close>

datatype host_line = Entry string tnode string | Comment string string | Blank string

fun line_text :: "host_line \<Rightarrow> string" where
  "line_text (Entry a n b) = a @ (dec_int (tn_rank n) @ '','' @ tn_host n @ '':'' @ dec_int (tn_port n)) @ b"
| "line_text (Comment a t) = a @ ''#'' @ t"
| "line_text (Blank a) = a"

definition pad_ok :: "string \<Rightarrow> bool" where
  "pad_ok a \<longleftrightarrow> set a \<subseteq> set blanks - {CHR 0x0A}"

definition int_ok :: "int \<Rightarrow> bool" where
  "int_ok x \<longleftrightarrow> - (2 ^ 31) \<le> x \<and> x < 2 ^ 31"

definition node_ok :: "tnode \<Rightarrow> bool" where
  "node_ok n \<longleftrightarrow> int_ok (tn_rank n) \<and> int_ok (tn_port n) \<and> CHR '','' \<notin> set (tn_host n) \<and> CHR 0x0A \<notin> set (tn_host n)
     \<and> length (dec_int (tn_rank n)) + length (tn_host n) + length (dec_int (tn_port n)) + 2 < 2 ^ 64"

fun line_ok :: "host_line \<Rightarrow> bool" where
  "line_ok (Entry a n b) \<longleftrightarrow> pad_ok a \<and> pad_ok b \<and> node_ok n"
| "line_ok (Comment a t) \<longleftrightarrow> pad_ok a \<and> CHR 0x0A \<notin> set t"
| "line_ok (Blank a) \<longleftrightarrow> pad_ok a"

fun line_nodes :: "host_line \<Rightarrow> tnode list" where
  "line_nodes (Entry a n b) = [n]"
| "line_nodes _ = []"

lemma dec_int_ends:
  "hd (dec_int x) \<notin> set blanks" "last (dec_int x) \<notin> set blanks" "hd (dec_int x) \<noteq> CHR ''#''" "dec_int x \<noteq> []" "CHR 0x0A \<notin> set (dec_int x)"
proof -
  have d: "is_digit (last (dec_nat n))" for n by (rule dec_nat_digits [OF last_in_set]) simp
  have n: "CHR 0x0A \<notin> set (dec_nat n)" for n using dec_nat_digits [of "CHR 0x0A" n] digit_not [of "CHR 0x0A"] by auto
  show "hd (dec_int x) \<notin> set blanks" "last (dec_int x) \<notin> set blanks" "hd (dec_int x) \<noteq> CHR ''#''" "dec_int x \<noteq> []" "CHR 0x0A \<notin> set (dec_int x)"
    using digit_not [OF d] digit_not [OF hd_dec_nat] n by (auto simp: dec_int_def blanks_def)
qed

lemma line_no_newline: "line_ok l \<Longrightarrow> CHR 0x0A \<notin> set (line_text l)"
  by (cases l) (auto simp: pad_ok_def node_ok_def dec_int_ends)

lemma Trim_entry:
  assumes "pad_ok a" and "pad_ok b"
  shows "Trim (line_text (Entry a n b)) blanks = dec_int (tn_rank n) @ '','' @ tn_host n @ '':'' @ dec_int (tn_port n)"
proof -
  have "set a \<subseteq> set blanks" "set b \<subseteq> set blanks" using assms by (auto simp: pad_ok_def)
  then show ?thesis unfolding line_text.simps by (rule Trim_middle) (simp_all add: dec_int_ends hd_append last_append)
qed

lemma Trim_comment: "pad_ok a \<Longrightarrow> \<exists>t'. Trim (line_text (Comment a t)) blanks = CHR ''#'' # t'"
proof -
  assume a: "pad_ok a"
  let ?P = "\<lambda>c. c \<notin> set blanks"
  have f: "find_first ?P (a @ ''#'' @ t) = Some (length a)"
    using find_first_append [of ?P "CHR ''#''" a t] a by (auto simp: pad_ok_def blanks_def)
  obtain e where e: "find_last ?P (a @ ''#'' @ t) = Some e"
    using find_last_None [of ?P "a @ ''#'' @ t"] by (cases "find_last ?P (a @ ''#'' @ t)") (auto simp: blanks_def)
  show ?thesis using f e by (simp add: Trim_def)
qed

lemma parse_line:
  assumes "line_ok l"
  shows "parse_lines (line_text l # ls) nodes = parse_lines ls (nodes @ line_nodes l)"
proof (cases l)
  case (Entry a n b)
  let ?m = "dec_int (tn_rank n) @ '','' @ tn_host n @ '':'' @ dec_int (tn_port n)"
  have ok: "node_ok n" and t: "Trim (line_text l) blanks = ?m" using assms Trim_entry [of a b n] by (simp_all add: Entry del: line_text.simps)
  have "ParseNode ?m = Inr \<lparr>tn_rank = tn_rank n, tn_port = tn_port n, tn_host = tn_host n\<rparr>"
    by (rule ParseNode_entry) (use ok in \<open>simp_all add: node_ok_def int_ok_def stoi_dec_int\<close>)
  moreover have "?m ! 0 \<noteq> CHR ''#''" using dec_int_ends(3,4) [of "tn_rank n"] by (simp add: nth_append hd_conv_nth)
  moreover have "\<lparr>tn_rank = tn_rank n, tn_port = tn_port n, tn_host = tn_host n\<rparr> = n" by (cases n) simp
  moreover have "line_nodes l = [n]" by (simp add: Entry)
  ultimately show ?thesis by (simp add: t Let_def)
next
  case (Comment a t)
  then obtain t' where "Trim (line_text l) blanks = CHR ''#'' # t'" using assms Trim_comment [of a t] by auto
  then show ?thesis by (simp add: Comment del: line_text.simps)
next
  case (Blank a)
  then have "Trim (line_text l) blanks = []" using assms by (auto simp: pad_ok_def intro!: Trim_blank)
  then show ?thesis by (simp add: Blank)
qed

lemma parse_lines_text: "\<forall>l \<in> set ls. line_ok l \<Longrightarrow> parse_lines (map line_text ls) nodes = Inr (nodes @ concat (map line_nodes ls))"
  by (induction ls arbitrary: nodes) (simp_all add: parse_line del: parse_lines.simps(2))

text \<open>C35: Host file round trip. A file whose lines are entries \<open>rank,host:port\<close>, comments and empty lines, with blanks around them, is read back as the nodes of its
  entries, in order, for every rank and port that is an \<open>int\<close> and every host name without a comma (an IPv6 address included).\<close>

theorem host_file_round_trip:
  assumes "\<forall>l \<in> set ls. line_ok l"
  shows "ParseHostFile (Some (concat (map (\<lambda>l. line_text l @ [CHR 0x0A]) ls))) nodes = Inr (nodes @ concat (map line_nodes ls))"
proof -
  have "concat (map (\<lambda>l. line_text l @ [CHR 0x0A]) ls) = concat (map (\<lambda>l. l @ [CHR 0x0A]) (map line_text ls))" by (simp add: comp_def)
  moreover have "\<forall>l \<in> set (map line_text ls). CHR 0x0A \<notin> set l" using assms line_no_newline by auto
  ultimately show ?thesis using parse_lines_text [OF assms] by (simp add: ParseHostFile_def getlines_concat del: map_map)
qed

theorem host_file_round_trip_witness:
  "ParseHostFile (Some (concat (map (\<lambda>l. line_text l @ [CHR 0x0A])
      [Comment '' '' ''nodes'', Entry '' '' \<lparr>tn_rank = 0, tn_port = 5000, tn_host = ''fe80::1''\<rparr> [], Blank []]))) []
    = Inr [\<lparr>tn_rank = 0, tn_port = 5000, tn_host = ''fe80::1''\<rparr>]"
proof -
  let ?n = "\<lparr>tn_rank = 0, tn_port = 5000, tn_host = ''fe80::1''\<rparr>"
  have "node_ok ?n" by (simp add: node_ok_def int_ok_def dec_int_def dec_nat.simps)
  then have "\<forall>l \<in> set [Comment '' '' ''nodes'', Entry '' '' ?n [], Blank []]. line_ok l"
    by (simp add: pad_ok_def blanks_def)
  from host_file_round_trip [OF this, of "[]"] show ?thesis by (simp del: line_text.simps)
qed

end
