(* ===== verification/Test_Barrier.thy ===== *)
theory Test_Barrier
  imports Prelude
begin

text \<open>
  The barrier of the test application (\<open>TestMLTApp::Barrier\<close>, \<open>src/src/mlt/test_mlt.cc\<close>). The root sends a message to every other node and then
  takes one from each; another node takes the message of the root and answers it.

  A thread inside the function is at a point of it (\<open>b_pc\<close>), and runs to the next call of \<open>SendMetaAsync\<close> or \<open>RecvMeta\<close> at once. Metadata is carried in order
  between two nodes (which is shown of the communicator in \<open>Communicator\<close>) and in any order between different ones: there is a queue for every
  pair of nodes, and \<open>RecvMeta\<close> may return the head of any queue that leads to its caller.
\<close>

section \<open>The function\<close>

datatype b_pc = Outside | Root_Sending "int list" | Root_Receiving "int list" "int list" | Leaf_Receiving | Leaf_Sending | Failed err

definition others :: "int list \<Rightarrow> int \<Rightarrow> int list" where
  "others ranks root = filter (\<lambda>n. n \<noteq> root) ranks"

text \<open>The first loop of the root, with the nodes it still has to send to.\<close>

definition root_loop :: "int list \<Rightarrow> int \<Rightarrow> int list \<Rightarrow> b_pc" where
  "root_loop ranks root ns = (if ns = [] then Root_Receiving (others ranks root) [] else Root_Sending ns)"

definition barrier_begin :: "int list \<Rightarrow> int \<Rightarrow> int \<Rightarrow> b_pc" where
  "barrier_begin ranks root me = (if me = root then root_loop ranks root (others ranks root) else Leaf_Receiving)"

text \<open>The send that a thread is about to do, and where it is afterwards.\<close>

fun barrier_send :: "int list \<Rightarrow> int \<Rightarrow> b_pc \<Rightarrow> (int \<times> b_pc) option" where
  "barrier_send ranks root (Root_Sending (n # ns)) = Some (n, root_loop ranks root ns)"
| "barrier_send ranks root Leaf_Sending = Some (root, Outside)"
| "barrier_send ranks root pc = None"

definition or_fail :: "b_pc res \<Rightarrow> b_pc" where
  "or_fail r = (case r of Inl e \<Rightarrow> Failed e | Inr pc \<Rightarrow> pc)"

text \<open>Where a thread is after \<open>RecvMeta\<close> returned a message of \<open>dest\<close>.\<close>

fun barrier_recv :: "int list \<Rightarrow> int \<Rightarrow> int \<Rightarrow> b_pc \<Rightarrow> b_pc option" where
  "barrier_recv ranks root dest (Root_Receiving (n # ns) got) =
     Some (or_fail (rbind (check (dest \<in> set ranks) ''could not find rank'') (\<lambda>_. Inr (Root_Receiving ns (got @ [dest])))))"
| "barrier_recv ranks root dest Leaf_Receiving = Some (or_fail (rbind (check (dest = root) ''dest == root'') (\<lambda>_. Inr Leaf_Sending)))"
| "barrier_recv ranks root dest pc = None"

text \<open>The end of the root: \<open>std::sort\<close>, \<open>std::unique\<close> and the check that nothing was removed.\<close>

fun barrier_end :: "b_pc \<Rightarrow> b_pc option" where
  "barrier_end (Root_Receiving [] got) = Some (or_fail (rbind (check (remdups_adj (sort got) = sort got) ''last == ranks.end()'') (\<lambda>_. Inr Outside)))"
| "barrier_end pc = None"

section \<open>Nodes that pass barriers\<close>

record barrier_state =
  bs_pc :: "int \<Rightarrow> b_pc"
  bs_left :: "int \<Rightarrow> nat"
  bs_chan :: "int \<Rightarrow> int \<Rightarrow> byte list list"

definition barrier_init :: barrier_state where
  "barrier_init = \<lparr>bs_pc = (\<lambda>_. Outside), bs_left = (\<lambda>_. 0), bs_chan = (\<lambda>_ _. [])\<rparr>"

definition entered :: "barrier_state \<Rightarrow> int \<Rightarrow> nat" where
  "entered s i = (if bs_pc s i = Outside then bs_left s i else Suc (bs_left s i))"

definition goto :: "int \<Rightarrow> b_pc \<Rightarrow> barrier_state \<Rightarrow> barrier_state" where
  "goto me pc s = s\<lparr>bs_pc := (bs_pc s)(me := pc), bs_left := (if pc = Outside then (bs_left s)(me := Suc (bs_left s me)) else bs_left s)\<rparr>"

definition set_chan :: "int \<Rightarrow> int \<Rightarrow> byte list list \<Rightarrow> barrier_state \<Rightarrow> barrier_state" where
  "set_chan i j ms s = s\<lparr>bs_chan := (bs_chan s)(i := (bs_chan s i)(j := ms))\<rparr>"

text \<open>Every node calls the function \<open>k\<close> times. The message is the rank of the sender.\<close>

inductive barrier_step :: "int list \<Rightarrow> int \<Rightarrow> nat \<Rightarrow> barrier_state \<Rightarrow> barrier_state \<Rightarrow> bool" for ranks root k where
  enter: "me \<in> set ranks \<Longrightarrow> bs_pc s me = Outside \<Longrightarrow> bs_left s me < k
    \<Longrightarrow> barrier_step ranks root k s (goto me (barrier_begin ranks root me) s)"
| send: "me \<in> set ranks \<Longrightarrow> barrier_send ranks root (bs_pc s me) = Some (dest, pc)
    \<Longrightarrow> barrier_step ranks root k s (goto me pc (set_chan me dest (bs_chan s me dest @ [int_bytes me]) s))"
| recv: "me \<in> set ranks \<Longrightarrow> bs_chan s dest me = m # ms \<Longrightarrow> barrier_recv ranks root dest (bs_pc s me) = Some pc
    \<Longrightarrow> barrier_step ranks root k s (goto me pc (set_chan dest me ms s))"
| finish: "me \<in> set ranks \<Longrightarrow> barrier_end (bs_pc s me) = Some pc \<Longrightarrow> barrier_step ranks root k s (goto me pc s)"

text \<open>The step of one node, where a receive takes the message of \<open>src\<close>, and a run in which the nodes of a list take turns.\<close>

definition run_step :: "int list \<Rightarrow> int \<Rightarrow> nat \<Rightarrow> int \<times> int \<Rightarrow> barrier_state \<Rightarrow> barrier_state option" where
  "run_step ranks root k t s = (case t of (me, src) \<Rightarrow>
     if me \<notin> set ranks then None
     else if bs_pc s me = Outside then (if bs_left s me < k then Some (goto me (barrier_begin ranks root me) s) else None)
     else (case barrier_send ranks root (bs_pc s me) of
       Some (dest, pc) \<Rightarrow> Some (goto me pc (set_chan me dest (bs_chan s me dest @ [int_bytes me]) s))
     | None \<Rightarrow> (case barrier_end (bs_pc s me) of
         Some pc \<Rightarrow> Some (goto me pc s)
       | None \<Rightarrow> (case (bs_chan s src me, barrier_recv ranks root src (bs_pc s me)) of
           (m # ms, Some pc) \<Rightarrow> Some (goto me pc (set_chan src me ms s))
         | _ \<Rightarrow> None))))"

fun run_steps :: "int list \<Rightarrow> int \<Rightarrow> nat \<Rightarrow> (int \<times> int) list \<Rightarrow> barrier_state \<Rightarrow> barrier_state option" where
  "run_steps ranks root k [] s = Some s"
| "run_steps ranks root k (t # ts) s = (case run_step ranks root k t s of None \<Rightarrow> None | Some s' \<Rightarrow> run_steps ranks root k ts s')"

lemma run_step_sound: "run_step ranks root k t s = Some s' \<Longrightarrow> barrier_step ranks root k s s'"
  by (auto simp: run_step_def intro: barrier_step.intros split: prod.splits if_splits option.splits list.splits)

lemma run_steps_sound: "run_steps ranks root k ts s = Some s' \<Longrightarrow> (barrier_step ranks root k ^^ length ts) s s'"
  by (induction ts arbitrary: s) (auto dest: run_step_sound intro: relpowp_Suc_I2 split: option.splits simp del: relpowp.simps(2))

lemma run_steps_run: "run_steps ranks root k ts s = Some s' \<Longrightarrow> length ts = n \<Longrightarrow> (barrier_step ranks root k ^^ n) s s'"
  using run_steps_sound by blast

section \<open>Invariant\<close>

text \<open>How many messages the root has sent to a node and taken from it, and the node from the root and to it, over all barriers.\<close>

fun root_sent :: "nat \<Rightarrow> b_pc \<Rightarrow> int \<Rightarrow> nat" where
  "root_sent l (Root_Sending ns) j = (if j \<in> set ns then l else Suc l)"
| "root_sent l (Root_Receiving ns got) j = Suc l"
| "root_sent l pc j = l"

fun root_taken :: "nat \<Rightarrow> b_pc \<Rightarrow> int \<Rightarrow> nat" where
  "root_taken l (Root_Receiving ns got) j = (if j \<in> set got then Suc l else l)"
| "root_taken l pc j = l"

definition leaf_taken :: "nat \<Rightarrow> b_pc \<Rightarrow> nat" where
  "leaf_taken l pc = (if pc = Leaf_Sending then Suc l else l)"

fun root_ok :: "int list \<Rightarrow> int \<Rightarrow> b_pc \<Rightarrow> bool" where
  "root_ok ranks root Outside = True"
| "root_ok ranks root (Root_Sending ns) = (ns \<noteq> [] \<and> distinct ns \<and> set ns \<subseteq> set (others ranks root))"
| "root_ok ranks root (Root_Receiving ns got) = (distinct got \<and> set got \<subseteq> set (others ranks root) \<and> length ns + length got = length (others ranks root))"
| "root_ok ranks root pc = False"

definition leaf_ok :: "b_pc \<Rightarrow> bool" where
  "leaf_ok pc \<longleftrightarrow> pc \<in> {Outside, Leaf_Receiving, Leaf_Sending}"

definition steps_in :: "b_pc \<Rightarrow> nat \<Rightarrow> nat" where
  "steps_in pc l = (if pc = Outside then l else Suc l)"

text \<open>The root and another node: where they are, how many barriers they have left, and how many messages are on the way in both directions.\<close>

definition leaf_inv :: "nat \<Rightarrow> nat \<Rightarrow> b_pc \<Rightarrow> int \<Rightarrow> nat \<Rightarrow> b_pc \<Rightarrow> nat \<Rightarrow> nat \<Rightarrow> bool" where
  "leaf_inv k l pcr j lj pcj down up \<longleftrightarrow> leaf_ok pcj \<and> steps_in pcj lj \<le> k \<and> leaf_taken lj pcj + down = root_sent l pcr j \<and> root_taken l pcr j + up = lj"

definition barrier_inv :: "int list \<Rightarrow> int \<Rightarrow> nat \<Rightarrow> barrier_state \<Rightarrow> bool" where
  "barrier_inv ranks root k s \<longleftrightarrow> root_ok ranks root (bs_pc s root) \<and> steps_in (bs_pc s root) (bs_left s root) \<le> k
     \<and> (\<forall>j \<in> set (others ranks root). leaf_inv k (bs_left s root) (bs_pc s root) j (bs_left s j) (bs_pc s j) (length (bs_chan s root j)) (length (bs_chan s j root)))
     \<and> (\<forall>i j. bs_chan s i j \<noteq> [] \<longrightarrow> (i = root \<and> j \<in> set (others ranks root)) \<or> (j = root \<and> i \<in> set (others ranks root)))"

lemma entered_steps: "entered s i = steps_in (bs_pc s i) (bs_left s i)"
  by (simp add: entered_def steps_in_def)

lemma inv_init: "barrier_inv ranks root k barrier_init"
  by (simp add: barrier_inv_def barrier_init_def leaf_inv_def leaf_ok_def leaf_taken_def steps_in_def)

lemma goto_simps [simp]:
  "bs_pc (goto me pc s) = (bs_pc s)(me := pc)" "bs_chan (goto me pc s) = bs_chan s"
  "bs_left (goto me pc s) = (if pc = Outside then (bs_left s)(me := Suc (bs_left s me)) else bs_left s)"
  "bs_pc (set_chan i j ms s) = bs_pc s" "bs_left (set_chan i j ms s) = bs_left s"
  "bs_chan (set_chan i j ms s) = (bs_chan s)(i := (bs_chan s i)(j := ms))"
  by (simp_all add: goto_def set_chan_def)

lemma others_iff: "j \<in> set (others ranks root) \<longleftrightarrow> j \<in> set ranks \<and> j \<noteq> root"
  by (simp add: others_def)

text \<open>The parts of the invariant: the root, the relation with another node, and the queues that are used.\<close>

definition pair_inv :: "int \<Rightarrow> nat \<Rightarrow> barrier_state \<Rightarrow> int \<Rightarrow> bool" where
  "pair_inv root k s j \<longleftrightarrow> leaf_inv k (bs_left s root) (bs_pc s root) j (bs_left s j) (bs_pc s j) (length (bs_chan s root j)) (length (bs_chan s j root))"

definition chan_inv :: "int list \<Rightarrow> int \<Rightarrow> barrier_state \<Rightarrow> int \<Rightarrow> int \<Rightarrow> bool" where
  "chan_inv ranks root s i j \<longleftrightarrow> bs_chan s i j = [] \<or> (i = root \<and> j \<in> set (others ranks root)) \<or> (j = root \<and> i \<in> set (others ranks root))"

lemma barrier_inv_parts:
  "barrier_inv ranks root k s \<longleftrightarrow> root_ok ranks root (bs_pc s root) \<and> steps_in (bs_pc s root) (bs_left s root) \<le> k
     \<and> (\<forall>j \<in> set (others ranks root). pair_inv root k s j) \<and> (\<forall>i j. chan_inv ranks root s i j)"
  unfolding barrier_inv_def pair_inv_def chan_inv_def by blast

lemma inv_root_step:
  assumes i: "barrier_inv ranks root k s" and ok: "root_ok ranks root pc" and le: "steps_in pc l \<le> k"
    and pc: "bs_pc s' = (bs_pc s)(root := pc)" and l: "bs_left s' = (bs_left s)(root := l)"
    and c: "\<And>i j. chan_inv ranks root s i j \<Longrightarrow> chan_inv ranks root s' i j"
    and p: "\<And>j. j \<in> set (others ranks root) \<Longrightarrow> pair_inv root k s j
      \<Longrightarrow> leaf_inv k l pc j (bs_left s j) (bs_pc s j) (length (bs_chan s' root j)) (length (bs_chan s' j root))"
  shows "barrier_inv ranks root k s'"
proof -
  have "pair_inv root k s' j" if j: "j \<in> set (others ranks root)" for j
  proof -
    have "j \<noteq> root" and "pair_inv root k s j" using j i by (simp_all add: others_iff barrier_inv_parts)
    then show ?thesis using p [OF j] by (simp add: pair_inv_def pc l)
  qed
  moreover have "chan_inv ranks root s' i j" for i j using i c by (simp add: barrier_inv_parts)
  ultimately show ?thesis using ok le by (simp add: barrier_inv_parts pc l)
qed

lemma inv_leaf_step:
  assumes i: "barrier_inv ranks root k s" and me: "me \<in> set (others ranks root)"
    and pc: "bs_pc s' = (bs_pc s)(me := pc)" and l: "bs_left s' = (bs_left s)(me := l)"
    and c: "\<And>i j. (i, j) \<noteq> (root, me) \<Longrightarrow> (i, j) \<noteq> (me, root) \<Longrightarrow> bs_chan s' i j = bs_chan s i j"
    and p: "pair_inv root k s me
      \<Longrightarrow> leaf_inv k (bs_left s root) (bs_pc s root) me l pc (length (bs_chan s' root me)) (length (bs_chan s' me root))"
  shows "barrier_inv ranks root k s'"
proof -
  have mr: "me \<noteq> root" using me by (simp add: others_iff)
  have "pair_inv root k s' j" if j: "j \<in> set (others ranks root)" for j
  proof (cases "j = me")
    case True
    have "pair_inv root k s me" using me i by (simp add: barrier_inv_parts)
    from p [OF this] show ?thesis using mr True by (simp add: pair_inv_def pc l)
  next
    case False
    have jr: "j \<noteq> root" "pair_inv root k s j" using j i by (simp_all add: others_iff barrier_inv_parts)
    have "bs_chan s' root j = bs_chan s root j" "bs_chan s' j root = bs_chan s j root"
      by (rule c; use False jr mr in simp)+
    then show ?thesis using jr False mr by (simp add: pair_inv_def pc l)
  qed
  moreover have "chan_inv ranks root s' i j" for i j
  proof (cases "(i, j) = (root, me) \<or> (i, j) = (me, root)")
    case True
    then show ?thesis using me by (auto simp: chan_inv_def)
  next
    case False
    have "chan_inv ranks root s i j" using i by (simp add: barrier_inv_parts)
    then show ?thesis using c [of i j] False by (simp add: chan_inv_def)
  qed
  ultimately show ?thesis using i mr by (simp add: barrier_inv_parts pc l)
qed

lemma inv_enter:
  assumes i: "barrier_inv ranks root k s" and d: "distinct ranks" and me: "me \<in> set ranks" "bs_pc s me = Outside" "bs_left s me < k"
  shows "barrier_inv ranks root k (goto me (barrier_begin ranks root me) s)"
proof (cases "me = root")
  case True
  let ?pc = "barrier_begin ranks root root"
  have o: "distinct (others ranks root)" using d by (simp add: others_def)
  have n: "?pc \<noteq> Outside" "root_ok ranks root ?pc"
    using o by (simp_all add: barrier_begin_def root_loop_def)
  have lf: "leaf_inv k (bs_left s root) ?pc j lj pj a b" if "leaf_inv k (bs_left s root) Outside j lj pj a b" "j \<in> set (others ranks root)" for j lj pj a b
    using that by (auto simp: leaf_inv_def barrier_begin_def root_loop_def)
  show ?thesis
  proof (rule inv_root_step [OF i n(2)])
    show "steps_in ?pc (bs_left s root) \<le> k" using me True by (simp add: steps_in_def)
    show "leaf_inv k (bs_left s root) ?pc j (bs_left s j) (bs_pc s j)
        (length (bs_chan (goto me (barrier_begin ranks root me) s) root j)) (length (bs_chan (goto me (barrier_begin ranks root me) s) j root))"
      if "j \<in> set (others ranks root)" "pair_inv root k s j" for j
      using lf [OF _ that(1)] that(2) me True by (simp add: pair_inv_def)
  qed (use True n in \<open>simp_all add: chan_inv_def\<close>)
next
  case False
  then have b: "barrier_begin ranks root me = Leaf_Receiving" by (simp add: barrier_begin_def)
  show ?thesis unfolding b
    by (rule inv_leaf_step [OF i, where me = me and pc = Leaf_Receiving and l = "bs_left s me"])
      (use False me in \<open>simp_all add: others_iff pair_inv_def leaf_inv_def leaf_ok_def leaf_taken_def steps_in_def\<close>)
qed

lemma chan_inv_set_chan:
  "chan_inv ranks root s i j \<Longrightarrow> (a = root \<and> b \<in> set (others ranks root)) \<or> (b = root \<and> a \<in> set (others ranks root))
    \<Longrightarrow> chan_inv ranks root (goto me pc (set_chan a b ms s)) i j"
  by (cases "(i, j) = (a, b)") (auto simp: chan_inv_def)

text \<open>Only the root is at a point of the root's branch, and only another node at one of the other branch.\<close>

lemma inv_who:
  assumes "barrier_inv ranks root k s" and "me \<in> set ranks"
  shows "me = root \<Longrightarrow> root_ok ranks root (bs_pc s me)" and "me \<noteq> root \<Longrightarrow> leaf_ok (bs_pc s me)"
  using assms by (auto simp: barrier_inv_parts pair_inv_def leaf_inv_def others_iff)

lemma root_sent_next: "j \<noteq> n \<Longrightarrow> root_sent l (root_loop ranks root ns) j = root_sent l (Root_Sending (n # ns)) j"
  by (auto simp: root_loop_def)

lemma inv_send:
  assumes i: "barrier_inv ranks root k s" and me: "me \<in> set ranks" and b: "barrier_send ranks root (bs_pc s me) = Some (dest, pc)"
  shows "barrier_inv ranks root k (goto me pc (set_chan me dest (bs_chan s me dest @ [m]) s))"
proof (cases "me = root")
  case True
  obtain n ns where pr: "bs_pc s root = Root_Sending (n # ns)" and dp: "dest = n" "pc = root_loop ranks root ns"
    using b inv_who(1) [OF i me True] True by (cases "(ranks, root, bs_pc s root)" rule: barrier_send.cases) auto
  have ok: "distinct (n # ns)" "set (n # ns) \<subseteq> set (others ranks root)" "steps_in (bs_pc s root) (bs_left s root) \<le> k"
    using i pr by (simp_all add: barrier_inv_parts)
  have n: "pc \<noteq> Outside" "root_ok ranks root pc" using ok by (auto simp: dp root_loop_def)
  have nr: "n \<noteq> root" using ok(2) by (auto simp: others_iff)
  show ?thesis
  proof (rule inv_root_step [OF i n(2), where l = "bs_left s root"])
    show "steps_in pc (bs_left s root) \<le> k" using ok(3) n(1) pr by (simp add: steps_in_def)
    show "leaf_inv k (bs_left s root) pc j (bs_left s j) (bs_pc s j)
        (length (bs_chan (goto me pc (set_chan me dest (bs_chan s me dest @ [m]) s)) root j))
        (length (bs_chan (goto me pc (set_chan me dest (bs_chan s me dest @ [m]) s)) j root))"
      if j: "j \<in> set (others ranks root)" and pj: "pair_inv root k s j" for j
    proof (cases "j = n")
      case jn: True
      show ?thesis using pj ok(1) nr by (auto simp: True jn dp pair_inv_def leaf_inv_def pr root_loop_def)
    next
      case jn: False
      have t: "root_taken (bs_left s root) pc j = bs_left s root" by (simp add: dp root_loop_def)
      show ?thesis using pj j jn root_sent_next [OF jn, of "bs_left s root" ranks root ns] t
        by (simp add: True dp pair_inv_def leaf_inv_def pr others_iff)
    qed
  qed (use True n dp ok nr in \<open>auto simp: others_iff intro!: chan_inv_set_chan\<close>)
next
  case False
  have pr: "bs_pc s me = Leaf_Sending" "dest = root" "pc = Outside"
    using b inv_who(2) [OF i me False] by (auto simp: leaf_ok_def)
  show ?thesis
    by (rule inv_leaf_step [OF i, where me = me and pc = Outside and l = "Suc (bs_left s me)"])
      (use False me pr in \<open>auto simp: others_iff pair_inv_def leaf_inv_def leaf_ok_def leaf_taken_def steps_in_def\<close>)
qed

lemma inv_recv:
  assumes i: "barrier_inv ranks root k s" and me: "me \<in> set ranks" and m: "bs_chan s dest me = m # ms"
    and b: "barrier_recv ranks root dest (bs_pc s me) = Some pc"
  shows "barrier_inv ranks root k (goto me pc (set_chan dest me ms s))"
proof -
  have ch: "(dest = root \<and> me \<in> set (others ranks root)) \<or> (me = root \<and> dest \<in> set (others ranks root))"
    using i m unfolding barrier_inv_parts chan_inv_def by (metis list.distinct(1))
  show ?thesis
  proof (cases "me = root")
    case True
    then have d: "dest \<in> set (others ranks root)" "dest \<noteq> root" using ch by (auto simp: others_iff)
    obtain n ns got where pr: "bs_pc s root = Root_Receiving (n # ns) got" and p: "pc = Root_Receiving ns (got @ [dest])"
      using b inv_who(1) [OF i me True] True d
      by (cases "(ranks, root, dest, bs_pc s root)" rule: barrier_recv.cases) (auto simp: or_fail_def others_iff)
    have ok: "root_ok ranks root (bs_pc s root)" "steps_in (bs_pc s root) (bs_left s root) \<le> k" "pair_inv root k s dest"
      using i d by (simp_all add: barrier_inv_parts)
    have new: "dest \<notin> set got"
      using ok(3) m True by (auto simp: pair_inv_def leaf_inv_def pr leaf_taken_def split: if_splits)
    show ?thesis
    proof (rule inv_root_step [OF i, where l = "bs_left s root" and pc = pc])
      show "root_ok ranks root pc" using ok(1) new d by (simp add: p pr)
      show "steps_in pc (bs_left s root) \<le> k" using ok(2) by (simp add: p pr steps_in_def)
      show "leaf_inv k (bs_left s root) pc j (bs_left s j) (bs_pc s j)
          (length (bs_chan (goto me pc (set_chan dest me ms s)) root j)) (length (bs_chan (goto me pc (set_chan dest me ms s)) j root))"
        if "j \<in> set (others ranks root)" "pair_inv root k s j" for j
        using that new m True d by (cases "j = dest") (auto simp: p pair_inv_def leaf_inv_def pr others_iff)
    qed (use True d p in \<open>auto intro!: chan_inv_set_chan\<close>)
  next
    case False
    then have d: "dest = root" using ch by simp
    have pr: "bs_pc s me = Leaf_Receiving" "pc = Leaf_Sending"
      using b inv_who(2) [OF i me False] by (auto simp: leaf_ok_def d or_fail_def)
    show ?thesis
      by (rule inv_leaf_step [OF i, where me = me and pc = Leaf_Sending and l = "bs_left s me"])
        (use False me pr d m in \<open>auto simp: others_iff pair_inv_def leaf_inv_def leaf_ok_def leaf_taken_def steps_in_def\<close>)
  qed
qed

text \<open>The root ends a barrier only after it took a message of every other node.\<close>

lemma sort_distinct_unique: "distinct xs \<Longrightarrow> remdups_adj (sort xs) = sort (xs :: int list)"
  by (simp add: distinct_sort remdups_adj_distinct)

lemma root_received_all:
  assumes "root_ok ranks root (Root_Receiving [] got)"
  shows "set got = set (others ranks root)"
proof (rule card_seteq)
  show "card (set (others ranks root)) \<le> card (set got)"
    using assms card_length [of "others ranks root"] by (simp add: distinct_card)
qed (use assms in auto)

lemma inv_finish:
  assumes i: "barrier_inv ranks root k s" and me: "me \<in> set ranks" and b: "barrier_end (bs_pc s me) = Some pc"
  shows "barrier_inv ranks root k (goto me pc s)"
proof -
  obtain got where pm: "bs_pc s me = Root_Receiving [] got" using b by (cases "bs_pc s me" rule: barrier_end.cases) auto
  have mr: "me = root" using inv_who(2) [OF i me] by (auto simp: pm leaf_ok_def)
  have ok: "root_ok ranks root (Root_Receiving [] got)" "steps_in (bs_pc s root) (bs_left s root) \<le> k"
    using i pm mr by (simp_all add: barrier_inv_parts)
  have p: "pc = Outside" using b ok(1) by (simp add: pm or_fail_def sort_distinct_unique)
  show ?thesis unfolding p mr
    by (rule inv_root_step [OF i, where pc = Outside and l = "Suc (bs_left s root)"])
      (use ok(2) pm mr root_received_all [OF ok(1)] in \<open>auto simp: steps_in_def pair_inv_def leaf_inv_def chan_inv_def\<close>)
qed

lemma inv_step: "barrier_step ranks root k s s' \<Longrightarrow> distinct ranks \<Longrightarrow> barrier_inv ranks root k s \<Longrightarrow> barrier_inv ranks root k s'"
  by (induction rule: barrier_step.induct) (auto intro: inv_enter inv_send inv_recv inv_finish)

lemma inv_reachable: "(barrier_step ranks root k)\<^sup>*\<^sup>* barrier_init s \<Longrightarrow> distinct ranks \<Longrightarrow> barrier_inv ranks root k s"
  by (induction rule: rtranclp_induct) (auto intro: inv_init inv_step)

section \<open>Progress\<close>

lemma root_sent_le: "root_sent l pc j \<le> steps_in pc l"
  by (cases "(l, pc, j)" rule: root_sent.cases) (simp_all add: steps_in_def)

lemma root_taken_ge: "l \<le> root_taken l pc j"
  by (cases "(l, pc, j)" rule: root_taken.cases) simp_all

lemma leaf_counts:
  assumes "barrier_inv ranks root k s" and "j \<in> set ranks" and "j \<noteq> root"
  shows "bs_left s j \<le> entered s root" and "bs_left s root \<le> bs_left s j"
proof -
  have "pair_inv root k s j" using assms by (simp add: barrier_inv_parts others_iff)
  then have p: "leaf_taken (bs_left s j) (bs_pc s j) \<le> root_sent (bs_left s root) (bs_pc s root) j"
    "root_taken (bs_left s root) (bs_pc s root) j \<le> bs_left s j"
    by (auto simp: pair_inv_def leaf_inv_def)
  show "bs_left s j \<le> entered s root"
    using p(1) root_sent_le [of "bs_left s root" "bs_pc s root" j] by (simp add: leaf_taken_def entered_steps split: if_splits)
  show "bs_left s root \<le> bs_left s j"
    using p(2) root_taken_ge [of "bs_left s root" "bs_pc s root" j] by simp
qed

lemma no_failure:
  assumes "barrier_inv ranks root k s" and "j \<in> set ranks"
  shows "bs_pc s j \<noteq> Failed e"
  using inv_who [OF assms] by (cases "j = root") (auto simp: leaf_ok_def)

lemma enabled_intros:
  "me \<in> set ranks \<Longrightarrow> bs_pc s me = Outside \<Longrightarrow> bs_left s me < k \<Longrightarrow> \<exists>s'. barrier_step ranks root k s s'"
  "me \<in> set ranks \<Longrightarrow> barrier_send ranks root (bs_pc s me) \<noteq> None \<Longrightarrow> \<exists>s'. barrier_step ranks root k s s'"
  "me \<in> set ranks \<Longrightarrow> bs_chan s dest me \<noteq> [] \<Longrightarrow> barrier_recv ranks root dest (bs_pc s me) \<noteq> None \<Longrightarrow> \<exists>s'. barrier_step ranks root k s s'"
  "me \<in> set ranks \<Longrightarrow> barrier_end (bs_pc s me) \<noteq> None \<Longrightarrow> \<exists>s'. barrier_step ranks root k s s'"
  by (auto simp: neq_Nil_conv intro: barrier_step.intros)

text \<open>A node that waits for the root can take its message unless the root is behind it; a root that waits can take one or lets another node do so.\<close>

lemma leaf_enabled:
  assumes i: "barrier_inv ranks root k s" and j: "j \<in> set ranks" "j \<noteq> root" and pc: "bs_pc s j \<noteq> Outside"
    and r: "bs_left s j < root_sent (bs_left s root) (bs_pc s root) j"
  shows "\<exists>s'. barrier_step ranks root k s s'"
proof -
  have p: "pair_inv root k s j" using i j by (simp add: barrier_inv_parts others_iff)
  consider "bs_pc s j = Leaf_Sending" | "bs_pc s j = Leaf_Receiving" using p pc by (auto simp: pair_inv_def leaf_inv_def leaf_ok_def)
  then show ?thesis
  proof cases
    case 2
    then have "bs_chan s root j \<noteq> []" using p r by (auto simp: pair_inv_def leaf_inv_def leaf_taken_def)
    then show ?thesis using enabled_intros(3) [of j ranks s root root] 2 j by simp
  qed (use enabled_intros(2) [of j ranks root s] j in simp)
qed

lemma root_waits_enabled:
  assumes i: "barrier_inv ranks root k s" and r: "root \<in> set ranks" and d: "distinct ranks" and pr: "bs_pc s root = Root_Receiving (n # ns) got"
  shows "\<exists>s'. barrier_step ranks root k s s'"
proof -
  have ok: "root_ok ranks root (bs_pc s root)" using i by (simp add: barrier_inv_parts)
  then have "length got < length (others ranks root)" "distinct got" by (simp_all add: pr)
  moreover have "distinct (others ranks root)" using d by (simp add: others_def)
  ultimately have "\<not> set (others ranks root) \<subseteq> set got"
    by (metis card_mono distinct_card leD List.finite_set)
  then obtain j where j: "j \<in> set (others ranks root)" "j \<notin> set got" by auto
  have p: "pair_inv root k s j" "steps_in (bs_pc s root) (bs_left s root) \<le> k" using i j by (simp_all add: barrier_inv_parts)
  show ?thesis
  proof (cases "bs_chan s j root = []")
    case False
    then show ?thesis using enabled_intros(3) [of root ranks s j root] r by (simp add: pr)
  next
    case True
    then have l: "bs_left s j = bs_left s root" using p(1) j(2) by (simp add: pair_inv_def leaf_inv_def pr)
    show ?thesis
    proof (cases "bs_pc s j = Outside")
      case True
      then show ?thesis using enabled_intros(1) [of j ranks s k root] p(2) j l by (simp add: others_iff steps_in_def pr)
    qed (use leaf_enabled [OF i, of j] j l in \<open>simp add: others_iff pr\<close>)
  qed
qed

lemma root_enabled:
  assumes i: "barrier_inv ranks root k s" and r: "root \<in> set ranks" and d: "distinct ranks" and pr: "bs_pc s root \<noteq> Outside"
  shows "\<exists>s'. barrier_step ranks root k s s'"
proof -
  have ok: "root_ok ranks root (bs_pc s root)" using i by (simp add: barrier_inv_parts)
  show ?thesis
  proof (cases "bs_pc s root")
    case (Root_Sending ns)
    then show ?thesis using ok enabled_intros(2) [of root ranks root s] r by (cases ns) auto
  next
    case (Root_Receiving ns got)
    then show ?thesis using root_waits_enabled [OF i r d] enabled_intros(4) [of root ranks s] r by (cases ns) auto
  qed (use ok pr in auto)
qed

lemma barrier_progress:
  assumes i: "barrier_inv ranks root k s" and r: "root \<in> set ranks" and d: "distinct ranks"
    and stuck: "\<nexists>s'. barrier_step ranks root k s s'" and j: "j \<in> set ranks"
  shows "bs_left s j = k"
proof -
  have ro: "bs_pc s root = Outside" using root_enabled [OF i r d] stuck by blast
  have le: "steps_in (bs_pc s root) (bs_left s root) \<le> k" using i by (simp add: barrier_inv_parts)
  have rk: "bs_left s root = k" using enabled_intros(1) [OF r ro, of k root] stuck le ro by (fastforce simp: steps_in_def)
  show ?thesis
  proof (cases "j = root")
    case False
    have p: "pair_inv root k s j" using i j False by (simp add: barrier_inv_parts others_iff)
    then have "steps_in (bs_pc s j) (bs_left s j) \<le> k" by (simp add: pair_inv_def leaf_inv_def)
    moreover have "k \<le> bs_left s j" using leaf_counts(2) [OF i j False] rk by simp
    ultimately show ?thesis by (simp add: steps_in_def split: if_splits)
  qed (simp add: rk)
qed

section \<open>Length of a run\<close>

text \<open>The steps that a node still has to do in the call it is in, and in all its calls.\<close>

fun call_work :: "nat \<Rightarrow> b_pc \<Rightarrow> nat" where
  "call_work n (Root_Sending ns) = length ns + n + 1"
| "call_work n (Root_Receiving ns got) = length ns + 1"
| "call_work n Leaf_Receiving = 2"
| "call_work n Leaf_Sending = 1"
| "call_work n pc = 0"

definition node_work :: "int list \<Rightarrow> int \<Rightarrow> nat \<Rightarrow> barrier_state \<Rightarrow> int \<Rightarrow> nat" where
  "node_work ranks root k s j = call_work (length (others ranks root)) (bs_pc s j)
     + (k - entered s j) * (if j = root then 2 * length (others ranks root) + 2 else 3)"

definition barrier_work :: "int list \<Rightarrow> int \<Rightarrow> nat \<Rightarrow> barrier_state \<Rightarrow> nat" where
  "barrier_work ranks root k s = (\<Sum>j \<in> set ranks. node_work ranks root k s j)"

lemma work_step:
  assumes me: "me \<in> set ranks" and same: "\<And>j. j \<noteq> me \<Longrightarrow> node_work ranks root k s' j = node_work ranks root k s j"
    and less: "node_work ranks root k s me = Suc (node_work ranks root k s' me)"
  shows "barrier_work ranks root k s = Suc (barrier_work ranks root k s')"
proof -
  have "barrier_work ranks root k t = node_work ranks root k t me + (\<Sum>j \<in> set ranks - {me}. node_work ranks root k t j)" for t
    unfolding barrier_work_def using me by (simp add: sum.remove)
  moreover have "(\<Sum>j \<in> set ranks - {me}. node_work ranks root k s' j) = (\<Sum>j \<in> set ranks - {me}. node_work ranks root k s j)"
    using same by (intro sum.cong) auto
  ultimately show ?thesis using less by simp
qed

lemma node_work_other: "j \<noteq> me \<Longrightarrow> node_work ranks root k (goto me pc s) j = node_work ranks root k s j"
  "node_work ranks root k (goto me pc (set_chan a b ms s)) j = node_work ranks root k (goto me pc s) j"
  by (simp_all add: node_work_def entered_def)

text \<open>Inside a call a step shortens the rest of the call by one.\<close>

lemma node_work_inside:
  assumes "bs_pc s me \<noteq> Outside" and "call_work (length (others ranks root)) (bs_pc s me) = Suc (call_work (length (others ranks root)) pc)"
  shows "node_work ranks root k s me = Suc (node_work ranks root k (goto me pc s) me)"
  using assms by (simp add: node_work_def entered_def)

lemma call_work_send: "barrier_send ranks root pc = Some (dest, pc')
    \<Longrightarrow> pc \<noteq> Outside \<and> call_work (length (others ranks root)) pc = Suc (call_work (length (others ranks root)) pc')"
  by (cases "(ranks, root, pc)" rule: barrier_send.cases) (auto simp: root_loop_def)

lemma call_work_recv: "barrier_recv ranks root dest pc = Some pc' \<Longrightarrow> (\<And>e. pc' \<noteq> Failed e)
    \<Longrightarrow> pc \<noteq> Outside \<and> call_work n pc = Suc (call_work n pc')"
  by (cases "(ranks, root, dest, pc)" rule: barrier_recv.cases) (auto simp: or_fail_def rbind_def check_def split: sum.splits if_splits)

lemma call_work_end: "barrier_end pc = Some pc' \<Longrightarrow> pc \<noteq> Outside \<and> call_work n pc = Suc (call_work n pc')"
  by (cases pc rule: barrier_end.cases) (auto simp: or_fail_def rbind_def check_def split: sum.splits if_splits)

lemma node_work_enter:
  assumes "bs_pc s me = Outside" and "bs_left s me < k"
  shows "node_work ranks root k s me = Suc (node_work ranks root k (goto me (barrier_begin ranks root me) s) me)"
proof -
  let ?n = "length (others ranks root)"
  have e: "entered s me = bs_left s me" "entered (goto me (barrier_begin ranks root me) s) me = Suc (bs_left s me)"
    using assms by (simp_all add: entered_def barrier_begin_def root_loop_def)
  obtain r where r: "k - bs_left s me = Suc r" using assms by (cases "k - bs_left s me") auto
  then have r': "k - Suc (bs_left s me) = r" by simp
  have w: "call_work ?n (barrier_begin ranks root me) = (if me = root then 2 * ?n + 1 else 2)"
    by (simp add: barrier_begin_def root_loop_def)
  show ?thesis unfolding node_work_def e r r' using w by (simp add: assms)
qed

lemma barrier_work_step:
  assumes "barrier_step ranks root k s s'" and "distinct ranks" and i: "barrier_inv ranks root k s"
  shows "barrier_work ranks root k s = Suc (barrier_work ranks root k s')"
  using assms(1)
proof cases
  case (enter me)
  show ?thesis unfolding enter(1) by (rule work_step [OF enter(2)]) (simp_all add: node_work_other node_work_enter enter)
next
  case (send me dest pc)
  show ?thesis unfolding send(1)
    by (rule work_step [OF send(2)]) (simp_all add: node_work_other node_work_inside call_work_send [OF send(3)])
next
  case (recv me dest m ms pc)
  have "pc \<noteq> Failed e" for e
    using no_failure [OF inv_step [OF assms(1,2) i] recv(2), of e] recv(1) by simp
  note w = call_work_recv [OF recv(4) this]
  show ?thesis unfolding recv(1)
    by (rule work_step [OF recv(2)]) (simp_all add: node_work_other node_work_inside w)
next
  case (finish me pc)
  show ?thesis unfolding finish(1)
    by (rule work_step [OF finish(2)]) (simp_all add: node_work_other node_work_inside call_work_end [OF finish(3)])
qed

lemma barrier_run_length:
  assumes "(barrier_step ranks root k ^^ n) barrier_init s" and "distinct ranks"
  shows "n + barrier_work ranks root k s = barrier_work ranks root k barrier_init"
  using assms(1)
proof (induction n arbitrary: s)
  case (Suc n)
  from Suc.prems obtain t where t: "(barrier_step ranks root k ^^ n) barrier_init t" "barrier_step ranks root k t s" by auto
  have "barrier_inv ranks root k t" using t(1) assms(2) by (auto intro: inv_reachable relpowp_imp_rtranclp)
  then show ?case using Suc.IH [OF t(1)] barrier_work_step [OF t(2) assms(2)] by simp
qed simp

lemma work_init:
  assumes "distinct ranks" and "root \<in> set ranks"
  shows "barrier_work ranks root k barrier_init = k * (5 * length ranks - 3)"
proof -
  have "others ranks root = remove1 root ranks" using assms(1)
    by (simp add: others_def distinct_remove1_removeAll removeAll_filter_not_eq eq_commute)
  then have lo: "length (others ranks root) = length ranks - 1" using assms(2) by (simp add: length_remove1)
  have lo1: "length ranks \<ge> 1" using assms(2) by (cases ranks) auto
  have "barrier_work ranks root k barrier_init = (\<Sum>j \<in> set ranks. k * (if j = root then 2 * length ranks else 3))"
    unfolding barrier_work_def using lo lo1 by (intro sum.cong) (auto simp: node_work_def barrier_init_def entered_def algebra_simps)
  also have "\<dots> = k * (2 * length ranks) + (\<Sum>j \<in> set ranks - {root}. k * 3)"
    using assms(2) by (simp add: sum.remove [of "set ranks" root])
  also have "\<dots> = k * (5 * length ranks - 3)"
    using lo1 assms by (simp add: card_Diff_singleton distinct_card) (simp add: diff_mult_distrib2 algebra_simps)
  finally show ?thesis .
qed

lemma steps_le:
  assumes "barrier_inv ranks root k s" and "j \<in> set ranks"
  shows "steps_in (bs_pc s j) (bs_left s j) \<le> k"
  using assms by (cases "j = root") (auto simp: barrier_inv_parts pair_inv_def leaf_inv_def others_iff)

lemma work_zero:
  assumes i: "barrier_inv ranks root k s"
  shows "barrier_work ranks root k s = 0 \<longleftrightarrow> (\<forall>j \<in> set ranks. bs_left s j = k \<and> bs_pc s j = Outside)"
proof -
  have c: "call_work n (bs_pc s j) = 0 \<longleftrightarrow> bs_pc s j = Outside" if "j \<in> set ranks" for j n
    using no_failure [OF i that] by (cases "bs_pc s j") auto
  have "node_work ranks root k s j = 0 \<longleftrightarrow> bs_left s j = k \<and> bs_pc s j = Outside" if j: "j \<in> set ranks" for j
    using c [OF j] steps_le [OF i j] by (auto simp: node_work_def entered_def steps_in_def)
  then show ?thesis by (simp add: barrier_work_def)
qed

section \<open>What the barrier gives\<close>

text \<open>C20: The barrier of the test application, \<open>k\<close> calls by every node with any interleaving of their sends and receives. No check fails. The root leaves its
  \<open>m\<close>-th call only after every node entered its own, another node only after the root entered its own, and hence a node leaves its \<open>m + 1\<close>-th
  call only after every node entered its \<open>m\<close>-th: two calls in a row, as the simple UDP test has them, are a barrier.\<close>

theorem double_barrier:
  assumes "distinct ranks" and "root \<in> set ranks" and "(barrier_step ranks root k)\<^sup>*\<^sup>* barrier_init s" and "i \<in> set ranks" and "j \<in> set ranks"
  shows "bs_pc s i \<noteq> Failed e \<and> bs_left s root \<le> entered s j \<and> bs_left s i \<le> entered s root \<and> bs_left s i \<le> Suc (entered s j)"
proof (intro conjI)
  note inv = inv_reachable [OF assms(3,1)]
  have e: "bs_left s x \<le> entered s x" "entered s x \<le> Suc (bs_left s x)" for x by (simp_all add: entered_def)
  show "bs_pc s i \<noteq> Failed e" by (rule no_failure [OF inv assms(4)])
  have root: "bs_left s root \<le> bs_left s x" if "x \<in> set ranks" for x using leaf_counts(2) [OF inv that] by (cases "x = root") auto
  show r: "bs_left s root \<le> entered s j" using root [OF assms(5)] e(1) [of j] by linarith
  show l: "bs_left s i \<le> entered s root" using leaf_counts(1) [OF inv assms(4)] e(1) by (cases "i = root") auto
  show "bs_left s i \<le> Suc (entered s j)" using l r e(2) [of root] by linarith
qed

text \<open>A single call is not a barrier: with three nodes, a node other than the root leaves it while another one has not entered it.\<close>

definition early_leave :: barrier_state where
  "early_leave = the (run_steps [0, 1, 2] 0 1 [(0, 0), (0, 0), (1, 0), (1, 0), (1, 0)] barrier_init)"

lemmas run_simps = run_step_def goto_def set_chan_def barrier_init_def barrier_begin_def root_loop_def others_def or_fail_def check_def rbind_def

lemma single_call_no_barrier:
  "(barrier_step [0, 1, 2] 0 1 ^^ 5) barrier_init early_leave" "bs_left early_leave 1 = 1" "entered early_leave 2 = 0"
proof -
  have r: "run_steps [0, 1, 2] 0 1 [(0, 0), (0, 0), (1, 0), (1, 0), (1, 0)] barrier_init = Some early_leave"
    unfolding early_leave_def by (simp add: run_simps)
  show "(barrier_step [0, 1, 2] 0 1 ^^ 5) barrier_init early_leave" by (rule run_steps_run [OF r]) simp
  show "bs_left early_leave 1 = 1" "entered early_leave 2 = 0" by (simp_all add: early_leave_def run_simps entered_def)
qed

theorem double_barrier_witness:
  "bs_pc early_leave 1 \<noteq> Failed (Check_Failed ''dest == root'') \<and> bs_left early_leave 0 \<le> entered early_leave 2 \<and> bs_left early_leave 1 \<le> entered early_leave 0
    \<and> bs_left early_leave 1 = Suc (entered early_leave 2) \<and> bs_left early_leave 1 \<le> Suc (entered early_leave 2)"
proof -
  have r: "(barrier_step [0, 1, 2] 0 1)\<^sup>*\<^sup>* barrier_init early_leave" using single_call_no_barrier(1) by (rule relpowp_imp_rtranclp)
  note d = double_barrier [of "[0, 1, 2]" 0 1 early_leave 1 2, OF _ _ r]
  show ?thesis using d [of "Check_Failed ''dest == root''"] single_call_no_barrier(2,3) by simp
qed

text \<open>C21: No run of the barrier deadlocks or goes on for ever: a run of \<open>k\<close> calls by \<open>n\<close> nodes has at most \<open>k * (5 * n - 3)\<close> steps, and one that cannot go on has
  exactly that many, with every node out of its last call.\<close>

theorem barrier_ends:
  assumes "distinct ranks" and "root \<in> set ranks" and "(barrier_step ranks root k ^^ n) barrier_init s"
  shows "n \<le> k * (5 * length ranks - 3)
    \<and> ((\<nexists>s'. barrier_step ranks root k s s') \<longleftrightarrow> n = k * (5 * length ranks - 3))
    \<and> ((\<nexists>s'. barrier_step ranks root k s s') \<longleftrightarrow> (\<forall>j \<in> set ranks. bs_left s j = k \<and> bs_pc s j = Outside))"
proof (intro conjI)
  have inv: "barrier_inv ranks root k s" using assms(1,3) by (auto intro: inv_reachable relpowp_imp_rtranclp)
  note w = barrier_run_length [OF assms(3,1)] work_init [OF assms(1,2), of k]
  show "n \<le> k * (5 * length ranks - 3)" using w by simp
  have dn: "barrier_work ranks root k s = 0 \<longleftrightarrow> (\<forall>j \<in> set ranks. bs_left s j = k \<and> bs_pc s j = Outside)"
    by (rule work_zero [OF inv])
  have "\<forall>j \<in> set ranks. bs_left s j = k \<and> bs_pc s j = Outside" if st: "\<nexists>s'. barrier_step ranks root k s s'"
  proof
    fix j assume j: "j \<in> set ranks"
    show "bs_left s j = k \<and> bs_pc s j = Outside"
      using barrier_progress [OF inv assms(2,1) st j] steps_le [OF inv j] by (simp add: steps_in_def split: if_splits)
  qed
  moreover have "\<nexists>s'. barrier_step ranks root k s s'" if "barrier_work ranks root k s = 0"
    using that barrier_work_step [OF _ assms(1) inv] by auto
  ultimately show "(\<nexists>s'. barrier_step ranks root k s s') \<longleftrightarrow> (\<forall>j \<in> set ranks. bs_left s j = k \<and> bs_pc s j = Outside)"
    and "(\<nexists>s'. barrier_step ranks root k s s') \<longleftrightarrow> n = k * (5 * length ranks - 3)"
    using dn w by auto
qed

definition one_barrier :: barrier_state where
  "one_barrier = the (run_steps [0, 1] 0 1 [(0, 0), (0, 0), (1, 0), (1, 0), (1, 0), (0, 1), (0, 0)] barrier_init)"

theorem barrier_ends_witness:
  "(7 :: nat) = 1 * (5 * length [0, 1 :: int] - 3) \<and> (\<nexists>s'. barrier_step [0, 1] 0 1 one_barrier s') \<and> bs_left one_barrier 1 = 1 \<and> bs_pc one_barrier 1 = Outside"
proof -
  have r: "run_steps [0, 1] 0 1 [(0, 0), (0, 0), (1, 0), (1, 0), (1, 0), (0, 1), (0, 0)] barrier_init = Some one_barrier"
    unfolding one_barrier_def by (simp add: run_simps)
  have s: "(barrier_step [0, 1] 0 1 ^^ 7) barrier_init one_barrier" by (rule run_steps_run [OF r]) simp
  note b = barrier_ends [OF _ _ s]
  show ?thesis using b by auto
qed

end
