(* ===== verification/Test_Run.thy ===== *)
theory Test_Run
  imports Test_App Test_Barrier
begin

text \<open>
  The options and the tests of the test application (\<open>src/src/mlt/test_mlt.cc\<close>), over the communicator of \<open>Communicator\<close>.

  The results of \<open>getopt_long\<close> are a list of options with their arguments, and the index of the first argument that is left.
\<close>

section \<open>Options\<close>

datatype test_mode = CONNECTION | RC_CORRECTNESS | RC_SPEED | UDP_SIMPLE | UDP_SPEED

definition g_test_mode_str :: "(string \<times> test_mode) list" where
  "g_test_mode_str = [(''connection'', CONNECTION), (''rc_correctness'', RC_CORRECTNESS), (''rc_speed'', RC_SPEED),
     (''udp_simple'', UDP_SIMPLE), (''udp_speed'', UDP_SPEED)]"

text \<open>Members without a value are \<open>None\<close> until an option sets them.\<close>

record test_app =
  ta_host_file :: string
  ta_my_rank :: "int option"
  ta_mode :: "test_mode option"
  ta_meta_size :: "nat option"
  ta_data_len :: "nat option"
  ta_nodes :: "tnode list"

definition TestMLTApp :: test_app where
  "TestMLTApp = \<lparr>ta_host_file = [], ta_my_rank = None, ta_mode = None, ta_meta_size = None, ta_data_len = None, ta_nodes = []\<rparr>"

datatype parsed = Exit_0 | Returned int test_app

text \<open>The loop over the options: an option that is not known ends it with the error 1, past the check of the other arguments.\<close>

fun parse_options :: "(char \<times> string) list \<Rightarrow> bool \<Rightarrow> int \<Rightarrow> test_app \<Rightarrow> parsed" where
  "parse_options [] rest err app = Returned (if rest then 1 else err) app"
| "parse_options ((c, optarg) # os) rest err app =
     (if c = CHR ''h'' then Exit_0
      else if c = CHR ''H'' then parse_options os rest err (app\<lparr>ta_host_file := optarg\<rparr>)
      else if c = CHR ''r'' then parse_options os rest err (app\<lparr>ta_my_rank := Some (atoi optarg)\<rparr>)
      else if c = CHR ''M'' then
        (case map_of g_test_mode_str (ToLower optarg) of
           Some m \<Rightarrow> parse_options os rest err (app\<lparr>ta_mode := Some m\<rparr>)
         | None \<Rightarrow> parse_options os rest 2 app)
      else if c = CHR ''m'' then parse_options os rest err (app\<lparr>ta_meta_size := Some (u64_of_int (atoi optarg))\<rparr>)
      else if c = CHR ''l'' then parse_options os rest err (app\<lparr>ta_data_len := Some (u64_of_int (atoi optarg))\<rparr>)
      else Returned 1 app)"

definition test_ParseArgument :: "(char \<times> string) list \<Rightarrow> int \<Rightarrow> int \<Rightarrow> test_app \<Rightarrow> parsed" where
  "test_ParseArgument opts optind argc app = parse_options opts (optind < argc) 0 app"

section \<open>Starting and stopping\<close>

text \<open>The loops over the other nodes. \<open>None\<close> while \<open>AddConnection\<close> waits for a peer that has to connect itself; \<open>ptr\<close>, \<open>sent\<close> and \<open>addr\<close> give the pointer
  of a new connection, the bytes its socket accepts and the resolved address.\<close>

fun add_connections :: "(int \<Rightarrow> conn_meta res) \<Rightarrow> (int \<Rightarrow> nat) \<Rightarrow> (int \<Rightarrow> nat) \<Rightarrow> (string \<Rightarrow> int \<Rightarrow> 'addr) \<Rightarrow> int \<Rightarrow> tnode list
    \<Rightarrow> 'addr mlt_global \<times> rchannel \<times> world \<Rightarrow> ('addr mlt_global \<times> rchannel \<times> world) option res" where
  "add_connections mk ptr sent addr me [] st = Inr (Some st)"
| "add_connections mk ptr sent addr me (n # ns) st =
     (if tn_rank n = me then add_connections mk ptr sent addr me ns st
      else rbind (AddConnection mk (ptr (tn_rank n)) (sent (tn_rank n)) (tn_rank n) (addr (tn_host n) (tn_port n)) st) (\<lambda>r.
        case r of None \<Rightarrow> Inr None | Some st' \<Rightarrow> add_connections mk ptr sent addr me ns st'))"

definition Startup :: "env \<Rightarrow> int \<Rightarrow> (int \<Rightarrow> conn_meta res) \<Rightarrow> (int \<Rightarrow> nat) \<Rightarrow> (int \<Rightarrow> nat) \<Rightarrow> (string \<Rightarrow> int \<Rightarrow> 'addr) \<Rightarrow> (string \<Rightarrow> string option)
    \<Rightarrow> test_app \<Rightarrow> 'addr mlt_global \<times> rchannel \<times> world \<Rightarrow> (test_app \<times> started \<times> ('addr mlt_global \<times> rchannel \<times> world) option) res" where
  "Startup env nq mk ptr sent addr files app st =
     rbind (ParseHostFile (files (ta_host_file app)) (ta_nodes app)) (\<lambda>nodes.
     case ta_my_rank app of
       None \<Rightarrow> Inl (Undefined_Behaviour ''my_rank_ has no value'')
     | Some me \<Rightarrow>
         rbind (FindNode nodes me) (\<lambda>my_node.
           let (g, r, w) = st; st1 = (MLTGlobal_Init g, r, w\<lparr>w_comm_id := me\<rparr>) in
           rbind (Start env nq (tn_port my_node)) (\<lambda>started.
           rbind (add_connections mk ptr sent addr me nodes st1) (\<lambda>st'. Inr (app\<lparr>ta_nodes := nodes\<rparr>, started, st')))))"

fun remove_connections :: "int \<Rightarrow> tnode list \<Rightarrow> rchannel \<times> world \<Rightarrow> (rchannel \<times> world) res" where
  "remove_connections me [] st = Inr st"
| "remove_connections me (n # ns) st =
     (if tn_rank n \<noteq> me then rbind (RemoveConnection (tn_rank n) st) (remove_connections me ns) else remove_connections me ns st)"

text \<open>\<open>Run\<close>: the first step that returns an error ends it.\<close>

definition Run :: "test_app \<Rightarrow> int res \<Rightarrow> (test_mode \<Rightarrow> int res) \<Rightarrow> int res \<Rightarrow> int res" where
  "Run app startup test finalize =
     rbind startup (\<lambda>rc. if rc \<noteq> 0 then Inr rc else
       rbind (case ta_mode app of
           None \<Rightarrow> Inl (Undefined_Behaviour ''mode_ has no value'')
         | Some UDP_SPEED \<Rightarrow> Inr 0
         | Some RC_CORRECTNESS \<Rightarrow> Inl (Fatal ''implement this'')
         | Some m \<Rightarrow> test m) (\<lambda>rc. if rc \<noteq> 0 then Inr rc else finalize))"

section \<open>The connection test\<close>

definition text_bytes :: "string \<Rightarrow> byte list" where
  "text_bytes s = map of_char s"

fun send_hellos :: "int \<Rightarrow> tnode list \<Rightarrow> world \<Rightarrow> world res" where
  "send_hellos me [] w = Inr w"
| "send_hellos me (n # ns) w =
     (if tn_rank n = me then send_hellos me ns w
      else (let greeting = text_bytes (Hello n) in
        rbind (SendMetaAsync (tn_rank n) (Buffer_view greeting (length greeting) (length greeting)) w) (send_hellos me ns)))"

text \<open>A round of the receiving loop, and \<open>k\<close> rounds; \<open>None\<close> while a round waits for a message.\<close>

definition recv_hello :: "tnode list \<Rightarrow> byte list \<Rightarrow> world \<Rightarrow> world option res" where
  "recv_hello nodes expected w =
     (let room = replicate (length expected) (48 :: byte) in
      rbind (RecvMeta (Buffer_view room (length room) (length room)) w) (\<lambda>r. case r of
        None \<Rightarrow> Inr None
      | Some (rank, b, w') \<Rightarrow>
          rbind (check (\<exists>n \<in> set nodes. rank = tn_rank n) ''receive from unknown rank'') (\<lambda>_.
          rbind (check (bf_msg_length b = u32 (length expected)) ''recv_buffer.msg_length() == expected_greeting.size()'') (\<lambda>_.
          rbind (check (bf_data b = expected) ''recv_string == expected_greeting'') (\<lambda>_. Inr (Some w'))))))"

fun recv_hellos :: "nat \<Rightarrow> tnode list \<Rightarrow> byte list \<Rightarrow> world \<Rightarrow> world option res" where
  "recv_hellos 0 nodes expected w = Inr (Some w)"
| "recv_hellos (Suc k) nodes expected w =
     rbind (recv_hello nodes expected w) (\<lambda>r. case r of None \<Rightarrow> Inr None | Some w' \<Rightarrow> recv_hellos k nodes expected w')"

definition RunTestConnection_send :: "int \<Rightarrow> tnode list \<Rightarrow> world \<Rightarrow> world res" where
  "RunTestConnection_send me nodes w = rbind (FindNode nodes me) (\<lambda>_. send_hellos me nodes w)"

definition RunTestConnection_recv :: "int \<Rightarrow> tnode list \<Rightarrow> world \<Rightarrow> world option res" where
  "RunTestConnection_recv me nodes w =
     rbind (FindNode nodes me) (\<lambda>my_node. recv_hellos (length nodes - 1) nodes (text_bytes (Hello my_node)) w)"

section \<open>The speed test\<close>

definition max_gap :: nat where "max_gap = 320"

record speed_state =
  sp_send_cnt :: "nat list"
  sp_recv_cnt :: "nat list"

definition max_rank :: "tnode list \<Rightarrow> int" where
  "max_rank nodes = fold (\<lambda>n m. if m < tn_rank n then tn_rank n else m) nodes (- 1)"

definition speed_init :: "tnode list \<Rightarrow> speed_state" where
  "speed_init nodes = (let k = nat (max_rank nodes + 1) in \<lparr>sp_send_cnt = replicate k 0, sp_recv_cnt = replicate k 0\<rparr>)"

text \<open>One node of the inner loop. Counts do not reach \<open>2 ^ 64\<close>. The buffer is used for sending and receiving; its content does not matter.\<close>

definition speed_visit :: "int \<Rightarrow> tnode list \<Rightarrow> byte list \<Rightarrow> tnode \<Rightarrow> speed_state \<times> world \<Rightarrow> (byte list \<times> speed_state \<times> world) option res" where
  "speed_visit me nodes buf node st =
     (let (s, w) = st; rank = tn_rank node; size = length buf in
      if rank = me then Inr (Some (buf, s, w))
      else if rank < 0 \<or> int (length (sp_send_cnt s)) \<le> rank then Inl (Undefined_Behaviour ''send_cnt[rank]'')
      else if sp_send_cnt s ! nat rank \<le> sp_recv_cnt s ! nat rank + max_gap then
        rbind (SendMetaAsync rank (Buffer_view buf size size) w) (\<lambda>w'.
          Inr (Some (buf, s\<lparr>sp_send_cnt := (sp_send_cnt s)[nat rank := sp_send_cnt s ! nat rank + 1]\<rparr>, w')))
      else
        rbind (RecvMeta (Buffer_view buf size size) w) (\<lambda>r. case r of
          None \<Rightarrow> Inr None
        | Some (n_rank, b, w') \<Rightarrow>
            rbind (check (\<exists>n \<in> set nodes. n_rank = tn_rank n) ''receive from unknown rank'') (\<lambda>_.
            rbind (check (bf_msg_length b = size) ''recv_buffer.msg_length() == meta_size_'') (\<lambda>_.
            if n_rank < 0 \<or> int (length (sp_recv_cnt s)) \<le> n_rank then Inl (Undefined_Behaviour ''recv_cnt[n_rank]'')
            else Inr (Some (bf_data b, s\<lparr>sp_recv_cnt := (sp_recv_cnt s)[nat n_rank := sp_recv_cnt s ! nat n_rank + 1]\<rparr>, w'))))))"

section \<open>The simple UDP test\<close>

fun post_recvs :: "int \<Rightarrow> tnode list \<Rightarrow> lt_message \<Rightarrow> world \<Rightarrow> world res" where
  "post_recvs me [] msg w = Inr w"
| "post_recvs me (n # ns) msg w = (if tn_rank n = me then post_recvs me ns msg w else rbind (PostRecv (tn_rank n) msg (1 / 10) w) (post_recvs me ns msg))"

fun post_sends :: "int \<Rightarrow> tnode list \<Rightarrow> lt_message \<Rightarrow> prio_func \<Rightarrow> world \<Rightarrow> world res" where
  "post_sends me [] msg f w = Inr w"
| "post_sends me (n # ns) msg f w = (if tn_rank n = me then post_sends me ns msg f w else rbind (PostSend (tn_rank n) msg f w) (post_sends me ns msg f))"

fun check_comps :: "completion list \<Rightarrow> unit res" where
  "check_comps [] = Inr ()"
| "check_comps (c # cs) = rbind (check (cp_msg_id c = 5) ''comps[i].msg_id == 5'') (\<lambda>_. check_comps cs)"

text \<open>The polling loop; before every poll the completions of the next list arrive.\<close>

fun poll_comps :: "nat \<Rightarrow> int \<Rightarrow> completion list list \<Rightarrow> completion list \<Rightarrow> (int \<times> completion list) option res" where
  "poll_comps n num arrivals cq =
     (if num + 2 < 2 * int n then
        (case arrivals of
           [] \<Rightarrow> Inr None
         | a # as \<Rightarrow> (let (comps, ret, cq') = PollOnce 32 (cq @ a) in rbind (check_comps comps) (\<lambda>_. poll_comps n (num + ret) as cq')))
      else Inr (Some (num, cq)))"

declare poll_comps.simps [simp del]

section \<open>Options: results\<close>

text \<open>A mode that is not known makes the result non-zero, whatever follows it.\<close>

lemma parse_options_err: "err \<noteq> 0 \<Longrightarrow> parse_options os rest err app \<noteq> Returned 0 app'"
  by (induction os rest err app rule: parse_options.induct) (auto split: option.splits)

lemma bad_mode_refused:
  "map_of g_test_mode_str (ToLower m) = None \<Longrightarrow> parse_options (as @ (CHR ''M'', m) # bs) rest err app \<noteq> Returned 0 app'"
  by (induction as rest err app rule: parse_options.induct) (auto simp: parse_options_err split: option.splits)

section \<open>Starting: results\<close>

text \<open>After all connections are added the address of every other node is known under its rank.\<close>

definition knows_addr :: "'addr mlt_global \<Rightarrow> int \<Rightarrow> 'addr \<Rightarrow> bool" where
  "knows_addr g rank a \<longleftrightarrow> AddrFromCommId g rank = Inr (Some a)"

lemma AddCommIdAddr_knows:
  assumes "AddCommIdAddr g dest a = Inr g'"
  shows "knows_addr g' dest a" and "knows_addr g rank b \<Longrightarrow> rank \<noteq> dest \<Longrightarrow> knows_addr g' rank b"
  using assms by (auto simp: AddCommIdAddr_def knows_addr_def AddrFromCommId_def Let_def nth_append split: if_splits)

lemma AddConnection_global:
  assumes "AddConnection mk p k dest a (g, r, w) = Inr (Some (g', r', w'))"
  shows "AddCommIdAddr g dest a = Inr g'"
  using assms by (auto simp: AddConnection_def rbind_eq_Inr_conv split: if_splits option.splits)

lemma add_connections_keep:
  assumes "add_connections mk ptr sent addr me ns (g, r, w) = Inr (Some (g', r', w'))" and "knows_addr g rank b" and "rank \<notin> tn_rank ` set ns"
  shows "knows_addr g' rank b"
  using assms
proof (induction ns arbitrary: g r w)
  case (Cons n ns)
  show ?case
  proof (cases "tn_rank n = me")
    case False
    then obtain g1 r1 w1 where a: "AddConnection mk (ptr (tn_rank n)) (sent (tn_rank n)) (tn_rank n) (addr (tn_host n) (tn_port n)) (g, r, w) = Inr (Some (g1, r1, w1))"
      and rest: "add_connections mk ptr sent addr me ns (g1, r1, w1) = Inr (Some (g', r', w'))"
      using Cons.prems(1) by (auto simp: rbind_eq_Inr_conv split: option.splits)
    have "knows_addr g1 rank b" using AddCommIdAddr_knows(2) [OF AddConnection_global [OF a]] Cons.prems(2,3) by auto
    then show ?thesis using Cons.IH [OF rest] Cons.prems(3) by auto
  qed (use Cons in auto)
qed simp

lemma add_connections_knows:
  assumes "add_connections mk ptr sent addr me ns (g, r, w) = Inr (Some (g', r', w'))" and "distinct (map tn_rank ns)" and "n \<in> set ns" and "tn_rank n \<noteq> me"
  shows "knows_addr g' (tn_rank n) (addr (tn_host n) (tn_port n))"
  using assms
proof (induction ns arbitrary: g r w)
  case (Cons m ns)
  show ?case
  proof (cases "tn_rank m = me")
    case False
    then obtain g1 r1 w1 where a: "AddConnection mk (ptr (tn_rank m)) (sent (tn_rank m)) (tn_rank m) (addr (tn_host m) (tn_port m)) (g, r, w) = Inr (Some (g1, r1, w1))"
      and rest: "add_connections mk ptr sent addr me ns (g1, r1, w1) = Inr (Some (g', r', w'))"
      using Cons.prems(1) by (auto simp: rbind_eq_Inr_conv split: option.splits)
    show ?thesis
    proof (cases "m = n")
      case True
      then show ?thesis using AddCommIdAddr_knows(1) [OF AddConnection_global [OF a]] add_connections_keep [OF rest] Cons.prems(2) by auto
    next
      case False
      then show ?thesis using Cons.IH [OF rest] Cons.prems(2-4) by auto
    qed
  qed (use Cons in auto)
qed simp

section \<open>The barrier's nodes\<close>

text \<open>The ranks of the host file are the nodes of \<open>Test_Barrier\<close>, and the smallest of them its root.\<close>

lemma FindNode_ok: "is_ok (FindNode nodes rank) \<longleftrightarrow> rank \<in> set (map tn_rank nodes)"
  by (auto simp: FindNode_def is_ok_def find_None_iff find_Some_iff split: option.splits)

lemma min_rank_least: "min_rank m rs \<in> insert m (set rs) \<and> (\<forall>r \<in> insert m (set rs). min_rank m rs \<le> r)"
proof (induction rs arbitrary: m)
  case (Cons r rs)
  show ?case using Cons [of "if r < m then r else m"] by (auto split: if_splits)
qed simp

lemma RootRank_root: "RootRank nodes = Inr r \<Longrightarrow> r \<in> set (map tn_rank nodes) \<and> (\<forall>n \<in> set nodes. r \<le> tn_rank n)"
proof (cases nodes)
  case (Cons n ns)
  assume "RootRank nodes = Inr r"
  then have "r = min_rank (tn_rank n) (map tn_rank ns)" by (simp add: RootRank_def Cons)
  then show ?thesis using min_rank_least [of "tn_rank n" "map tn_rank ns"] by (auto simp: Cons)
qed (simp add: RootRank_def)

section \<open>The connection test passes\<close>

definition hellos :: "int \<Rightarrow> tnode list \<Rightarrow> (int \<times> buffer) list" where
  "hellos me nodes = map (\<lambda>n. (tn_rank n, out_buffer (UserData (text_bytes (Hello n))))) (filter (\<lambda>n. tn_rank n \<noteq> me) nodes)"

definition hello_fits :: "tnode \<Rightarrow> bool" where
  "hello_fits n \<longleftrightarrow> length (Hello n) < 2 ^ 32 - 8"

lemma SendMetaAsync_view:
  assumes "length bs < 2 ^ 32"
  shows "SendMetaAsync dest (Buffer_view bs (length bs) (length bs)) w = Inr (rc_Enqueue dest (out_buffer (UserData bs)) w)"
  using assms by (simp add: SendMetaAsync_def Buffer_view_def cast_simps)

lemma send_hellos_queue:
  assumes "\<forall>n \<in> set nodes. hello_fits n"
  shows "send_hellos me nodes w = Inr (w\<lparr>w_rc_tx := w_rc_tx w @ hellos me nodes\<rparr>)"
  using assms
proof (induction nodes arbitrary: w)
  case (Cons n ns)
  have "length (text_bytes (Hello n)) < 2 ^ 32" using Cons.prems by (simp add: hello_fits_def text_bytes_def)
  note s = SendMetaAsync_view [OF this]
  show ?case
  proof (cases "tn_rank n = me")
    case True
    then show ?thesis using Cons by (simp add: hellos_def)
  next
    case False
    then show ?thesis using Cons s by (simp add: hellos_def rc_Enqueue_def Let_def)
  qed
qed (simp add: hellos_def)

lemma RecvMeta_view:
  assumes q: "w_meta_queue w = (src, nb) # q" and d: "bf_data nb = signal_bytes (UserData pl)" "bf_msg_length nb = length (bf_data nb)"
    and room: "length pl = length room" and len: "length pl < 2 ^ 32 - 8"
  shows "\<exists>b. RecvMeta (Buffer_view room (length room) (length room)) w = Inr (Some (src, b, w\<lparr>w_meta_queue := q\<rparr>))
    \<and> bf_msg_length b = length pl \<and> bf_data b = pl"
proof -
  have u: "usub32 (4 + length pl) 4 = length pl" "u32 (length pl) = length pl" using len by (simp_all add: cast_simps)
  show ?thesis using q d room u
    by (simp add: RecvMeta_def tsq_WaitAndPop_def set_msg_length_def put_bytes_def Let_def Buffer_view_def)
qed

definition hello_entry :: "tnode list \<Rightarrow> tnode \<Rightarrow> int \<times> buffer \<Rightarrow> bool" where
  "hello_entry nodes n e \<longleftrightarrow> fst e \<in> tn_rank ` set nodes \<and> bf_data (snd e) = signal_bytes (UserData (text_bytes (Hello n)))
     \<and> bf_msg_length (snd e) = length (bf_data (snd e))"

lemma recv_hello_entry:
  assumes "w_meta_queue w = e # q" and "hello_entry nodes n e" and "hello_fits n"
  shows "recv_hello nodes (text_bytes (Hello n)) w = Inr (Some (w\<lparr>w_meta_queue := q\<rparr>))"
proof -
  obtain src nb where e: "e = (src, nb)" by (cases e)
  let ?pl = "text_bytes (Hello n)"
  let ?room = "replicate (length ?pl) (48 :: byte)"
  have len: "length ?pl < 2 ^ 32 - 8" using assms(3) by (simp add: hello_fits_def text_bytes_def)
  obtain b where b: "RecvMeta (Buffer_view ?room (length ?room) (length ?room)) w = Inr (Some (src, b, w\<lparr>w_meta_queue := q\<rparr>))"
    "bf_msg_length b = length ?pl" "bf_data b = ?pl"
    using RecvMeta_view [of w src nb q ?pl ?room] assms(1,2) len by (auto simp: e hello_entry_def)
  have "u32 (length ?pl) = length ?pl" using len by (simp add: cast_simps)
  moreover have "\<exists>n \<in> set nodes. src = tn_rank n" using assms(2) by (auto simp: e hello_entry_def)
  ultimately show ?thesis unfolding recv_hello_def Let_def b(1) using b(2,3) by simp
qed

lemma recv_hellos_all:
  assumes "w_meta_queue w = es @ q" and "\<forall>e \<in> set es. hello_entry nodes n e" and "hello_fits n"
  shows "recv_hellos (length es) nodes (text_bytes (Hello n)) w = Inr (Some (w\<lparr>w_meta_queue := q\<rparr>))"
  using assms
proof (induction es arbitrary: w)
  case (Cons e es)
  show ?case using recv_hello_entry [of w e "es @ q" nodes n] Cons by simp
qed simp

lemma FindNode_distinct: "distinct (map tn_rank nodes) \<Longrightarrow> n \<in> set nodes \<Longrightarrow> FindNode nodes (tn_rank n) = Inr n"
proof (induction nodes)
  case (Cons m ms)
  then show ?case by (cases "m = n") (auto simp: FindNode_def image_iff split: option.splits)
qed simp

lemma hellos_to:
  assumes "distinct (map tn_rank nodes)" and "n \<in> set nodes" and "(tn_rank n, b) \<in> set (hellos src nodes)"
  shows "bf_data b = replicate 4 0 @ signal_bytes (UserData (text_bytes (Hello n)))"
proof -
  obtain m where m: "m \<in> set nodes" "tn_rank m = tn_rank n" "b = out_buffer (UserData (text_bytes (Hello m)))"
    using assms(3) by (auto simp: hellos_def)
  then have "m = n" using assms(1,2) by (metis distinct_map inj_onD)
  then show ?thesis using m(3) by (simp add: out_buffer_def Let_def set_msg_length_def)
qed

text \<open>C31: The connection test. Every node queues one greeting to every other node. When the message queue of a node has as many entries as there are other nodes,
  in any order, each one the content of a buffer that a node queued for it in the test, the receiving part passes all its checks and empties the queue.\<close>

theorem connection_test_passes:
  assumes "distinct (map tn_rank nodes)" and "n \<in> set nodes" and "\<forall>m \<in> set nodes. hello_fits m"
    and "length (w_meta_queue w) = length nodes - 1"
    and "\<forall>(src, nb) \<in> set (w_meta_queue w). src \<in> tn_rank ` set nodes \<and> bf_msg_length nb = length (bf_data nb)
      \<and> (\<exists>ws ws' b. RunTestConnection_send src nodes ws = Inr ws' \<and> w_rc_tx ws = [] \<and> (tn_rank n, b) \<in> set (w_rc_tx ws') \<and> bf_data nb = drop 4 (bf_data b))"
  shows "RunTestConnection_send (tn_rank n) nodes v = Inr (v\<lparr>w_rc_tx := w_rc_tx v @ hellos (tn_rank n) nodes\<rparr>)
    \<and> RunTestConnection_recv (tn_rank n) nodes w = Inr (Some (w\<lparr>w_meta_queue := []\<rparr>))"
proof (intro conjI)
  have f: "FindNode nodes (tn_rank n) = Inr n" by (rule FindNode_distinct [OF assms(1,2)])
  show "RunTestConnection_send (tn_rank n) nodes v = Inr (v\<lparr>w_rc_tx := w_rc_tx v @ hellos (tn_rank n) nodes\<rparr>)"
    by (simp add: RunTestConnection_send_def f send_hellos_queue [OF assms(3)])
  have "hello_entry nodes n e" if e: "e \<in> set (w_meta_queue w)" for e
  proof -
    obtain src nb where sn: "e = (src, nb)" by (cases e)
    obtain ws ws' b where b: "RunTestConnection_send src nodes ws = Inr ws'" "w_rc_tx ws = []" "(tn_rank n, b) \<in> set (w_rc_tx ws')"
      "bf_data nb = drop 4 (bf_data b)" and src: "src \<in> tn_rank ` set nodes" "bf_msg_length nb = length (bf_data nb)"
      using assms(5) e by (auto simp: sn)
    have "ws' = ws\<lparr>w_rc_tx := hellos src nodes\<rparr>"
      using b(1,2) by (auto simp: RunTestConnection_send_def send_hellos_queue [OF assms(3)] rbind_eq_Inr_conv)
    then have "(tn_rank n, b) \<in> set (hellos src nodes)" using b(3) by simp
    then show ?thesis using hellos_to [OF assms(1,2)] b(4) src by (simp add: hello_entry_def sn)
  qed
  then show "RunTestConnection_recv (tn_rank n) nodes w = Inr (Some (w\<lparr>w_meta_queue := []\<rparr>))"
    using recv_hellos_all [of w "w_meta_queue w" "[]" nodes n] assms(2,3,4) by (simp add: RunTestConnection_recv_def f)
qed

definition two_nodes :: "tnode list" where
  "two_nodes = [\<lparr>tn_rank = 0, tn_port = 7, tn_host = ''a''\<rparr>, \<lparr>tn_rank = 1, tn_port = 8, tn_host = ''b''\<rparr>]"

definition greeted_world :: world where
  "greeted_world = (demo_world prio_routes_init demo_conn)\<lparr>w_meta_queue := [(1, demo_buffer (drop 4 (bf_data (snd (hd (hellos 1 two_nodes))))))]\<rparr>"

theorem connection_test_passes_witness:
  "RunTestConnection_recv 0 two_nodes greeted_world = Inr (Some (greeted_world\<lparr>w_meta_queue := []\<rparr>))"
proof -
  let ?w = "demo_world prio_routes_init demo_conn"
  have h: "hellos 1 two_nodes = [(0, out_buffer (UserData (text_bytes (Hello (hd two_nodes)))))]" by (simp add: hellos_def two_nodes_def)
  have fits: "\<forall>m \<in> set two_nodes. hello_fits m" by (simp add: two_nodes_def hello_fits_def Hello_def dec_int_def dec_nat.simps)
  have tx: "w_rc_tx ?w = []" by (simp add: demo_world_def)
  have f: "FindNode two_nodes 1 = Inr (two_nodes ! 1)" by (simp add: FindNode_def two_nodes_def)
  have s: "RunTestConnection_send 1 two_nodes ?w = Inr (?w\<lparr>w_rc_tx := hellos 1 two_nodes\<rparr>)"
    by (simp add: RunTestConnection_send_def f send_hellos_queue [OF fits] tx)
  let ?b = "snd (hd (hellos 1 two_nodes))"
  have ex: "\<exists>ws ws' b. RunTestConnection_send 1 two_nodes ws = Inr ws' \<and> w_rc_tx ws = [] \<and> (tn_rank (hd two_nodes), b) \<in> set (w_rc_tx ws')
      \<and> drop 4 (bf_data ?b) = drop 4 (bf_data b)"
    by (rule exI [of _ ?w], rule exI [of _ "?w\<lparr>w_rc_tx := hellos 1 two_nodes\<rparr>"], rule exI [of _ ?b])
      (use s tx h in \<open>simp add: two_nodes_def\<close>)
  have q: "\<forall>(src, nb) \<in> set (w_meta_queue greeted_world). src \<in> tn_rank ` set two_nodes \<and> bf_msg_length nb = length (bf_data nb)
      \<and> (\<exists>ws ws' b. RunTestConnection_send src two_nodes ws = Inr ws' \<and> w_rc_tx ws = [] \<and> (tn_rank (hd two_nodes), b) \<in> set (w_rc_tx ws')
        \<and> bf_data nb = drop 4 (bf_data b))"
    using ex by (simp add: greeted_world_def demo_buffer_def two_nodes_def)
  have "tn_rank (hd two_nodes) = 0" "distinct (map tn_rank two_nodes)" "hd two_nodes \<in> set two_nodes" "length (w_meta_queue greeted_world) = length two_nodes - 1"
    by (simp_all add: two_nodes_def greeted_world_def)
  then show ?thesis using connection_test_passes [OF _ _ fits _ q] by simp
qed

section \<open>The window of the speed test\<close>

text \<open>Never more messages are sent to a node than were received from it and the gap allow, and the counts stay inside their vectors.\<close>

definition speed_inv :: "tnode list \<Rightarrow> speed_state \<Rightarrow> bool" where
  "speed_inv nodes s \<longleftrightarrow> length (sp_send_cnt s) = nat (max_rank nodes + 1) \<and> length (sp_recv_cnt s) = nat (max_rank nodes + 1)
     \<and> (\<forall>i < length (sp_send_cnt s). sp_send_cnt s ! i \<le> sp_recv_cnt s ! i + max_gap + 1)"

lemma speed_init_inv: "speed_inv nodes (speed_init nodes)"
  by (simp add: speed_inv_def speed_init_def Let_def)

lemma RecvMeta_cases:
  obtains e where "RecvMeta b w = Inl e" | "RecvMeta b w = Inr None" | src b' w' where "RecvMeta b w = Inr (Some (src, b', w'))"
  by (metis option.exhaust prod_cases3 sum.exhaust)

lemma speed_visit_counts:
  assumes "speed_visit me nodes buf node (s, w) = Inr (Some (buf', s', w'))"
  shows "s' = s
    \<or> (sp_send_cnt s ! nat (tn_rank node) \<le> sp_recv_cnt s ! nat (tn_rank node) + max_gap
        \<and> s' = s\<lparr>sp_send_cnt := (sp_send_cnt s)[nat (tn_rank node) := sp_send_cnt s ! nat (tn_rank node) + 1]\<rparr>)
    \<or> (\<exists>r. s' = s\<lparr>sp_recv_cnt := (sp_recv_cnt s)[nat r := sp_recv_cnt s ! nat r + 1]\<rparr>)"
  using assms
  by (cases rule: RecvMeta_cases [of "Buffer_view buf (length buf) (length buf)" w])
    (auto simp: speed_visit_def Let_def rbind_eq_Inr_conv split: if_splits)

lemma speed_visit_inv:
  assumes "speed_visit me nodes buf node (s, w) = Inr (Some (buf', s', w'))" and "speed_inv nodes s"
  shows "speed_inv nodes s'"
proof -
  have i: "length (sp_send_cnt s) = nat (max_rank nodes + 1)" "length (sp_recv_cnt s) = nat (max_rank nodes + 1)"
    and le: "\<And>i. i < nat (max_rank nodes + 1) \<Longrightarrow> sp_send_cnt s ! i \<le> sp_recv_cnt s ! i + max_gap + 1"
    using assms(2) by (simp_all add: speed_inv_def)
  consider "s' = s" | "sp_send_cnt s ! nat (tn_rank node) \<le> sp_recv_cnt s ! nat (tn_rank node) + max_gap"
      "s' = s\<lparr>sp_send_cnt := (sp_send_cnt s)[nat (tn_rank node) := sp_send_cnt s ! nat (tn_rank node) + 1]\<rparr>"
    | r where "s' = s\<lparr>sp_recv_cnt := (sp_recv_cnt s)[nat r := sp_recv_cnt s ! nat r + 1]\<rparr>"
    using speed_visit_counts [OF assms(1)] by blast
  then show ?thesis
  proof cases
    case 1
    then show ?thesis using assms(2) by simp
  next
    case 2
    have "(sp_send_cnt s)[nat (tn_rank node) := sp_send_cnt s ! nat (tn_rank node) + 1] ! i \<le> sp_recv_cnt s ! i + max_gap + 1"
      if "i < nat (max_rank nodes + 1)" for i
      using le [OF that] i that 2(1) by (cases "i = nat (tn_rank node)") simp_all
    then show ?thesis using i by (simp add: 2(2) speed_inv_def)
  next
    case (3 r)
    have "sp_send_cnt s ! i \<le> (sp_recv_cnt s)[nat r := sp_recv_cnt s ! nat r + 1] ! i + max_gap + 1" if "i < nat (max_rank nodes + 1)" for i
      using le [OF that] i that by (cases "i = nat r") simp_all
    then show ?thesis using i by (simp add: 3 speed_inv_def)
  qed
qed

lemma fold_rank_ge: "m \<le> fold (\<lambda>n m. if m < tn_rank n then tn_rank n else m) nodes (m :: int)"
proof (induction nodes arbitrary: m)
  case (Cons n ns)
  show ?case using Cons [of "if m < tn_rank n then tn_rank n else m"] by (simp split: if_splits)
qed simp

lemma fold_max_rank: "n \<in> set nodes \<Longrightarrow> tn_rank n \<le> fold (\<lambda>n m. if m < tn_rank n then tn_rank n else m) nodes m"
proof (induction nodes arbitrary: m)
  case (Cons n' ns)
  show ?case using Cons fold_rank_ge [of "if m < tn_rank n' then tn_rank n' else m" ns] by (auto split: if_splits)
qed simp

lemma max_rank_ge: "n \<in> set nodes \<Longrightarrow> tn_rank n \<le> max_rank nodes"
  unfolding max_rank_def by (rule fold_max_rank)

text \<open>With ranks that are not negative, a visit fails only when a message of another length arrives or one from an unknown node.\<close>

lemma speed_visit_index:
  assumes "speed_inv nodes s" and "node \<in> set nodes" and "\<forall>n \<in> set nodes. 0 \<le> tn_rank n"
  shows "speed_visit me nodes buf node (s, w) \<noteq> Inl (Undefined_Behaviour ''send_cnt[rank]'')"
    and "speed_visit me nodes buf node (s, w) \<noteq> Inl (Undefined_Behaviour ''recv_cnt[n_rank]'')"
proof -
  have r: "0 \<le> tn_rank n \<and> tn_rank n < int (length (sp_send_cnt s)) \<and> tn_rank n < int (length (sp_recv_cnt s))" if "n \<in> set nodes" for n
    using assms(1,3) max_rank_ge [OF that] that by (auto simp: speed_inv_def)
  then have r': "\<forall>n \<in> set nodes. \<not> tn_rank n < 0 \<and> \<not> int (length (sp_recv_cnt s)) \<le> tn_rank n" by force
  show "speed_visit me nodes buf node (s, w) \<noteq> Inl (Undefined_Behaviour ''send_cnt[rank]'')"
    and "speed_visit me nodes buf node (s, w) \<noteq> Inl (Undefined_Behaviour ''recv_cnt[n_rank]'')"
    using r [OF assms(2)] r'
    by (auto simp: speed_visit_def Let_def rbind_def check_def SendMetaAsync_def RecvMeta_def put_bytes_def split: sum.splits option.splits if_splits prod.splits)
qed

section \<open>Polling completions\<close>

lemma check_comps_ok: "\<forall>c \<in> set cs. cp_msg_id c = 5 \<Longrightarrow> check_comps cs = Inr ()"
  by (induction cs) auto

lemma PollOnce_simp: "PollOnce 32 q = (take 32 q, int (min 32 (length q)), drop 32 q)"
  by (simp add: PollOnce_def drain_tsq min.commute)

lemma poll_rest:
  assumes "\<forall>c \<in> set cq. cp_msg_id c = 5" and "num + int (length cq) = 2 * int n - 2" and "length cq \<le> k"
  shows "poll_comps n num (replicate k []) cq = Inr (Some (2 * int n - 2, []))"
  using assms
proof (induction k arbitrary: num cq)
  case 0
  then show ?case by (simp add: poll_comps.simps)
next
  case (Suc k)
  show ?case
  proof (cases "cq = []")
    case True
    then show ?thesis using Suc.prems by (simp add: poll_comps.simps)
  next
    case False
    then have c: "num + 2 < 2 * int n" "length (drop 32 cq) \<le> k" using Suc.prems by (cases cq; simp)+
    have "check_comps (take 32 cq) = Inr ()" using Suc.prems(1) by (intro check_comps_ok) (auto dest: in_set_takeD)
    moreover have "poll_comps n (num + int (min 32 (length cq))) (replicate k []) (drop 32 cq) = Inr (Some (2 * int n - 2, []))"
      using Suc.prems c(2) by (intro Suc.IH) (auto dest: in_set_dropD simp: min_def)
    ultimately show ?thesis using c(1) by (subst poll_comps.simps) (simp add: PollOnce_simp)
  qed
qed

lemma poll_all:
  assumes "\<forall>c \<in> set (cq @ concat as). cp_msg_id c = 5" and "num + int (length (cq @ concat as)) = 2 * int n - 2" and "length (cq @ concat as) \<le> k"
  shows "poll_comps n num (as @ replicate k []) cq = Inr (Some (2 * int n - 2, []))"
  using assms
proof (induction as arbitrary: num cq)
  case Nil
  then show ?case using poll_rest by simp
next
  case (Cons a as)
  show ?case
  proof (cases "num + 2 < 2 * int n")
    case True
    let ?q = "cq @ a"
    have "check_comps (take 32 ?q) = Inr ()" using Cons.prems(1) by (intro check_comps_ok) (auto dest: in_set_takeD)
    moreover have "poll_comps n (num + int (min 32 (length ?q))) (as @ replicate k []) (drop 32 ?q) = Inr (Some (2 * int n - 2, []))"
    proof (rule Cons.IH)
      have "set (drop 32 ?q) \<subseteq> set ?q" by (rule set_drop_subset)
      then show "\<forall>c \<in> set (drop 32 ?q @ concat as). cp_msg_id c = 5" using Cons.prems(1) by auto
    qed (use Cons.prems in \<open>auto simp: min_def simp del: drop_append\<close>)
    ultimately show ?thesis using True by (subst poll_comps.simps) (simp add: PollOnce_simp)
  next
    case False
    then have "length (cq @ concat (a # as)) = 0" "num = 2 * int n - 2" using Cons.prems(2) by linarith+
    then show ?thesis using False by (simp add: poll_comps.simps)
  qed
qed

end
