(* ===== verification/Network_Interfaces.thy ===== *)
theory Network_Interfaces
  imports Van_Model
begin

text \<open>
  The choice of the address and the port that a node announces (\<open>src/src/network_utils.h\<close>, for POSIX systems), and the announcement by \<open>Van::Start\<close>.

  The list that \<open>getifaddrs\<close> returns, the text that \<open>inet_ntop\<close> makes of an address, and the results of the socket calls are arguments.
\<close>

section \<open>Choosing an interface\<close>

record if_addr =
  sa_family :: nat
  ntop :: "byte list"

record ifaddrs =
  ifa_name :: "byte list"
  ifa_flags :: nat
  ifa_addr :: "if_addr option"

definition AF_INET :: nat where "AF_INET = 2"

definition IFF_LOOPBACK :: nat where "IFF_LOOPBACK = 8"

text \<open>\<open>strncmp(s, t, n) == 0\<close> for strings that end before their first zero.\<close>

fun strncmp_eq :: "byte list \<Rightarrow> byte list \<Rightarrow> nat \<Rightarrow> bool" where
  "strncmp_eq s t 0 = True"
| "strncmp_eq [] [] (Suc n) = True"
| "strncmp_eq (c # s) (d # t) (Suc n) = (c = d \<and> strncmp_eq s t n)"
| "strncmp_eq s t (Suc n) = False"

fun GetIP :: "ifaddrs list \<Rightarrow> byte list \<Rightarrow> byte list \<Rightarrow> byte list" where
  "GetIP [] interface ip = ip"
| "GetIP (ifa # ifs) interface ip =
     (case ifa_addr ifa of
        None \<Rightarrow> GetIP ifs interface ip
      | Some a \<Rightarrow>
          if sa_family a = AF_INET \<and> strncmp_eq (ifa_name ifa) interface (length interface) then ntop a
          else GetIP ifs interface ip)"

fun available_loop :: "ifaddrs list \<Rightarrow> byte list \<times> byte list \<Rightarrow> byte list \<times> byte list" where
  "available_loop [] r = r"
| "available_loop (ifa # ifs) r =
     (case ifa_addr ifa of
        None \<Rightarrow> available_loop ifs r
      | Some a \<Rightarrow> if AF_INET = sa_family a \<and> and (ifa_flags ifa) IFF_LOOPBACK = 0 then (ifa_name ifa, ntop a) else available_loop ifs r)"

definition GetAvailableInterfaceAndIP :: "ifaddrs list \<Rightarrow> byte list \<times> byte list" where
  "GetAvailableInterfaceAndIP ifs = available_loop ifs ([], [])"

text \<open>The descriptor and the results of \<open>bind\<close> and \<open>getsockname\<close> with the port; the result is the port and the descriptors that stay open.\<close>

definition GetAvailablePort :: "int \<Rightarrow> int \<Rightarrow> int \<Rightarrow> nat \<Rightarrow> int set \<Rightarrow> int \<times> int set" where
  "GetAvailablePort sock bind_rc name_rc port open_fds =
     (let fds = (if sock \<ge> 0 then insert sock open_fds else open_fds) in
      if bind_rc \<noteq> 0 then (0, fds)
      else if name_rc \<noteq> 0 then (0, fds)
      else (int port, fds - {sock}))"

section \<open>What is chosen\<close>

lemma strncmp_prefix: "strncmp_eq s t (length t) \<longleftrightarrow> take (length t) s = t"
  by (induction s t "length t" rule: strncmp_eq.induct) auto

definition ipv4 :: "ifaddrs \<Rightarrow> bool" where
  "ipv4 ifa \<longleftrightarrow> (\<exists>a. ifa_addr ifa = Some a \<and> sa_family a = AF_INET)"

definition ipv4_text :: "ifaddrs \<Rightarrow> byte list" where
  "ipv4_text ifa = (case ifa_addr ifa of None \<Rightarrow> [] | Some a \<Rightarrow> ntop a)"

lemma GetIP_find:
  "GetIP ifs interface ip = (case find (\<lambda>i. ipv4 i \<and> take (length interface) (ifa_name i) = interface) ifs of None \<Rightarrow> ip | Some i \<Rightarrow> ipv4_text i)"
  by (induction ifs) (auto simp: ipv4_def ipv4_text_def strncmp_prefix split: option.splits)

lemma available_find:
  "available_loop ifs r = (case find (\<lambda>i. ipv4 i \<and> and (ifa_flags i) IFF_LOOPBACK = 0) ifs of None \<Rightarrow> r | Some i \<Rightarrow> (ifa_name i, ipv4_text i))"
  by (induction ifs) (auto simp: ipv4_def ipv4_text_def split: option.splits)

text \<open>A failing call leaves the socket open.\<close>

lemma GetAvailablePort_leak:
  "0 \<le> sock \<Longrightarrow> bind_rc \<noteq> 0 \<or> name_rc \<noteq> 0 \<Longrightarrow> GetAvailablePort sock bind_rc name_rc port fds = (0, insert sock fds)"
  by (auto simp: GetAvailablePort_def Let_def)

lemma GetAvailablePort_closed:
  "GetAvailablePort sock 0 0 port fds = (int port, fds - {sock})"
  by (auto simp: GetAvailablePort_def Let_def)

section \<open>The address a node announces\<close>

text \<open>The host of the environment; else the first IPv4 interface with the wanted name, or with no wanted name the first one that is not the loopback.\<close>

definition announced :: "ifaddrs list \<Rightarrow> ps_env \<Rightarrow> ifaddrs option" where
  "announced ifs e =
     (let itf = env_bytes e ''DMLC_INTERFACE'' in
      if itf \<noteq> [] then find (\<lambda>i. ipv4 i \<and> take (length itf) (ifa_name i) = itf) ifs
      else find (\<lambda>i. ipv4 i \<and> and (ifa_flags i) IFF_LOOPBACK = 0) ifs)"

text \<open>The results of the calls as \<open>Van::Start\<close> gets them.\<close>

definition world_of :: "van_world \<Rightarrow> ifaddrs list \<Rightarrow> int \<Rightarrow> van_world" where
  "world_of wd ifs port = wd\<lparr>wd_GetIP := (\<lambda>itf. GetIP ifs itf []), wd_interface := GetAvailableInterfaceAndIP ifs, wd_port := port\<rparr>"

text \<open>Which address a node announces. Without \<open>DMLC_NODE_HOST\<close> the node takes the address of the first IPv4 interface whose name starts with
  \<open>DMLC_INTERFACE\<close>, or without that variable of the first IPv4 interface that is not the loopback; the port is the one of \<open>PORT\<close> or one that the system
  gave. When there is no such interface or no port, the node aborts.\<close>

lemma announced_node:
  assumes "env_bytes e ''DMLC_NODE_HOST'' = []" and "\<forall>i \<in> set ifs. ifa_name i \<noteq> [] \<and> ipv4_text i \<noteq> [] \<or> \<not> ipv4 i"
  shows "local_node (world_of wd ifs p) e customer_id is_worker n =
    (let port = (case env_find e ''PORT'' of None \<Rightarrow> p | Some s \<Rightarrow> atoi s) in
     case announced ifs e of
       None \<Rightarrow> Inl (Check_Failed (if env_bytes e ''DMLC_INTERFACE'' = [] then ''failed to get the interface'' else ''failed to get ip''))
     | Some i \<Rightarrow> if port = 0 then Inl (Check_Failed ''failed to get a port'')
         else Inr (n\<lparr>nd_hostname := ipv4_text i, nd_role := (if is_worker then WORKER else SERVER), nd_port := port, nd_id := kEmpty, nd_customer_id := customer_id\<rparr>))"
proof -
  let ?itf = "env_bytes e ''DMLC_INTERFACE''"
  have some: "ifa_name i \<noteq> [] \<and> ipv4_text i \<noteq> []" if "find P ifs = Some i" "P i \<Longrightarrow> ipv4 i" for P i
    using that assms(2) by (auto simp: find_Some_iff)
  show ?thesis
  proof (cases "?itf = []")
    case True
    show ?thesis
      using True assms(1) some [of "\<lambda>i. ipv4 i \<and> and (ifa_flags i) IFF_LOOPBACK = 0"]
      by (auto simp: local_node_def local_ip_def world_of_def announced_def GetAvailableInterfaceAndIP_def available_find Let_def split: option.splits)
  next
    case False
    show ?thesis
      using False assms(1) some [of "\<lambda>i. ipv4 i \<and> take (length ?itf) (ifa_name i) = ?itf"]
      by (auto simp: local_node_def local_ip_def world_of_def announced_def GetIP_find Let_def split: option.splits)
  qed
qed

text \<open>A name that starts with the wanted one and goes on, as \<open>eth10\<close> does with \<open>eth1\<close>.\<close>

definition extends :: "byte list \<Rightarrow> byte list \<Rightarrow> bool" where
  "extends itf name \<longleftrightarrow> take (length itf) name = itf \<and> length itf < length name"

lemma take_or_extends: "take (length itf) name = itf \<longleftrightarrow> name = itf \<or> extends itf name"
  by (cases "length itf < length name") (auto simp: extends_def)

lemma find_append: "find P (xs @ ys) = (case find P xs of None \<Rightarrow> find P ys | Some x \<Rightarrow> Some x)"
  by (induction xs) simp_all

text \<open>C30: A node told to use an interface may announce another one. \<open>GetIP\<close> compares only as many characters as the
  wanted name has. Let \<open>DMLC_INTERFACE\<close> name an interface \<open>i\<close> that exists and has an IPv4 address, which no earlier IPv4 interface shares. The node
  announces an address, and it is the one of \<open>i\<close> exactly when no IPv4 interface listed before \<open>i\<close> has a name that starts
  with the wanted one and goes on; otherwise it is the address of such an interface, and nothing reports the mistake. The comment on \<open>GetIP\<close>
  and the documentation of \<open>DMLC_INTERFACE\<close> promise the address of \<open>i\<close>.\<close>

theorem wrong_interface_announced:
  assumes "env_bytes e ''DMLC_NODE_HOST'' = []" and "itf = env_bytes e ''DMLC_INTERFACE''" and "itf \<noteq> []"
    and "ifs = as @ i # bs" and "ipv4 i" and "ifa_name i = itf"
    and "\<forall>j \<in> set as. ipv4 j \<longrightarrow> ifa_name j \<noteq> itf \<and> ipv4_text j \<noteq> ipv4_text i"
    and "\<forall>j \<in> set ifs. ipv4 j \<longrightarrow> ifa_name j \<noteq> [] \<and> ipv4_text j \<noteq> []"
    and "port = (case env_find e ''PORT'' of None \<Rightarrow> p | Some s \<Rightarrow> atoi s)" and "port \<noteq> 0"
  shows "\<exists>h. local_node (world_of wd ifs p) e customer_id is_worker n = Inr (n\<lparr>nd_hostname := h,
        nd_role := (if is_worker then WORKER else SERVER), nd_port := port, nd_id := kEmpty, nd_customer_id := customer_id\<rparr>)
    \<and> (h = ipv4_text i \<longleftrightarrow> \<not> (\<exists>j \<in> set as. ipv4 j \<and> extends itf (ifa_name j)))
    \<and> (h \<noteq> ipv4_text i \<longrightarrow> (\<exists>j \<in> set as. ipv4 j \<and> extends itf (ifa_name j) \<and> h = ipv4_text j))"
proof -
  let ?P = "\<lambda>j. ipv4 j \<and> take (length itf) (ifa_name j) = itf"
  have ok: "\<forall>j \<in> set ifs. ifa_name j \<noteq> [] \<and> ipv4_text j \<noteq> [] \<or> \<not> ipv4 j" using assms(8) by blast
  have ann: "announced ifs e = (case find ?P as of None \<Rightarrow> Some i | Some j \<Rightarrow> Some j)"
    using assms(2-6) by (simp add: announced_def find_append split: option.splits)
  have as: "?P j \<longleftrightarrow> ipv4 j \<and> extends itf (ifa_name j)" if "j \<in> set as" for j
    using that assms(7) take_or_extends by blast
  show ?thesis
  proof (cases "find ?P as")
    case None
    then have "\<not> (\<exists>j \<in> set as. ipv4 j \<and> extends itf (ifa_name j))" using as by (auto simp: find_None_iff)
    with announced_node [OF assms(1) ok, of wd p customer_id is_worker n] ann None assms(9,10) show ?thesis by simp
  next
    case (Some j)
    then have j: "j \<in> set as" "?P j" by (auto simp: find_Some_iff)
    with as have "\<exists>j \<in> set as. ipv4 j \<and> extends itf (ifa_name j)" "ipv4 j" "extends itf (ifa_name j)" by blast+
    moreover have "ipv4_text j \<noteq> ipv4_text i" using j assms(7) by blast
    ultimately show ?thesis
      using announced_node [OF assms(1) ok, of wd p customer_id is_worker n] ann Some assms(9,10) j(1)
      by (intro exI [of _ "ipv4_text j"]) auto
  qed
qed

text \<open>A machine whose interface \<open>eth10\<close> comes before \<open>eth1\<close>, and a node that is told to use \<open>eth1\<close>.\<close>

definition eth_ifs :: "ifaddrs list" where
  "eth_ifs = [\<lparr>ifa_name = string_bytes ''lo'', ifa_flags = 8, ifa_addr = Some \<lparr>sa_family = 2, ntop = string_bytes ''127.0.0.1''\<rparr>\<rparr>,
     \<lparr>ifa_name = string_bytes ''eth10'', ifa_flags = 0, ifa_addr = Some \<lparr>sa_family = 2, ntop = string_bytes ''10.0.0.10''\<rparr>\<rparr>,
     \<lparr>ifa_name = string_bytes ''eth1'', ifa_flags = 0, ifa_addr = Some \<lparr>sa_family = 2, ntop = string_bytes ''10.0.0.1''\<rparr>\<rparr>]"

definition eth_env :: ps_env where
  "eth_env = \<lparr>pe_kvs = [''DMLC_INTERFACE'' \<mapsto> ''eth1''], pe_system = Map.empty\<rparr>"

theorem wrong_interface_announced_witness:
  "\<exists>h. local_node (world_of Van_Model.demo_world eth_ifs 5000) eth_env 0 True (demo_node WORKER 9 0)
    = Inr ((demo_node WORKER 9 0)\<lparr>nd_hostname := h, nd_role := WORKER, nd_port := 5000, nd_id := kEmpty, nd_customer_id := 0\<rparr>)
    \<and> h \<noteq> string_bytes ''10.0.0.1''"
proof -
  have e: "env_bytes eth_env ''DMLC_NODE_HOST'' = []" "string_bytes ''eth1'' = env_bytes eth_env ''DMLC_INTERFACE''" "env_find eth_env ''PORT'' = None"
    by (simp_all add: env_bytes_def eth_env_def env_find_def)
  have i: "\<forall>i \<in> set eth_ifs. ipv4 i \<longrightarrow> ifa_name i \<noteq> [] \<and> ipv4_text i \<noteq> []" "eth_ifs = take 2 eth_ifs @ eth_ifs ! 2 # []"
    "ipv4 (eth_ifs ! 2)" "ifa_name (eth_ifs ! 2) = string_bytes ''eth1''" "ipv4_text (eth_ifs ! 2) = string_bytes ''10.0.0.1''"
    by (simp_all add: eth_ifs_def ipv4_text_def string_bytes_def ipv4_def AF_INET_def)
  have b: "\<forall>j \<in> set (take 2 eth_ifs). ipv4 j \<longrightarrow> ifa_name j \<noteq> string_bytes ''eth1'' \<and> ipv4_text j \<noteq> ipv4_text (eth_ifs ! 2)"
    by (simp add: eth_ifs_def ipv4_text_def string_bytes_def)
  have x: "\<exists>j \<in> set (take 2 eth_ifs). ipv4 j \<and> extends (string_bytes ''eth1'') (ifa_name j)"
    by (simp add: eth_ifs_def string_bytes_def extends_def ipv4_def AF_INET_def)
  have ne: "string_bytes ''eth1'' \<noteq> []" by (simp add: string_bytes_def)
  show ?thesis
    using wrong_interface_announced [OF e(1,2) ne i(2-4) b i(1), of 5000 5000 Van_Model.demo_world 0 True "demo_node WORKER 9 0"] x
    unfolding i(5) by (auto simp: e(3))
qed

end
