(* ===== verification/Udp_Bench.thy ===== *)
theory Udp_Bench
  imports Mlt_Global
begin

text \<open>
  The pair of programs that measure plain UDP: their options (\<open>src/src/mlt/config.h\<close>, \<open>app_context.cc\<close>), the sending loop (\<open>client.cc\<close>), the receiving loop
  (\<open>server.cc\<close>), the packet (\<open>packet.h\<close>) and the printing of sizes (\<open>utils.h\<close>).

  The results of \<open>getopt_long\<close> are a list of options with their arguments, and the arguments that are left.
\<close>

section \<open>Options\<close>

record config =
  cf_is_server :: bool
  cf_host :: string
  cf_message_size :: nat
  cf_buffer_size :: nat
  cf_tos :: int
  cf_num_conn :: int
  cf_recv_threads :: int
  cf_send_threads :: int

definition Config :: config where
  "Config = \<lparr>cf_is_server = True, cf_host = [], cf_message_size = 1400, cf_buffer_size = 208 * 1024, cf_tos = 0, cf_num_conn = 1,
     cf_recv_threads = 1, cf_send_threads = 1\<rparr>"

fun config_options :: "(char \<times> string) list \<Rightarrow> config \<Rightarrow> bool \<times> config" where
  "config_options [] conf = (True, conf)"
| "config_options ((c, optarg) # os) conf =
     (let n = atoi optarg in
      if c = CHR ''b'' then config_options os (conf\<lparr>cf_buffer_size := u64_of_int n\<rparr>)
      else if c = CHR ''m'' then config_options os (conf\<lparr>cf_message_size := u64_of_int n\<rparr>)
      else if c = CHR ''T'' then config_options os (conf\<lparr>cf_tos := n\<rparr>)
      else if c = CHR ''C'' then config_options os (conf\<lparr>cf_num_conn := n\<rparr>)
      else if c = CHR ''R'' then config_options os (conf\<lparr>cf_recv_threads := n\<rparr>)
      else if c = CHR ''S'' then config_options os (conf\<lparr>cf_send_threads := n\<rparr>)
      else (False, conf))"

definition ParseArgument :: "(char \<times> string) list \<Rightarrow> string list \<Rightarrow> config \<Rightarrow> int \<times> config" where
  "ParseArgument opts rest conf =
     (let (ok, c) = config_options opts conf in
      if \<not> ok then (1, c)
      else case rest of
             [] \<Rightarrow> (0, c)
           | [host] \<Rightarrow> (0, c\<lparr>cf_is_server := False, cf_host := host\<rparr>)
           | _ \<Rightarrow> (1, c))"

section \<open>Sizes\<close>

text \<open>The value that \<open>FormatBytes\<close> prints.\<close>

definition format_value :: "nat \<Rightarrow> string \<Rightarrow> rat res" where
  "format_value bytes format =
     (case format of
        [] \<Rightarrow> Inl (Fatal ''unknown unit'')
      | c # cs \<Rightarrow>
          let v = of_nat bytes :: rat;
              r = (if c = CHR ''B'' then Inr v else if c = CHR ''K'' then Inr (v / 1000) else if c = CHR ''M'' then Inr (v / 1000000)
                   else if c = CHR ''G'' then Inr (v / 1000000000) else Inl (Fatal ''unknown unit'')) in
          rbind r (\<lambda>v. Inr (if length format \<ge> 2 \<and> (c = CHR ''b'' \<or> format ! 1 = CHR ''b'') then v * 8 else v)))"

section \<open>The client\<close>

record bench_packet =
  bp_psn :: nat
  bp_payload_len :: nat

definition sizeof_Packet :: nat where "sizeof_Packet = 10"

definition kBasePort :: int where "kBasePort = 5555"

text \<open>The buffer before the loop: a greeting is copied into it and the length of the payload is set, both without regard for the size; \<open>pkt\<close> is a pointer.\<close>

definition client_packet :: "nat \<Rightarrow> bench_packet res" where
  "client_packet sz =
     (if sz < length ''hello server'' + 2 then Inl (Undefined_Behaviour ''strcpy'')
      else Inr \<lparr>bp_psn = 0, bp_payload_len = (usub64 sz 8) mod 2 ^ 16\<rparr>)"

definition client_ports :: "int \<Rightarrow> int list" where
  "client_ports nrecv = map (\<lambda>i. kBasePort + int i) [0 ..< nat nrecv]"

text \<open>One event of the loop: \<open>EPOLLIN\<close> has precedence, then a packet is sent. The result is the port and the packet, if one is sent, and the next number.\<close>

definition client_event :: "int \<Rightarrow> bool \<Rightarrow> bool \<Rightarrow> bench_packet \<Rightarrow> nat \<Rightarrow> ((int \<times> bench_packet) option \<times> nat) res" where
  "client_event nrecv ev_in ev_out pkt num =
     (if ev_in then Inr (None, num)
      else if ev_out then
        (if nrecv = 0 then Inl (Undefined_Behaviour ''psn % 0'')
         else let i = num mod u64_of_int nrecv in
           if length (client_ports nrecv) \<le> i then Inl (Undefined_Behaviour ''addrs[]'')
           else Inr (Some (client_ports nrecv ! i, pkt\<lparr>bp_psn := num\<rparr>), u64 (num + 1)))
      else Inr (None, num))"

fun client_run :: "int \<Rightarrow> nat \<Rightarrow> bench_packet \<Rightarrow> nat \<Rightarrow> (int \<times> bench_packet) list res" where
  "client_run nrecv 0 pkt num = Inr []"
| "client_run nrecv (Suc k) pkt num =
     rbind (client_event nrecv False True pkt num) (\<lambda>(sent, num'). rbind (client_run nrecv k pkt num') (\<lambda>rest. Inr (case sent of None \<Rightarrow> rest | Some s \<Rightarrow> s # rest)))"

section \<open>The server\<close>

text \<open>The numbers are unsigned in the packet and signed in the loop.\<close>

definition i64_of_u64 :: "nat \<Rightarrow> int" where
  "i64_of_u64 x = (if x < 2 ^ 63 then int x else int x - 2 ^ 64)"

text \<open>One receive: \<open>None\<close> is an error. The result is whether a gap is reported, and the last number.\<close>

definition server_recv :: "bench_packet option \<Rightarrow> int \<Rightarrow> (bool \<times> int) res" where
  "server_recv r last_psn =
     (case r of
        None \<Rightarrow> Inr (False, last_psn)
      | Some pkt \<Rightarrow>
          if last_psn + 1 \<ge> 2 ^ 63 then Inl (Undefined_Behaviour ''last_psn + 1'')
          else let psn = i64_of_u64 (bp_psn pkt) in Inr (psn \<noteq> last_psn + 1, psn))"

fun server_run :: "bench_packet option list \<Rightarrow> int \<Rightarrow> bool list res" where
  "server_run [] last_psn = Inr []"
| "server_run (r # rs) last_psn = rbind (server_recv r last_psn) (\<lambda>(gap, l). rbind (server_run rs l) (\<lambda>gaps. Inr (gap # gaps)))"

section \<open>Results\<close>

lemma client_run_list:
  assumes "0 < nrecv" and "nrecv < 2 ^ 31" and "num + k < 2 ^ 64"
  shows "client_run nrecv k pkt num = Inr (map (\<lambda>p. (kBasePort + int (p mod nat nrecv), pkt\<lparr>bp_psn := p\<rparr>)) [num ..< num + k])"
  using assms(3)
proof (induction k arbitrary: num)
  case (Suc k)
  have u: "u64_of_int nrecv = nat nrecv" using assms(1,2) by (simp add: u64_of_int_def)
  have i: "\<not> nat nrecv \<le> num mod nat nrecv" using assms(1) by (simp add: not_le)
  have "client_event nrecv False True pkt num = Inr (Some (kBasePort + int (num mod nat nrecv), pkt\<lparr>bp_psn := num\<rparr>), num + 1)"
    using Suc.prems assms(1) i by (simp add: client_event_def u client_ports_def u64_def Let_def)
  then show ?case using Suc.IH [of "num + 1"] Suc.prems by (simp add: upt_conv_Cons del: upt_Suc)
qed simp

text \<open>What the thread at a port receives when nothing is lost.\<close>

definition port_packets :: "int \<Rightarrow> (int \<times> bench_packet) list \<Rightarrow> bench_packet list" where
  "port_packets port ps = map snd (filter (\<lambda>(q, _). q = port) ps)"

lemma server_in_order:
  assumes "map bp_psn ps = [m ..< m + length ps]" and "m + length ps < 2 ^ 63"
  shows "server_run (map Some ps) (int m - 1) = Inr (replicate (length ps) False)"
  using assms
proof (induction ps arbitrary: m)
  case (Cons p ps)
  have p: "bp_psn p = m" "map bp_psn ps = [Suc m ..< Suc m + length ps]" using Cons.prems(1) by (simp_all add: upt_conv_Cons del: upt_Suc)
  show ?case using Cons.IH [OF p(2)] Cons.prems(2) p(1) by (simp add: server_recv_def i64_of_u64_def)
qed simp

text \<open>With one receiving thread and no loss the server reports no gap.\<close>

lemma one_thread_no_gap:
  assumes "k < 2 ^ 63"
  shows "\<exists>ps. client_run 1 k pkt 0 = Inr ps \<and> server_run (map Some (port_packets kBasePort ps)) (- 1) = Inr (replicate k False)"
proof -
  let ?ps = "map (\<lambda>p. (kBasePort + int (p mod nat 1), pkt\<lparr>bp_psn := p\<rparr>)) [0 ..< 0 + k]"
  have r: "client_run 1 k pkt 0 = Inr ?ps" using assms by (intro client_run_list) simp_all
  have "port_packets kBasePort ?ps = map (\<lambda>p. pkt\<lparr>bp_psn := p\<rparr>) [0 ..< k]" by (simp add: port_packets_def filter_map comp_def)
  then have "server_run (map Some (port_packets kBasePort ?ps)) (- 1) = Inr (replicate k False)"
    using server_in_order [of "map (\<lambda>p. pkt\<lparr>bp_psn := p\<rparr>) [0 ..< k]" 0] assms by (simp add: comp_def)
  then show ?thesis using r by blast
qed

text \<open>With two threads every packet after the first is reported as a gap, although none is lost.\<close>

lemma two_threads_gaps:
  "\<exists>ps. client_run 2 6 \<lparr>bp_psn = 0, bp_payload_len = 0\<rparr> 0 = Inr ps \<and> server_run (map Some (port_packets kBasePort ps)) (- 1) = Inr [False, True, True]"
proof -
  have r: "client_run 2 6 \<lparr>bp_psn = 0, bp_payload_len = 0\<rparr> 0
      = Inr (map (\<lambda>p. (kBasePort + int (p mod nat 2), \<lparr>bp_psn = 0, bp_payload_len = 0\<rparr>\<lparr>bp_psn := p\<rparr>)) [0 ..< 0 + 6])"
    by (rule client_run_list) simp_all
  show ?thesis unfolding r by (simp add: port_packets_def kBasePort_def upt_rec server_recv_def i64_of_u64_def)
qed

text \<open>The payload length counts the size of a pointer instead of the header's.\<close>

lemma payload_len_off: "14 \<le> sz \<Longrightarrow> sz < 2 ^ 16 \<Longrightarrow> client_packet sz = Inr \<lparr>bp_psn = 0, bp_payload_len = sz - sizeof_Packet + 2\<rparr>"
  by (simp add: client_packet_def sizeof_Packet_def usub64_id)

lemma bits_refused: "format_value n ''bits'' = Inl (Fatal ''unknown unit'')"
  by (simp add: format_value_def)

lemma no_receiver: "client_event 0 False True pkt num = Inl (Undefined_Behaviour ''psn % 0'')"
  by (simp add: client_event_def)

end
