(* ===== verification/Result_Type.thy ===== *)
theory Result_Type
  imports Prelude
begin

text \<open>
  The result type (\<open>src/src/mlt/include/prism/result.h\<close>): a flag, and storage that holds an object of one of two types and knows whether the lifetime of an object has
  begun in it. The C++ type is compared with the sum of the two types, and the lifetimes are followed through constructions, moves, copies and destructions.
\<close>

section \<open>Storage\<close>

record ('t, 'e) storage =
  sg_obj :: "('e + 't) option"
  sg_initialized :: bool

definition Storage :: "('t, 'e) storage" where
  "Storage = \<lparr>sg_obj = None, sg_initialized = False\<rparr>"

text \<open>Size and alignment of the storage, from those of the two types.\<close>

definition Storage_Size :: "nat \<times> nat \<Rightarrow> nat \<times> nat \<Rightarrow> nat" where
  "Storage_Size t e = (if fst t > fst e then fst t else fst e)"

definition Storage_Align :: "nat \<times> nat \<Rightarrow> nat \<times> nat \<Rightarrow> nat" where
  "Storage_Align t e = (if fst t > fst e then snd t else snd e)"

definition construct_ok :: "'t \<Rightarrow> ('t, 'e) storage \<Rightarrow> ('t, 'e) storage" where
  "construct_ok v st = st\<lparr>sg_obj := Some (Inr v), sg_initialized := True\<rparr>"

definition construct_err :: "'e \<Rightarrow> ('t, 'e) storage \<Rightarrow> ('t, 'e) storage" where
  "construct_err e st = st\<lparr>sg_obj := Some (Inl e), sg_initialized := True\<rparr>"

text \<open>\<open>get\<close> of a type whose object is not there is undefined.\<close>

definition get_ok :: "('t, 'e) storage \<Rightarrow> 't res" where
  "get_ok st = (case sg_obj st of Some (Inr v) \<Rightarrow> Inr v | _ \<Rightarrow> Inl (Undefined_Behaviour ''get<T>''))"

definition get_err :: "('t, 'e) storage \<Rightarrow> 'e res" where
  "get_err st = (case sg_obj st of Some (Inl e) \<Rightarrow> Inr e | _ \<Rightarrow> Inl (Undefined_Behaviour ''get<E>''))"

text \<open>With the number of objects destroyed.\<close>

definition destroy_ok :: "('t, 'e) storage \<Rightarrow> (('t, 'e) storage \<times> nat) res" where
  "destroy_ok st =
     (if sg_initialized st then rbind (get_ok st) (\<lambda>_. Inr (st\<lparr>sg_obj := None, sg_initialized := False\<rparr>, 1)) else Inr (st, 0))"

definition destroy_err :: "('t, 'e) storage \<Rightarrow> (('t, 'e) storage \<times> nat) res" where
  "destroy_err st =
     (if sg_initialized st then rbind (get_err st) (\<lambda>_. Inr (st\<lparr>sg_obj := None, sg_initialized := False\<rparr>, 1)) else Inr (st, 0))"

section \<open>Construction and destruction\<close>

record ('t, 'e) result =
  rt_ok :: bool
  rt_storage :: "('t, 'e) storage"

definition Result_Ok :: "'t \<Rightarrow> ('t, 'e) result" where
  "Result_Ok v = \<lparr>rt_ok = True, rt_storage = construct_ok v Storage\<rparr>"

definition Result_Err :: "'e \<Rightarrow> ('t, 'e) result" where
  "Result_Err e = \<lparr>rt_ok = False, rt_storage = construct_err e Storage\<rparr>"

definition isOk :: "('t, 'e) result \<Rightarrow> bool" where
  "isOk r = rt_ok r"

definition isErr :: "('t, 'e) result \<Rightarrow> bool" where
  "isErr r = (\<not> rt_ok r)"

text \<open>The new object, the moved-from one, and the number of objects destroyed.\<close>

definition Result_move :: "('t, 'e) result \<Rightarrow> (('t, 'e) result \<times> ('t, 'e) result \<times> nat) res" where
  "Result_move other =
     (if isOk other then
        rbind (get_ok (rt_storage other)) (\<lambda>v. rbind (destroy_ok (rt_storage other)) (\<lambda>(src, n).
          Inr (\<lparr>rt_ok = True, rt_storage = construct_ok v Storage\<rparr>, other\<lparr>rt_storage := src\<rparr>, n)))
      else
        rbind (get_err (rt_storage other)) (\<lambda>e. rbind (destroy_err (rt_storage other)) (\<lambda>(src, n).
          Inr (\<lparr>rt_ok = False, rt_storage = construct_err e Storage\<rparr>, other\<lparr>rt_storage := src\<rparr>, n))))"

definition Result_copy :: "('t, 'e) result \<Rightarrow> ('t, 'e) result res" where
  "Result_copy other =
     (if isOk other then rbind (get_ok (rt_storage other)) (\<lambda>v. Inr \<lparr>rt_ok = True, rt_storage = construct_ok v Storage\<rparr>)
      else rbind (get_err (rt_storage other)) (\<lambda>e. Inr \<lparr>rt_ok = False, rt_storage = construct_err e Storage\<rparr>))"

definition delete_Result :: "('t, 'e) result \<Rightarrow> nat res" where
  "delete_Result r = rbind (if rt_ok r then destroy_ok (rt_storage r) else destroy_err (rt_storage r)) (\<lambda>(_, n). Inr n)"

section \<open>Use\<close>

definition map_result :: "('t \<Rightarrow> 'u) \<Rightarrow> ('t, 'e) result \<Rightarrow> ('u, 'e) result res" where
  "map_result func r =
     (if isOk r then rbind (get_ok (rt_storage r)) (\<lambda>v. Inr (Result_Ok (func v)))
      else rbind (get_err (rt_storage r)) (\<lambda>e. Inr (Result_Err e)))"

text \<open>\<open>map\<close> with a callback that returns a result.\<close>

definition bind_result :: "('t \<Rightarrow> ('u, 'e) result) \<Rightarrow> ('t, 'e) result \<Rightarrow> ('u, 'e) result res" where
  "bind_result func r =
     (if isOk r then rbind (get_ok (rt_storage r)) (\<lambda>v. Inr (func v))
      else rbind (get_err (rt_storage r)) (\<lambda>e. Inr (Result_Err e)))"

definition mapError :: "('e \<Rightarrow> 'f) \<Rightarrow> ('t, 'e) result \<Rightarrow> ('t, 'f) result res" where
  "mapError func r =
     (if isErr r then rbind (get_err (rt_storage r)) (\<lambda>e. Inr (Result_Err (func e)))
      else rbind (get_ok (rt_storage r)) (\<lambda>v. Inr (Result_Ok v)))"

definition orElse :: "('e \<Rightarrow> ('t, 'f) result) \<Rightarrow> ('t, 'e) result \<Rightarrow> ('t, 'f) result res" where
  "orElse func r =
     (if isErr r then rbind (get_err (rt_storage r)) (\<lambda>e. Inr (func e))
      else rbind (get_ok (rt_storage r)) (\<lambda>v. Inr (Result_Ok v)))"

text \<open>The arguments the callback is called with, and the copy that is returned.\<close>

definition then_result :: "('t, 'e) result \<Rightarrow> ('t list \<times> ('t, 'e) result) res" where
  "then_result r =
     rbind (if isOk r then rbind (get_ok (rt_storage r)) (\<lambda>v. Inr [v]) else Inr []) (\<lambda>calls. rbind (Result_copy r) (\<lambda>c. Inr (calls, c)))"

definition otherwise :: "('t, 'e) result \<Rightarrow> ('e list \<times> ('t, 'e) result) res" where
  "otherwise r =
     rbind (if isErr r then rbind (get_err (rt_storage r)) (\<lambda>e. Inr [e]) else Inr []) (\<lambda>calls. rbind (Result_copy r) (\<lambda>c. Inr (calls, c)))"

definition expect :: "string \<Rightarrow> ('t, 'e) result \<Rightarrow> 't res" where
  "expect msg r = (if \<not> isOk r then Inl (Fatal msg) else get_ok (rt_storage r))"

definition unwrapOr :: "'t \<Rightarrow> ('t, 'e) result \<Rightarrow> 't res" where
  "unwrapOr d r = (if isOk r then get_ok (rt_storage r) else Inr d)"

definition unwrap :: "('t, 'e) result \<Rightarrow> 't res" where
  "unwrap r = (if isOk r then get_ok (rt_storage r) else Inl (Fatal ''Attempting to unwrap an error Result''))"

definition unwrapErr :: "('t, 'e) result \<Rightarrow> 'e res" where
  "unwrapErr r = (if isErr r then get_err (rt_storage r) else Inl (Fatal ''Attempting to unwrapErr an ok Result''))"

text \<open>\<open>operator==\<close>; with one value and one error the function ends without a \<open>return\<close>.\<close>

definition result_eq :: "('t, 'e) result \<Rightarrow> ('t, 'e) result \<Rightarrow> bool res" where
  "result_eq l r =
     (if isOk l \<and> isOk r then rbind (get_ok (rt_storage l)) (\<lambda>a. rbind (get_ok (rt_storage r)) (\<lambda>b. Inr (a = b)))
      else if isErr l \<and> isErr r then rbind (get_err (rt_storage l)) (\<lambda>a. rbind (get_err (rt_storage r)) (\<lambda>b. Inr (a = b)))
      else Inl (Undefined_Behaviour ''no return''))"

definition result_eq_Ok :: "('t, 'e) result \<Rightarrow> 't \<Rightarrow> bool res" where
  "result_eq_Ok l v = (if \<not> isOk l then Inr False else rbind (get_ok (rt_storage l)) (\<lambda>a. Inr (a = v)))"

definition result_eq_Err :: "('t, 'e) result \<Rightarrow> 'e \<Rightarrow> bool res" where
  "result_eq_Err l e = (if \<not> isErr l then Inr False else rbind (get_err (rt_storage l)) (\<lambda>a. Inr (a = e)))"

text \<open>\<open>TRY\<close>: the value, or the error the enclosing function returns.\<close>

definition TRY :: "('t, 'e) result \<Rightarrow> ('e + 't) res" where
  "TRY r = (if \<not> isOk r then rbind (get_err (rt_storage r)) (\<lambda>e. Inr (Inl e)) else rbind (get_ok (rt_storage r)) (\<lambda>v. Inr (Inr v)))"

section \<open>The sum type\<close>

text \<open>A result with a value of the kind its flag says, and the element of the sum it stands for.\<close>

definition stands_for :: "('t, 'e) result \<Rightarrow> 'e + 't \<Rightarrow> bool" where
  "stands_for r x \<longleftrightarrow> sg_initialized (rt_storage r) \<and> sg_obj (rt_storage r) = Some x \<and> (rt_ok r \<longleftrightarrow> \<not> isl x)"

lemma holds_Ok [simp]: "stands_for (Result_Ok v) x \<longleftrightarrow> x = Inr v"
  by (auto simp: stands_for_def Result_Ok_def construct_ok_def)

lemma holds_Err [simp]: "stands_for (Result_Err e) x \<longleftrightarrow> x = Inl e"
  by (auto simp: stands_for_def Result_Err_def construct_err_def)

lemma holds_get:
  "stands_for r (Inr v) \<Longrightarrow> isOk r \<and> \<not> isErr r \<and> get_ok (rt_storage r) = Inr v"
  "stands_for r (Inl e) \<Longrightarrow> \<not> isOk r \<and> isErr r \<and> get_err (rt_storage r) = Inr e"
  by (auto simp: stands_for_def isOk_def isErr_def get_ok_def get_err_def)

lemma holds_get_case:
  "stands_for r x \<Longrightarrow> (case x of Inl e \<Rightarrow> \<not> isOk r \<and> isErr r \<and> get_err (rt_storage r) = Inr e | Inr v \<Rightarrow> isOk r \<and> \<not> isErr r \<and> get_ok (rt_storage r) = Inr v)"
  by (cases x) (auto simp: holds_get)

definition res_holds :: "('t, 'e) result res \<Rightarrow> 'e + 't \<Rightarrow> bool" where
  "res_holds r x \<longleftrightarrow> (\<exists>y. r = Inr y \<and> stands_for y x)"

lemmas result_ops = map_result_def bind_result_def mapError_def orElse_def then_result_def otherwise_def expect_def unwrapOr_def unwrap_def
  unwrapErr_def result_eq_def result_eq_Ok_def result_eq_Err_def TRY_def Result_copy_def

lemma holds_value: "stands_for \<lparr>rt_ok = True, rt_storage = construct_ok v Storage\<rparr> (Inr v)" "stands_for \<lparr>rt_ok = False, rt_storage = construct_err e Storage\<rparr> (Inl e)"
  by (simp_all add: stands_for_def construct_ok_def construct_err_def)

text \<open>The result type implements the sum of the two types: on results that hold a value, \<open>map\<close>, \<open>map\<close> with a result, \<open>mapError\<close>, \<open>orElse\<close> and a copy give results
  that hold the mapped values; \<open>then\<close> and \<open>otherwise\<close> call back exactly on a value or an error; \<open>unwrap\<close> and the others give the value or end the program;
  and the comparison agrees with equality when both are of the same kind.\<close>

lemma result_refines_sum:
  assumes "stands_for r x" and "stands_for s y" and "\<And>v. stands_for (f v) (f' v)" and "\<And>e. stands_for (g e) (g' e)"
  shows "res_holds (map_result h r) (map_sum id h x)" and "res_holds (bind_result f r) (case x of Inl e \<Rightarrow> Inl e | Inr v \<Rightarrow> f' v)"
    and "res_holds (mapError k r) (map_sum k id x)" and "res_holds (orElse g r) (case x of Inl e \<Rightarrow> g' e | Inr v \<Rightarrow> Inr v)"
    and "res_holds (Result_copy r) x"
    and "\<exists>c. then_result r = Inr (case x of Inl _ \<Rightarrow> [] | Inr v \<Rightarrow> [v], c) \<and> stands_for c x"
    and "\<exists>c. otherwise r = Inr (case x of Inl e \<Rightarrow> [e] | Inr _ \<Rightarrow> [], c) \<and> stands_for c x"
    and "unwrapOr d r = Inr (case x of Inl _ \<Rightarrow> d | Inr v \<Rightarrow> v)" and "TRY r = Inr x"
    and "is_ok (unwrap r) \<longleftrightarrow> \<not> isl x" and "is_ok (expect m r) \<longleftrightarrow> \<not> isl x" and "is_ok (unwrapErr r) \<longleftrightarrow> isl x"
    and "isl x = isl y \<Longrightarrow> result_eq r s = Inr (x = y)"
    and "result_eq_Ok r v = Inr (x = Inr v)" and "result_eq_Err r e = Inr (x = Inl e)"
proof -
  note r = holds_get_case [OF assms(1)]
  note s = holds_get_case [OF assms(2)]
  note fg = assms(3,4)
  show "res_holds (map_result h r) (map_sum id h x)" using r by (cases x) (simp_all add: result_ops res_holds_def)
  show "res_holds (bind_result f r) (case x of Inl e \<Rightarrow> Inl e | Inr v \<Rightarrow> f' v)" using r fg by (cases x) (simp_all add: result_ops res_holds_def)
  show "res_holds (mapError k r) (map_sum k id x)" using r by (cases x) (simp_all add: result_ops res_holds_def)
  show "res_holds (orElse g r) (case x of Inl e \<Rightarrow> g' e | Inr v \<Rightarrow> Inr v)" using r fg by (cases x) (simp_all add: result_ops res_holds_def)
  show "res_holds (Result_copy r) x" using r by (cases x) (simp_all add: result_ops res_holds_def holds_value)
  show "\<exists>c. then_result r = Inr (case x of Inl _ \<Rightarrow> [] | Inr v \<Rightarrow> [v], c) \<and> stands_for c x" using r by (cases x) (simp_all add: result_ops holds_value)
  show "\<exists>c. otherwise r = Inr (case x of Inl e \<Rightarrow> [e] | Inr _ \<Rightarrow> [], c) \<and> stands_for c x" using r by (cases x) (simp_all add: result_ops holds_value)
  show "unwrapOr d r = Inr (case x of Inl _ \<Rightarrow> d | Inr v \<Rightarrow> v)" "TRY r = Inr x" using r by (cases x; simp add: result_ops)+
  show "is_ok (unwrap r) \<longleftrightarrow> \<not> isl x" "is_ok (expect m r) \<longleftrightarrow> \<not> isl x" "is_ok (unwrapErr r) \<longleftrightarrow> isl x"
    using r by (cases x; simp add: result_ops is_ok_def)+
  show "isl x = isl y \<Longrightarrow> result_eq r s = Inr (x = y)" using r s by (cases x; cases y) (simp_all add: result_ops)
  show "result_eq_Ok r v = Inr (x = Inr v)" "result_eq_Err r e = Inr (x = Inl e)" using r by (cases x; simp add: result_ops)+
qed

text \<open>A value and an error cannot be compared: the comparison has no result.\<close>

lemma result_eq_mixed: "result_eq (Result_Ok v) (Result_Err e) = Inl (Undefined_Behaviour ''no return'')"
  by (simp add: result_eq_def isOk_def isErr_def Result_Ok_def Result_Err_def)

text \<open>The alignment of the storage is the one of the larger type, not the larger alignment: sixteen characters or a \<open>double\<close>.\<close>

lemma storage_misaligned: "Storage_Align (16, 1) (8, 8) = 1" "Storage_Align t e \<ge> snd e \<longleftrightarrow> fst t \<le> fst e \<or> snd e \<le> snd t"
  by (auto simp: Storage_Align_def)

section \<open>Lifetimes\<close>

text \<open>Programs over variables that hold results: declarations with a value or an error, as a move of another variable or as a copy of it, and the end of a variable's scope.\<close>

datatype ('t, 'e) rcmd = New_Ok nat 't | New_Err nat 'e | Move nat nat | Copy nat nat | Drop nat

record ('t, 'e) rstate =
  rv_vars :: "nat \<rightharpoonup> ('t, 'e) result"
  rv_made :: nat
  rv_gone :: nat

definition declare_var :: "nat \<Rightarrow> ('t, 'e) result \<Rightarrow> ('t, 'e) rstate \<Rightarrow> ('t, 'e) rstate" where
  "declare_var x r s = s\<lparr>rv_vars := (rv_vars s)(x \<mapsto> r), rv_made := rv_made s + 1\<rparr>"

fun exec :: "('t, 'e) rcmd \<Rightarrow> ('t, 'e) rstate \<Rightarrow> ('t, 'e) rstate res" where
  "exec (New_Ok x v) s = Inr (declare_var x (Result_Ok v) s)"
| "exec (New_Err x e) s = Inr (declare_var x (Result_Err e) s)"
| "exec (Move x y) s =
     (case rv_vars s y of
        None \<Rightarrow> Inl (Undefined_Behaviour ''no variable'')
      | Some r \<Rightarrow> rbind (Result_move r) (\<lambda>(new, old, n). Inr (declare_var x new (s\<lparr>rv_vars := (rv_vars s)(y \<mapsto> old), rv_gone := rv_gone s + n\<rparr>))))"
| "exec (Copy x y) s =
     (case rv_vars s y of
        None \<Rightarrow> Inl (Undefined_Behaviour ''no variable'')
      | Some r \<Rightarrow> rbind (Result_copy r) (\<lambda>new. Inr (declare_var x new s)))"
| "exec (Drop x) s =
     (case rv_vars s x of
        None \<Rightarrow> Inl (Undefined_Behaviour ''no variable'')
      | Some r \<Rightarrow> rbind (delete_Result r) (\<lambda>n. Inr (s\<lparr>rv_vars := (rv_vars s)(x := None), rv_gone := rv_gone s + n\<rparr>)))"

text \<open>What the compiler knows: the variables in scope, and those of them that have not been moved from. A program is in order when it declares new variables
  only and does not use a variable that has been moved from.\<close>

fun in_order :: "('t, 'e) rcmd list \<Rightarrow> nat set \<Rightarrow> nat set \<Rightarrow> bool" where
  "in_order [] scope full \<longleftrightarrow> scope = {}"
| "in_order (New_Ok x v # cs) scope full \<longleftrightarrow> x \<notin> scope \<and> in_order cs (insert x scope) (insert x full)"
| "in_order (New_Err x e # cs) scope full \<longleftrightarrow> x \<notin> scope \<and> in_order cs (insert x scope) (insert x full)"
| "in_order (Move x y # cs) scope full \<longleftrightarrow> x \<notin> scope \<and> y \<in> full \<and> in_order cs (insert x scope) (insert x (full - {y}))"
| "in_order (Copy x y # cs) scope full \<longleftrightarrow> x \<notin> scope \<and> y \<in> full \<and> in_order cs (insert x scope) (insert x full)"
| "in_order (Drop x # cs) scope full \<longleftrightarrow> x \<in> scope \<and> in_order cs (scope - {x}) (full - {x})"

definition emptied :: "('t, 'e) result \<Rightarrow> bool" where
  "emptied r \<longleftrightarrow> \<not> sg_initialized (rt_storage r) \<and> sg_obj (rt_storage r) = None"

definition vars_inv :: "nat set \<Rightarrow> nat set \<Rightarrow> ('t, 'e) rstate \<Rightarrow> bool" where
  "vars_inv scope full s \<longleftrightarrow> finite scope \<and> full \<subseteq> scope \<and> dom (rv_vars s) = scope
     \<and> (\<forall>x \<in> full. \<exists>r v. rv_vars s x = Some r \<and> stands_for r v) \<and> (\<forall>x \<in> scope - full. \<exists>r. rv_vars s x = Some r \<and> emptied r)
     \<and> rv_made s = rv_gone s + card full"

lemma move_holds: "stands_for r v \<Longrightarrow> \<exists>new old. Result_move r = Inr (new, old, 1) \<and> stands_for new v \<and> emptied old"
  using holds_get_case [of r v]
  by (cases v) (auto simp: Result_move_def destroy_ok_def destroy_err_def stands_for_def emptied_def construct_ok_def construct_err_def)

lemma copy_holds: "stands_for r v \<Longrightarrow> \<exists>new. Result_copy r = Inr new \<and> stands_for new v"
  using holds_get_case [of r v] by (cases v) (auto simp: Result_copy_def holds_value)

lemma delete_holds: "stands_for r v \<Longrightarrow> delete_Result r = Inr 1" "emptied r \<Longrightarrow> delete_Result r = Inr 0"
  using holds_get_case [of r v]
  by (cases v; auto simp: delete_Result_def destroy_ok_def destroy_err_def stands_for_def isOk_def emptied_def)+

lemma vars_inv_declare:
  assumes "vars_inv scope full s" and "x \<notin> scope" and "stands_for r v"
  shows "vars_inv (insert x scope) (insert x full) (declare_var x r s)"
proof -
  have "finite full" "x \<notin> full" using assms by (auto simp: vars_inv_def intro: finite_subset)
  then have "card (insert x full) = Suc (card full)" by simp
  then show ?thesis using assms by (auto simp: vars_inv_def declare_var_def)
qed

lemma vars_inv_empty:
  assumes "vars_inv scope full s" and "y \<in> full" and "emptied old"
  shows "vars_inv scope (full - {y}) (s\<lparr>rv_vars := (rv_vars s)(y \<mapsto> old), rv_gone := rv_gone s + 1\<rparr>)"
proof -
  have "finite full" using assms by (auto simp: vars_inv_def intro: finite_subset)
  then have "card full = Suc (card (full - {y}))" using assms(2) by (rule card.remove)
  then show ?thesis using assms by (auto simp: vars_inv_def)
qed

lemma vars_inv_drop:
  assumes "vars_inv scope full s" and "x \<in> scope" and "n = (if x \<in> full then 1 else 0)"
  shows "vars_inv (scope - {x}) (full - {x}) (s\<lparr>rv_vars := (rv_vars s)(x := None), rv_gone := rv_gone s + n\<rparr>)"
proof -
  have f: "finite full" using assms by (auto simp: vars_inv_def intro: finite_subset)
  have "card full = n + card (full - {x})" using card.remove [OF f, of x] assms(3) by (cases "x \<in> full") auto
  then show ?thesis using assms by (auto simp: vars_inv_def)
qed

definition rstate_init :: "('t, 'e) rstate" where
  "rstate_init = \<lparr>rv_vars = Map.empty, rv_made = 0, rv_gone = 0\<rparr>"

lemma exec_in_order:
  assumes "vars_inv scope full s" and "in_order cs scope full"
  shows "\<exists>s'. rfold exec cs s = Inr s' \<and> vars_inv {} {} s'"
  using assms
proof (induction cs scope full arbitrary: s rule: in_order.induct)
  case (1 scope full)
  then show ?case by (auto simp: vars_inv_def)
next
  case (2 x v cs scope full)
  then show ?case using vars_inv_declare [OF 2(2), of x "Result_Ok v"] by simp
next
  case (3 x e cs scope full)
  then show ?case using vars_inv_declare [OF 3(2), of x "Result_Err e"] by simp
next
  case (4 x y cs scope full)
  obtain r v where r: "rv_vars s y = Some r" "stands_for r v" using 4(2,3) unfolding vars_inv_def in_order.simps by blast
  obtain new old where m: "Result_move r = Inr (new, old, 1)" "stands_for new v" "emptied old" using move_holds [OF r(2)] by auto
  have y: "y \<in> full" "x \<notin> scope" using 4 by auto
  show ?case using 4(1) [OF vars_inv_declare [OF vars_inv_empty [OF 4(2) y(1) m(3)] y(2) m(2)]] 4(3) r(1) m(1) by simp
next
  case (5 x y cs scope full)
  obtain r v where r: "rv_vars s y = Some r" "stands_for r v" using 5(2,3) unfolding vars_inv_def in_order.simps by blast
  obtain new where m: "Result_copy r = Inr new" "stands_for new v" using copy_holds [OF r(2)] by auto
  show ?case using 5(1) [OF vars_inv_declare [OF 5(2) _ m(2), of x]] 5(3) r(1) m(1) by simp
next
  case (6 x cs scope full)
  obtain r where r: "rv_vars s x = Some r" using 6 by (auto simp: vars_inv_def)
  have "delete_Result r = Inr (if x \<in> full then 1 else 0)"
  proof (cases "x \<in> full")
    case True
    then obtain v where "stands_for r v" using 6(2) r unfolding vars_inv_def by force
    then show ?thesis using True delete_holds(1) by simp
  next
    case False
    then have "emptied r" using 6(2,3) r unfolding vars_inv_def in_order.simps by force
    then show ?thesis using False delete_holds(2) by simp
  qed
  then show ?case using 6(1) [OF vars_inv_drop [OF 6(2)]] 6(3) r by simp
qed

text \<open>Every object that a result owns is destroyed exactly once: a program that declares its variables once, does not use a variable that has been moved from and ends
  the scope of every variable runs without undefined behaviour, and at its end as many objects have been destroyed as were constructed, although the moved-from
  variables are destroyed too.\<close>

lemma result_lifetimes:
  assumes "in_order cs {} {}"
  shows "\<exists>s. rfold exec cs rstate_init = Inr s \<and> rv_made s = rv_gone s \<and> rv_vars s = Map.empty"
proof -
  have "vars_inv {} {} rstate_init" by (simp add: vars_inv_def rstate_init_def)
  from exec_in_order [OF this assms] show ?thesis by (auto simp: vars_inv_def)
qed

text \<open>A variable that has been moved from still says that it holds a value, and using it reads an object that is gone.\<close>

lemma use_after_move:
  "Result_move (Result_Ok v) = Inr (new, old, n) \<Longrightarrow> isOk old \<and> unwrap old = Inl (Undefined_Behaviour ''get<T>'')"
  by (auto simp: Result_move_def isOk_def Result_Ok_def construct_ok_def get_ok_def destroy_ok_def unwrap_def)

end
