(* ===== verification/Spec2Isabelle.thy ===== *)
theory Spec2Isabelle
  imports Bitmap_Block_Mgr Spsc_Interleaving Reassembly Communicator Kv_Rounds Io_Streams Rdma_Pool Test_Run Network_Interfaces Udp_Bench Result_Type
begin

text \<open>
  Verification of a parameter server and its loss-tolerant transport.

  \<^bold>\<open>The program.\<close> The repository holds two layers. The lower one, MLT (\<open>src/src/mlt\<close>), carries gradient
  messages over UDP and tolerates the loss of a bounded part of each message; control signals go over
  TCP. The upper one is the parameter-server library (\<open>src/include/ps\<close>, \<open>src/src\<close>): workers push and
  pull key-value lists to and from servers, and a scheduler brings the nodes together.

  \<^bold>\<open>How MLT works, and where it is modelled.\<close>
  \<^item> \<open>Memory_Io\<close>, \<open>Io_Streams\<close>, \<open>Serializer\<close>: the memory streams, the buffered streams and the serialization of the
    \<open>dmlc\<close> headers (\<open>memory_io.h\<close>, \<open>io.h\<close>, \<open>serializer.h\<close>, \<open>endian.h\<close>). What a stream promises is a locale.
  \<^item> \<open>Block_Mgr\<close>, \<open>Tree_Block_Mgr\<close>, \<open>Bitmap_Block_Mgr\<close>: the sets of missing packet numbers
    (\<open>block_mgr.h\<close>, \<open>tree_block_mgr.h\<close>, \<open>bitmap_block_mgr.h\<close>). The interface is a locale, which both
    managers interpret.
  \<^item> \<open>Mlt_Global\<close>: the configuration (\<open>mlt_global.*\<close>).
  \<^item> \<open>Grad_Packet\<close>, \<open>Buffer\<close>, \<open>Lt_Message\<close>: packets, buffers, messages and signals with their byte
    layouts (\<open>grad_packet.h\<close>, \<open>buffer.h\<close>, \<open>ltmessage.h\<close>).
  \<^item> \<open>Packetizer\<close>: cutting a message into packets and choosing an endpoint (\<open>packetizer.*\<close>, \<open>prio_func.h\<close>).
    The priority function of a message is an argument, which gets the random numbers of each call; the properties ask of it what the default one, which is
    modelled, provides for sizes that are multiples of four. \<open>Udp_Endpoint\<close>: sending them (\<open>udp_endpoint.*\<close>).
  \<^item> \<open>Queues\<close>, \<open>Spsc_Interleaving\<close>, \<open>Meter\<close>, \<open>Ordered_Map\<close>: the queues (\<open>threadsafe_queue.h\<close>, \<open>spsc_queue.h\<close>,
    \<open>completion.*\<close>), the rate meters (\<open>meter.h\<close>), and \<open>std::map\<close>.
  \<^item> \<open>Conn_State\<close>, \<open>Priority_Channel\<close>, \<open>Receiving_Channel\<close>: the state of the connections and the two data
    threads (\<open>conn_meta.*\<close>, \<open>priority_channel.*\<close>, \<open>receiving_channel.*\<close>).
  \<^item> \<open>Rd_Endpoint\<close>, \<open>Communicator\<close>: the control connections, the thread that serves them, and the
    interface of the application (\<open>rd_endpoint.*\<close>, \<open>reliable_channel.*\<close>, \<open>mlt_communicator.*\<close>).
  \<^item> \<open>Reassembly\<close>: packets of the sender put through the receiver, in any order.
  \<^item> \<open>Test_App\<close>, \<open>Test_Run\<close>, \<open>Test_Barrier\<close>: the application that tests the transport, its host file, its options, its tests over the communicator,
    and its barrier as a step relation (\<open>test_mlt.cc\<close>, \<open>string_helper.h\<close>); \<open>Udp_Bench\<close>: the programs that measure plain UDP (\<open>client.cc\<close>,
    \<open>server.cc\<close>, \<open>config.h\<close>, \<open>app_context.*\<close>, \<open>packet.h\<close>, \<open>utils.h\<close>).
  \<^item> \<open>Result_Type\<close>: the result type with the lifetimes of what it holds (\<open>result.h\<close>).

  The sender of a flow announces it (\<open>PostSend\<close>), sends its packets at the rate of the connection, and
  signals the end; the receiver records the packets, asks for the missing blocks when the flow ends
  short of its bound, and asks the sender to stop once it has enough. Sender and receiver states
  are records on a heap of connections, since several channels hold pointers to the same one.

  \<^bold>\<open>How the parameter server works, and where it is modelled.\<close>
  \<^item> \<open>Ps_Message\<close>: nodes, messages and their packed form (\<open>message.h\<close>, \<open>meta.h\<close>, \<open>PackMeta\<close> and \<open>UnpackMeta\<close> of
    \<open>van.cc\<close>); \<open>Sarray\<close>: shared arrays and ranges (\<open>sarray.h\<close>, \<open>range.h\<close>).
  \<^item> \<open>Postoffice\<close>: node groups, key ranges, customers, barriers and heartbeats of a process
    (\<open>postoffice.*\<close>, \<open>base.h\<close>, \<open>env.h\<close>, \<open>utils.h\<close>).
  \<^item> \<open>Customer\<close>: tracking of requests and the receiving thread (\<open>customer.*\<close>), and \<open>SimpleApp\<close> (\<open>simple_app.h\<close>).
  \<^item> \<open>Kv_App\<close>: workers, servers, slicer and default handle (\<open>kv_app.h\<close>); \<open>Kv_Rounds\<close>: whole rounds of
    pushing and pulling.
  \<^item> \<open>Resender_Model\<close>: acknowledgement and resending (\<open>resender.h\<close>), with a link as a step relation whose network
    loses, repeats and reorders messages and acknowledgements, and on which \<open>Send\<close> is two steps, the sending and the recording in the buffer.
  \<^item> \<open>Std_Sort\<close>: the contract of \<open>std::sort\<close> as a locale, and the parallel sort over any function that keeps it (\<open>parallel_sort.h\<close>).
  \<^item> \<open>Van_Model\<close>: registration, recovery, barriers, heartbeats, delivery, start and stop (\<open>van.*\<close>).
  \<^item> \<open>Network_Interfaces\<close>: the choice of the address and the port a node announces (\<open>network_utils.h\<close>).
  \<^item> \<open>Zmq_Van\<close>: the transport over ZeroMQ, sockets and the frames of a message (\<open>zmq_van.h\<close>).
  \<^item> \<open>Rdma_Utils\<close>, \<open>Rdma_Transport\<close>, \<open>Rdma_Van\<close>: the transport over RDMA and shared memory (\<open>rdma_utils.h\<close>,
    \<open>rdma_transport.h\<close>, \<open>rdma_van.h\<close>), with the pool of buffer numbers as a locale; \<open>Rdma_Rendezvous\<close>, \<open>Rdma_Rounds\<close>, \<open>Rdma_Pull\<close>: the
    rendezvous, pushes and the answers to pulls, through the code of both ends; \<open>Rdma_Pool\<close>: the pool over the life of a van.

  A node registers at the scheduler; when all have, the scheduler orders them, gives them ids and sends
  the table around. A worker's request gets a timestamp, is sliced by the key ranges of the servers
  and is finished when all servers have answered, those that had nothing to answer being counted at once.
  The van hands a data message to the customer it is for, whose thread gives it to the application.
  Over RDMA, the first message for a key asks the receiver for a buffer, and the later ones are written into it.

  \<^bold>\<open>What is shown.\<close> The properties are numbered \<open>C1\<close>, \<open>C2\<close>, \dots in the theories. For MLT: what the packets of a
  message are and that together they are the message; that any packets that arrive are stored where they
  belong, that exactly the missing ones are requested and that these are sent again; that control
  signals and metadata arrive unchanged however TCP cuts them; that the lock-free queue is a queue in every
  interleaving; that over any interval a connection keeps its sending rate, but for packets sent again; that host files are read back, that the connection test passes, and that two calls of the
  test application's barrier are a barrier in every interleaving and always end. For the parameter server: that a message crosses the
  network unchanged; that the slicer partitions; that pushes and pulls do what they promise, end to end and for every
  order of the responses; that requests, barriers and registration finish exactly when all parts
  have arrived; that a node may announce the address of another interface than it is told; that the resender delivers once over a link that
  loses and repeats, and that no loss is final while retries are left; that the parallel sort sorts; that
  repeated pushes and pulls over RDMA deliver the values of their time, and buffer numbers stay valid. For the \<open>dmlc\<close> headers: that values of any
  supported type are read back as they were written, and that a value read stands for exactly the bytes consumed. For the result type: that it refines the sum of two types and destroys what it owns exactly once. Where the code
  does not keep what it means to, the property says what it does instead; these are the properties
  about errors, such as \<open>second_recovery\<close> or \<open>reconnect_fails\<close>.

  \<^bold>\<open>Conventions.\<close> \<open>Prelude\<close> holds the result type (\<open>Inl\<close> an error: a failed \<open>CHECK\<close>, or behaviour the language leaves
  undefined), machine arithmetic with the wrap-around written out, little-endian bytes and memory.
  Waiting for a condition is a predicate on the state; one turn of a thread's loop is a function, and
  concurrency is the order in which such functions are applied, or a step relation (\<open>Spsc_Interleaving\<close>, under
  sequential consistency; \<open>Resender_Model\<close>; \<open>Test_Barrier\<close>). Clocks, sockets, random numbers (given to each call that draws), the environment and user
  callbacks are parameters. Memory from \<open>malloc\<close> and members without an initialiser are zero; \<open>double\<close>
  values are rational. Hash maps whose order the code can see are association lists in insertion order.
  Logging and profiling output is left out.

  \<^bold>\<open>Loops.\<close> Most loops are structural recursion or folds. The loops that need a bound are: the packet loop of
  the packetizer, whose fuel is the size of the message, enough since every packet carries at least one
  byte; the polling rounds of a channel, as many as the code's constant; \<open>InitBacklog\<close>, which does not
  end (\<open>InitBacklog_diverges\<close>), and the parallel sort, which does (\<open>parallel_sort_is_sort\<close>), as partial functions.

  \<^bold>\<open>Not modelled.\<close> \<open>mlt_van.h\<close>, an unfinished copy of the test application that does not compile. \<open>parallel_kv_match.h\<close> and
  \<open>assign_op.h\<close> do not compile when they are used, and nothing uses them. Of the serializer, hash containers, whose order is unspecified, and
  classes with their own \<open>Save\<close> and \<open>Load\<close>. Of the RDMA van, the device and the connection manager: what the device does with a write is a
  hypothesis (\<open>dma_ok\<close>), the keys of regions and the events are parameters. Of the result type, its specialisation for \<open>void\<close>. Of the test
  application, the joining of threads when it ends. The Windows branches of \<open>network_utils.h\<close>. The rest is logging, configuration macros,
  wrappers of system calls, the InfiniBand helpers of \<open>prism\<close>, and the benchmark programs under \<open>src/tests\<close>.
\<close>

end
